(* ===== verification/Prelude.thy ===== *)
theory Prelude
  imports Main "HOL-Library.Word"
begin

text \<open>
  Shared vocabulary of the development: the machine integers of \<^verbatim>\<open>include/stddef.h\<close> as
  words, the kernel's flat 32-bit address space as a byte-valued function, little-endian 32-bit
  loads and stores over it, the status codes \<^verbatim>\<open>VALID\<close> and \<^verbatim>\<open>INVALID\<close>, and the lemmas on words
  and memory updates that the component theories rest on. The kernel runs identity-mapped in ring
  0, so a C pointer is a \<^typ>\<open>32 word\<close> and pointer arithmetic wraps as the machine's does.
\<close>

unbundle bit_operations_syntax

named_theorems mem_simps \<open>rewriting of reads over writes\<close>
named_theorems code_defs \<open>definitions a concrete evaluation unfolds\<close>

section \<open>Machine integers\<close>

type_synonym u8 = "8 word"
type_synonym u16 = "16 word"
type_synonym u32 = "32 word"
type_synonym u64 = "64 word"

text \<open>The C \<^verbatim>\<open>int\<close> and \<^verbatim>\<open>long\<close> of the i386 target: 32 bits, read signed where the code does.\<close>

type_synonym cint = "32 word"

type_synonym addr = "32 word"
type_synonym mem = "addr \<Rightarrow> u8"

definition NULL :: addr where
  [simp, code_defs]: "NULL = 0"

definition VALID :: cint where
  [simp, code_defs]: "VALID = 1"

definition INVALID :: cint where
  [simp, code_defs]: "INVALID = - 1"

section \<open>Words\<close>

lemma unat_dec: "(x :: 'a :: len word) \<noteq> 0 \<Longrightarrow> unat (x - 1) = unat x - 1"
  by (simp add: unat_minus_one)

lemma unat_dec_less: "(x :: 'a :: len word) \<noteq> 0 \<Longrightarrow> unat (x - 1) < unat x"
  by (simp add: unat_minus_one unat_gt_0)

lemma unat_inc:
  assumes "(x :: 'a :: len word) < y"
  shows "unat (x + 1) = unat x + 1"
proof -
  have "unat x + 1 < 2 ^ LENGTH('a)"
    using assms unsigned_less [of y] unfolding word_less_nat_alt
    by (metis Suc_eq_plus1 Suc_leI le_less_trans of_nat_unat unsigned_less)
  then show ?thesis
    by (simp add: unat_word_ariths)
qed

lemma unat_less_32 [simp]: "unat (x :: 32 word) < 4294967296"
  using unsigned_less [of x, where ?'a = nat] by simp

lemma unat_less_8 [simp]: "unat (x :: 8 word) < 256"
  using unsigned_less [of x, where ?'a = nat] by simp

lemma unat_ucast_8_32 [simp]: "unat (ucast (b :: 8 word) :: 32 word) = unat b"
proof -
  have "unat b < 2 ^ 32" by (rule less_trans [OF unat_less_8]) simp
  then show ?thesis by (simp add: unsigned_ucast_eq take_bit_nat_eq_self)
qed

lemma unat_of_nat32: "n < 4294967296 \<Longrightarrow> unat (of_nat n :: 32 word) = n"
  by (simp add: unat_of_nat)

lemma of_nat_inj32:
  "i < 4294967296 \<Longrightarrow> j < 4294967296 \<Longrightarrow> (of_nat i :: 32 word) = of_nat j \<longleftrightarrow> i = j"
  by (metis unat_of_nat32)

lemma word_pred_less_iff: "(x :: 'a :: len word) \<noteq> 0 \<Longrightarrow> c \<noteq> 0 \<Longrightarrow> x - 1 < c - 1 \<longleftrightarrow> x < c"
  using unat_gt_0 [of x] unat_gt_0 [of c] by (simp add: word_less_nat_alt unat_dec) linarith

lemma minus_one_not_less: "\<not> (- 1 :: 'a :: len word) < x"
  by (simp add: not_less)

lemma range_step:
  fixes a :: addr
  assumes "cnt \<noteq> 0"
  shows "a - des < cnt \<longleftrightarrow> a = des \<or> a - (des + 1) < cnt - 1"
proof (cases "a = des")
  case True
  then show ?thesis using assms by (simp add: word_gt_0)
next
  case False
  then have "a - des \<noteq> 0" by simp
  from word_pred_less_iff [OF this assms] False show ?thesis
    by (simp add: diff_diff_eq)
qed

lemma word_Suc_le: "(n :: 'a :: len word) \<le> c - 1 \<Longrightarrow> c \<noteq> 0 \<Longrightarrow> unat (n + 1) = unat n + 1 \<and> n + 1 \<le> c"
  using unat_inc [of n c] unat_gt_0 [of c]
  by (auto simp: word_le_nat_alt word_less_nat_alt unat_dec)

lemma word_less_Suc_cases: "(k :: 'a :: len word) < n + 1 \<Longrightarrow> unat (n + 1) = unat n + 1 \<Longrightarrow>
  k = 0 \<or> k - 1 < n"
  using unat_gt_0 [of k] by (auto simp: word_less_nat_alt unat_dec)

lemma below_range:
  assumes "j \<le> n" and "n + k + 1 < 4294967296"
  shows "\<not> (p + of_nat j) - (p + of_nat n + 1) < (of_nat k :: u32)"
proof
  let ?w = "(p + of_nat j) - (p + of_nat n + 1) :: u32"
  assume lt: "?w < of_nat k"
  then have q: "unat ?w < k" using assms by (simp add: word_less_nat_alt unat_of_nat32)
  have "(of_nat (unat ?w + (n + 1 - j)) :: u32) = 0"
    using assms by (simp add: of_nat_diff)
  then have "(2 :: nat) ^ LENGTH(32) dvd unat ?w + (n + 1 - j)"
    by (simp only: word_of_nat_eq_0_iff)
  moreover have "0 < unat ?w + (n + 1 - j)" "unat ?w + (n + 1 - j) < 2 ^ LENGTH(32)"
    using q assms by auto
  ultimately show False by (meson dvd_imp_le not_le)
qed

section \<open>Loads and stores\<close>

text \<open>Sixteen-bit cells, low byte first.\<close>

definition load16 :: "mem \<Rightarrow> addr \<Rightarrow> u16" where
  "load16 m p = ucast (m p) OR push_bit 8 (ucast (m (p + 1)))"

definition store16 :: "addr \<Rightarrow> u16 \<Rightarrow> mem \<Rightarrow> mem" where
  "store16 p v m = m(p := ucast v, p + 1 := ucast (drop_bit 8 v))"

lemma load16_store16 [simp, mem_simps]: "load16 (store16 p v m) p = v"
  by (rule bit_word_eqI) (auto simp: load16_def store16_def bit_simps)

lemma load16_store16_other: "q \<noteq> p \<Longrightarrow> q + 1 \<noteq> p \<Longrightarrow> q \<noteq> p + 1 \<Longrightarrow> load16 (store16 p v m) q = load16 m q"
  by (simp add: load16_def store16_def)

text \<open>
  \<^verbatim>\<open>*(size_t*)p\<close> and its assignment, byte by byte, least significant byte first.
\<close>

definition load32 :: "mem \<Rightarrow> addr \<Rightarrow> u32" where
  "load32 m a =
     ucast (m a) OR push_bit 8 (ucast (m (a + 1)))
       OR push_bit 16 (ucast (m (a + 2))) OR push_bit 24 (ucast (m (a + 3)))"

definition store32 :: "addr \<Rightarrow> u32 \<Rightarrow> mem \<Rightarrow> mem" where
  "store32 a v m =
     m(a := ucast v, a + 1 := ucast (drop_bit 8 v),
       a + 2 := ucast (drop_bit 16 v), a + 3 := ucast (drop_bit 24 v))"

text \<open>The byte addresses a 32-bit access touches.\<close>

definition word_at :: "addr \<Rightarrow> addr set" where
  "word_at a = {a, a + 1, a + 2, a + 3}"

lemma load32_store32 [simp, mem_simps]: "load32 (store32 a v m) a = v"
proof (rule bit_word_eqI)
  fix n assume n: "n < LENGTH(32)"
  have "bit (load32 (store32 a v m) a) n \<longleftrightarrow>
      n < 8 \<and> bit v n \<or> 8 \<le> n \<and> n < 16 \<and> bit v n \<or>
      16 \<le> n \<and> n < 24 \<and> bit v n \<or> 24 \<le> n \<and> n < 32 \<and> bit v n"
    by (simp add: load32_def store32_def bit_or_iff bit_ucast_iff bit_push_bit_iff bit_drop_bit_eq)
       (use n in auto)
  with n show "bit (load32 (store32 a v m) a) n = bit v n" by auto
qed

lemma store32_other [mem_simps]: "b \<notin> word_at a \<Longrightarrow> store32 a v m b = m b"
  by (simp add: store32_def word_at_def)

lemma load32_cong: "(\<And>b. b \<in> word_at a \<Longrightarrow> m b = m' b) \<Longrightarrow> load32 m a = load32 m' a"
  by (simp add: load32_def word_at_def)

lemma load32_store32_other [mem_simps]:
  "word_at b \<inter> word_at a = {} \<Longrightarrow> load32 (store32 a v m) b = load32 m b"
  by (rule load32_cong) (auto intro: store32_other)

lemma load32_byte_update [mem_simps]: "b \<notin> word_at a \<Longrightarrow> load32 (m(b := v)) a = load32 m a"
  by (rule load32_cong) auto

text \<open>A 32-bit access touches the four bytes at circular distance less than four.\<close>

lemma word_at_iff: "b \<in> word_at a \<longleftrightarrow> b - a < 4"
proof -
  have "d < 4 \<longleftrightarrow> d = 0 \<or> d = 1 \<or> d = 2 \<or> d = 3" for d :: u32
    by (auto simp: word_less_nat_alt word_unat_eq_iff)
  from this [of "b - a"] show ?thesis
    by (auto simp: word_at_def diff_eq_eq add.commute)
qed

text \<open>Consecutive 32-bit stores, as the page-table set-up loops perform them.\<close>

primrec fill32 :: "nat \<Rightarrow> addr \<Rightarrow> (nat \<Rightarrow> u32) \<Rightarrow> mem \<Rightarrow> mem" where
  "fill32 0 a f m = m"
| "fill32 (Suc n) a f m = fill32 n (a + 4) (\<lambda>k. f (Suc k)) (store32 a (f 0) m)"

lemma fill32_frame:
  assumes "4 * n < 4294967296" and "\<not> b - a < of_nat (4 * n)"
  shows "fill32 n a f m b = m b"
  using assms
proof (induction n arbitrary: a f m)
  case (Suc n)
  have "unat (of_nat (4 * Suc n) :: u32) = 4 * n + 4"
    using Suc.prems(1) by (subst unat_of_nat32) simp_all
  then have "unat (b - a) \<ge> 4 * n + 4"
    using Suc.prems(2) by (simp only: word_less_nat_alt not_less)
  moreover then have "unat (b - (a + 4)) = unat (b - a) - 4"
    using unat_sub [of 4 "b - a"] by (simp add: word_le_nat_alt diff_diff_eq)
  ultimately have "\<not> b - (a + 4) < of_nat (4 * n)" and "\<not> b - a < 4"
    using Suc.prems(1)
    by (auto simp: word_less_nat_alt unat_of_nat32 not_less simp del: of_nat_mult)
  with Suc.prems(1) Suc.IH [of "a + 4"] show ?case
    by (simp add: store32_other word_at_iff)
qed simp

lemma fill32_load:
  assumes "4 * n < 4294967292" and "k < n"
  shows "load32 (fill32 n a f m) (a + 4 * of_nat k) = f k"
  using assms
proof (induction n arbitrary: a f m k)
  case (Suc n)
  show ?case
  proof (cases k)
    case 0
    have "fill32 n (a + 4) (\<lambda>k. f (Suc k)) (store32 a (f 0) m) b = store32 a (f 0) m b"
      if "b \<in> word_at a" for b
    proof (rule fill32_frame)
      have "unat (b - a) \<le> 3" "b = a + of_nat (unat (b - a))"
        using that by (auto simp: word_at_iff word_less_nat_alt)
      then show "\<not> b - (a + 4) < of_nat (4 * n)"
        using below_range [of "unat (b - a)" 3 "4 * n" a] Suc.prems(1) by (simp add: add.commute)
    qed (use Suc.prems in simp)
    then have "load32 (fill32 n (a + 4) (\<lambda>k. f (Suc k)) (store32 a (f 0) m)) a =
        load32 (store32 a (f 0) m) a" by (rule load32_cong)
    with 0 show ?thesis by simp
  next
    case (Suc j)
    with Suc.prems Suc.IH [of j "a + 4"] show ?thesis
      by (simp add: algebra_simps)
  qed
qed simp

end
