(* ===== verification/Bits.thy ===== *)
theory Bits
  imports Prelude
begin

text \<open>
  The bit-map operations of \<^verbatim>\<open>lib/bits.c\<close>, over a buffer at address \<^verbatim>\<open>buf\<close> of the flat memory.
  They carry the page allocator (\<^verbatim>\<open>mm/page.c\<close>), the object caches (\<^verbatim>\<open>kernel/cache.c\<close>) and the
  cluster map of \<^verbatim>\<open>fs/mfs\<close>. \<^verbatim>\<open>bitread\<close> shifts the byte right without masking, so it reports a
  bit together with all the bits above it in the same byte; the lemmas say exactly what it and the
  two test-and-set operations decide.
\<close>

unbundle bit_operations_syntax

section \<open>Operations\<close>

definition bitset :: "u32 \<Rightarrow> addr \<Rightarrow> mem \<Rightarrow> mem" where
  "bitset index buf m =
     m(buf + index div 8 := m (buf + index div 8) OR push_bit (unat (index mod 8)) 1)"

definition bitclean :: "u32 \<Rightarrow> addr \<Rightarrow> mem \<Rightarrow> mem" where
  "bitclean index buf m =
     m(buf + index div 8 := m (buf + index div 8) AND NOT (push_bit (unat (index mod 8)) 1))"

text \<open>\<^verbatim>\<open>bitsset\<close> and \<^verbatim>\<open>bitsclean\<close> have empty bodies.\<close>

definition bitsset :: "u32 \<Rightarrow> u32 \<Rightarrow> addr \<Rightarrow> mem \<Rightarrow> mem" where
  "bitsset from to buf m = m"

definition bitsclean :: "u32 \<Rightarrow> u32 \<Rightarrow> addr \<Rightarrow> mem \<Rightarrow> mem" where
  "bitsclean from to buf m = m"

definition bitread :: "u32 \<Rightarrow> addr \<Rightarrow> mem \<Rightarrow> cint" where
  "bitread index buf m = ucast (drop_bit (unat (index mod 8)) (m (buf + index div 8)))"

definition bitrevers :: "u32 \<Rightarrow> addr \<Rightarrow> mem \<Rightarrow> mem" where
  "bitrevers index buf m =
     m(buf + index div 8 := m (buf + index div 8) XOR push_bit (unat (index mod 8)) 1)"

definition test0andset :: "u32 \<Rightarrow> addr \<Rightarrow> mem \<Rightarrow> cint \<times> mem" where
  "test0andset index buf m =
     (if bitread index buf m = 0 then (1, bitset index buf m) else (0, m))"

definition test1andset :: "u32 \<Rightarrow> addr \<Rightarrow> mem \<Rightarrow> cint \<times> mem" where
  "test1andset index buf m =
     (if bitread index buf m = 1 then (1, bitclean index buf m) else (0, m))"

lemmas bits_defs [code_defs] =
  bitset_def bitclean_def bitread_def bitrevers_def test0andset_def test1andset_def

section \<open>The bit map a buffer holds\<close>

definition bit_at :: "addr \<Rightarrow> mem \<Rightarrow> u32 \<Rightarrow> bool" where
  "bit_at buf m i \<longleftrightarrow> bit (m (buf + i div 8)) (unat (i mod 8))"

definition bits_of :: "addr \<Rightarrow> mem \<Rightarrow> u32 set" where
  "bits_of buf m = {i. bit_at buf m i}"

lemma unat_mod_8: "unat ((i :: u32) mod 8) = unat i mod 8"
  by (simp add: unat_mod)

lemma unat_div_8: "unat ((i :: u32) div 8) = unat i div 8"
  by (simp add: unat_div)

lemma index_eq_iff: "(i :: u32) = j \<longleftrightarrow> i div 8 = j div 8 \<and> unat (i mod 8) = unat (j mod 8)"
  by (metis word_mod_div_equality word_unat_eq_iff)

lemma bit_one_shift: "bit (2 ^ unat (i mod 8) :: u8) (unat (j mod 8)) \<longleftrightarrow>
    unat ((i :: u32) mod 8) = unat ((j :: u32) mod 8)"
  by (auto simp: bit_simps unat_mod_8)

lemma unat_mod_8_less [simp]: "unat ((i :: u32) mod 8) < 8"
  by (simp add: unat_mod_8)

lemma bit_at_bitset [simp]: "bit_at buf (bitset i buf m) j \<longleftrightarrow> j = i \<or> bit_at buf m j"
  by (auto simp: bit_at_def bitset_def bit_or_iff bit_one_shift index_eq_iff [of j i])

lemma bit_at_bitclean [simp]: "bit_at buf (bitclean i buf m) j \<longleftrightarrow> j \<noteq> i \<and> bit_at buf m j"
  by (auto simp: bit_at_def bitclean_def bit_and_iff bit_not_iff bit_one_shift
      index_eq_iff [of j i])

lemma bit_at_bitrevers [simp]:
  "bit_at buf (bitrevers i buf m) j \<longleftrightarrow> (bit_at buf m j \<noteq> (j = i))"
  by (auto simp: bit_at_def bitrevers_def bit_xor_iff bit_one_shift index_eq_iff [of j i])

lemma bit_at_other_buffer:
  "buf' + j div 8 \<noteq> a \<Longrightarrow> bit_at buf' (m(a := v)) j = bit_at buf' m j"
  by (simp add: bit_at_def)

section \<open>What reading a bit decides\<close>

text \<open>The bits of the same byte that lie above bit \<^term>\<open>i\<close>.\<close>

definition above :: "u32 \<Rightarrow> u32 \<Rightarrow> bool" where
  "above i j \<longleftrightarrow> j div 8 = i div 8 \<and> i < j"

lemma above_iff: "above i j \<longleftrightarrow> j div 8 = i div 8 \<and> unat (i mod 8) < unat (j mod 8)"
proof -
  have "unat j = unat (j div 8) * 8 + unat (j mod 8)" for j :: u32
    by (simp add: unat_div_8 unat_mod_8)
  from this [of i] this [of j] show ?thesis
    by (auto simp: above_def word_less_nat_alt)
qed

lemma same_byte_index:
  assumes "n < 8"
  obtains j :: u32 where "j div 8 = i div 8" and "unat (j mod 8) = n"
proof
  let ?n = "unat i div 8 * 8 + n"
  have "unat i div 8 * 8 + n < 4294967296"
    using assms less_mult_imp_div_less [of "unat i" 536870912 8] by simp
  then have un: "unat (of_nat ?n :: u32) = ?n"
    by (rule unat_of_nat32)
  show "(of_nat ?n :: u32) div 8 = i div 8"
    using assms un by (simp add: word_unat_eq_iff unat_div_8 del: of_nat_add of_nat_mult)
  show "unat ((of_nat ?n :: u32) mod 8) = n"
    using assms un by (simp add: unat_mod_8 del: of_nat_add of_nat_mult)
qed

lemma ucast_u8_eq_0 [simp]: "(ucast (b :: u8) :: u32) = 0 \<longleftrightarrow> b = 0"
  by (auto simp: word_unat_eq_iff)

lemma ucast_u8_eq_1 [simp]: "(ucast (b :: u8) :: u32) = 1 \<longleftrightarrow> b = 1"
  by (auto simp: word_unat_eq_iff)

lemma bits_above_iff:
  "(\<forall>k > unat (i mod 8). \<not> bit (m (buf + i div 8)) k) \<longleftrightarrow> (\<forall>j. above i j \<longrightarrow> \<not> bit_at buf m j)"
  (is "?l \<longleftrightarrow> ?r")
proof
  assume ?l
  then show ?r by (auto simp: above_iff bit_at_def)
next
  assume r: ?r
  show ?l
  proof (intro allI impI)
    fix k assume k: "unat (i mod 8) < k"
    show "\<not> bit (m (buf + i div 8)) k"
    proof (cases "k < 8")
      case True
      then obtain j where "j div 8 = i div 8" "unat (j mod 8) = k"
        using same_byte_index by blast
      with r k show ?thesis by (auto simp: bit_at_def above_iff)
    next
      case False
      then show ?thesis by (auto dest: bit_imp_le_length)
    qed
  qed
qed

lemma drop_bit_eq_iff: "drop_bit k (b :: u8) = c \<longleftrightarrow> (\<forall>n. bit b (k + n) \<longleftrightarrow> bit c n)"
proof
  assume "drop_bit k b = c"
  then show "\<forall>n. bit b (k + n) \<longleftrightarrow> bit c n"
    by (auto simp: bit_drop_bit_eq)
next
  assume "\<forall>n. bit b (k + n) \<longleftrightarrow> bit c n"
  then show "drop_bit k b = c"
    by (intro bit_word_eqI) (simp add: bit_drop_bit_eq)
qed

lemma all_add_iff: "(\<forall>n. P (k + n) \<longleftrightarrow> Q n) \<longleftrightarrow> (\<forall>n \<ge> k. P n \<longleftrightarrow> Q (n - (k :: nat)))"
  by (metis add_diff_cancel_left' le_add1 le_add_diff_inverse)

lemma drop_bit_eq_0_iff: "drop_bit k (b :: u8) = 0 \<longleftrightarrow> \<not> bit b k \<and> (\<forall>n > k. \<not> bit b n)"
  unfolding drop_bit_eq_iff all_add_iff by (auto simp: le_less)

lemma drop_bit_eq_1_iff: "drop_bit k (b :: u8) = 1 \<longleftrightarrow> bit b k \<and> (\<forall>n > k. \<not> bit b n)"
  unfolding drop_bit_eq_iff all_add_iff by (auto simp: le_less bit_1_iff)

lemma bitread_eq_0_iff:
  "bitread i buf m = 0 \<longleftrightarrow> \<not> bit_at buf m i \<and> (\<forall>j. above i j \<longrightarrow> \<not> bit_at buf m j)"
  by (simp add: bitread_def drop_bit_eq_0_iff bits_above_iff bit_at_def [of _ _ i])

lemma bitread_eq_1_iff:
  "bitread i buf m = 1 \<longleftrightarrow> bit_at buf m i \<and> (\<forall>j. above i j \<longrightarrow> \<not> bit_at buf m j)"
  by (simp add: bitread_def drop_bit_eq_1_iff bits_above_iff bit_at_def [of _ _ i])

section \<open>The test-and-set operations\<close>

text \<open>Bit \<^term>\<open>i\<close> and every bit above it in its byte are clear.\<close>

definition tail_clear :: "addr \<Rightarrow> mem \<Rightarrow> u32 \<Rightarrow> bool" where
  "tail_clear buf m i \<longleftrightarrow> \<not> bit_at buf m i \<and> (\<forall>j. above i j \<longrightarrow> \<not> bit_at buf m j)"

lemma bits_of_bitset [simp]: "bits_of buf (bitset i buf m) = insert i (bits_of buf m)"
  by (auto simp: bits_of_def)

lemma bits_of_bitclean [simp]: "bits_of buf (bitclean i buf m) = bits_of buf m - {i}"
  by (auto simp: bits_of_def)

lemma mem_bits_of [simp]: "i \<in> bits_of buf m \<longleftrightarrow> bit_at buf m i"
  by (simp add: bits_of_def)

lemma test0andset_cases:
  "test0andset i buf m = (if tail_clear buf m i then (1, bitset i buf m) else (0, m))"
  by (simp add: test0andset_def tail_clear_def bitread_eq_0_iff)

lemma test1andset_cases:
  "test1andset i buf m =
     (if bit_at buf m i \<and> (\<forall>j. above i j \<longrightarrow> \<not> bit_at buf m j)
      then (1, bitclean i buf m) else (0, m))"
  by (simp add: test1andset_def bitread_eq_1_iff)

text \<open>Neither operation writes outside the byte that holds its bit.\<close>

lemma test0andset_frame: "a \<noteq> buf + i div 8 \<Longrightarrow> snd (test0andset i buf m) a = m a"
  by (simp add: test0andset_def bitset_def)

lemma test1andset_frame: "a \<noteq> buf + i div 8 \<Longrightarrow> snd (test1andset i buf m) a = m a"
  by (simp add: test1andset_def bitclean_def)

end
