(* ===== verification/StringLib.thy ===== *)
theory StringLib
  imports Prelude
begin

text \<open>
  \<^verbatim>\<open>lib/string.c\<close> over the flat memory: the block operations (\<^verbatim>\<open>memcpy\<close>, \<^verbatim>\<open>memmove\<close>,
  \<^verbatim>\<open>memset\<close>), the bounded string operations (structural in the bound) and the unbounded ones,
  which are \<^theory_text>\<open>partial_function (option)\<close>: they scan for a terminator that need not exist, and
  not returning is \<^const>\<open>None\<close>. Every function returns what the C function returns and the memory
  it leaves. Address ranges are circular: \<open>a\<close> lies in the \<open>n\<close> bytes from \<open>p\<close> iff
  \<open>a - p < n\<close>.
\<close>

section \<open>Block operations\<close>

function memcpy_loop :: "addr \<Rightarrow> addr \<Rightarrow> u32 \<Rightarrow> mem \<Rightarrow> addr \<times> mem" where
  "memcpy_loop des src cnt m =
     (if cnt = 0 then (des, m) else memcpy_loop (des + 1) (src + 1) (cnt - 1) (m(des := m src)))"
  by pat_completeness auto
termination
  by (relation "measure (\<lambda>(des, src, cnt, m). unat cnt)") (auto simp: unat_dec_less)

declare memcpy_loop.simps [simp del]

definition memcpy :: "addr \<Rightarrow> addr \<Rightarrow> u32 \<Rightarrow> mem \<Rightarrow> u32 \<times> mem" where
  "memcpy des src cnt m = (case memcpy_loop des src cnt m of (d, m') \<Rightarrow> (d - des, m'))"

function memset_loop :: "addr \<Rightarrow> u8 \<Rightarrow> u32 \<Rightarrow> mem \<Rightarrow> addr \<times> mem" where
  "memset_loop des b cnt m =
     (if cnt = 0 then (des, m) else memset_loop (des + 1) b (cnt - 1) (m(des := b)))"
  by pat_completeness auto
termination
  by (relation "measure (\<lambda>(des, b, cnt, m). unat cnt)") (auto simp: unat_dec_less)

declare memset_loop.simps [simp del]

definition memset :: "addr \<Rightarrow> cint \<Rightarrow> u32 \<Rightarrow> mem \<Rightarrow> u32 \<times> mem" where
  "memset des tom cnt m = (case memset_loop des (ucast tom) cnt m of (d, m') \<Rightarrow> (d - des, m'))"

text \<open>
  The descending branch of \<^verbatim>\<open>memmove\<close> uses \<^verbatim>\<open>cnt\<close> after \<^verbatim>\<open>cnt--\<close> has decremented it, and subtracts
  one more: its last index is \<^verbatim>\<open>-1\<close>.
\<close>

function memmove_down :: "addr \<Rightarrow> addr \<Rightarrow> u32 \<Rightarrow> mem \<Rightarrow> mem" where
  "memmove_down des src cnt m =
     (if cnt = 0 then m
      else let c = cnt - 1 in memmove_down des src c (m(des + c - 1 := m (src + c - 1))))"
  by pat_completeness auto
termination
  by (relation "measure (\<lambda>(des, src, cnt, m). unat cnt)") (auto simp: unat_dec_less)

declare memmove_down.simps [simp del]

definition memmove :: "addr \<Rightarrow> addr \<Rightarrow> u32 \<Rightarrow> mem \<Rightarrow> u32 \<times> mem" where
  "memmove des src cnt m =
     (if des < src then (case memcpy_loop des src cnt m of (d, m') \<Rightarrow> (d - des, m'))
      else if src < des then (des - src, memmove_down des src cnt m)
      else (0, m))"

section \<open>Bounded string operations\<close>

text \<open>\<^verbatim>\<open>char\<close> is signed on the target, and the difference of two \<^verbatim>\<open>char\<close>s is an \<^verbatim>\<open>int\<close>.\<close>

definition char_diff :: "u8 \<Rightarrow> u8 \<Rightarrow> cint" where
  "char_diff a b = scast a - scast b"

function strncmp :: "addr \<Rightarrow> addr \<Rightarrow> u32 \<Rightarrow> mem \<Rightarrow> cint" where
  "strncmp des src mx m =
     (if m des \<noteq> 0 \<and> m src \<noteq> 0 \<and> char_diff (m des) (m src) = 0 \<and> mx \<noteq> 0
      then strncmp (des + 1) (src + 1) (mx - 1) m
      else char_diff (m des) (m src))"
  by pat_completeness auto
termination
  by (relation "measure (\<lambda>(des, src, mx, m). unat mx)") (auto simp: unat_dec_less)

function strncpy_loop :: "addr \<Rightarrow> addr \<Rightarrow> u32 \<Rightarrow> mem \<Rightarrow> addr \<times> mem" where
  "strncpy_loop des src mx m =
     (if m src \<noteq> 0 \<and> mx \<noteq> 0
      then strncpy_loop (des + 1) (src + 1) (mx - 1) (m(des := m src)) else (des, m))"
  by pat_completeness auto
termination
  by (relation "measure (\<lambda>(des, src, mx, m). unat mx)") (auto simp: unat_dec_less)

definition strncpy :: "addr \<Rightarrow> addr \<Rightarrow> u32 \<Rightarrow> mem \<Rightarrow> u32 \<times> mem" where
  "strncpy des src mx m = (case strncpy_loop des src mx m of (d, m') \<Rightarrow> (d - des, m'))"

function strnlen_loop :: "addr \<Rightarrow> u32 \<Rightarrow> mem \<Rightarrow> addr" where
  "strnlen_loop des mx m =
     (if m des \<noteq> 0 \<and> mx \<noteq> 0 then strnlen_loop (des + 1) (mx - 1) m else des)"
  by pat_completeness auto
termination
  by (relation "measure (\<lambda>(des, mx, m). unat mx)") (auto simp: unat_dec_less)

definition strnlen :: "addr \<Rightarrow> u32 \<Rightarrow> mem \<Rightarrow> u32" where
  "strnlen des mx m = strnlen_loop des mx m - des"

definition lower_char :: "u8 \<Rightarrow> u8" where
  "lower_char c = (if 65 \<le>s c \<and> c <s 90 then c + 65 - 97 else c)"

definition upper_char :: "u8 \<Rightarrow> u8" where
  "upper_char c = (if 97 \<le>s c \<and> c <s 122 then c + 97 - 65 else c)"

function convn_loop :: "(u8 \<Rightarrow> u8) \<Rightarrow> addr \<Rightarrow> u32 \<Rightarrow> mem \<Rightarrow> addr \<times> mem" where
  "convn_loop f des mx m =
     (if m des \<noteq> 0 \<and> mx \<noteq> 0
      then convn_loop f (des + 1) (mx - 1) (m(des := f (m des))) else (des, m))"
  by pat_completeness auto
termination
  by (relation "measure (\<lambda>(f, des, mx, m). unat mx)") (auto simp: unat_dec_less)

definition tonlower :: "addr \<Rightarrow> u32 \<Rightarrow> mem \<Rightarrow> u32 \<times> mem" where
  "tonlower des mx m = (case convn_loop lower_char des mx m of (d, m') \<Rightarrow> (d - des, m'))"

definition tonupper :: "addr \<Rightarrow> u32 \<Rightarrow> mem \<Rightarrow> u32 \<times> mem" where
  "tonupper des mx m = (case convn_loop upper_char des mx m of (d, m') \<Rightarrow> (d - des, m'))"

declare strncmp.simps [simp del] strncpy_loop.simps [simp del] strnlen_loop.simps [simp del]
  convn_loop.simps [simp del]

section \<open>Unbounded string operations\<close>

text \<open>\<^verbatim>\<open>while (*p++);\<close> also steps over the terminator.\<close>

partial_function (option) skip_string :: "addr \<Rightarrow> mem \<Rightarrow> addr option" where
  "skip_string p m = (if m p = 0 then Some (p + 1) else skip_string (p + 1) m)"

partial_function (option) copy_string :: "addr \<Rightarrow> addr \<Rightarrow> mem \<Rightarrow> (addr \<times> mem) option" where
  "copy_string des src m =
     (if m src = 0 then Some (des, m) else copy_string (des + 1) (src + 1) (m(des := m src)))"

definition strlen :: "addr \<Rightarrow> mem \<Rightarrow> u32 option" where
  "strlen des m = map_option (\<lambda>d. d - des) (skip_string des m)"

definition strcat :: "addr \<Rightarrow> addr \<Rightarrow> mem \<Rightarrow> (u32 \<times> mem) option" where
  "strcat des src m =
     Option.bind (skip_string des m)
       (\<lambda>tmp. map_option (\<lambda>(d, m'). (d - tmp, m')) (copy_string tmp src m))"

definition strcpy :: "addr \<Rightarrow> addr \<Rightarrow> mem \<Rightarrow> (u32 \<times> mem) option" where
  "strcpy des src m = map_option (\<lambda>(d, m'). (d - des, m')) (copy_string des src m)"

partial_function (option) strcmp :: "addr \<Rightarrow> addr \<Rightarrow> mem \<Rightarrow> cint option" where
  "strcmp des src m =
     (if m des \<noteq> 0 \<and> m src \<noteq> 0 \<and> char_diff (m des) (m src) = 0 then strcmp (des + 1) (src + 1) m
      else Some (char_diff (m des) (m src)))"

partial_function (option) conv_loop :: "(u8 \<Rightarrow> u8) \<Rightarrow> addr \<Rightarrow> mem \<Rightarrow> (addr \<times> mem) option" where
  "conv_loop f des m =
     (if m des = 0 then Some (des, m) else conv_loop f (des + 1) (m(des := f (m des))))"

definition tolower :: "addr \<Rightarrow> mem \<Rightarrow> (u32 \<times> mem) option" where
  "tolower des m = map_option (\<lambda>(d, m'). (d - des, m')) (conv_loop lower_char des m)"

definition toupper :: "addr \<Rightarrow> mem \<Rightarrow> (u32 \<times> mem) option" where
  "toupper des m = map_option (\<lambda>(d, m'). (d - des, m')) (conv_loop upper_char des m)"

text \<open>
  \<^verbatim>\<open>strstr\<close>: on the first character of \<^verbatim>\<open>des\<close> that equals the first of \<^verbatim>\<open>src\<close> it matches on and
  then compares the \<^emph>\<open>pointer\<close> \<^verbatim>\<open>tmps\<close> with \<^verbatim>\<open>NULL\<close>. The outer loop advances \<^verbatim>\<open>tmps\<close> with every
  character of \<^verbatim>\<open>des\<close>.
\<close>

partial_function (option) strstr_match :: "addr \<Rightarrow> addr \<Rightarrow> mem \<Rightarrow> addr option" where
  "strstr_match des tmps m =
     (if m tmps = 0 then Some tmps
      else if m des = m tmps then strstr_match (des + 1) (tmps + 1) m
      else Some (tmps + 1))"

partial_function (option) strstr_loop :: "addr \<Rightarrow> addr \<Rightarrow> addr \<Rightarrow> mem \<Rightarrow> addr option" where
  "strstr_loop des src tmps m =
     (if m des = 0 \<or> m src = 0 then Some NULL
      else if m des = m tmps then
        (let tmpd = tmps in
         Option.bind (strstr_match (des + 1) (tmps + 1) m)
           (\<lambda>t. if t = NULL then Some tmpd else Some NULL))
      else strstr_loop (des + 1) src (tmps + 1) m)"

definition strstr :: "addr \<Rightarrow> addr \<Rightarrow> mem \<Rightarrow> addr option" where
  "strstr des src m = strstr_loop des src src m"

section \<open>What the block and bounded operations do\<close>

lemma memcpy_loop_eq:
  assumes "src = des \<or> cnt \<le> des - src"
  shows "memcpy_loop des src cnt m =
    (des + cnt, \<lambda>a. if a - des < cnt then m (src + (a - des)) else m a)"
  using assms
proof (induction des src cnt m rule: memcpy_loop.induct)
  case (1 des src cnt m)
  show ?case
  proof (cases "cnt = 0")
    case True
    then show ?thesis by (subst memcpy_loop.simps) simp
  next
    case False
    let ?m = "m(des := m src)"
    have "src + 1 = des + 1 \<or> cnt - 1 \<le> (des + 1) - (src + 1)"
      using "1.prems" False by (auto simp: word_le_nat_alt unat_dec)
    note IH = "1.IH" [OF False this]
    have eq: "memcpy_loop des src cnt m = memcpy_loop (des + 1) (src + 1) (cnt - 1) ?m"
      using False by (subst memcpy_loop.simps) simp
    have "(if a - (des + 1) < cnt - 1 then ?m (src + 1 + (a - (des + 1))) else ?m a) =
        (if a - des < cnt then m (src + (a - des)) else m a)" for a
    proof (cases "a = des")
      case True
      then show ?thesis using False minus_one_not_less [of "cnt - 1"] by (simp add: word_gt_0)
    next
      case a: False
      have "src + (a - des) \<noteq> des" if lt: "a - des < cnt"
      proof
        assume "src + (a - des) = des"
        then have "a - des = des - src" by (metis add_diff_cancel_left')
        with lt "1.prems" a show False by auto
      qed
      with a show ?thesis by (simp add: range_step [OF False] algebra_simps)
    qed
    then show ?thesis unfolding eq IH by simp
  qed
qed

lemma memset_loop_eq:
  "memset_loop des b cnt m = (des + cnt, \<lambda>a. if a - des < cnt then b else m a)"
proof (induction des b cnt m rule: memset_loop.induct)
  case (1 des b cnt m)
  show ?case
  proof (cases "cnt = 0")
    case True
    then show ?thesis by (subst memset_loop.simps) simp
  next
    case False
    then have "memset_loop des b cnt m = memset_loop (des + 1) b (cnt - 1) (m(des := b))"
      by (subst memset_loop.simps) simp
    then show ?thesis
      unfolding "1.IH" [OF False] by (auto simp: range_step [OF False] fun_eq_iff)
  qed
qed

lemma memmove_down_eq:
  assumes "src = des \<or> cnt \<le> src - des"
  shows "memmove_down des src cnt m =
    (\<lambda>a. if a - (des - 1) < cnt then m (src + (a - des)) else m a)"
  using assms
proof (induction des src cnt m rule: memmove_down.induct)
  case (1 des src cnt m)
  show ?case
  proof (cases "cnt = 0")
    case True
    then show ?thesis by (subst memmove_down.simps) simp
  next
    case False
    let ?c = "cnt - 1" and ?m = "m(des + (cnt - 1) - 1 := m (src + (cnt - 1) - 1))"
    have "src = des \<or> ?c \<le> src - des"
      using "1.prems" False by (auto simp: word_le_nat_alt unat_dec)
    note IH = "1.IH" [OF False refl this]
    have eq: "memmove_down des src cnt m = memmove_down des src ?c ?m"
      using False by (subst memmove_down.simps) (simp only: Let_def if_False)
    have c: "?c < cnt" using False by (simp add: word_less_nat_alt unat_dec_less)
    have "(if a - (des - 1) < ?c then ?m (src + (a - des)) else ?m a) =
        (if a - (des - 1) < cnt then m (src + (a - des)) else m a)" for a
    proof -
      define k where "k = a - (des - 1)"
      have a: "a = des + k - 1" by (simp add: k_def)
      consider "k < ?c" | "k = ?c" | "\<not> k < cnt"
        using False by (fastforce simp: word_less_nat_alt word_unat_eq_iff unat_dec)
      then show ?thesis
      proof cases
        case 1
        have "src + (a - des) \<noteq> des + ?c - 1"
        proof
          assume "src + (a - des) = des + ?c - 1"
          then have d: "src - des = ?c - k" by (simp add: a algebra_simps)
          have "?c - k \<le> ?c" using 1 by (simp add: word_sub_le less_imp_le)
          with d c 1 "1.prems" show False by auto
        qed
        moreover have "k < cnt" using 1 c by (rule less_trans)
        ultimately show ?thesis using 1 by (simp add: k_def)
      next
        case 2
        then have "a = des + ?c - 1" "src + (a - des) = src + ?c - 1" by (simp_all add: a)
        then have "?m a = m (src + (a - des))" by (simp only: fun_upd_same)
        moreover have "\<not> k < ?c" "k < cnt" using 2 c by simp_all
        ultimately show ?thesis by (simp only: k_def if_True if_False)
      next
        case 3
        with c have "k \<noteq> ?c" "\<not> k < ?c" by auto
        then have "a \<noteq> des + ?c - 1" by (auto simp: a)
        with 3 \<open>\<not> k < ?c\<close> show ?thesis by (simp add: k_def)
      qed
    qed
    then show ?thesis unfolding eq IH by (rule ext)
  qed
qed


lemma char_diff_eq_0 [simp]: "char_diff a b = 0 \<longleftrightarrow> a = b"
proof -
  have "scast (scast c :: cint) = c" for c :: u8
    by (rule scast_up_scast_id) (simp add: is_up)
  then have "(scast a :: cint) = scast b \<longleftrightarrow> a = b" by metis
  then show ?thesis by (simp add: char_diff_def)
qed

text \<open>
  The common shape of the bounded scans: \<open>n\<close> is the first offset, at most \<open>mx\<close>, where \<open>stop\<close>
  holds, or \<open>mx\<close> itself.
\<close>

definition scan_end :: "(u32 \<Rightarrow> bool) \<Rightarrow> u32 \<Rightarrow> u32 \<Rightarrow> bool" where
  "scan_end stop mx n \<longleftrightarrow> n \<le> mx \<and> (\<forall>k < n. \<not> stop k) \<and> (n = mx \<or> stop n)"

lemma scan_end_0: "stop 0 \<or> mx = 0 \<Longrightarrow> scan_end stop mx 0"
  by (auto simp: scan_end_def)

lemma scan_end_step:
  assumes "\<not> stop 0" and "mx \<noteq> 0" and "scan_end (\<lambda>k. stop (1 + k)) (mx - 1) n"
  shows "scan_end stop mx (1 + n)"
proof -
  from assms have le: "n \<le> mx - 1" by (simp add: scan_end_def)
  from word_Suc_le [OF this assms(2)] have u: "unat (n + 1) = unat n + 1" and m: "n + 1 \<le> mx"
    by auto
  have "\<not> stop k" if "k < 1 + n" for k
    using word_less_Suc_cases [of k n] that u assms by (auto simp: scan_end_def add.commute)
  with assms m show ?thesis
    by (auto simp: scan_end_def algebra_simps)
qed

lemma scan_end_unique: "scan_end stop mx n \<Longrightarrow> scan_end stop mx n' \<Longrightarrow> n = n'"
  unfolding scan_end_def by (metis linorder_neqE order_le_less_trans order.order_iff_strict)

lemma strnlen_loop_scan: "\<exists>n. strnlen_loop des mx m = des + n \<and> scan_end (\<lambda>k. m (des + k) = 0) mx n"
proof (induction des mx m rule: strnlen_loop.induct)
  case (1 des mx m)
  show ?case
  proof (cases "m des \<noteq> 0 \<and> mx \<noteq> 0")
    case True
    with "1.IH" obtain n where "strnlen_loop (des + 1) (mx - 1) m = des + 1 + n"
      and "scan_end (\<lambda>k. m (des + 1 + k) = 0) (mx - 1) n" by blast
    with True show ?thesis
      using scan_end_step [of "\<lambda>k. m (des + k) = 0" mx n]
      by (intro exI [of _ "1 + n"]) (simp add: strnlen_loop.simps [of des mx] add.assoc)
  next
    case False
    then show ?thesis
      by (intro exI [of _ 0]) (auto simp: strnlen_loop.simps [of des mx] intro: scan_end_0)
  qed
qed

lemma strnlen_scan: "scan_end (\<lambda>k. m (des + k) = 0) mx (strnlen des mx m)"
  using strnlen_loop_scan [of des mx m] by (auto simp: strnlen_def)

lemma strncmp_scan: "\<exists>n. strncmp des src mx m = char_diff (m (des + n)) (m (src + n)) \<and>
  scan_end (\<lambda>k. m (des + k) = 0 \<or> m (des + k) \<noteq> m (src + k)) mx n"
proof (induction des src mx m rule: strncmp.induct)
  case (1 des src mx m)
  show ?case
  proof (cases "m des \<noteq> 0 \<and> m src \<noteq> 0 \<and> char_diff (m des) (m src) = 0 \<and> mx \<noteq> 0")
    case True
    with "1.IH" obtain n where
      "strncmp (des + 1) (src + 1) (mx - 1) m = char_diff (m (des + 1 + n)) (m (src + 1 + n))"
      and "scan_end (\<lambda>k. m (des + 1 + k) = 0 \<or> m (des + 1 + k) \<noteq> m (src + 1 + k)) (mx - 1) n"
      by blast
    with True show ?thesis
      using scan_end_step [of "\<lambda>k. m (des + k) = 0 \<or> m (des + k) \<noteq> m (src + k)" mx n]
      by (intro exI [of _ "1 + n"]) (simp add: strncmp.simps [of des src mx] add.assoc)
  next
    case False
    then show ?thesis
      by (intro exI [of _ 0]) (auto simp: strncmp.simps [of des src mx] intro: scan_end_0)
  qed
qed

lemma memcpy_eq:
  "src = des \<or> cnt \<le> des - src \<Longrightarrow>
   memcpy des src cnt m = (cnt, \<lambda>a. if a - des < cnt then m (src + (a - des)) else m a)"
  by (simp add: memcpy_def memcpy_loop_eq)

lemma memset_eq: "memset des tom cnt m = (cnt, \<lambda>a. if a - des < cnt then ucast tom else m a)"
  by (simp add: memset_def memset_loop_eq)

lemma strnlen_Suc:
  assumes "m src \<noteq> 0" and "mx \<noteq> 0"
  shows "strnlen src mx m = 1 + strnlen (src + 1) (mx - 1) m \<and> strnlen src mx m \<noteq> 0"
proof -
  have "strnlen src mx m = 1 + strnlen (src + 1) (mx - 1) m"
    using assms by (simp add: strnlen_def strnlen_loop.simps [of src mx])
  moreover have "strnlen (src + 1) (mx - 1) m \<le> mx - 1"
    using strnlen_scan by (simp add: scan_end_def)
  ultimately show ?thesis
    using word_Suc_le [OF _ assms(2)] by (metis add.commute add_is_0 one_neq_zero unat_0)
qed

lemma strnlen_cong:
  assumes "\<And>k. k \<le> strnlen p mx m \<Longrightarrow> m' (p + k) = m (p + k)"
  shows "strnlen p mx m' = strnlen p mx m"
  using strnlen_scan [of m p mx] strnlen_scan [of m' p mx] assms
  by (intro scan_end_unique [of "\<lambda>k. m' (p + k) = 0" mx]) (auto simp: scan_end_def)

text \<open>\<^verbatim>\<open>strncpy\<close> is a block copy of the bytes before the terminator, at most \<open>mx\<close> of them.\<close>

lemma strncpy_loop_memcpy:
  assumes "src = des \<or> strnlen src mx m < des - src"
  shows "strncpy_loop des src mx m = memcpy_loop des src (strnlen src mx m) m"
  using assms
proof (induction des src mx m rule: strncpy_loop.induct)
  case (1 des src mx m)
  show ?case
  proof (cases "m src \<noteq> 0 \<and> mx \<noteq> 0")
    case False
    then have "strnlen src mx m = 0" by (auto simp: strnlen_def strnlen_loop.simps [of src mx])
    with False show ?thesis
      by (auto simp: strncpy_loop.simps [of des src mx] memcpy_loop.simps [of des src 0])
  next
    case True
    let ?m = "m(des := m src)"
    define n where "n = strnlen (src + 1) (mx - 1) m"
    from True strnlen_Suc [of m src mx] have n: "strnlen src mx m = 1 + n" "1 + n \<noteq> 0"
      by (auto simp: n_def)
    have hit: "?m (src + 1 + k) = m (src + 1 + k)" if "k \<le> n" for k
    proof (cases "src = des")
      case False
      from that n(2) have "1 + k \<le> 1 + n"
        using word_Suc_le [of k "1 + n"] by (simp add: add.commute)
      with False "1.prems" n have "des - src \<noteq> 1 + k" by auto
      then have "src + 1 + k \<noteq> des" by (auto simp: algebra_simps)
      then show ?thesis by simp
    qed simp
    then have n': "strnlen (src + 1) (mx - 1) ?m = n"
      unfolding n_def by (rule strnlen_cong)
    have "n < 1 + n" 
      using n(2) word_Suc_le [of n "1 + n"] by (simp add: word_less_nat_alt add.commute)
    then have "src + 1 = des + 1 \<or> n < (des + 1) - (src + 1)"
      using "1.prems" n by auto
    with "1.IH" [OF True, unfolded n'] have
      "strncpy_loop (des + 1) (src + 1) (mx - 1) ?m = memcpy_loop (des + 1) (src + 1) n ?m" .
    with True n show ?thesis
      by (simp only: strncpy_loop.simps [of des src mx] memcpy_loop.simps [of des src "1 + n"])
         simp
  qed
qed

definition cstr :: "mem \<Rightarrow> addr \<Rightarrow> nat \<Rightarrow> bool" where
  "cstr m p n \<longleftrightarrow> (\<forall>k < n. m (p + of_nat k) \<noteq> 0) \<and> m (p + of_nat n) = 0"

lemma cstr_Suc: "cstr m p (Suc n) \<longleftrightarrow> m p \<noteq> 0 \<and> cstr m (p + 1) n"
  by (auto simp: cstr_def less_Suc_eq_0_disj algebra_simps)

lemma skip_string_cstr: "cstr m p n \<Longrightarrow> skip_string p m = Some (p + of_nat n + 1)"
proof (induction n arbitrary: p)
  case 0
  then show ?case by (subst skip_string.simps) (simp add: cstr_def)
next
  case (Suc n)
  then show ?case
    by (subst skip_string.simps) (simp add: cstr_Suc algebra_simps)
qed

lemma strlen_cstr: "cstr m p n \<Longrightarrow> strlen p m = Some (of_nat n + 1)"
  by (simp add: strlen_def skip_string_cstr)

lemma strcmp_prefix:
  "\<forall>k < n. m (des + of_nat k) = m (src + of_nat k) \<and> m (des + of_nat k) \<noteq> 0 \<Longrightarrow>
   m (des + of_nat n) \<noteq> m (src + of_nat n) \<or> m (des + of_nat n) = 0 \<Longrightarrow>
   strcmp des src m = Some (char_diff (m (des + of_nat n)) (m (src + of_nat n)))"
proof (induction n arbitrary: des src)
  case 0
  then show ?case by (subst strcmp.simps) auto
next
  case (Suc n)
  have "strcmp (des + 1) (src + 1) m =
      Some (char_diff (m (des + 1 + of_nat n)) (m (src + 1 + of_nat n)))"
    using Suc.prems by (intro Suc.IH) (auto simp: less_Suc_eq_0_disj algebra_simps)
  moreover from Suc.prems have "m des = m src" "m des \<noteq> 0"
    by (auto simp: less_Suc_eq_0_disj)
  ultimately show ?case by (subst strcmp.simps) (simp add: algebra_simps)
qed

lemma copy_string_memcpy:
  assumes "cstr m src n" and "src = des \<or> of_nat n < des - src" and "n < 4294967296"
  shows "copy_string des src m = Some (memcpy_loop des src (of_nat n) m)"
  using assms
proof (induction n arbitrary: des src m)
  case 0
  then show ?case
    by (subst copy_string.simps) (simp add: cstr_def memcpy_loop.simps [of des src 0])
next
  case (Suc n)
  let ?m = "m(des := m src)"
  from Suc.prems(1) have src: "m src \<noteq> 0" "cstr m (src + 1) n" by (simp_all add: cstr_Suc)
  from Suc.prems(3) have nz: "(of_nat (Suc n) :: u32) \<noteq> 0"
    by (simp add: word_unat_eq_iff unat_of_nat32 del: of_nat_Suc)
  have hit: "src = des \<or> src + 1 + of_nat k \<noteq> des" if "k \<le> n" for k
  proof (rule disjCI)
    assume h: "\<not> src + 1 + of_nat k \<noteq> des"
    then have "des - src = of_nat (Suc k)" by (auto simp: algebra_simps)
    moreover have "(of_nat (Suc k) :: u32) \<le> of_nat (Suc n)"
      using that Suc.prems(3) by (simp add: word_le_nat_alt unat_of_nat32 del: of_nat_Suc)
    ultimately show "src = des" using Suc.prems(2) by auto
  qed
  have c1: "cstr ?m (src + 1) n"
  proof (cases "src = des")
    case True
    with src show ?thesis by simp
  next
    case False
    with hit have "?m (src + 1 + of_nat k) = m (src + 1 + of_nat k)" if "k \<le> n" for k
      using that by auto
    with src(2) show ?thesis unfolding cstr_def by simp
  qed
  have c2: "src + 1 = des + 1 \<or> of_nat n < (des + 1) - (src + 1)"
    using Suc.prems(2,3) by (auto simp: word_less_nat_alt unat_of_nat32 simp del: of_nat_Suc)
  have c3: "n < 4294967296" using Suc.prems(3) by simp
  have "copy_string des src m = copy_string (des + 1) (src + 1) ?m"
    using src by (subst copy_string.simps) simp
  also have "\<dots> = Some (memcpy_loop (des + 1) (src + 1) (of_nat n) ?m)"
    by (rule Suc.IH [OF c1 c2 c3])
  also have "memcpy_loop (des + 1) (src + 1) (of_nat n) ?m = memcpy_loop des src (of_nat (Suc n)) m"
    using nz by (subst (2) memcpy_loop.simps) simp
  finally show ?case .
qed

section \<open>Properties\<close>

text \<open>memcpy returns the count and copies the bytes when the destination does not lie inside the source;
  nothing else changes.\<close>

theorem memcpy_copies:
  assumes "src = des \<or> cnt \<le> des - src"
  shows "memcpy des src cnt m = (cnt, \<lambda>a. if a - des < cnt then m (src + (a - des)) else m a)"
  using assms by (rule memcpy_eq)

theorem memcpy_copies_witness:
  "memcpy 256 16 3 (\<lambda>a. ucast a) =
     (3, \<lambda>a. if a - 256 < 3 then ucast (16 + (a - 256)) else ucast a)"
  using memcpy_copies [of 16 256 3 "\<lambda>a. ucast a"] by simp

text \<open>The descending branch of memmove moves the bytes one position too low.\<close>

theorem memmove_descending:
  assumes "src < des" and "cnt \<le> src - des"
  shows "memmove des src cnt m =
    (des - src, \<lambda>a. if a - (des - 1) < cnt then m (src + (a - des)) else m a)"
  using assms memmove_down_eq [of src des cnt m] by (auto simp: memmove_def)

theorem memmove_descending_witness:
  "memmove 18 16 4 (\<lambda>a. ucast a) =
     (2, \<lambda>a. if a - 17 < 4 then ucast (16 + (a - 18)) else ucast a) \<and>
   snd (memmove 18 16 4 (\<lambda>a. ucast a)) 17 = 15 \<and> snd (memmove 18 16 4 (\<lambda>a. ucast a)) 21 = 21"
  using memmove_descending [of 16 18 4 "\<lambda>a. ucast a"] by simp

text \<open>strncmp is 0 exactly when the strings agree up to a common terminator or up to and including
  position max_.\<close>

theorem strncmp_zero_iff:
  "strncmp des src mx m = 0 \<longleftrightarrow>
     (\<exists>n \<le> mx. (\<forall>k < n. m (des + k) = m (src + k) \<and> m (des + k) \<noteq> 0) \<and>
        m (des + n) = m (src + n) \<and> (n = mx \<or> m (des + n) = 0))"
  (is "?l \<longleftrightarrow> ?r")
proof -
  obtain n where n: "strncmp des src mx m = char_diff (m (des + n)) (m (src + n))"
    and scan: "scan_end (\<lambda>k. m (des + k) = 0 \<or> m (des + k) \<noteq> m (src + k)) mx n"
    using strncmp_scan by blast
  show ?thesis
  proof
    assume ?l
    with n scan show ?r by (auto simp: scan_end_def)
  next
    assume ?r
    then obtain n' where n': "n' \<le> mx" "\<forall>k < n'. m (des + k) = m (src + k) \<and> m (des + k) \<noteq> 0"
      "m (des + n') = m (src + n')" "n' = mx \<or> m (des + n') = 0" by blast
    then have "scan_end (\<lambda>k. m (des + k) = 0 \<or> m (des + k) \<noteq> m (src + k)) mx n'"
      by (auto simp: scan_end_def)
    with scan have "n = n'" by (rule scan_end_unique)
    with n n' show ?l by simp
  qed
qed

theorem strncmp_zero_iff_witness: "strncmp 16 32 2 (\<lambda>_. 7) = 0"
  unfolding strncmp_zero_iff by (rule exI [of _ 2]) simp

text \<open>strncpy copies the characters and no terminator.\<close>

theorem strncpy_copies:
  assumes "src = des \<or> strnlen src mx m < des - src"
  shows "strncpy des src mx m =
    (strnlen src mx m, \<lambda>a. if a - des < strnlen src mx m then m (src + (a - des)) else m a)"
proof -
  have "src = des \<or> strnlen src mx m \<le> des - src" using assms by auto
  then show ?thesis
    using strncpy_loop_memcpy [OF assms] by (simp add: strncpy_def memcpy_loop_eq)
qed

lemma strnlen_eval: "m p \<noteq> 0 \<Longrightarrow> mx \<noteq> 0 \<Longrightarrow> strnlen p mx m = 1 + strnlen (p + 1) (mx - 1) m"
  "m p = 0 \<Longrightarrow> strnlen p mx m = 0" "strnlen p 0 m = 0"
  using strnlen_Suc [of m p mx] by (auto simp: strnlen_def strnlen_loop.simps [of p])

theorem strncpy_copies_witness:
  "fst (strncpy 256 16 14 ((\<lambda>a. 0)(16 := 97, 17 := 98))) = 2 \<and>
   snd (strncpy 256 16 14 ((\<lambda>a. 0)(16 := 97, 17 := 98))) 257 = 98"
  using strncpy_copies [of 16 256 14 "(\<lambda>a. 0)(16 := 97, 17 := 98)"]
  by (simp add: strnlen_eval)

text \<open>strcat appends after the terminator, so the string at the destination does not change.\<close>

theorem strcat_keeps_string:
  assumes "cstr m des n" and "cstr m src k" and "n + k + 1 < 4294967296"
    and "of_nat k < des + of_nat n + 1 - src"
  shows "\<exists>m'. strcat des src m = Some (of_nat k, m') \<and> cstr m' des n \<and>
    (\<forall>j \<le> n. m' (des + of_nat j) = m (des + of_nat j))"
proof -
  let ?tmp = "des + of_nat n + 1"
  let ?m = "\<lambda>a. if a - ?tmp < of_nat k then m (src + (a - ?tmp)) else m a"
  have "copy_string ?tmp src m = Some (memcpy_loop ?tmp src (of_nat k) m)"
    using assms by (intro copy_string_memcpy) auto
  moreover have "memcpy_loop ?tmp src (of_nat k) m = (?tmp + of_nat k, ?m)"
    using assms(4) by (intro memcpy_loop_eq) auto
  ultimately have "strcat des src m = Some (of_nat k, ?m)"
    by (simp add: strcat_def skip_string_cstr [OF assms(1)])
  moreover have keep: "?m (des + of_nat j) = m (des + of_nat j)" if "j \<le> n" for j
    using below_range [OF that assms(3)] by simp
  moreover have "cstr ?m des n"
    using assms(1) unfolding cstr_def using keep by (metis less_imp_le_nat order_refl)
  ultimately show ?thesis by (intro exI [of _ ?m]) blast
qed

theorem strcat_keeps_string_witness:
  "\<exists>m'. strcat 256 16 ((\<lambda>a. 0)(16 := 98, 256 := 97)) = Some (1, m') \<and> cstr m' 256 1"
  using strcat_keeps_string [of "(\<lambda>a. 0)(16 := 98, 256 := 97)" 256 1 16 1]
  by (auto simp: cstr_def)

end
