(* ===== verification/Kmalloc.thy ===== *)
theory Kmalloc
  imports Prelude
begin

text \<open>
  The kernel heap of \<^verbatim>\<open>mm/kmalloc.c\<close>: a bump pointer that only grows; \<^verbatim>\<open>kfree\<close> has an empty body.
  The record holds the globals of the memory subsystem that later theories share: the memory, the
  heap pointer, the \<^verbatim>\<open>pagemap\<close> pointer of \<^verbatim>\<open>mm/page.c\<close> and the paging registers \<^verbatim>\<open>startpage\<close>
  loads.
\<close>

record kstate =
  kmem :: mem
  pool :: addr
  pagemap :: addr
  cr3_reg :: u32
  paging_on :: bool

definition kmalloc :: "u32 \<Rightarrow> kstate \<Rightarrow> addr \<times> kstate" where
  "kmalloc cnt s =
     (pool s, s\<lparr>pool := pool s + (cnt div 4 * 4 + (if cnt mod 4 = 0 then 0 else 4))\<rparr>)"

definition kfree :: "addr \<Rightarrow> kstate \<Rightarrow> kstate" where
  "kfree p s = s"

text \<open>A sequence of requests and the addresses they are given.\<close>

fun kmallocs :: "u32 list \<Rightarrow> kstate \<Rightarrow> addr list \<times> kstate" where
  "kmallocs [] s = ([], s)"
| "kmallocs (c # cs) s =
     (let (p, s1) = kmalloc c s; (ps, s2) = kmallocs cs s1 in (p # ps, s2))"

text \<open>The size a request takes: rounded up to a multiple of four.\<close>

definition round4 :: "nat \<Rightarrow> nat" where
  "round4 n = n div 4 * 4 + (if n mod 4 = 0 then 0 else 4)"

lemma round4_bounds: "n \<le> round4 n" "round4 n < n + 4" "4 dvd round4 n"
proof -
  show "n \<le> round4 n" unfolding round4_def by presburger
  show "round4 n < n + 4" unfolding round4_def by presburger
  show "4 dvd round4 n" unfolding round4_def by auto
qed

lemma round4_word: "c div 4 * 4 + (if c mod 4 = 0 then 0 else 4) = (of_nat (round4 (unat c)) :: u32)"
proof -
  have "unat c div 4 < 4294967296"
    by (rule le_less_trans [OF div_le_dividend unat_less_32])
  then have "(of_nat (unat c div 4) :: u32) = c div 4"
    by (simp add: word_unat_eq_iff unat_of_nat32 unat_div)
  moreover have "c mod 4 = 0 \<longleftrightarrow> unat c mod 4 = 0"
    by (simp add: word_unat_eq_iff unat_mod)
  ultimately show ?thesis by (simp add: round4_def)
qed

lemma unat_pool_kmalloc:
  assumes "unat (pool s) + round4 (unat c) < 4294967296"
  shows "unat (pool (snd (kmalloc c s))) = unat (pool s) + round4 (unat c)"
proof -
  have "unat (of_nat (round4 (unat c)) :: u32) = round4 (unat c)"
    using assms by (intro unat_of_nat32) simp
  with assms show ?thesis
    by (simp add: kmalloc_def round4_word unat_word_ariths)
qed

lemma kmallocs_length [simp]: "length (fst (kmallocs cs s)) = length cs"
  by (induction cs arbitrary: s) (auto simp: split_def Let_def)

lemma kmallocs_lower:
  assumes "unat (pool s) + sum_list (map (round4 \<circ> unat) cs) < 4294967296"
    and "j < length cs"
  shows "unat (pool s) \<le> unat (fst (kmallocs cs s) ! j)"
  using assms
proof (induction cs arbitrary: s j)
  case (Cons c cs)
  then have p: "unat (pool (snd (kmalloc c s))) = unat (pool s) + round4 (unat c)"
    by (intro unat_pool_kmalloc) simp
  show ?case
  proof (cases j)
    case 0
    then show ?thesis by (simp add: kmalloc_def split_def Let_def)
  next
    case (Suc k)
    with Cons.prems Cons.IH [of "snd (kmalloc c s)" k] p show ?thesis
      by (simp add: split_def Let_def)
  qed
qed simp

text \<open>A sequence of kmalloc calls that fits below 4 GB returns regions in increasing order that do not
  overlap.\<close>

theorem kmallocs_disjoint:
  assumes "unat (pool s) + sum_list (map (round4 \<circ> unat) cs) < 4294967296"
    and "i < j" and "j < length cs"
  shows "unat (fst (kmallocs cs s) ! i) + unat (cs ! i) \<le> unat (fst (kmallocs cs s) ! j)"
  using assms
proof (induction cs arbitrary: s i j)
  case (Cons c cs)
  let ?s = "snd (kmalloc c s)"
  from Cons.prems have p: "unat (pool ?s) = unat (pool s) + round4 (unat c)"
    by (intro unat_pool_kmalloc) simp
  obtain k where j: "j = Suc k" using Cons.prems by (cases j) auto
  show ?case
  proof (cases i)
    case 0
    have "unat (pool ?s) \<le> unat (fst (kmallocs cs ?s) ! k)"
      using Cons.prems j p by (intro kmallocs_lower) (auto simp: comp_def)
    with p round4_bounds(1) [of "unat c"] show ?thesis
      by (simp add: 0 j kmalloc_def split_def Let_def)
  next
    case (Suc i')
    with Cons.prems j p Cons.IH [of ?s i' k] show ?thesis
      by (simp add: split_def Let_def)
  qed
qed simp

theorem kmallocs_disjoint_witness:
  "unat (fst (kmallocs [3, 8] \<lparr>kmem = \<lambda>_. 0, pool = 4195328, pagemap = 0, cr3_reg = 0,
      paging_on = False\<rparr>) ! 0) + 3
   \<le> unat (fst (kmallocs [3, 8] \<lparr>kmem = \<lambda>_. 0, pool = 4195328, pagemap = 0, cr3_reg = 0,
      paging_on = False\<rparr>) ! 1)"
  using kmallocs_disjoint [of "\<lparr>kmem = \<lambda>_. 0, pool = 4195328, pagemap = 0, cr3_reg = 0,
      paging_on = False\<rparr>" "[3, 8]" 0 1]
  by (simp add: round4_def)

end
