(* ===== verification/Slots.thy ===== *)
theory Slots
  imports Main
begin

text \<open>
  The contract the kernel's two bit-map allocators share: page frames (\<^verbatim>\<open>allocpage\<close>, \<^verbatim>\<open>freepage\<close>
  of \<^verbatim>\<open>mm/page.c\<close>) and cache blocks (\<^verbatim>\<open>kcache_malloc\<close>, \<^verbatim>\<open>kcache_free\<close> of \<^verbatim>\<open>kernel/cache.c\<close>).
  An allocation either fails and changes nothing or marks one unmarked slot; a release unmarks at
  most the slot it names (it may leave it marked: the bit map cannot always clear a bit). That is
  enough for the property clients rely on: a slot handed out is never one that is still held. It is
  proved here once, for every sequence of allocations and of releases of held slots.
\<close>

datatype 'i slot_op = Alloc | Free 'i

text \<open>
  A run threads the allocator state, the set of slots the clients hold and the list of slots handed
  out. A release of a slot that is not held is no step: the run is \<^const>\<open>None\<close>.
\<close>

fun slot_run :: "('s \<Rightarrow> 'i option \<times> 's) \<Rightarrow> ('i \<Rightarrow> 's \<Rightarrow> 's) \<Rightarrow> 's \<Rightarrow> 'i set \<Rightarrow> 'i slot_op list
    \<Rightarrow> ('s \<times> 'i set \<times> 'i list) option" where
  "slot_run alloc free s held [] = Some (s, held, [])"
| "slot_run alloc free s held (Alloc # ops) =
     (case alloc s of
        (None, s') \<Rightarrow> slot_run alloc free s' held ops
      | (Some i, s') \<Rightarrow>
          map_option (\<lambda>(t, h, given). (t, h, i # given))
            (slot_run alloc free s' (insert i held) ops))"
| "slot_run alloc free s held (Free i # ops) =
     (if i \<in> held then slot_run alloc free (free i s) (held - {i}) ops else None)"

locale slot_alloc =
  fixes inv :: "'s \<Rightarrow> bool"
    and used :: "'s \<Rightarrow> 'i set"
    and alloc :: "'s \<Rightarrow> 'i option \<times> 's"
    and free :: "'i \<Rightarrow> 's \<Rightarrow> 's"
  assumes alloc_None: "inv s \<Longrightarrow> alloc s = (None, s') \<Longrightarrow> inv s' \<and> used s' = used s"
    and alloc_Some: "inv s \<Longrightarrow> alloc s = (Some i, s') \<Longrightarrow>
      inv s' \<and> i \<notin> used s \<and> used s' = insert i (used s)"
    and free_upper: "inv s \<Longrightarrow> i \<in> used s \<Longrightarrow> inv (free i s) \<and> used (free i s) \<subseteq> used s"
    and free_lower: "inv s \<Longrightarrow> i \<in> used s \<Longrightarrow> used s - {i} \<subseteq> used (free i s)"
begin

lemma run_inv:
  assumes "slot_run alloc free s held ops = Some (t, h, given)" and "inv s" and "held \<subseteq> used s"
  shows "inv t \<and> h \<subseteq> used t"
  using assms
proof (induction ops arbitrary: s held given)
  case Nil
  then show ?case by simp
next
  case (Cons op ops)
  show ?case
  proof (cases op)
    case Alloc
    obtain r s' where a: "alloc s = (r, s')" by fastforce
    show ?thesis
    proof (cases r)
      case None
      with a Alloc Cons show ?thesis using alloc_None [of s s'] by auto
    next
      case (Some i)
      with a Alloc Cons.prems obtain g
        where g: "slot_run alloc free s' (insert i held) ops = Some (t, h, g)" by auto
      from a Some Cons.prems have "inv s'" "insert i held \<subseteq> used s'"
        using alloc_Some [of s i s'] by auto
      with g show ?thesis by (rule Cons.IH)
    qed
  next
    case (Free i)
    with Cons.prems have i: "i \<in> held"
      and g: "slot_run alloc free (free i s) (held - {i}) ops = Some (t, h, given)"
      by (auto split: if_splits)
    from i Cons.prems have "inv (free i s)" "held - {i} \<subseteq> used (free i s)"
      using free_lower [of s i] free_upper [of s i] by auto
    with g show ?thesis by (rule Cons.IH)
  qed
qed

text \<open>Exclusive ownership: the slot an allocation returns after any run is not held then.\<close>

lemma alloc_not_held:
  assumes "slot_run alloc free s held ops = Some (t, h, given)" and "inv s" and "held \<subseteq> used s"
    and "alloc t = (Some i, t')"
  shows "i \<notin> h"
  using run_inv [OF assms(1-3)] alloc_Some [OF _ assms(4)] by blast

text \<open>A run that only allocates hands out pairwise distinct slots, none of them marked before.\<close>

lemma run_allocs_distinct:
  assumes "slot_run alloc free s held (replicate n Alloc) = Some (t, h, given)" and "inv s"
  shows "distinct given \<and> set given \<inter> used s = {} \<and> used t = used s \<union> set given \<and> inv t"
  using assms
proof (induction n arbitrary: s held t h given)
  case 0
  then show ?case by simp
next
  case (Suc n)
  obtain r s' where a: "alloc s = (r, s')" by fastforce
  show ?case
  proof (cases r)
    case None
    with Suc a show ?thesis using alloc_None [of s s'] by fastforce
  next
    case (Some i)
    with Suc.prems a obtain g where g: "slot_run alloc free s' (insert i held) (replicate n Alloc) = Some (t, h, g)"
      and "given = i # g" by auto
    with Suc.IH [OF g] Suc.prems a Some show ?thesis
      using alloc_Some [of s i s'] by auto
  qed
qed

end

end
