(* ===== verification/Paging.thy ===== *)
theory Paging
  imports Bits StringLib Kmalloc Slots
begin

text \<open>
  The first half of \<^verbatim>\<open>mm/page.c\<close> with the inline helpers of \<^verbatim>\<open>include/kernel/mm.h\<close>: the frame allocator over the
  \<^verbatim>\<open>pagemap\<close> bit map, the kernel's page tables built by \<^verbatim>\<open>startpage\<close> and the table
  walk. Page tables live in the flat memory. The theory \<^verbatim>\<open>Space\<close> has the functions that map pages,
  \<^verbatim>\<open>UserCopy\<close> the copies that walk the tables.
\<close>

unbundle bit_operations_syntax

section \<open>Constants and item helpers\<close>

definition memsize :: u32 where [code_defs]: "memsize = 512 * 1024 * 1024"
definition memreserved :: u32 where [code_defs]: "memreserved = 32 * 1024 * 1024"
definition KERNEL_CR3 :: u32 where [code_defs]: "KERNEL_CR3 = 0x100"
definition INVALID_PAGE :: u32 where [simp, code_defs]: "INVALID_PAGE = 0"
definition PAGE_PRESENT :: u32 where [code_defs]: "PAGE_PRESENT = 1"
definition PAGE_WRITE :: u32 where [code_defs]: "PAGE_WRITE = 2"
definition PAGE_USER :: u32 where [code_defs]: "PAGE_USER = 4"

definition addr2phydir :: "u32 \<Rightarrow> u32" where
  "addr2phydir a = drop_bit 22 (a AND 0xFFC00000)"

definition addr2phttable :: "u32 \<Rightarrow> u32" where
  "addr2phttable a = drop_bit 12 (a AND 0x003FF000)"

definition addr2offset :: "u32 \<Rightarrow> u32" where
  "addr2offset a = a AND 0x00000FFF"

definition makeitem :: "u32 \<Rightarrow> cint \<Rightarrow> u32" where
  "makeitem pagenum attr = push_bit 12 pagenum OR (attr AND 0x00000FFF)"

definition phyfromitem :: "u32 \<Rightarrow> u32" where
  "phyfromitem item = drop_bit 12 (item AND 0xFFFFF000)"

definition attrfromitem :: "u32 \<Rightarrow> cint" where
  "attrfromitem item = item AND 0x00000FFF"

definition getitem :: "u32 \<Rightarrow> u32 \<Rightarrow> mem \<Rightarrow> u32" where
  "getitem phynum index m = load32 m (push_bit 12 phynum + (index AND 0x000007FF) * 4)"

definition getitemphy :: "u32 \<Rightarrow> u32 \<Rightarrow> mem \<Rightarrow> u32" where
  "getitemphy phynum index m = drop_bit 12 (getitem phynum index m)"

definition setitem :: "u32 \<Rightarrow> u32 \<Rightarrow> u32 \<Rightarrow> mem \<Rightarrow> mem" where
  "setitem item phynum index m =
     store32 (push_bit 12 phynum + (index AND 0x00000400) * 4) item m"

section \<open>Starting up\<close>

function mark_loop :: "u32 \<Rightarrow> u32 \<Rightarrow> addr \<Rightarrow> mem \<Rightarrow> mem" where
  "mark_loop i n buf m = (if i < n then mark_loop (i + 1) n buf (bitset i buf m) else m)"
  by pat_completeness auto
termination
  by (relation "measure (\<lambda>(i, n, buf, m). unat n - unat i)") (auto simp: unat_inc word_less_nat_alt)

function dir_loop :: "u32 \<Rightarrow> u32 \<Rightarrow> addr \<Rightarrow> u32 \<Rightarrow> mem \<Rightarrow> mem" where
  "dir_loop i n dir d m =
     (if i < n then dir_loop (i + 1) n (dir + 4) (d + 0x1000) (store32 dir d m) else m)"
  by pat_completeness auto
termination
  by (relation "measure (\<lambda>(i, n, dir, d, m). unat n - unat i)")
    (auto simp: unat_inc word_less_nat_alt)

function tab_loop :: "u32 \<Rightarrow> u32 \<Rightarrow> addr \<Rightarrow> mem \<Rightarrow> mem" where
  "tab_loop i n dir m =
     (if i < n then tab_loop (i + 1) n (dir + 4) (store32 dir (push_bit 12 i OR 1) m) else m)"
  by pat_completeness auto
termination
  by (relation "measure (\<lambda>(i, n, dir, m). unat n - unat i)") (auto simp: unat_inc word_less_nat_alt)

definition startpage :: "kstate \<Rightarrow> kstate" where
  "startpage s =
     (let (pm, s1) = kmalloc (drop_bit 12 memsize) s;
          m1 = snd (memset pm 0 (drop_bit 12 memsize) (kmem s1));
          m2 = mark_loop 0 (memreserved div 4096) pm m1;
          m3 = dir_loop 0 (memsize div (4 * 1024 * 1024)) (push_bit 12 KERNEL_CR3)
                 (push_bit 12 (KERNEL_CR3 + 1) OR 1) m2;
          m4 = tab_loop 0 (memsize div 4096) (push_bit 12 (KERNEL_CR3 + 1)) m3
      in s1\<lparr>kmem := m4, pagemap := pm, cr3_reg := push_bit 12 KERNEL_CR3, paging_on := True\<rparr>)"

section \<open>The frame allocator\<close>

function allocpage_loop :: "u32 \<Rightarrow> addr \<Rightarrow> mem \<Rightarrow> u32 \<times> mem" where
  "allocpage_loop i pm m =
     (if i < memsize div 4096
      then (case test0andset i pm m of
              (r, m') \<Rightarrow> if r \<noteq> 0 then (i, m') else allocpage_loop (i + 1) pm m')
      else (0, m))"
  by pat_completeness auto
termination
  by (relation "measure (\<lambda>(i, pm, m). unat (memsize div 4096) - unat i)")
    (auto simp: unat_inc word_less_nat_alt)

definition allocpage :: "kstate \<Rightarrow> u32 \<times> kstate" where
  "allocpage s =
     (case allocpage_loop (memreserved div 4096) (pagemap s) (kmem s) of
        (p, m) \<Rightarrow> (p, s\<lparr>kmem := m\<rparr>))"

definition freepage :: "u32 \<Rightarrow> kstate \<Rightarrow> kstate" where
  "freepage phy s = s\<lparr>kmem := snd (test1andset phy (pagemap s) (kmem s))\<rparr>"

declare mark_loop.simps [simp del] dir_loop.simps [simp del] tab_loop.simps [simp del]
  allocpage_loop.simps [simp del]

section \<open>Walking the tables\<close>

text \<open>
  The walk the four copies of the theory \<^verbatim>\<open>UserCopy\<close> share: the entries' page numbers are compared with 0, the present bit is
  not looked at.
\<close>

definition dir_slot :: "u32 \<Rightarrow> addr \<Rightarrow> addr" where
  "dir_slot cr3 a = cr3 + drop_bit 22 a * 4"

definition tab_slot :: "u32 \<Rightarrow> addr \<Rightarrow> addr" where
  "tab_slot diritem a = (diritem AND 0xFFFFF000) + drop_bit 12 (a AND 0x003FF000) * 4"

definition user_byte :: "u32 \<Rightarrow> addr \<Rightarrow> mem \<Rightarrow> addr option" where
  "user_byte cr3 a m =
     (let diritem = load32 m (dir_slot cr3 a)
      in if INVALID_PAGE = drop_bit 12 diritem then None
         else let tabitem = load32 m (tab_slot diritem a)
              in if INVALID_PAGE = drop_bit 12 tabitem then None
                 else Some ((tabitem AND 0xFFFFF000) OR (a AND 0x00000FFF)))"

text \<open>
  The walk of the processor: an entry counts when its present bit is set, whatever its page number. Under
  tables whose entries with a page number are present it agrees with the walk of the copies.
\<close>

definition mmu_byte :: "u32 \<Rightarrow> addr \<Rightarrow> mem \<Rightarrow> addr option" where
  "mmu_byte cr3 a m =
     (let diritem = load32 m (dir_slot cr3 a)
      in if bit diritem 0
         then let tabitem = load32 m (tab_slot diritem a)
              in if bit tabitem 0 then Some ((tabitem AND 0xFFFFF000) OR (a AND 0x00000FFF)) else None
         else None)"

definition entry_ok :: "u32 \<Rightarrow> bool" where
  "entry_ok e \<longleftrightarrow> (drop_bit 12 e \<noteq> 0 \<longrightarrow> bit e 0)"

lemma user_byte_mmu:
  assumes "user_byte cr3 a m = Some b" and "entry_ok (load32 m (dir_slot cr3 a))"
    and "entry_ok (load32 m (tab_slot (load32 m (dir_slot cr3 a)) a))"
  shows "mmu_byte cr3 a m = Some b"
  using assms by (auto simp: user_byte_def mmu_byte_def entry_ok_def Let_def split: if_splits)

section \<open>Page numbers and offsets\<close>

lemma page_mask: "(0xFFFFF000 :: u32) = NOT (mask 12)" "(0x00000FFF :: u32) = mask 12"
  by (simp_all add: mask_eq_exp_minus_1)

lemma page_split: "(push_bit 12 (drop_bit 12 a) OR b) AND 0xFFFFF000 OR (a AND 0x00000FFF) = (a :: u32)"
  if "b AND 0xFFFFF000 = 0"
proof (rule bit_word_eqI)
  fix n assume n: "n < LENGTH(32)"
  have "\<not> (bit b n \<and> 12 \<le> n)"
    using that n unfolding page_mask by (auto simp: bit_eq_iff bit_simps)
  with n show "bit ((push_bit 12 (drop_bit 12 a) OR b) AND 0xFFFFF000 OR (a AND 0x00000FFF)) n = bit a n"
    unfolding page_mask by (auto simp: bit_simps)
qed

lemma drop_bit_and_field:
  "n + k \<le> 32 \<Longrightarrow> drop_bit k (a AND push_bit k (mask n)) = take_bit n (drop_bit k (a :: u32))"
  by (rule bit_word_eqI) (auto simp: bit_simps)

lemma tableindex_nat: "unat (drop_bit 12 (a AND 0x003FF000 :: u32)) = unat a div 4096 mod 1024"
proof -
  have "(0x003FF000 :: u32) = push_bit 12 (mask 10)" by (simp add: mask_eq_exp_minus_1)
  then have e: "drop_bit 12 (a AND 0x003FF000 :: u32) = take_bit 10 (drop_bit 12 a)"
    by (simp only:) (rule drop_bit_and_field, simp)
  show ?thesis unfolding e
    by (simp only: unsigned_take_bit_eq unat_drop_bit_eq) (simp add: take_bit_eq_mod drop_bit_eq_div)
qed

lemma dirindex_nat: "unat (drop_bit 22 (a :: u32)) = unat a div 4194304"
  by (simp only: unat_drop_bit_eq) (simp add: drop_bit_eq_div)

lemma pagenum_nat: "unat (drop_bit 12 (a :: u32)) = unat a div 4096"
  by (simp only: unat_drop_bit_eq) (simp add: drop_bit_eq_div)

lemma page_item_and: "(push_bit 12 x + 1) AND 0xFFFFF000 = (push_bit 12 x :: u32)"
proof -
  have "push_bit 12 x AND 1 = (0 :: u32)"
    by (rule bit_word_eqI) (auto simp: bit_simps)
  then have "push_bit 12 x + 1 = push_bit 12 x OR (1 :: u32)"
    by (rule disjunctive_add_eq_or)
  then show ?thesis unfolding page_mask
    by (simp only:) (rule bit_word_eqI, auto simp: bit_simps)
qed

lemma drop_page_eq_0: "drop_bit 12 (x :: u32) = 0 \<longleftrightarrow> x AND 0xFFFFF000 = 0"
proof -
  have "x AND 0xFFFFF000 = push_bit 12 (drop_bit 12 x)"
    unfolding page_mask by (rule bit_word_eqI) (auto simp: bit_simps)
  moreover have "drop_bit 12 (push_bit 12 (drop_bit 12 x)) = drop_bit 12 x"
    by (rule bit_word_eqI) (auto simp: bit_simps dest: bit_imp_le_length)
  ultimately show ?thesis by (metis drop_bit_of_0 push_bit_of_0)
qed

lemma drop_page_item: "drop_bit 12 (push_bit 12 (drop_bit 12 a) OR 1) = drop_bit 12 (a :: u32)"
  by (rule bit_word_eqI) (auto simp: bit_simps dest: bit_imp_le_length)

section \<open>The frame allocator\<close>

lemma allocpage_loop_cases:
  assumes "allocpage_loop i pm m = (p, m')"
  shows "p = 0 \<and> m' = m \<and> (\<forall>j. i \<le> j \<and> j < 131072 \<longrightarrow> \<not> tail_clear pm m j) \<or>
    i \<le> p \<and> p < 131072 \<and> tail_clear pm m p \<and> m' = bitset p pm m \<and>
    (\<forall>j. i \<le> j \<and> j < p \<longrightarrow> \<not> tail_clear pm m j)"
  using assms
proof (induction i pm m arbitrary: p m' rule: allocpage_loop.induct)
  case (1 i pm m)
  have n: "memsize div 4096 = 131072" by (simp add: memsize_def)
  show ?case
  proof (cases "i < 131072 \<and> \<not> tail_clear pm m i")
    case True
    then have t: "test0andset i pm m = (0, m)" by (simp add: test0andset_cases)
    have step: "i \<le> j \<longleftrightarrow> j = i \<or> i + 1 \<le> j" for j
      using True unat_inc [of i 131072] by (auto simp: word_le_nat_alt word_unat_eq_iff)
    from "1.prems" True t have l: "allocpage_loop (i + 1) pm m = (p, m')"
      by (simp add: allocpage_loop.simps [of i] n)
    have "p = 0 \<and> m' = m \<and> (\<forall>j. i + 1 \<le> j \<and> j < 131072 \<longrightarrow> \<not> tail_clear pm m j) \<or>
      i + 1 \<le> p \<and> p < 131072 \<and> tail_clear pm m p \<and> m' = bitset p pm m \<and>
      (\<forall>j. i + 1 \<le> j \<and> j < p \<longrightarrow> \<not> tail_clear pm m j)"
      using "1.IH" [OF _ t [symmetric] _ l] True n by simp
    then show ?thesis using True by (auto simp: step)
  next
    case False
    then show ?thesis using "1.prems"
      by (auto simp: allocpage_loop.simps [of i] n test0andset_cases split: if_splits)
  qed
qed

lemma allocpage_cases:
  assumes "allocpage s = (p, s')"
  obtains "p = 0" and "s' = s"
      and "\<And>j. 8192 \<le> j \<Longrightarrow> j < 131072 \<Longrightarrow> \<not> tail_clear (pagemap s) (kmem s) j"
  | "8192 \<le> p" and "p < 131072" and "tail_clear (pagemap s) (kmem s) p"
      and "s' = s\<lparr>kmem := bitset p (pagemap s) (kmem s)\<rparr>"
      and "\<And>j. 8192 \<le> j \<Longrightarrow> j < p \<Longrightarrow> \<not> tail_clear (pagemap s) (kmem s) j"
proof -
  obtain m where l: "allocpage_loop 8192 (pagemap s) (kmem s) = (p, m)" and s': "s' = s\<lparr>kmem := m\<rparr>"
    using assms by (auto simp: allocpage_def memreserved_def split: prod.splits)
  from allocpage_loop_cases [OF l] s' show thesis
    by (auto intro: that)
qed

definition page_alloc :: "kstate \<Rightarrow> u32 option \<times> kstate" where
  "page_alloc s = (case allocpage s of (p, s') \<Rightarrow> (if p = INVALID_PAGE then None else Some p, s'))"

definition pages_used :: "kstate \<Rightarrow> u32 set" where
  "pages_used s = {p \<in> bits_of (pagemap s) (kmem s). 8192 \<le> p \<and> p < 131072}"

definition reserved_marked :: "kstate \<Rightarrow> bool" where
  "reserved_marked s \<longleftrightarrow> (\<forall>p < 8192. bit_at (pagemap s) (kmem s) p)"

interpretation pages: slot_alloc reserved_marked pages_used page_alloc freepage
proof
  fix s s'
  assume "reserved_marked s" "page_alloc s = (None, s')"
  then show "reserved_marked s' \<and> pages_used s' = pages_used s"
    by (auto simp: page_alloc_def split: prod.splits if_splits elim!: allocpage_cases)
next
  fix s i s'
  assume r: "reserved_marked s" and a: "page_alloc s = (Some i, s')"
  from a have "allocpage s = (i, s')" "i \<noteq> 0"
    by (auto simp: page_alloc_def split: prod.splits if_splits)
  then show "reserved_marked s' \<and> i \<notin> pages_used s \<and> pages_used s' = insert i (pages_used s)"
    using r by (cases rule: allocpage_cases) (auto simp: reserved_marked_def pages_used_def tail_clear_def)
next
  fix s i
  assume r: "reserved_marked s" and i: "i \<in> pages_used s"
  then have "8192 \<le> i" by (simp add: pages_used_def)
  then show "reserved_marked (freepage i s) \<and> pages_used (freepage i s) \<subseteq> pages_used s"
    using r by (auto simp: freepage_def test1andset_cases reserved_marked_def pages_used_def)
  show "pages_used s - {i} \<subseteq> pages_used (freepage i s)"
    using r by (auto simp: freepage_def test1andset_cases reserved_marked_def pages_used_def)
qed


section \<open>The page tables and the bit map after start-up\<close>

lemma dir_loop_fill:
  "dir_loop i n dir d m = fill32 (unat n - unat i) dir (\<lambda>k. d + 0x1000 * of_nat k) m"
proof (induction i n dir d m rule: dir_loop.induct)
  case (1 i n dir d m)
  show ?case
  proof (cases "i < n")
    case True
    then have "unat n - unat i = Suc (unat n - unat (i + 1))"
      by (simp add: unat_inc word_less_nat_alt)
    with True "1.IH" [OF True] show ?thesis
      by (simp add: dir_loop.simps [of i] algebra_simps)
  qed (simp add: dir_loop.simps [of i] word_less_nat_alt)
qed

lemma tab_loop_fill:
  "tab_loop i n dir m = fill32 (unat n - unat i) dir (\<lambda>k. push_bit 12 (i + of_nat k) OR 1) m"
proof (induction i n dir m rule: tab_loop.induct)
  case (1 i n dir m)
  show ?case
  proof (cases "i < n")
    case True
    then have "unat n - unat i = Suc (unat n - unat (i + 1))"
      by (simp add: unat_inc word_less_nat_alt)
    with True "1.IH" [OF True] show ?thesis
      by (simp add: tab_loop.simps [of i] add.assoc)
  qed (simp add: tab_loop.simps [of i] word_less_nat_alt)
qed

lemma mark_loop_bits: "bit_at pm (mark_loop i n pm m) j \<longleftrightarrow> i \<le> j \<and> j < n \<or> bit_at pm m j"
proof (induction i n pm m rule: mark_loop.induct)
  case (1 i n pm m)
  show ?case
  proof (cases "i < n")
    case True
    then have "i \<le> j \<longleftrightarrow> j = i \<or> i + 1 \<le> j"
      using unat_inc [of i n] by (auto simp: word_le_nat_alt word_unat_eq_iff)
    with True "1.IH" [OF True] show ?thesis
      by (auto simp: mark_loop.simps [of i])
  qed (auto simp: mark_loop.simps [of i] dest: order.strict_trans1)
qed

lemma memset_bits_clear:
  assumes "\<And>a. a - pm < n \<Longrightarrow> m a = 0" and "j div 8 < n"
  shows "\<not> bit_at pm m j"
  using assms(1) [of "pm + j div 8"] assms(2) by (simp add: bit_at_def)

lemma startpage_mem:
  obtains m where
    "kmem (startpage s) = fill32 131072 0x101000 (\<lambda>k. push_bit 12 (of_nat k) OR 1)
       (fill32 128 0x100000 (\<lambda>k. 0x101001 + 0x1000 * of_nat k) m)"
    and "\<And>i. i < 131072 \<Longrightarrow> bit_at (pool s) m i \<longleftrightarrow> i < 8192"
    and "pagemap (startpage s) = pool s"
proof
  let ?m = "mark_loop 0 8192 (pool s) (snd (memset (pool s) 0 131072 (kmem s)))"
  have c: "drop_bit 12 memsize = 131072" "memreserved div 4096 = 8192" "memsize div 4194304 = 128"
    "memsize div 4096 = 131072" "push_bit 12 KERNEL_CR3 = 0x100000"
    "push_bit 12 (KERNEL_CR3 + 1) = 0x101000"
    by (simp_all add: memsize_def memreserved_def KERNEL_CR3_def)
  show "kmem (startpage s) = fill32 131072 0x101000 (\<lambda>k. push_bit 12 (of_nat k) OR 1)
       (fill32 128 0x100000 (\<lambda>k. 0x101001 + 0x1000 * of_nat k) ?m)"
    by (simp add: startpage_def kmalloc_def c dir_loop_fill tab_loop_fill)
  show "pagemap (startpage s) = pool s"
    by (simp add: startpage_def kmalloc_def Let_def split_def)
  show "bit_at (pool s) ?m i \<longleftrightarrow> i < 8192" if "i < 131072" for i
  proof -
    have "i div 8 < 131072"
      using that by (simp add: word_less_nat_alt unat_div)
    then have "\<not> bit_at (pool s) (snd (memset (pool s) 0 131072 (kmem s))) i"
      by (intro memset_bits_clear) (auto simp: memset_eq)
    then show ?thesis by (simp add: mark_loop_bits)
  qed
qed


lemma page_tables_frame:
  assumes "0x181000 \<le> a"
  shows "fill32 131072 0x101000 f (fill32 128 0x100000 g m) a = m a"
proof -
  from assms have "unat (a - 0x101000) \<ge> 0x80000" "unat (a - 0x100000) \<ge> 0x80000"
    using unat_sub [of "0x101000" a] unat_sub [of "0x100000" a] by (simp_all add: word_le_nat_alt)
  then have "\<not> a - 0x101000 < of_nat (4 * 131072)" "\<not> a - 0x100000 < of_nat (4 * 128)"
    by (simp_all add: word_less_nat_alt)
  then show ?thesis by (simp add: fill32_frame)
qed

lemma dir_word_kept:
  assumes "k < 128"
  shows "load32 (fill32 131072 0x101000 f m) (0x100000 + 4 * of_nat k) = load32 m (0x100000 + 4 * of_nat k)"
proof (rule load32_cong, rule fill32_frame)
  fix b assume b: "b \<in> word_at (0x100000 + 4 * of_nat k)"
  define d where "d = unat (b - (0x100000 + 4 * of_nat k))"
  have "d < 4" using b by (simp add: d_def word_at_iff word_less_nat_alt)
  moreover have "b = 0x100000 + of_nat (4 * k + d)" by (simp add: d_def)
  ultimately show "\<not> b - 0x101000 < of_nat (4 * 131072)"
    using below_range [of "4 * k + d" 4095 "4 * 131072" "0x100000"] assms by simp
qed simp

lemma unat_less_of_nat: "unat (a :: u32) = n \<Longrightarrow> a = of_nat n" by auto

text \<open>Tables at 0x100000 that map 512 MB one to one, and that \<^verbatim>\<open>startpage\<close> builds them.\<close>

definition identity_tables :: "mem \<Rightarrow> bool" where
  "identity_tables m \<longleftrightarrow> (\<forall>k < 128. load32 m (0x100000 + 4 * of_nat k) = 0x101001 + 0x1000 * of_nat k) \<and>
     (\<forall>k < 131072. load32 m (0x101000 + 4 * of_nat k) = push_bit 12 (of_nat k) OR 1)"

lemma startpage_tables: "identity_tables (kmem (startpage s))"
proof -
  obtain m where m: "kmem (startpage s) = fill32 131072 0x101000 (\<lambda>k. push_bit 12 (of_nat k) OR 1)
       (fill32 128 0x100000 (\<lambda>k. 0x101001 + 0x1000 * of_nat k) m)"
    by (rule startpage_mem)
  show ?thesis unfolding identity_tables_def m
    using dir_word_kept fill32_load [of 128 _ "0x100000"] fill32_load [of 131072 _ "0x101000"] by simp
qed

lemma identity_tables_upd:
  assumes "identity_tables m" and "0x181000 \<le> b"
  shows "identity_tables (m(b := v))"
proof -
  have "b \<notin> word_at (0x100000 + 4 * of_nat k)" if "k < 132096" for k
  proof -
    have "unat (0x100000 + 4 * of_nat k :: u32) = 0x100000 + 4 * k"
      using that unat_of_nat32 [of "0x100000 + 4 * k"] by simp
    then have "4 \<le> unat (b - (0x100000 + 4 * of_nat k))"
      using assms(2) that unat_sub [of "0x100000 + 4 * of_nat k" b] by (simp add: word_le_nat_alt)
    then show ?thesis by (simp add: word_at_iff word_less_nat_alt)
  qed
  moreover from this [of "1024 + _"] have "b \<notin> word_at (0x101000 + 4 * of_nat k)" if "k < 131072" for k
    using that by simp
  ultimately show ?thesis using assms(1) by (simp add: identity_tables_def load32_byte_update)
qed

lemma startpage_cr3: "cr3_reg (startpage s) = 0x100000"
  by (simp add: startpage_def kmalloc_def Let_def split_def KERNEL_CR3_def)

lemma identity_tables_entries:
  assumes "identity_tables m" and "a < 0x20000000"
  defines "d \<equiv> load32 m (dir_slot 0x100000 a)"
  shows "bit d 0" and "drop_bit 12 d \<noteq> 0" and "load32 m (tab_slot d a) = push_bit 12 (drop_bit 12 a) OR 1"
proof -
  define i where "i = unat a div 4194304"
  define t where "t = unat a div 4096 mod 1024"
  have a: "unat a < 536870912" using assms(2) by (simp add: word_less_nat_alt)
  then have i: "i < 128" by (simp add: i_def less_mult_imp_div_less)
  have it: "1024 * i + t = unat a div 4096"
    unfolding i_def t_def using div_mult2_eq [of "unat a" 4096 1024] by simp
  have di: "drop_bit 22 a = of_nat i" and ti: "drop_bit 12 (a AND 0x003FF000) = of_nat t"
    unfolding i_def t_def by (rule unat_less_of_nat [OF dirindex_nat], rule unat_less_of_nat [OF tableindex_nat])
  have dir: "d = 0x101001 + 0x1000 * of_nat i"
    using assms(1) i by (simp add: d_def identity_tables_def dir_slot_def di mult.commute)
  show "bit d 0" unfolding dir by (simp add: bit_0)
  have dir_and: "(0x101001 + 0x1000 * of_nat i) AND 0xFFFFF000 = (0x101000 + 0x1000 * of_nat i :: u32)"
    using page_item_and [of "0x101 + of_nat i"] by (simp add: push_bit_eq_mult algebra_simps)
  show "drop_bit 12 d \<noteq> 0"
    unfolding dir drop_page_eq_0 dir_and
    using i unat_of_nat32 [of "0x101000 + 0x1000 * i"] by (simp add: word_unat_eq_iff)
  have tab: "tab_slot d a = 0x101000 + 4 * of_nat (1024 * i + t)"
    by (simp only: dir tab_slot_def dir_and ti) (simp add: algebra_simps)
  have "1024 * i + t < 131072" using it a by (simp add: less_mult_imp_div_less)
  then have "load32 m (tab_slot d a) = push_bit 12 (of_nat (1024 * i + t)) OR 1"
    unfolding tab using assms(1) unfolding identity_tables_def by blast
  moreover have "of_nat (1024 * i + t) = drop_bit 12 a"
    unfolding it by (rule unat_less_of_nat [OF pagenum_nat, symmetric])
  ultimately show "load32 m (tab_slot d a) = push_bit 12 (drop_bit 12 a) OR 1" by simp
qed

lemma identity_tables_mmu:
  assumes "identity_tables m" and "a < 0x20000000"
  shows "mmu_byte 0x100000 a m = Some a"
proof -
  have "bit (push_bit 12 (drop_bit 12 a) OR 1 :: u32) 0" by (simp add: bit_simps)
  then show ?thesis
    using identity_tables_entries [OF assms] page_split [of 1 a] by (simp add: mmu_byte_def Let_def)
qed

lemma identity_tables_byte:
  assumes "identity_tables m" and "0x1000 \<le> a" and "a < 0x20000000"
  shows "user_byte 0x100000 a m = Some a"
proof -
  have "4096 \<le> unat a" using assms(2) by (simp add: word_le_nat_alt)
  then have "drop_bit 12 (push_bit 12 (drop_bit 12 a) OR 1) \<noteq> 0"
    unfolding drop_page_item using pagenum_nat [of a] by (simp add: word_unat_eq_iff)
  then show ?thesis
    using identity_tables_entries [OF assms(1,3)] page_split [of 1 a] by (simp add: user_byte_def Let_def)
qed

text \<open>C4: After startpage the processor's walk of the tables under CR3, which needs the present bit of
  both entries, translates every address below 512 MB to itself.\<close>

theorem startpage_identity:
  assumes "a < 0x20000000"
  shows "mmu_byte (cr3_reg (startpage s)) a (kmem (startpage s)) = Some a"
  unfolding startpage_cr3 using startpage_tables assms by (rule identity_tables_mmu)

theorem startpage_identity_witness:
  "mmu_byte (cr3_reg (startpage \<lparr>kmem = \<lambda>_. 0xAA, pool = 0x400400, pagemap = 0, cr3_reg = 0,
      paging_on = False\<rparr>)) 0x1ABCDEF (kmem (startpage \<lparr>kmem = \<lambda>_. 0xAA, pool = 0x400400,
      pagemap = 0, cr3_reg = 0, paging_on = False\<rparr>)) = Some 0x1ABCDEF"
  by (rule startpage_identity) simp

lemma startpage_reserved:
  assumes "0x181000 \<le> pool s" and "pool s \<le> 0xFFFFBFFF"
  shows "reserved_marked (startpage s) \<and> pages_used (startpage s) = {}"
proof -
  obtain m where m: "kmem (startpage s) = fill32 131072 0x101000 (\<lambda>k. push_bit 12 (of_nat k) OR 1)
       (fill32 128 0x100000 (\<lambda>k. 0x101001 + 0x1000 * of_nat k) m)"
    and bits: "\<And>i. i < 131072 \<Longrightarrow> bit_at (pool s) m i \<longleftrightarrow> i < 8192"
    and pm: "pagemap (startpage s) = pool s"
    using startpage_mem [of s] by blast
  have "bit_at (pool s) (kmem (startpage s)) i \<longleftrightarrow> i < 8192" if i: "i < 131072" for i
  proof -
    have "unat (i div 8) < 16384" using i by (simp add: unat_div_8 word_less_nat_alt)
    then have "0x181000 \<le> pool s + i div 8"
      using assms by (simp add: word_le_nat_alt unat_word_ariths)
    then show ?thesis unfolding m using bits [OF i] by (simp add: bit_at_def page_tables_frame)
  qed
  moreover have "p < 131072" if "p < 8192" for p :: u32
    using that by (simp add: word_less_nat_alt)
  ultimately show ?thesis
    by (fastforce simp: reserved_marked_def pages_used_def pm not_less)
qed

text \<open>startpage marks the reserved frames and no other.\<close>

theorem startpage_reserves:
  assumes "0x181000 \<le> pool s" and "pool s \<le> 0xFFFFBFFF"
  shows "reserved_marked (startpage s) \<and> pages_used (startpage s) = {}"
  using assms by (rule startpage_reserved)

theorem startpage_reserves_witness:
  "reserved_marked (startpage \<lparr>kmem = \<lambda>_. 0xAA, pool = 0x400400, pagemap = 0, cr3_reg = 0,
      paging_on = False\<rparr>) \<and>
   pages_used (startpage \<lparr>kmem = \<lambda>_. 0xAA, pool = 0x400400, pagemap = 0, cr3_reg = 0,
      paging_on = False\<rparr>) = {}"
  by (rule startpage_reserves) simp_all

text \<open>C1: However allocations and frees are interleaved, a page frame handed out by allocpage is not held
  by anybody, lies between the reserved 32 MB and the 512 MB limit, and the reserved frames stay
  marked.\<close>

theorem page_ownership:
  assumes "reserved_marked s"
    and "slot_run page_alloc freepage s {} ops = Some (t, held, given)"
    and "page_alloc t = (Some p, t')"
  shows "p \<notin> held \<and> 8192 \<le> p \<and> p < 131072 \<and> reserved_marked t'"
  using pages.run_inv [OF assms(2,1)] pages.alloc_not_held [OF assms(2,1) _ assms(3)]
    pages.alloc_Some [OF _ assms(3)]
  by (auto simp: pages_used_def)

definition boot_map :: kstate where
  "boot_map = \<lparr>kmem = (\<lambda>a. if a - 0x400400 < 1024 then 0xFF else 0), pool = 0x404400,
     pagemap = 0x400400, cr3_reg = 0x100000, paging_on = True\<rparr>"

lemma boot_map_reserved: "reserved_marked boot_map"
proof -
  have "bit (0xFF :: u8) n" if "n < 8" for n
  proof -
    have "(0xFF :: u8) = - 1" by simp
    with that show ?thesis by (simp only: bit_minus_1_iff) simp
  qed
  then show ?thesis
    by (auto simp: reserved_marked_def boot_map_def bit_at_def word_less_nat_alt unat_div_8)
qed

lemma boot_map_run:
  "slot_run page_alloc freepage boot_map {} [Alloc, Alloc, Free 8192] =
     Some (boot_map\<lparr>kmem := (kmem boot_map)(0x400800 := 3)\<rparr>, {8193}, [8192, 8193])"
  "page_alloc (boot_map\<lparr>kmem := (kmem boot_map)(0x400800 := 3)\<rparr>) =
    (Some 8194, boot_map\<lparr>kmem := (kmem boot_map)(0x400800 := 7)\<rparr>)"
   by (simp_all add: boot_map_def page_alloc_def allocpage_def freepage_def allocpage_loop.simps memreserved_def memsize_def
     bits_defs insert_Diff_if)

theorem page_ownership_witness:
  "(8194 :: u32) \<notin> {8193} \<and> 8192 \<le> (8194 :: u32) \<and> (8194 :: u32) < 131072 \<and>
   reserved_marked (boot_map\<lparr>kmem := (kmem boot_map)(0x400800 := 7)\<rparr>)"
  by (rule page_ownership [OF boot_map_reserved boot_map_run])

text \<open>freepage clears the bit of its frame exactly when no higher bit of the same byte is set, and clears
  no other bit.\<close>

theorem freepage_releases_iff:
  "bit_at (pagemap s) (kmem (freepage p s)) q \<longleftrightarrow>
     bit_at (pagemap s) (kmem s) q \<and> (q = p \<longrightarrow> (\<exists>r. above p r \<and> bit_at (pagemap s) (kmem s) r))"
  by (auto simp: freepage_def test1andset_cases)

theorem freepage_releases_iff_witness:
  "bit_at (pagemap boot_map) (kmem (freepage 0 boot_map)) 0 \<longleftrightarrow> True"
proof -
  have "above 0 1" "bit_at (pagemap boot_map) (kmem boot_map) 0" "bit_at (pagemap boot_map) (kmem boot_map) 1"
    by (simp_all add: above_def boot_map_def bit_at_def)
  then show ?thesis using freepage_releases_iff [of boot_map 0 0] by auto
qed

end
