(* ===== verification/UserCopy.thy ===== *)
theory UserCopy
  imports Paging
begin

text \<open>
  The copies between kernel and user space of \<^verbatim>\<open>mm/page.c\<close>. Each walks the task's page tables by
  hand for every byte, in the same memory it writes to, so the theorems carry the condition that the
  written bytes are not those of the tables being walked (\<^verbatim>\<open>window_ok\<close>).
\<close>

unbundle bit_operations_syntax

section \<open>Operations\<close>

function cp2user_loop :: "u32 \<Rightarrow> addr \<Rightarrow> addr \<Rightarrow> addr \<Rightarrow> mem \<Rightarrow> addr option \<times> mem" where
  "cp2user_loop cr3 from to cptr m =
     (if from < to
      then (case user_byte cr3 from m of
              None \<Rightarrow> (None, m)
            | Some despage \<Rightarrow> cp2user_loop cr3 (from + 1) to (cptr + 1) (m(despage := m cptr)))
      else (Some from, m))"
  by pat_completeness auto
termination
  by (relation "measure (\<lambda>(cr3, from, to, cptr, m). unat to - unat from)")
    (auto simp: unat_inc word_less_nat_alt)

definition cp2user :: "u32 \<Rightarrow> addr \<Rightarrow> u32 \<Rightarrow> addr \<Rightarrow> mem \<Rightarrow> u32 \<times> mem" where
  "cp2user cr3 uptr sz cptr m =
     (let cr3 = cr3 AND 0xFFFFF000
      in if INVALID_PAGE = drop_bit 12 cr3 then (0, m)
         else case cp2user_loop cr3 uptr (uptr + sz) cptr m of
                (None, m') \<Rightarrow> (0, m')
              | (Some from, m') \<Rightarrow> (from - uptr, m'))"

function cpfromuser_loop :: "u32 \<Rightarrow> addr \<Rightarrow> addr \<Rightarrow> addr \<Rightarrow> mem \<Rightarrow> addr option \<times> mem" where
  "cpfromuser_loop cr3 from to cptr m =
     (if from < to
      then (case user_byte cr3 from m of
              None \<Rightarrow> (None, m)
            | Some despage \<Rightarrow> cpfromuser_loop cr3 (from + 1) to (cptr + 1) (m(cptr := m despage)))
      else (Some from, m))"
  by pat_completeness auto
termination
  by (relation "measure (\<lambda>(cr3, from, to, cptr, m). unat to - unat from)")
    (auto simp: unat_inc word_less_nat_alt)

definition cpfromuser :: "u32 \<Rightarrow> addr \<Rightarrow> u32 \<Rightarrow> addr \<Rightarrow> mem \<Rightarrow> u32 \<times> mem" where
  "cpfromuser cr3 uptr sz cptr m =
     (let cr3 = cr3 AND 0xFFFFF000
      in if INVALID_PAGE = drop_bit 12 cr3 then (0, m)
         else case cpfromuser_loop cr3 uptr (uptr + sz) cptr m of
                (None, m') \<Rightarrow> (0, m')
              | (Some from, m') \<Rightarrow> (from - uptr, m'))"

text \<open>
  The string copies stop after the terminator is copied, before \<^verbatim>\<open>from\<close> is incremented. Both test the
  byte after the store, which matters when source and destination overlap: \<^verbatim>\<open>strncpfromuser\<close> reads
  the user byte again, \<^verbatim>\<open>strncp2user\<close> the kernel byte.
\<close>

function strncpfromuser_loop :: "u32 \<Rightarrow> addr \<Rightarrow> addr \<Rightarrow> addr \<Rightarrow> mem \<Rightarrow> addr option \<times> mem" where
  "strncpfromuser_loop cr3 from to pdes m =
     (if from < to
      then (case user_byte cr3 from m of
              None \<Rightarrow> (None, m)
            | Some despage \<Rightarrow>
                (let m' = m(pdes := m despage)
                 in if m' despage = 0 then (Some from, m')
                    else strncpfromuser_loop cr3 (from + 1) to (pdes + 1) m'))
      else (Some from, m))"
  by pat_completeness auto
termination
  by (relation "measure (\<lambda>(cr3, from, to, pdes, m). unat to - unat from)")
    (auto simp: unat_inc word_less_nat_alt)

definition strncpfromuser :: "u32 \<Rightarrow> addr \<Rightarrow> addr \<Rightarrow> u32 \<Rightarrow> mem \<Rightarrow> u32 \<times> mem" where
  "strncpfromuser cr3 psrc pdes mx m =
     (let cr3 = cr3 AND 0xFFFFF000
      in if INVALID_PAGE = drop_bit 12 cr3 then (0, m)
         else case strncpfromuser_loop cr3 psrc (psrc + mx) pdes m of
                (None, m') \<Rightarrow> (0, m')
              | (Some from, m') \<Rightarrow> (from - psrc, m'))"

function strncp2user_loop :: "u32 \<Rightarrow> addr \<Rightarrow> addr \<Rightarrow> addr \<Rightarrow> mem \<Rightarrow> addr option \<times> mem" where
  "strncp2user_loop cr3 from to psrc m =
     (if from < to
      then (case user_byte cr3 from m of
              None \<Rightarrow> (None, m)
            | Some despage \<Rightarrow>
                (let m' = m(despage := m psrc)
                 in if m' psrc = 0 then (Some from, m')
                    else strncp2user_loop cr3 (from + 1) to (psrc + 1) m'))
      else (Some from, m))"
  by pat_completeness auto
termination
  by (relation "measure (\<lambda>(cr3, from, to, psrc, m). unat to - unat from)")
    (auto simp: unat_inc word_less_nat_alt)

definition strncp2user :: "u32 \<Rightarrow> addr \<Rightarrow> addr \<Rightarrow> u32 \<Rightarrow> mem \<Rightarrow> u32 \<times> mem" where
  "strncp2user cr3 pdes psrc mx m =
     (let cr3 = cr3 AND 0xFFFFF000
      in if INVALID_PAGE = drop_bit 12 cr3 then (0, m)
         else case strncp2user_loop cr3 pdes (pdes + mx) psrc m of
                (None, m') \<Rightarrow> (0, m')
              | (Some from, m') \<Rightarrow> (from - pdes, m'))"

text \<open>
  The fixed-width copies. The writing ones pass the address of their own argument: \<^verbatim>\<open>sp\<close> is the
  stack slot the compiler gives it.
\<close>

definition cpbyte2user :: "addr \<Rightarrow> u32 \<Rightarrow> addr \<Rightarrow> u8 \<Rightarrow> mem \<Rightarrow> u32 \<times> mem" where
  "cpbyte2user sp cr3 ptr ch m = cp2user cr3 ptr 1 sp (m(sp := ch))"

definition cpword2user :: "addr \<Rightarrow> u32 \<Rightarrow> addr \<Rightarrow> u16 \<Rightarrow> mem \<Rightarrow> u32 \<times> mem" where
  "cpword2user sp cr3 ptr wd m =
     cp2user cr3 ptr 2 sp (m(sp := ucast wd, sp + 1 := ucast (drop_bit 8 wd)))"

definition cpdword2user :: "addr \<Rightarrow> u32 \<Rightarrow> addr \<Rightarrow> cint \<Rightarrow> mem \<Rightarrow> u32 \<times> mem" where
  "cpdword2user sp cr3 ptr dwd m = cp2user cr3 ptr 4 sp (store32 sp dwd m)"

definition cpbytefromuser :: "u32 \<Rightarrow> addr \<Rightarrow> addr \<Rightarrow> mem \<Rightarrow> u32 \<times> mem" where
  "cpbytefromuser cr3 ptr ch m = cpfromuser cr3 ptr 1 ch m"

definition cpwordfromuser :: "u32 \<Rightarrow> addr \<Rightarrow> addr \<Rightarrow> mem \<Rightarrow> u32 \<times> mem" where
  "cpwordfromuser cr3 ptr wd m = cpfromuser cr3 ptr 2 wd m"

definition cpdwordfromuser :: "u32 \<Rightarrow> addr \<Rightarrow> addr \<Rightarrow> mem \<Rightarrow> u32 \<times> mem" where
  "cpdwordfromuser cr3 ptr dwd m = cpfromuser cr3 ptr 4 dwd m"

declare cp2user_loop.simps [simp del] cpfromuser_loop.simps [simp del]
  strncpfromuser_loop.simps [simp del] strncp2user_loop.simps [simp del]

section \<open>User-space copies\<close>

text \<open>The page-table bytes the walk for one address reads.\<close>

definition walk_bytes :: "u32 \<Rightarrow> addr \<Rightarrow> mem \<Rightarrow> addr set" where
  "walk_bytes cr3 a m = word_at (dir_slot cr3 a) \<union> word_at (tab_slot (load32 m (dir_slot cr3 a)) a)"

lemma walk_cong:
  assumes "\<And>b. b \<in> walk_bytes cr3 a m \<Longrightarrow> m' b = m b"
  shows "user_byte cr3 a m' = user_byte cr3 a m \<and> walk_bytes cr3 a m' = walk_bytes cr3 a m"
proof -
  have "load32 m' (dir_slot cr3 a) = load32 m (dir_slot cr3 a)"
    using assms by (intro load32_cong) (auto simp: walk_bytes_def)
  moreover have "load32 m' (tab_slot (load32 m (dir_slot cr3 a)) a) = load32 m (tab_slot (load32 m (dir_slot cr3 a)) a)"
    using assms by (intro load32_cong) (auto simp: walk_bytes_def)
  ultimately show ?thesis by (simp add: user_byte_def walk_bytes_def Let_def)
qed

lemma walk_upd:
  "x \<notin> walk_bytes cr3 a m \<Longrightarrow>
    user_byte cr3 a (m(x := v)) = user_byte cr3 a m \<and> walk_bytes cr3 a (m(x := v)) = walk_bytes cr3 a m"
  by (rule walk_cong) auto

text \<open>
  A window of user addresses, how it is mapped and that the copy does not write over the tables that
  map it.
\<close>

definition window_ok :: "u32 \<Rightarrow> addr set \<Rightarrow> (addr \<Rightarrow> addr) \<Rightarrow> addr set \<Rightarrow> mem \<Rightarrow> bool" where
  "window_ok cr3 R tr W m \<longleftrightarrow>
     (\<forall>a \<in> R. user_byte cr3 a m = Some (tr a) \<and> walk_bytes cr3 a m \<inter> W = {})"

lemma window_ok_upd: "window_ok cr3 R tr W m \<Longrightarrow> x \<in> W \<Longrightarrow> window_ok cr3 R tr W (m(x := v))"
  unfolding window_ok_def
proof
  fix a assume w: "\<forall>a \<in> R. user_byte cr3 a m = Some (tr a) \<and> walk_bytes cr3 a m \<inter> W = {}"
    and "x \<in> W" and a: "a \<in> R"
  then have "x \<notin> walk_bytes cr3 a m" by blast
  from walk_upd [OF this] w a
  show "user_byte cr3 a (m(x := v)) = Some (tr a) \<and> walk_bytes cr3 a (m(x := v)) \<inter> W = {}"
    by simp
qed

lemma window_step:
  "from < (to :: addr) \<Longrightarrow> {from..<to} = insert from {from + 1..<to} \<and> from \<notin> {from + 1..<to}"
  using unat_inc [of "from" to] by (auto simp: word_le_nat_alt word_less_nat_alt word_unat_eq_iff)

lemma cp2user_loop_mapped:
  assumes "window_ok cr3 {from..<to} tr W m" and "tr ` {from..<to} \<subseteq> W" and "from \<le> to"
    and "inj_on tr {from..<to}"
    and "\<forall>a \<in> {from..<to}. \<forall>b \<in> {from..<to}. tr a \<noteq> cptr + (b - from)"
  shows "\<exists>m'. cp2user_loop cr3 from to cptr m = (Some to, m') \<and>
    (\<forall>a \<in> {from..<to}. m' (tr a) = m (cptr + (a - from))) \<and>
    (\<forall>x. x \<notin> tr ` {from..<to} \<longrightarrow> m' x = m x)"
  using assms
proof (induction cr3 "from" to cptr m rule: cp2user_loop.induct)
  case (1 cr3 "from" to cptr m)
  show ?case
  proof (cases "from < to")
    case False
    with "1.prems"(3) show ?thesis by (simp add: cp2user_loop.simps)
  next
    case True
    note R = conjunct1 [OF window_step [OF True]] and nR = conjunct2 [OF window_step [OF True]]
    let ?m = "m(tr from := m cptr)"
    have ub: "user_byte cr3 from m = Some (tr from)"
      using "1.prems"(1) True by (simp add: window_ok_def)
    have shift: "cptr + 1 + (b - (from + 1)) = cptr + (b - from)" for b :: addr by simp
    have "window_ok cr3 {from..<to} tr W ?m"
      using "1.prems"(1,2) R by (intro window_ok_upd) auto
    then have w: "window_ok cr3 {from + 1..<to} tr W ?m" using R by (simp add: window_ok_def)
    have "from + 1 \<le> to" using True unat_inc [OF True] by (simp add: word_le_nat_alt word_less_nat_alt)
    then have "\<exists>m'. cp2user_loop cr3 (from + 1) to (cptr + 1) ?m = (Some to, m') \<and>
        (\<forall>a \<in> {from + 1..<to}. m' (tr a) = ?m (cptr + 1 + (a - (from + 1)))) \<and>
        (\<forall>x. x \<notin> tr ` {from + 1..<to} \<longrightarrow> m' x = ?m x)"
      by (intro "1.IH" [OF True ub w]) (use "1.prems"(2,4,5) R in \<open>auto simp: shift\<close>)
    then obtain m' where l: "cp2user_loop cr3 (from + 1) to (cptr + 1) ?m = (Some to, m')"
      and v: "\<forall>a \<in> {from + 1..<to}. m' (tr a) = ?m (cptr + (a - from))"
      and f: "\<forall>x. x \<notin> tr ` {from + 1..<to} \<longrightarrow> m' x = ?m x"
      unfolding shift by blast
    have "tr from \<notin> tr ` {from + 1..<to}"
      using "1.prems"(4) nR unfolding R by simp
    moreover have "?m (cptr + (a - from)) = m (cptr + (a - from))" if "a \<in> {from..<to}" for a
    proof -
      have "from \<in> {from..<to}" using True by simp
      with "1.prems"(5) that have "tr from \<noteq> cptr + (a - from)" by blast
      then show ?thesis by simp
    qed
    ultimately show ?thesis
      using l v f ub True R by (subst cp2user_loop.simps) auto
  qed
qed


lemma cpfromuser_loop_mapped:
  assumes "window_ok cr3 {from..<to} tr W m" and "from \<le> to"
    and "\<forall>b \<in> {from..<to}. cptr + (b - from) \<in> W"
    and "\<forall>a \<in> {from..<to}. \<forall>b \<in> {from..<to}. tr a \<noteq> cptr + (b - from)"
  shows "\<exists>m'. cpfromuser_loop cr3 from to cptr m = (Some to, m') \<and>
    (\<forall>a \<in> {from..<to}. m' (cptr + (a - from)) = m (tr a)) \<and>
    (\<forall>x. (\<forall>a \<in> {from..<to}. x \<noteq> cptr + (a - from)) \<longrightarrow> m' x = m x)"
  using assms
proof (induction cr3 "from" to cptr m rule: cpfromuser_loop.induct)
  case (1 cr3 "from" to cptr m)
  show ?case
  proof (cases "from < to")
    case False
    with "1.prems"(2) show ?thesis by (simp add: cpfromuser_loop.simps)
  next
    case True
    note R = conjunct1 [OF window_step [OF True]] and nR = conjunct2 [OF window_step [OF True]]
    let ?m = "m(cptr := m (tr from))"
    have ub: "user_byte cr3 from m = Some (tr from)"
      using "1.prems"(1) True by (simp add: window_ok_def)
    have shift: "cptr + 1 + (b - (from + 1)) = cptr + (b - from)" for b :: addr by simp
    have cW: "cptr \<in> W" using "1.prems"(3) R by simp
    have "window_ok cr3 {from..<to} tr W ?m"
      using "1.prems"(1) cW by (rule window_ok_upd)
    then have w: "window_ok cr3 {from + 1..<to} tr W ?m" using R by (simp add: window_ok_def)
    have "from + 1 \<le> to" using True unat_inc [OF True] by (simp add: word_le_nat_alt word_less_nat_alt)
    then have "\<exists>m'. cpfromuser_loop cr3 (from + 1) to (cptr + 1) ?m = (Some to, m') \<and>
        (\<forall>a \<in> {from + 1..<to}. m' (cptr + 1 + (a - (from + 1))) = ?m (tr a)) \<and>
        (\<forall>x. (\<forall>a \<in> {from + 1..<to}. x \<noteq> cptr + 1 + (a - (from + 1))) \<longrightarrow> m' x = ?m x)"
      by (intro "1.IH" [OF True ub w]) (use "1.prems"(3,4) R in \<open>auto simp: shift\<close>)
    then obtain m' where l: "cpfromuser_loop cr3 (from + 1) to (cptr + 1) ?m = (Some to, m')"
      and v: "\<forall>a \<in> {from + 1..<to}. m' (cptr + (a - from)) = ?m (tr a)"
      and f: "\<forall>x. (\<forall>a \<in> {from + 1..<to}. x \<noteq> cptr + (a - from)) \<longrightarrow> m' x = ?m x"
      unfolding shift by blast
    have "cptr \<noteq> cptr + (a - from)" if "a \<in> {from + 1..<to}" for a
      using nR that by auto
    moreover have "?m (tr a) = m (tr a)" if "a \<in> {from..<to}" for a
    proof -
      have "from \<in> {from..<to}" using True by simp
      with "1.prems"(4) that have "tr a \<noteq> cptr + (from - from)" by blast
      then show ?thesis by simp
    qed
    ultimately show ?thesis
      using l v f ub True R by (subst cpfromuser_loop.simps) auto
  qed
qed

text \<open>An unmapped byte makes a copy report 0.\<close>

lemma cp2user_loop_unmapped:
  assumes "a \<in> {from..<to}" and "user_byte cr3 a m = None" and "window_ok cr3 {from..<a} tr W m"
    and "tr ` {from..<a} \<subseteq> W" and "walk_bytes cr3 a m \<inter> W = {}"
  shows "fst (cp2user_loop cr3 from to cptr m) = None"
  using assms
proof (induction cr3 "from" to cptr m rule: cp2user_loop.induct)
  case (1 cr3 "from" to cptr m)
  then have ft: "from < to" by auto
  show ?case
  proof (cases "from = a")
    case True
    with 1 ft show ?thesis by (simp add: cp2user_loop.simps)
  next
    case False
    with "1.prems"(1) have fa: "from < a" by auto
    note R = conjunct1 [OF window_step [OF fa]]
    let ?m = "m(tr from := m cptr)"
    have ub: "user_byte cr3 from m = Some (tr from)" and tW: "tr from \<in> W"
      using "1.prems"(3,4) fa by (auto simp: window_ok_def)
    have "window_ok cr3 {from..<a} tr W ?m" using "1.prems"(3) tW by (rule window_ok_upd)
    then have w: "window_ok cr3 {from + 1..<a} tr W ?m" using R by (simp add: window_ok_def)
    from "1.prems"(5) tW have "tr from \<notin> walk_bytes cr3 a m" by blast
    note wu = walk_upd [OF this, of "m cptr"]
    have a: "a \<in> {from + 1..<to}"
      using "1.prems"(1) unat_inc [OF fa] fa by (simp add: word_le_nat_alt word_less_nat_alt)
    have n: "user_byte cr3 a ?m = None" and d: "walk_bytes cr3 a ?m \<inter> W = {}"
      using "1.prems"(2,5) wu by simp_all
    have t: "tr ` {from + 1..<a} \<subseteq> W" using "1.prems"(4) R by simp
    have "fst (cp2user_loop cr3 (from + 1) to (cptr + 1) ?m) = None"
      by (rule "1.IH" [OF ft ub a n w t d])
    with ub ft show ?thesis by (subst cp2user_loop.simps) simp
  qed
qed


lemma masked_cr3: "INVALID_PAGE = drop_bit 12 (cr3 AND 0xFFFFF000) \<longleftrightarrow> drop_bit 12 cr3 = 0"
  unfolding INVALID_PAGE_def eq_commute [of 0 "drop_bit 12 (cr3 AND 0xFFFFF000)"] drop_page_eq_0
  by (simp add: and.assoc)

lemma cp2user_mapped:
  assumes "drop_bit 12 cr3 \<noteq> 0" and "u \<le> u + n"
    and "window_ok (cr3 AND 0xFFFFF000) {u..<u + n} tr W m"
    and "tr ` {u..<u + n} \<subseteq> W" and "inj_on tr {u..<u + n}"
    and "\<forall>a \<in> {u..<u + n}. \<forall>b \<in> {u..<u + n}. tr a \<noteq> k + (b - u)"
  obtains m' where "cp2user cr3 u n k m = (n, m')"
    and "\<And>a. a \<in> {u..<u + n} \<Longrightarrow> m' (tr a) = m (k + (a - u))"
    and "\<And>x. x \<notin> tr ` {u..<u + n} \<Longrightarrow> m' x = m x"
  using cp2user_loop_mapped [OF assms(3,4,2,5,6)] assms(1)
  unfolding cp2user_def Let_def masked_cr3 by auto

lemma cpfromuser_mapped:
  assumes "drop_bit 12 cr3 \<noteq> 0" and "u \<le> u + n"
    and "window_ok (cr3 AND 0xFFFFF000) {u..<u + n} tr W m"
    and "\<forall>b \<in> {u..<u + n}. k + (b - u) \<in> W"
    and "\<forall>a \<in> {u..<u + n}. \<forall>b \<in> {u..<u + n}. tr a \<noteq> k + (b - u)"
  obtains m' where "cpfromuser cr3 u n k m = (n, m')"
    and "\<And>a. a \<in> {u..<u + n} \<Longrightarrow> m' (k + (a - u)) = m (tr a)"
    and "\<And>x. (\<And>a. a \<in> {u..<u + n} \<Longrightarrow> x \<noteq> k + (a - u)) \<Longrightarrow> m' x = m x"
  using cpfromuser_loop_mapped [OF assms(3,2,4,5)] assms(1)
  unfolding cpfromuser_def Let_def masked_cr3 by auto

text \<open>cp2user returns the byte count, stores each byte at the translated address and changes nothing else.\<close>

theorem cp2user_copies:
  assumes "drop_bit 12 cr3 \<noteq> 0" and "u \<le> u + n"
    and "window_ok (cr3 AND 0xFFFFF000) {u..<u + n} tr W m"
    and "tr ` {u..<u + n} \<subseteq> W" and "inj_on tr {u..<u + n}"
    and "\<forall>a \<in> {u..<u + n}. \<forall>b \<in> {u..<u + n}. tr a \<noteq> k + (b - u)"
  shows "fst (cp2user cr3 u n k m) = n \<and>
    (\<forall>a \<in> {u..<u + n}. snd (cp2user cr3 u n k m) (tr a) = m (k + (a - u))) \<and>
    (\<forall>x. x \<notin> tr ` {u..<u + n} \<longrightarrow> snd (cp2user cr3 u n k m) x = m x)"
  using cp2user_mapped [OF assms] by (metis fst_conv snd_conv)

text \<open>C3: What cp2user writes into a mapped user range is what cpfromuser reads back from it, byte for
  byte.\<close>

theorem user_copy_roundtrip:
  assumes "drop_bit 12 cr3 \<noteq> 0" and "u \<le> u + n"
    and "window_ok (cr3 AND 0xFFFFF000) {u..<u + n} tr W m"
    and "tr ` {u..<u + n} \<subseteq> W" and "inj_on tr {u..<u + n}"
    and "\<forall>a \<in> {u..<u + n}. \<forall>b \<in> {u..<u + n}. tr a \<noteq> k + (b - u)"
    and "\<forall>b \<in> {u..<u + n}. k' + (b - u) \<in> W"
    and "\<forall>a \<in> {u..<u + n}. \<forall>b \<in> {u..<u + n}. tr a \<noteq> k' + (b - u)"
    and "cp2user cr3 u n k m = (r, m')" and "cpfromuser cr3 u n k' m' = (r', m'')"
  shows "r = n \<and> r' = n \<and> (\<forall>a \<in> {u..<u + n}. m'' (k' + (a - u)) = m (k + (a - u)))"
proof -
  obtain m1 where m1: "cp2user cr3 u n k m = (n, m1)"
    and c1: "\<And>a. a \<in> {u..<u + n} \<Longrightarrow> m1 (tr a) = m (k + (a - u))"
    and f1: "\<And>x. x \<notin> tr ` {u..<u + n} \<Longrightarrow> m1 x = m x"
    using cp2user_mapped [OF assms(1-6)] by blast
  have "window_ok (cr3 AND 0xFFFFF000) {u..<u + n} tr W m1"
    unfolding window_ok_def
  proof
    fix a assume a: "a \<in> {u..<u + n}"
    with assms(3,4) have "user_byte (cr3 AND 0xFFFFF000) a m1 = user_byte (cr3 AND 0xFFFFF000) a m \<and>
      walk_bytes (cr3 AND 0xFFFFF000) a m1 = walk_bytes (cr3 AND 0xFFFFF000) a m"
      by (intro walk_cong f1) (fastforce simp: window_ok_def)
    with assms(3) a show "user_byte (cr3 AND 0xFFFFF000) a m1 = Some (tr a) \<and>
        walk_bytes (cr3 AND 0xFFFFF000) a m1 \<inter> W = {}" by (simp add: window_ok_def)
  qed
  from cpfromuser_mapped [OF assms(1,2) this assms(7,8)]
  obtain m2 where "cpfromuser cr3 u n k' m1 = (n, m2)"
    and "\<And>a. a \<in> {u..<u + n} \<Longrightarrow> m2 (k' + (a - u)) = m1 (tr a)" by blast
  with m1 c1 assms(9,10) show ?thesis by auto
qed

text \<open>cp2user returns 0 when an address of the range has no translation.\<close>

theorem cp2user_unmapped:
  assumes "a \<in> {u..<u + n}" and "user_byte (cr3 AND 0xFFFFF000) a m = None"
    and "window_ok (cr3 AND 0xFFFFF000) {u..<a} tr W m"
    and "tr ` {u..<a} \<subseteq> W" and "walk_bytes (cr3 AND 0xFFFFF000) a m \<inter> W = {}"
  shows "fst (cp2user cr3 u n k m) = 0"
  using cp2user_loop_unmapped [OF assms, of k]
  by (auto simp: cp2user_def Let_def split: prod.splits option.splits)


text \<open>A one-page user space for the witnesses: page 0 of the task is frame 3.\<close>

definition demo_space :: mem where
  "demo_space = (\<lambda>_. 0)(0x1000 := 7, 0x1001 := 0x20, 0x2000 := 7, 0x2001 := 0x30,
     0x5000 := 65, 0x5001 := 66)"

lemma demo_window: "{0x10..<0x10 + 2 :: addr} = {0x10, 0x11}"
  using window_step [of "0x10" "0x12"] window_step [of "0x11" "0x12"] by simp

lemma demo_loads: "load32 demo_space 0x1000 = 0x2007" "load32 demo_space 0x2000 = 0x3007"
  by (simp_all add: load32_def demo_space_def)

lemma demo_slots: "dir_slot 0x1000 0x10 = 0x1000" "dir_slot 0x1000 0x11 = 0x1000"
  "tab_slot 0x2007 0x10 = 0x2000" "tab_slot 0x2007 0x11 = 0x2000"
  by (simp_all add: dir_slot_def tab_slot_def)

lemma demo_window_ok:
  "window_ok (0x1000 AND 0xFFFFF000) {0x10..<0x10 + 2} (\<lambda>a. 0x3000 + a) {0x3010, 0x3011, 0x6000, 0x6001}
     demo_space"
  unfolding demo_window window_ok_def
  by (simp add: user_byte_def walk_bytes_def demo_slots demo_loads word_at_def)

lemma demo_tr:
  "(\<lambda>a. 0x3000 + a) ` {0x10..<0x10 + 2 :: addr} \<subseteq> {0x3010, 0x3011, 0x6000, 0x6001}"
  "inj_on (\<lambda>a. 0x3000 + a) {0x10..<0x10 + 2 :: addr}"
  "\<forall>a \<in> {0x10..<0x10 + 2 :: addr}. \<forall>b \<in> {0x10..<0x10 + 2}. 0x3000 + a \<noteq> 0x5000 + (b - 0x10)"
  "\<forall>b \<in> {0x10..<0x10 + 2 :: addr}. 0x6000 + (b - 0x10) \<in> {0x3010, 0x3011, 0x6000, 0x6001}"
  "\<forall>a \<in> {0x10..<0x10 + 2 :: addr}. \<forall>b \<in> {0x10..<0x10 + 2}. 0x3000 + a \<noteq> 0x6000 + (b - 0x10)"
  unfolding demo_window by simp_all

lemma demo_cr3: "drop_bit 12 (0x1000 :: u32) \<noteq> 0" "(0x10 :: u32) \<le> 0x10 + 2"
  by simp_all

theorem cp2user_copies_witness:
  "fst (cp2user 0x1000 0x10 2 0x5000 demo_space) = 2 \<and>
   snd (cp2user 0x1000 0x10 2 0x5000 demo_space) 0x3011 = demo_space 0x5001"
  using cp2user_copies [OF demo_cr3 demo_window_ok demo_tr(1-3)]
  unfolding demo_window by simp

theorem user_copy_roundtrip_witness:
  "fst (cpfromuser 0x1000 0x10 2 0x6000 (snd (cp2user 0x1000 0x10 2 0x5000 demo_space))) = 2 \<and>
   snd (cpfromuser 0x1000 0x10 2 0x6000 (snd (cp2user 0x1000 0x10 2 0x5000 demo_space))) 0x6001 =
     demo_space 0x5001"
  using user_copy_roundtrip [OF demo_cr3 demo_window_ok demo_tr
      prod.collapse [symmetric] prod.collapse [symmetric]]
  unfolding demo_window by simp

theorem cp2user_unmapped_witness: "fst (cp2user 0x1000 0x400010 4 0x5000 demo_space) = 0"
  by (rule cp2user_unmapped [of "0x400010" _ _ _ _ "\<lambda>a. a" "{}"])
    (simp_all add: user_byte_def dir_slot_def load32_def demo_space_def window_ok_def)

end
