(* ===== verification/Space.thy ===== *)
theory Space
  imports Paging
begin

text \<open>
  The functions of \<^verbatim>\<open>mm/page.c\<close> that fill a task's page tables: \<^verbatim>\<open>pmap\<close>, \<^verbatim>\<open>publicmap16M2to32M\<close> and
  \<^verbatim>\<open>allocspace\<close>. The \<^verbatim>\<open>allocspace\<close> loop does not end when its bound is the last page of the address
  space, so it is \<^theory_text>\<open>partial_function (option)\<close>; the theorems say when it ends and what it has mapped
  then.
\<close>

unbundle bit_operations_syntax

section \<open>Mapping pages\<close>

definition pmap :: "u32 \<Rightarrow> u32 \<Rightarrow> u32 \<Rightarrow> cint \<Rightarrow> kstate \<Rightarrow> cint \<times> kstate" where
  "pmap cr3 page start attr s =
     (if INVALID_PAGE = cr3 then (0, s)
      else
        let dirindex = addr2phydir start;
            tabindex = addr2phttable start;
            diritem = getitem cr3 dirindex (kmem s);
            (diritem, s1) =
              (if INVALID_PAGE = phyfromitem diritem then
                 let (p, s') = allocpage s;
                     item = makeitem p attr
                 in (item, s'\<lparr>kmem := setitem (phyfromitem item) cr3 dirindex (kmem s')\<rparr>)
               else (diritem, s));
            tabitem = getitem (phyfromitem diritem) tabindex (kmem s1)
        in if INVALID_PAGE = phyfromitem tabitem then
             (1, s1\<lparr>kmem := setitem (makeitem page attr) (phyfromitem dirindex) tabindex (kmem s1)\<rparr>)
           else (0, s1))"

function publicmap_loop :: "u32 \<Rightarrow> u32 \<Rightarrow> mem \<Rightarrow> mem" where
  "publicmap_loop cr3 start m =
     (if start < 32 * 1024 * 1024
      then publicmap_loop cr3 (start + 0x1000)
             (store32 (cr3 + drop_bit 22 start * 4)
                (load32 m (push_bit 12 KERNEL_CR3 + drop_bit 22 start * 4) AND NOT PAGE_WRITE) m)
      else m)"
  by pat_completeness auto
termination
  by (relation "measure (\<lambda>(cr3, start, m). 0x2000000 - unat start)")
    (auto simp: word_less_nat_alt unat_word_ariths)

definition publicmap16M2to32M :: "u32 \<Rightarrow> kstate \<Rightarrow> cint \<times> kstate" where
  "publicmap16M2to32M cr3 s =
     (if INVALID_PAGE = drop_bit 12 cr3 then (0, s)
      else (1, s\<lparr>kmem := publicmap_loop (cr3 AND 0xFFFFF000) (16 * 1024 * 1024) (kmem s)\<rparr>))"

text \<open>
  One round of the \<^verbatim>\<open>allocspace\<close> loop. A failed \<^verbatim>\<open>allocpage\<close> yields page 0, which the code stores
  as any other page.
\<close>

definition allocspace_dir :: "u32 \<Rightarrow> u32 \<Rightarrow> kstate \<Rightarrow> u32 \<times> kstate" where
  "allocspace_dir cr3 start s =
     (let dirindex = drop_bit 22 start;
          diritem = load32 (kmem s) (cr3 + dirindex * 4)
      in if INVALID_PAGE = drop_bit 12 diritem
         then let (p, s1) = allocpage s;
                  diritem = push_bit 12 p OR (PAGE_WRITE OR PAGE_PRESENT OR PAGE_USER)
              in (diritem, s1\<lparr>kmem := store32 (cr3 + dirindex * 4) diritem (kmem s1)\<rparr>)
         else (diritem, s))"

definition allocspace_page :: "u32 \<Rightarrow> u32 \<Rightarrow> cint \<Rightarrow> kstate \<Rightarrow> kstate" where
  "allocspace_page cr3 start attr s =
     (let (diritem, s1) = allocspace_dir cr3 start s;
          tableindex = drop_bit 12 (start AND 0x003FF000);
          tablepage = diritem AND 0xFFFFF000;
          tableitem = load32 (kmem s1) (tablepage + tableindex * 4)
      in if INVALID_PAGE = drop_bit 12 tableitem
         then let (p, s2) = allocpage s1;
                  tableitem = push_bit 12 p OR attr
              in s2\<lparr>kmem := store32 (tablepage + tableindex * 4) tableitem (kmem s2)\<rparr>
         else s1)"

partial_function (option) allocspace_loop ::
    "u32 \<Rightarrow> u32 \<Rightarrow> u32 \<Rightarrow> cint \<Rightarrow> kstate \<Rightarrow> kstate option" where
  "allocspace_loop cr3 start end attr s =
     (if start \<le> end
      then allocspace_loop cr3 (start + 0x1000) end attr (allocspace_page cr3 start attr s)
      else Some s)"

definition allocspace :: "u32 \<Rightarrow> u32 \<Rightarrow> u32 \<Rightarrow> cint \<Rightarrow> kstate \<Rightarrow> (cint \<times> kstate) option" where
  "allocspace cr3 from to attr s =
     (if INVALID_PAGE = drop_bit 12 cr3 then Some (0, s)
      else map_option (Pair 1)
             (allocspace_loop (cr3 AND 0xFFFFF000) (from AND 0xFFFFF000) (to AND 0xFFFFF000) attr s))"

declare publicmap_loop.simps [simp del]

section \<open>When the allocation loop ends\<close>

lemma allocspace_loop_ends:
  assumes "end < 0xFFFFF000"
  shows "\<exists>t. allocspace_loop cr3 start end attr s = Some t"
proof (induction "unat end + 4096 - unat start" arbitrary: start s rule: less_induct)
  case less
  show ?case
  proof (cases "start \<le> end")
    case True
    with assms have "unat (start + 0x1000) = unat start + 4096"
      by (simp add: unat_word_ariths word_le_nat_alt word_less_nat_alt)
    with less [of "start + 0x1000"] True show ?thesis
      by (subst allocspace_loop.simps) (simp add: word_le_nat_alt)
  qed (simp add: allocspace_loop.simps)
qed

lemma page_and: "(a :: u32) AND 0xFFFFF000 = push_bit 12 (drop_bit 12 a)"
  unfolding page_mask by (rule bit_word_eqI) (auto simp: bit_simps)

lemma page_aligned_iff: "(a :: u32) AND 0xFFFFF000 = a \<longleftrightarrow> (\<exists>q. a = 4096 * q)"
proof
  assume "a AND 0xFFFFF000 = a"
  then have "a = push_bit 12 (drop_bit 12 a)" unfolding page_and by simp
  also have "\<dots> = 4096 * drop_bit 12 a" by (simp add: push_bit_eq_mult)
  finally show "\<exists>q. a = 4096 * q" by (rule exI)
next
  assume "\<exists>q. a = 4096 * q"
  then obtain q where "a = 4096 * q" by blast
  then have a: "a = push_bit 12 q" by (simp add: push_bit_eq_mult)
  show "a AND 0xFFFFF000 = a"
    unfolding a page_mask by (rule bit_word_eqI) (auto simp: bit_simps)
qed

lemma page_aligned_step: "(a :: u32) AND 0xFFFFF000 = a \<Longrightarrow> (a + 0x1000) AND 0xFFFFF000 = a + 0x1000"
proof -
  assume "a AND 0xFFFFF000 = a"
  then obtain q where "a = 4096 * q" unfolding page_aligned_iff by blast
  then have "a + 0x1000 = 4096 * (q + 1)" by (simp add: algebra_simps)
  then show ?thesis unfolding page_aligned_iff by blast
qed

lemma page_aligned_mask: "(a AND 0xFFFFF000) AND 0xFFFFF000 = (a AND 0xFFFFF000 :: u32)"
  by (simp add: and.assoc)

lemma allocspace_loop_stuck:
  assumes "allocspace_loop cr3 start end attr s = Some t"
  shows "end = 0xFFFFF000 \<longrightarrow> start AND 0xFFFFF000 = start \<longrightarrow> False"
proof (rule allocspace_loop.raw_induct [OF _ assms, where P = "\<lambda>cr3 start end attr s t.
    end = 0xFFFFF000 \<longrightarrow> start AND 0xFFFFF000 = start \<longrightarrow> False"])
  fix f cr3 start "end" attr s t
  assume IH: "\<And>cr3 start end attr s t. f cr3 start end attr s = Some t \<Longrightarrow>
      end = 0xFFFFF000 \<longrightarrow> start AND 0xFFFFF000 = start \<longrightarrow> False"
    and step: "(if start \<le> end then f cr3 (start + 0x1000) end attr (allocspace_page cr3 start attr s)
      else Some s) = Some t"
  have "start \<le> 0xFFFFF000" if "start AND 0xFFFFF000 = start"
    using word_and_le1 [of start "0xFFFFF000"] that by (simp only:)
  with step IH page_aligned_step [of start]
  show "end = 0xFFFFF000 \<longrightarrow> start AND 0xFFFFF000 = start \<longrightarrow> False"
    by (auto split: if_splits)
qed

text \<open>C31: allocspace returns for every range that ends below the last page, and reports failure exactly
  for a null CR3 page, even when frames ran out.\<close>

theorem allocspace_returns:
  assumes "to < 0xFFFFF000"
  shows "\<exists>r t. allocspace cr3 from to attr s = Some (r, t) \<and> (r = 0 \<longleftrightarrow> drop_bit 12 cr3 = 0)"
proof -
  have "to AND 0xFFFFF000 < 0xFFFFF000"
    using word_and_le2 [of to "0xFFFFF000"] assms by (rule le_less_trans)
  from allocspace_loop_ends [OF this] show ?thesis
    by (cases "drop_bit 12 cr3 = 0") (auto simp: allocspace_def)
qed

theorem allocspace_returns_witness:
  "\<exists>r t. allocspace 0x2000000 0x1000 0x2FFF 7 boot_map = Some (r, t) \<and>
     (r = 0 \<longleftrightarrow> drop_bit 12 (0x2000000 :: u32) = 0)"
  by (rule allocspace_returns) simp

text \<open>allocspace does not return for a range that reaches the last page: the loop counter wraps.\<close>

theorem allocspace_last_page_diverges:
  assumes "drop_bit 12 cr3 \<noteq> 0" and "0xFFFFF000 \<le> to"
  shows "allocspace cr3 from to attr s = None"
proof -
  have e: "to AND 0xFFFFF000 = 0xFFFFF000"
  proof -
    have "unat (drop_bit 12 to) = 0xFFFFF"
    proof -
      have "0xFFFFF000 \<le> unat to" using assms(2) by (simp add: word_le_nat_alt)
      with unat_less_32 [of to] show ?thesis unfolding pagenum_nat by (intro div_nat_eqI) simp_all
    qed
    then have "drop_bit 12 to = 0xFFFFF" by (simp add: word_unat_eq_iff)
    then show ?thesis by (simp add: page_and)
  qed
  have "allocspace_loop (cr3 AND 0xFFFFF000) (from AND 0xFFFFF000) 0xFFFFF000 attr s = None"
    using allocspace_loop_stuck [of "cr3 AND 0xFFFFF000" "from AND 0xFFFFF000" "0xFFFFF000" attr s]
      page_aligned_mask [of "from"]
    by (cases "allocspace_loop (cr3 AND 0xFFFFF000) (from AND 0xFFFFF000) 0xFFFFF000 attr s") auto
  with assms(1) show ?thesis unfolding allocspace_def e by simp
qed

theorem allocspace_last_page_diverges_witness:
  "allocspace 0x2000000 0xFFFFE000 0xFFFFFFFF 7 boot_map = None"
  by (rule allocspace_last_page_diverges) simp_all


section \<open>What the allocation loop maps\<close>

definition aligned4 :: "addr \<Rightarrow> bool" where
  "aligned4 a \<longleftrightarrow> unat a mod 4 = 0"

lemma aligned4_disjoint:
  assumes "aligned4 x" and "aligned4 y" and "x \<noteq> y"
  shows "word_at x \<inter> word_at y = {}"
proof -
  have "unat x = unat b div 4 * 4" if "aligned4 x" "b \<in> word_at x" for x b
  proof -
    define d where "d = unat (b - x)"
    have d: "d < 4" "b = x + of_nat d" using that(2) by (auto simp: d_def word_at_iff word_less_nat_alt)
    have x: "unat x mod 4 = 0" "unat x < 4294967296" using that(1) by (auto simp: aligned4_def)
    then obtain k where "unat x = 4 * k" by auto
    with x(2) have "unat x + 3 < 4294967296" by simp
    with d have "unat b = unat x + d" by (simp add: unat_word_ariths unat_of_nat32)
    with d(1) x(1) show ?thesis by presburger
  qed
  with assms show ?thesis by (metis disjoint_iff word_unat_eq_iff)
qed

lemma unat_plus_mod4: "unat (x + y :: u32) mod 4 = (unat x + unat y) mod 4"
proof -
  have "(4 :: nat) dvd 2 ^ LENGTH(32)" by simp
  then show ?thesis unfolding unat_word_ariths by (rule mod_mod_cancel)
qed

lemma aligned4_slot:
  assumes "p AND 0xFFFFF000 = (p :: u32)"
  shows "aligned4 (p + 4 * i)"
proof -
  obtain q where "p = 4096 * q" using assms page_aligned_iff by blast
  then have "p + 4 * i = 4 * (1024 * q + i)" by simp
  moreover have "unat (4 * x) mod 4 = 0" for x :: u32
  proof -
    have "4 * x = x + x + (x + x)" by simp
    then have "unat (4 * x) mod 4 = (unat (x + x) + unat (x + x)) mod 4" by (simp only: unat_plus_mod4)
    also have "\<dots> = ((unat x + unat x) mod 4 + (unat x + unat x) mod 4) mod 4"
      by (simp only: unat_plus_mod4 mod_add_eq [of "unat (x + x)" 4, symmetric])
    also have "\<dots> = 0" by presburger
    finally show ?thesis .
  qed
  ultimately show ?thesis by (simp only: aligned4_def)
qed

lemma page_of_add:
  assumes "q < 4096"
  shows "((x AND 0xFFFFF000) + q) AND 0xFFFFF000 = (x AND 0xFFFFF000 :: u32)"
proof -
  have q: "q = take_bit 12 q"
    using assms
    by (simp add: word_unat_eq_iff unsigned_take_bit_eq take_bit_nat_eq_self word_less_nat_alt)
  have "(x AND 0xFFFFF000) AND q = 0"
    unfolding page_mask by (subst q) (rule bit_word_eqI, auto simp: bit_simps)
  then have "(x AND 0xFFFFF000) + q = (x AND 0xFFFFF000) OR q" by (rule disjunctive_add_eq_or)
  then show ?thesis
    unfolding page_mask by (simp only:) (subst q, rule bit_word_eqI, auto simp: bit_simps)
qed


lemma slot_in_page:
  assumes "i < 1024" and "b \<in> word_at ((e AND 0xFFFFF000) + i * 4)"
  shows "b AND 0xFFFFF000 = (e AND 0xFFFFF000 :: u32)"
proof -
  define d where "d = b - ((e AND 0xFFFFF000) + i * 4)"
  have "unat d < 4" using assms(2) by (simp add: d_def word_at_iff word_less_nat_alt)
  moreover have "unat i < 1024" using assms(1) by (simp add: word_less_nat_alt)
  ultimately have "i * 4 + d < 4096" by (simp add: word_less_nat_alt unat_word_ariths)
  moreover have "b = (e AND 0xFFFFF000) + (i * 4 + d)" by (simp add: d_def)
  ultimately show ?thesis using page_of_add by simp
qed

lemma indices_bound: "drop_bit 22 (a :: u32) < 1024" "drop_bit 12 (a AND 0x003FF000 :: u32) < 1024"
proof -
  have "unat a div 4194304 < 1024" by (simp add: less_mult_imp_div_less)
  then show "drop_bit 22 a < 1024" by (simp only: word_less_nat_alt dirindex_nat) simp
  show "drop_bit 12 (a AND 0x003FF000) < 1024" by (simp only: word_less_nat_alt tableindex_nat) simp
qed

definition pm_bytes :: "kstate \<Rightarrow> addr set" where
  "pm_bytes s = {a. a - pagemap s < 16384}"

definition page_safe :: "kstate \<Rightarrow> u32 \<Rightarrow> bool" where
  "page_safe s e \<longleftrightarrow> (\<forall>b. b AND 0xFFFFF000 = e AND 0xFFFFF000 \<longrightarrow> b \<notin> pm_bytes s)"

text \<open>
  The condition under which a task's tables can be filled: the bit map lies between the first page
  and 32M, and neither the directory nor a table it names overlaps it.
\<close>

definition space_inv :: "u32 \<Rightarrow> kstate \<Rightarrow> bool" where
  "space_inv cr3 s \<longleftrightarrow> cr3 AND 0xFFFFF000 = cr3 \<and> 0x1000 \<le> pagemap s \<and> pagemap s \<le> 0x1FFC000 \<and>
     page_safe s cr3 \<and> (\<forall>a. page_safe s (load32 (kmem s) (dir_slot cr3 a)))"

text \<open>No frame can be handed out any more.\<close>

definition exhausted :: "kstate \<Rightarrow> bool" where
  "exhausted s \<longleftrightarrow> (\<forall>j. 8192 \<le> j \<and> j < 131072 \<longrightarrow> \<not> tail_clear (pagemap s) (kmem s) j)"

text \<open>What every step keeps: marked frames stay marked, present entries stay as they are.\<close>

definition ext :: "kstate \<Rightarrow> kstate \<Rightarrow> bool" where
  "ext s t \<longleftrightarrow> pagemap t = pagemap s \<and>
     (\<forall>j < 131072. bit_at (pagemap s) (kmem s) j \<longrightarrow> bit_at (pagemap s) (kmem t) j) \<and>
     (\<forall>w. aligned4 w \<and> word_at w \<inter> pm_bytes s = {} \<and> drop_bit 12 (load32 (kmem s) w) \<noteq> 0 \<longrightarrow>
        load32 (kmem t) w = load32 (kmem s) w)"

lemma ext_refl: "ext s s" by (simp add: ext_def)

lemma ext_trans: "ext s t \<Longrightarrow> ext t u \<Longrightarrow> ext s u"
  unfolding ext_def pm_bytes_def by metis

lemma above_bound: "above j r \<Longrightarrow> j < 131072 \<Longrightarrow> r < 131072"
proof -
  assume a: "above j r" and "j < 131072"
  then have "unat j div 8 < 16384" by (simp add: word_less_nat_alt)
  moreover have "unat r div 8 = unat j div 8"
    using a by (metis above_def unat_div_8)
  ultimately show ?thesis by (simp add: word_less_nat_alt)
qed

lemma exhausted_ext: "ext s t \<Longrightarrow> exhausted s \<Longrightarrow> exhausted t"
  unfolding exhausted_def
proof (intro allI impI)
  fix j :: u32 assume e: "ext s t" and x: "\<forall>j. 8192 \<le> j \<and> j < 131072 \<longrightarrow> \<not> tail_clear (pagemap s) (kmem s) j"
    and j: "8192 \<le> j \<and> j < 131072"
  then have "\<not> tail_clear (pagemap s) (kmem s) j" by blast
  then obtain r where "r = j \<or> above j r" "bit_at (pagemap s) (kmem s) r"
    by (auto simp: tail_clear_def)
  with e j above_bound show "\<not> tail_clear (pagemap t) (kmem t) j"
    by (auto simp: tail_clear_def ext_def)
qed

lemma pm_index: "j < 131072 \<Longrightarrow> pagemap s + j div 8 \<in> pm_bytes s"
  by (simp add: pm_bytes_def word_less_nat_alt unat_div_8)

lemma allocpage_step:
  assumes inv: "space_inv cr3 s" and a: "allocpage s = (p, s')"
  shows "space_inv cr3 s' \<and> ext s s' \<and> (p = 0 \<and> exhausted s' \<or> 8192 \<le> p \<and> p < 131072) \<and>
    (\<forall>w. word_at w \<inter> pm_bytes s = {} \<longrightarrow> load32 (kmem s') w = load32 (kmem s) w)"
  using a
proof (cases rule: allocpage_cases)
  case 1
  with inv show ?thesis by (auto simp: ext_refl exhausted_def)
next
  case 2
  have o: "kmem s' b = kmem s b" if "b \<notin> pm_bytes s" for b
    using that 2 pm_index [of p s] by (auto simp: bitset_def)
  have l: "load32 (kmem s') w = load32 (kmem s) w" if "word_at w \<inter> pm_bytes s = {}" for w
    using that o by (intro load32_cong) auto
  have d: "word_at (dir_slot cr3 a) \<inter> pm_bytes s = {}" for a
    using inv slot_in_page [OF indices_bound(1), of _ cr3 a]
    by (auto simp: space_inv_def page_safe_def dir_slot_def)
  have "pagemap s' = pagemap s" "pm_bytes s' = pm_bytes s" using 2 by (simp_all add: pm_bytes_def)
  with inv l [OF d] have "space_inv cr3 s'" by (simp add: space_inv_def page_safe_def)
  with 2 l show ?thesis by (auto simp: ext_def)
qed


lemma dir_slot_outside: "space_inv cr3 s \<Longrightarrow> word_at (dir_slot cr3 a) \<inter> pm_bytes s = {}"
  using slot_in_page [OF indices_bound(1), of _ cr3 a]
  by (auto simp: space_inv_def page_safe_def dir_slot_def)

lemma tab_slot_outside: "page_safe s e \<Longrightarrow> word_at (tab_slot e a) \<inter> pm_bytes s = {}"
  using slot_in_page [OF indices_bound(2), of _ e a] by (auto simp: page_safe_def tab_slot_def)

lemma slots_aligned: "space_inv cr3 s \<Longrightarrow> aligned4 (dir_slot cr3 a)" "aligned4 (tab_slot e a)"
  using aligned4_slot [of cr3 "drop_bit 22 a"] page_aligned_mask [of e]
    aligned4_slot [of "e AND 0xFFFFF000" "drop_bit 12 (a AND 0x003FF000)"]
  unfolding space_inv_def dir_slot_def tab_slot_def mult.commute [of _ "4 :: u32"] by blast+

lemma store_step:
  assumes inv: "space_inv cr3 s" and al: "aligned4 w" and w: "word_at w \<inter> pm_bytes s = {}"
    and absent: "drop_bit 12 (load32 (kmem s) w) = 0" and v: "page_safe s v"
  defines "s' \<equiv> s\<lparr>kmem := store32 w v (kmem s)\<rparr>"
  shows "space_inv cr3 s' \<and> ext s s'"
proof -
  have pm: "pagemap s' = pagemap s" "pm_bytes s' = pm_bytes s" by (simp_all add: s'_def pm_bytes_def)
  have l: "load32 (kmem s') x = (if x = w then v else load32 (kmem s) x)" if "aligned4 x" for x
    using aligned4_disjoint [OF that al] by (simp add: s'_def load32_store32_other)
  have b: "bit_at (pagemap s) (kmem s') j = bit_at (pagemap s) (kmem s) j" if "j < 131072" for j
  proof -
    have "pagemap s + j div 8 \<notin> word_at w" using pm_index [OF that, of s] w by blast
    then show ?thesis by (simp add: s'_def bit_at_def store32_other)
  qed
  have "space_inv cr3 s'"
    using inv v l [OF slots_aligned(1) [OF inv]] pm by (simp add: space_inv_def page_safe_def)
  moreover have "ext s s'" using pm b l absent by (auto simp: ext_def)
  ultimately show ?thesis ..
qed

lemma push_page_and: "push_bit 12 p AND 0xFFFFF000 = (push_bit 12 p :: u32)"
  unfolding page_mask by (rule bit_word_eqI) (auto simp: bit_simps)

lemma unat_push_page: "unat p < 1048576 \<Longrightarrow> unat (push_bit 12 p :: u32) = 4096 * unat p"
  by (simp add: push_bit_eq_mult unat_word_ariths)

lemma frame_item_safe:
  assumes pm: "0x1000 \<le> pagemap s" "pagemap s \<le> 0x1FFC000"
    and p: "p = 0 \<or> 8192 \<le> p \<and> p < 131072" and attr: "attr AND 0xFFFFF000 = 0"
  shows "page_safe s (push_bit 12 p OR attr)"
  unfolding page_safe_def
proof (intro allI impI)
  fix b assume "b AND 0xFFFFF000 = (push_bit 12 p OR attr) AND 0xFFFFF000"
  also have "\<dots> = push_bit 12 p"
    using attr by (simp add: bit.conj_disj_distrib2 push_page_and)
  finally have b: "b AND 0xFFFFF000 = push_bit 12 p" .
  then have "unat (push_bit 12 (drop_bit 12 b)) = unat (push_bit 12 p)" by (simp only: page_and)
  moreover have "unat (drop_bit 12 b) < 1048576"
    unfolding pagenum_nat by (simp add: less_mult_imp_div_less)
  moreover have "unat p < 1048576" using p by (auto simp: word_less_nat_alt)
  ultimately have "unat (drop_bit 12 b) = unat p" by (simp only: unat_push_page)
  then have "unat b div 4096 = unat p" by (simp only: pagenum_nat)
  then have "unat b < 4096 \<or> 0x2000000 \<le> unat b"
    using p by (auto simp: word_le_nat_alt)
  moreover have "0x1000 \<le> unat (pagemap s)" "unat (pagemap s) \<le> 0x1FFC000"
    using pm by (simp_all add: word_le_nat_alt)
  ultimately show "b \<notin> pm_bytes s"
    by (auto simp: pm_bytes_def word_less_nat_alt unat_sub_if')
qed

lemma item_present: 
  assumes "8192 \<le> p" and "p < 131072"
  shows "drop_bit 12 (push_bit 12 p OR attr) \<noteq> (0 :: u32)"
proof
  assume "drop_bit 12 (push_bit 12 p OR attr) = 0"
  then have "(push_bit 12 p OR attr) AND 0xFFFFF000 = 0" by (simp only: drop_page_eq_0)
  then have "push_bit 12 p AND 0xFFFFF000 = 0"
    by (simp add: bit.conj_disj_distrib2 or_eq_0_iff)
  then have "unat (push_bit 12 p) = 0" by (simp add: push_page_and)
  with assms show False by (simp add: unat_push_page word_le_nat_alt word_less_nat_alt)
qed

lemma allocspace_dir_step:
  assumes inv: "space_inv cr3 s" and d: "allocspace_dir cr3 a s = (e, s')"
  shows "space_inv cr3 s' \<and> ext s s' \<and> load32 (kmem s') (dir_slot cr3 a) = e \<and>
    (drop_bit 12 e \<noteq> 0 \<or> exhausted s')"
proof (cases "drop_bit 12 (load32 (kmem s) (dir_slot cr3 a)) = 0")
  case False
  then have "s' = s" "e = load32 (kmem s) (dir_slot cr3 a)"
    using d by (auto simp: allocspace_dir_def dir_slot_def Let_def)
  with False inv show ?thesis by (simp add: ext_refl)
next
  case True
  obtain p s1 where p: "allocpage s = (p, s1)" by fastforce
  note step = allocpage_step [OF inv p]
  define v where "v = push_bit 12 p OR (PAGE_WRITE OR PAGE_PRESENT OR PAGE_USER)"
  have e: "e = v" and s': "s' = s1\<lparr>kmem := store32 (dir_slot cr3 a) v (kmem s1)\<rparr>"
    using True d p by (auto simp: allocspace_dir_def dir_slot_def Let_def v_def)
  have v: "page_safe s1 v"
    unfolding v_def by (rule frame_item_safe) (use step in \<open>auto simp: space_inv_def PAGE_WRITE_def PAGE_PRESENT_def PAGE_USER_def\<close>)
  have "drop_bit 12 (load32 (kmem s1) (dir_slot cr3 a)) = 0"
    using True step dir_slot_outside [OF inv] by simp
  then have st: "space_inv cr3 s' \<and> ext s1 s'"
    unfolding s' using step v by (intro store_step) (auto simp: dir_slot_outside intro: slots_aligned)
  have "drop_bit 12 e \<noteq> 0 \<or> exhausted s'"
    using step st exhausted_ext [of s1 s'] item_present [of p] unfolding e v_def by blast
  with st step ext_trans e show ?thesis by (auto simp: s')
qed


lemma user_byte_ext:
  assumes "space_inv cr3 s" and "ext s t" and "user_byte cr3 a (kmem s) = Some b"
  shows "user_byte cr3 a (kmem t) = Some b"
proof -
  let ?e = "load32 (kmem s) (dir_slot cr3 a)"
  have keep: "load32 (kmem t) w = load32 (kmem s) w"
    if "aligned4 w" "word_at w \<inter> pm_bytes s = {}" "drop_bit 12 (load32 (kmem s) w) \<noteq> 0" for w
    using assms(2) that by (simp add: ext_def)
  have p: "drop_bit 12 ?e \<noteq> 0" "drop_bit 12 (load32 (kmem s) (tab_slot ?e a)) \<noteq> 0"
    using assms(3) by (auto simp: user_byte_def Let_def split: if_splits)
  have "page_safe s ?e" using assms(1) by (simp add: space_inv_def)
  with p have "load32 (kmem t) (dir_slot cr3 a) = ?e"
    "load32 (kmem t) (tab_slot ?e a) = load32 (kmem s) (tab_slot ?e a)"
    using keep slots_aligned(1) [OF assms(1)] slots_aligned(2) dir_slot_outside [OF assms(1)] tab_slot_outside by blast+
  with assms(3) show ?thesis by (auto simp: user_byte_def Let_def split: if_splits)
qed

lemma allocspace_page_step:
  fixes a :: addr
  assumes inv: "space_inv cr3 s" and attr: "attr AND 0xFFFFF000 = 0"
    and s'_def: "s' = allocspace_page cr3 a attr s"
  shows "space_inv cr3 s' \<and> ext s s' \<and> (user_byte cr3 a (kmem s') \<noteq> None \<or> exhausted s')"
proof -
  obtain e s1 where d: "allocspace_dir cr3 a s = (e, s1)" by fastforce
  note dir = allocspace_dir_step [OF inv d]
  then have es: "page_safe s1 e" by (auto simp: space_inv_def)
  show ?thesis
  proof (cases "drop_bit 12 (load32 (kmem s1) (tab_slot e a)) = 0")
    case False
    then have "s' = s1" using d by (simp add: s'_def allocspace_page_def tab_slot_def)
    with dir False show ?thesis by (auto simp: user_byte_def Let_def)
  next
    case True
    obtain p s2 where p: "allocpage s1 = (p, s2)" by fastforce
    note alloc = allocpage_step [OF conjunct1 [OF dir] p]
    then have pm: "pm_bytes s2 = pm_bytes s1" by (auto simp: ext_def pm_bytes_def)
    let ?v = "push_bit 12 p OR attr"
    have s': "s' = s2\<lparr>kmem := store32 (tab_slot e a) ?v (kmem s2)\<rparr>"
      using True d p by (simp add: s'_def allocspace_page_def tab_slot_def)
    have out: "word_at (tab_slot e a) \<inter> pm_bytes s1 = {}" using es by (rule tab_slot_outside)
    have "space_inv cr3 s' \<and> ext s2 s'"
      unfolding s'
    proof (rule store_step)
      show "drop_bit 12 (load32 (kmem s2) (tab_slot e a)) = 0" using True alloc out by simp
      show "page_safe s2 ?v" by (rule frame_item_safe) (use alloc attr in \<open>auto simp: space_inv_def\<close>)
    qed (use alloc out pm slots_aligned(2) in auto)
    moreover from this dir alloc have "ext s1 s'" "ext s s'" using ext_trans by blast+
    moreover have "user_byte cr3 a (kmem s') \<noteq> None \<or> exhausted s'"
    proof (cases "exhausted s1 \<or> exhausted s2")
      case True
      with calculation show ?thesis using exhausted_ext by blast
    next
      case False
      with dir alloc have "drop_bit 12 e \<noteq> 0" "8192 \<le> p" "p < 131072" by blast+
      moreover have "load32 (kmem s') (dir_slot cr3 a) = e"
        using \<open>ext s1 s'\<close> dir \<open>drop_bit 12 e \<noteq> 0\<close> slots_aligned(1) dir_slot_outside
        unfolding ext_def by blast
      moreover have "load32 (kmem s') (tab_slot e a) = ?v" by (simp add: s')
      ultimately show ?thesis using item_present [of p attr] by (simp add: user_byte_def Let_def)
    qed
    ultimately show ?thesis by blast
  qed
qed

lemma aligned_next:
  fixes a b :: u32
  assumes "a AND 0xFFFFF000 = a" and "b AND 0xFFFFF000 = b" and "a \<le> b" and "a \<noteq> b"
  shows "a + 0x1000 \<le> b"
proof -
  have "unat x = 4096 * (unat x div 4096)" if "x AND 0xFFFFF000 = x" for x :: u32
  proof -
    have "unat x div 4096 < 1048576" by (simp add: less_mult_imp_div_less)
    then show ?thesis using that unat_push_page [of "drop_bit 12 x"] page_and [of x] by (simp only: pagenum_nat)
  qed
  then obtain k l where k: "unat a = 4096 * k" and l: "unat b = 4096 * l" using assms(1,2) by metis
  with assms(3,4) have "k < l" by (auto simp: word_le_nat_alt word_unat_eq_iff)
  with k l have "unat a + 4096 \<le> unat b" by simp
  moreover from this have "unat (a + 0x1000) = unat a + 4096"
    using unat_less_32 [of b] by (simp add: unat_word_ariths mod_less le_less_trans)
  ultimately show ?thesis by (simp add: word_le_nat_alt)
qed

lemma allocspace_loop_maps:
  assumes "end < 0xFFFFF000" and "space_inv cr3 s" and "attr AND 0xFFFFF000 = 0"
    and "start AND 0xFFFFF000 = start"
  shows "\<exists>t. allocspace_loop cr3 start end attr s = Some t \<and> space_inv cr3 t \<and> ext s t \<and>
    (exhausted t \<or> (\<forall>a. a AND 0xFFFFF000 = a \<and> start \<le> a \<and> a \<le> end \<longrightarrow> user_byte cr3 a (kmem t) \<noteq> None))"
  using assms(2,4)
proof (induction "unat end + 4096 - unat start" arbitrary: start s rule: less_induct)
  case less
  show ?case
  proof (cases "start \<le> end")
    case True
    let ?s = "allocspace_page cr3 start attr s"
    note page = allocspace_page_step [OF less.prems(1) assms(3) refl, of start]
    from True assms(1) have "unat (start + 0x1000) = unat start + 4096"
      by (simp add: unat_word_ariths word_le_nat_alt word_less_nat_alt)
    with True have lt: "unat end + 4096 - unat (start + 0x1000) < unat end + 4096 - unat start"
      by (simp add: word_le_nat_alt)
    from less.hyps [OF lt conjunct1 [OF page] page_aligned_step [OF less.prems(2)]]
    obtain t where t: "allocspace_loop cr3 (start + 0x1000) end attr ?s = Some t" "space_inv cr3 t" "ext ?s t"
      and m: "exhausted t \<or> (\<forall>a. a AND 0xFFFFF000 = a \<and> start + 0x1000 \<le> a \<and> a \<le> end \<longrightarrow>
        user_byte cr3 a (kmem t) \<noteq> None)"
      by blast
    have "user_byte cr3 a (kmem t) \<noteq> None"
      if a: "\<not> exhausted t" "a AND 0xFFFFF000 = a" "start \<le> a" "a \<le> end" for a
    proof (cases "a = start")
      case True
      with page a(1) t(3) obtain b where "user_byte cr3 a (kmem ?s) = Some b" using exhausted_ext by blast
      with user_byte_ext [OF conjunct1 [OF page] t(3)] show ?thesis by simp
    next
      case False
      with a m aligned_next [OF less.prems(2)] show ?thesis by blast
    qed
    with t page True ext_trans show ?thesis
      by (subst allocspace_loop.simps) auto
  next
    case False
    then show ?thesis using less.prems
      by (subst allocspace_loop.simps) (auto simp: ext_refl)
  qed
qed


lemma user_byte_page:
  "user_byte cr3 (a AND 0xFFFFF000) m = None \<longleftrightarrow> user_byte cr3 a m = None"
proof -
  have "drop_bit 22 (a AND 0xFFFFF000) = drop_bit 22 a"
    unfolding page_mask by (rule bit_word_eqI) (auto simp: bit_simps dest: bit_imp_le_length)
  moreover have "(a AND 0xFFFFF000) AND 0x003FF000 = a AND 0x003FF000" by (simp add: and.assoc)
  ultimately have "dir_slot cr3 (a AND 0xFFFFF000) = dir_slot cr3 a"
    and "tab_slot e (a AND 0xFFFFF000) = tab_slot e a" for e
    by (simp_all only: dir_slot_def tab_slot_def)
  then show ?thesis by (simp add: user_byte_def Let_def)
qed

lemma page_and_mono: "a \<le> b \<Longrightarrow> a AND 0xFFFFF000 \<le> b AND (0xFFFFF000 :: u32)"
proof -
  have "unat (x AND 0xFFFFF000) = 4096 * (unat x div 4096)" for x :: u32
    unfolding page_and using unat_push_page [of "drop_bit 12 x"]
    by (simp only: pagenum_nat) (simp add: less_mult_imp_div_less)
  then show "a \<le> b \<Longrightarrow> ?thesis" by (simp add: word_le_nat_alt div_le_mono)
qed

lemma allocspace_maps_pages:
  assumes "space_inv (cr3 AND 0xFFFFF000) s" and "drop_bit 12 cr3 \<noteq> 0"
    and "attr AND 0xFFFFF000 = 0" and "to < 0xFFFFF000"
  shows "\<exists>t. allocspace_loop (cr3 AND 0xFFFFF000) (from AND 0xFFFFF000) (to AND 0xFFFFF000) attr s = Some t \<and>
    allocspace cr3 from to attr s = Some (1, t) \<and>
    (exhausted t \<or> (\<forall>a. from \<le> a \<and> a \<le> to \<longrightarrow> user_byte (cr3 AND 0xFFFFF000) a (kmem t) \<noteq> None)) \<and>
    (\<forall>a b. user_byte (cr3 AND 0xFFFFF000) a (kmem s) = Some b \<longrightarrow>
       user_byte (cr3 AND 0xFFFFF000) a (kmem t) = Some b)"
proof -
  have "to AND 0xFFFFF000 < 0xFFFFF000"
    using word_and_le2 [of to "0xFFFFF000"] assms(4) by (rule le_less_trans)
  from allocspace_loop_maps [OF this assms(1,3) page_aligned_mask, of "from"]
  obtain t where t: "allocspace_loop (cr3 AND 0xFFFFF000) (from AND 0xFFFFF000) (to AND 0xFFFFF000) attr s = Some t"
    "ext s t" and m: "exhausted t \<or> (\<forall>a. a AND 0xFFFFF000 = a \<and> from AND 0xFFFFF000 \<le> a \<and>
      a \<le> to AND 0xFFFFF000 \<longrightarrow> user_byte (cr3 AND 0xFFFFF000) a (kmem t) \<noteq> None)" by blast
  have "user_byte (cr3 AND 0xFFFFF000) a (kmem t) \<noteq> None" if "\<not> exhausted t" "from \<le> a" "a \<le> to" for a
    using m that page_and_mono page_aligned_mask user_byte_page by blast
  with t user_byte_ext [OF assms(1) t(2)] assms(2) show ?thesis
    by (auto simp: allocspace_def)
qed

section \<open>What the processor sees of it\<close>

text \<open>
  \<^verbatim>\<open>allocspace\<close> does not clear the frame it takes for a new table, so what the frame holds becomes its entries.
  In clean tables every entry with a page number is present, and so would be every word of a free frame.
\<close>

definition tables_clean :: "u32 \<Rightarrow> kstate \<Rightarrow> bool" where
  "tables_clean cr3 s \<longleftrightarrow>
     (\<forall>a. entry_ok (load32 (kmem s) (dir_slot cr3 a))) \<and>
     (\<forall>a b. drop_bit 12 (load32 (kmem s) (dir_slot cr3 a)) \<noteq> 0 \<longrightarrow>
        entry_ok (load32 (kmem s) (tab_slot (load32 (kmem s) (dir_slot cr3 a)) b))) \<and>
     (\<forall>p b. 8192 \<le> p \<and> p < 131072 \<and> tail_clear (pagemap s) (kmem s) p \<longrightarrow> entry_ok (load32 (kmem s) (tab_slot (push_bit 12 p) b)))"

lemma tables_clean_mmu:
  assumes "tables_clean cr3 s" and "user_byte cr3 a (kmem s) = Some b"
  shows "mmu_byte cr3 a (kmem s) = Some b"
proof -
  have "drop_bit 12 (load32 (kmem s) (dir_slot cr3 a)) \<noteq> 0" using assms(2) by (auto simp: user_byte_def Let_def split: if_splits)
  then show ?thesis using assms by (intro user_byte_mmu) (simp_all add: tables_clean_def)
qed

lemma free_before:
  assumes "ext s t" and "p < 131072" and "tail_clear (pagemap t) (kmem t) p"
  shows "tail_clear (pagemap s) (kmem s) p"
proof -
  have "bit_at (pagemap s) (kmem t) r" if "bit_at (pagemap s) (kmem s) r" "r < 131072" for r
    using assms(1) that unfolding ext_def by blast
  moreover have "pagemap t = pagemap s" using assms(1) unfolding ext_def by blast
  ultimately show ?thesis using assms(2,3) above_bound unfolding tail_clear_def by metis
qed

lemma frame_outside:
  assumes "space_inv cr3 s" and "8192 \<le> p" and "p < 131072"
  shows "word_at (tab_slot (push_bit 12 p) b) \<inter> pm_bytes s = {}"
proof (rule tab_slot_outside)
  have "page_safe s (push_bit 12 p OR 0)"
    by (rule frame_item_safe) (use assms in \<open>auto simp: space_inv_def\<close>)
  then show "page_safe s (push_bit 12 p)" by simp
qed

lemma allocpage_clean:
  assumes inv: "space_inv cr3 s" and c: "tables_clean cr3 s" and a: "allocpage s = (p, t)"
  shows "tables_clean cr3 t" and "p = 0 \<or> (\<forall>b. entry_ok (load32 (kmem t) (tab_slot (push_bit 12 p) b)))"
proof -
  note step = allocpage_step [OF inv a]
  have l: "word_at w \<inter> pm_bytes s = {} \<Longrightarrow> load32 (kmem t) w = load32 (kmem s) w" for w using step by blast
  have d: "load32 (kmem t) (dir_slot cr3 x) = load32 (kmem s) (dir_slot cr3 x)" for x by (rule l) (rule dir_slot_outside [OF inv])
  have e: "load32 (kmem t) (tab_slot (load32 (kmem s) (dir_slot cr3 x)) b) = load32 (kmem s) (tab_slot (load32 (kmem s) (dir_slot cr3 x)) b)" for x b
    by (rule l) (rule tab_slot_outside, use inv in \<open>simp add: space_inv_def\<close>)
  have f: "load32 (kmem t) (tab_slot (push_bit 12 q) b) = load32 (kmem s) (tab_slot (push_bit 12 q) b)" if "8192 \<le> q" "q < 131072" for q b
    by (rule l) (rule frame_outside [OF inv that])
  have "ext s t" using step by blast
  then show "tables_clean cr3 t"
    using c free_before [OF \<open>ext s t\<close>] f unfolding tables_clean_def d e by simp
  show "p = 0 \<or> (\<forall>b. entry_ok (load32 (kmem t) (tab_slot (push_bit 12 p) b)))"
    using a c f by (cases rule: allocpage_cases) (simp_all add: tables_clean_def)
qed

lemma item_bits: "tab_slot (push_bit 12 p OR attr) b = tab_slot (push_bit 12 p) b" if "attr AND 0xFFFFF000 = 0"
  unfolding tab_slot_def using that by (simp add: bit.conj_disj_distrib2)

lemma item_ok: "bit attr 0 \<Longrightarrow> entry_ok (push_bit 12 p OR attr)"
  by (simp add: entry_ok_def bit_simps)

lemma store_clean:
  fixes p attr :: u32
  defines "v \<equiv> push_bit 12 p OR attr"
  assumes inv: "space_inv cr3 s" and c: "tables_clean cr3 s" and al: "aligned4 w" and w: "word_at w \<inter> pm_bytes s = {}"
    and attr: "attr AND 0xFFFFF000 = 0" "bit attr 0"
    and p: "p = 0 \<or> (\<forall>b. entry_ok (load32 (kmem s) (tab_slot (push_bit 12 p) b)))"
  shows "tables_clean cr3 (s\<lparr>kmem := store32 w v (kmem s)\<rparr>)"
proof -
  let ?t = "s\<lparr>kmem := store32 w v (kmem s)\<rparr>"
  have l: "load32 (kmem ?t) x = (if x = w then v else load32 (kmem s) x)" if "aligned4 x" for x
    using aligned4_disjoint [OF that al] by (simp add: load32_store32_other)
  have v: "entry_ok v" unfolding v_def using attr(2) by (rule item_ok)
  have d: "load32 (kmem ?t) (dir_slot cr3 x) = (if dir_slot cr3 x = w then v else load32 (kmem s) (dir_slot cr3 x))" for x
    by (rule l) (rule slots_aligned(1) [OF inv])
  have e: "load32 (kmem ?t) (tab_slot i b) = (if tab_slot i b = w then v else load32 (kmem s) (tab_slot i b))" for i b
    by (rule l) (rule slots_aligned(2))
  have b: "bit_at (pagemap s) (kmem ?t) j = bit_at (pagemap s) (kmem s) j" if "j < 131072" for j
  proof -
    have "pagemap s + j div 8 \<notin> word_at w" using pm_index [OF that, of s] w by blast
    then show ?thesis by (simp add: bit_at_def store32_other)
  qed
  have f: "tail_clear (pagemap s) (kmem s) q" if "q < 131072" "tail_clear (pagemap s) (kmem ?t) q" for q
    using that b above_bound unfolding tail_clear_def by metis
  have new: "entry_ok (load32 (kmem s) (tab_slot v b))" if "drop_bit 12 v \<noteq> 0" for b
  proof -
    have "p \<noteq> 0"
    proof
      assume "p = 0"
      then have "v AND 0xFFFFF000 = 0" using attr(1) by (simp add: v_def)
      with that show False by (simp only: drop_page_eq_0)
    qed
    then show ?thesis using p item_bits [OF attr(1)] unfolding v_def by metis
  qed
  show ?thesis
    unfolding tables_clean_def
  proof (intro conjI allI impI)
    fix x show "entry_ok (load32 (kmem ?t) (dir_slot cr3 x))" unfolding d using v c by (simp add: tables_clean_def)
  next
    fix x y assume "drop_bit 12 (load32 (kmem ?t) (dir_slot cr3 x)) \<noteq> 0"
    then show "entry_ok (load32 (kmem ?t) (tab_slot (load32 (kmem ?t) (dir_slot cr3 x)) y))"
      unfolding e unfolding d using v c new by (auto simp: tables_clean_def split: if_splits)
  next
    fix q y assume "8192 \<le> q \<and> q < 131072 \<and> tail_clear (pagemap ?t) (kmem ?t) q"
    then have "tail_clear (pagemap s) (kmem s) q" "8192 \<le> q" "q < 131072" using f by simp_all
    then show "entry_ok (load32 (kmem ?t) (tab_slot (push_bit 12 q) y))"
      unfolding e using v c by (simp add: tables_clean_def)
  qed
qed

lemma allocspace_dir_clean:
  assumes inv: "space_inv cr3 s" and c: "tables_clean cr3 s" and d: "allocspace_dir cr3 a s = (e, t)"
  shows "tables_clean cr3 t"
proof (cases "drop_bit 12 (load32 (kmem s) (dir_slot cr3 a)) = 0")
  case False
  then show ?thesis using c d by (auto simp: allocspace_dir_def dir_slot_def Let_def)
next
  case True
  obtain p s1 where p: "allocpage s = (p, s1)" by fastforce
  let ?f = "PAGE_WRITE OR PAGE_PRESENT OR PAGE_USER"
  have t: "t = s1\<lparr>kmem := store32 (dir_slot cr3 a) (push_bit 12 p OR ?f) (kmem s1)\<rparr>"
    using True d p by (auto simp: allocspace_dir_def dir_slot_def Let_def)
  have inv1: "space_inv cr3 s1" using allocpage_step [OF inv p] by blast
  have f: "?f AND 0xFFFFF000 = 0" "bit ?f 0" by (simp_all add: PAGE_WRITE_def PAGE_PRESENT_def PAGE_USER_def)
  show ?thesis
    unfolding t by (rule store_clean [OF inv1 allocpage_clean(1) [OF inv c p] slots_aligned(1) [OF inv1] dir_slot_outside [OF inv1] f
        allocpage_clean(2) [OF inv c p]])
qed

lemma allocspace_page_clean:
  assumes inv: "space_inv cr3 s" and c: "tables_clean cr3 s" and attr: "attr AND 0xFFFFF000 = 0" "bit attr 0"
  shows "tables_clean cr3 (allocspace_page cr3 a attr s)"
proof -
  obtain e s1 where d: "allocspace_dir cr3 a s = (e, s1)" by fastforce
  note dir = allocspace_dir_step [OF inv d] and c1 = allocspace_dir_clean [OF inv c d]
  then have es: "page_safe s1 e" by (auto simp: space_inv_def)
  show ?thesis
  proof (cases "drop_bit 12 (load32 (kmem s1) (tab_slot e a)) = 0")
    case False
    then show ?thesis using d c1 by (simp add: allocspace_page_def tab_slot_def)
  next
    case True
    obtain p s2 where p: "allocpage s1 = (p, s2)" by fastforce
    have inv1: "space_inv cr3 s1" using dir by blast
    have inv2: "space_inv cr3 s2" and pm: "pm_bytes s2 = pm_bytes s1"
      using allocpage_step [OF inv1 p] by (auto simp: ext_def pm_bytes_def)
    have out: "word_at (tab_slot e a) \<inter> pm_bytes s2 = {}" unfolding pm using es by (rule tab_slot_outside)
    have "allocspace_page cr3 a attr s = s2\<lparr>kmem := store32 (tab_slot e a) (push_bit 12 p OR attr) (kmem s2)\<rparr>"
      using True d p by (simp add: allocspace_page_def tab_slot_def)
    then show ?thesis
      using store_clean [OF inv2 allocpage_clean(1) [OF inv1 c1 p] slots_aligned(2) out attr allocpage_clean(2) [OF inv1 c1 p]] by simp
  qed
qed

lemma allocspace_loop_clean:
  assumes "allocspace_loop cr3 start end attr s = Some t" and "attr AND 0xFFFFF000 = 0" "bit attr 0"
    and "space_inv cr3 s" and "tables_clean cr3 s"
  shows "tables_clean cr3 t"
proof -
  have "attr AND 0xFFFFF000 = 0 \<longrightarrow> bit attr 0 \<longrightarrow> space_inv cr3 s \<longrightarrow> tables_clean cr3 s \<longrightarrow> tables_clean cr3 t"
  proof (rule allocspace_loop.raw_induct [OF _ assms(1)], goal_cases)
    case (1 f cr3 start "end" attr s t)
    then show ?case
      using allocspace_page_step [of cr3 s attr "allocspace_page cr3 start attr s" start] allocspace_page_clean [of cr3 s attr start]
      by (auto split: if_splits)
  qed
  with assms(2-) show ?thesis by blast
qed


lemma boot_map_space_inv: "space_inv (0x2000000 AND 0xFFFFF000) boot_map"
proof -
  have safe: "page_safe boot_map 0x2000000" "page_safe boot_map 0"
    using frame_item_safe [of boot_map 8192 0] frame_item_safe [of boot_map 0 0] by (simp_all add: boot_map_def)
  have "kmem boot_map b = 0" if "b \<in> word_at (dir_slot 0x2000000 a)" for a b
  proof -
    have "b AND 0xFFFFF000 = 0x2000000"
      using slot_in_page [OF indices_bound(1), of b "0x2000000" a] that by (simp add: dir_slot_def)
    with safe(1) have "b \<notin> pm_bytes boot_map" by (simp add: page_safe_def)
    then have "\<not> b - 0x400400 < 1024"
      by (simp add: pm_bytes_def boot_map_def word_less_nat_alt)
    then show ?thesis by (simp add: boot_map_def)
  qed
  then have "load32 (kmem boot_map) (dir_slot 0x2000000 a) = load32 (\<lambda>_. 0) (dir_slot 0x2000000 a)" for a
    by (intro load32_cong) blast
  then have "load32 (kmem boot_map) (dir_slot 0x2000000 a) = 0" for a
    by (simp add: load32_def)
  with safe show ?thesis by (simp add: space_inv_def) (simp add: boot_map_def)
qed

lemma boot_map_zero:
  assumes "word_at w \<inter> pm_bytes boot_map = {}"
  shows "load32 (kmem boot_map) w = 0"
proof -
  have "kmem boot_map b = 0" if "b \<in> word_at w" for b
  proof -
    have "b \<notin> pm_bytes boot_map" using assms that by blast
    then have "\<not> b - 0x400400 < 1024" by (simp add: pm_bytes_def boot_map_def word_less_nat_alt)
    then show ?thesis by (simp add: boot_map_def)
  qed
  then have "load32 (kmem boot_map) w = load32 (\<lambda>_. 0) w" by (intro load32_cong)
  then show ?thesis by (simp add: load32_def)
qed

lemma boot_map_clean: "tables_clean (0x2000000 AND 0xFFFFF000) boot_map"
proof -
  note inv = boot_map_space_inv
  have d: "load32 (kmem boot_map) (dir_slot (0x2000000 AND 0xFFFFF000) a) = 0" for a
    by (rule boot_map_zero) (rule dir_slot_outside [OF inv])
  have f: "load32 (kmem boot_map) (tab_slot (push_bit 12 p) b) = 0" if "8192 \<le> p" "p < 131072" for p b
    by (rule boot_map_zero) (rule frame_outside [OF inv that])
  show ?thesis unfolding tables_clean_def d using f by (simp add: entry_ok_def)
qed


section \<open>Sharing the kernel's 16M window\<close>

lemma slot_neq_page:
  assumes "i < 1024" and "j < 1024" and "p AND 0xFFFFF000 \<noteq> q AND (0xFFFFF000 :: u32)"
  shows "word_at ((p AND 0xFFFFF000) + i * 4) \<inter> word_at ((q AND 0xFFFFF000) + j * 4) = {}"
proof -
  have False if "b \<in> word_at ((p AND 0xFFFFF000) + i * 4)" "b \<in> word_at ((q AND 0xFFFFF000) + j * 4)" for b
    using slot_in_page [OF assms(1) that(1)] slot_in_page [OF assms(2) that(2)] assms(3) by simp
  then show ?thesis by blast
qed

lemma same_page_slots:
  assumes "i < 1024" and "j < 1024" and "(p + i * 4 :: u32) = p + j * 4"
  shows "i = j"
proof -
  have "unat (i * 4) = unat (j * 4)" using assms(3) by simp
  then show ?thesis using assms(1,2) by (simp add: unat_word_ariths word_less_nat_alt word_unat_eq_iff)
qed

lemma publicmap_loop_loads:
  assumes c: "cr3 AND 0xFFFFF000 = cr3" and k: "cr3 \<noteq> 0x100000"
  shows "(\<forall>d < 1024. load32 (publicmap_loop cr3 start m) (cr3 + d * 4) =
      (if drop_bit 22 start \<le> d \<and> d < 8 then load32 m (0x100000 + d * 4) AND NOT PAGE_WRITE
       else load32 m (cr3 + d * 4))) \<and>
    (\<forall>p. \<forall>i < 1024. p AND 0xFFFFF000 \<noteq> cr3 \<longrightarrow>
      load32 (publicmap_loop cr3 start m) ((p AND 0xFFFFF000) + i * 4) = load32 m ((p AND 0xFFFFF000) + i * 4))"
proof (induction "0x2000000 - unat start" arbitrary: start m rule: less_induct)
  case less
  let ?d = "drop_bit 22 start"
  show ?case
  proof (cases "start < 0x2000000")
    case False
    then have "8 \<le> unat start div 4194304" by (simp add: word_less_nat_alt)
    then have "8 \<le> ?d" unfolding word_le_nat_alt dirindex_nat by simp
    then show ?thesis using False
      by (subst (1 2) publicmap_loop.simps) (auto simp: not_less dest: order.trans)
  next
    case True
    let ?v = "load32 m (0x100000 + ?d * 4) AND NOT PAGE_WRITE"
    let ?m = "store32 (cr3 + ?d * 4) ?v m"
    have u: "unat (start + 0x1000) = unat start + 4096" and s: "unat start < 0x2000000"
      using True by (simp_all add: unat_word_ariths word_less_nat_alt)
    have d8: "?d < 8" unfolding word_less_nat_alt dirindex_nat using s by (simp add: less_mult_imp_div_less)
    then have d1024: "?d < 1024" by (rule less_trans) simp
    have same: "load32 ?m (cr3 + d * 4) = (if d = ?d then ?v else load32 m (cr3 + d * 4))" if "d < 1024" for d
    proof (cases "d = ?d")
      case False
      then have "cr3 + d * 4 \<noteq> cr3 + ?d * 4" using same_page_slots [OF that d1024] by blast
      moreover have "aligned4 (cr3 + d * 4)" "aligned4 (cr3 + ?d * 4)"
        using aligned4_slot [OF c] by (simp_all only: mult.commute [of _ 4])
      ultimately have "word_at (cr3 + d * 4) \<inter> word_at (cr3 + ?d * 4) = {}" using aligned4_disjoint by blast
      with False show ?thesis by (simp add: load32_store32_other)
    qed simp
    have other: "load32 ?m ((p AND 0xFFFFF000) + i * 4) = load32 m ((p AND 0xFFFFF000) + i * 4)"
      if "i < 1024" "p AND 0xFFFFF000 \<noteq> cr3" for p i
      using slot_neq_page [OF that(1) d1024, of p cr3] that c by (simp add: load32_store32_other)
    have step: "drop_bit 22 start \<le> d \<longleftrightarrow> d = ?d \<or> drop_bit 22 (start + 0x1000) \<le> d" for d
    proof -
      have "(unat start + 4096) div 4194304 \<le> unat start div 4194304 + 1"
        using div_le_mono [of "unat start + 4096" "unat start + 4194304" 4194304] by simp
      moreover have "unat start div 4194304 \<le> (unat start + 4096) div 4194304" by (simp add: div_le_mono)
      ultimately show ?thesis
        unfolding word_le_nat_alt word_unat_eq_iff dirindex_nat u by linarith
    qed
    have loop: "publicmap_loop cr3 start m = publicmap_loop cr3 (start + 0x1000) ?m"
      using True by (subst publicmap_loop.simps) (simp add: KERNEL_CR3_def)
    have kw: "load32 ?m (0x100000 + d * 4) = load32 m (0x100000 + d * 4)" if "d < 1024" for d
      using other [OF that, of "0x100000"] k by simp
    have idem: "x AND NOT PAGE_WRITE AND NOT PAGE_WRITE = x AND NOT PAGE_WRITE" for x
      by (simp add: and.assoc)
    have lt: "0x2000000 - unat (start + 0x1000) < 0x2000000 - unat start" using u s by simp
    show ?thesis unfolding loop
      using less.hyps [OF lt, of ?m] same other kw step d8 by auto
  qed
qed


lemma not_write_page:
  "drop_bit 12 (x AND NOT PAGE_WRITE) = drop_bit 12 x"
  "(x AND NOT PAGE_WRITE) AND 0xFFFFF000 = x AND 0xFFFFF000"
proof -
  have "drop_bit 12 (x AND NOT (2 ^ k)) = drop_bit 12 x" if "k < 12" for k
    using that by (intro bit_word_eqI) (auto simp: bit_simps dest: bit_imp_le_length)
  from this [of 1] show "drop_bit 12 (x AND NOT PAGE_WRITE) = drop_bit 12 x"
    by (simp only: PAGE_WRITE_def) simp
  then show "(x AND NOT PAGE_WRITE) AND 0xFFFFF000 = x AND 0xFFFFF000"
    by (simp only: page_and)
qed

text \<open>publicmap16M2to32M makes a task translate every address from 16 MB to 32 MB as the kernel's tables
  do.\<close>

theorem publicmap_shares_kernel:
  assumes "drop_bit 12 cr3 \<noteq> 0" and "cr3 AND 0xFFFFF000 \<noteq> 0x100000"
    and "0x1000000 \<le> a" and "a < 0x2000000"
    and "load32 (kmem s) (dir_slot 0x100000 a) AND 0xFFFFF000 \<noteq> cr3 AND 0xFFFFF000"
    and "publicmap16M2to32M cr3 s = (r, t)"
  shows "r = 1 \<and> user_byte (cr3 AND 0xFFFFF000) a (kmem t) = user_byte 0x100000 a (kmem s)"
proof -
  let ?c = "cr3 AND 0xFFFFF000"
  let ?k = "load32 (kmem s) (dir_slot 0x100000 a)"
  have t: "r = 1" "kmem t = publicmap_loop ?c 0x1000000 (kmem s)"
    using assms(1,6) by (auto simp: publicmap16M2to32M_def)
  have d: "drop_bit 22 (0x1000000 :: u32) \<le> drop_bit 22 a" "drop_bit 22 a < 8"
  proof -
    have "4 \<le> unat a div 4194304" "unat a div 4194304 < 8"
      using assms(3,4) by (simp_all add: word_le_nat_alt word_less_nat_alt less_mult_imp_div_less)
    then show "drop_bit 22 (0x1000000 :: u32) \<le> drop_bit 22 a" "drop_bit 22 a < 8"
      unfolding word_le_nat_alt word_less_nat_alt dirindex_nat by simp_all
  qed
  note loads = publicmap_loop_loads [OF page_aligned_mask assms(2), of "0x1000000" "kmem s"]
  have dir: "load32 (kmem t) (dir_slot ?c a) = ?k AND NOT PAGE_WRITE"
    using conjunct1 [OF loads] d indices_bound(1) [of a] unfolding t dir_slot_def by simp
  have p: "drop_bit 12 (?k AND NOT PAGE_WRITE) = drop_bit 12 ?k" 
    "tab_slot (?k AND NOT PAGE_WRITE) a = tab_slot ?k a"
    by (simp_all only: not_write_page tab_slot_def)
  have tab: "load32 (kmem t) (tab_slot ?k a) = load32 (kmem s) (tab_slot ?k a)"
    using conjunct2 [OF loads] assms(5) indices_bound(2) [of a] unfolding t tab_slot_def by blast
  show ?thesis using t(1) by (simp only: user_byte_def dir p tab Let_def)
qed

text \<open>
  The table entry \<^verbatim>\<open>pmap\<close> makes is stored at physical address 0: the page number it passes to
  \<^verbatim>\<open>setitem\<close> is taken from the directory index, and \<^verbatim>\<open>setitem\<close> keeps one bit of the table index.
\<close>

lemma pmap_target:
  "push_bit 12 (phyfromitem (addr2phydir start)) + (addr2phttable start AND 0x400) * 4 = 0"
proof -
  have "unat (addr2phydir start) < 1024"
    using indices_bound(1) [of "start AND 0xFFC00000"] by (simp add: addr2phydir_def word_less_nat_alt)
  then have "unat (drop_bit 12 (addr2phydir start)) = 0" unfolding pagenum_nat by simp
  then have "drop_bit 12 (addr2phydir start) = 0" by (simp add: word_unat_eq_iff)
  then have "phyfromitem (addr2phydir start) = 0" by (simp only: phyfromitem_def page_and) simp
  moreover have "addr2phttable start AND 0x400 = 0"
  proof -
    have "x AND 2 ^ 10 = 0" if "x < 1024" for x :: u32
    proof -
      have "x = take_bit 10 x" using that
        by (simp add: word_unat_eq_iff unsigned_take_bit_eq take_bit_nat_eq_self word_less_nat_alt)
      moreover have "take_bit n x AND 2 ^ n = 0" for n
        by (rule bit_word_eqI) (auto simp: bit_simps)
      ultimately show ?thesis by metis
    qed
    from this [OF indices_bound(2) [of start]] show ?thesis unfolding addr2phttable_def by simp
  qed
  ultimately show ?thesis by simp
qed

text \<open>pmap writes the entry at physical address 0.\<close>

theorem pmap_stores_at_zero:
  assumes "cr3 \<noteq> 0" and "phyfromitem (getitem cr3 (addr2phydir start) (kmem s)) \<noteq> 0"
    and "phyfromitem (getitem (phyfromitem (getitem cr3 (addr2phydir start) (kmem s))) (addr2phttable start)
      (kmem s)) = 0"
  shows "pmap cr3 page start attr s = (1, s\<lparr>kmem := store32 0 (makeitem page attr) (kmem s)\<rparr>)"
  using assms by (simp add: pmap_def setitem_def pmap_target Let_def)


theorem publicmap_shares_kernel_witness:
  "fst (publicmap16M2to32M 0x2000000 boot_map) = 1 \<and>
   user_byte (0x2000000 AND 0xFFFFF000) 0x1234567 (kmem (snd (publicmap16M2to32M 0x2000000 boot_map))) =
     user_byte 0x100000 0x1234567 (kmem boot_map)"
  by (rule publicmap_shares_kernel [OF _ _ _ _ _ prod.collapse [symmetric]])
    (simp_all add: boot_map_def load32_def dir_slot_def)

theorem pmap_stores_at_zero_witness:
  "pmap 1 0x2345 0x3000 7 (boot_map\<lparr>kmem := (\<lambda>_. 0)(0x1000 := 7, 0x1001 := 0x20)\<rparr>) =
     (1, boot_map\<lparr>kmem := store32 0 (makeitem 0x2345 7) ((\<lambda>_. 0)(0x1000 := 7, 0x1001 := 0x20))\<rparr>)"
  using pmap_stores_at_zero [of 1 "0x3000" "boot_map\<lparr>kmem := (\<lambda>_. 0)(0x1000 := 7, 0x1001 := 0x20)\<rparr>"]
  by (simp add: phyfromitem_def getitem_def addr2phydir_def addr2phttable_def load32_def)

end
