(* ===== verification/MmPool.thy ===== *)
theory MmPool
  imports Prelude
begin

text \<open>
  The pool allocator of \<^verbatim>\<open>mm/mm.c\<close>: a pool is cut into blocks, each headed by an \<^verbatim>\<open>mmnode\<close> and linked
  to its neighbours; \<^verbatim>\<open>mm_bestfit\<close> splits an idle block, \<^verbatim>\<open>mm_free\<close> merges a block with its idle
  neighbours. The nodes are a typed store from addresses to nodes, the pool descriptors another:
  reading an address returns whatever node the store holds there. Loops over linked lists can run
  forever on a cyclic list, so they are \<^theory_text>\<open>partial_function (option)\<close>; the theorems prove that they
  return on well-formed pools.
\<close>

section \<open>Data\<close>

record mmnode =
  pthisaddr :: addr
  thissize :: u32
  busy :: u32
  mm_pre :: addr
  mm_next :: addr

record mmpoolinfor =
  phead :: addr
  poolsize :: cint
  valiable :: cint
  ppoolnext :: addr

record mmstate =
  nodes :: "addr \<Rightarrow> mmnode"
  pools :: "addr \<Rightarrow> mmpoolinfor"

text \<open>\<^verbatim>\<open>sizeof(struct mmnode)\<close> on i386: three words and two pointers.\<close>

definition sizeof_mmnode :: u32 where [simp]: "sizeof_mmnode = 20"

definition upd_node :: "addr \<Rightarrow> (mmnode \<Rightarrow> mmnode) \<Rightarrow> mmstate \<Rightarrow> mmstate" where
  "upd_node p f s = s\<lparr>nodes := (nodes s)(p := f (nodes s p))\<rparr>"

definition upd_pool :: "addr \<Rightarrow> (mmpoolinfor \<Rightarrow> mmpoolinfor) \<Rightarrow> mmstate \<Rightarrow> mmstate" where
  "upd_pool p f s = s\<lparr>pools := (pools s)(p := f (pools s p))\<rparr>"

section \<open>Operations\<close>

definition mm_inipool :: "addr \<Rightarrow> addr \<Rightarrow> cint \<Rightarrow> mmstate \<Rightarrow> cint \<times> mmstate" where
  "mm_inipool mmp ppool sz s =
     (if NULL = mmp then (0, s)
      else if NULL = ppool then (0, s)
      else
        let s1 = upd_pool mmp (\<lambda>p. p\<lparr>poolsize := sz, phead := ppool\<rparr>) s;
            s2 = upd_node ppool (\<lambda>n. n\<lparr>busy := 0, pthisaddr := ppool + sizeof_mmnode,
                    thissize := sz - sizeof_mmnode, mm_next := NULL, mm_pre := NULL\<rparr>) s1
        in (1, upd_pool mmp (\<lambda>p. p\<lparr>valiable := sz - sizeof_mmnode, ppoolnext := NULL\<rparr>) s2))"

text \<open>The search of \<^verbatim>\<open>mm_bestfit\<close>; the comparison with the request is unsigned.\<close>

partial_function (option) bestfit_loop :: "mmstate \<Rightarrow> addr \<Rightarrow> addr \<Rightarrow> cint \<Rightarrow> addr option" where
  "bestfit_loop s pthis pbest sz =
     (if NULL \<noteq> pthis
      then
        (let n = nodes s pthis
         in if 0 = busy n
            then if NULL = mm_next n
                 then Some (if thissize n \<ge> sz + sizeof_mmnode then pthis else pbest)
                 else if thissize n \<ge> sz + sizeof_mmnode
                      then if NULL = pbest then bestfit_loop s (mm_next n) pthis sz
                           else if thissize (nodes s pbest) > thissize n
                                then bestfit_loop s (mm_next n) pthis sz
                                else bestfit_loop s (mm_next n) pbest sz
                      else bestfit_loop s (mm_next n) pbest sz
            else bestfit_loop s (mm_next n) pbest sz)
      else Some pbest)"

definition bestfit_split :: "addr \<Rightarrow> addr \<Rightarrow> cint \<Rightarrow> mmstate \<Rightarrow> addr \<times> mmstate" where
  "bestfit_split mmp pbest sz s =
     (let pset = pthisaddr (nodes s pbest) + sz;
          s1 = upd_node pbest (\<lambda>n. n\<lparr>busy := 1\<rparr>) s;
          s2 = upd_node pset (\<lambda>n. n\<lparr>mm_pre := pbest, mm_next := mm_next (nodes s1 pbest)\<rparr>) s1;
          s3 = upd_node pbest (\<lambda>n. n\<lparr>mm_next := pset\<rparr>) s2;
          s4 = (if NULL \<noteq> mm_next (nodes s3 pset)
                then upd_node (mm_next (nodes s3 pset)) (\<lambda>n. n\<lparr>mm_pre := pset\<rparr>) s3 else s3);
          s5 = upd_node pset (\<lambda>n. n\<lparr>busy := 0, pthisaddr := pset + sizeof_mmnode,
                  thissize := thissize (nodes s4 pbest) - sz - sizeof_mmnode\<rparr>) s4;
          s6 = upd_node pbest (\<lambda>n. n\<lparr>thissize := sz\<rparr>) s5;
          s7 = upd_pool mmp (\<lambda>p. p\<lparr>valiable := valiable p - (sz + sizeof_mmnode)\<rparr>) s6
      in (pthisaddr (nodes s7 pbest), s7))"

definition mm_bestfit :: "addr \<Rightarrow> cint \<Rightarrow> mmstate \<Rightarrow> (addr \<times> mmstate) option" where
  "mm_bestfit mmp sz s =
     (if NULL = mmp then Some (NULL, s)
      else case bestfit_loop s (phead (pools s mmp)) NULL sz of
             None \<Rightarrow> None
           | Some pbest \<Rightarrow> Some (if NULL = pbest then (NULL, s) else bestfit_split mmp pbest sz s))"

partial_function (option) mm_malloc :: "addr \<Rightarrow> cint \<Rightarrow> mmstate \<Rightarrow> (addr \<times> mmstate) option" where
  "mm_malloc mmp sz s =
     (if NULL = mmp then Some (NULL, s)
      else if valiable (pools s mmp) \<ge> sz + sizeof_mmnode \<and> sint sz > 0 then mm_bestfit mmp sz s
      else mm_malloc (ppoolnext (pools s mmp)) sz s)"

text \<open>\<^verbatim>\<open>mm_free\<close> once the record is found to be one, branch by branch.\<close>

definition add_valiable :: "addr \<Rightarrow> u32 \<Rightarrow> mmstate \<Rightarrow> mmstate" where
  "add_valiable mmp d s = upd_pool mmp (\<lambda>p. p\<lparr>valiable := valiable p + d\<rparr>) s"

definition free_middle :: "addr \<Rightarrow> addr \<Rightarrow> mmstate \<Rightarrow> mmstate" where
  "free_middle mmp r s =
     (let n = nodes s r; pre = mm_pre n; nxt = mm_next n; sz = thissize n
      in if busy (nodes s nxt) \<noteq> 0
         then if busy (nodes s pre) \<noteq> 0
              then add_valiable mmp sz (upd_node r (\<lambda>n. n\<lparr>busy := 0\<rparr>) s)
              else
                let s1 = add_valiable mmp (sz + sizeof_mmnode) s;
                    s2 = upd_node pre (\<lambda>n. n\<lparr>mm_next := nxt\<rparr>) s1;
                    s3 = upd_node nxt (\<lambda>n. n\<lparr>mm_pre := mm_pre (nodes s2 r)\<rparr>) s2
                in upd_node (mm_pre (nodes s3 r)) (\<lambda>n. n\<lparr>busy := 0,
                     thissize := thissize n + (thissize (nodes s3 r) + sizeof_mmnode)\<rparr>) s3
         else if busy (nodes s pre) \<noteq> 0
              then
                let s1 = add_valiable mmp (sz + sizeof_mmnode) s;
                    s2 = upd_node r (\<lambda>n. n\<lparr>thissize := thissize n + (thissize (nodes s1 nxt) + sizeof_mmnode),
                            busy := 0\<rparr>) s1
                in if mm_next (nodes s nxt) \<noteq> NULL
                   then let s3 = upd_node r (\<lambda>n. n\<lparr>mm_next := mm_next (nodes s2 nxt)\<rparr>) s2
                        in upd_node (mm_next (nodes s3 r)) (\<lambda>n. n\<lparr>mm_pre := r\<rparr>) s3
                   else upd_node r (\<lambda>n. n\<lparr>mm_next := NULL\<rparr>) s2
              else
                let s1 = add_valiable mmp (sz + sizeof_mmnode * 2) s;
                    s2 = upd_node pre (\<lambda>n. n\<lparr>thissize := thissize n +
                            (sz + thissize (nodes s1 nxt) + sizeof_mmnode * 2)\<rparr>) s1
                in if mm_next (nodes s nxt) \<noteq> NULL
                   then let s3 = upd_node pre (\<lambda>n. n\<lparr>mm_next := mm_next (nodes s2 nxt)\<rparr>) s2
                        in upd_node (mm_next (nodes s3 r)) (\<lambda>n. n\<lparr>mm_pre := mm_pre (nodes s3 r)\<rparr>) s3
                   else upd_node pre (\<lambda>n. n\<lparr>mm_next := NULL\<rparr>) s2)"

definition free_head :: "addr \<Rightarrow> addr \<Rightarrow> mmstate \<Rightarrow> mmstate" where
  "free_head mmp r s =
     (let n = nodes s r; nxt = mm_next n; sz = thissize n
      in if busy (nodes s nxt) \<noteq> 0
         then upd_node r (\<lambda>n. n\<lparr>busy := 0\<rparr>) (add_valiable mmp sz s)
         else
           let s1 = add_valiable mmp (sz + sizeof_mmnode) s;
               s2 = upd_node r (\<lambda>n. n\<lparr>thissize := thissize n + (thissize (nodes s1 nxt) + sizeof_mmnode)\<rparr>) s1
           in if mm_next (nodes s nxt) \<noteq> NULL
              then let s3 = upd_node r (\<lambda>n. n\<lparr>mm_next := mm_next (nodes s2 nxt)\<rparr>) s2;
                       s4 = upd_node (mm_next (nodes s3 r)) (\<lambda>n. n\<lparr>mm_pre := r\<rparr>) s3
                   in upd_node r (\<lambda>n. n\<lparr>busy := 0\<rparr>) s4
              else upd_node r (\<lambda>n. n\<lparr>mm_next := NULL, busy := 0\<rparr>) s2)"

definition free_tail :: "addr \<Rightarrow> addr \<Rightarrow> mmstate \<Rightarrow> mmstate" where
  "free_tail mmp r s =
     (let n = nodes s r; pre = mm_pre n; sz = thissize n
      in if busy (nodes s pre) \<noteq> 0
         then add_valiable mmp sz (upd_node r (\<lambda>n. n\<lparr>busy := 0\<rparr>) s)
         else
           let s1 = add_valiable mmp (sz + sizeof_mmnode) s;
               s2 = upd_node r (\<lambda>n. n\<lparr>mm_next := NULL\<rparr>) s1
           in upd_node pre (\<lambda>n. n\<lparr>thissize := thissize n + (thissize (nodes s2 r) + sizeof_mmnode)\<rparr>) s2)"

partial_function (option) mm_free :: "addr \<Rightarrow> addr \<Rightarrow> mmstate \<Rightarrow> (cint \<times> mmstate) option" where
  "mm_free mmp pmm s =
     (let r = pmm - sizeof_mmnode; n = nodes s r
      in if NULL = mmp then Some (0, s)
         else if pthisaddr n = pmm
         then Some (1,
                if mm_pre n \<noteq> NULL \<and> mm_next n \<noteq> NULL then free_middle mmp r s
                else if mm_next n \<noteq> NULL \<and> mm_pre n = NULL then free_head mmp r s
                else if mm_next n = NULL \<and> mm_pre n \<noteq> NULL then free_tail mmp r s
                else upd_node r (\<lambda>n. n\<lparr>busy := 0\<rparr>) s)
         else if ppoolnext (pools s mmp) \<noteq> NULL then mm_free (ppoolnext (pools s mmp)) pmm s
         else Some (0, s))"

partial_function (option) last_pool :: "mmstate \<Rightarrow> addr \<Rightarrow> addr option" where
  "last_pool s des =
     (if ppoolnext (pools s des) \<noteq> NULL then last_pool s (ppoolnext (pools s des)) else Some des)"

definition mm_appendpool :: "addr \<Rightarrow> addr \<Rightarrow> mmstate \<Rightarrow> (cint \<times> mmstate) option" where
  "mm_appendpool des src s =
     (if des = NULL \<and> src = NULL then Some (0, s)
      else map_option (\<lambda>d. (1, upd_pool d (\<lambda>p. p\<lparr>ppoolnext := src\<rparr>) s)) (last_pool s des))"

section \<open>Well-formed pools\<close>

text \<open>
  The abstract state of a pool is its list of blocks, each a size and a busy flag; \<^verbatim>\<open>e\<close> is the end of
  the pool. Addresses are naturals below \<^verbatim>\<open>e\<close>; the link after the last block is null.
\<close>

type_synonym blk = "nat \<times> bool"

definition link :: "nat \<Rightarrow> nat \<Rightarrow> addr" where
  "link e n = (if n = e then NULL else of_nat n)"

definition node_at :: "nat \<Rightarrow> nat \<Rightarrow> addr \<Rightarrow> nat \<Rightarrow> bool \<Rightarrow> mmnode" where
  "node_at e n p sz b = \<lparr>pthisaddr = of_nat (n + 20), thissize = of_nat sz, busy = (if b then 1 else 0),
     mm_pre = p, mm_next = link e (n + 20 + sz)\<rparr>"

fun seg :: "(addr \<Rightarrow> mmnode) \<Rightarrow> nat \<Rightarrow> addr \<Rightarrow> nat \<Rightarrow> blk list \<Rightarrow> bool" where
  "seg N e p n [] \<longleftrightarrow> True"
| "seg N e p n ((sz, b) # bs) \<longleftrightarrow> 0 < n \<and> n + 20 + sz \<le> e \<and> N (of_nat n) = node_at e n p sz b \<and>
     seg N e (of_nat n) (n + 20 + sz) bs"

fun endp :: "nat \<Rightarrow> blk list \<Rightarrow> nat" where
  "endp n [] = n"
| "endp n ((sz, b) # bs) = endp (n + 20 + sz) bs"

fun lastp :: "addr \<Rightarrow> nat \<Rightarrow> blk list \<Rightarrow> addr" where
  "lastp p n [] = p"
| "lastp p n ((sz, b) # bs) = lastp (of_nat n) (n + 20 + sz) bs"

fun idle_sum :: "blk list \<Rightarrow> nat" where
  "idle_sum [] = 0"
| "idle_sum ((sz, b) # bs) = (if b then 0 else sz) + idle_sum bs"

lemma endp_append [simp]: "endp n (xs @ ys) = endp (endp n xs) ys"
  by (induction n xs rule: endp.induct) auto

lemma idle_sum_append [simp]: "idle_sum (xs @ ys) = idle_sum xs + idle_sum ys"
  by (induction xs rule: idle_sum.induct) auto

lemma lastp_append [simp]: "lastp p n (xs @ ys) = lastp (lastp p n xs) (endp n xs) ys"
  by (induction p n xs rule: lastp.induct) auto

lemma seg_append [simp]:
  "seg N e p n (xs @ ys) \<longleftrightarrow> seg N e p n xs \<and> seg N e (lastp p n xs) (endp n xs) ys"
  by (induction N e p n xs rule: seg.induct) auto

lemma endp_ge: "n \<le> endp n bs"
  by (induction n bs rule: endp.induct) auto

lemma endp_eq_iff: "endp n bs = n \<longleftrightarrow> bs = []"
proof (cases bs)
  case (Cons x xs)
  then show ?thesis using endp_ge [of "n + 20 + fst x" xs] by (cases x) simp
qed simp

lemma endp_idle: "n + idle_sum bs \<le> endp n bs"
  by (induction n bs rule: endp.induct) auto

lemma seg_frame:
  assumes "unat x < n \<or> endp n bs \<le> unat x" and "endp n bs \<le> e" and "e < 4294967296"
  shows "seg (N(x := v)) e p n bs = seg N e p n bs"
  using assms
proof (induction N e p n bs rule: seg.induct)
  case (2 N e p n sz b bs)
  have "endp (n + 20 + sz) bs \<le> e" using 2 by simp
  moreover have "n + 20 + sz \<le> endp (n + 20 + sz) bs" by (rule endp_ge)
  ultimately have "unat (of_nat n :: addr) = n" using 2 by (intro unat_of_nat32) simp
  then have "x \<noteq> of_nat n" using 2 endp_ge [of "n + 20 + sz" bs] by auto
  moreover have "unat x < n + 20 + sz \<or> endp (n + 20 + sz) bs \<le> unat x" using 2 by auto
  ultimately show ?case using 2 by simp
qed simp

definition pool_ok :: "mmstate \<Rightarrow> addr \<Rightarrow> nat \<Rightarrow> nat \<Rightarrow> blk list \<Rightarrow> bool" where
  "pool_ok s mmp base e bs \<longleftrightarrow> mmp \<noteq> NULL \<and> e < 4294967296 \<and> phead (pools s mmp) = of_nat base \<and>
     bs \<noteq> [] \<and> \<not> snd (last bs) \<and> endp base bs = e \<and> seg (nodes s) e NULL base bs \<and>
     unat (valiable (pools s mmp)) = idle_sum bs"

lemma bestfit_loop_finds:
  assumes "e < 4294967296" and "seg (nodes s) e p n bs" and "endp n bs = e" and "0 < n"
  shows "\<exists>r. bestfit_loop s (link e n) pbest sz = Some r \<and>
    (r = pbest \<or> r \<noteq> NULL \<and>
       (\<exists>xs b ys. bs = xs @ (b, False) # ys \<and> r = of_nat (endp n xs) \<and> sz + 20 \<le> of_nat b)) \<and>
    (r = NULL \<longrightarrow> (\<forall>b. (b, False) \<in> set bs \<longrightarrow> \<not> sz + 20 \<le> of_nat b))"
  using assms(2-4)
proof (induction bs arbitrary: p n pbest)
  case Nil
  then show ?case by (subst bestfit_loop.simps) (simp add: link_def)
next
  case (Cons x bs)
  obtain b u where x: "x = (b, u)" by fastforce
  let ?n = "n + 20 + b"
  have node: "nodes s (of_nat n) = node_at e n p b u" and rest: "seg (nodes s) e (of_nat n) ?n bs"
    and e: "endp ?n bs = e" using Cons.prems x by simp_all
  have ne: "?n \<le> e" using e endp_ge by metis
  have l: "link e n = of_nat n" "(of_nat n :: addr) \<noteq> 0"
    using ne Cons.prems(3) assms(1) unat_of_nat32 [of n] by (auto simp: link_def word_unat_eq_iff)
  have ln: "link e ?n = NULL \<longleftrightarrow> ?n = e"
    using ne assms(1) unat_of_nat32 [of ?n] by (auto simp: link_def word_unat_eq_iff)
  have fin: "?n = e \<longleftrightarrow> bs = []"
    using e endp_eq_iff [of ?n bs] by auto
  let ?L = "\<lambda>q. bestfit_loop s (link e ?n) q sz"
  have step: "bestfit_loop s (link e n) pbest sz =
      (if u then ?L pbest
       else if bs = [] then Some (if sz + 20 \<le> of_nat b then of_nat n else pbest)
       else if sz + 20 \<le> of_nat b \<and> (pbest = NULL \<or> thissize (nodes s pbest) > of_nat b)
       then ?L (of_nat n) else ?L pbest)"
    using ln fin by (subst bestfit_loop.simps) (auto simp: l node node_at_def Let_def)
  define ok where "ok q r \<longleftrightarrow> (r = q \<or> r \<noteq> NULL \<and>
       (\<exists>xs b ys. bs = xs @ (b, False) # ys \<and> r = of_nat (endp ?n xs) \<and> sz + 20 \<le> of_nat b)) \<and>
    (r = NULL \<longrightarrow> (\<forall>b. (b, False) \<in> set bs \<longrightarrow> \<not> sz + 20 \<le> of_nat b))" for q r
  have IH: "\<exists>r. ?L q = Some r \<and> ok q r" for q
    unfolding ok_def using Cons.IH [OF rest e] by simp
  have lift: "\<exists>xs b' ys. x # bs = xs @ (b', False) # ys \<and> r = of_nat (endp n xs) \<and> sz + 20 \<le> of_nat b'"
    if "bs = zs @ (c, False) # ys" "r = of_nat (endp ?n zs)" "sz + 20 \<le> of_nat c" for zs c ys r
    by (rule exI [of _ "x # zs"]) (use that x in auto)
  show ?case
  proof (cases "\<not> u \<and> sz + 20 \<le> of_nat b")
    case True
    have here: "\<exists>xs b' ys. x # bs = xs @ (b', False) # ys \<and> of_nat n = (of_nat (endp n xs) :: addr) \<and> sz + 20 \<le> of_nat b'"
      by (rule exI [of _ "[]"]) (use x True in auto)
    show ?thesis
    proof (cases "bs = [] \<or> pbest = NULL \<or> thissize (nodes s pbest) > of_nat b")
      case True
      then have "bestfit_loop s (link e n) pbest sz = (if bs = [] then Some (of_nat n) else ?L (of_nat n))"
        unfolding step using \<open>\<not> u \<and> _\<close> by auto
      then obtain r where r: "bestfit_loop s (link e n) pbest sz = Some r" "bs = [] \<and> r = of_nat n \<or> ok (of_nat n) r"
        using IH [of "of_nat n"] by (cases "bs = []") auto
      have "r \<noteq> NULL" using r(2) l(2) by (auto simp: ok_def)
      moreover have "\<exists>xs b' ys. x # bs = xs @ (b', False) # ys \<and> r = of_nat (endp n xs) \<and> sz + 20 \<le> of_nat b'"
        using r(2) here lift unfolding ok_def by blast
      ultimately show ?thesis using r(1) by blast
    next
      case False
      then have "bestfit_loop s (link e n) pbest sz = ?L pbest" unfolding step using True by auto
      then obtain r where r: "bestfit_loop s (link e n) pbest sz = Some r" "ok pbest r"
        using IH [of pbest] by auto
      from r(2) False have "r \<noteq> NULL" by (auto simp: ok_def)
      moreover have "r = pbest \<or> (\<exists>xs b' ys. x # bs = xs @ (b', False) # ys \<and> r = of_nat (endp n xs) \<and> sz + 20 \<le> of_nat b')"
        using r(2) lift unfolding ok_def by blast
      ultimately show ?thesis using r(1) by blast
    qed
  next
    case False
    then have "bestfit_loop s (link e n) pbest sz = (if bs = [] \<and> \<not> u then Some pbest else ?L pbest)"
      unfolding step by auto
    then obtain r where r: "bestfit_loop s (link e n) pbest sz = Some r" "bs = [] \<and> r = pbest \<or> ok pbest r"
      using IH [of pbest] by (cases "bs = [] \<and> \<not> u") auto
    have "r = pbest \<or> r \<noteq> NULL \<and>
        (\<exists>xs b' ys. x # bs = xs @ (b', False) # ys \<and> r = of_nat (endp n xs) \<and> sz + 20 \<le> of_nat b')"
      using r(2) lift unfolding ok_def by blast
    moreover have "\<forall>b'. (b', False) \<in> set (x # bs) \<longrightarrow> \<not> sz + 20 \<le> of_nat b'" if "r = NULL"
      using that r(2) False x by (auto simp: ok_def)
    ultimately show ?thesis using r(1) by blast
  qed
qed


definition relink :: "(addr \<Rightarrow> mmnode) \<Rightarrow> nat \<Rightarrow> nat \<Rightarrow> addr \<Rightarrow> addr \<Rightarrow> mmnode" where
  "relink N e n q = (if link e n \<noteq> NULL then N(link e n := (N (link e n))\<lparr>mm_pre := q\<rparr>) else N)"

lemma link_nat: "n \<le> e \<Longrightarrow> e < 4294967296 \<Longrightarrow> 0 < n \<Longrightarrow> n \<noteq> e \<Longrightarrow>
    link e n = of_nat n \<and> unat (of_nat n :: addr) = n \<and> (of_nat n :: addr) \<noteq> 0"
  using unat_of_nat32 [of n] by (auto simp: link_def word_unat_eq_iff)

lemma seg_relink:
  assumes "seg N e p n ys" and "endp n ys = e" and "0 < n" and "e < 4294967296"
  shows "seg (relink N e n q) e q n ys"
proof (cases ys)
  case (Cons y zs)
  obtain sz b where y: "y = (sz, b)" by fastforce
  have "n + 20 + sz \<le> e" using assms(1) Cons y by simp
  then have l: "link e n = of_nat n" "unat (of_nat n :: addr) = n" "(of_nat n :: addr) \<noteq> 0"
    using link_nat [of n e] assms(3,4) by simp_all
  have "seg (relink N e n q) e (of_nat n) (n + 20 + sz) zs"
    using assms Cons y l by (simp add: relink_def seg_frame)
  with assms Cons y l show ?thesis by (simp add: relink_def node_at_def)
qed simp

lemma seg_relink_frame:
  assumes "endp m xs \<le> n" and "n \<le> e" and "e < 4294967296" and "0 < n"
  shows "seg (relink N e n q) e p m xs = seg N e p m xs"
  using link_nat [of n e] assms by (auto simp: relink_def link_def seg_frame)

text \<open>Splitting an idle block of size \<^verbatim>\<open>b\<close> at address \<^verbatim>\<open>k\<close>.\<close>

lemma bestfit_split_nodes:
  fixes sz :: cint
  assumes node: "nodes s (of_nat k) = node_at e k p b False"
    and "0 < k" and "k + 20 + b \<le> e" and "e < 4294967296" and "unat sz + 20 \<le> b"
  defines "j \<equiv> k + 20 + unat sz"
  shows "bestfit_split mmp (of_nat k) sz s =
    (of_nat (k + 20),
     s\<lparr>nodes := relink ((nodes s)(of_nat k := node_at e k p (unat sz) True,
                 of_nat j := node_at e j (of_nat k) (b - unat sz - 20) False)) e (k + 20 + b) (of_nat j),
       pools := (pools s)(mmp := (pools s mmp)\<lparr>valiable := valiable (pools s mmp) - (sz + 20)\<rparr>)\<rparr>)"
proof -
  have uk: "unat (of_nat k :: addr) = k" and uj: "unat (of_nat j :: addr) = j"
    using assms(3-5) unfolding j_def by (intro unat_of_nat32, simp)+
  have "k \<noteq> j" by (simp add: j_def)
  with uk uj have kj: "(of_nat k :: addr) \<noteq> of_nat j" by metis
  have pset: "pthisaddr (nodes s (of_nat k)) + sz = of_nat j" by (simp add: node node_at_def j_def)
  have nx: "link e (k + 20 + b) \<noteq> of_nat k \<and> link e (k + 20 + b) \<noteq> of_nat j" if "link e (k + 20 + b) \<noteq> NULL"
  proof -
    have "k + 20 + b \<noteq> e" using that by (auto simp: link_def)
    then have "unat (link e (k + 20 + b)) = k + 20 + b" using link_nat [of "k + 20 + b" e] assms(3,4) by simp
    moreover have "k < k + 20 + b" "j < k + 20 + b" using assms(5) by (simp_all add: j_def)
    ultimately show ?thesis using uk uj by (metis less_irrefl)
  qed
  have lj: "link e (j + 20 + (b - unat sz - 20)) = link e (k + 20 + b)" "link e j = of_nat j"
    using assms(3-5) by (auto simp: j_def link_def)
  have sizes: "(of_nat b :: u32) - sz - 20 = of_nat (b - unat sz - 20)" "of_nat (unat sz) = sz"
    using assms(5) by (simp_all add: of_nat_diff)
  define L where "L = link e (k + 20 + b)"
  define J :: addr where "J = of_nat j"
  define K :: addr where "K = of_nat k"
  have nodeK: "nodes s K = \<lparr>pthisaddr = of_nat (k + 20), thissize = of_nat b, busy = 0, mm_pre = p, mm_next = L\<rparr>"
    using node by (simp add: K_def L_def node_at_def)
  have newK: "node_at e k p (unat sz) True =
      \<lparr>pthisaddr = of_nat (k + 20), thissize = sz, busy = 1, mm_pre = p, mm_next = J\<rparr>"
    unfolding node_at_def j_def [symmetric] using sizes lj by (simp add: J_def)
  have newJ: "node_at e j K (b - unat sz - 20) False =
      \<lparr>pthisaddr = J + 20, thissize = of_nat b - sz - 20, busy = 0, mm_pre = K, mm_next = L\<rparr>"
    unfolding node_at_def lj(1) sizes(1) by (simp add: J_def L_def)
  have upd: "r\<lparr>mm_pre := K, mm_next := l, busy := 0, pthisaddr := J + 20, thissize := t\<rparr> =
      \<lparr>pthisaddr = J + 20, thissize = t, busy = 0, mm_pre = K, mm_next = l\<rparr>" for r :: mmnode and l t
    by (cases r) simp
  have kj': "K \<noteq> J" "J \<noteq> K" and nx': "L \<noteq> NULL \<Longrightarrow> L \<noteq> K \<and> K \<noteq> L \<and> L \<noteq> J \<and> J \<noteq> L"
    using kj nx by (auto simp: K_def J_def L_def)
  have "bestfit_split mmp K sz s =
    (of_nat (k + 20),
     s\<lparr>nodes := (if L \<noteq> NULL then ((nodes s)(K := node_at e k p (unat sz) True,
                   J := node_at e j K (b - unat sz - 20) False))(L := (nodes s L)\<lparr>mm_pre := J\<rparr>)
                 else (nodes s)(K := node_at e k p (unat sz) True, J := node_at e j K (b - unat sz - 20) False)),
       pools := (pools s)(mmp := (pools s mmp)\<lparr>valiable := valiable (pools s mmp) - (sz + 20)\<rparr>)\<rparr>)"
    unfolding bestfit_split_def Let_def upd_node_def upd_pool_def sizeof_mmnode_def
      pset [folded K_def J_def] newK newJ
    using kj' nx'
    by (cases "L = NULL") (simp_all add: nodeK upd fun_upd_twist [of J K] fun_upd_twist [of J L]
        fun_upd_twist [of L K] del: of_nat_add)
  then show ?thesis
    unfolding relink_def L_def [symmetric] K_def J_def using nx' unfolding K_def J_def by auto
qed

lemma idle_sum_less: "(b, False) \<in> set bs \<Longrightarrow> b \<le> idle_sum bs"
  by (induction bs rule: idle_sum.induct) auto

lemma seg_bound: "seg N e p n bs \<Longrightarrow> bs \<noteq> [] \<Longrightarrow> endp n bs \<le> e"
proof (induction N e p n bs rule: seg.induct)
  case (2 N e p n sz b bs)
  then show ?case by (cases bs) auto
qed simp

lemma last_replace: "\<not> snd (last (xs @ (b, False) # ys)) \<Longrightarrow>
    \<not> snd (last (xs @ (c, True) # (d, False) # ys))"
  by (cases ys) auto

lemma pool_split:
  fixes sz :: cint
  assumes ok: "pool_ok s mmp base e (xs @ (b, False) # ys)" and sz: "unat sz + 20 \<le> b"
  shows "\<exists>s'. bestfit_split mmp (of_nat (endp base xs)) sz s = (of_nat (endp base xs + 20), s') \<and>
    pool_ok s' mmp base e (xs @ (unat sz, True) # (b - unat sz - 20, False) # ys) \<and>
    (\<forall>q. q \<noteq> mmp \<longrightarrow> pools s' q = pools s q)"
proof -
  define k where "k = endp base xs"
  define j where "j = k + 20 + unat sz"
  let ?p = "lastp NULL base xs"
  have e: "e < 4294967296" and sx: "seg (nodes s) e NULL base xs" and ey: "endp (k + 20 + b) ys = e"
    and node: "nodes s (of_nat k) = node_at e k ?p b False" and k0: "0 < k" and kb: "k + 20 + b \<le> e"
    and sy: "seg (nodes s) e (of_nat k) (k + 20 + b) ys"
    using ok by (simp_all add: pool_ok_def k_def)
  let ?N = "(nodes s)(of_nat k := node_at e k ?p (unat sz) True,
                 of_nat j := node_at e j (of_nat k) (b - unat sz - 20) False)"
  define s' where "s' = s\<lparr>nodes := relink ?N e (k + 20 + b) (of_nat j),
       pools := (pools s)(mmp := (pools s mmp)\<lparr>valiable := valiable (pools s mmp) - (sz + 20)\<rparr>)\<rparr>"
  have split: "bestfit_split mmp (of_nat k) sz s = (of_nat (k + 20), s')"
    unfolding s'_def j_def by (rule bestfit_split_nodes [OF node k0 kb e sz])
  have uk: "unat (of_nat k :: addr) = k" and uj: "unat (of_nat j :: addr) = j"
    using e kb sz unfolding j_def by (intro unat_of_nat32, simp)+
  have jb: "j + 20 + (b - unat sz - 20) = k + 20 + b" "k < j" "j < k + 20 + b" using sz by (simp_all add: j_def)
  have kj: "(of_nat k :: addr) \<noteq> of_nat j" using uk uj jb(2) by (metis less_irrefl)
  have "seg ?N e NULL base xs"
    using sx e kb uk uj jb by (simp add: seg_frame k_def [symmetric])
  then have 1: "seg (nodes s') e NULL base xs"
    using e kb k0 by (simp add: s'_def seg_relink_frame k_def)
  have "seg ?N e (of_nat k) (k + 20 + b) ys"
    using sy e ey uk uj jb by (simp add: seg_frame)
  then have 2: "seg (nodes s') e (of_nat j) (k + 20 + b) ys"
    using seg_relink [OF _ ey _ e] by (simp add: s'_def)
  have "seg ?N e ?p k [(unat sz, True), (b - unat sz - 20, False)]"
    using k0 kb jb kj by (simp add: j_def [symmetric])
  then have 3: "seg (nodes s') e ?p k [(unat sz, True), (b - unat sz - 20, False)]"
    unfolding s'_def using seg_relink_frame [of k "[(unat sz, True), (b - unat sz - 20, False)]" "k + 20 + b" e]
      e kb jb by (simp add: j_def)
  have sall: "seg (nodes s') e NULL base (xs @ (unat sz, True) # (b - unat sz - 20, False) # ys)"
    using 1 2 3 unfolding jb(1) [symmetric] by (simp add: k_def [symmetric] j_def [symmetric])
  have vall: "unat (valiable (pools s' mmp)) = idle_sum (xs @ (unat sz, True) # (b - unat sz - 20, False) # ys)"
  proof -
    have v: "unat (valiable (pools s mmp)) = idle_sum xs + b + idle_sum ys" using ok by (simp add: pool_ok_def)
    have "unat (sz + 20) = unat sz + 20" using sz kb e by (simp add: unat_word_ariths)
    then show ?thesis using v sz unat_sub [of "sz + 20" "valiable (pools s mmp)"]
      by (simp add: s'_def word_le_nat_alt)
  qed
  have okk: "pool_ok s' mmp base e (xs @ (unat sz, True) # (b - unat sz - 20, False) # ys)"
  proof -
    have "endp base (xs @ (unat sz, True) # (b - unat sz - 20, False) # ys) = e"
      using ey unfolding jb(1) [symmetric] by (simp add: k_def [symmetric] j_def [symmetric])
    moreover have "\<not> snd (last (xs @ (unat sz, True) # (b - unat sz - 20, False) # ys))"
      using ok by (intro last_replace [of xs b]) (simp add: pool_ok_def)
    moreover have "phead (pools s' mmp) = of_nat base" "mmp \<noteq> NULL"
      using ok by (simp_all add: pool_ok_def s'_def)
    ultimately show ?thesis using sall vall e unfolding pool_ok_def by blast
  qed
  have "pools s' q = pools s q" if "q \<noteq> mmp" for q using that by (simp add: s'_def)
  with okk show ?thesis using split unfolding k_def by blast
qed

text \<open>C5: mm_malloc on a well-formed pool returns NULL only when no idle block is large enough, and
  otherwise splits an idle block that is, keeping the pool well formed.\<close>

theorem mm_malloc_splits:
  assumes "pool_ok s mmp base e bs" and "0 < sint sz" and "unat sz + 20 \<le> idle_sum bs"
  shows "\<exists>r s'. mm_malloc mmp sz s = Some (r, s') \<and>
    (r = NULL \<and> s' = s \<and> (\<forall>b. (b, False) \<in> set bs \<longrightarrow> b < unat sz + 20) \<or>
     (\<exists>xs b ys. bs = xs @ (b, False) # ys \<and> unat sz + 20 \<le> b \<and> r = of_nat (endp base xs + 20) \<and> r \<noteq> NULL \<and>
        pool_ok s' mmp base e (xs @ (unat sz, True) # (b - unat sz - 20, False) # ys)))"
proof -
  have e: "e < 4294967296" and mmp: "mmp \<noteq> 0" and v: "unat (valiable (pools s mmp)) = idle_sum bs"
    and seg: "seg (nodes s) e NULL base bs" and ee: "endp base bs = e" and ne: "bs \<noteq> []"
    using assms(1) by (auto simp: pool_ok_def)
  have b0: "0 < base" using seg ne by (cases bs) auto
  have hd: "phead (pools s mmp) = link e base"
    using assms(1) ee ne endp_eq_iff [of base bs] by (auto simp: pool_ok_def link_def)
  have le: "idle_sum bs < 4294967296" using endp_idle [of base bs] ee e by simp
  have u: "unat (sz + 20) = unat sz + 20" using assms(3) le by (simp add: unat_word_ariths)
  have m: "mm_malloc mmp sz s = mm_bestfit mmp sz s"
    using assms(2,3) mmp u v by (subst mm_malloc.simps) (simp add: word_le_nat_alt)
  have fits: "sz + 20 \<le> of_nat b \<longleftrightarrow> unat sz + 20 \<le> b" if "(b, False) \<in> set bs" for b
    using idle_sum_less [OF that] le u by (simp add: word_le_nat_alt unat_of_nat32)
  obtain r where r: "bestfit_loop s (link e base) NULL sz = Some r"
    and f: "r = NULL \<or> r \<noteq> NULL \<and> (\<exists>xs b ys. bs = xs @ (b, False) # ys \<and> r = of_nat (endp base xs) \<and> sz + 20 \<le> of_nat b)"
    and n: "r = NULL \<longrightarrow> (\<forall>b. (b, False) \<in> set bs \<longrightarrow> \<not> sz + 20 \<le> of_nat b)"
    using bestfit_loop_finds [OF e seg ee b0, of NULL sz] by blast
  show ?thesis
  proof (cases "r = NULL")
    case True
    then show ?thesis using m r n fits mmp by (auto simp: mm_bestfit_def hd)
  next
    case False
    with f obtain xs b ys where x: "bs = xs @ (b, False) # ys" "r = of_nat (endp base xs)" "sz + 20 \<le> of_nat b"
      by blast
    then have sz: "unat sz + 20 \<le> b" using fits by simp
    from pool_split [of s mmp base e xs b ys sz] assms(1) x(1) sz
    obtain s' where s': "bestfit_split mmp r sz s = (of_nat (endp base xs + 20), s')"
      "pool_ok s' mmp base e (xs @ (unat sz, True) # (b - unat sz - 20, False) # ys)" by (auto simp: x(2))
    have "endp base xs + 20 + b \<le> e" using seg x(1) by simp
    then have "unat (of_nat (endp base xs + 20) :: addr) = endp base xs + 20" using e by (intro unat_of_nat32) simp
    then have "(of_nat (endp base xs + 20) :: addr) \<noteq> NULL" by (auto simp: word_unat_eq_iff)
    with s' x(1) sz m r False mmp show ?thesis by (auto simp: mm_bestfit_def hd)
  qed
qed

section \<open>Freeing\<close>

text \<open>Replacing the blocks \<^verbatim>\<open>mid\<close> by one block of the same extent.\<close>

lemma seg_merge:
  assumes s: "seg N e p n (xs @ mid @ ys)" and ends: "endp n (xs @ mid @ ys) = e" and e: "e < 4294967296"
    and t: "t = endp n xs" and mid: "mid \<noteq> []" and tot: "t + 20 + tot = endp t mid"
    and q: "q = lastp p n xs"
  shows "seg (relink (N(of_nat t := node_at e t q tot b)) e (endp t mid) (of_nat t)) e p n (xs @ (tot, b) # ys)"
proof -
  let ?M = "N(of_nat t := node_at e t q tot b)"
  let ?N = "relink ?M e (endp t mid) (of_nat t)"
  have sx: "seg N e p n xs" and sm: "seg N e q t mid" and sy: "seg N e (lastp q t mid) (endp t mid) ys"
    using s t q by simp_all
  have ey: "endp (endp t mid) ys = e" using ends t by simp
  have t0: "0 < t" using sm mid by (cases mid) auto
  have me: "endp t mid \<le> e" using ey endp_ge by metis
  have ut: "unat (of_nat t :: addr) = t" using me tot e by (intro unat_of_nat32) simp
  have "seg ?M e p n xs" using sx e me tot ut t by (simp add: seg_frame)
  then have 1: "seg ?N e p n xs" using e me tot t by (simp add: seg_relink_frame)
  have "seg ?M e (lastp q t mid) (endp t mid) ys" using sy e ey tot ut by (simp add: seg_frame)
  then have 2: "seg ?N e (of_nat t) (endp t mid) ys" using seg_relink [OF _ ey _ e] tot by simp
  have "seg ?M e q t [(tot, b)]" using t0 me tot by simp
  then have "seg ?N e q t [(tot, b)]"
    using seg_relink_frame [of t "[(tot, b)]" "endp t mid" e] e me tot by simp
  then show ?thesis using 1 2 t q tot by simp
qed

lemma relink_id: "mm_pre (N (link e n)) = q \<Longrightarrow> relink N e n q = N"
  unfolding relink_def by (cases "N (link e n)") auto

lemma seg_first_pre: "seg N e p n ys \<Longrightarrow> endp n ys = e \<Longrightarrow> link e n \<noteq> NULL \<Longrightarrow> mm_pre (N (link e n)) = p"
proof (cases ys)
  case (Cons y zs)
  moreover assume "seg N e p n ys" "link e n \<noteq> NULL"
  ultimately show ?thesis by (cases y) (auto simp: link_def node_at_def)
qed (auto simp: link_def)

fun absorb_next :: "nat \<Rightarrow> blk list \<Rightarrow> nat \<times> blk list" where
  "absorb_next a ((c, False) # zs) = (a + 20 + c, zs)"
| "absorb_next a ys = (a, ys)"

definition absorb_pre :: "blk list \<Rightarrow> nat \<Rightarrow> blk list \<times> nat" where
  "absorb_pre xs a = (if xs \<noteq> [] \<and> \<not> snd (last xs) then (butlast xs, fst (last xs) + 20 + a) else (xs, a))"

definition release_blk :: "blk list \<Rightarrow> nat \<Rightarrow> blk list \<Rightarrow> blk list" where
  "release_blk xs a ys =
     (let (a', ys') = absorb_next a ys; (xs', a'') = absorb_pre xs a' in xs' @ (a'', False) # ys')"

text \<open>The case in which the links go wrong: idle neighbours on both sides and a block after them.\<close>

definition bad_case :: "blk list \<Rightarrow> blk list \<Rightarrow> bool" where
  "bad_case xs ys \<longleftrightarrow> xs \<noteq> [] \<and> \<not> snd (last xs) \<and> 1 < length ys \<and> \<not> snd (hd ys)"

lemma pool_merge:
  assumes ok: "pool_ok s mmp base e (xs @ mid @ ys)" and mid: "mid \<noteq> []"
    and t: "t = endp base xs" and tot: "t + 20 + tot = endp t mid"
    and nodes: "nodes s' = relink ((nodes s)(of_nat t := node_at e t (lastp NULL base xs) tot False)) e
      (endp t mid) (of_nat t)"
    and pools: "pools s' = (pools s)(mmp := (pools s mmp)\<lparr>valiable := valiable (pools s mmp) + of_nat d\<rparr>)"
    and d: "idle_sum mid + d = tot"
  shows "pool_ok s' mmp base e (xs @ (tot, False) # ys)"
proof -
  have e: "e < 4294967296" and ends: "endp base (xs @ mid @ ys) = e" and sg: "seg (nodes s) e NULL base (xs @ mid @ ys)"
    and v: "unat (valiable (pools s mmp)) = idle_sum (xs @ mid @ ys)"
    using ok by (simp_all add: pool_ok_def)
  have sg': "seg (nodes s') e NULL base (xs @ (tot, False) # ys)"
    unfolding nodes by (rule seg_merge [OF sg ends e t mid tot refl])
  have ends': "endp base (xs @ (tot, False) # ys) = e" using ends t tot by simp
  have "base + idle_sum (xs @ (tot, False) # ys) \<le> e" using endp_idle ends' by metis
  then have "unat (valiable (pools s mmp) + of_nat d) = idle_sum (xs @ (tot, False) # ys)"
    using e v d by (simp add: unat_word_ariths unat_of_nat32)
  moreover have "\<not> snd (last (xs @ (tot, False) # ys))" using ok mid by (auto simp: pool_ok_def split: if_splits)
  ultimately show ?thesis using ok sg' ends' e pools by (simp add: pool_ok_def)
qed

lemma nodes_add_valiable [simp]: "nodes (add_valiable mmp d s) = nodes s"
  by (simp add: add_valiable_def upd_pool_def)

lemma pools_add_valiable [simp]:
  "pools (add_valiable mmp d s) = (pools s)(mmp := (pools s mmp)\<lparr>valiable := valiable (pools s mmp) + d\<rparr>)"
  by (simp add: add_valiable_def upd_pool_def)

lemma upd_node_sel [simp]: "nodes (upd_node p f s) = (nodes s)(p := f (nodes s p))" "pools (upd_node p f s) = pools s"
  by (simp_all add: upd_node_def)

lemma node_at_sel [simp]:
  "pthisaddr (node_at e n p sz b) = of_nat (n + 20)" "thissize (node_at e n p sz b) = of_nat sz"
  "busy (node_at e n p sz b) = (if b then 1 else 0)" "mm_pre (node_at e n p sz b) = p"
  "mm_next (node_at e n p sz b) = link e (n + 20 + sz)"
  by (simp_all add: node_at_def)

lemma node_eqI:
  "pthisaddr a = pthisaddr b \<Longrightarrow> thissize a = thissize b \<Longrightarrow> busy a = busy b \<Longrightarrow> mm_pre a = mm_pre b \<Longrightarrow>
    mm_next a = mm_next b \<Longrightarrow> a = (b :: mmnode)"
  by simp

text \<open>What a block in the middle of a pool knows of itself and its right neighbour.\<close>

lemma block_facts:
  assumes ok: "pool_ok s mmp base e (xs @ (a, u) # (c, v) # zs)"
  defines "k \<equiv> endp base xs" and "x \<equiv> endp base xs + 20 + a"
  shows "nodes s (of_nat k) = node_at e k (lastp NULL base xs) a u"
    and "nodes s (of_nat x) = node_at e x (of_nat k) c v"
    and "link e x = of_nat x" and "(of_nat x :: addr) \<noteq> 0" and "(of_nat k :: addr) \<noteq> 0"
    and "(of_nat k :: addr) \<noteq> of_nat x" and "x + 20 + c \<le> e" and "e < 4294967296" and "0 < k"
    and "link e (x + 20 + c) = NULL \<longleftrightarrow> zs = []"
    and "link e (x + 20 + c) \<noteq> of_nat k" and "link e (x + 20 + c) \<noteq> of_nat x"
proof -
  have sg: "seg (nodes s) e (lastp NULL base xs) k ((a, u) # (c, v) # zs)" and e: "e < 4294967296"
    and ends: "endp (x + 20 + c) zs = e"
    using ok by (simp_all add: pool_ok_def k_def x_def)
  then show "nodes s (of_nat k) = node_at e k (lastp NULL base xs) a u"
    and "nodes s (of_nat x) = node_at e x (of_nat k) c v" and xe: "x + 20 + c \<le> e" and k0: "0 < k"
    by (simp_all add: x_def k_def)
  show "e < 4294967296" by (fact e)
  have kx: "k + 20 + a = x" by (simp add: k_def x_def)
  have uk: "unat (of_nat k :: addr) = k" and ux: "unat (of_nat x :: addr) = x"
    using xe e kx by (intro unat_of_nat32, simp)+
  show "link e x = of_nat x" using xe by (simp add: link_def)
  show x0: "(of_nat x :: addr) \<noteq> 0" and "(of_nat k :: addr) \<noteq> 0" using uk ux k0 kx by (auto simp: word_unat_eq_iff)
  show "(of_nat k :: addr) \<noteq> of_nat x"
  proof
    assume "(of_nat k :: addr) = of_nat x"
    with uk ux have "k = x" by metis
    with kx show False by simp
  qed
  have fin: "x + 20 + c = e \<longleftrightarrow> zs = []" using ends endp_eq_iff [of "x + 20 + c" zs] by auto
  have y: "unat (of_nat (x + 20 + c) :: addr) = x + 20 + c" using xe e by (intro unat_of_nat32) simp
  show "link e (x + 20 + c) = NULL \<longleftrightarrow> zs = []"
    using fin y by (auto simp: link_def word_unat_eq_iff)
  have "link e (x + 20 + c) = of_nat n \<Longrightarrow> unat (of_nat n :: addr) = n \<Longrightarrow> n = x + 20 + c \<or> n = 0" for n
    using y by (auto simp: link_def split: if_splits)
  from this [of k] this [of x] uk ux kx k0
  show "link e (x + 20 + c) \<noteq> of_nat k" "link e (x + 20 + c) \<noteq> of_nat x" by auto
qed

lemma free_head_ok:
  assumes ok: "pool_ok s mmp base e ((a, True) # ys)" and ys: "ys \<noteq> []"
  shows "pool_ok (free_head mmp (of_nat base) s) mmp base e (release_blk [] a ys)"
proof -
  obtain c v zs where y: "ys = (c, v) # zs" using ys by (cases ys) auto
  note f = block_facts [of s mmp base e "[]" a True c v zs]
  let ?x = "base + 20 + a"
  show ?thesis
  proof (cases v)
    case True
    have "pool_ok (free_head mmp (of_nat base) s) mmp base e ([] @ (a, False) # ys)"
    proof (rule pool_merge [of s mmp base e "[]" "[(a, True)]" ys base a _ a])
      have "nodes (free_head mmp (of_nat base) s) = (nodes s)(of_nat base := node_at e base NULL a False)"
        using f ok y True by (simp add: free_head_def Let_def) (simp add: node_at_def)
      moreover have "relink ((nodes s)(of_nat base := node_at e base NULL a False)) e ?x (of_nat base) = \<dots>"
        using f ok y by (intro relink_id) auto
      ultimately show "nodes (free_head mmp (of_nat base) s) = relink ((nodes s)(of_nat base := node_at e base
          (lastp NULL base []) a False)) e (endp base [(a, True)]) (of_nat base)" by simp
    qed (use f ok y True in \<open>simp_all add: free_head_def Let_def\<close>)
    then show ?thesis using True y by (simp add: release_blk_def absorb_pre_def)
  next
    case False
    have "pool_ok (free_head mmp (of_nat base) s) mmp base e ([] @ (a + 20 + c, False) # zs)"
    proof (rule pool_merge [of s mmp base e "[]" "[(a, True), (c, False)]" zs base "a + 20 + c" _ "a + 20"])
      show "nodes (free_head mmp (of_nat base) s) = relink ((nodes s)(of_nat base := node_at e base
          (lastp NULL base []) (a + 20 + c) False)) e (endp base [(a, True), (c, False)]) (of_nat base)"
        using f ok y False
        by (cases "zs = []") (auto simp: free_head_def Let_def relink_def node_at_def fun_eq_iff algebra_simps)
    qed (use f ok y False in \<open>simp_all add: free_head_def Let_def\<close>)
    then show ?thesis using False y by (simp add: release_blk_def absorb_pre_def)
  qed
qed

lemma link_neq: "h < n \<Longrightarrow> n \<le> e \<Longrightarrow> e < 4294967296 \<Longrightarrow> 0 < h \<Longrightarrow> link e n \<noteq> of_nat h"
  using unat_of_nat32 [of h] unat_of_nat32 [of n] by (auto simp: link_def word_unat_eq_iff)

lemma free_middle_ok:
  assumes ok: "pool_ok s mmp base e (ws @ (d, f) # (a, True) # ys)" and ys: "ys \<noteq> []"
    and good: "\<not> bad_case (ws @ [(d, f)]) ys"
  defines "r \<equiv> of_nat (endp base ws + 20 + d)"
  shows "pool_ok (free_middle mmp r s) mmp base e (release_blk (ws @ [(d, f)]) a ys)"
proof -
  obtain c v zs where y: "ys = (c, v) # zs" using ys by (cases ys) auto
  define h where "h = endp base ws"
  define k where "k = h + 20 + d"
  define x where "x = k + 20 + a"
  let ?q = "lastp NULL base ws"
  let ?s = "free_middle mmp r s"
  have r: "r = of_nat k" by (simp add: r_def k_def h_def)
  have F: "nodes s (of_nat h) = node_at e h ?q d f" "nodes s (of_nat k) = node_at e k (of_nat h) a True"
    "link e k = of_nat k" "(of_nat k :: addr) \<noteq> 0" "(of_nat h :: addr) \<noteq> 0" "(of_nat h :: addr) \<noteq> of_nat k"
    "link e x \<noteq> of_nat h"
    using block_facts [of s mmp base e ws d f a True ys] ok by (simp_all add: h_def k_def x_def)
  have G: "nodes s (of_nat x) = node_at e x (of_nat k) c v" "link e x = of_nat x" "(of_nat x :: addr) \<noteq> 0"
    "(of_nat k :: addr) \<noteq> of_nat x" "link e (x + 20 + c) = NULL \<longleftrightarrow> zs = []"
    "link e (x + 20 + c) \<noteq> of_nat k" "link e (x + 20 + c) \<noteq> of_nat x"
    using block_facts [of s mmp base e "ws @ [(d, f)]" a True c v zs] ok y
    by (simp_all add: h_def k_def x_def)
  have hy: "link e (x + 20 + c) \<noteq> of_nat h"
    using block_facts(7,8) [of s mmp base e "ws @ [(d, f)]" a True c v zs]
      block_facts(9) [of s mmp base e ws d f a True ys] ok y
    by (intro link_neq) (simp_all add: h_def k_def x_def)
  have hx: "(of_nat h :: addr) \<noteq> of_nat x" using F G by auto
  have sel: "mm_next (nodes s (of_nat k)) = of_nat x" "mm_next (nodes s (of_nat h)) = of_nat k"
    using F G by (simp_all add: x_def k_def)
  note N = F(1,2,4-6) G(1,3-7) hy hx r sel
  consider (bb) "v" "f" | (ib) "v" "\<not> f" | (bi) "\<not> v" "f" | (ii) "\<not> v" "\<not> f" by blast
  then show ?thesis
  proof cases
    case bb
    have "pool_ok ?s mmp base e ((ws @ [(d, f)]) @ (a, False) # ys)"
    proof (rule pool_merge [of s mmp base e "ws @ [(d, f)]" "[(a, True)]" ys k a _ a])
      have "nodes ?s = (nodes s)(of_nat k := node_at e k (of_nat h) a False)"
        using N bb by (simp add: free_middle_def Let_def) (simp add: node_at_def)
      moreover have "relink ((nodes s)(of_nat k := node_at e k (of_nat h) a False)) e x (of_nat k) = \<dots>"
        using N G(2) by (intro relink_id) auto
      ultimately show "nodes ?s = relink ((nodes s)(of_nat k := node_at e k
          (lastp NULL base (ws @ [(d, f)])) a False)) e (endp k [(a, True)]) (of_nat k)"
        by (simp add: x_def h_def)
    qed (use N bb ok in \<open>simp_all add: free_middle_def Let_def h_def k_def\<close>)
    then show ?thesis using bb y by (simp add: release_blk_def absorb_pre_def)
  next
    case ib
    have "pool_ok ?s mmp base e (ws @ (d + 20 + a, False) # ys)"
    proof (rule pool_merge [of s mmp base e ws "[(d, f), (a, True)]" ys h "d + 20 + a" _ "a + 20"])
      show "nodes ?s = relink ((nodes s)(of_nat h := node_at e h
          (lastp NULL base ws) (d + 20 + a) False)) e (endp h [(d, f), (a, True)]) (of_nat h)"
      proof -
        have eqs: "endp h [(d, f), (a, True)] = x" "h + 20 + (d + 20 + a) = x" by (simp_all add: x_def k_def)
        have new: "node_at e h ?q (d + 20 + a) False = (nodes s (of_nat h))\<lparr>mm_next := of_nat x,
            busy := 0, thissize := of_nat d + (of_nat a + 20)\<rparr>"
          by (rule node_eqI, simp_all only: node_at_sel F(1) eqs G(2) mmnode.simps) (simp_all add: algebra_simps)
        show ?thesis unfolding new eqs relink_def G(2)
          using N ib by (simp add: free_middle_def Let_def fun_upd_twist [of "of_nat h" "of_nat x"])
      qed
    qed (use N ib ok in \<open>simp_all add: free_middle_def Let_def h_def k_def\<close>)
    then show ?thesis using ib y by (simp add: release_blk_def absorb_pre_def)
  next
    case bi
    have "pool_ok ?s mmp base e ((ws @ [(d, f)]) @ (a + 20 + c, False) # zs)"
    proof (rule pool_merge [of s mmp base e "ws @ [(d, f)]" "[(a, True), (c, False)]" zs k "a + 20 + c" _ "a + 20"])
      show "nodes ?s = relink ((nodes s)(of_nat k := node_at e k
          (lastp NULL base (ws @ [(d, f)])) (a + 20 + c) False)) e (endp k [(a, True), (c, False)]) (of_nat k)"
      proof -
        have eqs: "endp k [(a, True), (c, False)] = x + 20 + c" "k + 20 + (a + 20 + c) = x + 20 + c"
          "lastp NULL base (ws @ [(d, f)]) = of_nat h" by (simp_all add: x_def k_def h_def)
        have new: "node_at e k (of_nat h) (a + 20 + c) False = (nodes s (of_nat k))\<lparr>
            thissize := of_nat a + (of_nat c + 20), busy := 0, mm_next := link e (x + 20 + c)\<rparr>"
          by (rule node_eqI, simp_all only: node_at_sel F(2) eqs mmnode.simps) (simp_all add: algebra_simps)
        show ?thesis unfolding eqs new relink_def
          using N bi by (cases "zs = []") (simp_all add: free_middle_def Let_def)
      qed
    qed (use N bi ok y in \<open>simp_all add: free_middle_def Let_def h_def k_def\<close>)
    then show ?thesis using bi y by (simp add: release_blk_def absorb_pre_def)
  next
    case ii
    then have zs: "zs = []" using good y by (auto simp: bad_case_def)
    have "pool_ok ?s mmp base e (ws @ (d + 20 + (a + 20 + c), False) # zs)"
    proof (rule pool_merge [of s mmp base e ws "[(d, f), (a, True), (c, False)]" zs h "d + 20 + (a + 20 + c)" _ "a + 40"])
      show "nodes ?s = relink ((nodes s)(of_nat h := node_at e h
          (lastp NULL base ws) (d + 20 + (a + 20 + c)) False)) e (endp h [(d, f), (a, True), (c, False)]) (of_nat h)"
      proof -
        have eqs: "endp h [(d, f), (a, True), (c, False)] = x + 20 + c" "h + 20 + (d + 20 + (a + 20 + c)) = x + 20 + c"
          by (simp_all add: x_def k_def)
        have l0: "link e (x + 20 + c) = NULL" using zs G(5) by simp
        have new: "node_at e h ?q (d + 20 + (a + 20 + c)) False = (nodes s (of_nat h))\<lparr>
            thissize := of_nat d + (of_nat a + of_nat c + 40), mm_next := NULL\<rparr>"
          using ii by (intro node_eqI, simp_all only: node_at_sel F(1) eqs l0 mmnode.simps) (simp_all add: algebra_simps)
        show ?thesis unfolding eqs new relink_def l0
          using N ii l0 by (simp add: free_middle_def Let_def)
      qed
    qed (use N ii ok y zs in \<open>simp_all add: free_middle_def Let_def h_def k_def\<close>)
    then show ?thesis using ii y by (simp add: release_blk_def absorb_pre_def)
  qed
qed

lemma mm_free_here:
  assumes "pool_ok s mmp base e (xs @ (a, True) # ys)"
  shows "mm_free mmp (of_nat (endp base xs + 20)) s = Some (1,
    if xs = [] then free_head mmp (of_nat base) s else free_middle mmp (of_nat (endp base xs)) s)"
    and "ys \<noteq> []"
proof -
  show "ys \<noteq> []" using assms by (auto simp: pool_ok_def)
  then obtain c v zs where y: "ys = (c, v) # zs" by (cases ys) auto
  note f = block_facts [of s mmp base e xs a True c v zs]
  have mmp: "mmp \<noteq> 0" using assms by (simp add: pool_ok_def)
  have pre: "lastp NULL base xs = 0 \<longleftrightarrow> xs = []"
  proof (cases xs rule: rev_cases)
    case (snoc ws z)
    obtain d g where z: "z = (d, g)" by fastforce
    show ?thesis using block_facts(5) [of s mmp base e ws d g a True ys] assms snoc z by simp
  qed simp
  show "mm_free mmp (of_nat (endp base xs + 20)) s = Some (1,
    if xs = [] then free_head mmp (of_nat base) s else free_middle mmp (of_nat (endp base xs)) s)"
    using f assms y mmp pre by (subst mm_free.simps) (auto simp: Let_def)
qed

text \<open>C11: mm_free marks the block idle and merges it with its idle neighbours, keeping the pool well
  formed, in every case but the one between two idle blocks that is not last.\<close>

theorem mm_free_merges:
  assumes "pool_ok s mmp base e (xs @ (a, True) # ys)" and "\<not> bad_case xs ys"
  shows "\<exists>s'. mm_free mmp (of_nat (endp base xs + 20)) s = Some (1, s') \<and>
    pool_ok s' mmp base e (release_blk xs a ys)"
proof (cases xs rule: rev_cases)
  case Nil
  with mm_free_here [OF assms(1)] free_head_ok [of s mmp base e a ys] assms(1) show ?thesis by simp
next
  case (snoc ws z)
  obtain d f where z: "z = (d, f)" by fastforce
  have "pool_ok (free_middle mmp (of_nat (endp base ws + 20 + d)) s) mmp base e (release_blk (ws @ [(d, f)]) a ys)"
    using assms snoc z mm_free_here(2) [OF assms(1)] by (intro free_middle_ok) simp_all
  with mm_free_here(1) [OF assms(1)] show ?thesis by (simp add: snoc z)
qed

text \<open>Freeing a block between two idle blocks, the second not last, leaves the successor's back link on a
  node that is gone.\<close>

theorem mm_free_breaks_links:
  assumes "pool_ok s mmp base e (ws @ (d, False) # (a, True) # (c, False) # (g, u) # zs)"
  defines "h \<equiv> endp base ws"
  defines "x \<equiv> h + 20 + d + 20 + a"
  defines "y \<equiv> x + 20 + c"
  shows "\<exists>s'. mm_free mmp (of_nat (h + 20 + d + 20)) s = Some (1, s') \<and>
    mm_next (nodes s' (of_nat h)) = of_nat y \<and> mm_pre (nodes s' (of_nat y)) = of_nat x \<and>
    (of_nat x :: addr) \<noteq> of_nat h"
proof -
  let ?k = "h + 20 + d"
  note f1 = block_facts [of s mmp base e ws d False a True "(c, False) # (g, u) # zs"]
  note f2 = block_facts [of s mmp base e "ws @ [(d, False)]" a True c False "(g, u) # zs"]
  note f3 = block_facts [of s mmp base e "ws @ [(d, False), (a, True)]" c False g u zs]
  have F: "nodes s (of_nat h) = node_at e h (lastp NULL base ws) d False"
    "nodes s (of_nat ?k) = node_at e ?k (of_nat h) a True" "(of_nat h :: addr) \<noteq> of_nat ?k"
    "(of_nat ?k :: addr) \<noteq> of_nat x" "nodes s (of_nat x) = node_at e x (of_nat ?k) c False"
    "nodes s (of_nat y) = node_at e y (of_nat x) g u" "link e x = of_nat x" "link e y = of_nat y"
    "(of_nat y :: addr) \<noteq> 0" "(of_nat x :: addr) \<noteq> of_nat y" "0 < h" "y \<le> e" "e < 4294967296"
    using f1 f2 f3 assms(1) by (simp_all add: h_def x_def y_def)
  have hx: "(of_nat x :: addr) \<noteq> of_nat h" "(of_nat y :: addr) \<noteq> of_nat h"
    using link_neq [of h x e] link_neq [of h y e] F by (simp_all add: x_def y_def)
  have free: "mm_free mmp (of_nat (?k + 20)) s = Some (1, free_middle mmp (of_nat ?k) s)"
    using mm_free_here(1) [of s mmp base e "ws @ [(d, False)]" a "(c, False) # (g, u) # zs"] assms(1)
    by (simp add: h_def)
  have nx: "mm_next (nodes s (of_nat ?k)) = of_nat x" "mm_next (nodes s (of_nat x)) = of_nat y"
    using F by (simp_all add: x_def y_def)
  show ?thesis
    unfolding free using F hx nx by (auto simp: free_middle_def Let_def)
qed

text \<open>A fresh pool is well formed: one idle block.\<close>

theorem mm_inipool_ok:
  assumes "mmp \<noteq> NULL" and "ppool \<noteq> NULL" and "20 \<le> unat sz" and "unat ppool + unat sz < 4294967296"
  shows "\<exists>s'. mm_inipool mmp ppool sz s = (1, s') \<and>
    pool_ok s' mmp (unat ppool) (unat ppool + unat sz) [(unat sz - 20, False)]"
proof -
  have "unat (sz - 20) = unat sz - 20" using assms(3) unat_sub [of 20 sz] by (simp add: word_le_nat_alt)
  moreover have "of_nat (unat sz - 20) = sz - 20" using assms(3) by (simp add: of_nat_diff)
  moreover have "0 < unat ppool" using assms(2) by (simp add: unat_gt_0)
  ultimately show ?thesis using assms
    by (auto simp: mm_inipool_def Let_def pool_ok_def upd_pool_def node_at_def link_def)
qed

text \<open>A pool of five blocks for the witnesses.\<close>

definition demo_pool :: mmstate where
  "demo_pool = \<lparr>nodes = (\<lambda>_. node_at 4420 0 0 0 False)(4096 := node_at 4420 4096 0 16 False,
     4132 := node_at 4420 4132 4096 16 True, 4168 := node_at 4420 4168 4132 16 False,
     4204 := node_at 4420 4204 4168 16 True, 4240 := node_at 4420 4240 4204 160 False),
     pools = (\<lambda>_. \<lparr>phead = 4096, poolsize = 324, valiable = 192, ppoolnext = NULL\<rparr>)\<rparr>"

lemma demo_pool_ok:
  "pool_ok demo_pool 64 4096 4420 [(16, False), (16, True), (16, False), (16, True), (160, False)]"
  by (simp add: pool_ok_def demo_pool_def)

theorem mm_malloc_splits_witness:
  "\<exists>r s'. mm_malloc 64 100 demo_pool = Some (r, s') \<and>
    (r = NULL \<and> s' = demo_pool \<and> (\<forall>b. (b, False) \<in> set [(16, False), (16, True), (16, False), (16, True), (160, False)]
       \<longrightarrow> b < unat (100 :: cint) + 20) \<or>
     (\<exists>xs b ys. [(16, False), (16, True), (16, False), (16, True), (160, False)] = xs @ (b, False) # ys \<and>
        unat (100 :: cint) + 20 \<le> b \<and> r = of_nat (endp 4096 xs + 20) \<and> r \<noteq> NULL \<and>
        pool_ok s' 64 4096 4420 (xs @ (unat (100 :: cint), True) # (b - unat (100 :: cint) - 20, False) # ys)))"
  by (rule mm_malloc_splits [OF demo_pool_ok]) simp_all

theorem mm_free_merges_witness:
  "\<exists>s'. mm_free 64 (of_nat (endp 4096 [(16, False), (16, True), (16, False)] + 20)) demo_pool = Some (1, s') \<and>
    pool_ok s' 64 4096 4420 (release_blk [(16, False), (16, True), (16, False)] 16 [(160, False)])"
  by (rule mm_free_merges) (use demo_pool_ok in \<open>simp_all add: bad_case_def\<close>)

theorem mm_free_breaks_links_witness:
  "\<exists>s'. mm_free 64 (of_nat (endp 4096 [] + 20 + 16 + 20)) demo_pool = Some (1, s') \<and>
    mm_next (nodes s' (of_nat (endp 4096 []))) = of_nat (endp 4096 [] + 20 + 16 + 20 + 16 + 20 + 16) \<and>
    mm_pre (nodes s' (of_nat (endp 4096 [] + 20 + 16 + 20 + 16 + 20 + 16))) = of_nat (endp 4096 [] + 20 + 16 + 20 + 16) \<and>
    (of_nat (endp 4096 [] + 20 + 16 + 20 + 16) :: addr) \<noteq> of_nat (endp 4096 [])"
  by (rule mm_free_breaks_links [of demo_pool 64 4096 4420 "[]" 16 16 16 16 True "[(160, False)]"])
    (use demo_pool_ok in simp)

theorem mm_inipool_ok_witness:
  "\<exists>s'. mm_inipool 64 0x1000 1000 demo_pool = (1, s') \<and>
    pool_ok s' 64 (unat (0x1000 :: addr)) (unat (0x1000 :: addr) + unat (1000 :: cint)) [(unat (1000 :: cint) - 20, False)]"
  by (rule mm_inipool_ok) simp_all

end
