(* ===== verification/Lock.thy ===== *)
theory Lock
  imports Prelude
begin

text \<open>
  The locks of \<^verbatim>\<open>include/kernel/signal.h\<close> and \<^verbatim>\<open>kernel/signal.c\<close>. \<^verbatim>\<open>get_spinlock\<close> loops while the
  word holds \<^verbatim>\<open>SPIN_LOCKED\<close> and then stores it; on one processor with nobody to release the lock a
  held lock never ends the loop, so the sequential model returns \<^const>\<open>None\<close>. The test and the
  store are two instructions: the interleaved model steps them apart.
\<close>

section \<open>Spin locks\<close>

record spin_lock =
  lck :: cint

definition SPIN_LOCKED :: cint where [code_defs]: "SPIN_LOCKED = 0xCCCCCCCC"
definition SPIN_UNLOCKED :: cint where [code_defs]: "SPIN_UNLOCKED = 0"

definition spinlock :: "spin_lock \<Rightarrow> spin_lock" where
  "spinlock l = l\<lparr>lck := SPIN_LOCKED\<rparr>"

definition spinunlock :: "spin_lock \<Rightarrow> spin_lock" where
  "spinunlock l = l\<lparr>lck := SPIN_UNLOCKED\<rparr>"

definition spinlock_init :: "spin_lock \<Rightarrow> spin_lock" where
  "spinlock_init l = spinunlock l"

definition get_spinlock :: "spin_lock \<Rightarrow> spin_lock option" where
  "get_spinlock l = (if SPIN_LOCKED = lck l then None else Some (spinlock l))"

definition release_spinlock :: "spin_lock \<Rightarrow> spin_lock" where
  "release_spinlock l = spinunlock l"

definition unlocked :: spin_lock where
  [code_defs]: "unlocked = \<lparr>lck = SPIN_UNLOCKED\<rparr>"

lemma get_unlocked [simp]: "get_spinlock unlocked = Some (spinlock unlocked)"
  by (simp add: get_spinlock_def unlocked_def SPIN_LOCKED_def SPIN_UNLOCKED_def)

lemma release_is_unlocked [simp]: "release_spinlock l = unlocked" "spinlock_init l = unlocked"
  by (simp_all add: release_spinlock_def spinlock_init_def spinunlock_def unlocked_def)

lemma get_locked [simp]: "get_spinlock (spinlock l) = None"
  by (simp add: get_spinlock_def spinlock_def)

section \<open>Two processors on one spin lock\<close>

datatype pc = Outside | Passed | Inside

record machine =
  mlock :: spin_lock
  pc0 :: pc
  pc1 :: pc

text \<open>
  \<^verbatim>\<open>test\<close> is the last round of the empty loop, \<^verbatim>\<open>set\<close> the store after it, \<^verbatim>\<open>leave\<close> the release.
\<close>

inductive lock_step :: "machine \<Rightarrow> machine \<Rightarrow> bool" where
  test0: "pc0 s = Outside \<Longrightarrow> SPIN_LOCKED \<noteq> lck (mlock s) \<Longrightarrow> lock_step s (s\<lparr>pc0 := Passed\<rparr>)"
| set0: "pc0 s = Passed \<Longrightarrow> lock_step s (s\<lparr>mlock := spinlock (mlock s), pc0 := Inside\<rparr>)"
| leave0: "pc0 s = Inside \<Longrightarrow> lock_step s (s\<lparr>mlock := release_spinlock (mlock s), pc0 := Outside\<rparr>)"
| test1: "pc1 s = Outside \<Longrightarrow> SPIN_LOCKED \<noteq> lck (mlock s) \<Longrightarrow> lock_step s (s\<lparr>pc1 := Passed\<rparr>)"
| set1: "pc1 s = Passed \<Longrightarrow> lock_step s (s\<lparr>mlock := spinlock (mlock s), pc1 := Inside\<rparr>)"
| leave1: "pc1 s = Inside \<Longrightarrow> lock_step s (s\<lparr>mlock := release_spinlock (mlock s), pc1 := Outside\<rparr>)"

inductive_cases lock_stepE: "lock_step s t"

definition lock_start :: machine where
  "lock_start = \<lparr>mlock = unlocked, pc0 = Outside, pc1 = Outside\<rparr>"

inductive reach :: "machine \<Rightarrow> bool" where
  start: "reach lock_start"
| step: "reach s \<Longrightarrow> lock_step s t \<Longrightarrow> reach t"

text \<open>Test and set of the spin lock are separate steps: two processors can reach a state where both hold
  it.\<close>

theorem spinlock_not_exclusive: "\<exists>s. reach s \<and> pc0 s = Inside \<and> pc1 s = Inside"
proof -
  let ?a = "lock_start\<lparr>pc0 := Passed\<rparr>"
  let ?b = "?a\<lparr>pc1 := Passed\<rparr>"
  let ?c = "?b\<lparr>mlock := spinlock (mlock ?b), pc0 := Inside\<rparr>"
  let ?d = "?c\<lparr>mlock := spinlock (mlock ?c), pc1 := Inside\<rparr>"
  have "reach ?a"
    by (rule reach.step [OF reach.start], rule test0)
      (simp_all add: lock_start_def unlocked_def SPIN_LOCKED_def SPIN_UNLOCKED_def)
  then have "reach ?b"
    by (rule reach.step, intro test1)
      (simp_all add: lock_start_def unlocked_def SPIN_LOCKED_def SPIN_UNLOCKED_def)
  then have "reach ?c" by (rule reach.step, intro set0) simp
  then have "reach ?d" by (rule reach.step, intro set1) simp
  then show ?thesis by (intro exI [of _ ?d]) simp
qed

text \<open>When the test and the store are one step, the second processor cannot enter.\<close>

inductive atomic_step :: "machine \<Rightarrow> machine \<Rightarrow> bool" where
  get0: "pc0 s = Outside \<Longrightarrow> get_spinlock (mlock s) = Some l \<Longrightarrow>
    atomic_step s (s\<lparr>mlock := l, pc0 := Inside\<rparr>)"
| rel0: "pc0 s = Inside \<Longrightarrow> atomic_step s (s\<lparr>mlock := release_spinlock (mlock s), pc0 := Outside\<rparr>)"
| get1: "pc1 s = Outside \<Longrightarrow> get_spinlock (mlock s) = Some l \<Longrightarrow>
    atomic_step s (s\<lparr>mlock := l, pc1 := Inside\<rparr>)"
| rel1: "pc1 s = Inside \<Longrightarrow> atomic_step s (s\<lparr>mlock := release_spinlock (mlock s), pc1 := Outside\<rparr>)"

inductive atomic_reach :: "machine \<Rightarrow> bool" where
  start: "atomic_reach lock_start"
| step: "atomic_reach s \<Longrightarrow> atomic_step s t \<Longrightarrow> atomic_reach t"

lemma atomic_inv:
  "atomic_reach s \<Longrightarrow> pc0 s \<noteq> Passed \<and> pc1 s \<noteq> Passed \<and>
     (if pc0 s = Inside \<or> pc1 s = Inside then lck (mlock s) = SPIN_LOCKED else mlock s = unlocked) \<and>
     \<not> (pc0 s = Inside \<and> pc1 s = Inside)"
proof (induction rule: atomic_reach.induct)
  case start
  show ?case by (simp add: lock_start_def)
next
  case (step s t)
  from step.hyps(2) step.IH show ?case
    by (cases rule: atomic_step.cases)
      (auto simp: get_spinlock_def spinlock_def split: if_splits)
qed

text \<open>With test and set as one step two processors never both hold the lock.\<close>

theorem atomic_spinlock_exclusive:
  assumes "atomic_reach s"
  shows "\<not> (pc0 s = Inside \<and> pc1 s = Inside)"
  using atomic_inv [OF assms] by blast

theorem atomic_spinlock_exclusive_witness:
  "\<not> (pc0 (lock_start\<lparr>mlock := spinlock unlocked, pc0 := Inside\<rparr>) = Inside \<and>
      pc1 (lock_start\<lparr>mlock := spinlock unlocked, pc0 := Inside\<rparr>) = Inside)"
proof (rule atomic_spinlock_exclusive)
  show "atomic_reach (lock_start\<lparr>mlock := spinlock unlocked, pc0 := Inside\<rparr>)"
    by (rule atomic_reach.step [OF atomic_reach.start], rule get0) (simp_all add: lock_start_def)
qed

section \<open>Mutexes\<close>

text \<open>
  A mutex; its list node \<^verbatim>\<open>mlst\<close> is the first member, so it has the address \<^verbatim>\<open>pm\<close> of the mutex; \<^verbatim>\<open>tsk\<close> is the address of the running task.
  \<^verbatim>\<open>createmutex\<close>, \<^verbatim>\<open>destroymutex\<close>, \<^verbatim>\<open>wait\<close> and \<^verbatim>\<open>signal\<close> are stubs that return a constant.
\<close>

record mutex =
  mlst_next :: addr
  mlst_pre :: addr
  pmw :: addr
  mutex_waitercnt :: u32
  mutexname :: addr
  mutex_val :: cint
  mutex_ptsk :: addr

definition init_mutex :: "addr \<Rightarrow> addr \<Rightarrow> mutex" where
  "init_mutex pm mname = \<lparr>mlst_next = pm, mlst_pre = pm, pmw = NULL, mutex_waitercnt = 0, 
     mutexname = mname, mutex_val = 1, mutex_ptsk = NULL\<rparr>"

definition createmutex :: "addr \<Rightarrow> bool \<Rightarrow> addr" where
  "createmutex mname own = NULL"

definition destroymutex :: "addr \<Rightarrow> cint" where
  "destroymutex pmt = 0"

definition waitformutex :: "addr \<Rightarrow> mutex \<Rightarrow> cint \<times> mutex" where
  "waitformutex tsk pmt =
     (if 1 = mutex_val pmt then (1, pmt\<lparr>mutex_val := mutex_val pmt - 1, mutex_ptsk := tsk\<rparr>)
      else (0, pmt))"

definition releasemutex :: "addr \<Rightarrow> mutex \<Rightarrow> cint \<times> mutex" where
  "releasemutex tsk pmt = (if tsk \<noteq> mutex_ptsk pmt then (0, pmt) else (0, pmt))"

section \<open>Semaphores\<close>

text \<open>Both operations are stubs.\<close>

record semaphore =
  sem_value :: cint

definition wait :: "semaphore \<Rightarrow> cint \<times> semaphore" where "wait psp = (0, psp)"
definition signal :: "semaphore \<Rightarrow> cint \<times> semaphore" where "signal psp = (0, psp)"

datatype mutex_op = Wait addr | Release addr

fun mutex_run :: "mutex_op list \<Rightarrow> mutex \<Rightarrow> cint list \<times> mutex" where
  "mutex_run [] m = ([], m)"
| "mutex_run (Wait t # ops) m =
     (let (r, m1) = waitformutex t m; (rs, m2) = mutex_run ops m1 in (r # rs, m2))"
| "mutex_run (Release t # ops) m =
     (let (r, m1) = releasemutex t m; (rs, m2) = mutex_run ops m1 in (r # rs, m2))"

lemma mutex_run_taken: "mutex_val m = 0 \<Longrightarrow> mutex_run ops m = (replicate (length ops) 0, m)"
  by (induction ops m rule: mutex_run.induct)
    (auto simp: waitformutex_def releasemutex_def split: if_splits)

text \<open>The first wait takes the mutex and no later call succeeds: releasemutex does not give it back.\<close>

theorem mutex_taken_once:
  "mutex_run (Wait t # ops) (init_mutex pm n) =
     (1 # replicate (length ops) 0, (init_mutex pm n)\<lparr>mutex_val := 0, mutex_ptsk := t\<rparr>)"
  by (simp add: waitformutex_def init_mutex_def mutex_run_taken)

end
