(* ===== verification/ListHead.thy ===== *)
theory ListHead
  imports Prelude
begin

text \<open>
  The intrusive circular lists of \<^verbatim>\<open>include/list.h\<close>. A store maps the address of a \<^verbatim>\<open>list_head\<close> to its
  two pointers. A ring is an entry and the list of the other nodes in \<^verbatim>\<open>next\<close> order; the operations
  refine operations on that list, and the contract they keep is a locale that the kernel's object
  lists use.
\<close>

section \<open>Operations\<close>

record list_head =
  nxt :: addr
  pre :: addr

type_synonym links = "addr \<Rightarrow> list_head"

definition list_ini :: "addr \<Rightarrow> links \<Rightarrow> links" where
  "list_ini p l = l(p := \<lparr>nxt = p, pre = p\<rparr>)"

definition set_nxt :: "addr \<Rightarrow> addr \<Rightarrow> links \<Rightarrow> links" where
  "set_nxt p v l = l(p := (l p)\<lparr>nxt := v\<rparr>)"

definition set_pre :: "addr \<Rightarrow> addr \<Rightarrow> links \<Rightarrow> links" where
  "set_pre p v l = l(p := (l p)\<lparr>pre := v\<rparr>)"

definition list_insert :: "addr \<Rightarrow> addr \<Rightarrow> links \<Rightarrow> links" where
  "list_insert entry new l =
     (let next = nxt (l entry);
          l1 = set_nxt entry (pre (l new)) l;
          l2 = set_pre next (nxt (l1 new)) l1;
          l3 = set_pre new entry l2
      in set_nxt new next l3)"

definition list_inserttail :: "addr \<Rightarrow> addr \<Rightarrow> links \<Rightarrow> links" where
  "list_inserttail entry new l =
     (let p = pre (l entry);
          l1 = set_nxt p new l;
          l2 = set_pre new p l1;
          l3 = set_nxt new entry l2
      in set_pre entry new l3)"

definition list_remove :: "addr \<Rightarrow> links \<Rightarrow> links" where
  "list_remove entry l =
     (let p = nxt (l entry)
      in if p = entry then l
         else
           let l1 = set_pre p (pre (l entry)) l;
               l2 = set_nxt (pre (l1 entry)) p l1
           in list_ini entry l2)"

lemma set_nxt_sel [simp]: "nxt (set_nxt p v l q) = (if q = p then v else nxt (l q))" "pre (set_nxt p v l q) = pre (l q)"
  by (simp_all add: set_nxt_def)

lemma set_pre_sel [simp]: "pre (set_pre p v l q) = (if q = p then v else pre (l q))" "nxt (set_pre p v l q) = nxt (l q)"
  by (simp_all add: set_pre_def)

lemma list_ini_sel [simp]:
  "nxt (list_ini p l q) = (if q = p then p else nxt (l q))" "pre (list_ini p l q) = (if q = p then p else pre (l q))"
  by (simp_all add: list_ini_def)

section \<open>Rings\<close>

fun path :: "links \<Rightarrow> addr \<Rightarrow> addr list \<Rightarrow> addr \<Rightarrow> bool" where
  "path l a [] b \<longleftrightarrow> nxt (l a) = b \<and> pre (l b) = a"
| "path l a (x # xs) b \<longleftrightarrow> nxt (l a) = x \<and> pre (l x) = a \<and> path l x xs b"

definition ring :: "links \<Rightarrow> addr \<Rightarrow> addr list \<Rightarrow> bool" where
  "ring l e xs \<longleftrightarrow> distinct (e # xs) \<and> path l e xs e"

lemma path_append [simp]: "path l a (xs @ y # ys) b \<longleftrightarrow> path l a xs y \<and> path l y ys b"
  by (induction l a xs b rule: path.induct) auto

lemma path_cong:
  assumes "\<And>x. x \<in> set (a # xs) \<Longrightarrow> nxt (l x) = nxt (l' x)" and "\<And>x. x \<in> set xs \<union> {b} \<Longrightarrow> pre (l x) = pre (l' x)"
  shows "path l a xs b = path l' a xs b"
  using assms by (induction l a xs b rule: path.induct) auto

lemma path_ends: "path l a xs b \<Longrightarrow> nxt (l a) = hd (xs @ [b]) \<and> pre (l b) = last (a # xs)"
  by (induction l a xs b rule: path.induct) auto

lemma ring_rotate: "ring l e (xs @ y # ys) \<longleftrightarrow> ring l y (ys @ e # xs)"
  by (auto simp: ring_def)

lemma ring_ini: "ring (list_ini p l) p []"
  by (simp add: ring_def)

lemma ring_inserttail:
  assumes "ring l e xs" and "new \<notin> set (e # xs)"
  shows "ring (list_inserttail e new l) e (xs @ [new])"
proof (cases xs rule: rev_cases)
  case Nil
  with assms show ?thesis by (auto simp: ring_def list_inserttail_def Let_def)
next
  case (snoc ws z)
  have d: "distinct (e # ws)" "z \<notin> set (e # ws)" "new \<notin> set (e # ws)" "new \<noteq> z"
    and p: "path l e ws z" "nxt (l z) = e" "pre (l e) = z"
    using assms snoc by (auto simp: ring_def)
  have r: "list_inserttail e new l = set_pre e new (set_nxt new e (set_pre new z (set_nxt z new l)))"
    by (simp add: list_inserttail_def p)
  have "path (list_inserttail e new l) e ws z = path l e ws z"
    unfolding r by (rule path_cong) (use d in auto)
  with p d have "path (list_inserttail e new l) e (ws @ z # [new]) e" by (auto simp: r)
  with d snoc show ?thesis by (auto simp: ring_def)
qed

lemma ring_remove:
  assumes "ring l x (xs @ [e])"
  shows "ring (list_remove e l) x xs \<and> ring (list_remove e l) e []"
proof -
  let ?z = "last (x # xs)"
  have d: "distinct (x # xs)" "e \<notin> set (x # xs)" and p: "path l x xs e" and ex: "nxt (l e) = x"
    using assms by (auto simp: ring_def)
  have z: "pre (l e) = ?z" "?z \<in> set (x # xs)" using path_ends [OF p] by auto
  have r: "list_remove e l = list_ini e (set_nxt ?z x (set_pre x ?z l))"
    using d ex z by (auto simp: list_remove_def Let_def)
  have "path (list_remove e l) x xs x"
  proof (cases xs rule: rev_cases)
    case Nil
    with r d show ?thesis by simp
  next
    case (snoc ws w)
    have "path (list_remove e l) x ws w = path l x ws w"
      by (rule path_cong) (use d snoc r in auto)
    with r d snoc p show ?thesis by auto
  qed
  moreover have "ring (list_remove e l) e []" unfolding r by (rule ring_ini)
  ultimately show ?thesis using d by (auto simp: ring_def)
qed


section \<open>The contract of a ring\<close>

text \<open>
  What the kernel's object lists rely on: a fresh node is a ring of its own, appending extends the
  ring at its end, removing takes one node out and leaves it alone.
\<close>

locale ring_store =
  fixes ringp :: "'s \<Rightarrow> 'a \<Rightarrow> 'a list \<Rightarrow> bool"
    and ini :: "'a \<Rightarrow> 's \<Rightarrow> 's"
    and append :: "'a \<Rightarrow> 'a \<Rightarrow> 's \<Rightarrow> 's"
    and remove :: "'a \<Rightarrow> 's \<Rightarrow> 's"
  assumes ini_ring: "ringp (ini p l) p []"
    and append_ring: "ringp l e xs \<Longrightarrow> new \<notin> set (e # xs) \<Longrightarrow> ringp (append e new l) e (xs @ [new])"
    and remove_ring: "ringp l e (xs @ [x]) \<Longrightarrow> ringp (remove x l) e xs \<and> ringp (remove x l) x []"
    and rotate: "ringp l e (xs @ y # ys) \<longleftrightarrow> ringp l y (ys @ e # xs)"
begin

lemma append_all:
  assumes "ringp l e xs" and "distinct ys" and "set ys \<inter> set (e # xs) = {}"
  shows "ringp (fold (append e) ys l) e (xs @ ys)"
  using assms
proof (induction ys arbitrary: l xs)
  case (Cons y ys)
  then have "ringp (append e y l) e (xs @ [y])" by (intro append_ring) auto
  with Cons.IH [of "append e y l" "xs @ [y]"] Cons.prems show ?case by auto
qed simp

lemma remove_any:
  assumes "ringp l e (xs @ x # ys)"
  shows "ringp (remove x l) e (xs @ ys) \<and> ringp (remove x l) x []"
proof (cases ys)
  case Nil
  then show ?thesis using remove_ring [of l e xs x] assms by simp
next
  case (Cons z zs)
  have "ringp l x (ys @ e # xs)" using assms by (simp add: rotate)
  then have "ringp l x ([] @ z # (zs @ e # xs))" by (simp add: Cons)
  then have "ringp l z ((zs @ e # xs) @ x # [])" by (subst (asm) rotate)
  then have "ringp (remove x l) z (zs @ e # xs) \<and> ringp (remove x l) x []"
    using remove_ring [of l z "zs @ e # xs" x] by simp
  moreover have "ringp (remove x l) z (zs @ e # xs) \<longleftrightarrow> ringp (remove x l) e (xs @ z # zs)"
    by (rule rotate)
  ultimately show ?thesis by (simp add: Cons)
qed

lemma remove_entry:
  assumes "ringp l e (x # xs)"
  shows "ringp (remove e l) x xs \<and> ringp (remove e l) e []"
proof -
  have "ringp l e ([] @ x # xs)" using assms by simp
  then have "ringp l x (xs @ [e])" by (simp only: rotate)
  then show ?thesis by (rule remove_ring)
qed

end

interpretation list_h: ring_store ring list_ini list_inserttail list_remove
proof
  show "ring (list_ini p l) p []" for p l by (rule ring_ini)
  show "ring (list_inserttail e new l) e (xs @ [new])" if "ring l e xs" "new \<notin> set (e # xs)" for l e xs new
    using that by (rule ring_inserttail)
  show "ring (list_remove x l) e xs \<and> ring (list_remove x l) x []" if "ring l e (xs @ [x])" for l e xs x
    using that by (rule ring_remove)
  show "ring l e (xs @ y # ys) = ring l y (ys @ e # xs)" for l e xs y ys by (rule ring_rotate)
qed

text \<open>Appending nodes one after the other to a fresh list gives the ring of those nodes in that order.\<close>

theorem list_appends_in_order:
  assumes "distinct ys" and "e \<notin> set ys"
  shows "ring (fold (list_inserttail e) ys (list_ini e l)) e ys"
  using list_h.append_all [OF list_h.ini_ring assms(1), of e l] assms(2) by auto

theorem list_appends_in_order_witness:
  "ring (fold (list_inserttail 8) [16, 24, 32] (list_ini 8 (\<lambda>_. \<lparr>nxt = 0, pre = 0\<rparr>))) 8 [16, 24, 32]"
  by (rule list_appends_in_order) simp_all

text \<open>list_remove takes exactly its argument out of a ring, wherever it is, and leaves it a ring of its
  own.\<close>

theorem list_remove_any:
  assumes "ring l e (xs @ x # ys)"
  shows "ring (list_remove x l) e (xs @ ys) \<and> ring (list_remove x l) x []"
  using assms by (rule list_h.remove_any)

theorem list_remove_any_witness:
  "ring (list_remove 24 (fold (list_inserttail 8) [16, 24, 32] (list_ini 8 (\<lambda>_. \<lparr>nxt = 0, pre = 0\<rparr>)))) 8 ([16] @ [32]) \<and>
   ring (list_remove 24 (fold (list_inserttail 8) [16, 24, 32] (list_ini 8 (\<lambda>_. \<lparr>nxt = 0, pre = 0\<rparr>)))) 24 []"
proof (rule list_remove_any)
  show "ring (fold (list_inserttail 8) [16, 24, 32] (list_ini 8 (\<lambda>_. \<lparr>nxt = 0, pre = 0\<rparr>))) 8 ([16] @ 24 # [32])"
    using list_h.append_all [OF list_h.ini_ring, of "[16, 24, 32]" 8 "\<lambda>_. \<lparr>nxt = 0, pre = 0\<rparr>"] by simp
qed

text \<open>
  \<^verbatim>\<open>list_insert\<close> stores the new node's own \<^verbatim>\<open>pre\<close> and \<^verbatim>\<open>next\<close> into its neighbours, which is the new node
  only when it is a ring by itself.
\<close>

text \<open>The ring after list_insert is right exactly for a node that is a ring by itself.\<close>

theorem list_insert_iff:
  assumes "ring l e xs" and "new \<notin> set (e # xs)"
  shows "ring (list_insert e new l) e (new # xs) \<longleftrightarrow> nxt (l new) = new \<and> pre (l new) = new"
proof (cases xs)
  case Nil
  with assms show ?thesis by (auto simp: ring_def list_insert_def Let_def)
next
  case (Cons y ys)
  have d: "distinct (y # ys)" "e \<notin> set (y # ys)" "new \<notin> set (y # ys)" "new \<noteq> e"
    and p: "nxt (l e) = y" "path l y ys e"
    using assms Cons by (auto simp: ring_def)
  have "path (list_insert e new l) y ys e = path l y ys e"
    by (rule path_cong) (use d p in \<open>auto simp: list_insert_def Let_def\<close>)
  with assms Cons d p show ?thesis by (auto simp: ring_def list_insert_def Let_def)
qed

theorem list_insert_iff_witness:
  "ring (list_insert 8 16 (list_ini 16 (list_ini 8 (\<lambda>_. \<lparr>nxt = 0, pre = 0\<rparr>)))) 8 [16] \<longleftrightarrow>
   nxt (list_ini 16 (list_ini 8 (\<lambda>_. \<lparr>nxt = 0, pre = 0\<rparr>)) 16) = 16 \<and>
   pre (list_ini 16 (list_ini 8 (\<lambda>_. \<lparr>nxt = 0, pre = 0\<rparr>)) 16) = 16"
  by (rule list_insert_iff) (simp_all add: ring_def)

end
