(* ===== verification/Registry.thy ===== *)
theory Registry
  imports Lock ListHead
begin

text \<open>
  The tables of \<^verbatim>\<open>kernel/kmodel.c\<close> that drivers and file systems register with: file systems, devices,
  drivers and I/O port regions. A table entry is the address of the registered struct, null when
  free. A device record is modelled as the seventeen words it is made of, sixteen slave pointers and
  the count \<^verbatim>\<open>dev_cnt\<close> behind them, because the bound test lets the slave number 16 through. A spin on
  a held lock is \<^const>\<open>None\<close>.
\<close>

unbundle bit_operations_syntax

section \<open>Data\<close>

definition K_FS_CATORAY_CNT :: u32 where [code_defs]: "K_FS_CATORAY_CNT = 256"
definition MAJOR_MAX :: u32 where [code_defs]: "MAJOR_MAX = 0x20"
definition SLAVE_MAX :: u32 where [code_defs]: "SLAVE_MAX = 0x10"

definition MAKEDEVNUM :: "u32 \<Rightarrow> u32 \<Rightarrow> u32" where
  "MAKEDEVNUM major slave = push_bit 20 major OR (slave AND 0x000FFFFF)"

definition GETMAJOR :: "u32 \<Rightarrow> u32" where
  "GETMAJOR devnum = drop_bit 20 devnum"

definition GETSLAVE :: "u32 \<Rightarrow> u32" where
  "GETSLAVE devnum = devnum AND 0x000FFFFF"

text \<open>Words 0 to 15 are \<^verbatim>\<open>slave_dev\<close>, word 16 is \<^verbatim>\<open>dev_cnt\<close>.\<close>

type_synonym device = "nat \<Rightarrow> u32"

definition dev_cnt :: "device \<Rightarrow> u32" where
  "dev_cnt d = d 16"

record device_base =
  dev_num :: u32
  dev_name :: addr

record driver =
  dev_major_num :: u32
  drv_f_op :: addr
  drv_d_op :: addr

record fs_struct =
  fs_id :: u8
  fs_name :: addr
  fs_f_op :: addr
  fs_d_op :: addr

record ioport_region =
  ior_start :: u16
  ior_end :: u16
  ior_cnt :: u16
  ior_pmdl :: addr

record registry =
  fs_table :: "nat \<Rightarrow> addr"
  device_head :: "nat \<Rightarrow> device"
  lck_device :: spin_lock
  driver_head :: "nat \<Rightarrow> addr"
  irhead :: addr
  irlck :: spin_lock
  fs_structs :: "addr \<Rightarrow> fs_struct"
  dev_structs :: "addr \<Rightarrow> device_base"
  drv_structs :: "addr \<Rightarrow> driver"
  regions :: "addr \<Rightarrow> ioport_region"
  rlinks :: links

section \<open>File systems, devices and drivers\<close>

definition register_fs :: "addr \<Rightarrow> registry \<Rightarrow> cint \<times> registry" where
  "register_fs fs s =
     (if NULL = fs then (INVALID, s)
      else
        let i = fs_id (fs_structs s fs)
        in if K_FS_CATORAY_CNT \<le> ucast i then (INVALID, s)
           else if NULL \<noteq> fs_table s (unat i) then (INVALID, s)
           else (VALID, s\<lparr>fs_table := (fs_table s)(unat i := fs)\<rparr>))"

definition register_device :: "addr \<Rightarrow> registry \<Rightarrow> (cint \<times> registry) option" where
  "register_device dev s =
     (if NULL = dev then Some (INVALID, s)
      else
        let num = dev_num (dev_structs s dev);
            major = GETMAJOR num; slave = GETSLAVE num
        in case get_spinlock (lck_device s) of
             None \<Rightarrow> None
           | Some l \<Rightarrow>
               Some (if MAJOR_MAX < major \<or> SLAVE_MAX < slave \<or>
                        NULL \<noteq> device_head s (unat major) (unat slave)
                     then (INVALID, s\<lparr>lck_device := release_spinlock l\<rparr>)
                     else
                       let d = device_head s (unat major);
                           d1 = d(16 := d 16 + 1);
                           d2 = d1(unat slave := dev)
                       in (VALID, s\<lparr>device_head := (device_head s)(unat major := d2),
                                    lck_device := release_spinlock l\<rparr>)))"

definition unregister_device :: "u32 \<Rightarrow> registry \<Rightarrow> (addr \<times> registry) option" where
  "unregister_device devnum s =
     (case get_spinlock (lck_device s) of
        None \<Rightarrow> None
      | Some l \<Rightarrow>
          let s' = s\<lparr>lck_device := release_spinlock l\<rparr>;
              major = GETMAJOR devnum; slave = GETSLAVE devnum
          in Some (if MAJOR_MAX < major then (NULL, s')
                   else if SLAVE_MAX < slave then (NULL, s')
                   else
                     let d = device_head s (unat major); pdev = d (unat slave)
                     in if NULL = pdev then (pdev, s')
                        else
                          let d1 = d(unat slave := NULL);
                              d2 = d1(16 := d1 16 - 1)
                          in (pdev, s'\<lparr>device_head := (device_head s)(unat major := d2)\<rparr>)))"

definition find_device :: "u32 \<Rightarrow> registry \<Rightarrow> addr" where
  "find_device devnum s =
     (let major = GETMAJOR devnum; slave = GETSLAVE devnum
      in if MAJOR_MAX < major \<or> SLAVE_MAX < slave then NULL
         else device_head s (unat major) (unat slave))"

definition register_driver :: "addr \<Rightarrow> registry \<Rightarrow> cint \<times> registry" where
  "register_driver drv s =
     (if NULL = drv then (INVALID, s)
      else
        let major = dev_major_num (drv_structs s drv)
        in if MAJOR_MAX < major then (INVALID, s)
           else if NULL \<noteq> driver_head s (unat major) then (INVALID, s)
           else (VALID, s\<lparr>driver_head := (driver_head s)(unat major := drv)\<rparr>))"

definition unregister_driver :: "u32 \<Rightarrow> registry \<Rightarrow> addr \<times> registry" where
  "unregister_driver major s =
     (if MAJOR_MAX < major then (NULL, s)
      else (driver_head s (unat major), s\<lparr>driver_head := (driver_head s)(unat major := NULL)\<rparr>))"

definition search_driver :: "u32 \<Rightarrow> registry \<Rightarrow> addr" where
  "search_driver major s = (if MAJOR_MAX < major then NULL else driver_head s (unat major))"

definition find_driver :: "u32 \<Rightarrow> registry \<Rightarrow> addr" where
  "find_driver devnum s = search_driver (GETMAJOR devnum) s"

text \<open>Stubs of the driver loader.\<close>

definition load_driver :: "u32 \<Rightarrow> addr \<Rightarrow> addr" where "load_driver devnum devnodename = NULL"
definition unload_driver :: "u32 \<Rightarrow> cint" where "unload_driver devnum = INVALID"
definition model_startup :: cint where "model_startup = INVALID"

section \<open>Port regions\<close>

text \<open>
  \<^verbatim>\<open>list_load\<close> turns the address of a member back into the address of its struct. The loops apply it
  to \<^verbatim>\<open>&(p->rlst)\<close>, the member of \<^verbatim>\<open>p\<close> itself.
\<close>

definition rlst_of :: "addr \<Rightarrow> addr" where
  "rlst_of p = p + 12"

definition region_of :: "addr \<Rightarrow> addr" where
  "region_of q = q - 12"

definition port_hit :: "u16 \<Rightarrow> u16 \<Rightarrow> ioport_region \<Rightarrow> bool" where
  "port_hit start end r \<longleftrightarrow>
     start \<ge> ior_start r \<and> start \<le> ior_end r \<or> end \<ge> ior_start r \<and> end \<le> ior_end r"

partial_function (option) check_loop :: "u16 \<Rightarrow> u16 \<Rightarrow> addr \<Rightarrow> registry \<Rightarrow> cint option" where
  "check_loop start end p s =
     (if port_hit start end (regions s p) then Some 1
      else let p' = region_of (rlst_of p) in if p' \<noteq> irhead s then check_loop start end p' s else Some 0)"

definition ioport_region_check :: "u16 \<Rightarrow> u16 \<Rightarrow> registry \<Rightarrow> (cint \<times> registry) option" where
  "ioport_region_check start end s =
     (case get_spinlock (irlck s) of
        None \<Rightarrow> None
      | Some l \<Rightarrow>
          let s1 = s\<lparr>irlck := l\<rparr>
          in map_option (\<lambda>r. (r, s1\<lparr>irlck := release_spinlock l\<rparr>))
               (if NULL = irhead s1 then Some 0 else check_loop start end (irhead s1) s1))"

definition ioport_region_register :: "addr \<Rightarrow> registry \<Rightarrow> (cint \<times> registry) option" where
  "ioport_region_register pio s =
     (if NULL = pio then Some (0, s)
      else
        case ioport_region_check (ior_start (regions s pio)) (ior_end (regions s pio)) s of
          None \<Rightarrow> None
        | Some (r, s1) \<Rightarrow>
            if 1 = r then Some (0, s1)
            else
              case get_spinlock (irlck s1) of
                None \<Rightarrow> None
              | Some l \<Rightarrow>
                  let s2 = s1\<lparr>rlinks := list_ini (rlst_of pio) (rlinks s1)\<rparr>;
                      s3 = (if NULL = irhead s2 then s2\<lparr>irhead := pio\<rparr>
                            else s2\<lparr>rlinks := list_inserttail (rlst_of (irhead s2)) (rlst_of pio) (rlinks s2)\<rparr>)
                  in Some (1, s3\<lparr>irlck := release_spinlock l\<rparr>))"

partial_function (option) find_loop :: "u16 \<Rightarrow> u16 \<Rightarrow> addr \<Rightarrow> registry \<Rightarrow> addr option" where
  "find_loop start end p s =
     (if start = ior_start (regions s p) \<and> end = ior_end (regions s p) then Some p
      else let p' = region_of (rlst_of p) in if p' \<noteq> irhead s then find_loop start end p' s else Some NULL)"

text \<open>
  \<^verbatim>\<open>pt\<close> is declared after the jump to \<^verbatim>\<open>out\<close>; the jump is taken only with an empty list, which the
  check before has ruled out.
\<close>

definition ioport_region_unregister :: "u16 \<Rightarrow> u16 \<Rightarrow> registry \<Rightarrow> (addr \<times> registry) option" where
  "ioport_region_unregister start end s =
     (case ioport_region_check start end s of
        None \<Rightarrow> None
      | Some (r, s1) \<Rightarrow>
          if 0 = r then Some (NULL, s1)
          else
            case get_spinlock (irlck s1) of
              None \<Rightarrow> None
            | Some l \<Rightarrow>
                map_option (\<lambda>pt. (pt, s1\<lparr>irlck := release_spinlock l\<rparr>))
                  (if NULL = irhead s1 then Some NULL else find_loop start end (irhead s1) s1))"

section \<open>Registration tables\<close>

text \<open>
  The contract of a table of struct addresses: a struct names its own key, a free key takes it, a taken
  key refuses it, and removal frees the key. It is enough to simulate every sequence of operations
  by the same sequence on a plain function from keys to addresses.
\<close>

datatype 'k tab_op = Put addr | Del 'k

fun tab_run :: "(addr \<Rightarrow> 's \<Rightarrow> cint \<times> 's) \<Rightarrow> ('k \<Rightarrow> 's \<Rightarrow> addr \<times> 's) \<Rightarrow> 'k tab_op list \<Rightarrow> 's \<Rightarrow> 's" where
  "tab_run put del [] s = s"
| "tab_run put del (Put v # ops) s = tab_run put del ops (snd (put v s))"
| "tab_run put del (Del k # ops) s = tab_run put del ops (snd (del k s))"

fun tab_spec :: "(addr \<Rightarrow> 'k) \<Rightarrow> 'k tab_op list \<Rightarrow> ('k \<Rightarrow> addr) \<Rightarrow> 'k \<Rightarrow> addr" where
  "tab_spec key [] f = f"
| "tab_spec key (Put v # ops) f = tab_spec key ops (if f (key v) = NULL then f(key v := v) else f)"
| "tab_spec key (Del k # ops) f = tab_spec key ops (f(k := NULL))"

fun tab_valid :: "('k \<Rightarrow> bool) \<Rightarrow> (addr \<Rightarrow> 'k) \<Rightarrow> 'k tab_op \<Rightarrow> bool" where
  "tab_valid valid key (Put v) \<longleftrightarrow> v \<noteq> NULL \<and> valid (key v)"
| "tab_valid valid key (Del k) \<longleftrightarrow> valid k"

locale slot_table =
  fixes ok :: "'s \<Rightarrow> bool"
    and valid :: "'k \<Rightarrow> bool"
    and key :: "'s \<Rightarrow> addr \<Rightarrow> 'k"
    and find :: "'k \<Rightarrow> 's \<Rightarrow> addr"
    and put :: "addr \<Rightarrow> 's \<Rightarrow> cint \<times> 's"
    and del :: "'k \<Rightarrow> 's \<Rightarrow> addr \<times> 's"
  assumes put_keeps: "ok s \<Longrightarrow> ok (snd (put v s)) \<and> key (snd (put v s)) = key s"
    and del_keeps: "ok s \<Longrightarrow> ok (snd (del k s)) \<and> key (snd (del k s)) = key s"
    and put_find: "ok s \<Longrightarrow> v \<noteq> NULL \<Longrightarrow> valid (key s v) \<Longrightarrow> valid j \<Longrightarrow>
      find j (snd (put v s)) = (if j = key s v \<and> find j s = NULL then v else find j s)"
    and put_result: "ok s \<Longrightarrow> v \<noteq> NULL \<Longrightarrow> valid (key s v) \<Longrightarrow>
      fst (put v s) = (if find (key s v) s = NULL then VALID else INVALID)"
    and del_find: "ok s \<Longrightarrow> valid k \<Longrightarrow> valid j \<Longrightarrow>
      fst (del k s) = find k s \<and> find j (snd (del k s)) = (if j = k then NULL else find j s)"
begin

lemma run_refines:
  assumes "ok s" and "\<forall>j. valid j \<longrightarrow> find j s = f j" and "\<forall>op \<in> set ops. tab_valid valid (key s) op" and "valid j"
  shows "find j (tab_run put del ops s) = tab_spec (key s) ops f j"
  using assms
proof (induction ops arbitrary: s f)
  case (Cons op ops)
  show ?case
  proof (cases op)
    case (Put v)
    have v: "v \<noteq> NULL" "valid (key s v)" using Cons.prems(3) Put by auto
    let ?f = "if f (key s v) = NULL then f(key s v := v) else f"
    have "\<forall>j. valid j \<longrightarrow> find j (snd (put v s)) = ?f j"
      using put_find [OF Cons.prems(1) v] Cons.prems(2) v(2) by auto
    with Cons.IH [of "snd (put v s)" ?f] put_keeps [OF Cons.prems(1)] Cons.prems(3,4) show ?thesis
      by (simp add: Put)
  next
    case (Del k)
    have "\<forall>j. valid j \<longrightarrow> find j (snd (del k s)) = (f(k := NULL)) j"
      using del_find [OF Cons.prems(1), of k] Cons.prems(2,3) Del by auto
    with Cons.IH [of "snd (del k s)" "f(k := NULL)"] del_keeps [OF Cons.prems(1)] Cons.prems(3,4) show ?thesis
      by (simp add: Del fun_upd_def)
  qed
qed simp

lemma put_then_del:
  assumes "ok s" and "v \<noteq> NULL" and "valid (key s v)" and "find (key s v) s = NULL" and "valid j"
  shows "fst (del (key s v) (snd (put v s))) = v \<and> find j (snd (del (key s v) (snd (put v s)))) = find j s"
  using del_find [of "snd (put v s)" "key s v" j] put_keeps [OF assms(1), of v] put_find [OF assms(1-3)] assms
  by auto

end

section \<open>Devices and drivers are tables\<close>

definition device_put :: "addr \<Rightarrow> registry \<Rightarrow> cint \<times> registry" where
  "device_put v s = (case register_device v s of None \<Rightarrow> (INVALID, s) | Some r \<Rightarrow> r)"

definition device_del :: "u32 \<Rightarrow> registry \<Rightarrow> addr \<times> registry" where
  "device_del k s = (case unregister_device k s of None \<Rightarrow> (NULL, s) | Some r \<Rightarrow> r)"

definition device_key :: "registry \<Rightarrow> addr \<Rightarrow> u32" where
  "device_key s v = dev_num (dev_structs s v)"

definition device_valid :: "u32 \<Rightarrow> bool" where
  "device_valid k \<longleftrightarrow> GETMAJOR k \<le> MAJOR_MAX \<and> GETSLAVE k < SLAVE_MAX"

definition device_ok :: "registry \<Rightarrow> bool" where
  "device_ok s \<longleftrightarrow> lck_device s = unlocked"

lemma devnum_eqI: "GETMAJOR a = GETMAJOR b \<Longrightarrow> GETSLAVE a = GETSLAVE b \<Longrightarrow> a = b"
proof -
  have s: "(0x000FFFFF :: u32) = mask 20" by (simp add: mask_eq_exp_minus_1)
  have "push_bit 20 (drop_bit 20 x) OR (x AND mask 20) = x" for x :: u32
    by (rule bit_word_eqI) (auto simp: bit_simps)
  then show "GETMAJOR a = GETMAJOR b \<Longrightarrow> GETSLAVE a = GETSLAVE b \<Longrightarrow> a = b"
    unfolding GETMAJOR_def GETSLAVE_def s by metis
qed

lemma slave_index: "device_valid j \<Longrightarrow> unat (GETSLAVE j) \<noteq> 16"
  by (auto simp: device_valid_def SLAVE_MAX_def word_less_nat_alt)

interpretation devices: slot_table device_ok device_valid device_key find_device device_put device_del
proof
  fix s v j k
  assume ok: "device_ok s"
  then have l: "get_spinlock (lck_device s) = Some (spinlock unlocked)" by (simp add: device_ok_def)
  show "device_ok (snd (device_put v s)) \<and> device_key (snd (device_put v s)) = device_key s"
    using ok l by (auto simp: device_put_def register_device_def Let_def device_ok_def device_key_def fun_eq_iff)
  show "device_ok (snd (device_del k s)) \<and> device_key (snd (device_del k s)) = device_key s"
    using ok l by (auto simp: device_del_def unregister_device_def Let_def device_ok_def device_key_def fun_eq_iff)
  show "find_device j (snd (device_put v s)) =
      (if j = device_key s v \<and> find_device j s = NULL then v else find_device j s)"
    if "v \<noteq> NULL" "device_valid (device_key s v)" "device_valid j"
  proof (cases "j = device_key s v")
    case True
    with that l slave_index [of j] show ?thesis
      by (auto simp: device_put_def register_device_def Let_def device_key_def find_device_def device_valid_def)
  next
    case False
    then have "unat (GETMAJOR j) \<noteq> unat (GETMAJOR (device_key s v)) \<or> unat (GETSLAVE j) \<noteq> unat (GETSLAVE (device_key s v))"
      using devnum_eqI by (metis word_unat_eq_iff)
    with False that l slave_index [of j] show ?thesis
      by (auto simp: device_put_def register_device_def Let_def device_key_def find_device_def)
  qed
  show "fst (device_put v s) = (if find_device (device_key s v) s = NULL then VALID else INVALID)"
    if "v \<noteq> NULL" "device_valid (device_key s v)"
    using that l
    by (auto simp: device_put_def register_device_def Let_def device_key_def find_device_def device_valid_def)
  show "fst (device_del k s) = find_device k s \<and>
      find_device j (snd (device_del k s)) = (if j = k then NULL else find_device j s)"
    if "device_valid k" "device_valid j"
  proof (cases "j = k")
    case True
    with that l slave_index [of j] show ?thesis
      by (auto simp: device_del_def unregister_device_def Let_def find_device_def device_valid_def)
  next
    case False
    then have "unat (GETMAJOR j) \<noteq> unat (GETMAJOR k) \<or> unat (GETSLAVE j) \<noteq> unat (GETSLAVE k)"
      using devnum_eqI by (metis word_unat_eq_iff)
    with False that l slave_index [of j] show ?thesis
      by (auto simp: device_del_def unregister_device_def Let_def find_device_def device_valid_def)
  qed
qed

interpretation drivers: slot_table "\<lambda>_. True" "\<lambda>k. k \<le> MAJOR_MAX" "\<lambda>s v. dev_major_num (drv_structs s v)"
  search_driver register_driver unregister_driver
proof
  fix s v j k
  show "True \<and> (\<lambda>w. dev_major_num (drv_structs (snd (register_driver v s)) w)) = (\<lambda>w. dev_major_num (drv_structs s w))"
    by (simp add: register_driver_def Let_def)
  show "True \<and> (\<lambda>w. dev_major_num (drv_structs (snd (unregister_driver k s)) w)) = (\<lambda>w. dev_major_num (drv_structs s w))"
    by (simp add: unregister_driver_def)
  show "search_driver j (snd (register_driver v s)) =
      (if j = dev_major_num (drv_structs s v) \<and> search_driver j s = NULL then v else search_driver j s)"
    if "v \<noteq> NULL" "dev_major_num (drv_structs s v) \<le> MAJOR_MAX" "j \<le> MAJOR_MAX"
    using that by (auto simp: register_driver_def Let_def search_driver_def word_unat_eq_iff)
  show "fst (register_driver v s) = (if search_driver (dev_major_num (drv_structs s v)) s = NULL then VALID else INVALID)"
    if "v \<noteq> NULL" "dev_major_num (drv_structs s v) \<le> MAJOR_MAX"
    using that by (auto simp: register_driver_def Let_def search_driver_def)
  show "fst (unregister_driver k s) = search_driver k s \<and>
      search_driver j (snd (unregister_driver k s)) = (if j = k then NULL else search_driver j s)"
    if "k \<le> MAJOR_MAX" "j \<le> MAJOR_MAX"
    using that by (auto simp: unregister_driver_def search_driver_def word_unat_eq_iff)
qed


text \<open>C26: Any sequence of registrations and removals of devices with slave numbers below 16 behaves as
  updates of a finite map.\<close>

theorem device_table_refines:
  assumes "device_ok s" and "\<forall>op \<in> set ops. tab_valid device_valid (device_key s) op" and "device_valid j"
  shows "find_device j (tab_run device_put device_del ops s) =
    tab_spec (device_key s) ops (\<lambda>k. find_device k s) j"
  using devices.run_refines [OF assms(1) _ assms(2,3)] by simp

text \<open>The driver table behaves as a map.\<close>

theorem driver_table_refines:
  assumes "\<forall>op \<in> set ops. tab_valid (\<lambda>k. k \<le> MAJOR_MAX) (\<lambda>v. dev_major_num (drv_structs s v)) op"
    and "j \<le> MAJOR_MAX"
  shows "search_driver j (tab_run register_driver unregister_driver ops s) =
    tab_spec (\<lambda>v. dev_major_num (drv_structs s v)) ops (\<lambda>k. search_driver k s) j"
  using drivers.run_refines [OF _ _ assms] by simp

text \<open>Slave number 16 passes the check of register_device and its slot is the counter of the device table.\<close>

theorem register_slave16_overwrites_count:
  assumes "lck_device s = unlocked" and "dev \<noteq> NULL" and "GETMAJOR (dev_num (dev_structs s dev)) \<le> MAJOR_MAX"
    and "GETSLAVE (dev_num (dev_structs s dev)) = 16"
    and "dev_cnt (device_head s (unat (GETMAJOR (dev_num (dev_structs s dev))))) = 0"
  shows "\<exists>s'. register_device dev s = Some (VALID, s') \<and>
    dev_cnt (device_head s' (unat (GETMAJOR (dev_num (dev_structs s dev))))) = dev"
  using assms by (auto simp: register_device_def Let_def SLAVE_MAX_def dev_cnt_def not_less)

section \<open>Port regions\<close>

lemma region_rlst [simp]: "region_of (rlst_of p) = p"
  by (simp add: region_of_def rlst_of_def)

lemma check_loop_head: "irhead s = p \<Longrightarrow> check_loop a b p s = Some (if port_hit a b (regions s p) then 1 else 0)"
  by (subst check_loop.simps) auto

lemma ioport_check_head:
  assumes "irlck s = unlocked"
  shows "ioport_region_check a b s =
    Some (if irhead s \<noteq> NULL \<and> port_hit a b (regions s (irhead s)) then 1 else 0, s)"
proof -
  have "s\<lparr>irlck := unlocked\<rparr> = s" using assms by (cases s) simp
  then show ?thesis using assms by (auto simp: ioport_region_check_def Let_def check_loop_head)
qed

text \<open>ioport_region_register refuses a region only when one of its ends lies in the first registered
  region, and appends it otherwise.\<close>

theorem ioport_register_head_only:
  assumes "irlck s = unlocked" and "pio \<noteq> NULL" and "irhead s \<noteq> NULL"
    and "ring (rlinks s) (rlst_of (irhead s)) (map rlst_of rs)" and "pio \<notin> set (irhead s # rs)"
  shows "\<exists>s'. ioport_region_register pio s =
      Some (if port_hit (ior_start (regions s pio)) (ior_end (regions s pio)) (regions s (irhead s)) then 0 else 1, s') \<and>
    (if port_hit (ior_start (regions s pio)) (ior_end (regions s pio)) (regions s (irhead s)) then s' = s
     else irhead s' = irhead s \<and> irlck s' = unlocked \<and>
       ring (rlinks s') (rlst_of (irhead s)) (map rlst_of (rs @ [pio])))"
proof -
  have inj: "rlst_of x = rlst_of y \<longleftrightarrow> x = y" for x y by (simp add: rlst_of_def)
  have fresh: "rlst_of pio \<notin> set (rlst_of (irhead s) # map rlst_of rs)"
    using assms(5) by (auto simp: inj)
  have "ring (list_ini (rlst_of pio) (rlinks s)) (rlst_of (irhead s)) (map rlst_of rs)"
    using assms(4) fresh unfolding ring_def
    by (subst path_cong [of _ _ "list_ini (rlst_of pio) (rlinks s)" "rlinks s"]) auto
  from list_h.append_ring [OF this fresh] show ?thesis
    using assms(1-3) by (auto simp: ioport_region_register_def ioport_check_head Let_def)
qed

section \<open>Witnesses\<close>

definition demo_registry :: registry where
  "demo_registry = \<lparr>fs_table = (\<lambda>_. 0), device_head = (\<lambda>_ _. 0), lck_device = unlocked, driver_head = (\<lambda>_. 0),
     irhead = 0x100, irlck = unlocked,
     fs_structs = (\<lambda>_. \<lparr>fs_id = 1, fs_name = 0, fs_f_op = 0, fs_d_op = 0\<rparr>),
     dev_structs = (\<lambda>p. \<lparr>dev_num = (if p = 0x40 then 0x500001 else 0x500010), dev_name = 0\<rparr>),
     drv_structs = (\<lambda>_. \<lparr>dev_major_num = 5, drv_f_op = 0, drv_d_op = 0\<rparr>),
     regions = (\<lambda>p. if p = 0x100 then \<lparr>ior_start = 0x60, ior_end = 0x64, ior_cnt = 5, ior_pmdl = 0\<rparr>
                    else \<lparr>ior_start = 0x50, ior_end = 0x70, ior_cnt = 33, ior_pmdl = 0\<rparr>),
     rlinks = list_ini 0x10C (\<lambda>_. \<lparr>nxt = 0, pre = 0\<rparr>)\<rparr>"

theorem device_table_refines_witness:
  "find_device 0x500001 (tab_run device_put device_del [Put 0x40, Del 0x500001, Put 0x40] demo_registry) =
    tab_spec (device_key demo_registry) [Put 0x40, Del 0x500001, Put 0x40] (\<lambda>k. find_device k demo_registry) 0x500001"
  by (rule device_table_refines)
    (simp_all add: device_ok_def device_valid_def device_key_def demo_registry_def GETMAJOR_def GETSLAVE_def
      MAJOR_MAX_def SLAVE_MAX_def)

theorem driver_table_refines_witness:
  "search_driver 5 (tab_run register_driver unregister_driver [Put 0x80, Put 0x90] demo_registry) =
    tab_spec (\<lambda>v. dev_major_num (drv_structs demo_registry v)) [Put 0x80, Put 0x90]
      (\<lambda>k. search_driver k demo_registry) 5"
  by (rule driver_table_refines) (simp_all add: demo_registry_def MAJOR_MAX_def)

theorem register_slave16_overwrites_count_witness:
  "\<exists>s'. register_device 0x44 demo_registry = Some (VALID, s') \<and>
    dev_cnt (device_head s' (unat (GETMAJOR (dev_num (dev_structs demo_registry 0x44))))) = 0x44"
  by (rule register_slave16_overwrites_count)
    (simp_all add: demo_registry_def GETMAJOR_def GETSLAVE_def MAJOR_MAX_def dev_cnt_def)

theorem ioport_register_head_only_witness:
  "\<exists>s'. ioport_region_register 0x200 demo_registry =
      Some (if port_hit (ior_start (regions demo_registry 0x200)) (ior_end (regions demo_registry 0x200))
              (regions demo_registry (irhead demo_registry)) then 0 else 1, s') \<and>
    (if port_hit (ior_start (regions demo_registry 0x200)) (ior_end (regions demo_registry 0x200))
          (regions demo_registry (irhead demo_registry)) then s' = demo_registry
     else irhead s' = irhead demo_registry \<and> irlck s' = unlocked \<and>
       ring (rlinks s') (rlst_of (irhead demo_registry)) (map rlst_of ([] @ [0x200])))"
  by (rule ioport_register_head_only) (simp_all add: demo_registry_def ring_def rlst_of_def)

end
