(* ===== verification/Kcache.thy ===== *)
theory Kcache
  imports Bits StringLib Kmalloc Slots Lock
begin

text \<open>
  The object caches of \<^verbatim>\<open>kernel/cache.c\<close>: a bit map followed by a pool of equal blocks, both in one
  allocation. A division by a zero block size, a call through a null function pointer and a spin on
  a lock that is held are the value \<^const>\<open>None\<close>. The three caches \<^verbatim>\<open>cdir\<close>, \<^verbatim>\<open>cinode\<close> and \<^verbatim>\<open>cfile\<close> and
  the functions the \<^verbatim>\<open>CACHE_CREATOR\<close> macros generate for them follow the generic operations.
\<close>

unbundle bit_operations_syntax

section \<open>Operations\<close>

type_synonym cache_malloc = "u32 \<Rightarrow> kstate \<Rightarrow> addr \<times> kstate"
type_synonym cache_free = "addr \<Rightarrow> kstate \<Rightarrow> kstate"

record kcache_struct =
  c_chm :: "cache_malloc option"
  c_chf :: "cache_free option"
  c_csize :: u32
  c_psize :: u32
  c_bsize :: u32
  c_bcnt :: u32
  c_avaliable :: u32
  c_bmaplck :: spin_lock
  c_bmap :: addr
  c_bpool :: addr

text \<open>The all-zero struct, which \<^verbatim>\<open>memset\<close> leaves: null function pointers, an open lock.\<close>

definition zero_cache :: kcache_struct where
  "zero_cache = \<lparr>c_chm = None, c_chf = None, c_csize = 0, c_psize = 0, c_bsize = 0, c_bcnt = 0,
     c_avaliable = 0, c_bmaplck = unlocked, c_bmap = 0, c_bpool = 0\<rparr>"

definition kcache_create ::
    "u32 \<Rightarrow> u32 \<Rightarrow> cache_malloc \<Rightarrow> cache_free \<Rightarrow> kstate \<Rightarrow> (kcache_struct \<times> kstate) option" where
  "kcache_create cpsize cbsize cm cf s =
     (if cbsize = 0 then None
      else
        let bcnt = cpsize div cbsize;
            bmapsize = bcnt div 8 + (if 0 = bcnt mod 8 then 0 else 1);
            (p, s1) = cm (bmapsize + cpsize) s
        in Some (zero_cache\<lparr>c_csize := bmapsize + cpsize, c_psize := cpsize, c_bsize := cbsize,
                   c_bcnt := bcnt, c_avaliable := bcnt, c_bmaplck := spinlock_init unlocked,
                   c_bmap := p, c_bpool := p + bmapsize\<rparr>, s1))"

definition kcache_destroy :: "kcache_struct \<Rightarrow> kstate \<Rightarrow> (kcache_struct \<times> kstate) option" where
  "kcache_destroy pcs s =
     (case c_chf pcs of None \<Rightarrow> None | Some f \<Rightarrow> Some (zero_cache, f (c_bmap pcs) s))"

function kcache_scan :: "u32 \<Rightarrow> kcache_struct \<Rightarrow> mem \<Rightarrow> addr \<times> mem" where
  "kcache_scan i pcs m =
     (if i < c_bcnt pcs
      then if 0 = bitread i (c_bmap pcs) m
           then (c_bpool pcs + i * c_bsize pcs, bitset i (c_bmap pcs) m)
           else kcache_scan (i + 1) pcs m
      else (NULL, m))"
  by pat_completeness auto
termination
  by (relation "measure (\<lambda>(i, pcs, m). unat (c_bcnt pcs) - unat i)")
    (auto simp: unat_inc word_less_nat_alt)

declare kcache_scan.simps [simp del]

definition kcache_malloc :: "kcache_struct \<Rightarrow> mem \<Rightarrow> (addr \<times> kcache_struct \<times> mem) option" where
  "kcache_malloc pcs m =
     (if 0 = c_avaliable pcs then Some (NULL, pcs, m)
      else case get_spinlock (c_bmaplck pcs) of
             None \<Rightarrow> None
           | Some l \<Rightarrow>
               (let (p, m') = kcache_scan 0 pcs m
                in Some (p, pcs\<lparr>c_bmaplck := release_spinlock l\<rparr>, m')))"

definition kcache_free :: "kcache_struct \<Rightarrow> addr \<Rightarrow> mem \<Rightarrow> (kcache_struct \<times> mem) option" where
  "kcache_free pcs ptr m =
     (if c_bsize pcs = 0 then None
      else
        let i = (ptr - c_bpool pcs) div c_bsize pcs
        in case get_spinlock (c_bmaplck pcs) of
             None \<Rightarrow> None
           | Some l \<Rightarrow> Some (pcs\<lparr>c_bmaplck := release_spinlock l\<rparr>, snd (test1andset i (c_bmap pcs) m)))"

text \<open>
  The caches of directories, inodes and open files. The sizes are those of the structs of
  \<^verbatim>\<open>include/kernel/kmodel.h\<close> on the i386 target.
\<close>

definition sizeof_dir :: u32 where [code_defs]: "sizeof_dir = 96"
definition sizeof_inode :: u32 where [code_defs]: "sizeof_inode = 88"
definition sizeof_file :: u32 where [code_defs]: "sizeof_file = 28"

record caches =
  cdir :: kcache_struct
  cinode :: kcache_struct
  cfile :: kcache_struct

definition cache_init :: "kstate \<Rightarrow> (caches \<times> kstate) option" where
  "cache_init s =
     (case kcache_create (64 * sizeof_dir) sizeof_dir kmalloc kfree s of
        None \<Rightarrow> None
      | Some (d, s1) \<Rightarrow>
          (case kcache_create (64 * sizeof_inode) sizeof_inode kmalloc kfree s1 of
             None \<Rightarrow> None
           | Some (i, s2) \<Rightarrow>
               (case kcache_create (64 * sizeof_file) sizeof_file kmalloc kfree s2 of
                  None \<Rightarrow> None
                | Some (f, s3) \<Rightarrow> Some (\<lparr>cdir = d, cinode = i, cfile = f\<rparr>, s3))))"

definition dir_cache_alloc :: "caches \<Rightarrow> mem \<Rightarrow> (addr \<times> caches \<times> mem) option" where
  "dir_cache_alloc cs m =
     map_option (\<lambda>(p, c, m'). (p, cs\<lparr>cdir := c\<rparr>, m')) (kcache_malloc (cdir cs) m)"

definition inode_cache_alloc :: "caches \<Rightarrow> mem \<Rightarrow> (addr \<times> caches \<times> mem) option" where
  "inode_cache_alloc cs m =
     map_option (\<lambda>(p, c, m'). (p, cs\<lparr>cinode := c\<rparr>, m')) (kcache_malloc (cinode cs) m)"

definition file_cache_alloc :: "caches \<Rightarrow> mem \<Rightarrow> (addr \<times> caches \<times> mem) option" where
  "file_cache_alloc cs m =
     map_option (\<lambda>(p, c, m'). (p, cs\<lparr>cfile := c\<rparr>, m')) (kcache_malloc (cfile cs) m)"

definition dir_cache_free :: "addr \<Rightarrow> caches \<Rightarrow> mem \<Rightarrow> (caches \<times> mem) option" where
  "dir_cache_free p cs m = map_option (\<lambda>(c, m'). (cs\<lparr>cdir := c\<rparr>, m')) (kcache_free (cdir cs) p m)"

definition inode_cache_free :: "addr \<Rightarrow> caches \<Rightarrow> mem \<Rightarrow> (caches \<times> mem) option" where
  "inode_cache_free p cs m =
     map_option (\<lambda>(c, m'). (cs\<lparr>cinode := c\<rparr>, m')) (kcache_free (cinode cs) p m)"

definition file_cache_free :: "addr \<Rightarrow> caches \<Rightarrow> mem \<Rightarrow> (caches \<times> mem) option" where
  "file_cache_free p cs m = map_option (\<lambda>(c, m'). (cs\<lparr>cfile := c\<rparr>, m')) (kcache_free (cfile cs) p m)"

section \<open>Well-formed caches\<close>

text \<open>
  The lock is open, the count of available blocks is the count of blocks (no operation changes it),
  blocks have a size, and bit map and pool lie one after the other in the address
  space without wrapping.
\<close>

definition map_size :: "u32 \<Rightarrow> nat" where
  "map_size n = unat n div 8 + (if unat n mod 8 = 0 then 0 else 1)"

definition cache_ok :: "kcache_struct \<Rightarrow> bool" where
  "cache_ok c \<longleftrightarrow> c_bmaplck c = unlocked \<and> c_avaliable c = c_bcnt c \<and> c_bsize c \<noteq> 0 \<and> 0 < unat (c_bmap c) \<and>
     unat (c_bpool c) = unat (c_bmap c) + map_size (c_bcnt c) \<and>
     unat (c_bpool c) + unat (c_bcnt c) * unat (c_bsize c) < 4294967296"

definition block :: "kcache_struct \<Rightarrow> u32 \<Rightarrow> addr" where
  "block c i = c_bpool c + i * c_bsize c"

lemma block_nat:
  assumes "cache_ok c" and "i < c_bcnt c"
  shows "unat (block c i) = unat (c_bpool c) + unat i * unat (c_bsize c)"
    and "unat (block c i) + unat (c_bsize c) \<le> unat (c_bpool c) + unat (c_bcnt c) * unat (c_bsize c)"
    and "block c i \<noteq> NULL"
    and "(block c i - c_bpool c) div c_bsize c = i"
proof -
  have i: "unat i + 1 \<le> unat (c_bcnt c)" using assms(2) by (simp add: word_less_nat_alt)
  then have le: "unat i * unat (c_bsize c) + unat (c_bsize c) \<le> unat (c_bcnt c) * unat (c_bsize c)"
    using mult_le_mono1 [OF i, of "unat (c_bsize c)"] by simp
  then have m: "unat (i * c_bsize c) = unat i * unat (c_bsize c)"
    using assms(1) by (simp add: cache_ok_def unat_word_ariths)
  show u: "unat (block c i) = unat (c_bpool c) + unat i * unat (c_bsize c)"
    unfolding block_def using m le assms(1) by (simp add: cache_ok_def unat_word_ariths)
  with le show "unat (block c i) + unat (c_bsize c) \<le> unat (c_bpool c) + unat (c_bcnt c) * unat (c_bsize c)"
    by simp
  show "block c i \<noteq> NULL" using u assms(1) by (auto simp: cache_ok_def word_unat_eq_iff)
  have "unat (c_bsize c) \<noteq> 0" using assms(1) by (simp add: cache_ok_def word_unat_eq_iff)
  then have "unat (i * c_bsize c div c_bsize c) = unat i" unfolding unat_div m by simp
  then show "(block c i - c_bpool c) div c_bsize c = i" by (simp add: block_def word_unat_eq_iff)
qed

lemma block_inj: "cache_ok c \<Longrightarrow> i < c_bcnt c \<Longrightarrow> j < c_bcnt c \<Longrightarrow> block c i = block c j \<Longrightarrow> i = j"
  by (metis block_nat(4))

lemma blocks_disjoint:
  assumes "cache_ok c" and "i < c_bcnt c" and "j < c_bcnt c" and "i < j"
  shows "unat (block c i) + unat (c_bsize c) \<le> unat (block c j)"
proof -
  have "unat i + 1 \<le> unat j" using assms(4) by (simp add: word_less_nat_alt)
  from mult_le_mono1 [OF this, of "unat (c_bsize c)"] show ?thesis
    using block_nat(1) [OF assms(1,2)] block_nat(1) [OF assms(1,3)] by simp
qed

lemma kcache_scan_cases:
  assumes "kcache_scan i c m = (p, m')"
  shows "p = NULL \<and> m' = m \<and> (\<forall>j. i \<le> j \<and> j < c_bcnt c \<longrightarrow> \<not> tail_clear (c_bmap c) m j) \<or>
    (\<exists>k. i \<le> k \<and> k < c_bcnt c \<and> tail_clear (c_bmap c) m k \<and> p = block c k \<and> m' = bitset k (c_bmap c) m \<and>
       (\<forall>j. i \<le> j \<and> j < k \<longrightarrow> \<not> tail_clear (c_bmap c) m j))"
  using assms
proof (induction i c m arbitrary: p m' rule: kcache_scan.induct)
  case (1 i c m)
  have eq: "0 = bitread i (c_bmap c) m \<longleftrightarrow> tail_clear (c_bmap c) m i"
    by (auto simp: tail_clear_def simp flip: bitread_eq_0_iff)
  show ?case
  proof (cases "i < c_bcnt c \<and> \<not> tail_clear (c_bmap c) m i")
    case True
    have step: "i \<le> j \<longleftrightarrow> j = i \<or> i + 1 \<le> j" for j
      using True unat_inc [of i "c_bcnt c"] by (auto simp: word_le_nat_alt word_unat_eq_iff)
    from "1.prems" True eq have l: "kcache_scan (i + 1) c m = (p, m')"
      by (simp add: kcache_scan.simps [of i])
    have "p = NULL \<and> m' = m \<and> (\<forall>j. i + 1 \<le> j \<and> j < c_bcnt c \<longrightarrow> \<not> tail_clear (c_bmap c) m j) \<or>
      (\<exists>k. i + 1 \<le> k \<and> k < c_bcnt c \<and> tail_clear (c_bmap c) m k \<and> p = block c k \<and> m' = bitset k (c_bmap c) m \<and>
       (\<forall>j. i + 1 \<le> j \<and> j < k \<longrightarrow> \<not> tail_clear (c_bmap c) m j))"
      using "1.IH" [OF _ _ l] True eq by blast
    then show ?thesis using True by (auto simp: step)
  next
    case False
    then show ?thesis using "1.prems" eq
      by (auto simp: kcache_scan.simps [of i] block_def split: if_splits dest: order.strict_trans1)
  qed
qed

section \<open>Blocks are owned exclusively\<close>

definition cache_alloc :: "kcache_struct \<times> mem \<Rightarrow> addr option \<times> kcache_struct \<times> mem" where
  "cache_alloc s =
     (case kcache_malloc (fst s) (snd s) of
        None \<Rightarrow> (None, s)
      | Some (p, s') \<Rightarrow> (if p = NULL then None else Some p, s'))"

definition cache_release :: "addr \<Rightarrow> kcache_struct \<times> mem \<Rightarrow> kcache_struct \<times> mem" where
  "cache_release p s = (case kcache_free (fst s) p (snd s) of None \<Rightarrow> s | Some s' \<Rightarrow> s')"

definition cache_used :: "kcache_struct \<times> mem \<Rightarrow> addr set" where
  "cache_used s = {block (fst s) i | i. i < c_bcnt (fst s) \<and> bit_at (c_bmap (fst s)) (snd s) i}"

lemma cache_alloc_cases:
  assumes "cache_ok (fst s)" and "cache_alloc s = (r, s')"
  shows "r = None \<and> s' = s \<or>
    (\<exists>k. k < c_bcnt (fst s) \<and> tail_clear (c_bmap (fst s)) (snd s) k \<and> r = Some (block (fst s) k) \<and>
       s' = (fst s, bitset k (c_bmap (fst s)) (snd s)))"
proof -
  obtain c m where s: "s = (c, m)" by fastforce
  obtain p m' where p: "kcache_scan 0 c m = (p, m')" by fastforce
  have "c_bmaplck c = unlocked" using assms(1) s by (simp add: cache_ok_def)
  moreover from this have "c\<lparr>c_bmaplck := unlocked\<rparr> = c" by (cases c) simp
  ultimately show ?thesis
    using kcache_scan_cases [OF p] assms p block_nat(3) [of c]
    by (auto simp: s cache_alloc_def kcache_malloc_def split: if_splits)
qed

lemma cache_release_cases:
  assumes "cache_ok (fst s)" and "i < c_bcnt (fst s)"
  shows "cache_release (block (fst s) i) s = (fst s, snd (test1andset i (c_bmap (fst s)) (snd s)))"
proof -
  obtain c m where s: "s = (c, m)" by fastforce
  have "c_bmaplck c = unlocked" using assms(1) s by (simp add: cache_ok_def)
  moreover from this have "c\<lparr>c_bmaplck := unlocked\<rparr> = c" by (cases c) simp
  ultimately show ?thesis
    using assms block_nat(4) [of c i]
    by (auto simp: s cache_release_def kcache_free_def cache_ok_def)
qed

interpretation caches: slot_alloc "\<lambda>s. cache_ok (fst s)" cache_used cache_alloc cache_release
proof
  fix s s'
  assume "cache_ok (fst s)" "cache_alloc s = (None, s')"
  from cache_alloc_cases [OF this] show "cache_ok (fst s') \<and> cache_used s' = cache_used s"
    using \<open>cache_ok (fst s)\<close> by auto
next
  fix s i s'
  assume ok: "cache_ok (fst s)" and a: "cache_alloc s = (Some i, s')"
  from cache_alloc_cases [OF this] obtain k where k: "k < c_bcnt (fst s)" "tail_clear (c_bmap (fst s)) (snd s) k"
    "i = block (fst s) k" "s' = (fst s, bitset k (c_bmap (fst s)) (snd s))" by blast
  then show "cache_ok (fst s') \<and> i \<notin> cache_used s \<and> cache_used s' = insert i (cache_used s)"
    using ok block_inj [OF ok k(1)] by (auto simp: cache_used_def tail_clear_def)
next
  fix s i
  assume ok: "cache_ok (fst s)" and i: "i \<in> cache_used s"
  from i obtain k where k: "k < c_bcnt (fst s)" "i = block (fst s) k" by (auto simp: cache_used_def)
  note r = cache_release_cases [OF ok k(1)]
  show "cache_ok (fst (cache_release i s)) \<and> cache_used (cache_release i s) \<subseteq> cache_used s"
    using ok unfolding k(2) r by (auto simp: cache_used_def test1andset_cases)
  show "cache_used s - {i} \<subseteq> cache_used (cache_release i s)"
    unfolding k(2) r by (auto simp: cache_used_def test1andset_cases)
qed


text \<open>C12: However a cache is used, the block kcache_malloc returns does not overlap any block that is
  held.\<close>

theorem cache_ownership:
  assumes "cache_ok c" and "slot_run cache_alloc cache_release (c, m) {} ops = Some ((c', m'), held, given)"
    and "cache_alloc (c', m') = (Some p, t)" and "q \<in> held"
  shows "unat p + unat (c_bsize c') \<le> unat q \<or> unat q + unat (c_bsize c') \<le> unat p"
proof -
  have ok: "cache_ok c'" and h: "held \<subseteq> cache_used (c', m')"
    using caches.run_inv [OF assms(2)] assms(1) by simp_all
  have pq: "p \<noteq> q" using caches.alloc_not_held [OF assms(2) _ _ assms(3)] assms(1,4) by auto
  from cache_alloc_cases [OF _ assms(3)] ok obtain k where k: "k < c_bcnt c'" "p = block c' k" by auto
  from h assms(4) obtain j where j: "j < c_bcnt c'" "q = block c' j" by (auto simp: cache_used_def)
  from pq k j have "k \<noteq> j" by auto
  then have "k < j \<or> j < k" by (simp add: neq_iff)
  then show ?thesis using blocks_disjoint [OF ok] k j by blast
qed

lemma bitclean_bitset: "\<not> bit_at buf m i \<Longrightarrow> bitclean i buf (bitset i buf m) = m"
proof (rule ext)
  fix a assume n: "\<not> bit_at buf m i"
  have "(m (buf + i div 8) OR 2 ^ unat (i mod 8)) AND NOT (2 ^ unat (i mod 8)) = m (buf + i div 8)"
    using n by (intro bit_word_eqI) (auto simp: bit_at_def bit_simps)
  then show "bitclean i buf (bitset i buf m) a = m a" by (simp add: bitclean_def bitset_def)
qed

lemma kcache_malloc_scan:
  assumes "cache_ok c" and "c_bcnt c \<noteq> 0"
  shows "kcache_malloc c m = (case kcache_scan 0 c m of (p, m') \<Rightarrow> Some (p, c, m'))"
proof -
  have l: "c_bmaplck c = unlocked" and a: "c_avaliable c \<noteq> 0" using assms by (simp_all add: cache_ok_def)
  from l have e: "c\<lparr>c_bmaplck := unlocked\<rparr> = c" by (cases c) simp
  from a show ?thesis by (simp add: kcache_malloc_def l e Let_def)
qed

text \<open>Freeing the block just allocated restores the cache and its bitmap.\<close>

theorem kcache_free_undoes_malloc:
  assumes "cache_ok c" and "kcache_malloc c m = Some (p, c', m')" and "p \<noteq> NULL"
  shows "kcache_free c' p m' = Some (c, m)"
proof -
  have n0: "c_bcnt c \<noteq> 0" using assms by (auto simp: kcache_malloc_def cache_ok_def)
  with assms have c': "c' = c" and sc: "kcache_scan 0 c m = (p, m')"
    by (auto simp: kcache_malloc_scan split: prod.splits)
  from kcache_scan_cases [OF sc] assms(3) obtain k where k: "k < c_bcnt c" "tail_clear (c_bmap c) m k"
    "p = block c k" "m' = bitset k (c_bmap c) m" by blast
  have "test1andset k (c_bmap c) (bitset k (c_bmap c) m) = (1, m)"
    using k(2) bitclean_bitset [of "c_bmap c" m k]
    by (auto simp: test1andset_cases tail_clear_def above_def)
  moreover have "c_bmaplck c = unlocked" "c_bsize c \<noteq> 0" using assms(1) by (simp_all add: cache_ok_def)
  moreover from this have "c\<lparr>c_bmaplck := unlocked\<rparr> = c" by (cases c) simp
  ultimately show ?thesis using block_nat(4) [OF assms(1) k(1)]
    by (simp add: c' k(3,4) kcache_free_def)
qed

text \<open>The first \<^verbatim>\<open>n\<close> blocks are in use, the rest of the map is clear.\<close>

definition prefix_map :: "kcache_struct \<Rightarrow> mem \<Rightarrow> u32 \<Rightarrow> bool" where
  "prefix_map c m n \<longleftrightarrow> (\<forall>j. unat j div 8 < map_size (c_bcnt c) \<longrightarrow> bit_at (c_bmap c) m j = (j < n))"

lemma map_size_covers: "j < n \<Longrightarrow> unat j div 8 < map_size n"
proof -
  assume "j < n"
  then have "unat j < unat n" by (simp add: word_less_nat_alt)
  then show ?thesis unfolding map_size_def
    by (intro less_mult_imp_div_less)
      (use div_mult_mod_eq [of "unat n" 8] mod_less_divisor [of 8 "unat n"] in \<open>auto simp: algebra_simps\<close>)
qed

text \<open>A cache whose first blocks are taken gives the next one.\<close>

theorem kcache_fills_in_order:
  assumes "cache_ok c" and "n < c_bcnt c" and "prefix_map c m n"
  shows "\<exists>m'. kcache_malloc c m = Some (block c n, c, m') \<and> prefix_map c m' (n + 1)"
proof -
  obtain p m' where sc: "kcache_scan 0 c m = (p, m')" by fastforce
  have clear: "tail_clear (c_bmap c) m n"
    unfolding tail_clear_def
  proof (intro conjI allI impI)
    show "\<not> bit_at (c_bmap c) m n" using assms(3) map_size_covers [OF assms(2)] by (simp add: prefix_map_def)
    fix j assume a: "above n j"
    then have "unat j div 8 = unat n div 8" by (metis above_def unat_div_8)
    with a show "\<not> bit_at (c_bmap c) m j"
      using assms(3) map_size_covers [OF assms(2)] by (auto simp: prefix_map_def above_def)
  qed
  have set: "\<not> tail_clear (c_bmap c) m j" if "j < n" for j
    using assms(2,3) that map_size_covers [of j "c_bcnt c"] by (auto simp: prefix_map_def tail_clear_def)
  from kcache_scan_cases [OF sc] clear assms(2)
  obtain k where k: "k < c_bcnt c" "tail_clear (c_bmap c) m k" "p = block c k" "m' = bitset k (c_bmap c) m"
    "\<forall>j. j < k \<longrightarrow> \<not> tail_clear (c_bmap c) m j" by auto
  have "k = n" using set k clear by (metis linorder_neqE)
  moreover have "j < n + 1 \<longleftrightarrow> j = n \<or> j < n" for j
    using unat_inc [OF assms(2)] by (auto simp: word_less_nat_alt word_unat_eq_iff)
  ultimately have "prefix_map c m' (n + 1)" using assms(3) k(4) by (auto simp: prefix_map_def)
  moreover have "c_bcnt c \<noteq> 0" using assms(2) by auto
  ultimately show ?thesis using sc \<open>k = n\<close> k(3) kcache_malloc_scan [OF assms(1)] by simp
qed


section \<open>Creating the caches\<close>

lemma map_size_word: "n div 8 + (if 0 = n mod 8 then 0 else 1) = (of_nat (map_size n) :: u32)"
proof -
  have "unat n div 8 < 4294967296" by (rule le_less_trans [OF div_le_dividend unat_less_32])
  then have "(of_nat (unat n div 8) :: u32) = n div 8"
    by (simp add: word_unat_eq_iff unat_of_nat32 unat_div)
  moreover have "0 = n mod 8 \<longleftrightarrow> unat n mod 8 = 0" by (auto simp: word_unat_eq_iff unat_mod)
  ultimately show ?thesis by (simp add: map_size_def)
qed

lemma map_size_le: "map_size (a div b) \<le> unat a" if "b \<noteq> 0"
proof -
  have "unat (a div b) \<le> unat a" by (simp add: unat_div)
  moreover have "map_size n \<le> unat n" for n
    unfolding map_size_def by presburger
  ultimately show ?thesis by (meson le_trans)
qed

lemma kcache_create_makes:
  assumes "cb \<noteq> 0" and "pool s \<noteq> 0" and "unat (pool s) + 2 * unat cp + 4 < 4294967296"
  obtains c where "kcache_create cp cb kmalloc kfree s = Some (c, snd (kmalloc (c_csize c) s))"
    and "cache_ok c" and "c_bcnt c = cp div cb" and "c_bsize c = cb" and "c_chf c = None"
    and "c_bmap c = pool s"
    and "unat (c_bpool c) + unat (c_bcnt c) * unat cb \<le> unat (pool (snd (kmalloc (c_csize c) s)))"
    and "unat (pool (snd (kmalloc (c_csize c) s))) < unat (pool s) + 2 * unat cp + 4"
proof -
  let ?n = "cp div cb"
  let ?k = "of_nat (map_size ?n) :: u32"
  define c where "c = zero_cache\<lparr>c_csize := ?k + cp, c_psize := cp, c_bsize := cb,
    c_bcnt := ?n, c_avaliable := ?n, c_bmaplck := spinlock_init unlocked, c_bmap := pool s, c_bpool := pool s + ?k\<rparr>"
  have ms: "map_size ?n \<le> unat cp" using assms(1) by (rule map_size_le)
  then have k: "unat ?k = map_size ?n" by (intro unat_of_nat32 le_less_trans [OF ms unat_less_32])
  have kc: "unat (?k + cp) = map_size ?n + unat cp" using ms assms(3) by (simp add: unat_word_ariths k)
  have nb: "unat ?n * unat cb \<le> unat cp" by (simp add: unat_div)
  have r: "round4 (map_size ?n + unat cp) < map_size ?n + unat cp + 4" by (rule round4_bounds)
  have p: "unat (pool (snd (kmalloc (?k + cp) s))) = unat (pool s) + round4 (map_size ?n + unat cp)"
    using unat_pool_kmalloc [of s "?k + cp"] r ms assms(3) by (simp add: kc)
  have bp: "unat (pool s + ?k) = unat (pool s) + map_size ?n"
    using ms assms(3) by (simp add: unat_word_ariths k)
  show thesis
  proof
    show "kcache_create cp cb kmalloc kfree s = Some (c, snd (kmalloc (c_csize c) s))"
      using assms(1) unfolding kcache_create_def Let_def map_size_word
      by (simp add: c_def) (simp add: kmalloc_def)
    show "cache_ok c" using assms nb ms bp
      by (simp add: cache_ok_def c_def unat_gt_0)
    show "unat (c_bpool c) + unat (c_bcnt c) * unat cb \<le> unat (pool (snd (kmalloc (c_csize c) s)))"
      using p bp nb round4_bounds(1) [of "map_size ?n + unat cp"] by (simp add: c_def)
    show "unat (pool (snd (kmalloc (c_csize c) s))) < unat (pool s) + 2 * unat cp + 4"
      using p r ms by (simp add: c_def)
  qed (simp_all add: c_def zero_cache_def)
qed

text \<open>kcache_create over kmalloc gives a well-formed cache whose bitmap and blocks lie in the memory it
  was given.\<close>

theorem kcache_create_ok:
  assumes "cb \<noteq> 0" and "pool s \<noteq> 0" and "unat (pool s) + 2 * unat cp + 4 < 4294967296"
  shows "\<exists>c t. kcache_create cp cb kmalloc kfree s = Some (c, t) \<and> cache_ok c \<and>
    c_bcnt c = cp div cb \<and> c_bsize c = cb \<and> unat (pool s) \<le> unat (c_bmap c) \<and>
    unat (c_bpool c) + unat (c_bcnt c) * unat (c_bsize c) \<le> unat (pool t)"
  by (rule kcache_create_makes [OF assms]) auto

text \<open>kcache_create never stores its free function, so kcache_destroy calls a null pointer.\<close>

theorem kcache_destroy_faults:
  assumes "kcache_create cp cb cm cf s = Some (c, t)"
  shows "kcache_destroy c u = None"
  using assms by (auto simp: kcache_create_def kcache_destroy_def zero_cache_def Let_def
      split: if_splits prod.splits)

text \<open>The three caches are well formed and lie one after the other.\<close>

theorem cache_init_ok:
  assumes "pool s \<noteq> 0" and "unat (pool s) + 40000 < 4294967296"
  shows "\<exists>cs t. cache_init s = Some (cs, t) \<and> cache_ok (cdir cs) \<and> cache_ok (cinode cs) \<and> cache_ok (cfile cs) \<and>
    c_bcnt (cdir cs) = 64 \<and> c_bcnt (cinode cs) = 64 \<and> c_bcnt (cfile cs) = 64 \<and>
    unat (c_bpool (cdir cs)) + 64 * 96 \<le> unat (c_bmap (cinode cs)) \<and>
    unat (c_bpool (cinode cs)) + 64 * 88 \<le> unat (c_bmap (cfile cs)) \<and>
    unat (c_bpool (cfile cs)) + 64 * 28 \<le> unat (pool t)"
proof -
  obtain d s1 where d: "kcache_create 6144 96 kmalloc kfree s = Some (d, s1)" "cache_ok d" "c_bcnt d = 64"
    "unat (c_bpool d) + 64 * 96 \<le> unat (pool s1)" "unat (pool s1) < unat (pool s) + 12292"
    by (rule kcache_create_makes [of 96 s 6144]) (use assms in simp_all)
  moreover obtain i s2 where i: "kcache_create 5632 88 kmalloc kfree s1 = Some (i, s2)" "cache_ok i"
    "c_bcnt i = 64" "c_bmap i = pool s1"
    "unat (c_bpool i) + 64 * 88 \<le> unat (pool s2)" "unat (pool s2) < unat (pool s1) + 11268"
    by (rule kcache_create_makes [of 88 s1 5632]) (use assms d in \<open>simp_all add: word_unat_eq_iff\<close>)
  moreover obtain f s3 where "kcache_create 1792 28 kmalloc kfree s2 = Some (f, s3)" "cache_ok f"
    "c_bcnt f = 64" "c_bmap f = pool s2" "unat (c_bpool f) + 64 * 28 \<le> unat (pool s3)"
    by (rule kcache_create_makes [of 28 s2 1792]) (use assms d i in \<open>simp_all add: word_unat_eq_iff\<close>)
  ultimately show ?thesis
    by (simp add: cache_init_def sizeof_dir_def sizeof_inode_def sizeof_file_def)
qed


section \<open>Witnesses\<close>

definition demo_heap :: kstate where
  "demo_heap = \<lparr>kmem = \<lambda>_. 0, pool = 0x500000, pagemap = 0, cr3_reg = 0, paging_on = False\<rparr>"

definition demo_cache :: kcache_struct where
  "demo_cache = \<lparr>c_chm = None, c_chf = None, c_csize = 65, c_psize = 64, c_bsize = 16, c_bcnt = 4,
     c_avaliable = 4, c_bmaplck = unlocked, c_bmap = 0x500000, c_bpool = 0x500001\<rparr>"

lemma demo_cache_ok: "cache_ok demo_cache"
  by (simp add: cache_ok_def demo_cache_def map_size_def)

lemma demo_cache_scan:
  "kcache_scan 0 demo_cache (\<lambda>_. 0) = (0x500001, (\<lambda>_. 0)(0x500000 := 1))"
  "kcache_scan 0 demo_cache ((\<lambda>_. 0)(0x500000 := 1)) = (0x500011, (\<lambda>_. 0)(0x500000 := 3))"
  by (simp_all add: kcache_scan.simps demo_cache_def bits_defs)

lemma demo_cache_malloc:
  "kcache_malloc demo_cache (\<lambda>_. 0) = Some (0x500001, demo_cache, (\<lambda>_. 0)(0x500000 := 1))"
  "kcache_malloc demo_cache ((\<lambda>_. 0)(0x500000 := 1)) =
     Some (0x500011, demo_cache, (\<lambda>_. 0)(0x500000 := 3))"
proof -
  have "c_bcnt demo_cache \<noteq> 0" by (simp add: demo_cache_def)
  note malloc = kcache_malloc_scan [OF demo_cache_ok this]
  show "kcache_malloc demo_cache (\<lambda>_. 0) = Some (0x500001, demo_cache, (\<lambda>_. 0)(0x500000 := 1))"
    by (simp only: malloc demo_cache_scan prod.case)
  show "kcache_malloc demo_cache ((\<lambda>_. 0)(0x500000 := 1)) =
     Some (0x500011, demo_cache, (\<lambda>_. 0)(0x500000 := 3))"
    by (simp only: malloc demo_cache_scan prod.case)
qed

theorem cache_ownership_witness:
  "unat (0x500011 :: addr) + unat (c_bsize demo_cache) \<le> unat (0x500001 :: addr) \<or>
   unat (0x500001 :: addr) + unat (c_bsize demo_cache) \<le> unat (0x500011 :: addr)"
  by (rule cache_ownership [OF demo_cache_ok, of "\<lambda>_. 0" "[Alloc]" _ "(\<lambda>_. 0)(0x500000 := 1)" "{0x500001}" _
        _ "(demo_cache, (\<lambda>_. 0)(0x500000 := 3))"])
    (simp_all add: cache_alloc_def demo_cache_malloc)

theorem kcache_free_undoes_malloc_witness:
  "kcache_free demo_cache 0x500001 ((\<lambda>_. 0)(0x500000 := 1)) = Some (demo_cache, \<lambda>_. 0)"
  by (rule kcache_free_undoes_malloc [OF demo_cache_ok demo_cache_malloc(1)]) simp

theorem kcache_fills_in_order_witness:
  "\<exists>m'. kcache_malloc demo_cache (\<lambda>_. 0) = Some (block demo_cache 0, demo_cache, m') \<and>
     prefix_map demo_cache m' (0 + 1)"
  by (rule kcache_fills_in_order [OF demo_cache_ok])
    (simp_all add: demo_cache_def prefix_map_def bit_at_def)

theorem kcache_create_ok_witness:
  "\<exists>c t. kcache_create 64 16 kmalloc kfree demo_heap = Some (c, t) \<and> cache_ok c \<and>
    c_bcnt c = 64 div 16 \<and> c_bsize c = 16 \<and> unat (pool demo_heap) \<le> unat (c_bmap c) \<and>
    unat (c_bpool c) + unat (c_bcnt c) * unat (c_bsize c) \<le> unat (pool t)"
  by (rule kcache_create_ok) (simp_all add: demo_heap_def)

theorem kcache_destroy_faults_witness: "kcache_destroy demo_cache demo_heap = None"
  by (rule kcache_destroy_faults [of 64 16 kmalloc kfree demo_heap _ "demo_heap\<lparr>pool := 0x500044\<rparr>"])
    (simp add: kcache_create_def demo_cache_def demo_heap_def kmalloc_def zero_cache_def)

theorem cache_init_ok_witness:
  "\<exists>cs t. cache_init demo_heap = Some (cs, t) \<and> cache_ok (cdir cs) \<and> cache_ok (cinode cs) \<and> cache_ok (cfile cs) \<and>
    c_bcnt (cdir cs) = 64 \<and> c_bcnt (cinode cs) = 64 \<and> c_bcnt (cfile cs) = 64 \<and>
    unat (c_bpool (cdir cs)) + 64 * 96 \<le> unat (c_bmap (cinode cs)) \<and>
    unat (c_bpool (cinode cs)) + 64 * 88 \<le> unat (c_bmap (cfile cs)) \<and>
    unat (c_bpool (cfile cs)) + 64 * 28 \<le> unat (pool t)"
  by (rule cache_init_ok) (simp_all add: demo_heap_def)

end
