(* ===== verification/Stdlib.thy ===== *)
theory Stdlib
  imports StringLib
begin

text \<open>
  \<^verbatim>\<open>lib/stdlib.c\<close>: number conversions, the argument walker of variadic calls, \<^verbatim>\<open>vsprintf\<close> and the path
  splitter \<^verbatim>\<open>detach_node\<close>. The macro \<^verbatim>\<open>isdigit\<close> evaluates its argument twice, so the counting loop of
  \<^verbatim>\<open>atoi\<close>, which passes \<^verbatim>\<open>*strz++\<close>, tests the characters two by two; the model steps exactly so. Local
  arrays live at an address \<^verbatim>\<open>sp\<close> chosen by the compiler. Loops that end only at a terminator are
  \<^theory_text>\<open>partial_function (option)\<close>.
\<close>

unbundle bit_operations_syntax

section \<open>Text to numbers\<close>

definition ge0 :: "u8 \<Rightarrow> bool" where
  "ge0 c \<longleftrightarrow> 48 \<le> sint c"

definition le9 :: "u8 \<Rightarrow> bool" where
  "le9 c \<longleftrightarrow> sint c \<le> 57"

definition isdigit :: "u8 \<Rightarrow> bool" where
  "isdigit c \<longleftrightarrow> ge0 c \<and> le9 c"

text \<open>\<^verbatim>\<open>while (*strz&&isdigit(*strz++)&&len++<=n);\<close>\<close>

function count_loop :: "nat \<Rightarrow> addr \<Rightarrow> nat \<Rightarrow> mem \<Rightarrow> nat" where
  "count_loop n strz len m =
     (if m strz \<noteq> 0 \<and> ge0 (m strz) \<and> le9 (m (strz + 1))
      then if len \<le> n then count_loop n (strz + 2) (len + 1) m else len + 1
      else len)"
  by pat_completeness auto
termination by (relation "measure (\<lambda>(n, strz, len, m). n + 1 - len)") auto

text \<open>\<^verbatim>\<open>while (*strz&&isdigit(*strz)&&len++<n) tmp = tmp * 10 + (*strz++-'0');\<close> with \<^verbatim>\<open>k\<close> digits to go.\<close>

fun value_loop :: "nat \<Rightarrow> addr \<Rightarrow> 'a :: len word \<Rightarrow> mem \<Rightarrow> 'a word" where
  "value_loop 0 strz tmp m = tmp"
| "value_loop (Suc k) strz tmp m =
     (if m strz \<noteq> 0 \<and> isdigit (m strz)
      then value_loop k (strz + 1) (tmp * 10 + (signed (m strz) - 48)) m else tmp)"

fun store_bytes :: "addr \<Rightarrow> u8 list \<Rightarrow> mem \<Rightarrow> mem" where
  "store_bytes a [] m = m"
| "store_bytes a (b # bs) m = store_bytes (a + 1) bs (m(a := b))"

text \<open>The digit strings of 2147483648, 2147483647 and of their 64-bit counterparts, terminated.\<close>

definition min_digits :: "u8 list" where
  [code_defs]: "min_digits = [50, 49, 52, 55, 52, 56, 51, 54, 52, 56, 0]"
definition max_digits :: "u8 list" where
  [code_defs]: "max_digits = [50, 49, 52, 55, 52, 56, 51, 54, 52, 55, 0]"
definition llmin_digits :: "u8 list" where
  [code_defs]: "llmin_digits = [57, 50, 50, 51, 51, 55, 50, 48, 51, 54, 56, 53, 52, 55, 55, 53, 56, 48, 56, 0]"
definition llmax_digits :: "u8 list" where
  [code_defs]: "llmax_digits = [57, 50, 50, 51, 51, 55, 50, 48, 51, 54, 56, 53, 52, 55, 55, 53, 56, 48, 55, 0]"

definition INT_MAX :: cint where [code_defs]: "INT_MAX = 2147483647"
definition INT_MIN :: cint where [code_defs]: "INT_MIN = - 2147483647 - 1"
definition LONGLONG_MAX :: u64 where [code_defs]: "LONGLONG_MAX = 9223372036854775807"
definition LONGLONG_MIN :: u64 where [code_defs]: "LONGLONG_MIN = - 9223372036854775807 - 1"

definition signed_pos :: "addr \<Rightarrow> mem \<Rightarrow> bool \<times> addr" where
  "signed_pos strz m =
     (if m strz = 45 then (True, strz + 1) else if m strz = 43 then (False, strz + 1) else (False, strz))"

definition atoi_value :: "bool \<Rightarrow> addr \<Rightarrow> mem \<Rightarrow> cint" where
  "atoi_value neg strz m =
     (let tmp = value_loop 10 strz 0 m in if neg then - tmp else tmp)"

definition atoi :: "addr \<Rightarrow> addr \<Rightarrow> mem \<Rightarrow> cint option" where
  "atoi sp strz m0 =
     (let m = store_bytes (sp + 11) max_digits (store_bytes sp min_digits m0);
          (neg, p) = signed_pos strz m;
          len = count_loop 10 p 0 m
      in if 10 = len
         then Option.bind (strcmp p (if neg then sp else sp + 11) m)
                (\<lambda>d. Some (if 0 < sint d then (if neg then INT_MIN else INT_MAX) else atoi_value neg p m))
         else if 10 < len then Some (if neg then INT_MIN else INT_MAX)
         else Some (atoi_value neg p m))"

definition atoll_value :: "bool \<Rightarrow> addr \<Rightarrow> mem \<Rightarrow> u64" where
  "atoll_value neg strz m =
     (let tmp = value_loop 19 strz 0 m in if neg then - tmp else tmp)"

definition atoll :: "addr \<Rightarrow> addr \<Rightarrow> mem \<Rightarrow> u64 option" where
  "atoll sp strz m0 =
     (let m = store_bytes (sp + 20) llmax_digits (store_bytes sp llmin_digits m0);
          (neg, p) = signed_pos strz m;
          len = count_loop 19 p 0 m
      in if 10 = len
         then Option.bind (strcmp p (if neg then sp else sp + 20) m)
                (\<lambda>d. Some (if 0 < sint d then (if neg then LONGLONG_MIN else LONGLONG_MAX)
                           else atoll_value neg p m))
         else if 10 < len then Some (if neg then LONGLONG_MIN else LONGLONG_MAX)
         else Some (atoll_value neg p m))"

section \<open>Numbers to text\<close>

definition digit :: "u32 \<Rightarrow> u8" where
  "digit d = [48, 49, 50, 51, 52, 53, 54, 55, 56, 57] ! unat d"

definition hexdigit :: "u32 \<Rightarrow> u8" where
  "hexdigit d = [48, 49, 50, 51, 52, 53, 54, 55, 56, 57, 65, 66, 67, 68, 69, 70] ! unat d"

text \<open>\<^verbatim>\<open>while (!(dec/tom)) tom /= 10;\<close> A zero divisor traps.\<close>

function itoa_scale :: "cint \<Rightarrow> cint \<Rightarrow> cint option" where
  "itoa_scale dec tom =
     (if tom = 0 then None else if dec div tom = 0 then itoa_scale dec (tom div 10) else Some tom)"
  by pat_completeness auto
termination
  by (relation "measure (\<lambda>(dec, tom). unat tom)") (auto simp: unat_div unat_gt_0)

function itoa_digits :: "addr \<Rightarrow> cint \<Rightarrow> cint \<Rightarrow> mem \<Rightarrow> addr \<times> mem" where
  "itoa_digits strz dec tom m =
     (if tom = 0 then (strz, m)
      else itoa_digits (strz + 1) (dec - dec div tom * tom) (tom div 10) (m(strz := digit (dec div tom))))"
  by pat_completeness auto
termination
  by (relation "measure (\<lambda>(strz, dec, tom, m). unat tom)") (auto simp: unat_div unat_gt_0)

definition itoa_pos :: "addr \<Rightarrow> addr \<Rightarrow> cint \<Rightarrow> mem \<Rightarrow> (cint \<times> mem) option" where
  "itoa_pos tmp strz dec m =
     map_option (\<lambda>tom. case itoa_digits strz dec tom m of (p, m') \<Rightarrow> (p - tmp, m'))
       (itoa_scale dec 1000000000)"

definition itoa :: "addr \<Rightarrow> cint \<Rightarrow> mem \<Rightarrow> (cint \<times> mem) option" where
  "itoa strz dec m =
     (if sint dec < 0
      then let m1 = m(strz := 45)
           in if dec = 0x80000000 then Some (11, store_bytes (strz + 1) (butlast min_digits) m1)
              else itoa_pos strz (strz + 1) (- dec) m1
      else if dec = 0 then Some (1, m(strz := digit 0))
      else itoa_pos strz strz dec m)"

function itox_scale :: "cint \<Rightarrow> u32 \<Rightarrow> u32 \<Rightarrow> (u32 \<times> u32) option" where
  "itox_scale dec tom jerry =
     (if tom = 0 then None
      else if tom AND dec = 0 then itox_scale dec (drop_bit 4 tom) (jerry - 1) else Some (tom, jerry))"
  by pat_completeness auto
termination
  by (relation "measure (\<lambda>(dec, tom, jerry). unat tom)")
    (auto simp: unat_drop_bit_eq drop_bit_eq_div unat_gt_0 div_less_dividend unat_div)

function itox_digits :: "addr \<Rightarrow> cint \<Rightarrow> u32 \<Rightarrow> u32 \<Rightarrow> mem \<Rightarrow> addr \<times> mem" where
  "itox_digits strz dec tom jerry m =
     (if tom > 0
      then itox_digits (strz + 1) dec (drop_bit 4 tom) (jerry - 1)
             (m(strz := hexdigit (drop_bit (unat (4 * jerry)) (tom AND dec) AND 0xF)))
      else (strz, m))"
  by pat_completeness auto
termination
  by (relation "measure (\<lambda>(strz, dec, tom, jerry, m). unat tom)")
    (auto simp: unat_drop_bit_eq drop_bit_eq_div unat_gt_0 div_less_dividend unat_div)

text \<open>A mask that reaches 0 would loop; it cannot, the number is not 0.\<close>

definition itox :: "addr \<Rightarrow> cint \<Rightarrow> mem \<Rightarrow> (cint \<times> mem) option" where
  "itox strz dec m =
     (if dec = 0 then Some (1, m(strz := hexdigit 0))
      else map_option (\<lambda>(tom, jerry). case itox_digits strz dec tom jerry m of (p, m') \<Rightarrow> (p - strz, m'))
             (itox_scale dec 0xF0000000 7))"

definition itob :: "addr \<Rightarrow> cint \<Rightarrow> mem \<Rightarrow> mem" where
  "itob buf data m = store_bytes buf (map (\<lambda>i. if bit data i then 49 else 48) (rev [0..<32])) m"

text \<open>The two 64-bit printers are stubs.\<close>

definition lltoa :: "addr \<Rightarrow> u64 \<Rightarrow> cint" where "lltoa strz dec = 0"
definition lltox :: "addr \<Rightarrow> u64 \<Rightarrow> cint" where "lltox strz dec = 0"

section \<open>Variadic arguments and formatting\<close>

record var_list =
  vl_this :: addr
  vl_offset :: cint

definition va_start :: "addr \<Rightarrow> var_list" where
  "va_start l = \<lparr>vl_this = l + 4, vl_offset = 0\<rparr>"

definition var_arg :: "var_list \<Rightarrow> u32 \<Rightarrow> addr \<times> var_list" where
  "var_arg vl sz =
     (let sz = (if sz < 4 then 4 else sz)
      in (vl_this vl, vl\<lparr>vl_this := vl_this vl + (sz div 4 * 4 + (if sz mod 4 = 0 then 0 else 4))\<rparr>))"

text \<open>\<^verbatim>\<open>while (p&&*p) *buf++ = *p++;\<close>\<close>

partial_function (option) str_arg :: "addr \<Rightarrow> addr \<Rightarrow> mem \<Rightarrow> (addr \<times> mem) option" where
  "str_arg buf p m =
     (if p \<noteq> NULL \<and> m p \<noteq> 0 then str_arg (buf + 1) (p + 1) (m(buf := m p)) else Some (buf, m))"

partial_function (option) vsprintf_loop :: "addr \<Rightarrow> addr \<Rightarrow> var_list \<Rightarrow> mem \<Rightarrow> (addr \<times> mem) option" where
  "vsprintf_loop buf fmt vl m =
     (if m fmt = 0 then Some (buf, m)
      else if m fmt \<noteq> 37 then vsprintf_loop (buf + 1) (fmt + 1) vl (m(buf := m fmt))
      else let fmt = fmt + 1; c = m fmt
        in if c = 115 then
             (let (a, vl') = var_arg vl 4
              in Option.bind (str_arg buf (load32 m a) m) (\<lambda>(buf', m'). vsprintf_loop buf' (fmt + 1) vl' m'))
           else if c = 100 then
             (let (a, vl') = var_arg vl 4
              in Option.bind (itoa buf (load32 m a) m) (\<lambda>(d, m'). vsprintf_loop (buf + d) (fmt + 1) vl' m'))
           else if c = 120 then
             (let (a, vl') = var_arg vl 4
              in Option.bind (itox buf (load32 m a) m) (\<lambda>(d, m'). vsprintf_loop (buf + d) (fmt + 1) vl' m'))
           else if c = 99 then
             (let (a, vl') = var_arg vl 1 in vsprintf_loop (buf + 1) (fmt + 1) vl' (m(buf := m a)))
           else if c = 37 then vsprintf_loop (buf + 1) (fmt + 1) vl (m(buf := 37))
           else vsprintf_loop buf fmt vl m)"

definition vsprintf :: "addr \<Rightarrow> addr \<Rightarrow> var_list \<Rightarrow> mem \<Rightarrow> (cint \<times> mem) option" where
  "vsprintf buf fmt vl m = map_option (\<lambda>(b, m'). (b - buf, m')) (vsprintf_loop buf fmt vl m)"

text \<open>\<^verbatim>\<open>sprintf\<close>: \<^verbatim>\<open>l\<close> is the address of its \<^verbatim>\<open>fmt\<close> argument on the stack.\<close>

definition sprintf :: "addr \<Rightarrow> addr \<Rightarrow> mem \<Rightarrow> (cint \<times> mem) option" where
  "sprintf buf l m = vsprintf buf (load32 m l) (va_start l) m"

section \<open>Splitting a path\<close>

text \<open>The loops of \<^verbatim>\<open>detach_node\<close>: to the \<^verbatim>\<open>index\<close>-th slash, over the name, to the next slash.\<close>

partial_function (option) seek_loop :: "u32 \<Rightarrow> u32 \<Rightarrow> addr \<Rightarrow> mem \<Rightarrow> addr option" where
  "seek_loop i index p m =
     (if m p = 0 then Some p
      else if m p = 47 then if i = index then Some (p + 1) else seek_loop (i + 1) index (p + 1) m
      else seek_loop i index (p + 1) m)"

function name_loop :: "u32 \<Rightarrow> addr \<Rightarrow> addr \<Rightarrow> u32 \<Rightarrow> mem \<Rightarrow> addr \<times> u32 \<times> mem" where
  "name_loop mx p buf len m =
     (if mx \<noteq> 0 \<and> m p \<noteq> 0 \<and> m p \<noteq> 47 then name_loop (mx - 1) (p + 1) (buf + 1) (len + 1) (m(buf := m p))
      else (p, len, m))"
  by pat_completeness auto
termination
  by (relation "measure (\<lambda>(mx, p, buf, len, m). unat mx)") (auto simp: unat_dec_less)

text \<open>The tail scan: the flag it sets and whether it ends at \<^verbatim>\<open>err\<close>.\<close>

partial_function (option) rest_loop :: "addr \<Rightarrow> cint \<Rightarrow> mem \<Rightarrow> (cint \<times> bool) option" where
  "rest_loop p flg m =
     (if m p = 0 then Some (flg, False)
      else if m p = 47 then Some (1, m (p + 1) = 0)
      else rest_loop (p + 1) flg m)"

definition detach_node :: "u32 \<Rightarrow> addr \<Rightarrow> addr \<Rightarrow> cint \<Rightarrow> u32 \<Rightarrow> mem \<Rightarrow> (cint \<times> cint \<times> mem) option" where
  "detach_node index ptr buf flg mx m =
     (if m ptr \<noteq> 47 then Some (- 1, flg, m)
      else if buf = NULL then Some (- 1, flg, m)
      else
        Option.bind (seek_loop 0 index ptr m) (\<lambda>p.
          let (p, len, m1) = name_loop mx p buf 0 m;
              res = (if len \<noteq> 0 then len else - 1)
          in if m1 p = 47 \<and> m1 (p + 1) \<noteq> 0 then Some (res, 1, m1)
             else
               let (p, flg) = (if m1 p = 47 then (p + 1, 1) else (p, 0))
               in map_option (\<lambda>(flg, err). (if err then - 1 else res, flg, m1)) (rest_loop (p + 1) flg m1)))"

declare count_loop.simps [simp del] itoa_scale.simps [simp del] itoa_digits.simps [simp del]
  itox_scale.simps [simp del] itox_digits.simps [simp del] name_loop.simps [simp del]

section \<open>Memory that holds a string of bytes\<close>

definition holds :: "mem \<Rightarrow> addr \<Rightarrow> u8 list \<Rightarrow> bool" where
  "holds m p bs \<longleftrightarrow> (\<forall>i < length bs. m (p + of_nat i) = bs ! i)"

lemma holds_Nil [simp]: "holds m p []"
  by (simp add: holds_def)

lemma holds_Cons [simp]: "holds m p (b # bs) \<longleftrightarrow> m p = b \<and> holds m (p + 1) bs"
  unfolding holds_def
  by (auto simp: less_Suc_eq_0_disj add.commute add.left_commute)

lemma holds_append [simp]: "holds m p (as @ bs) \<longleftrightarrow> holds m p as \<and> holds m (p + of_nat (length as)) bs"
  by (induction as arbitrary: p) (auto simp: add.assoc)

lemma store_bytes_frame:
  assumes "length bs < 4294967296" and "\<not> x - a < of_nat (length bs)"
  shows "store_bytes a bs m x = m x"
  using assms
proof (induction bs arbitrary: a m)
  case (Cons b bs)
  have n: "(of_nat (length (b # bs)) :: u32) \<noteq> 0"
    using Cons.prems(1) unat_of_nat32 [of "length (b # bs)"] by (auto simp: word_unat_eq_iff)
  have "x \<noteq> a \<and> \<not> x - (a + 1) < of_nat (length bs)"
    using range_step [OF n, of x a] Cons.prems(2) by simp
  with Cons show ?case by simp
qed simp

lemma store_bytes_holds: "length bs < 4294967296 \<Longrightarrow> holds (store_bytes a bs m) a bs"
proof (induction bs arbitrary: a m)
  case (Cons b bs)
  have "\<not> a - (a + 1) < (of_nat (length bs) :: u32)" by (simp add: minus_one_not_less)
  then have "store_bytes (a + 1) bs (m(a := b)) a = b"
    using Cons.prems store_bytes_frame [of bs a "a + 1"] by simp
  with Cons show ?case by simp
qed simp

lemma holds_cong: "(\<And>i. i < length bs \<Longrightarrow> m (p + of_nat i) = m' (p + of_nat i)) \<Longrightarrow> holds m p bs = holds m' p bs"
  by (simp add: holds_def)

section \<open>Decimal digits\<close>

fun dig :: "nat \<Rightarrow> nat \<Rightarrow> u8 list" where
  "dig 0 d = [of_nat (48 + d)]"
| "dig (Suc k) d = of_nat (48 + d div 10 ^ Suc k) # dig k (d mod 10 ^ Suc k)"

lemma dig_numeral: "dig (numeral k) d = of_nat (48 + d div 10 ^ numeral k) # dig (pred_numeral k) (d mod 10 ^ numeral k)"
  by (simp add: numeral_eq_Suc)

lemma length_dig [simp]: "length (dig k d) = Suc k"
  by (induction k arbitrary: d) auto

lemma digit_char:
  assumes "d < 10"
  shows "(of_nat (48 + d) :: u8) \<noteq> 0" and "isdigit (of_nat (48 + d))" and "ge0 (of_nat (48 + d))"
    and "signed (of_nat (48 + d) :: u8) - 48 = (of_nat d :: 'a :: len word)"
    and "digit (of_nat d) = of_nat (48 + d)"
proof -
  have "d \<in> {0, 1, 2, 3, 4, 5, 6, 7, 8, 9}" using assms by auto
  then have f: "(of_nat (48 + d) :: u8) \<noteq> 0" "sint (of_nat (48 + d) :: u8) = 48 + int d"
    "digit (of_nat d) = of_nat (48 + d)"
    by (auto simp: digit_def)
  have "(signed (of_nat (48 + d) :: u8) :: 'a word) = of_int (48 + int d)"
    unfolding f(2) [symmetric] by simp
  then show "signed (of_nat (48 + d) :: u8) - 48 = (of_nat d :: 'a :: len word)" by simp
  show "(of_nat (48 + d) :: u8) \<noteq> 0" "isdigit (of_nat (48 + d))" "ge0 (of_nat (48 + d))"
    "digit (of_nat d) = of_nat (48 + d)"
    using f assms unfolding ge0_def le9_def isdigit_def by simp_all
qed

lemma dig_head: "d < 10 ^ Suc k \<Longrightarrow> \<exists>h t. dig k d = of_nat (48 + h) # t \<and> h < 10"
  by (cases k) (auto simp: less_mult_imp_div_less)

lemma value_loop_dig:
  assumes "d < 10 ^ Suc k" and "holds m p (dig k d @ [0])" and "Suc k \<le> n"
  shows "value_loop n p tmp m = tmp * 10 ^ Suc k + of_nat d"
  using assms
proof (induction k arbitrary: d p tmp n)
  case 0
  then obtain j where "n = Suc j" by (cases n) auto
  moreover have "value_loop j (p + 1) t m = t" for t :: "'a word" using 0 by (cases j) auto
  moreover have "d < 10" using 0 by simp
  ultimately show ?case using 0 digit_char(1,2) [of d]
    by (simp add: digit_char(4) del: of_nat_add)
next
  case (Suc k)
  obtain j where n: "n = Suc j" using Suc.prems(3) by (cases n) auto
  define h where "h = d div 10 ^ Suc k"
  define r where "r = d mod 10 ^ Suc k"
  have h: "h < 10" using Suc.prems(1) by (simp add: h_def less_mult_imp_div_less)
  have r: "r < 10 ^ Suc k" by (simp add: r_def)
  have d: "d = h * 10 ^ Suc k + r" unfolding h_def r_def by (rule div_mult_mod_eq [symmetric])
  have m: "m p = of_nat (48 + h)" "holds m (p + 1) (dig k r @ [0])" "Suc k \<le> j"
    using Suc.prems(2,3) n by (simp_all add: h_def r_def)
  have "value_loop n p tmp m = value_loop j (p + 1) (tmp * 10 + of_nat h) m"
    using digit_char(1,2) [OF h] by (simp add: n m(1) digit_char(4) [OF h] del: of_nat_add)
  also have "\<dots> = (tmp * 10 + of_nat h) * 10 ^ Suc k + of_nat r"
    by (rule Suc.IH [OF r m(2,3)])
  also have "\<dots> = tmp * 10 ^ Suc (Suc k) + of_nat d"
    by (simp add: d algebra_simps)
  finally show ?case .
qed

lemma count_loop_bound:
  assumes "m (p + of_nat n) = 0" and "m (p + of_nat n + 1) = 0" and "len + (n + 1) div 2 \<le> c"
  shows "count_loop c p len m \<le> len + (n + 1) div 2"
  using assms
proof (induction n arbitrary: p len rule: less_induct)
  case (less n)
  consider "n = 0" | "n = 1" | k where "n = Suc (Suc k)" by (metis One_nat_def not0_implies_Suc)
  then show ?case
  proof cases
    case 3
    have "count_loop c (p + 2) (len + 1) m \<le> len + 1 + (k + 1) div 2"
      using less.IH [of k "p + 2" "len + 1"] less.prems 3 by (simp add: algebra_simps)
    then show ?thesis using 3 less.prems(3) by (simp add: count_loop.simps [of c p])
  qed (use less.prems in \<open>simp_all add: count_loop.simps [of c] algebra_simps\<close>)
qed

lemma signed_pos_dig:
  assumes "d < 10 ^ Suc k" and "holds m p (dig k d)"
  shows "signed_pos p m = (False, p)"
proof -
  obtain h t where "dig k d = of_nat (48 + h) # t" "h < 10" using dig_head [OF assms(1)] by blast
  moreover from this(2) have "h \<in> {0, 1, 2, 3, 4, 5, 6, 7, 8, 9}" by auto
  ultimately show ?thesis using assms(2) by (auto simp: signed_pos_def)
qed

text \<open>The window of bytes a decimal number and its terminator take, out of the way of the two arrays.\<close>

definition clear_of :: "addr \<Rightarrow> addr \<Rightarrow> nat \<Rightarrow> bool" where
  "clear_of sp p n \<longleftrightarrow> (\<forall>i < n. \<not> (p + of_nat i) - sp < 22)"

lemma clear_of_mono: "clear_of sp b n \<Longrightarrow> k \<le> n \<Longrightarrow> clear_of sp b k"
  by (simp add: clear_of_def)

lemma clear_of_below:
  assumes "unat p + n \<le> unat sp" and "unat sp \<le> 4294967274"
  shows "clear_of sp p n"
  unfolding clear_of_def
proof (intro allI impI)
  fix i assume i: "i < n"
  have "unat (of_nat i :: u32) = i" using i assms by (intro unat_of_nat32) simp
  then have "unat (p + of_nat i) = unat p + i" using i assms by (simp add: unat_word_ariths)
  then show "\<not> (p + of_nat i) - sp < 22"
    using i assms by (simp add: word_less_nat_alt unat_sub_if')
qed

lemma digits_length: "length min_digits = 11" "length max_digits = 11"
  by (simp_all add: min_digits_def max_digits_def)

lemma holds_under_arrays:
  assumes "clear_of sp p (length bs)"
  shows "holds (store_bytes (sp + 11) max_digits (store_bytes sp min_digits m)) p bs = holds m p bs"
proof (rule holds_cong)
  fix i assume "i < length bs"
  then have "\<not> (p + of_nat i) - sp < 22" using assms by (simp add: clear_of_def)
  then have ge: "22 \<le> unat ((p + of_nat i) - sp)" by (simp add: word_less_nat_alt)
  then have "unat ((p + of_nat i) - (sp + 11)) = unat ((p + of_nat i) - sp) - 11"
    using unat_sub [of 11 "(p + of_nat i) - sp"] by (simp add: word_le_nat_alt diff_diff_eq)
  with ge show "store_bytes (sp + 11) max_digits (store_bytes sp min_digits m) (p + of_nat i) = m (p + of_nat i)"
    by (simp add: store_bytes_frame digits_length word_less_nat_alt)
qed


lemma of_nat_div32:
  assumes "a < 4294967296" and "b < 4294967296"
  shows "(of_nat a div of_nat b :: u32) = of_nat (a div b)"
proof -
  have "a div b < 4294967296" using assms(1) by (rule le_less_trans [OF div_le_dividend])
  then show ?thesis using assms by (simp add: word_unat_eq_iff unat_div unat_of_nat32)
qed

lemma pow10_bound: "k \<le> 9 \<Longrightarrow> (10 :: nat) ^ k < 4294967296"
proof -
  assume "k \<le> 9"
  then have "(10 :: nat) ^ k \<le> 10 ^ 9" by (intro power_increasing) simp_all
  then show ?thesis by simp
qed

lemma itoa_scale_finds:
  assumes "k \<le> 9" and "0 < d" and "d < 10 ^ Suc k" and "d < 4294967296"
  shows "\<exists>j \<le> k. itoa_scale (of_nat d) (of_nat (10 ^ k)) = Some (of_nat (10 ^ j)) \<and> d < 10 ^ Suc j"
  using assms
proof (induction k)
  case 0
  have "(of_nat d :: u32) \<noteq> 0" using 0 unat_of_nat32 [of d] by (auto simp: word_unat_eq_iff)
  with 0 show ?case by (simp add: itoa_scale.simps)
next
  case (Suc k)
  have p: "(10 :: nat) ^ Suc k < 4294967296" using Suc.prems(1) by (rule pow10_bound)
  have t: "(of_nat (10 ^ Suc k) :: u32) \<noteq> 0" using unat_of_nat32 [OF p] by (auto simp: word_unat_eq_iff)
  have dv: "(of_nat d div of_nat (10 ^ Suc k) :: u32) = of_nat (d div 10 ^ Suc k)"
    using Suc.prems(4) p by (rule of_nat_div32)
  have "d div 10 ^ Suc k < 4294967296" using Suc.prems(4) by (rule le_less_trans [OF div_le_dividend])
  then have z: "(of_nat (d div 10 ^ Suc k) :: u32) = 0 \<longleftrightarrow> d < 10 ^ Suc k"
    using of_nat_inj32 [of "d div 10 ^ Suc k" 0] by (simp add: div_eq_0_iff)
  have tn: "(of_nat (10 ^ Suc k) div 10 :: u32) = of_nat (10 ^ k)"
    using of_nat_div32 [OF p, of 10] by simp
  show ?case
  proof (cases "d < 10 ^ Suc k")
    case True
    then obtain j where "j \<le> k" "itoa_scale (of_nat d) (of_nat (10 ^ k)) = Some (of_nat (10 ^ j))" "d < 10 ^ Suc j"
      using Suc by auto
    then show ?thesis using True
      by (subst itoa_scale.simps) (use t dv z tn in \<open>auto simp del: of_nat_power power_Suc intro!: exI [of _ j]\<close>)
  next
    case False
    then show ?thesis using Suc.prems(3)
      by (subst itoa_scale.simps) (use t dv z in \<open>auto simp del: of_nat_power power_Suc intro!: exI [of _ "Suc k"]\<close>)
  qed
qed

lemma itoa_digits_writes:
  assumes "k \<le> 9" and "d < 10 ^ Suc k" and "d < 4294967296"
  shows "itoa_digits p (of_nat d) (of_nat (10 ^ k)) m = (p + of_nat (Suc k), store_bytes p (dig k d) m)"
  using assms
proof (induction k arbitrary: p d m)
  case 0
  then show ?case using digit_char(5) [of d] by (simp add: itoa_digits.simps fun_upd_def del: of_nat_add)
next
  case (Suc k)
  have p: "(10 :: nat) ^ Suc k < 4294967296" using Suc.prems(1) by (rule pow10_bound)
  have t: "(of_nat (10 ^ Suc k) :: u32) \<noteq> 0" using unat_of_nat32 [OF p] by (auto simp: word_unat_eq_iff)
  define h where "h = d div 10 ^ Suc k"
  define r where "r = d mod 10 ^ Suc k"
  have dv: "(of_nat d div of_nat (10 ^ Suc k) :: u32) = of_nat h"
    unfolding h_def using Suc.prems(3) p by (rule of_nat_div32)
  have h: "h < 10" using Suc.prems(2) by (simp add: h_def less_mult_imp_div_less)
  have r: "r < 10 ^ Suc k" "r < 4294967296"
  proof -
    show "r < 10 ^ Suc k" by (simp add: r_def)
    then show "r < 4294967296" using p by simp
  qed
  have d: "d = h * 10 ^ Suc k + r" unfolding h_def r_def by (rule div_mult_mod_eq [symmetric])
  then have rest: "(of_nat d - of_nat h * of_nat (10 ^ Suc k) :: u32) = of_nat r" by simp
  have tn: "(of_nat (10 ^ Suc k) div 10 :: u32) = of_nat (10 ^ k)"
    using of_nat_div32 [OF p, of 10] by simp
  have IH: "itoa_digits (p + 1) (of_nat r) (of_nat (10 ^ k)) m' =
      (p + 1 + of_nat (Suc k), store_bytes (p + 1) (dig k r) m')" for m'
    using Suc.prems(1) r by (intro Suc.IH) simp_all
  show ?case
    by (subst itoa_digits.simps)
      (use t dv rest tn IH digit_char(5) [OF h] in \<open>simp del: of_nat_power power_Suc of_nat_add add: h_def [symmetric] r_def [symmetric]\<close>)
qed


lemma atoi_dig:
  assumes d: "d < 10 ^ Suc k" and k: "k \<le> 9" and h: "holds m p (dig k d @ [0, 0])"
    and sp: "clear_of sp p (k + 3)"
  defines "m' \<equiv> store_bytes (sp + 11) max_digits (store_bytes sp min_digits m)"
  shows "count_loop 10 p 0 m' < 10" and "value_loop 10 p 0 m' = (of_nat d :: u32)"
    and "signed_pos p m' = (False, p)"
proof -
  have h': "holds m' p (dig k d @ [0, 0])"
    unfolding m'_def using h sp by (subst holds_under_arrays) (simp_all add: numeral_3_eq_3)
  have "count_loop 10 p 0 m' \<le> 0 + (Suc k + 1) div 2"
    by (rule count_loop_bound) (use h' k in simp_all)
  then show "count_loop 10 p 0 m' < 10" using k by simp
  show "value_loop 10 p 0 m' = (of_nat d :: u32)"
    using value_loop_dig [OF d, of m' p 10 0] h' k by simp
  show "signed_pos p m' = (False, p)"
    by (rule signed_pos_dig [OF d]) (use h' in simp)
qed

lemma atoi_reads_decimal':
  assumes "d < 10 ^ Suc k" and "k \<le> 9" and "holds m p (dig k d @ [0, 0])" and "clear_of sp p (k + 3)"
  shows "atoi sp p m = Some (of_nat d)"
  using atoi_dig [OF assms] by (simp add: atoi_def Let_def atoi_value_def)

lemma atoi_negative:
  assumes "d < 10 ^ Suc k" and "k \<le> 9" and "holds m p (45 # dig k d @ [0, 0])" and "clear_of sp p (k + 4)"
  shows "atoi sp p m = Some (- of_nat d)"
proof -
  have c: "clear_of sp (p + 1) (k + 3)"
    unfolding clear_of_def
  proof (intro allI impI)
    fix i assume "i < k + 3"
    then have "Suc i < k + 4" by simp
    then have "\<not> (p + of_nat (Suc i)) - sp < 22" using assms(4) unfolding clear_of_def by blast
    then show "\<not> (p + 1 + of_nat i) - sp < 22" by (simp add: add.assoc)
  qed
  have "holds m (p + 1) (dig k d @ [0, 0])" using assms(3) by simp
  note a = atoi_dig [OF assms(1,2) this c]
  have "holds (store_bytes (sp + 11) max_digits (store_bytes sp min_digits m)) p [45]"
    using assms(3) clear_of_mono [OF assms(4), of 1] by (subst holds_under_arrays) simp_all
  with a show ?thesis by (simp add: atoi_def Let_def atoi_value_def signed_pos_def)
qed

lemma itoa_pos_writes:
  assumes "0 < d" and "d < 2147483648"
  shows "\<exists>k \<le> 9. d < 10 ^ Suc k \<and>
    itoa_pos t p (of_nat d) m = Some (p + of_nat (Suc k) - t, store_bytes p (dig k d) m)"
proof -
  obtain j where j: "j \<le> 9" "itoa_scale (of_nat d) (of_nat (10 ^ 9)) = Some (of_nat (10 ^ j))" "d < 10 ^ Suc j"
    using itoa_scale_finds [of 9 d] assms by auto
  have "itoa_pos t p (of_nat d) m = Some (p + of_nat (Suc j) - t, store_bytes p (dig j d) m)"
    using j itoa_digits_writes [of j d p m] assms by (simp add: itoa_pos_def)
  with j show ?thesis by blast
qed

text \<open>Zeroed memory stays zero after a printed number.\<close>

lemma printed_holds:
  assumes "\<forall>i < 13. m (b + of_nat i) = 0" and "length bs \<le> 11"
  shows "holds (store_bytes b bs m) b (bs @ [0, 0])"
proof -
  have z: "store_bytes b bs m (b + of_nat i) = 0" if "length bs \<le> i" "i < 13" for i
  proof -
    have "unat (of_nat i :: u32) = i" "unat (of_nat (length bs) :: u32) = length bs"
      using that assms(2) by (intro unat_of_nat32, simp)+
    then have "\<not> (b + of_nat i) - b < of_nat (length bs)" using that by (simp add: word_less_nat_alt)
    then show ?thesis using assms that by (simp add: store_bytes_frame)
  qed
  show ?thesis
    using store_bytes_holds [of bs b m] assms(2) z [of "length bs"] z [of "Suc (length bs)"]
    by (simp add: algebra_simps)
qed

lemma sint_unat: "unat w < 2147483648 \<and> sint w = int (unat w) \<or>
    2147483648 \<le> unat w \<and> sint w = int (unat w) - 4294967296" for w :: u32
proof -
  have "bit (uint w) 31 \<longleftrightarrow> 2147483648 \<le> unat w"
  proof -
    have "unat w div 2147483648 < 2" by (simp add: less_mult_imp_div_less)
    then have "odd (unat w div 2147483648) \<longleftrightarrow> unat w div 2147483648 = 1" by (auto simp: less_2_cases_iff)
    also have "\<dots> \<longleftrightarrow> 2147483648 \<le> unat w" using \<open>unat w div 2147483648 < 2\<close> by (auto simp: le_div_geq dest: div_less)
    finally have o: "odd (unat w div 2147483648) \<longleftrightarrow> 2147483648 \<le> unat w" .
    have "uint w div 2147483648 = int (unat w div 2147483648)" by (simp add: zdiv_int)
    then show ?thesis using o by (simp add: bit_iff_odd)
  qed
  moreover have "sint w = uint w - 4294967296 * of_bool (bit (uint w) 31)"
    using unsigned_less [of w, where ?'a = int]
    by (simp add: sint_uint signed_take_bit_eq_take_bit_minus take_bit_int_eq_self)
  ultimately show ?thesis by (cases "2147483648 \<le> unat w") simp_all
qed

lemma unat_minus': "w \<noteq> 0 \<Longrightarrow> unat (- w :: u32) = 4294967296 - unat w"
proof -
  assume "w \<noteq> 0"
  then have "0 < unat w" by (simp add: unat_gt_0)
  then show ?thesis using unat_sub_if' [of 0 w] by simp
qed

text \<open>C27: atoi reads back every 32-bit integer that itoa wrote into a zeroed buffer.\<close>

theorem itoa_atoi_roundtrip:
  assumes "\<forall>i < 13. m (b + of_nat i) = 0" and "clear_of sp b 13"
  shows "\<exists>n m'. itoa b dec m = Some (n, m') \<and> atoi sp b m' = Some dec"
proof -
  have neg: "atoi sp b (store_bytes b (45 # dig k d) m) = Some (- of_nat d)" if "d < 10 ^ Suc k" "k \<le> 9" for k d
    using atoi_negative [OF that, of "store_bytes b (45 # dig k d) m" b] printed_holds [OF assms(1), of "45 # dig k d"]
      that clear_of_mono [OF assms(2), of "k + 4"] by simp
  have pos: "atoi sp b (store_bytes b (dig k d) m) = Some (of_nat d)" if "d < 10 ^ Suc k" "k \<le> 9" for k d
    using atoi_reads_decimal' [OF that, of "store_bytes b (dig k d) m" b] printed_holds [OF assms(1), of "dig k d"]
      that clear_of_mono [OF assms(2), of "k + 3"] by simp
  consider "dec = 0x80000000" | "sint dec < 0" "dec \<noteq> 0x80000000" | "dec = 0" | "0 < sint dec"
  proof -
    have "unat dec = 0" if "sint dec = 0" using that sint_unat [of dec] unat_less_32 [of dec] by linarith
    then show thesis using less_linear [of "sint dec" 0] that by (auto simp: word_unat_eq_iff)
  qed
  then show ?thesis
  proof cases
    case 1
    have "butlast min_digits = dig 9 2147483648" by (simp add: min_digits_def dig_numeral)
    with neg [of 2147483648 9] 1 show ?thesis by (simp add: itoa_def)
  next
    case 2
    define d where "d = unat (- dec)"
    have "2147483648 \<le> unat dec" "unat dec \<noteq> 2147483648" "dec \<noteq> 0"
      using 2 sint_unat [of dec] by (auto simp: word_unat_eq_iff)
    then have d: "0 < d" "d < 2147483648"
      unfolding d_def using unat_less_32 [of dec] by (simp_all add: unat_minus' )
    then obtain k where k: "k \<le> 9" "d < 10 ^ Suc k"
      "itoa_pos b (b + 1) (of_nat d) (m(b := 45)) = Some (b + 1 + of_nat (Suc k) - b, store_bytes (b + 1) (dig k d) (m(b := 45)))"
      using itoa_pos_writes [OF d] by blast
    moreover have "of_nat d = - dec" by (simp add: d_def)
    ultimately show ?thesis using 2 neg [of d k] by (simp add: itoa_def)
  next
    case 3
    with pos [of 0 0] show ?thesis by (simp add: itoa_def digit_def)
  next
    case 4
    define d where "d = unat dec"
    have d: "0 < d" "d < 2147483648"
      using 4 sint_unat [of dec] unat_less_32 [of dec] unfolding d_def by linarith+
    then obtain k where k: "k \<le> 9" "d < 10 ^ Suc k"
      "itoa_pos b b (of_nat d) m = Some (b + of_nat (Suc k) - b, store_bytes b (dig k d) m)"
      using itoa_pos_writes [OF d] by blast
    moreover have "of_nat d = dec" by (simp add: d_def)
    moreover have "dec \<noteq> 0" using 4 by auto
    ultimately show ?thesis using 4 pos [of d k] by (simp add: itoa_def)
  qed
qed


text \<open>atoi of at most ten digits is their value modulo 2 ^ 32: the limit is not applied.\<close>

theorem atoi_reads_decimal:
  assumes "d < 10 ^ Suc k" and "k \<le> 9" and "holds m p (dig k d @ [0, 0])" and "clear_of sp p (k + 3)"
  shows "atoi sp p m = Some (of_nat d)"
  using assms by (rule atoi_reads_decimal')

theorem atoi_reads_decimal_witness:
  "atoi 0x9000 0x5000 (store_bytes 0x5000 (dig 9 4294967295) (\<lambda>_. 0)) = Some (of_nat 4294967295)"
proof (rule atoi_reads_decimal [of _ 9])
  show "holds (store_bytes 0x5000 (dig 9 4294967295) (\<lambda>_. 0)) 0x5000 (dig 9 4294967295 @ [0, 0])"
    by (rule printed_holds) simp_all
  show "clear_of 0x9000 0x5000 (9 + 3)" by (rule clear_of_below) simp_all
qed simp_all

theorem itoa_atoi_roundtrip_witness:
  "\<exists>n m'. itoa 0x5000 (- 2012) (\<lambda>_. 0) = Some (n, m') \<and> atoi 0x9000 0x5000 m' = Some (- 2012)"
proof (rule itoa_atoi_roundtrip)
  show "clear_of 0x9000 0x5000 13" by (rule clear_of_below) simp_all
qed simp

text \<open>
  \<^verbatim>\<open>detach_node\<close> on the path \<^verbatim>\<open>/a\<close>: it steps over the terminator, and a slash in the bytes that follow
  makes it report that the node is not the last one.
\<close>

lemma detach_node_overruns:
  "detach_node 0 0x100 0x200 0 14 (store_bytes 0x100 [47, 97, 0, 47, 98, 0] (\<lambda>_. 0)) =
     Some (1, 1, (store_bytes 0x100 [47, 97, 0, 47, 98, 0] (\<lambda>_. 0))(0x200 := 97))"
  by (simp add: detach_node_def seek_loop.simps name_loop.simps rest_loop.simps)

lemma detach_node_last:
  "detach_node 0 0x100 0x200 0 14 (store_bytes 0x100 [47, 97, 0] (\<lambda>_. 0)) =
     Some (1, 0, (store_bytes 0x100 [47, 97, 0] (\<lambda>_. 0))(0x200 := 97))"
  by (simp add: detach_node_def seek_loop.simps name_loop.simps rest_loop.simps)

end
