(* ===== verification/Vfs.thy ===== *)
theory Vfs
  imports Kcache ListHead Stdlib
begin

text \<open>
  The object model of \<^verbatim>\<open>include/kernel/kmodel.h\<close> and the directory tree of \<^verbatim>\<open>kernel/kmodel.c\<close>:
  directories, inodes and open files as typed stores over addresses, their list nodes in one link
  store, their allocation in the caches of \<^verbatim>\<open>kernel/cache.c\<close>. A file system or driver is reached
  through pointers to function tables, which are parameters: \<^verbatim>\<open>dops\<close> maps the address of a
  \<^verbatim>\<open>struct dir_op\<close> to its functions, a null member being \<^const>\<open>None\<close>. Out-parameters (\<^verbatim>\<open>ppdir\<close>,
  \<^verbatim>\<open>ppi\<close>, \<^verbatim>\<open>pitr\<close>) and name buffers are the addresses of locals of the callers and never null; they are
  passed and returned as values. Character arrays are functions from indices, so that a comparison
  may run over the end of a name as it does in C. A spin on a held lock or a fault is \<^const>\<open>None\<close>.
\<close>

unbundle bit_operations_syntax

section \<open>Objects\<close>

type_synonym name = "nat \<Rightarrow> u8"

definition K_MAX_LEN_NODE_NAME :: nat where [code_defs]: "K_MAX_LEN_NODE_NAME = 14"
definition K_MAX_FILE_OPEN_PPS :: nat where [code_defs]: "K_MAX_FILE_OPEN_PPS = 256"

definition ITYPE_ALIVE :: u32 where [code_defs]: "ITYPE_ALIVE = 0x10000000"
definition ITYPE_ARCHIVE :: u32 where [code_defs]: "ITYPE_ARCHIVE = ITYPE_ALIVE OR 0x00000001"
definition ITYPE_DIR :: u32 where [code_defs]: "ITYPE_DIR = ITYPE_ALIVE OR 0x00000002"

record itemattrib =
  i_name :: name
  t_create :: u32
  d_create :: u32
  t_lastaccess :: u32
  d_lastaccess :: u32
  i_size :: u32
  i_type :: u32
  i_devnum :: u32

record itemdata =
  i_attrib :: itemattrib
  i_private :: addr
  i_rcnt :: u32
  i_volnum :: u8
  d_parent :: addr
  i_root :: addr
  d_op :: addr
  f_op :: addr

record owner_struct =
  own_ptsk :: addr
  own_pthsk :: addr

record kfile =
  f_pi :: addr
  f_owner :: owner_struct
  f_mode :: u32
  f_private :: addr

record inode =
  i_data :: itemdata
  f_lst :: addr
  lck_f_lst :: spin_lock

record dir =
  lck_d_child :: spin_lock
  d_child :: addr
  lck_i_child :: spin_lock
  i_child :: addr
  d_data :: itemdata

record task_struct =
  t_fcnt :: u32
  t_flck :: spin_lock
  t_file :: "nat \<Rightarrow> addr"

record vfs =
  kcaches :: caches
  vmem :: mem
  vlinks :: links
  dirs :: "addr \<Rightarrow> dir"
  inodes :: "addr \<Rightarrow> inode"
  files :: "addr \<Rightarrow> kfile"
  tasks :: "addr \<Rightarrow> task_struct"
  tsk_running :: addr
  thr_running :: addr

text \<open>Where the list nodes sit in their structs, and back.\<close>

definition d_brother :: "addr \<Rightarrow> addr" where "d_brother p = p + 16"
definition dir_of :: "addr \<Rightarrow> addr" where "dir_of q = q - 16"
definition i_brother :: "addr \<Rightarrow> addr" where "i_brother p = p"
definition inode_of :: "addr \<Rightarrow> addr" where "inode_of q = q"
definition file_node :: "addr \<Rightarrow> addr" where "file_node p = p + 20"

type_synonym 's item_fun = "(addr \<Rightarrow> itemattrib \<Rightarrow> name \<Rightarrow> 's vfs_scheme \<Rightarrow> (cint \<times> itemattrib \<times> 's vfs_scheme) option) option"
type_synonym 's node_fun = "(addr \<Rightarrow> addr \<Rightarrow> name \<Rightarrow> 's vfs_scheme \<Rightarrow> (cint \<times> 's vfs_scheme) option) option"
type_synonym 's shut_fun = "(addr \<Rightarrow> addr \<Rightarrow> 's vfs_scheme \<Rightarrow> (cint \<times> 's vfs_scheme) option) option"
type_synonym 's del_fun = "(addr \<Rightarrow> name \<Rightarrow> 's vfs_scheme \<Rightarrow> (cint \<times> 's vfs_scheme) option) option"

record 's dir_op =
  op_mknode :: "'s item_fun"
  op_touch :: "'s item_fun"
  op_mkdir :: "'s item_fun"
  op_rm :: "'s del_fun"
  op_rmdir :: "'s del_fun"
  op_rename :: "'s item_fun"
  op_opendir :: "'s node_fun"
  op_closedir :: "'s shut_fun"
  op_openinode :: "'s node_fun"
  op_closeinode :: "'s shut_fun"
  op_readitem :: "(addr \<Rightarrow> itemattrib \<Rightarrow> cint \<Rightarrow> 's vfs_scheme \<Rightarrow> (cint \<times> itemattrib \<times> 's vfs_scheme) option) option"
  op_readattrib :: "'s item_fun"

type_synonym 's file_open = "(addr \<Rightarrow> addr \<Rightarrow> 's vfs_scheme \<Rightarrow> (cint \<times> 's vfs_scheme) option) option"

definition upd_dir :: "addr \<Rightarrow> (dir \<Rightarrow> dir) \<Rightarrow> 's vfs_scheme \<Rightarrow> 's vfs_scheme" where
  "upd_dir p f s = s\<lparr>dirs := (dirs s)(p := f (dirs s p))\<rparr>"

definition upd_inode :: "addr \<Rightarrow> (inode \<Rightarrow> inode) \<Rightarrow> 's vfs_scheme \<Rightarrow> 's vfs_scheme" where
  "upd_inode p f s = s\<lparr>inodes := (inodes s)(p := f (inodes s p))\<rparr>"

definition upd_file :: "addr \<Rightarrow> (kfile \<Rightarrow> kfile) \<Rightarrow> 's vfs_scheme \<Rightarrow> 's vfs_scheme" where
  "upd_file p f s = s\<lparr>files := (files s)(p := f (files s p))\<rparr>"

definition upd_task :: "addr \<Rightarrow> (task_struct \<Rightarrow> task_struct) \<Rightarrow> 's vfs_scheme \<Rightarrow> 's vfs_scheme" where
  "upd_task p f s = s\<lparr>tasks := (tasks s)(p := f (tasks s p))\<rparr>"

definition zero_attrib :: itemattrib where
  "zero_attrib = \<lparr>i_name = (\<lambda>_. 0), t_create = 0, d_create = 0, t_lastaccess = 0, d_lastaccess = 0,
     i_size = 0, i_type = 0, i_devnum = 0\<rparr>"

definition zero_data :: itemdata where
  "zero_data = \<lparr>i_attrib = zero_attrib, i_private = 0, i_rcnt = 0, i_volnum = 0, d_parent = 0, i_root = 0,
     d_op = 0, f_op = 0\<rparr>"

definition zero_dir :: dir where
  "zero_dir = \<lparr>lck_d_child = unlocked, d_child = 0, lck_i_child = unlocked, i_child = 0, d_data = zero_data\<rparr>"

definition zero_inode :: inode where
  "zero_inode = \<lparr>i_data = zero_data, f_lst = 0, lck_f_lst = unlocked\<rparr>"

text \<open>\<^verbatim>\<open>strncmp\<close> of two character arrays.\<close>

fun name_cmp :: "nat \<Rightarrow> name \<Rightarrow> name \<Rightarrow> cint" where
  "name_cmp 0 f g = char_diff (f 0) (g 0)"
| "name_cmp (Suc n) f g =
     (if f 0 \<noteq> 0 \<and> g 0 \<noteq> 0 \<and> char_diff (f 0) (g 0) = 0 then name_cmp n (\<lambda>i. f (Suc i)) (\<lambda>i. g (Suc i))
      else char_diff (f 0) (g 0))"

section \<open>Looking up nodes in the kernel's tree\<close>

partial_function (option) coredir_loop :: "addr \<Rightarrow> addr \<Rightarrow> name \<Rightarrow> 's vfs_scheme \<Rightarrow> addr option option" where
  "coredir_loop ph set0 nm s =
     (let ths = dir_of ph
      in if name_cmp K_MAX_LEN_NODE_NAME (i_name (i_attrib (d_data (dirs s ths)))) nm \<noteq> 0
         then let ph' = nxt (vlinks s ph)
              in if ph' \<noteq> set0 then coredir_loop ph' set0 nm s else Some None
         else Some (Some ths))"

definition dir_check_coredir :: "addr \<Rightarrow> addr \<Rightarrow> name \<Rightarrow> 's vfs_scheme \<Rightarrow> (cint \<times> addr \<times> 's vfs_scheme) option" where
  "dir_check_coredir pdir ppdir nm s =
     (if NULL = pdir \<or> NULL = d_child (dirs s pdir) then Some (INVALID, ppdir, s)
      else case get_spinlock (lck_d_child (dirs s pdir)) of
             None \<Rightarrow> None
           | Some l \<Rightarrow>
               let s1 = upd_dir pdir (\<lambda>d. d\<lparr>lck_d_child := l\<rparr>) s;
                   ph = d_brother (d_child (dirs s1 pdir));
                   s2 = upd_dir pdir (\<lambda>d. d\<lparr>lck_d_child := release_spinlock l\<rparr>) s1
               in case coredir_loop ph ph nm s1 of
                    None \<Rightarrow> None
                  | Some None \<Rightarrow> Some (INVALID, NULL, s2)
                  | Some (Some ths) \<Rightarrow> Some (VALID, ths, s2))"

partial_function (option) coreinode_loop :: "addr \<Rightarrow> addr \<Rightarrow> name \<Rightarrow> 's vfs_scheme \<Rightarrow> addr option option" where
  "coreinode_loop ph set0 nm s =
     (let ths = inode_of ph
      in if name_cmp K_MAX_LEN_NODE_NAME (i_name (i_attrib (i_data (inodes s ths)))) nm \<noteq> 0
         then let ph' = nxt (vlinks s ph)
              in if ph' \<noteq> set0 then coreinode_loop ph' set0 nm s else Some None
         else Some (Some ths))"

definition dir_check_coreinode :: "addr \<Rightarrow> addr \<Rightarrow> name \<Rightarrow> 's vfs_scheme \<Rightarrow> (cint \<times> addr \<times> 's vfs_scheme) option" where
  "dir_check_coreinode pdir ppi nm s =
     (if NULL = pdir \<or> NULL = i_child (dirs s pdir) then Some (INVALID, ppi, s)
      else case get_spinlock (lck_i_child (dirs s pdir)) of
             None \<Rightarrow> None
           | Some l \<Rightarrow>
               let s1 = upd_dir pdir (\<lambda>d. d\<lparr>lck_i_child := l\<rparr>) s;
                   ph = i_brother (i_child (dirs s1 pdir));
                   s2 = upd_dir pdir (\<lambda>d. d\<lparr>lck_i_child := release_spinlock l\<rparr>) s1
               in case coreinode_loop ph ph nm s1 of
                    None \<Rightarrow> None
                  | Some None \<Rightarrow> Some (INVALID, NULL, s2)
                  | Some (Some ths) \<Rightarrow> Some (VALID, ths, s2))"

text \<open>\<^verbatim>\<open>&(ppdir->d_data)\<close> and \<^verbatim>\<open>&(pinode->i_data)\<close> as the two kinds of item a lookup finds.\<close>

datatype item = NoItem | DirItem addr | InodeItem addr

definition dir_check_coreitem :: "addr \<Rightarrow> item \<Rightarrow> name \<Rightarrow> 's vfs_scheme \<Rightarrow> (cint \<times> item \<times> 's vfs_scheme) option" where
  "dir_check_coreitem pdir ppitm nm s =
     (if NULL = pdir then Some (INVALID, ppitm, s)
      else case dir_check_coredir pdir NULL nm s of
             None \<Rightarrow> None
           | Some (r, p, s1) \<Rightarrow>
               if INVALID \<noteq> r then Some (VALID, DirItem p, s1)
               else case dir_check_coreinode pdir NULL nm s1 of
                      None \<Rightarrow> None
                    | Some (r, p, s2) \<Rightarrow>
                        Some (if INVALID \<noteq> r then (VALID, InodeItem p, s2) else (INVALID, ppitm, s2)))"

definition item_attrib :: "item \<Rightarrow> 's vfs_scheme \<Rightarrow> itemattrib" where
  "item_attrib it s =
     (case it of DirItem p \<Rightarrow> i_attrib (d_data (dirs s p)) | InodeItem p \<Rightarrow> i_attrib (i_data (inodes s p))
      | NoItem \<Rightarrow> zero_attrib)"

section \<open>Looking up nodes in the file system\<close>

definition dir_check_fsitem ::
    "(addr \<Rightarrow> 's dir_op) \<Rightarrow> addr \<Rightarrow> itemattrib \<Rightarrow> name \<Rightarrow> 's vfs_scheme \<Rightarrow> (cint \<times> itemattrib \<times> 's vfs_scheme) option" where
  "dir_check_fsitem dops pdir pitr nm s =
     (if NULL = pdir then Some (INVALID, pitr, s)
      else
        let op = d_op (d_data (dirs s pdir))
        in if NULL = op then Some (INVALID, pitr, s)
           else case op_readattrib (dops op) of
                  None \<Rightarrow> Some (INVALID, pitr, s)
                | Some f \<Rightarrow> f pdir pitr nm s)"

definition dir_check_fsdir ::
    "(addr \<Rightarrow> 's dir_op) \<Rightarrow> addr \<Rightarrow> itemattrib \<Rightarrow> name \<Rightarrow> 's vfs_scheme \<Rightarrow> (cint \<times> itemattrib \<times> 's vfs_scheme) option" where
  "dir_check_fsdir dops pdir pitr nm s =
     map_option (\<lambda>(r, a, s1).
          if INVALID = r then (INVALID, a, s1)
          else (if i_type a AND ITYPE_DIR \<noteq> 0 then VALID else INVALID, a, s1)) (dir_check_fsitem dops pdir pitr nm s)"

definition dir_check_fsinode ::
    "(addr \<Rightarrow> 's dir_op) \<Rightarrow> addr \<Rightarrow> itemattrib \<Rightarrow> name \<Rightarrow> 's vfs_scheme \<Rightarrow> (cint \<times> itemattrib \<times> 's vfs_scheme) option" where
  "dir_check_fsinode dops pdir pitr nm s =
     map_option (\<lambda>(r, a, s1).
          if INVALID = r then (INVALID, a, s1)
          else (if i_type a AND ITYPE_DIR \<noteq> 0 then INVALID else VALID, a, s1)) (dir_check_fsitem dops pdir pitr nm s)"

definition dir_check_item ::
    "(addr \<Rightarrow> 's dir_op) \<Rightarrow> addr \<Rightarrow> itemattrib \<Rightarrow> name \<Rightarrow> 's vfs_scheme \<Rightarrow> (cint \<times> itemattrib \<times> 's vfs_scheme) option" where
  "dir_check_item dops pdir pitr nm s =
     (case dir_check_coreitem pdir NoItem nm s of
        None \<Rightarrow> None
      | Some (r, it, s1) \<Rightarrow>
          if INVALID \<noteq> r \<and> it \<noteq> NoItem then Some (VALID, item_attrib it s1, s1)
          else dir_check_fsitem dops pdir pitr nm s1)"

definition dir_check_dir ::
    "(addr \<Rightarrow> 's dir_op) \<Rightarrow> addr \<Rightarrow> itemattrib \<Rightarrow> name \<Rightarrow> 's vfs_scheme \<Rightarrow> (cint \<times> itemattrib \<times> 's vfs_scheme) option" where
  "dir_check_dir dops pdir pitr nm s =
     (if NULL = pdir then Some (INVALID, pitr, s)
      else case dir_check_coredir pdir NULL nm s of
             None \<Rightarrow> None
           | Some (r, p, s1) \<Rightarrow>
               if INVALID = r then dir_check_fsdir dops pdir pitr nm s1
               else if NULL = p then Some (INVALID, pitr, s1)
               else Some (VALID, i_attrib (d_data (dirs s1 p)), s1))"

definition dir_check_inode ::
    "(addr \<Rightarrow> 's dir_op) \<Rightarrow> addr \<Rightarrow> itemattrib \<Rightarrow> name \<Rightarrow> 's vfs_scheme \<Rightarrow> (cint \<times> itemattrib \<times> 's vfs_scheme) option" where
  "dir_check_inode dops pdir pitr nm s =
     (if NULL = pdir then Some (INVALID, pitr, s)
      else case dir_check_coreinode pdir NULL nm s of
             None \<Rightarrow> None
           | Some (r, p, s1) \<Rightarrow>
               if INVALID = r then dir_check_fsinode dops pdir pitr nm s1
               else if NULL = p then Some (INVALID, pitr, s1)
               else Some (VALID, i_attrib (i_data (inodes s1 p)), s1))"

end
