(* ===== verification/VfsOpen.thy ===== *)
theory VfsOpen
  imports Vfs
begin

text \<open>
  Opening and closing nodes (\<^verbatim>\<open>kernel/kmodel.c\<close>): allocation and initialisation of directories and
  inodes, their insertion into and removal from the tree, the file table of a task and the path walk
  \<^verbatim>\<open>sys_do_open\<close>.
\<close>

section \<open>Opening nodes\<close>

definition dir_do_opendir ::
    "(addr \<Rightarrow> 's dir_op) \<Rightarrow> addr \<Rightarrow> addr \<Rightarrow> name \<Rightarrow> 's vfs_scheme \<Rightarrow> (cint \<times> addr \<times> 's vfs_scheme) option" where
  "dir_do_opendir dops pdir ppdir nm s =
     (if NULL = pdir then Some (INVALID, ppdir, s)
      else case dir_check_coredir pdir ppdir nm s of
        None \<Rightarrow> None
      | Some (r, pp, s1) \<Rightarrow>
          if INVALID \<noteq> r then Some (VALID, pp, s1)
          else case dir_check_fsdir dops pdir zero_attrib nm s1 of
            None \<Rightarrow> None
          | Some (r, _, s2) \<Rightarrow>
              if INVALID = r then Some (INVALID, pp, s2)
              else
                let op = d_op (d_data (dirs s2 pdir))
                in if NULL = op then Some (INVALID, pp, s2)
                   else case op_opendir (dops op) of
                     None \<Rightarrow> Some (INVALID, pp, s2)
                   | Some f \<Rightarrow>
                       (case dir_cache_alloc (kcaches s2) (vmem s2) of
                          None \<Rightarrow> None
                        | Some (p, cs, m) \<Rightarrow>
                            let s3 = s2\<lparr>kcaches := cs, vmem := m\<rparr>
                            in if NULL = p then Some (INVALID, pp, s3)
                               else
                                 let par = d_data (dirs s3 pdir);
                                     s4 = upd_dir p (\<lambda>d. d\<lparr>lck_d_child := spinlock_init (lck_d_child d),
                                       lck_i_child := spinlock_init (lck_i_child d), d_child := NULL, i_child := NULL,
                                       d_data := (d_data d)\<lparr>d_op := d_op par, i_rcnt := 0, i_volnum := i_volnum par,
                                         d_parent := pdir, i_root := i_root par\<rparr>\<rparr>) s3;
                                     s5 = s4\<lparr>vlinks := list_ini (d_brother p) (vlinks s4)\<rparr>
                                 in case f pdir p nm s5 of
                                      None \<Rightarrow> None
                                    | Some (r, s6) \<Rightarrow>
                                        if INVALID = r
                                        then map_option (\<lambda>(cs, m). (INVALID, NULL, s6\<lparr>kcaches := cs, vmem := m\<rparr>))
                                               (dir_cache_free p (kcaches s6) (vmem s6))
                                        else Some (VALID, p, s6)))"

definition dir_do_openinode ::
    "(addr \<Rightarrow> 's dir_op) \<Rightarrow> addr \<Rightarrow> addr \<Rightarrow> name \<Rightarrow> 's vfs_scheme \<Rightarrow> (cint \<times> addr \<times> 's vfs_scheme) option" where
  "dir_do_openinode dops pdir ppi nm s =
     (if NULL = pdir then Some (INVALID, ppi, s)
      else case dir_check_coreinode pdir ppi nm s of
        None \<Rightarrow> None
      | Some (r, pp, s1) \<Rightarrow>
          if INVALID \<noteq> r then Some (VALID, pp, s1)
          else case dir_check_fsinode dops pdir zero_attrib nm s1 of
            None \<Rightarrow> None
          | Some (r, _, s2) \<Rightarrow>
              if INVALID = r then Some (INVALID, pp, s2)
              else
                let op = d_op (d_data (dirs s2 pdir))
                in if NULL = op then Some (INVALID, pp, s2)
                   else case op_openinode (dops op) of
                     None \<Rightarrow> Some (INVALID, pp, s2)
                   | Some f \<Rightarrow>
                       (case inode_cache_alloc (kcaches s2) (vmem s2) of
                          None \<Rightarrow> None
                        | Some (p, cs, m) \<Rightarrow>
                            let s3 = s2\<lparr>kcaches := cs, vmem := m\<rparr>
                            in if NULL = p then Some (INVALID, pp, s3)
                               else
                                 let par = d_data (dirs s3 pdir);
                                     s4 = upd_inode p (\<lambda>i. i\<lparr>i_data := (i_data i)\<lparr>i_rcnt := 0, i_volnum := i_volnum par,
                                         d_parent := pdir, i_root := i_root par\<rparr>, f_lst := NULL,
                                         lck_f_lst := spinlock_init (lck_f_lst i)\<rparr>) s3;
                                     s5 = s4\<lparr>vlinks := list_ini (i_brother p) (vlinks s4)\<rparr>
                                 in case f pdir p nm s5 of
                                      None \<Rightarrow> None
                                    | Some (r, s6) \<Rightarrow>
                                        if INVALID = r
                                        then map_option (\<lambda>(cs, m). (INVALID, NULL, s6\<lparr>kcaches := cs, vmem := m\<rparr>))
                                               (inode_cache_free p (kcaches s6) (vmem s6))
                                        else Some (VALID, p, s6)))"

definition dir_do_opennewinode ::
    "(addr \<Rightarrow> 's dir_op) \<Rightarrow> addr \<Rightarrow> addr \<Rightarrow> name \<Rightarrow> 's vfs_scheme \<Rightarrow> (cint \<times> addr \<times> 's vfs_scheme) option" where
  "dir_do_opennewinode dops pdir ppi nm s =
     (if NULL = pdir then Some (INVALID, ppi, s)
      else
        let op = d_op (d_data (dirs s pdir))
        in if NULL = op then Some (INVALID, ppi, s)
           else case op_touch (dops op) of
             None \<Rightarrow> Some (INVALID, ppi, s)
           | Some f \<Rightarrow>
               (case op_openinode (dops op) of
                  None \<Rightarrow> Some (INVALID, ppi, s)
                | Some _ \<Rightarrow>
                    (case f pdir zero_attrib nm s of
                       None \<Rightarrow> None
                     | Some (r, _, s1) \<Rightarrow>
                         if INVALID = r then Some (INVALID, ppi, s1) else dir_do_openinode dops pdir ppi nm s1)))"

definition dir_opendir_done :: "addr \<Rightarrow> addr \<Rightarrow> 's vfs_scheme \<Rightarrow> (cint \<times> 's vfs_scheme) option" where
  "dir_opendir_done pdir ppdir s =
     (if NULL = pdir \<or> NULL = ppdir then Some (INVALID, s)
      else case dir_check_coreitem pdir NoItem (i_name (i_attrib (d_data (dirs s ppdir)))) s of
        None \<Rightarrow> None
      | Some (r, it, s1) \<Rightarrow>
          if INVALID \<noteq> r then Some (if it = DirItem ppdir then VALID else INVALID, s1)
          else case get_spinlock (lck_d_child (dirs s1 pdir)) of
            None \<Rightarrow> None
          | Some l \<Rightarrow>
              let s2 = upd_dir pdir (\<lambda>d. d\<lparr>lck_d_child := l\<rparr>) s1;
                  s3 = (if NULL = d_child (dirs s2 pdir) then upd_dir pdir (\<lambda>d. d\<lparr>d_child := ppdir\<rparr>) s2
                        else
                          let s = upd_dir ppdir (\<lambda>d. d\<lparr>d_data := (d_data d)\<lparr>i_rcnt := i_rcnt (d_data d) + 1\<rparr>\<rparr>) s2
                          in s\<lparr>vlinks := list_inserttail (d_brother (d_child (dirs s pdir))) (d_brother ppdir) (vlinks s)\<rparr>)
              in Some (VALID, upd_dir pdir (\<lambda>d. d\<lparr>lck_d_child := release_spinlock l\<rparr>) s3))"

definition dir_openinode_done :: "addr \<Rightarrow> addr \<Rightarrow> 's vfs_scheme \<Rightarrow> (cint \<times> 's vfs_scheme) option" where
  "dir_openinode_done pdir pi s =
     (if NULL = pdir \<or> NULL = pi then Some (INVALID, s)
      else case dir_check_coreitem pdir NoItem (i_name (i_attrib (i_data (inodes s pi)))) s of
        None \<Rightarrow> None
      | Some (r, it, s1) \<Rightarrow>
          if INVALID \<noteq> r then Some (if it = InodeItem pi then VALID else INVALID, s1)
          else case get_spinlock (lck_i_child (dirs s1 pdir)) of
            None \<Rightarrow> None
          | Some l \<Rightarrow>
              let s2 = upd_dir pdir (\<lambda>d. d\<lparr>lck_i_child := l\<rparr>) s1;
                  s3 = (if NULL = i_child (dirs s2 pdir) then upd_dir pdir (\<lambda>d. d\<lparr>i_child := pi\<rparr>) s2
                        else s2\<lparr>vlinks := list_inserttail (i_brother (i_child (dirs s2 pdir))) (i_brother pi) (vlinks s2)\<rparr>)
              in Some (VALID, upd_dir pdir (\<lambda>d. d\<lparr>lck_i_child := release_spinlock l\<rparr>) s3))"

section \<open>Closing nodes\<close>

definition dec_rcnt :: "addr \<Rightarrow> 's vfs_scheme \<Rightarrow> 's vfs_scheme" where
  "dec_rcnt p = upd_dir p (\<lambda>d. d\<lparr>d_data := (d_data d)\<lparr>i_rcnt := i_rcnt (d_data d) - 1\<rparr>\<rparr>)"

text \<open>Taking the node out of the parent's ring; \<^const>\<open>None\<close> is the branch that prints \<^verbatim>\<open>Core crashd!\<close>.\<close>

definition unlink_dir :: "addr \<Rightarrow> addr \<Rightarrow> 's vfs_scheme \<Rightarrow> 's vfs_scheme option" where
  "unlink_dir pdir ppdir s =
     (let b = vlinks s (d_brother ppdir)
      in if nxt b = pre b
         then if d_child (dirs s pdir) = ppdir
              then Some (dec_rcnt pdir (upd_dir pdir (\<lambda>d. d\<lparr>d_child := NULL\<rparr>) s)) else None
         else
           let s1 = s\<lparr>vlinks := list_remove (d_brother ppdir) (vlinks s)\<rparr>
           in Some (dec_rcnt pdir (upd_dir pdir (\<lambda>d. d\<lparr>d_child := dir_of (nxt b)\<rparr>) s1)))"

definition dir_close_dir :: "(addr \<Rightarrow> 's dir_op) \<Rightarrow> addr \<Rightarrow> addr \<Rightarrow> 's vfs_scheme \<Rightarrow> (cint \<times> 's vfs_scheme) option" where
  "dir_close_dir dops pdir ppdir s =
     (if NULL = pdir \<or> NULL = ppdir then Some (INVALID, s)
      else if pdir \<noteq> d_parent (d_data (dirs s ppdir)) then Some (INVALID, s)
      else case dir_check_coredir pdir NULL (i_name (i_attrib (d_data (dirs s ppdir)))) s of
        None \<Rightarrow> None
      | Some (r, p, s1) \<Rightarrow>
          if INVALID = r \<or> ppdir \<noteq> p then Some (INVALID, s1)
          else case get_spinlock (lck_d_child (dirs s1 pdir)) of
            None \<Rightarrow> None
          | Some l \<Rightarrow>
              (let s2 = upd_dir pdir (\<lambda>d. d\<lparr>lck_d_child := l\<rparr>) s1;
                   unlock = upd_dir pdir (\<lambda>d. d\<lparr>lck_d_child := release_spinlock l\<rparr>)
               in case unlink_dir pdir ppdir s2 of
                    None \<Rightarrow> Some (INVALID, unlock s2)
                  | Some s3 \<Rightarrow>
                      let op = d_op (d_data (dirs s3 pdir));
                          call = (if NULL = op then Some (VALID, s3)
                                  else case op_closedir (dops op) of
                                         None \<Rightarrow> Some (VALID, s3) | Some f \<Rightarrow> f pdir ppdir s3)
                      in Option.bind call (\<lambda>(r, s4).
                           map_option (\<lambda>(cs, m).
                             (r, unlock (upd_dir ppdir (\<lambda>_. zero_dir)
                                   (s4\<lparr>kcaches := cs, vmem := m,
                                       vlinks := (vlinks s4)(d_brother ppdir := \<lparr>nxt = 0, pre = 0\<rparr>)\<rparr>))))
                             (dir_cache_free ppdir (kcaches s4) (vmem s4)))))"

definition unlink_inode :: "addr \<Rightarrow> addr \<Rightarrow> 's vfs_scheme \<Rightarrow> 's vfs_scheme option" where
  "unlink_inode pdir pi s =
     (let b = vlinks s (i_brother pi)
      in if nxt b = pre b
         then if i_child (dirs s pdir) = pi
              then Some (dec_rcnt pdir (upd_dir pdir (\<lambda>d. d\<lparr>i_child := NULL\<rparr>) s)) else None
         else
           let s1 = s\<lparr>vlinks := list_remove (i_brother pi) (vlinks s)\<rparr>
           in Some (dec_rcnt pdir (upd_dir pdir (\<lambda>d. d\<lparr>i_child := inode_of (nxt b)\<rparr>) s1)))"

definition dir_close_inode :: "(addr \<Rightarrow> 's dir_op) \<Rightarrow> addr \<Rightarrow> addr \<Rightarrow> 's vfs_scheme \<Rightarrow> (cint \<times> 's vfs_scheme) option" where
  "dir_close_inode dops pdir pi s =
     (if NULL = pdir \<or> NULL = pi then Some (INVALID, s)
      else if pdir \<noteq> d_parent (i_data (inodes s pi)) then Some (INVALID, s)
      else case dir_check_coreinode pdir NULL (i_name (i_attrib (i_data (inodes s pi)))) s of
        None \<Rightarrow> None
      | Some (r, p, s1) \<Rightarrow>
          if INVALID = r \<or> pi \<noteq> p then Some (INVALID, s1)
          else case get_spinlock (lck_i_child (dirs s1 pdir)) of
            None \<Rightarrow> None
          | Some l \<Rightarrow>
              (let s2 = upd_dir pdir (\<lambda>d. d\<lparr>lck_i_child := l\<rparr>) s1;
                   unlock = upd_dir pdir (\<lambda>d. d\<lparr>lck_i_child := release_spinlock l\<rparr>)
               in if NULL \<noteq> f_lst (inodes s2 pi) then Some (INVALID, unlock s2)
                  else case unlink_inode pdir pi s2 of
                    None \<Rightarrow> Some (INVALID, unlock s2)
                  | Some s3 \<Rightarrow>
                      let op = d_op (d_data (dirs s3 pdir));
                          call = (if NULL = op then Some (VALID, s3)
                                  else case op_closeinode (dops op) of
                                         None \<Rightarrow> Some (VALID, s3) | Some f \<Rightarrow> f pdir pi s3)
                      in Option.bind call (\<lambda>(r, s4).
                           map_option (\<lambda>(cs, m).
                             (r, unlock (upd_inode pi (\<lambda>_. zero_inode)
                                   (s4\<lparr>kcaches := cs, vmem := m,
                                       vlinks := (vlinks s4)(i_brother pi := \<lparr>nxt = 0, pre = 0\<rparr>)\<rparr>))))
                             (inode_cache_free pi (kcaches s4) (vmem s4)))))"

section \<open>Open files of a task\<close>

fun check_fd :: "addr \<Rightarrow> addr \<Rightarrow> 's vfs_scheme \<Rightarrow> nat \<Rightarrow> nat \<Rightarrow> nat option" where
  "check_fd tsk pi s i 0 = None"
| "check_fd tsk pi s i (Suc n) =
     (let f = t_file (tasks s tsk) i
      in if NULL \<noteq> f \<and> pi = f_pi (files s f) then Some i else check_fd tsk pi s (Suc i) n)"

definition fd_result :: "nat option \<Rightarrow> cint" where
  "fd_result r = (case r of None \<Rightarrow> INVALID | Some i \<Rightarrow> of_nat i)"

definition sys_check_taskfile :: "addr \<Rightarrow> addr \<Rightarrow> 's vfs_scheme \<Rightarrow> (cint \<times> 's vfs_scheme) option" where
  "sys_check_taskfile tsk pi s =
     (case get_spinlock (t_flck (tasks s tsk)) of
        None \<Rightarrow> None
      | Some l \<Rightarrow>
          Some (fd_result (check_fd tsk pi s 0 K_MAX_FILE_OPEN_PPS),
                upd_task tsk (\<lambda>t. t\<lparr>t_flck := release_spinlock l\<rparr>) s))"

fun free_fd :: "task_struct \<Rightarrow> nat \<Rightarrow> nat \<Rightarrow> nat option" where
  "free_fd t i 0 = None"
| "free_fd t i (Suc n) = (if NULL = t_file t i then Some i else free_fd t (Suc i) n)"

definition sys_set_taskfile :: "addr \<Rightarrow> addr \<Rightarrow> 's vfs_scheme \<Rightarrow> (cint \<times> 's vfs_scheme) option" where
  "sys_set_taskfile tsk pf s =
     (case get_spinlock (t_flck (tasks s tsk)) of
        None \<Rightarrow> None
      | Some l \<Rightarrow>
          let unlock = upd_task tsk (\<lambda>t. t\<lparr>t_flck := release_spinlock l\<rparr>); t = tasks s tsk
          in Some (if t_fcnt t \<ge> of_nat K_MAX_FILE_OPEN_PPS then (INVALID, unlock s)
                   else case free_fd t 3 (K_MAX_FILE_OPEN_PPS - 3) of
                          None \<Rightarrow> (INVALID, unlock s)
                        | Some i \<Rightarrow>
                            (of_nat i, unlock (upd_task tsk (\<lambda>t. t\<lparr>t_file := (t_file t)(i := pf),
                               t_fcnt := t_fcnt t + 1\<rparr>) s))))"

definition link_file :: "addr \<Rightarrow> addr \<Rightarrow> 's vfs_scheme \<Rightarrow> 's vfs_scheme option" where
  "link_file pi pf s =
     (case get_spinlock (lck_f_lst (inodes s pi)) of
        None \<Rightarrow> None
      | Some l \<Rightarrow>
          let s1 = (if NULL = f_lst (inodes s pi) then upd_inode pi (\<lambda>i. i\<lparr>f_lst := pf\<rparr>) s
                    else s\<lparr>vlinks := list_inserttail (file_node (f_lst (inodes s pi))) (file_node pf) (vlinks s)\<rparr>)
          in Some (upd_inode pi (\<lambda>i. i\<lparr>lck_f_lst := release_spinlock l\<rparr>) s1))"

definition sys_do_openfile ::
    "(addr \<Rightarrow> 's file_open) \<Rightarrow> addr \<Rightarrow> addr \<Rightarrow> u32 \<Rightarrow> 's vfs_scheme \<Rightarrow> (cint \<times> addr \<times> 's vfs_scheme) option" where
  "sys_do_openfile fops pi ppf mode s =
     (if NULL = pi then Some (INVALID, ppf, s)
      else case file_cache_alloc (kcaches s) (vmem s) of
        None \<Rightarrow> None
      | Some (pf, cs, m) \<Rightarrow>
          let s1 = s\<lparr>kcaches := cs, vmem := m\<rparr>
          in if NULL = pf then Some (INVALID, ppf, s1)
             else
               let s2 = upd_file pf (\<lambda>_. \<lparr>f_pi = pi,
                          f_owner = \<lparr>own_ptsk = tsk_running s1, own_pthsk = thr_running s1\<rparr>,
                          f_mode = mode, f_private = NULL\<rparr>) s1;
                   s3 = s2\<lparr>vlinks := list_ini (file_node pf) (vlinks s2)\<rparr>;
                   op = f_op (i_data (inodes s3 pi));
                   call = (if NULL = op then Some (VALID, s3)
                           else case fops op of None \<Rightarrow> Some (VALID, s3) | Some f \<Rightarrow> f pf pi s3)
               in Option.bind call (\<lambda>(r, s4).
                    if INVALID \<noteq> r then map_option (\<lambda>s5. (VALID, pf, s5)) (link_file pi pf s4)
                    else map_option (\<lambda>(cs, m). (INVALID, NULL, s4\<lparr>kcaches := cs, vmem := m\<rparr>))
                           (file_cache_free pf (kcaches s4) (vmem s4))))"

section \<open>The path walk\<close>

text \<open>
  The buffer \<^verbatim>\<open>nodename\<close> is a local at address \<^verbatim>\<open>buf\<close>, cleared once; \<^verbatim>\<open>name_at\<close> reads it as the callees do.
\<close>

definition name_at :: "addr \<Rightarrow> mem \<Rightarrow> name" where
  "name_at buf m i = m (buf + of_nat i)"

partial_function (option) open_walk ::
    "(addr \<Rightarrow> 's dir_op) \<Rightarrow> addr \<Rightarrow> addr \<Rightarrow> u32 \<Rightarrow> cint \<Rightarrow> addr \<Rightarrow> addr \<Rightarrow> 's vfs_scheme \<Rightarrow> (addr option \<times> 's vfs_scheme) option" where
  "open_walk dops buf ufilename i flg subdir p s =
     (if flg = 1
      then case dir_do_opendir dops subdir p (name_at buf (vmem s)) s of
             None \<Rightarrow> None
           | Some (r, p', s1) \<Rightarrow>
               (if INVALID = r then Some (None, s1)
                else case detach_node i ufilename buf flg (of_nat K_MAX_LEN_NODE_NAME) (vmem s1) of
                       None \<Rightarrow> None
                     | Some (_, flg', m) \<Rightarrow>
                         open_walk dops buf ufilename (i + 1) flg' p' p' (s1\<lparr>vmem := m\<rparr>))
      else Some (Some subdir, s))"

definition sys_do_open ::
    "(addr \<Rightarrow> 's dir_op) \<Rightarrow> (addr \<Rightarrow> 's file_open) \<Rightarrow> addr \<Rightarrow> addr \<Rightarrow> u32 \<Rightarrow> addr \<Rightarrow> 's vfs_scheme \<Rightarrow> (cint \<times> 's vfs_scheme) option" where
  "sys_do_open dops fops buf root mode ufilename s =
     (if NULL = root \<or> NULL = ufilename then Some (INVALID, s)
      else
        let m0 = snd (memset buf 0 15 (vmem s))
        in case detach_node 0 ufilename buf 0 (of_nat K_MAX_LEN_NODE_NAME) m0 of
             None \<Rightarrow> None
           | Some (_, flg, m) \<Rightarrow>
               (case open_walk dops buf ufilename 1 flg root NULL (s\<lparr>vmem := m\<rparr>) of
                  None \<Rightarrow> None
                | Some (None, s1) \<Rightarrow> Some (INVALID, s1)
                | Some (Some subdir, s1) \<Rightarrow>
                    (case dir_do_openinode dops subdir NULL (name_at buf (vmem s1)) s1 of
                       None \<Rightarrow> None
                     | Some (r, pi, s2) \<Rightarrow>
                         if INVALID = r then Some (INVALID, s2)
                         else case sys_check_taskfile (tsk_running s2) pi s2 of
                           None \<Rightarrow> None
                         | Some (fd, s3) \<Rightarrow>
                             if INVALID \<noteq> fd
                             then Some (if mode = f_mode (files s3 (t_file (tasks s3 (tsk_running s3)) (unat fd)))
                                        then fd else INVALID, s3)
                             else case sys_do_openfile fops pi NULL mode s3 of
                               None \<Rightarrow> None
                             | Some (r, pf, s4) \<Rightarrow>
                                 if INVALID = r then Some (INVALID, s4)
                                 else sys_set_taskfile (tsk_running s4) pf s4)))"

end
