(* ===== verification/VfsTree.thy ===== *)
theory VfsTree
  imports VfsOpen
begin

text \<open>
  What the directory tree of \<^verbatim>\<open>kernel/kmodel.c\<close> keeps. The children of a directory are a list: its
  head is \<^verbatim>\<open>d_child\<close>, and the list nodes of its elements form a ring. A lookup is a search of that list,
  \<^verbatim>\<open>dir_opendir_done\<close> appends to it and \<^verbatim>\<open>dir_close_dir\<close> takes one element out unless the list has exactly
  two. The file table of a task is a partial map from descriptors.
\<close>

section \<open>Children as lists\<close>

definition dir_name :: "'s vfs_scheme \<Rightarrow> addr \<Rightarrow> name" where
  "dir_name s p = i_name (i_attrib (d_data (dirs s p)))"

definition inode_name :: "'s vfs_scheme \<Rightarrow> addr \<Rightarrow> name" where
  "inode_name s p = i_name (i_attrib (i_data (inodes s p)))"

definition same_name :: "name \<Rightarrow> name \<Rightarrow> bool" where
  "same_name f g \<longleftrightarrow> name_cmp K_MAX_LEN_NODE_NAME f g = 0"

definition dir_children :: "'s vfs_scheme \<Rightarrow> addr \<Rightarrow> addr list \<Rightarrow> bool" where
  "dir_children s pdir cs \<longleftrightarrow> 0 \<notin> set cs \<and>
     (case cs of [] \<Rightarrow> d_child (dirs s pdir) = 0
      | c # ds \<Rightarrow> d_child (dirs s pdir) = c \<and> ring (vlinks s) (d_brother c) (map d_brother ds))"

definition inode_children :: "'s vfs_scheme \<Rightarrow> addr \<Rightarrow> addr list \<Rightarrow> bool" where
  "inode_children s pdir cs \<longleftrightarrow> 0 \<notin> set cs \<and>
     (case cs of [] \<Rightarrow> i_child (dirs s pdir) = 0
      | c # ds \<Rightarrow> i_child (dirs s pdir) = c \<and> ring (vlinks s) (i_brother c) (map i_brother ds))"

definition quiet :: "'s vfs_scheme \<Rightarrow> addr \<Rightarrow> bool" where
  "quiet s pdir \<longleftrightarrow> lck_d_child (dirs s pdir) = unlocked \<and> lck_i_child (dirs s pdir) = unlocked"

lemma brother_simps [simp]:
  "dir_of (d_brother p) = p" "d_brother p = d_brother q \<longleftrightarrow> p = q" "inj d_brother"
  "inode_of (i_brother p) = p" "i_brother p = i_brother q \<longleftrightarrow> p = q" "inj i_brother"
  by (auto simp: dir_of_def d_brother_def inode_of_def i_brother_def inj_def)

lemma char_diff_refl [simp]: "char_diff c c = 0"
  by (simp add: char_diff_def)

lemma name_cmp_refl [simp]: "name_cmp n f f = 0"
  by (induction n arbitrary: f) auto

lemma same_name_refl [simp]: "same_name f f"
  by (simp add: same_name_def)

lemma upd_dir_sel [simp]:
  "dirs (upd_dir p f s) q = (if q = p then f (dirs s p) else dirs s q)" "inodes (upd_dir p f s) = inodes s"
  "vlinks (upd_dir p f s) = vlinks s" "files (upd_dir p f s) = files s" "tasks (upd_dir p f s) = tasks s"
  "kcaches (upd_dir p f s) = kcaches s" "vmem (upd_dir p f s) = vmem s"
  by (simp_all add: upd_dir_def)

lemma upd_dir_twice [simp]: "upd_dir p f (upd_dir p g s) = upd_dir p (\<lambda>d. f (g d)) s"
  by (simp add: upd_dir_def)

lemma upd_dir_id: "f (dirs s p) = dirs s p \<Longrightarrow> upd_dir p f s = s"
  by (simp add: upd_dir_def)

section \<open>Lookup is search\<close>

lemma coredir_loop_path:
  assumes "path (vlinks s) (d_brother c) (map d_brother ds) e" and "e \<notin> set (map d_brother ds)"
  shows "coredir_loop (d_brother c) e nm s = Some (find (\<lambda>p. same_name (dir_name s p) nm) (c # ds))"
  using assms
proof (induction ds arbitrary: c)
  case Nil
  then show ?case by (subst coredir_loop.simps) (simp add: same_name_def dir_name_def)
next
  case (Cons d ds)
  then have "nxt (vlinks s (d_brother c)) = d_brother d" "d_brother d \<noteq> e" by auto
  moreover have "coredir_loop (d_brother d) e nm s = Some (find (\<lambda>p. same_name (dir_name s p) nm) (d # ds))"
    using Cons.prems by (intro Cons.IH) auto
  ultimately show ?case by (subst coredir_loop.simps) (simp add: same_name_def dir_name_def)
qed

lemma coreinode_loop_path:
  assumes "path (vlinks s) (i_brother c) (map i_brother ds) e" and "e \<notin> set (map i_brother ds)"
  shows "coreinode_loop (i_brother c) e nm s = Some (find (\<lambda>p. same_name (inode_name s p) nm) (c # ds))"
  using assms
proof (induction ds arbitrary: c)
  case Nil
  then show ?case by (subst coreinode_loop.simps) (simp add: same_name_def inode_name_def)
next
  case (Cons d ds)
  then have "nxt (vlinks s (i_brother c)) = i_brother d" "i_brother d \<noteq> e" by auto
  moreover have "coreinode_loop (i_brother d) e nm s = Some (find (\<lambda>p. same_name (inode_name s p) nm) (d # ds))"
    using Cons.prems by (intro Cons.IH) auto
  ultimately show ?case by (subst coreinode_loop.simps) (simp add: same_name_def inode_name_def)
qed

definition found :: "addr \<Rightarrow> addr list \<Rightarrow> addr option \<Rightarrow> cint \<times> addr" where
  "found pp cs r = (case r of None \<Rightarrow> (INVALID, if cs = [] then pp else NULL) | Some p \<Rightarrow> (VALID, p))"

lemma coredir_search:
  assumes "pdir \<noteq> 0" and "dir_children s pdir cs" and "quiet s pdir"
  shows "dir_check_coredir pdir pp nm s =
           (let (r, p) = found pp cs (find (\<lambda>p. same_name (dir_name s p) nm) cs) in Some (r, p, s))"
proof (cases cs)
  case Nil
  with assms show ?thesis by (simp add: dir_check_coredir_def dir_children_def found_def)
next
  case (Cons c ds)
  let ?s = "upd_dir pdir (\<lambda>d. d\<lparr>lck_d_child := spinlock unlocked\<rparr>) s"
  have "path (vlinks ?s) (d_brother c) (map d_brother ds) (d_brother c)" "d_brother c \<notin> set (map d_brother ds)"
    using assms Cons by (auto simp: dir_children_def ring_def)
  note loop = coredir_loop_path [OF this, of nm]
  have n: "dir_name ?s = dir_name s" by (auto simp: dir_name_def)
  have u: "upd_dir pdir (\<lambda>d. d\<lparr>lck_d_child := unlocked\<rparr>) s = s"
    using assms by (intro upd_dir_id) (simp add: quiet_def)
  have c: "c \<noteq> 0" "d_child (dirs s pdir) = c" using assms Cons by (auto simp: dir_children_def)
  show ?thesis
    using assms(1,3) c loop u
    by (simp add: dir_check_coredir_def quiet_def Let_def n found_def Cons split: option.split)
qed

lemma coreinode_search:
  assumes "pdir \<noteq> 0" and "inode_children s pdir cs" and "quiet s pdir"
  shows "dir_check_coreinode pdir pp nm s =
           (let (r, p) = found pp cs (find (\<lambda>p. same_name (inode_name s p) nm) cs) in Some (r, p, s))"
proof (cases cs)
  case Nil
  with assms show ?thesis by (simp add: dir_check_coreinode_def inode_children_def found_def)
next
  case (Cons c ds)
  let ?s = "upd_dir pdir (\<lambda>d. d\<lparr>lck_i_child := spinlock unlocked\<rparr>) s"
  have "path (vlinks ?s) (i_brother c) (map i_brother ds) (i_brother c)" "i_brother c \<notin> set (map i_brother ds)"
    using assms Cons by (auto simp: inode_children_def ring_def)
  note loop = coreinode_loop_path [OF this, of nm]
  have n: "inode_name ?s = inode_name s" by (auto simp: inode_name_def)
  have u: "upd_dir pdir (\<lambda>d. d\<lparr>lck_i_child := unlocked\<rparr>) s = s"
    using assms by (intro upd_dir_id) (simp add: quiet_def)
  have c: "c \<noteq> 0" "i_child (dirs s pdir) = c" using assms Cons by (auto simp: inode_children_def)
  show ?thesis
    using assms(1,3) c loop u
    by (simp add: dir_check_coreinode_def quiet_def Let_def n found_def Cons split: option.split)
qed

lemma coreitem_lookup:
  assumes "pdir \<noteq> 0" and "dir_children s pdir ds" and "inode_children s pdir ns" and "quiet s pdir"
  shows "dir_check_coreitem pdir NoItem nm s = Some
           (case find (\<lambda>p. same_name (dir_name s p) nm) ds of
              Some p \<Rightarrow> (VALID, DirItem p, s)
            | None \<Rightarrow>
                (case find (\<lambda>p. same_name (inode_name s p) nm) ns of
                   Some p \<Rightarrow> (VALID, InodeItem p, s) | None \<Rightarrow> (INVALID, NoItem, s)))"
proof -
  have d: "dir_check_coredir pdir NULL nm s = (case find (\<lambda>p. same_name (dir_name s p) nm) ds of
      None \<Rightarrow> Some (INVALID, NULL, s) | Some p \<Rightarrow> Some (VALID, p, s))"
    by (simp add: coredir_search [OF assms(1,2,4)] found_def del: NULL_def split: option.split)
  have i: "dir_check_coreinode pdir NULL nm s = (case find (\<lambda>p. same_name (inode_name s p) nm) ns of
      None \<Rightarrow> Some (INVALID, NULL, s) | Some p \<Rightarrow> Some (VALID, p, s))"
    by (simp add: coreinode_search [OF assms(1,3,4)] found_def del: NULL_def split: option.split)
  show ?thesis
    unfolding dir_check_coreitem_def d
    using assms(1) i
    by (cases "find (\<lambda>p. same_name (dir_name s p) nm) ds"; cases "find (\<lambda>p. same_name (inode_name s p) nm) ns") simp_all
qed

text \<open>C17: dir_check_coreitem is a search of the list of child directories and then of the list of child
  inodes; it always returns and leaves the tree and its locks as they were.\<close>

theorem coreitem_search:
  assumes "pdir \<noteq> 0" and "dir_children s pdir ds" and "inode_children s pdir ns" and "quiet s pdir"
  shows "dir_check_coreitem pdir NoItem nm s = Some
           (case find (\<lambda>p. same_name (dir_name s p) nm) ds of
              Some p \<Rightarrow> (VALID, DirItem p, s)
            | None \<Rightarrow>
                (case find (\<lambda>p. same_name (inode_name s p) nm) ns of
                   Some p \<Rightarrow> (VALID, InodeItem p, s) | None \<Rightarrow> (INVALID, NoItem, s)))"
  using assms by (rule coreitem_lookup)

section \<open>Adding a node\<close>

text \<open>A node that is not in the tree yet: a ring of its own whose name no child has.\<close>

definition fresh_dir :: "'s vfs_scheme \<Rightarrow> addr \<Rightarrow> addr list \<Rightarrow> addr list \<Rightarrow> addr \<Rightarrow> bool" where
  "fresh_dir s pdir ds ns p \<longleftrightarrow> p \<noteq> 0 \<and> p \<noteq> pdir \<and> p \<notin> set ds \<and> ring (vlinks s) (d_brother p) [] \<and>
     find (\<lambda>q. same_name (dir_name s q) (dir_name s p)) ds = None \<and>
     find (\<lambda>q. same_name (inode_name s q) (dir_name s p)) ns = None"

lemma find_append: "find P (xs @ ys) = (case find P xs of None \<Rightarrow> find P ys | Some x \<Rightarrow> Some x)"
  by (induction xs) auto

lemma relock [simp]:
  "lck_d_child d = unlocked \<Longrightarrow> d\<lparr>d_child := p, lck_d_child := unlocked\<rparr> = d\<lparr>d_child := p\<rparr>"
  "lck_d_child d = unlocked \<Longrightarrow> d\<lparr>lck_d_child := unlocked\<rparr> = d"
  by (cases d; simp)+

lemma opendir_done_state:
  assumes "pdir \<noteq> 0" and "dir_children s pdir ds" and "inode_children s pdir ns" and "quiet s pdir"
    and "fresh_dir s pdir ds ns p"
  shows "dir_opendir_done pdir p s = Some (VALID,
           if ds = [] then upd_dir pdir (\<lambda>d. d\<lparr>d_child := p\<rparr>) s
           else (upd_dir p (\<lambda>d. d\<lparr>d_data := (d_data d)\<lparr>i_rcnt := i_rcnt (d_data d) + 1\<rparr>\<rparr>) s)
             \<lparr>vlinks := list_inserttail (d_brother (hd ds)) (d_brother p) (vlinks s)\<rparr>)"
proof -
  have c: "dir_check_coreitem pdir NoItem (i_name (i_attrib (d_data (dirs s p)))) s = Some (INVALID, NoItem, s)"
    using coreitem_lookup [OF assms(1-4), of "dir_name s p"] assms(5) by (simp add: fresh_dir_def dir_name_def)
  have f: "p \<noteq> 0" "p \<noteq> pdir" using assms(5) by (auto simp: fresh_dir_def)
  have q: "lck_d_child (dirs s pdir) = unlocked" using assms by (simp add: quiet_def)
  show ?thesis
  proof (cases ds)
    case Nil
    then have "d_child (dirs s pdir) = 0" using assms by (simp add: dir_children_def)
    then show ?thesis using assms(1) f q Nil
      by (simp add: dir_opendir_done_def c upd_dir_def)
  next
    case (Cons d es)
    then have "d_child (dirs s pdir) = d" "d \<noteq> 0" using assms by (auto simp: dir_children_def)
    then show ?thesis using assms(1) f q Cons
      by (simp add: dir_opendir_done_def c upd_dir_def fun_upd_twist)
  qed
qed

lemma opendir_done_children:
  assumes "dir_children s pdir ds" and "fresh_dir s pdir ds ns p"
    and "s' = (if ds = [] then upd_dir pdir (\<lambda>d. d\<lparr>d_child := p\<rparr>) s
           else (upd_dir p (\<lambda>d. d\<lparr>d_data := (d_data d)\<lparr>i_rcnt := i_rcnt (d_data d) + 1\<rparr>\<rparr>) s)
             \<lparr>vlinks := list_inserttail (d_brother (hd ds)) (d_brother p) (vlinks s)\<rparr>)"
  shows "dir_children s' pdir (ds @ [p])" and "dir_name s' = dir_name s"
proof -
  show "dir_children s' pdir (ds @ [p])"
  proof (cases ds)
    case Nil
    with assms show ?thesis by (simp add: dir_children_def fresh_dir_def)
  next
    case (Cons d es)
    then have "ring (vlinks s) (d_brother d) (map d_brother es)" "d_brother p \<notin> set (d_brother d # map d_brother es)"
      using assms by (auto simp: dir_children_def fresh_dir_def)
    from list_h.append_ring [OF this] Cons assms show ?thesis
      by (auto simp: dir_children_def fresh_dir_def)
  qed
  show "dir_name s' = dir_name s" using assms(3) by (auto simp: dir_name_def)
qed

text \<open>C18: dir_opendir_done appends a fresh directory to the children of its parent, and the lookup of its
  name finds it afterwards.\<close>

theorem opendir_done_then_lookup:
  assumes "pdir \<noteq> 0" and "dir_children s pdir ds" and "inode_children s pdir ns" and "quiet s pdir"
    and "fresh_dir s pdir ds ns p"
  shows "\<exists>s'. dir_opendir_done pdir p s = Some (VALID, s') \<and> dir_children s' pdir (ds @ [p]) \<and>
           dir_check_coredir pdir NULL (dir_name s p) s' = Some (VALID, p, s')"
proof (intro exI conjI)
  let ?s = "if ds = [] then upd_dir pdir (\<lambda>d. d\<lparr>d_child := p\<rparr>) s
           else (upd_dir p (\<lambda>d. d\<lparr>d_data := (d_data d)\<lparr>i_rcnt := i_rcnt (d_data d) + 1\<rparr>\<rparr>) s)
             \<lparr>vlinks := list_inserttail (d_brother (hd ds)) (d_brother p) (vlinks s)\<rparr>"
  show "dir_opendir_done pdir p s = Some (VALID, ?s)" using assms by (rule opendir_done_state)
  note ch = opendir_done_children [OF assms(2,5) refl]
  show "dir_children ?s pdir (ds @ [p])" by (rule ch)
  have "quiet ?s pdir" using assms(4,5) by (auto simp: quiet_def fresh_dir_def)
  from coredir_search [OF assms(1) ch(1) this, of NULL "dir_name s p"] assms(5)
  show "dir_check_coredir pdir NULL (dir_name s p) ?s = Some (VALID, p, ?s)"
    by (simp add: ch(2) find_append fresh_dir_def found_def)
qed

section \<open>Closing a node\<close>

lemma unlink_dir_last:
  assumes "dir_children s pdir [p]"
  shows "unlink_dir pdir p s = Some (dec_rcnt pdir (upd_dir pdir (\<lambda>d. d\<lparr>d_child := NULL\<rparr>) s))"
  using assms by (simp add: unlink_dir_def dir_children_def ring_def)

lemma dec_rcnt_sel [simp]:
  "d_child (dirs (dec_rcnt p s) q) = d_child (dirs s q)" "vlinks (dec_rcnt p s) = vlinks s"
  by (simp_all add: dec_rcnt_def)

text \<open>With three or more children the closed node leaves the ring and the next one becomes its head.\<close>


text \<open>
  With exactly two children \<^verbatim>\<open>next\<close> and \<^verbatim>\<open>pre\<close> of either are the other one, so the test for the only
  child succeeds.
\<close>

text \<open>With two children, closing the second is refused and closing the first loses the other.\<close>

theorem close_dir_of_two:
  assumes "pdir \<noteq> 0" and "dir_children s pdir [a, b]" and "quiet s pdir"
    and "\<not> same_name (dir_name s a) (dir_name s b)" and "d_parent (d_data (dirs s b)) = pdir"
  shows "dir_close_dir dops pdir b s = Some (INVALID, s) \<and>
         (\<exists>s'. unlink_dir pdir a s = Some s' \<and> dir_children s' pdir [])"
proof (intro conjI)
  have e: "nxt (vlinks s (d_brother a)) = d_brother b" "pre (vlinks s (d_brother a)) = d_brother b"
    "nxt (vlinks s (d_brother b)) = d_brother a" "pre (vlinks s (d_brother b)) = d_brother a"
    "a \<noteq> b" "b \<noteq> 0" "d_child (dirs s pdir) = a"
    using assms(2) by (auto simp: dir_children_def ring_def)
  have l: "dir_check_coredir pdir 0 (i_name (i_attrib (d_data (dirs s b)))) s = Some (VALID, b, s)"
    using coredir_search [OF assms(1-3), of NULL "dir_name s b"] assms(4) by (simp add: found_def dir_name_def)
  have u: "upd_dir pdir (\<lambda>d. d\<lparr>lck_d_child := unlocked\<rparr>) s = s"
    using assms by (intro upd_dir_id) (simp add: quiet_def)
  show "dir_close_dir dops pdir b s = Some (INVALID, s)"
    using assms(1,3,5) e by (simp add: dir_close_dir_def l quiet_def unlink_dir_def u)
  show "\<exists>s'. unlink_dir pdir a s = Some s' \<and> dir_children s' pdir []"
    using e by (simp add: unlink_dir_def dir_children_def)
qed

section \<open>Nodes of the file system\<close>

text \<open>\<^verbatim>\<open>ITYPE_DIR\<close> contains \<^verbatim>\<open>ITYPE_ALIVE\<close>, so every live node tests as a directory.\<close>

lemma live_is_dir: "a AND ITYPE_ALIVE \<noteq> 0 \<Longrightarrow> a AND ITYPE_DIR \<noteq> 0"
  by (simp add: ITYPE_DIR_def bit.conj_disj_distrib or_eq_0_iff)

lemma openinode_live:
  assumes "pdir \<noteq> 0" and "inode_children s pdir ns" and "quiet s pdir"
    and "find (\<lambda>p. same_name (inode_name s p) nm) ns = None"
    and "dir_check_fsitem dops pdir zero_attrib nm s = Some (r, a, s1)" and "i_type a AND ITYPE_ALIVE \<noteq> 0"
  shows "\<exists>pp. dir_do_openinode dops pdir NULL nm s = Some (INVALID, pp, s1)"
proof -
  have "dir_check_coreinode pdir 0 nm s = Some (INVALID, 0, s)"
    using coreinode_search [OF assms(1-3), of NULL nm] assms(4) by (simp add: found_def)
  with assms(1,5) live_is_dir [OF assms(6)] show ?thesis
    by (simp add: dir_do_openinode_def dir_check_fsinode_def)
qed

text \<open>dir_do_openinode fails for every node the file system reports as alive, since ITYPE_DIR contains the
  ITYPE_ALIVE bit.\<close>

theorem openinode_rejects_live:
  assumes "pdir \<noteq> 0" and "inode_children s pdir ns" and "quiet s pdir"
    and "find (\<lambda>p. same_name (inode_name s p) nm) ns = None"
    and "dir_check_fsitem dops pdir zero_attrib nm s = Some (r, a, s1)" and "i_type a AND ITYPE_ALIVE \<noteq> 0"
  shows "\<exists>pp. dir_do_openinode dops pdir NULL nm s = Some (INVALID, pp, s1)"
  using assms by (rule openinode_live)

section \<open>The file table\<close>

lemma free_fd_least:
  "free_fd t i n = Some j \<longleftrightarrow> i \<le> j \<and> j < i + n \<and> t_file t j = 0 \<and> (\<forall>k. i \<le> k \<and> k < j \<longrightarrow> t_file t k \<noteq> 0)"
proof (induction n arbitrary: i)
  case (Suc n)
  show ?case
  proof (cases "t_file t i = 0")
    case True
    then show ?thesis by (auto dest: le_neq_implies_less)
  next
    case False
    with Suc.IH [of "Suc i"] show ?thesis by (auto simp: Suc_le_eq intro: le_neq_implies_less)
  qed
qed simp

lemma free_fd_None: "free_fd t i n = None \<longleftrightarrow> (\<forall>k. i \<le> k \<and> k < i + n \<longrightarrow> t_file t k \<noteq> 0)"
proof (induction n arbitrary: i)
  case (Suc n)
  then show ?case by (auto simp: Suc_le_eq) (metis le_neq_implies_less)+
qed auto

lemma check_fd_first:
  assumes "i \<le> j" and "j < i + n" and "t_file (tasks s tsk) j \<noteq> 0" and "f_pi (files s (t_file (tasks s tsk) j)) = pi"
    and "\<And>k. k < j \<Longrightarrow> t_file (tasks s tsk) k \<noteq> 0 \<Longrightarrow> f_pi (files s (t_file (tasks s tsk) k)) \<noteq> pi"
  shows "check_fd tsk pi s i n = Some j"
  using assms
proof (induction n arbitrary: i)
  case (Suc n)
  show ?case
  proof (cases "i = j")
    case True
    with Suc.prems show ?thesis by simp
  next
    case False
    with Suc.prems have "check_fd tsk pi s (Suc i) n = Some j" by (intro Suc.IH) auto
    moreover have "i < j" using Suc.prems(1) False by simp
    ultimately show ?thesis using Suc.prems(5) [of i] by (auto simp: Let_def)
  qed
qed simp

lemma set_taskfile_result:
  fixes s :: "'s vfs_scheme"
  assumes "t_flck (tasks s tsk) = unlocked" and "t_fcnt (tasks s tsk) < 256"
    and "\<exists>i. 3 \<le> i \<and> i < 256 \<and> t_file (tasks s tsk) i = 0"
  obtains fd s' where "sys_set_taskfile tsk pf s = Some (of_nat fd, s')" and "3 \<le> fd" and "fd < 256"
    and "t_file (tasks s tsk) fd = 0" and "\<forall>k. 3 \<le> k \<and> k < fd \<longrightarrow> t_file (tasks s tsk) k \<noteq> 0"
    and "t_file (tasks s' tsk) = (t_file (tasks s tsk))(fd := pf)" and "t_flck (tasks s' tsk) = unlocked"
    and "t_fcnt (tasks s' tsk) = t_fcnt (tasks s tsk) + 1" and "files s' = files s" and "inodes s' = inodes s" and "tsk_running s' = tsk_running s"
proof -
  let ?t = "tasks s tsk"
  have "free_fd ?t 3 253 \<noteq> None" using assms(3) by (auto simp: free_fd_None)
  then obtain fd where fd: "free_fd ?t 3 253 = Some fd" by blast
  then have least: "3 \<le> fd" "fd < 256" "t_file ?t fd = 0" "\<forall>k. 3 \<le> k \<and> k < fd \<longrightarrow> t_file ?t k \<noteq> 0"
    by (auto simp: free_fd_least)
  define s' where "s' = upd_task tsk (\<lambda>t. t\<lparr>t_flck := unlocked\<rparr>)
    (upd_task tsk (\<lambda>t. t\<lparr>t_file := (t_file t)(fd := pf), t_fcnt := t_fcnt t + 1\<rparr>) s)"
  have "sys_set_taskfile tsk pf s = Some (of_nat fd, s')"
    using assms(1,2) fd leD [of 256 "t_fcnt ?t"] by (auto simp: sys_set_taskfile_def K_MAX_FILE_OPEN_PPS_def s'_def Let_def)
  moreover have "t_file (tasks s' tsk) = (t_file ?t)(fd := pf)" "t_flck (tasks s' tsk) = unlocked"
      "t_fcnt (tasks s' tsk) = t_fcnt ?t + 1" "files s' = files s" "inodes s' = inodes s" "tsk_running s' = tsk_running s"
    by (simp_all add: s'_def upd_task_def)
  ultimately show thesis using least that by blast
qed

text \<open>C19: sys_set_taskfile stores the file in the least free descriptor from 3 on, counts it, and
  sys_check_taskfile then finds the descriptor by the inode.\<close>

theorem set_taskfile_then_check:
  assumes "t_flck (tasks s tsk) = unlocked" and "t_fcnt (tasks s tsk) < 256" and "pf \<noteq> 0"
    and "\<exists>i. 3 \<le> i \<and> i < 256 \<and> t_file (tasks s tsk) i = 0"
    and "\<forall>k. t_file (tasks s tsk) k \<noteq> 0 \<longrightarrow> f_pi (files s (t_file (tasks s tsk) k)) \<noteq> f_pi (files s pf)"
  shows "\<exists>fd s'. sys_set_taskfile tsk pf s = Some (of_nat fd, s') \<and> 3 \<le> fd \<and> fd < 256 \<and>
           t_file (tasks s tsk) fd = 0 \<and> (\<forall>k. 3 \<le> k \<and> k < fd \<longrightarrow> t_file (tasks s tsk) k \<noteq> 0) \<and>
           t_file (tasks s' tsk) = (t_file (tasks s tsk))(fd := pf) \<and>
           t_fcnt (tasks s' tsk) = t_fcnt (tasks s tsk) + 1 \<and>
           sys_check_taskfile tsk (f_pi (files s pf)) s' = Some (of_nat fd, s')"
proof -
  obtain fd s' where set: "sys_set_taskfile tsk pf s = Some (of_nat fd, s')" and least: "3 \<le> fd" "fd < 256"
      "t_file (tasks s tsk) fd = 0" "\<forall>k. 3 \<le> k \<and> k < fd \<longrightarrow> t_file (tasks s tsk) k \<noteq> 0"
    and t': "t_file (tasks s' tsk) = (t_file (tasks s tsk))(fd := pf)" "t_flck (tasks s' tsk) = unlocked"
      "t_fcnt (tasks s' tsk) = t_fcnt (tasks s tsk) + 1" and fs: "files s' = files s"
    using set_taskfile_result [OF assms(1,2,4), of pf] by blast
  have "check_fd tsk (f_pi (files s pf)) s' 0 256 = Some fd"
    using least assms(3,5) t' fs by (intro check_fd_first) auto
  moreover have "upd_task tsk (\<lambda>t. t\<lparr>t_flck := unlocked\<rparr>) s' = s'"
    by (simp add: upd_task_def fun_upd_idem flip: t'(2))
  ultimately have "sys_check_taskfile tsk (f_pi (files s pf)) s' = Some (of_nat fd, s')"
    by (simp add: sys_check_taskfile_def t' K_MAX_FILE_OPEN_PPS_def fd_result_def)
  with set least t' show ?thesis by blast
qed

section \<open>A concrete tree\<close>

definition str_name :: "u8 list \<Rightarrow> name" where
  [code_defs]: "str_name bs i = (if i < length bs then bs ! i else 0)"

definition name_data :: "u8 list \<Rightarrow> addr \<Rightarrow> addr \<Rightarrow> itemdata" where
  [code_defs]: "name_data bs par op =
     zero_data\<lparr>i_attrib := zero_attrib\<lparr>i_name := str_name bs\<rparr>, d_parent := par, d_op := op\<rparr>"

definition zero_kcache :: caches where
  "zero_kcache = \<lparr>cdir = zero_cache, cinode = zero_cache, cfile = zero_cache\<rparr>"

text \<open>
  A root at 0x1000 with the directories \<^verbatim>\<open>a\<close>, \<^verbatim>\<open>b\<close> at 0x2000, 0x2100 and, outside its list, \<^verbatim>\<open>c\<close> and \<^verbatim>\<open>d\<close>; a task
  at 0x5000 with descriptor 3 in use; a file of the node 0x4100 at 0x4000.
\<close>

definition demo_vfs :: vfs where
  "demo_vfs = \<lparr>kcaches = zero_kcache, vmem = \<lambda>_. 0,
     vlinks = list_inserttail (d_brother 0x2000) (d_brother 0x2100) (list_ini (d_brother 0x2200)
       (list_ini (d_brother 0x2300) (list_ini (d_brother 0x2000) (\<lambda>_. \<lparr>nxt = 0, pre = 0\<rparr>)))),
     dirs = (\<lambda>_. zero_dir)(0x1000 := zero_dir\<lparr>d_child := 0x2000, d_data := name_data [] 0 0x9000\<rparr>,
       0x2000 := zero_dir\<lparr>d_data := name_data [97] 0x1000 0\<rparr>, 0x2100 := zero_dir\<lparr>d_data := name_data [98] 0x1000 0\<rparr>,
       0x2200 := zero_dir\<lparr>d_data := name_data [99] 0x1000 0\<rparr>, 0x2300 := zero_dir\<lparr>d_data := name_data [100] 0x1000 0\<rparr>),
     inodes = \<lambda>_. zero_inode,
     files = (\<lambda>_. \<lparr>f_pi = 0, f_owner = \<lparr>own_ptsk = 0, own_pthsk = 0\<rparr>, f_mode = 0, f_private = 0\<rparr>)
       (0x4000 := \<lparr>f_pi = 0x4100, f_owner = \<lparr>own_ptsk = 0, own_pthsk = 0\<rparr>, f_mode = 0, f_private = 0\<rparr>),
     tasks = \<lambda>_. \<lparr>t_fcnt = 1, t_flck = unlocked, t_file = (\<lambda>_. 0)(3 := 0x4200)\<rparr>,
     tsk_running = 0x5000, thr_running = 0\<rparr>"

lemma demo_names:
  "dir_name demo_vfs 0x2000 = str_name [97]" "dir_name demo_vfs 0x2100 = str_name [98]"
  "dir_name demo_vfs 0x2200 = str_name [99]"
  by (simp_all add: dir_name_def demo_vfs_def name_data_def)

lemma demo_distinct:
  "\<not> same_name (str_name [97]) (str_name [99])" "\<not> same_name (str_name [98]) (str_name [99])"
  "\<not> same_name (str_name [97]) (str_name [98])" "same_name (str_name [98]) (str_name [98])"
  by (simp_all add: same_name_def K_MAX_LEN_NODE_NAME_def numeral_eq_Suc str_name_def char_diff_def)

lemma demo_tree:
  "dir_children demo_vfs 0x1000 [0x2000, 0x2100]" "inode_children demo_vfs 0x1000 []" "quiet demo_vfs 0x1000"
  "fresh_dir demo_vfs 0x1000 [0x2000, 0x2100] [] 0x2200"
proof -
  have r: "ring (vlinks demo_vfs) (d_brother 0x2000) [d_brother 0x2100]" "ring (vlinks demo_vfs) (d_brother 0x2200) []"
    by (simp_all add: demo_vfs_def ring_def list_inserttail_def Let_def)
  show "dir_children demo_vfs 0x1000 [0x2000, 0x2100]"
    using r by (simp add: dir_children_def) (simp add: demo_vfs_def)
  show "inode_children demo_vfs 0x1000 []" "quiet demo_vfs 0x1000"
    by (simp_all add: inode_children_def quiet_def demo_vfs_def zero_dir_def)
  show "fresh_dir demo_vfs 0x1000 [0x2000, 0x2100] [] 0x2200"
    using r by (simp add: fresh_dir_def demo_names demo_distinct)
qed

theorem coreitem_search_witness:
  "dir_check_coreitem 0x1000 NoItem (str_name [98]) demo_vfs = Some (VALID, DirItem 0x2100, demo_vfs)"
  using coreitem_search [OF _ demo_tree(1-3), of "str_name [98]"] by (simp add: demo_names demo_distinct)

theorem opendir_done_then_lookup_witness:
  "\<exists>s'. dir_opendir_done 0x1000 0x2200 demo_vfs = Some (VALID, s') \<and>
     dir_children s' 0x1000 ([0x2000, 0x2100] @ [0x2200]) \<and>
     dir_check_coredir 0x1000 NULL (dir_name demo_vfs 0x2200) s' = Some (VALID, 0x2200, s')"
  by (rule opendir_done_then_lookup [OF _ demo_tree]) simp

lemma demo_three:
  "dir_children (demo_vfs\<lparr>vlinks := list_inserttail (d_brother 0x2000) (d_brother 0x2200) (vlinks demo_vfs)\<rparr>) 0x1000
     ([0x2000] @ 0x2100 # [0x2200])"
  using demo_tree(1) list_h.append_ring [of "vlinks demo_vfs" "d_brother 0x2000" "[d_brother 0x2100]" "d_brother 0x2200"]
  by (simp add: dir_children_def)


theorem close_dir_of_two_witness:
  "dir_close_dir (\<lambda>_. undefined) 0x1000 0x2100 demo_vfs = Some (INVALID, demo_vfs) \<and>
   (\<exists>s'. unlink_dir 0x1000 0x2000 demo_vfs = Some s' \<and> dir_children s' 0x1000 [])"
  by (rule close_dir_of_two [OF _ demo_tree(1,3)])
    (simp_all add: demo_names demo_distinct, simp add: demo_vfs_def name_data_def)

text \<open>A file system that knows one ordinary file.\<close>

definition demo_ops :: "addr \<Rightarrow> unit dir_op" where
  "demo_ops _ = \<lparr>op_mknode = None, op_touch = None, op_mkdir = None, op_rm = None, op_rmdir = None, op_rename = None,
     op_opendir = None, op_closedir = None, op_openinode = None, op_closeinode = None, op_readitem = None,
     op_readattrib = Some (\<lambda>_ a _ s. Some (VALID, a\<lparr>i_type := ITYPE_ARCHIVE\<rparr>, s))\<rparr>"

theorem openinode_rejects_live_witness:
  "\<exists>pp. dir_do_openinode demo_ops 0x1000 NULL (str_name [102]) demo_vfs = Some (INVALID, pp, demo_vfs)"
proof (rule openinode_rejects_live [OF _ demo_tree(2,3)])
  have "d_op (d_data (dirs demo_vfs 0x1000)) = 0x9000" by (simp add: demo_vfs_def name_data_def)
  then show "dir_check_fsitem demo_ops 0x1000 zero_attrib (str_name [102]) demo_vfs =
      Some (VALID, zero_attrib\<lparr>i_type := ITYPE_ARCHIVE\<rparr>, demo_vfs)"
    by (simp add: dir_check_fsitem_def demo_ops_def)
  show "i_type (zero_attrib\<lparr>i_type := ITYPE_ARCHIVE\<rparr>) AND ITYPE_ALIVE \<noteq> 0"
    by (simp add: ITYPE_ARCHIVE_def ITYPE_ALIVE_def)
qed simp_all

theorem set_taskfile_then_check_witness:
  "\<exists>fd s'. sys_set_taskfile 0x5000 0x4000 demo_vfs = Some (of_nat fd, s') \<and> 3 \<le> fd \<and> fd < 256 \<and>
     t_file (tasks demo_vfs 0x5000) fd = 0 \<and>
     (\<forall>k. 3 \<le> k \<and> k < fd \<longrightarrow> t_file (tasks demo_vfs 0x5000) k \<noteq> 0) \<and>
     t_file (tasks s' 0x5000) = (t_file (tasks demo_vfs 0x5000))(fd := 0x4000) \<and>
     t_fcnt (tasks s' 0x5000) = t_fcnt (tasks demo_vfs 0x5000) + 1 \<and>
     sys_check_taskfile 0x5000 (f_pi (files demo_vfs 0x4000)) s' = Some (of_nat fd, s')"
proof (rule set_taskfile_then_check)
  show "\<exists>i. 3 \<le> i \<and> i < 256 \<and> t_file (tasks demo_vfs 0x5000) i = 0"
    by (rule exI [of _ 4]) (simp add: demo_vfs_def)
qed (simp_all add: demo_vfs_def)

end
