(* ===== verification/Clock.thy ===== *)
theory Clock
  imports Prelude
begin

text \<open>
  The CMOS clock (\<^verbatim>\<open>kernel/time.c\<close>, \<^verbatim>\<open>include/kernel/time.h\<close>). The routine \<^verbatim>\<open>asm_readcmos\<close> is assembly; the
  contents of the clock's registers is the parameter \<^verbatim>\<open>cmos\<close>. The clock delivers packed decimal digits.
\<close>

unbundle bit_operations_syntax

type_synonym cmos = "u8 \<Rightarrow> u8"

definition CMOS_REG_SEC :: u8 where [code_defs]: "CMOS_REG_SEC = 0x00"
definition CMOS_REG_MIN :: u8 where [code_defs]: "CMOS_REG_MIN = 0x02"
definition CMOS_REG_HOUR :: u8 where [code_defs]: "CMOS_REG_HOUR = 0x04"
definition CMOS_REG_WEEKDAY :: u8 where [code_defs]: "CMOS_REG_WEEKDAY = 0x06"
definition CMOS_REG_DAY :: u8 where [code_defs]: "CMOS_REG_DAY = 0x07"
definition CMOS_REG_MONTH :: u8 where [code_defs]: "CMOS_REG_MONTH = 0x08"
definition CMOS_REG_YEAR :: u8 where [code_defs]: "CMOS_REG_YEAR = 0x09"

record sys_time =
  t_sec :: u8
  t_min :: u8
  t_hour :: u8
  t_weekday :: u8
  t_day :: u8
  t_month :: u8
  t_year :: u16

text \<open>The conversion the code writes out for every field, in the integers of the machine.\<close>

definition from_bcd :: "u32 \<Rightarrow> u32 \<Rightarrow> u32" where
  "from_bcd hi lo = drop_bit 4 (hi AND 0xF0) * 10 + (lo AND 0x0F)"

definition getsystime :: "cmos \<Rightarrow> sys_time" where
  "getsystime cmos =
     (let conv = (\<lambda>r. let v = ucast (cmos r) in ucast (from_bcd v v) :: u8);
          hour = conv CMOS_REG_HOUR
      in \<lparr>t_sec = conv CMOS_REG_SEC, t_min = conv CMOS_REG_MIN, t_hour = hour,
          t_weekday = cmos CMOS_REG_WEEKDAY, t_day = conv CMOS_REG_DAY, t_month = conv CMOS_REG_MONTH,
          t_year = ucast (from_bcd (ucast (cmos CMOS_REG_YEAR)) (ucast hour))\<rparr>)"

definition MAKETIME :: "u32 \<Rightarrow> u32 \<Rightarrow> u32 \<Rightarrow> u32" where
  "MAKETIME hour mi sec = push_bit 16 (hour AND 0xFF) OR push_bit 8 (mi AND 0xFF) OR (sec AND 0xFF)"

definition HOUR :: "u32 \<Rightarrow> u32" where "HOUR time = 0xFF AND drop_bit 16 time"
definition MINI :: "u32 \<Rightarrow> u32" where "MINI time = 0xFF AND drop_bit 8 time"
definition SECOND :: "u32 \<Rightarrow> u32" where "SECOND time = 0xFF AND time"

definition MAKEDATE :: "u32 \<Rightarrow> u32 \<Rightarrow> u32 \<Rightarrow> u32 \<Rightarrow> u32" where
  "MAKEDATE year month day weekday =
     push_bit 24 (year AND 0xFF) OR push_bit 16 (month AND 0xFF) OR push_bit 8 (day AND 0xFF) OR (weekday AND 0xFF)"

definition YEAR :: "u32 \<Rightarrow> u32" where "YEAR date = 0xFF AND drop_bit 24 date"
definition MONTH :: "u32 \<Rightarrow> u32" where "MONTH date = 0xFF AND drop_bit 16 date"
definition DAY :: "u32 \<Rightarrow> u32" where "DAY date = 0xFF AND drop_bit 8 date"
definition WEEKDAY :: "u32 \<Rightarrow> u32" where "WEEKDAY date = 0xFF AND date"

definition gettime :: "cmos \<Rightarrow> u32" where
  "gettime cmos = MAKETIME (ucast (cmos CMOS_REG_HOUR)) (ucast (cmos CMOS_REG_MIN)) (ucast (cmos CMOS_REG_SEC))"

definition getdate :: "cmos \<Rightarrow> u32" where
  "getdate cmos =
     MAKEDATE (ucast (cmos CMOS_REG_YEAR)) (ucast (cmos CMOS_REG_MONTH)) (ucast (cmos CMOS_REG_DAY))
       (ucast (cmos CMOS_REG_WEEKDAY))"

section \<open>Packing\<close>

lemma and_byte: "(x :: u32) AND 0xFF = take_bit 8 x" "0xFF AND (x :: u32) = take_bit 8 x"
proof -
  have "take_bit 8 x = x AND mask 8" by (simp add: take_bit_eq_mask)
  also have "mask 8 = (0xFF :: u32)" by (simp add: mask_eq_exp_minus_1)
  finally show "x AND 0xFF = take_bit 8 x" by simp
  then show "0xFF AND x = take_bit 8 x" by (simp add: and.commute)
qed

text \<open>The fields of a packed time and a packed date are the bytes they were made of.\<close>

theorem packed_fields:
  "HOUR (MAKETIME h m s) = h AND 0xFF \<and> MINI (MAKETIME h m s) = m AND 0xFF \<and> SECOND (MAKETIME h m s) = s AND 0xFF \<and>
   YEAR (MAKEDATE y mo d w) = y AND 0xFF \<and> MONTH (MAKEDATE y mo d w) = mo AND 0xFF \<and>
   DAY (MAKEDATE y mo d w) = d AND 0xFF \<and> WEEKDAY (MAKEDATE y mo d w) = w AND 0xFF"
  unfolding HOUR_def MINI_def SECOND_def YEAR_def MONTH_def DAY_def WEEKDAY_def MAKETIME_def MAKEDATE_def and_byte
  by (intro conjI; rule bit_word_eqI) (auto simp: bit_simps)

section \<open>Decimal digits\<close>

definition to_bcd :: "nat \<Rightarrow> u8" where
  "to_bcd n = of_nat (n div 10 * 16 + n mod 10)"

lemma nibbles: "(x :: u32) AND 0x0F = take_bit 4 x" "drop_bit 4 (x AND 0xF0) = take_bit 4 (drop_bit 4 x)"
proof -
  have m: "mask 4 = (0x0F :: u32)" by (simp add: mask_eq_exp_minus_1)
  show "x AND 0x0F = take_bit 4 x" by (simp add: take_bit_eq_mask m)
  have p: "0xF0 = (push_bit 4 0x0F :: u32)" by simp
  show "drop_bit 4 (x AND 0xF0) = take_bit 4 (drop_bit 4 x)"
    unfolding p m [symmetric] by (rule bit_word_eqI) (auto simp: bit_simps)
qed

lemma from_bcd_eq: "from_bcd hi lo = of_nat (unat hi div 16 mod 16 * 10 + unat lo mod 16)"
proof -
  have "unat hi div 16 mod 16 = unat (take_bit 4 (drop_bit 4 hi))" "unat lo mod 16 = unat (take_bit 4 lo)"
    by (simp_all add: drop_bit_eq_div take_bit_eq_mod unat_mod unat_div)
  then show ?thesis by (simp add: from_bcd_def nibbles)
qed

lemma unat_to_bcd:
  assumes "n < 100"
  shows "unat (to_bcd n) = n div 10 * 16 + n mod 10"
proof -
  have "n div 10 * 16 + n mod 10 < 256" using assms by (simp add: div_less_iff_less_mult)
  then show ?thesis by (simp add: to_bcd_def unat_of_nat del: of_nat_add of_nat_mult)
qed

lemma bcd_digits:
  assumes "n < 100"
  shows "unat (to_bcd n) div 16 mod 16 = n div 10" and "unat (to_bcd n) mod 16 = n mod 10"
  using assms by (simp_all add: unat_to_bcd)

lemma of_nat_cast: "n < 256 \<Longrightarrow> ucast (of_nat n :: u32) = (of_nat n :: 'a :: len word)"
  by (simp add: unsigned_of_nat take_bit_nat_eq_self)

text \<open>
  The registers hold packed decimals: every field but the year is the number its register encodes. The
  last digit of the year is taken from the hour.
\<close>

text \<open>With packed decimal registers every field of getsystime is the number encoded, except that the last
  digit of the year is the low digit of the hour.\<close>

theorem getsystime_decimal:
  assumes "cmos CMOS_REG_SEC = to_bcd sec" and "cmos CMOS_REG_MIN = to_bcd mi" and "cmos CMOS_REG_HOUR = to_bcd h"
    and "cmos CMOS_REG_DAY = to_bcd d" and "cmos CMOS_REG_MONTH = to_bcd mo" and "cmos CMOS_REG_YEAR = to_bcd y"
    and "sec < 60" and "mi < 60" and "h < 24" and "d < 32" and "mo < 13" and "y < 100"
  shows "getsystime cmos = \<lparr>t_sec = of_nat sec, t_min = of_nat mi, t_hour = of_nat h,
           t_weekday = cmos CMOS_REG_WEEKDAY, t_day = of_nat d, t_month = of_nat mo,
           t_year = of_nat (10 * (y div 10) + h mod 16)\<rparr>"
proof -
  have c: "ucast (from_bcd (ucast (to_bcd n)) (ucast (to_bcd n))) = (of_nat n :: u8)" if "n < 100" for n
  proof -
    have "from_bcd (ucast (to_bcd n)) (ucast (to_bcd n)) = of_nat n"
      using that by (simp add: from_bcd_eq bcd_digits del: of_nat_add of_nat_mult)
    then show ?thesis using that by (simp add: of_nat_cast)
  qed
  have "10 * (y div 10) + h mod 16 < 256" using assms by linarith
  then have y: "ucast (from_bcd (ucast (to_bcd y)) (ucast (of_nat h :: u8))) = (of_nat (10 * (y div 10) + h mod 16) :: u16)"
    using assms by (simp add: from_bcd_eq bcd_digits unat_of_nat of_nat_cast mult.commute del: of_nat_add of_nat_mult)
  show ?thesis using assms by (simp add: getsystime_def Let_def c y del: of_nat_add of_nat_mult)
qed

text \<open>10:08:59 on the fifth of November 2012.\<close>

theorem getsystime_decimal_witness:
  "getsystime ((\<lambda>_. 0)(0 := 0x59, 2 := 0x08, 4 := 0x10, 7 := 0x05, 8 := 0x11, 9 := 0x12)) =
     \<lparr>t_sec = of_nat 59, t_min = of_nat 8, t_hour = of_nat 10, t_weekday = 0, t_day = of_nat 5,
      t_month = of_nat 11, t_year = of_nat (10 * (12 div 10) + 10 mod 16)\<rparr>"
  using getsystime_decimal [of "(\<lambda>_. 0)(0 := 0x59, 2 := 0x08, 4 := 0x10, 7 := 0x05, 8 := 0x11, 9 := 0x12)" 59 8 10 5 11 12]
  by (simp add: to_bcd_def CMOS_REG_SEC_def CMOS_REG_MIN_def CMOS_REG_HOUR_def CMOS_REG_DAY_def
      CMOS_REG_MONTH_def CMOS_REG_YEAR_def CMOS_REG_WEEKDAY_def)

end
