(* ===== verification/MfsDisk.thy ===== *)
theory MfsDisk
  imports Vfs Clock
begin

text \<open>
  The on-disk structures of the MFS file system (\<^verbatim>\<open>fs/mfs/mfs.h\<close>) and how they lie in sectors. The C code
  overlays structs on sector buffers; here a sector is a list of bytes, and each struct has a decoding
  from its bytes and an encoding into them. What they stand for is the overlay: a sector in memory has the bytes of
  the encoding exactly when every access to a member of \<^verbatim>\<open>struct mfs_inode buf[8]\<close>, at the offset its packed
  declaration gives it, reads that member. Encoding and decoding are inverse to each other, for one
  inode, for the eight inodes of a sector and for the superblock.
\<close>

unbundle bit_operations_syntax

section \<open>Little-endian words\<close>

definition le32 :: "u32 \<Rightarrow> u8 list" where
  "le32 v = [ucast v, ucast (drop_bit 8 v), ucast (drop_bit 16 v), ucast (drop_bit 24 v)]"

definition get32 :: "nat \<Rightarrow> u8 list \<Rightarrow> u32" where
  "get32 k bs =
     ucast (bs ! k) OR push_bit 8 (ucast (bs ! (k + 1))) OR push_bit 16 (ucast (bs ! (k + 2)))
       OR push_bit 24 (ucast (bs ! (k + 3)))"

lemma length_le32 [simp]: "length (le32 v) = 4"
  by (simp add: le32_def)

lemma le_join:
  "ucast (ucast v :: u8) OR push_bit 8 (ucast (ucast (drop_bit 8 v) :: u8))
     OR push_bit 16 (ucast (ucast (drop_bit 16 v) :: u8)) OR push_bit 24 (ucast (ucast (drop_bit 24 v) :: u8)) = (v :: u32)"
proof -
  have "load32 (store32 0 v (\<lambda>_. 0)) 0 = v" by simp
  then show ?thesis by (simp add: load32_def store32_def)
qed

lemma get32_le32 [simp]: "length xs = k \<Longrightarrow> get32 k (xs @ le32 v @ ys) = v"
proof -
  assume "length xs = k"
  then have "(xs @ le32 v @ ys) ! (k + i) = le32 v ! i" if "i < 4" for i
    using that by (simp add: nth_append)
  from this [of 0] this [of 1] this [of 2] this [of 3] show ?thesis
    by (simp add: get32_def le32_def le_join)
qed

lemma le32_get32:
  assumes "k + 4 \<le> length bs"
  shows "le32 (get32 k bs) = take 4 (drop k bs)"
proof -
  have b: "ucast (get32 k bs) = bs ! k" "ucast (drop_bit 8 (get32 k bs)) = bs ! (k + 1)"
    "ucast (drop_bit 16 (get32 k bs)) = bs ! (k + 2)" "ucast (drop_bit 24 (get32 k bs)) = bs ! (k + 3)"
    by (rule bit_word_eqI; auto simp: get32_def bit_simps dest: bit_imp_le_length)+
  have "take 4 (drop k bs) = [bs ! k, bs ! (k + 1), bs ! (k + 2), bs ! (k + 3)]"
    using assms by (intro nth_equalityI) (auto simp: less_Suc_eq numeral_eq_Suc)
  then show ?thesis by (simp add: le32_def b)
qed

section \<open>Inodes\<close>

definition MFS_FAT_CNT :: nat where [simp, code_defs]: "MFS_FAT_CNT = 5"
definition MFS_INODES_PER_SCT :: nat where [simp, code_defs]: "MFS_INODES_PER_SCT = 8"
definition SECTOR_SIZE :: nat where [simp, code_defs]: "SECTOR_SIZE = 512"

record mfs_inode =
  m_name :: "u8 list"
  m_unused :: "u8 list"
  m_size :: u32
  m_attrib :: u32
  m_devnum :: u32
  mt_create :: u32
  md_create :: u32
  mt_lastaccess :: u32
  md_lastaccess :: u32
  m_fat :: "u32 list"

text \<open>The widths of the arrays in the declaration.\<close>

definition inode_ok :: "mfs_inode \<Rightarrow> bool" where
  "inode_ok i \<longleftrightarrow> length (m_name i) = 14 \<and> length (m_unused i) = 2 \<and> length (m_fat i) = MFS_FAT_CNT"

definition zero_mfs_inode :: mfs_inode where
  "zero_mfs_inode = \<lparr>m_name = replicate 14 0, m_unused = replicate 2 0, m_size = 0, m_attrib = 0, m_devnum = 0,
     mt_create = 0, md_create = 0, mt_lastaccess = 0, md_lastaccess = 0, m_fat = replicate 5 0\<rparr>"

definition encode_inode :: "mfs_inode \<Rightarrow> u8 list" where
  "encode_inode i =
     m_name i @ m_unused i @ le32 (m_size i) @ le32 (m_attrib i) @ le32 (m_devnum i) @ le32 (mt_create i) @
     le32 (md_create i) @ le32 (mt_lastaccess i) @ le32 (md_lastaccess i) @ concat (map le32 (m_fat i))"

definition decode_inode :: "u8 list \<Rightarrow> mfs_inode" where
  "decode_inode bs =
     \<lparr>m_name = take 14 bs, m_unused = take 2 (drop 14 bs), m_size = get32 16 bs, m_attrib = get32 20 bs,
      m_devnum = get32 24 bs, mt_create = get32 28 bs, md_create = get32 32 bs, mt_lastaccess = get32 36 bs,
      md_lastaccess = get32 40 bs, m_fat = map (\<lambda>k. get32 (44 + 4 * k) bs) [0..<5]\<rparr>"

lemma length_concat_le32 [simp]: "length (concat (map le32 ws)) = 4 * length ws"
  by (induction ws) auto

lemma length_encode_inode: "inode_ok i \<Longrightarrow> length (encode_inode i) = 64"
  by (simp add: encode_inode_def inode_ok_def)

lemma zero_mfs_inode_ok [simp]: "inode_ok zero_mfs_inode"
  by (simp add: inode_ok_def zero_mfs_inode_def)

lemma decode_inode_ok: "64 \<le> length bs \<Longrightarrow> inode_ok (decode_inode bs)"
  by (simp add: inode_ok_def decode_inode_def)

lemma get32_shift: "length xs = k \<Longrightarrow> get32 (k + j) (xs @ ys) = get32 j ys"
  by (auto simp: get32_def nth_append add.assoc)

lemma get32_le32_0 [simp]: "get32 0 (le32 v @ ys) = v"
  using get32_le32 [of "[]" 0 v ys] by simp

lemma get32_le32_end [simp]: "get32 0 (le32 v) = v"
  using get32_le32_0 [of v "[]"] by simp

lemma get32_skip [simp]: "get32 (4 + j) (le32 v @ ys) = get32 j ys"
  by (rule get32_shift) simp

lemma decode_encode_inode:
  assumes "inode_ok i"
  shows "decode_inode (encode_inode i) = i"
proof -
  obtain a b c d e where f: "m_fat i = [a, b, c, d, e]"
    using assms by (auto simp: inode_ok_def numeral_eq_Suc length_Suc_conv)
  let ?t = "le32 (m_size i) @ le32 (m_attrib i) @ le32 (m_devnum i) @ le32 (mt_create i) @ le32 (md_create i) @
     le32 (mt_lastaccess i) @ le32 (md_lastaccess i) @ le32 a @ le32 b @ le32 c @ le32 d @ le32 e"
  have e: "encode_inode i = (m_name i @ m_unused i) @ ?t" by (simp add: encode_inode_def f)
  have s: "get32 (16 + j) (encode_inode i) = get32 j ?t" for j
    unfolding e using assms by (intro get32_shift) (simp add: inode_ok_def)
  have n: "take 14 (encode_inode i) = m_name i" "take 2 (drop 14 (encode_inode i)) = m_unused i"
    using assms by (simp_all add: encode_inode_def inode_ok_def)
  show ?thesis
    using s [of 0] s [of 4] s [of 8] s [of 12] s [of 16] s [of 20] s [of 24] s [of 28] s [of 32] s [of 36] s [of 40] s [of 44]
      get32_skip [of 0] get32_skip [of 4] get32_skip [of 8] get32_skip [of 12] get32_skip [of 16] get32_skip [of 20]
      get32_skip [of 24] get32_skip [of 28] get32_skip [of 32] get32_skip [of 36] get32_skip [of 40]
    by (intro mfs_inode.equality) (simp_all add: decode_inode_def n f upt_rec [of _ 5])
qed

lemma encode_decode_inode:
  assumes "length bs = 64"
  shows "encode_inode (decode_inode bs) = bs"
proof -
  have w: "le32 (get32 k bs) = take 4 (drop k bs)" if "k + 4 \<le> 64" for k
    using that assms by (simp add: le32_get32)
  have t: "take 4 (drop k bs) @ drop (k + 4) bs = drop k bs" if "k + 4 \<le> 64" for k
    by (metis append_take_drop_id drop_drop add.commute)
  have "encode_inode (decode_inode bs) = take 14 bs @ take 2 (drop 14 bs) @ take 4 (drop 16 bs) @ take 4 (drop 20 bs) @
     take 4 (drop 24 bs) @ take 4 (drop 28 bs) @ take 4 (drop 32 bs) @ take 4 (drop 36 bs) @ take 4 (drop 40 bs) @
     take 4 (drop 44 bs) @ take 4 (drop 48 bs) @ take 4 (drop 52 bs) @ take 4 (drop 56 bs) @ take 4 (drop 60 bs) @ drop 64 bs"
    using assms by (simp add: encode_inode_def decode_inode_def w upt_rec [of _ 5])
  also have "\<dots> = take 14 bs @ take 2 (drop 14 bs) @ drop 16 bs"
    using t [of 16] t [of 20] t [of 24] t [of 28] t [of 32] t [of 36] t [of 40] t [of 44] t [of 48] t [of 52] t [of 56] t [of 60]
    by (simp del: append_take_drop_id)
  also have "\<dots> = bs"
    using append_take_drop_id [of 2 "drop 14 bs"] by simp
  finally show ?thesis .
qed

section \<open>Sectors of inodes\<close>

definition sector_inodes :: "u8 list \<Rightarrow> mfs_inode list" where
  "sector_inodes sec = map (\<lambda>k. decode_inode (take 64 (drop (64 * k) sec))) [0..<MFS_INODES_PER_SCT]"

definition inodes_sector :: "mfs_inode list \<Rightarrow> u8 list" where
  "inodes_sector is = concat (map encode_inode is)"

lemma length_sector_inodes [simp]: "length (sector_inodes sec) = 8"
  by (simp add: sector_inodes_def)

lemma length_inodes_sector: "\<forall>i \<in> set is. inode_ok i \<Longrightarrow> length (inodes_sector is) = 64 * length is"
  by (induction "is") (auto simp: inodes_sector_def length_encode_inode)

lemma block_of_concat:
  assumes "\<forall>x \<in> set xs. length x = n" and "k < length xs"
  shows "take n (drop (n * k) (concat xs)) = xs ! k"
  using assms
proof (induction xs arbitrary: k)
  case (Cons x xs)
  then show ?case by (cases k) auto
qed simp

lemma concat_of_blocks:
  assumes "length bs = n * m"
  shows "concat (map (\<lambda>k. take n (drop (n * k) bs)) [0..<m]) = bs"
  using assms
proof (induction m arbitrary: bs)
  case (Suc m)
  have "concat (map (\<lambda>k. take n (drop (n * k) bs)) [0..<Suc m]) =
      take n bs @ concat (map (\<lambda>k. take n (drop (n * k) (drop n bs))) [0..<m])"
    by (simp add: upt_conv_Cons map_Suc_upt [symmetric] comp_def add.commute del: upt_Suc map_Suc_upt)
  also have "\<dots> = take n bs @ drop n bs" using Suc.IH [of "drop n bs"] Suc.prems by simp
  finally show ?case by simp
qed simp

lemma inodes_roundtrip:
  assumes "\<forall>i \<in> set is. inode_ok i" and "length is = 8"
  shows "sector_inodes (inodes_sector is) = is"
proof -
  have "map (\<lambda>k. decode_inode (take 64 (drop (64 * k) (inodes_sector is)))) [0..<8] = map (\<lambda>k. is ! k) [0..<8]"
  proof (rule map_cong [OF refl])
    fix k assume "k \<in> set [0..<8]"
    then have "take 64 (drop (64 * k) (inodes_sector is)) = encode_inode (is ! k)"
      using block_of_concat [of "map encode_inode is" 64 k] assms
      by (auto simp: inodes_sector_def length_encode_inode)
    with \<open>k \<in> set [0..<8]\<close> show "decode_inode (take 64 (drop (64 * k) (inodes_sector is))) = is ! k"
      using assms by (simp add: decode_encode_inode)
  qed
  also have "\<dots> = is" using assms(2) map_nth [of "is"] by simp
  finally show ?thesis by (simp add: sector_inodes_def)
qed

section \<open>The overlay\<close>

text \<open>The members of the packed struct with their sizes, as it declares them; a member lies behind the ones before it.\<close>

definition inode_members :: "(string \<times> nat) list" where
  "inode_members = [(''m_name'', 14), (''m_unused'', 2), (''m_size'', 4), (''m_attrib'', 4), (''m_devnum'', 4), (''t_create'', 4), (''d_create'', 4),
     (''t_lastaccess'', 4), (''d_lastaccess'', 4), (''i_fat'', 4 * MFS_FAT_CNT)]"

fun offset_of :: "string \<Rightarrow> (string \<times> nat) list \<Rightarrow> nat" where
  "offset_of x [] = 0"
| "offset_of x ((y, n) # ms) = (if x = y then 0 else n + offset_of x ms)"

definition size_of :: "(string \<times> nat) list \<Rightarrow> nat" where
  "size_of ms = sum_list (map snd ms)"

abbreviation member :: "addr \<Rightarrow> string \<Rightarrow> addr" where
  "member p x \<equiv> p + of_nat (offset_of x inode_members)"

text \<open>The members read through a pointer to the struct are those of the inode.\<close>

definition inode_at :: "mem \<Rightarrow> addr \<Rightarrow> mfs_inode \<Rightarrow> bool" where
  "inode_at m p i \<longleftrightarrow>
     (\<forall>j < 14. m (member p ''m_name'' + of_nat j) = m_name i ! j) \<and> (\<forall>j < 2. m (member p ''m_unused'' + of_nat j) = m_unused i ! j) \<and>
     load32 m (member p ''m_size'') = m_size i \<and> load32 m (member p ''m_attrib'') = m_attrib i \<and>
     load32 m (member p ''m_devnum'') = m_devnum i \<and> load32 m (member p ''t_create'') = mt_create i \<and>
     load32 m (member p ''d_create'') = md_create i \<and> load32 m (member p ''t_lastaccess'') = mt_lastaccess i \<and>
     load32 m (member p ''d_lastaccess'') = md_lastaccess i \<and>
     (\<forall>j < MFS_FAT_CNT. load32 m (member p ''i_fat'' + of_nat (4 * j)) = m_fat i ! j)"

lemma holds_le32: "holds m p (le32 v) \<longleftrightarrow> load32 m p = v"
proof
  assume "holds m p (le32 v)"
  then show "load32 m p = v" by (simp add: le32_def load32_def le_join add.assoc)
next
  have "ucast (load32 m p) = m p" "ucast (drop_bit 8 (load32 m p)) = m (p + 1)"
    "ucast (drop_bit 16 (load32 m p)) = m (p + 2)" "ucast (drop_bit 24 (load32 m p)) = m (p + 3)"
    by (rule bit_word_eqI; auto simp: load32_def bit_simps dest: bit_imp_le_length)+
  moreover assume "load32 m p = v"
  ultimately show "holds m p (le32 v)" by (simp add: le32_def add.assoc)
qed

lemma holds_concat:
  assumes "\<forall>x \<in> set xs. length x = n"
  shows "holds m p (concat xs) \<longleftrightarrow> (\<forall>k < length xs. holds m (p + of_nat (n * k)) (xs ! k))"
  using assms
proof (induction xs arbitrary: p)
  case (Cons x xs)
  have "(\<forall>k < length (x # xs). holds m (p + of_nat (n * k)) ((x # xs) ! k)) \<longleftrightarrow>
      holds m p x \<and> (\<forall>k < length xs. holds m (p + of_nat n + of_nat (n * k)) (xs ! k))"
    unfolding list.size add_Suc_right add_0_right All_less_Suc2 by (simp add: algebra_simps)
  then show ?case using Cons by simp
qed simp

lemma holds_words: "holds m p (concat (map le32 ws)) \<longleftrightarrow> (\<forall>k < length ws. load32 m (p + of_nat (4 * k)) = ws ! k)"
  using holds_concat [of "map le32 ws" 4 m p] by (simp add: holds_le32)

lemma inode_offsets:
  "offset_of ''m_name'' inode_members = 0" "offset_of ''m_unused'' inode_members = 14" "offset_of ''m_size'' inode_members = 16"
  "offset_of ''m_attrib'' inode_members = 20" "offset_of ''m_devnum'' inode_members = 24" "offset_of ''t_create'' inode_members = 28"
  "offset_of ''d_create'' inode_members = 32" "offset_of ''t_lastaccess'' inode_members = 36" "offset_of ''d_lastaccess'' inode_members = 40"
  "offset_of ''i_fat'' inode_members = 44" "size_of inode_members = 64"
  by (simp_all add: inode_members_def size_of_def)

lemma inode_overlay:
  assumes "inode_ok i"
  shows "holds m p (encode_inode i) \<longleftrightarrow> inode_at m p i"
proof -
  have "holds m (p + of_nat a) (m_name i) \<longleftrightarrow> (\<forall>j < 14. m (p + of_nat a + of_nat j) = m_name i ! j)"
    "holds m (p + of_nat a) (m_unused i) \<longleftrightarrow> (\<forall>j < 2. m (p + of_nat a + of_nat j) = m_unused i ! j)" for a
    using assms by (simp_all add: holds_def inode_ok_def)
  note bytes = this [of 0] this [of 14]
  show ?thesis using assms bytes
    by (simp add: encode_inode_def inode_at_def inode_offsets inode_ok_def holds_le32 holds_words add.assoc)
qed

lemma sector_overlay:
  assumes "\<forall>i \<in> set is. inode_ok i"
  shows "holds m p (inodes_sector is) \<longleftrightarrow> (\<forall>k < length is. inode_at m (p + of_nat (size_of inode_members * k)) (is ! k))"
  using holds_concat [of "map encode_inode is" 64 m p] assms inode_overlay
  by (auto simp: inodes_sector_def length_encode_inode inode_offsets(11))

lemma inodes_sector_inverse:
  assumes "length sec = 512"
  shows "inodes_sector (sector_inodes sec) = sec"
proof -
  have "inodes_sector (sector_inodes sec) = concat (map (\<lambda>k. take 64 (drop (64 * k) sec)) [0..<8])"
    unfolding inodes_sector_def sector_inodes_def map_map comp_def
    using assms by (intro arg_cong [where f = concat] map_cong) (auto simp: encode_decode_inode)
  then show ?thesis using assms by (simp add: concat_of_blocks)
qed


section \<open>The superblock\<close>

text \<open>
  The struct is longer than a sector: 28 bytes of words, a label of 16, two more words and a map buffer
  of 512. Reading and writing it transfers its first 512 bytes.
\<close>

record mfs_super_blk =
  mfs_magic :: u32
  sct_cnt :: u32
  clst_cnt :: u32
  clust_used_cnt :: u32
  max_clust_num :: u32
  clst_root :: u32
  alloc_start :: u32
  volum_lable :: "u8 list"
  cmap_start :: u32
  lck_cmap :: spin_lock
  cmap_buff :: "u8 list"

definition zero_super :: mfs_super_blk where
  "zero_super = \<lparr>mfs_magic = 0, sct_cnt = 0, clst_cnt = 0, clust_used_cnt = 0, max_clust_num = 0, clst_root = 0,
     alloc_start = 0, volum_lable = replicate 16 0, cmap_start = 0, lck_cmap = unlocked, cmap_buff = replicate 512 0\<rparr>"

definition encode_super :: "mfs_super_blk \<Rightarrow> u8 list" where
  "encode_super b =
     le32 (mfs_magic b) @ le32 (sct_cnt b) @ le32 (clst_cnt b) @ le32 (clust_used_cnt b) @ le32 (max_clust_num b) @
     le32 (clst_root b) @ le32 (alloc_start b) @ volum_lable b @ le32 (cmap_start b) @ le32 (lck (lck_cmap b)) @
     cmap_buff b"

definition decode_super :: "u8 list \<Rightarrow> mfs_super_blk" where
  "decode_super bs =
     \<lparr>mfs_magic = get32 0 bs, sct_cnt = get32 4 bs, clst_cnt = get32 8 bs, clust_used_cnt = get32 12 bs,
      max_clust_num = get32 16 bs, clst_root = get32 20 bs, alloc_start = get32 24 bs, volum_lable = take 16 (drop 28 bs),
      cmap_start = get32 44 bs, lck_cmap = \<lparr>lck = get32 48 bs\<rparr>, cmap_buff = drop 52 bs\<rparr>"

definition super_ok :: "mfs_super_blk \<Rightarrow> bool" where
  "super_ok b \<longleftrightarrow> length (volum_lable b) = 16 \<and> length (cmap_buff b) = 512"

lemma length_encode_super: "super_ok b \<Longrightarrow> length (encode_super b) = 564"
  by (simp add: encode_super_def super_ok_def)

lemma decode_encode_super:
  assumes "super_ok b"
  shows "decode_super (encode_super b) = b"
proof -
  have g: "get32 (16 + j) (volum_lable b @ ys) = get32 j ys" for j ys
    using assms by (intro get32_shift) (simp add: super_ok_def)
  show ?thesis
    using get32_skip [of 0] get32_skip [of 4] get32_skip [of 8] get32_skip [of 12] get32_skip [of 16] get32_skip [of 20]
      get32_skip [of 24] get32_skip [of 28] get32_skip [of 32] get32_skip [of 36] get32_skip [of 40] get32_skip [of 44]
      g [of 0] g [of 4] assms
    by (intro mfs_super_blk.equality) (simp_all add: decode_super_def encode_super_def super_ok_def)
qed


end
