(* ===== verification/MfsScan.thy ===== *)
theory MfsScan
  imports MfsDisk
begin

text \<open>
  The engine of the MFS file system (\<^verbatim>\<open>fs/mfs/mfs.c\<close>): access to the block device, the walk
  \<^verbatim>\<open>mfs_function\<close> over the 64 entries of a directory and the callbacks it runs. The state extends the
  kernel's objects by the private data of MFS. The block device is reached through the function table
  of its inode, so the functions \<^verbatim>\<open>kread\<close> and \<^verbatim>\<open>kwrite\<close> are the parameter \<^verbatim>\<open>bops\<close>; \<^verbatim>\<open>disk\<close> is the medium
  they work on. A callback that follows a null pointer is \<^const>\<open>None\<close>.
\<close>

unbundle bit_operations_syntax

section \<open>State\<close>

definition ITYPE_DEVICE :: u32 where [code_defs]: "ITYPE_DEVICE = ITYPE_ALIVE OR 0x00000010"
definition ITYPE_BLK_DEV :: u32 where [code_defs]: "ITYPE_BLK_DEV = ITYPE_DEVICE OR 0x00000008"

definition MFS_MAGIC :: u32 where [code_defs]: "MFS_MAGIC = 0x5F53464D"
definition MFS_NEED_MIN_SCTS :: u32 where [code_defs]: "MFS_NEED_MIN_SCTS = 0x00032000"
definition MFS_SBLK_SCTNUM :: u32 where [code_defs]: "MFS_SBLK_SCTNUM = 1"
definition MFS_CLUSTER_SIZE :: u32 where [code_defs]: "MFS_CLUSTER_SIZE = 4096"
definition MFS_SCTS_PERCLUSTER :: u32 where [code_defs]: "MFS_SCTS_PERCLUSTER = 8"
definition MFS_CMAP_CLUSTER :: u32 where [code_defs]: "MFS_CMAP_CLUSTER = 1"
definition MFS_INVALID_CLUSTER :: u32 where [code_defs]: "MFS_INVALID_CLUSTER = 0"
definition MFS_DIR_FAT_CNT :: nat where [code_defs]: "MFS_DIR_FAT_CNT = 1"

definition CLUSTER2SECT :: "u32 \<Rightarrow> u32" where "CLUSTER2SECT c = c * MFS_SCTS_PERCLUSTER"

record mfs_core =
  m_cluster :: u32
  m_super :: addr
  m_itm :: item
  lck_i_fat :: spin_lock
  i_fat :: "u32 list"

record superblk =
  v_lable :: "u8 list"
  v_lbastart :: u32
  v_lbacnt :: u32

record mntpnt_struct =
  mnt_num :: u8
  mnt_flg :: u8
  mnt_dev :: addr
  mnt_pfs :: addr
  mnt_rcnt :: u32
  mnt_mode :: u32
  mnt_root :: addr
  mnt_superblk :: superblk
  mnt_private :: addr

record mfs = vfs +
  cores :: "addr \<Rightarrow> mfs_core"
  supers :: "addr \<Rightarrow> mfs_super_blk"
  mnts :: "addr \<Rightarrow> mntpnt_struct"
  cmfs :: kcache_struct
  heap :: kstate
  clock :: cmos
  disk :: "u32 \<Rightarrow> u8 list"

text \<open>\<^verbatim>\<open>struct itemdata *\<close>: the common part of a directory or of an inode.\<close>

definition item_data :: "item \<Rightarrow> 's vfs_scheme \<Rightarrow> itemdata" where
  "item_data it s =
     (case it of DirItem p \<Rightarrow> d_data (dirs s p) | InodeItem p \<Rightarrow> i_data (inodes s p) | NoItem \<Rightarrow> zero_data)"

definition upd_item :: "item \<Rightarrow> (itemdata \<Rightarrow> itemdata) \<Rightarrow> 's vfs_scheme \<Rightarrow> 's vfs_scheme" where
  "upd_item it f s =
     (case it of
        DirItem p \<Rightarrow> upd_dir p (\<lambda>d. d\<lparr>d_data := f (d_data d)\<rparr>) s
      | InodeItem p \<Rightarrow> upd_inode p (\<lambda>i. i\<lparr>i_data := f (i_data i)\<rparr>) s
      | NoItem \<Rightarrow> s)"

definition set_attrib :: "item \<Rightarrow> itemattrib \<Rightarrow> 's vfs_scheme \<Rightarrow> 's vfs_scheme" where
  "set_attrib it a = upd_item it (\<lambda>d. d\<lparr>i_attrib := a\<rparr>)"

section \<open>The block device\<close>

record blk_op =
  op_kread :: "(item \<Rightarrow> u32 \<Rightarrow> cint \<Rightarrow> mfs \<Rightarrow> cint \<times> u8 list \<times> mfs) option"
  op_kwrite :: "(item \<Rightarrow> u8 list \<Rightarrow> u32 \<Rightarrow> cint \<Rightarrow> mfs \<Rightarrow> cint \<times> mfs) option"

text \<open>\<^verbatim>\<open>buf\<close> is what the caller's buffer holds; \<^verbatim>\<open>kread\<close> returns what it leaves there.\<close>

definition mfsr_device :: "(addr \<Rightarrow> blk_op) \<Rightarrow> item \<Rightarrow> u8 list \<Rightarrow> u32 \<Rightarrow> mfs \<Rightarrow> cint \<times> u8 list \<times> mfs" where
  "mfsr_device bops pdev buf sctnum s =
     (if pdev = NoItem \<or> i_size (i_attrib (item_data pdev s)) < sctnum then (INVALID, buf, s)
      else
        let op = f_op (item_data pdev s)
        in if NULL = op then (INVALID, buf, s)
           else case op_kread (bops op) of
                  None \<Rightarrow> (INVALID, buf, s)
                | Some f \<Rightarrow> f pdev sctnum 1 s)"

definition mfsr_device_ex ::
    "(addr \<Rightarrow> blk_op) \<Rightarrow> item \<Rightarrow> u8 list \<Rightarrow> u32 \<Rightarrow> cint \<Rightarrow> cint \<Rightarrow> mfs \<Rightarrow> cint \<times> u8 list \<times> mfs" where
  "mfsr_device_ex bops pdev buf sctnum offset cnt s =
     (if 0 = offset \<and> of_nat SECTOR_SIZE = cnt then mfsr_device bops pdev buf sctnum s
      else if sint offset < 0 \<or> sint cnt < 0 then (INVALID, buf, s)
      else if int SECTOR_SIZE < sint (offset + cnt) then (INVALID, buf, s)
      else if pdev = NoItem \<or> i_size (i_attrib (item_data pdev s)) < sctnum then (INVALID, buf, s)
      else
        let op = f_op (item_data pdev s)
        in if NULL = op \<or> op_kread (bops op) = None then (INVALID, buf, s)
           else case mfsr_device bops pdev [] sctnum s of
                  (r, sct_buff, s1) \<Rightarrow>
                    if INVALID = r then (INVALID, buf, s1)
                    else (VALID, take (unat cnt) (drop (unat offset) sct_buff) @ drop (unat cnt) buf, s1))"

definition mfsw_device :: "(addr \<Rightarrow> blk_op) \<Rightarrow> item \<Rightarrow> u8 list \<Rightarrow> u32 \<Rightarrow> mfs \<Rightarrow> cint \<times> mfs" where
  "mfsw_device bops pdev buf sctnum s =
     (if pdev = NoItem \<or> i_size (i_attrib (item_data pdev s)) < sctnum then (INVALID, s)
      else
        let op = f_op (item_data pdev s)
        in if NULL = op then (INVALID, s)
           else case op_kwrite (bops op) of
                  None \<Rightarrow> (INVALID, s)
                | Some f \<Rightarrow> f pdev buf sctnum 1 s)"

definition mfsw_device_ex ::
    "(addr \<Rightarrow> blk_op) \<Rightarrow> item \<Rightarrow> u8 list \<Rightarrow> u32 \<Rightarrow> cint \<Rightarrow> cint \<Rightarrow> mfs \<Rightarrow> cint \<times> mfs" where
  "mfsw_device_ex bops pdev buf sctnum offset cnt s =
     (if 0 = offset \<and> of_nat SECTOR_SIZE = cnt then mfsw_device bops pdev (take SECTOR_SIZE buf) sctnum s
      else if sint offset < 0 \<or> sint cnt < 0 then (INVALID, s)
      else if int SECTOR_SIZE < sint (offset + cnt) then (INVALID, s)
      else if pdev = NoItem \<or> i_size (i_attrib (item_data pdev s)) < sctnum then (INVALID, s)
      else
        let op = f_op (item_data pdev s)
        in if NULL = op \<or> op_kwrite (bops op) = None then (INVALID, s)
           else case mfsr_device bops pdev [] sctnum s of
                  (r, sct_buff, s1) \<Rightarrow>
                    if INVALID = r then (INVALID, s1)
                    else
                      let sct_buff' = take (unat offset) sct_buff @ take (unat cnt) buf @ drop (unat offset + unat cnt) sct_buff;
                          (r, s2) = mfsw_device bops pdev sct_buff' sctnum s1
                      in if INVALID = r then (INVALID, s2) else (VALID, s2))"

definition mfsr_superblk :: "(addr \<Rightarrow> blk_op) \<Rightarrow> item \<Rightarrow> mfs_super_blk \<Rightarrow> mfs \<Rightarrow> cint \<times> mfs_super_blk \<times> mfs" where
  "mfsr_superblk bops pdev sblk s =
     (case mfsr_device_ex bops pdev (take SECTOR_SIZE (encode_super sblk)) MFS_SBLK_SCTNUM 0 (of_nat SECTOR_SIZE) s of
        (r, buf, s1) \<Rightarrow> (r, decode_super (buf @ drop SECTOR_SIZE (encode_super sblk)), s1))"

definition mfsw_superblk :: "(addr \<Rightarrow> blk_op) \<Rightarrow> item \<Rightarrow> mfs_super_blk \<Rightarrow> mfs \<Rightarrow> cint \<times> mfs" where
  "mfsw_superblk bops pdev sblk s =
     mfsw_device_ex bops pdev (encode_super sblk) MFS_SBLK_SCTNUM 0 (of_nat SECTOR_SIZE) s"

section \<open>Names of entries\<close>

text \<open>The characters from \<^verbatim>\<open>m_name\<close> on, as the string functions read them; \<^verbatim>\<open>m_unused\<close> follows.\<close>

definition entry_name :: "mfs_inode \<Rightarrow> name" where
  "entry_name i k = (let bs = m_name i @ m_unused i in if k < length bs then bs ! k else 0)"

fun name_nlen :: "nat \<Rightarrow> name \<Rightarrow> nat" where
  "name_nlen 0 f = 0"
| "name_nlen (Suc n) f = (if f 0 = 0 then 0 else Suc (name_nlen n (\<lambda>i. f (Suc i))))"

text \<open>\<^verbatim>\<open>strncpy(dst, src, n)\<close> into an array of \<^verbatim>\<open>n\<close> characters.\<close>

definition name_ncpy :: "u8 list \<Rightarrow> name \<Rightarrow> u8 list" where
  "name_ncpy dst src = (let k = name_nlen (length dst) src in map src [0..<k] @ drop k dst)"

definition copy_name :: "u8 list \<Rightarrow> itemattrib \<Rightarrow> itemattrib" where
  "copy_name bs a = a\<lparr>i_name := (\<lambda>k. if k < K_MAX_LEN_NODE_NAME then bs ! k else i_name a k)\<rparr>"

definition load_attrib_into_inode :: "mfs_inode \<Rightarrow> itemattrib \<Rightarrow> mfs_inode" where
  "load_attrib_into_inode pi pitm =
     pi\<lparr>md_create := d_create pitm, md_lastaccess := d_lastaccess pitm, m_attrib := i_type pitm,
        m_devnum := i_devnum pitm, m_size := i_size pitm, mt_lastaccess := t_lastaccess pitm,
        mt_create := t_create pitm\<rparr>"

definition load_inode_into_attrib :: "itemattrib \<Rightarrow> mfs_inode \<Rightarrow> itemattrib" where
  "load_inode_into_attrib pitm pi =
     pitm\<lparr>d_create := md_create pi, d_lastaccess := md_lastaccess pi, i_type := m_attrib pi,
        i_devnum := m_devnum pi, i_size := m_size pi, t_lastaccess := mt_lastaccess pi,
        t_create := mt_create pi\<rparr>"

section \<open>Callbacks\<close>

definition MFS_RESULT_ABORT :: cint where [code_defs]: "MFS_RESULT_ABORT = - 1"
definition MFS_RESULT_DONE :: cint where [code_defs]: "MFS_RESULT_DONE = 1"
definition MFS_RESULT_CONTINUE :: cint where [code_defs]: "MFS_RESULT_CONTINUE = 2"
definition MFS_RESULT_WRITEBACK :: cint where [code_defs]: "MFS_RESULT_WRITEBACK = 3"
definition MFS_RESULT_WRITEBACK_EX :: cint where [code_defs]: "MFS_RESULT_WRITEBACK_EX = 4"

definition MFS_EX_UPDATE_NAME :: u32 where [code_defs]: "MFS_EX_UPDATE_NAME = 0x00000001"
definition MFS_EX_UPDATE_IFAT :: u32 where [code_defs]: "MFS_EX_UPDATE_IFAT = 0x00000002"
definition MFS_EX_UPDATE_DEVNUM :: u32 where [code_defs]: "MFS_EX_UPDATE_DEVNUM = 0x00000004"
definition MFS_EX_UPDATE_ATTRIB :: u32 where [code_defs]: "MFS_EX_UPDATE_ATTRIB = 0x00000008"
definition MFS_EX_UPDATE_SIZE :: u32 where [code_defs]: "MFS_EX_UPDATE_SIZE = 0x00000010"
definition MFS_EX_UPDATE_CDATE :: u32 where [code_defs]: "MFS_EX_UPDATE_CDATE = 0x00000020"
definition MFS_EX_UPDATE_CTIME :: u32 where [code_defs]: "MFS_EX_UPDATE_CTIME = 0x00000040"
definition MFS_EX_UPDATE_LADATE :: u32 where [code_defs]: "MFS_EX_UPDATE_LADATE = 0x00000080"
definition MFS_EX_UPDATE_LATIME :: u32 where [code_defs]: "MFS_EX_UPDATE_LATIME = 0x00000100"

text \<open>
  The union \<^verbatim>\<open>m_private\<close> holds a pointer to the new attributes, here the attributes themselves, or a
  counter; all zero bytes are the counter 0 and the null pointer. The union \<^verbatim>\<open>exparam\<close> is one word.
\<close>

datatype mfs_private = NewInode mfs_inode | Counter u32

record mfs_func_param_in =
  in_pmi :: mfs_inode
  in_clust :: u32

record mfs_func_param_io =
  m_pmi :: mfs_inode
  m_clust :: u32
  exparam :: u32
  m_private :: mfs_private

definition zero_io :: mfs_func_param_io where
  "zero_io = \<lparr>m_pmi = zero_mfs_inode, m_clust = 0, exparam = 0, m_private = Counter 0\<rparr>"

definition m_new :: "mfs_func_param_io \<Rightarrow> mfs_inode option" where
  "m_new ppio = (case m_private ppio of NewInode i \<Rightarrow> Some i | Counter _ \<Rightarrow> None)"

text \<open>
  A callback sees the attributes of the directory, the entry and the in-out parameter, and returns its
  verdict with all three.
\<close>

type_synonym mfs_ex_proc =
  "itemattrib \<Rightarrow> mfs_func_param_in \<Rightarrow> mfs_func_param_io \<Rightarrow> (cint \<times> itemattrib \<times> mfs_inode \<times> mfs_func_param_io) option"

definition name_len :: "mfs_inode \<Rightarrow> nat" where
  "name_len i = name_nlen K_MAX_LEN_NODE_NAME (entry_name i)"

definition name_diff :: "mfs_inode \<Rightarrow> mfs_inode \<Rightarrow> cint" where
  "name_diff i j = name_cmp K_MAX_LEN_NODE_NAME (entry_name i) (entry_name j)"

definition mfs_ex_mkmfsinode :: mfs_ex_proc where
  "mfs_ex_mkmfsinode a pin ppio =
     Some (if 0 \<noteq> name_len (in_pmi pin) then (MFS_RESULT_CONTINUE, a, in_pmi pin, ppio)
           else (MFS_RESULT_WRITEBACK, a\<lparr>i_size := i_size a + 1\<rparr>, m_pmi ppio, ppio\<lparr>m_clust := in_clust pin\<rparr>))"

definition mfs_ex_rmmfsinode :: mfs_ex_proc where
  "mfs_ex_rmmfsinode a pin ppio =
     Some (if 0 = name_len (in_pmi pin) then (MFS_RESULT_CONTINUE, a, in_pmi pin, ppio)
           else if 0 \<noteq> name_diff (in_pmi pin) (m_pmi ppio)
           then (MFS_RESULT_WRITEBACK, a\<lparr>i_size := i_size a - 1\<rparr>, zero_mfs_inode,
                 ppio\<lparr>m_clust := in_clust pin, m_pmi := in_pmi pin\<rparr>)
           else (MFS_RESULT_CONTINUE, a, in_pmi pin, ppio))"

definition mfs_ex_searchitem :: mfs_ex_proc where
  "mfs_ex_searchitem a pin ppio =
     Some (if 0 = name_len (in_pmi pin) then (MFS_RESULT_CONTINUE, a, in_pmi pin, ppio)
           else if 0 \<noteq> name_diff (in_pmi pin) (m_pmi ppio) then (MFS_RESULT_CONTINUE, a, in_pmi pin, ppio)
           else (MFS_RESULT_DONE, a, in_pmi pin, ppio\<lparr>m_clust := in_clust pin, m_pmi := in_pmi pin\<rparr>))"

definition mfs_ex_searchitem_ex :: mfs_ex_proc where
  "mfs_ex_searchitem_ex a pin ppio =
     Some (if 0 = name_len (in_pmi pin) then (MFS_RESULT_CONTINUE, a, in_pmi pin, ppio)
           else if 0 = exparam ppio
           then (MFS_RESULT_DONE, a, in_pmi pin, ppio\<lparr>m_clust := in_clust pin, m_pmi := in_pmi pin\<rparr>)
           else (MFS_RESULT_CONTINUE, a, in_pmi pin, ppio\<lparr>exparam := exparam ppio - 1\<rparr>))"

text \<open>
  One conditional assignment of \<^verbatim>\<open>mfs_ex_updatefsinode\<close> from \<^verbatim>\<open>m_private.m_new\<close>. The commands for the
  creation time and the last access date assign \<^verbatim>\<open>d_lastaccess\<close> and \<^verbatim>\<open>t_create\<close>.
\<close>

definition upd_new ::
    "u32 \<Rightarrow> (mfs_inode \<Rightarrow> mfs_inode \<Rightarrow> mfs_inode) \<Rightarrow> mfs_func_param_io \<Rightarrow> mfs_inode option \<Rightarrow> mfs_inode option" where
  "upd_new cmd f ppio e =
     (if cmd AND exparam ppio \<noteq> 0
      then Option.bind e (\<lambda>i. map_option (\<lambda>n. f n i) (m_new ppio)) else e)"

definition mfs_ex_updatefsinode :: mfs_ex_proc where
  "mfs_ex_updatefsinode a pin ppio =
     (if 0 = name_len (in_pmi pin) then Some (MFS_RESULT_CONTINUE, a, in_pmi pin, ppio)
      else if 0 \<noteq> name_diff (in_pmi pin) (m_pmi ppio)
      then
        let e0 = upd_new MFS_EX_UPDATE_NAME (\<lambda>n i. i\<lparr>m_name := m_name n\<rparr>) ppio (Some (in_pmi pin));
            e1 = (if MFS_EX_UPDATE_IFAT AND exparam ppio \<noteq> 0
                  then map_option (\<lambda>i. i\<lparr>m_fat := m_fat (m_pmi ppio)\<rparr>) e0 else e0);
            e2 = upd_new MFS_EX_UPDATE_DEVNUM (\<lambda>n i. i\<lparr>m_devnum := m_devnum n\<rparr>) ppio e1;
            e3 = upd_new MFS_EX_UPDATE_ATTRIB (\<lambda>n i. i\<lparr>m_attrib := m_attrib n\<rparr>) ppio e2;
            e4 = upd_new MFS_EX_UPDATE_SIZE (\<lambda>n i. i\<lparr>m_size := m_size n\<rparr>) ppio e3;
            e5 = upd_new MFS_EX_UPDATE_CDATE (\<lambda>n i. i\<lparr>md_create := md_create n\<rparr>) ppio e4;
            e6 = upd_new MFS_EX_UPDATE_CTIME (\<lambda>n i. i\<lparr>md_lastaccess := md_lastaccess n\<rparr>) ppio e5;
            e7 = upd_new MFS_EX_UPDATE_LADATE (\<lambda>n i. i\<lparr>mt_create := mt_create n\<rparr>) ppio e6;
            e8 = upd_new MFS_EX_UPDATE_LATIME (\<lambda>n i. i\<lparr>mt_lastaccess := mt_lastaccess n\<rparr>) ppio e7
        in map_option (\<lambda>i. (MFS_RESULT_WRITEBACK, a, i, ppio\<lparr>m_clust := in_clust pin, m_pmi := i\<rparr>)) e8
      else Some (MFS_RESULT_CONTINUE, a, in_pmi pin, ppio))"

definition mfs_ex_countinode :: mfs_ex_proc where
  "mfs_ex_countinode a pin ppio =
     Some (MFS_RESULT_CONTINUE, a, in_pmi pin,
       if 0 \<noteq> name_len (in_pmi pin)
       then ppio\<lparr>m_private := Counter ((case m_private ppio of Counter c \<Rightarrow> c | NewInode _ \<Rightarrow> 0) + 1)\<rparr> else ppio)"

section \<open>The walk over a directory\<close>

text \<open>The entries of one sector from \<^verbatim>\<open>k\<close> on; the result of the walk is \<^const>\<open>None\<close> while it goes on.\<close>

fun entry_loop ::
    "(addr \<Rightarrow> blk_op) \<Rightarrow> item \<Rightarrow> item \<Rightarrow> mfs_ex_proc \<Rightarrow> u32 \<Rightarrow> u32 \<Rightarrow> nat \<Rightarrow> nat \<Rightarrow> mfs_inode list \<Rightarrow>
     mfs_func_param_io \<Rightarrow> mfs \<Rightarrow> (cint option \<times> mfs_func_param_io \<times> mfs) option" where
  "entry_loop bops pdev pdir proc clust sct k 0 buf pio s = Some (None, pio, s)"
| "entry_loop bops pdev pdir proc clust sct k (Suc n) buf pio s =
     (case proc (i_attrib (item_data pdir s)) \<lparr>in_pmi = buf ! k, in_clust = clust\<rparr> pio of
        None \<Rightarrow> None
      | Some (r, a, e, pio') \<Rightarrow>
          (let s1 = set_attrib pdir a s; buf' = buf[k := e]
           in if r = MFS_RESULT_ABORT then Some (Some INVALID, pio', s1)
              else if r = MFS_RESULT_DONE then Some (Some VALID, pio', s1)
              else if r = MFS_RESULT_CONTINUE then entry_loop bops pdev pdir proc clust sct (Suc k) n buf' pio' s1
              else if r = MFS_RESULT_WRITEBACK
              then let (r, s2) = mfsw_device bops pdev (inodes_sector buf') sct s1 in Some (Some r, pio', s2)
              else if r = MFS_RESULT_WRITEBACK_EX
              then let (r, s2) = mfsw_device bops pdev (inodes_sector buf') sct s1
                   in if INVALID = r then Some (Some INVALID, pio', s2)
                      else entry_loop bops pdev pdir proc clust sct (Suc k) n buf' pio' s2
              else Some (Some INVALID, pio', s1)))"

fun sector_loop ::
    "(addr \<Rightarrow> blk_op) \<Rightarrow> item \<Rightarrow> item \<Rightarrow> mfs_ex_proc \<Rightarrow> u32 \<Rightarrow> nat \<Rightarrow> nat \<Rightarrow>
     mfs_func_param_io \<Rightarrow> mfs \<Rightarrow> (cint option \<times> mfs_func_param_io \<times> mfs) option" where
  "sector_loop bops pdev pdir proc clust j 0 pio s = Some (None, pio, s)"
| "sector_loop bops pdev pdir proc clust j (Suc n) pio s =
     (let sct = CLUSTER2SECT clust + of_nat j
      in case mfsr_device bops pdev [] sct s of
           (r, buf, s1) \<Rightarrow>
             if INVALID = r then Some (Some INVALID, pio, s1)
             else
               (case entry_loop bops pdev pdir proc clust sct 0 MFS_INODES_PER_SCT (sector_inodes buf) pio s1 of
                  None \<Rightarrow> None
                | Some (Some r, pio', s2) \<Rightarrow> Some (Some r, pio', s2)
                | Some (None, pio', s2) \<Rightarrow> sector_loop bops pdev pdir proc clust (Suc j) n pio' s2))"

fun cluster_loop ::
    "(addr \<Rightarrow> blk_op) \<Rightarrow> item \<Rightarrow> item \<Rightarrow> mfs_ex_proc \<Rightarrow> addr \<Rightarrow> nat \<Rightarrow> nat \<Rightarrow>
     mfs_func_param_io \<Rightarrow> mfs \<Rightarrow> (cint \<times> mfs_func_param_io \<times> mfs) option" where
  "cluster_loop bops pdev pdir proc pc i 0 pio s = Some (INVALID, pio, s)"
| "cluster_loop bops pdev pdir proc pc i (Suc n) pio s =
     (let clust = i_fat (cores s pc) ! i
      in if MFS_INVALID_CLUSTER = clust then Some (INVALID, pio, s)
         else case sector_loop bops pdev pdir proc clust 0 (unat MFS_SCTS_PERCLUSTER) pio s of
                None \<Rightarrow> None
              | Some (Some r, pio', s1) \<Rightarrow> Some (r, pio', s1)
              | Some (None, pio', s1) \<Rightarrow> cluster_loop bops pdev pdir proc pc (Suc i) n pio' s1)"

definition mfs_function ::
    "(addr \<Rightarrow> blk_op) \<Rightarrow> item \<Rightarrow> mfs_func_param_io \<Rightarrow> mfs_ex_proc \<Rightarrow> mfs \<Rightarrow> (cint \<times> mfs_func_param_io \<times> mfs) option" where
  "mfs_function bops pdir pio proc s =
     (let d = item_data pdir s
      in if pdir = NoItem then Some (INVALID, pio, s)
         else if ITYPE_DIR \<noteq> i_type (i_attrib d) then Some (INVALID, pio, s)
         else if NULL = i_private d \<or> NULL = i_root d then Some (INVALID, pio, s)
         else if NULL = mnt_dev (mnts s (i_root d)) then Some (INVALID, pio, s)
         else cluster_loop bops (InodeItem (mnt_dev (mnts s (i_root d)))) pdir proc (i_private d) 0 MFS_DIR_FAT_CNT pio s)"

end
