(* ===== verification/Mfs.thy ===== *)
theory Mfs
  imports MfsScan Registry
begin

text \<open>
  The operations of the MFS file system (\<^verbatim>\<open>fs/mfs/mfs.c\<close>): mounting, formatting and the functions of its
  directory table. A pointer to the common data of a directory is \<^const>\<open>DirItem\<close> of the directory.
  Pointers to locals of the caller (\<^verbatim>\<open>pitm\<close>, \<^verbatim>\<open>mntprivate\<close>) are not null and are passed as values. The
  table's \<^verbatim>\<open>openinode\<close> and \<^verbatim>\<open>closeinode\<close> are declared over \<^verbatim>\<open>struct inode *\<close> but implemented over
  \<^verbatim>\<open>struct itemdata *\<close>: the functions are modelled as written, and a call through the table, which
  reinterprets one struct as the other, is \<^const>\<open>None\<close>.
\<close>

unbundle bit_operations_syntax

section \<open>Private data\<close>

definition sizeof_mfs_core :: u32 where [code_defs]: "sizeof_mfs_core = 36"
definition sizeof_super :: u32 where [code_defs]: "sizeof_super = 564"

definition cmfs_cache_alloc :: "mfs \<Rightarrow> (addr \<times> mfs) option" where
  "cmfs_cache_alloc s = map_option (\<lambda>(p, c, m). (p, s\<lparr>cmfs := c, vmem := m\<rparr>)) (kcache_malloc (cmfs s) (vmem s))"

definition cmfs_cache_free :: "addr \<Rightarrow> mfs \<Rightarrow> mfs option" where
  "cmfs_cache_free p s = map_option (\<lambda>(c, m). s\<lparr>cmfs := c, vmem := m\<rparr>) (kcache_free (cmfs s) p (vmem s))"

definition upd_core :: "addr \<Rightarrow> (mfs_core \<Rightarrow> mfs_core) \<Rightarrow> mfs \<Rightarrow> mfs" where
  "upd_core p f s = s\<lparr>cores := (cores s)(p := f (cores s p))\<rparr>"

definition mfs_startup :: "addr \<Rightarrow> registry \<Rightarrow> mfs \<Rightarrow> (cint \<times> registry \<times> mfs) option" where
  "mfs_startup mfs_struct reg s =
     (case kcache_create (64 * sizeof_mfs_core) sizeof_mfs_core kmalloc kfree (heap s) of
        None \<Rightarrow> None
      | Some (c, h) \<Rightarrow>
          let (r, reg') = register_fs mfs_struct reg in Some (r, reg', s\<lparr>cmfs := c, heap := h\<rparr>))"

section \<open>Mounting and formatting\<close>

definition mfs_mount :: "(addr \<Rightarrow> blk_op) \<Rightarrow> addr \<Rightarrow> item \<Rightarrow> addr \<Rightarrow> mfs \<Rightarrow> (cint \<times> addr \<times> mfs) option" where
  "mfs_mount bops pi proot mntprivate s =
     (if NULL = pi then Some (INVALID, mntprivate, s)
      else if ITYPE_BLK_DEV \<noteq> i_type (i_attrib (i_data (inodes s pi))) then Some (INVALID, mntprivate, s)
      else if MFS_NEED_MIN_SCTS > i_size (i_attrib (i_data (inodes s pi))) then Some (INVALID, mntprivate, s)
      else case mfsr_superblk bops (InodeItem pi) zero_super s of
        (r, sblk, s1) \<Rightarrow>
          if INVALID = r then Some (INVALID, mntprivate, s1)
          else if MFS_MAGIC \<noteq> mfs_magic sblk then Some (INVALID, mntprivate, s1)
          else
            let (psblk, h) = kmalloc sizeof_super (heap s1); s2 = s1\<lparr>heap := h\<rparr>
            in if NULL = psblk then Some (INVALID, mntprivate, s2)
               else
                 let s3 = s2\<lparr>supers := (supers s2)(psblk := sblk\<lparr>lck_cmap := spinlock_init (lck_cmap sblk)\<rparr>)\<rparr>
                 in map_option (\<lambda>(pc, s4).
                      let s5 = (if NULL = pc then s4
                                else
                                  let s = upd_core pc (\<lambda>c. c\<lparr>i_fat := (i_fat c)[0 := clst_root sblk],
                                            m_cluster := clst_root sblk, m_itm := proot\<rparr>) s4
                                  in upd_item proot (\<lambda>d. d\<lparr>i_attrib := (i_attrib d)\<lparr>i_type := ITYPE_DIR\<rparr>,
                                       i_private := pc\<rparr>) s)
                      in (VALID, psblk, s5\<lparr>heap := kfree psblk (heap s5)\<rparr>)) (cmfs_cache_alloc s3))"

definition mfs_umount :: "addr \<Rightarrow> addr \<Rightarrow> mfs \<Rightarrow> (cint \<times> mfs) option" where
  "mfs_umount pi psblk s =
     (if NULL = pi then Some (INVALID, s)
      else if MFS_MAGIC \<noteq> mfs_magic (supers s psblk) then Some (INVALID, s)
      else if NULL = i_private (i_data (inodes s pi)) then Some (INVALID, s)
      else
        let s1 = s\<lparr>heap := kfree psblk (heap s)\<rparr>
        in map_option (\<lambda>s2. (VALID, s2)) (cmfs_cache_free (i_private (i_data (inodes s1 pi))) s1))"

definition mfs_initdir :: "(addr \<Rightarrow> blk_op) \<Rightarrow> item \<Rightarrow> u32 \<Rightarrow> u32 \<Rightarrow> mfs \<Rightarrow> mfs" where
  "mfs_initdir bops pdev me subdir s =
     (let d = getdate (clock s); t = gettime (clock s);
          i0 = zero_mfs_inode\<lparr>md_create := d, mt_create := t, md_lastaccess := d, mt_lastaccess := t,
                 m_attrib := ITYPE_DIR, m_devnum := 0, m_size := 0, m_fat := (m_fat zero_mfs_inode)[0 := me],
                 m_name := (m_name zero_mfs_inode)[0 := 46]\<rparr>;
          i1 = i0\<lparr>m_fat := (m_fat i0)[0 := subdir], m_name := (m_name i0)[1 := 46]\<rparr>
      in snd (mfsw_device bops pdev (inodes_sector ((replicate MFS_INODES_PER_SCT zero_mfs_inode)[0 := i0, 1 := i1]))
                (CLUSTER2SECT me) s))"

text \<open>The two loops of \<^verbatim>\<open>mfs_mkfs\<close>; setting a bit behind the sector buffer is \<^const>\<open>None\<close>.\<close>

function cmap_loop ::
    "(item \<Rightarrow> u8 list \<Rightarrow> u32 \<Rightarrow> cint \<Rightarrow> mfs \<Rightarrow> cint \<times> mfs) \<Rightarrow> item \<Rightarrow> u32 \<Rightarrow> u32 \<Rightarrow> u32 \<Rightarrow> mfs \<Rightarrow> u32 \<times> u32 \<times> mfs" where
  "cmap_loop kw pdev remain j sctnum s =
     (if of_nat SECTOR_SIZE \<le> remain
      then cmap_loop kw pdev (remain - of_nat SECTOR_SIZE) (j + 1) (sctnum + 1)
             (snd (kw pdev (replicate SECTOR_SIZE 1) sctnum 1 s))
      else (j, sctnum, s))"
  by pat_completeness auto
termination
  by (relation "measure (\<lambda>(kw, pdev, remain, j, sctnum, s). unat remain)")
    (auto simp: word_le_nat_alt unat_sub word_less_nat_alt)

function cmap_bits :: "u32 \<Rightarrow> u32 \<Rightarrow> nat \<Rightarrow> u8 list \<Rightarrow> u8 list option" where
  "cmap_bits j stop i buf =
     (if j < stop
      then if i div 8 < length buf
           then cmap_bits (j + 1) stop (Suc i) (buf[i div 8 := buf ! (i div 8) OR push_bit (i mod 8) 1])
           else None
      else Some buf)"
  by pat_completeness auto
termination
  by (relation "measure (\<lambda>(j, stop, i, buf). unat stop - unat j)") (auto simp: unat_inc word_less_nat_alt)

declare cmap_loop.simps [simp del] cmap_bits.simps [simp del]

definition mfs_mkfs :: "(addr \<Rightarrow> blk_op) \<Rightarrow> addr \<Rightarrow> name \<Rightarrow> mfs \<Rightarrow> (cint \<times> mfs) option" where
  "mfs_mkfs bops pi lable s =
     (if NULL = pi \<or> ITYPE_BLK_DEV \<noteq> i_type (i_attrib (i_data (inodes s pi))) then Some (INVALID, s)
      else if MFS_NEED_MIN_SCTS > i_size (i_attrib (i_data (inodes s pi))) then Some (INVALID, s)
      else if NULL = f_op (i_data (inodes s pi)) then Some (INVALID, s)
      else case op_kwrite (bops (f_op (i_data (inodes s pi)))) of
        None \<Rightarrow> Some (INVALID, s)
      | Some kw \<Rightarrow>
          let scts = i_size (i_attrib (i_data (inodes s pi)));
              clusts = scts div MFS_SCTS_PERCLUSTER;
              cmapclusters = clusts div MFS_CLUSTER_SIZE + (if 0 = clusts mod MFS_CLUSTER_SIZE then 0 else 1);
              msb = zero_super\<lparr>volum_lable := name_ncpy (volum_lable zero_super) lable,
                      lck_cmap := spinlock_init (lck_cmap zero_super), mfs_magic := MFS_MAGIC, sct_cnt := scts,
                      clust_used_cnt := 1, max_clust_num := clusts, clst_root := MFS_CMAP_CLUSTER + cmapclusters\<rparr>;
              (j, sctnum, s1) = cmap_loop kw (InodeItem pi) (cmapclusters + 2) 0 (MFS_CMAP_CLUSTER * MFS_SCTS_PERCLUSTER) s
          in Option.bind (cmap_bits j (cmapclusters + 2) 0 (replicate SECTOR_SIZE 0)) (\<lambda>buf.
               let s2 = snd (kw (InodeItem pi) buf sctnum 1 s1);
                   s3 = mfs_initdir bops (InodeItem pi) (clst_root msb) (clst_root msb) s2
               in Some (mfsw_superblk bops (InodeItem pi) msb s3)))"

section \<open>Files\<close>

definition mfs_open :: "addr \<Rightarrow> addr \<Rightarrow> mfs \<Rightarrow> cint \<times> mfs" where "mfs_open pf pi s = (VALID, s)"
definition mfs_close :: "addr \<Rightarrow> addr \<Rightarrow> mfs \<Rightarrow> cint \<times> mfs" where "mfs_close pf pi s = (VALID, s)"
definition mfs_read :: "addr \<Rightarrow> addr \<Rightarrow> u32 \<Rightarrow> cint \<Rightarrow> mfs \<Rightarrow> cint \<times> mfs" where
  "mfs_read fp uptr offset cnt s =
     (if i_size (i_attrib (i_data (inodes s (f_pi (files s fp))))) \<le> offset then (0, s) else (0, s))"
definition mfs_write :: "addr \<Rightarrow> addr \<Rightarrow> u32 \<Rightarrow> cint \<Rightarrow> mfs \<Rightarrow> cint \<times> mfs" where
  "mfs_write fp uptr offset cnt s = (VALID, s)"
definition mfs_kread :: "item \<Rightarrow> u32 \<Rightarrow> cint \<Rightarrow> mfs \<Rightarrow> cint \<times> mfs" where
  "mfs_kread pitd offset cnt s = (if i_size (i_attrib (item_data pitd s)) \<le> offset then (0, s) else (0, s))"
definition mfs_kwrite :: "item \<Rightarrow> addr \<Rightarrow> u32 \<Rightarrow> cint \<Rightarrow> mfs \<Rightarrow> cint \<times> mfs" where
  "mfs_kwrite pitd cptr offset cnt s = (INVALID, s)"

section \<open>Clusters\<close>

definition mfs_freefilefat :: "item \<Rightarrow> addr \<Rightarrow> u32 \<Rightarrow> mfs \<Rightarrow> mfs" where "mfs_freefilefat pdev psblk clustnum s = s"
definition mfs_alloc_cluster :: "item \<Rightarrow> addr \<Rightarrow> mfs \<Rightarrow> u32 \<times> mfs" where
  "mfs_alloc_cluster pdev psblk s = (MFS_INVALID_CLUSTER, s)"
definition mfs_free_cluster :: "item \<Rightarrow> addr \<Rightarrow> u32 \<Rightarrow> mfs \<Rightarrow> mfs" where "mfs_free_cluster pdev psblk clustnum s = s"

section \<open>Nodes of a directory\<close>

definition named_io :: "name \<Rightarrow> mfs_func_param_io" where
  "named_io nm = zero_io\<lparr>m_pmi := zero_mfs_inode\<lparr>m_name := name_ncpy (m_name zero_mfs_inode) nm\<rparr>\<rparr>"

definition upd_pmi :: "(mfs_inode \<Rightarrow> mfs_inode) \<Rightarrow> mfs_func_param_io \<Rightarrow> mfs_func_param_io" where
  "upd_pmi f mp = mp\<lparr>m_pmi := f (m_pmi mp)\<rparr>"

definition load_pmi :: "itemattrib \<Rightarrow> mfs_func_param_io \<Rightarrow> itemattrib" where
  "load_pmi pitm mp = load_inode_into_attrib (copy_name (m_name (m_pmi mp)) pitm) (m_pmi mp)"

definition mfs_makeinode ::
    "(addr \<Rightarrow> blk_op) \<Rightarrow> item \<Rightarrow> mfs_func_param_io \<Rightarrow> mfs \<Rightarrow> (cint \<times> mfs_func_param_io \<times> mfs) option" where
  "mfs_makeinode bops pdir ppio s =
     (let d = getdate (clock s); t = gettime (clock s);
          ppio1 = upd_pmi (\<lambda>i. i\<lparr>md_create := d, mt_create := t, md_lastaccess := d, mt_lastaccess := mt_lastaccess i\<rparr>) ppio
      in mfs_function bops pdir ppio1 mfs_ex_mkmfsinode s)"

definition mfs_mknode ::
    "(addr \<Rightarrow> blk_op) \<Rightarrow> addr \<Rightarrow> itemattrib \<Rightarrow> name \<Rightarrow> mfs \<Rightarrow> (cint \<times> itemattrib \<times> mfs) option" where
  "mfs_mknode bops pdir pitm nm s =
     (case mfs_function bops (DirItem pdir) (named_io nm) mfs_ex_searchitem s of
        None \<Rightarrow> None
      | Some (r, mp, s1) \<Rightarrow>
          if INVALID = r
          then if ITYPE_DEVICE AND m_attrib (m_pmi mp) = 0 then Some (INVALID, pitm, s1)
               else map_option (\<lambda>(r, _, s2). (r, pitm, s2))
                      (mfs_makeinode bops (DirItem pdir) (upd_pmi (\<lambda>i. load_attrib_into_inode i pitm) mp) s1)
          else if ITYPE_DEVICE AND m_attrib (m_pmi mp) \<noteq> 0
          then Some (if m_attrib (m_pmi mp) = i_devnum pitm then VALID else INVALID, pitm, s1)
          else Some (INVALID, pitm, s1))"

definition mfs_touch ::
    "(addr \<Rightarrow> blk_op) \<Rightarrow> addr \<Rightarrow> itemattrib \<Rightarrow> name \<Rightarrow> mfs \<Rightarrow> (cint \<times> itemattrib \<times> mfs) option" where
  "mfs_touch bops pdir pitm nm s =
     (if NULL = pdir then Some (INVALID, pitm, s)
      else case mfs_function bops (DirItem pdir) (named_io nm) mfs_ex_searchitem s of
        None \<Rightarrow> None
      | Some (r, mp, s1) \<Rightarrow>
          if INVALID = r
          then map_option (\<lambda>(r, _, s2). (r, pitm, s2))
                 (mfs_makeinode bops (DirItem pdir) (upd_pmi (\<lambda>i. i\<lparr>m_attrib := ITYPE_ARCHIVE\<rparr>) mp) s1)
          else if ITYPE_ARCHIVE = m_attrib (m_pmi mp) then Some (VALID, load_pmi pitm mp, s1)
          else Some (INVALID, pitm, s1))"

definition mfs_mkdir ::
    "(addr \<Rightarrow> blk_op) \<Rightarrow> addr \<Rightarrow> itemattrib \<Rightarrow> name \<Rightarrow> mfs \<Rightarrow> (cint \<times> itemattrib \<times> mfs) option" where
  "mfs_mkdir bops pdir pitm nm s =
     (if NULL = pdir then Some (INVALID, pitm, s)
      else case mfs_function bops (DirItem pdir) (named_io nm) mfs_ex_searchitem s of
        None \<Rightarrow> None
      | Some (r, mp, s1) \<Rightarrow>
          if INVALID = r
          then
            let pdev = DirItem (mnt_root (mnts s1 (i_root (d_data (dirs s1 pdir)))));
                sblk = m_super (cores s1 (i_private (d_data (dirs s1 pdir))));
                (cld, s2) = mfs_alloc_cluster pdev sblk s1
            in if MFS_INVALID_CLUSTER = cld then Some (INVALID, pitm, s2)
               else
                 let mp1 = upd_pmi (\<lambda>i. i\<lparr>m_fat := (m_fat i)[0 := cld], m_attrib := ITYPE_DIR, m_size := 0\<rparr>) mp
                 in map_option (\<lambda>(r, _, s3).
                      if INVALID = r then (INVALID, pitm, mfs_free_cluster pdev sblk cld s3)
                      else (VALID, pitm, mfs_initdir bops pdev cld (i_fat (cores s3 (i_private (d_data (dirs s3 pdir)))) ! 0) s3))
                      (mfs_function bops (DirItem pdir) mp1 mfs_ex_mkmfsinode s2)
          else if ITYPE_DIR = m_attrib (m_pmi mp) then Some (VALID, load_pmi pitm mp, s1)
          else Some (INVALID, pitm, s1))"

text \<open>The loops of \<^verbatim>\<open>mfs_rm\<close> over the second-level tables: their contents, then the tables.\<close>

definition free_tables :: "item \<Rightarrow> addr \<Rightarrow> u32 list \<Rightarrow> mfs \<Rightarrow> mfs" where
  "free_tables pdev psblk fat s =
     (let s1 = fold (\<lambda>c s. if MFS_INVALID_CLUSTER \<noteq> c then mfs_freefilefat pdev psblk c s else s) (drop 1 fat) s
      in fold (\<lambda>c s. if MFS_INVALID_CLUSTER \<noteq> c then mfs_free_cluster pdev psblk c s else s) (drop 1 fat) s1)"

definition mfs_rm :: "(addr \<Rightarrow> blk_op) \<Rightarrow> addr \<Rightarrow> name \<Rightarrow> mfs \<Rightarrow> (cint \<times> mfs) option" where
  "mfs_rm bops pdir nm s =
     (case mfs_function bops (DirItem pdir) (named_io nm) mfs_ex_searchitem s of
        None \<Rightarrow> None
      | Some (r, mp, s1) \<Rightarrow>
          if INVALID = r then Some (INVALID, s1)
          else if ITYPE_ARCHIVE \<noteq> m_attrib (m_pmi mp) then Some (INVALID, s1)
          else case mfs_function bops (DirItem pdir) mp mfs_ex_rmmfsinode s1 of
            None \<Rightarrow> None
          | Some (r, mp, s2) \<Rightarrow>
              if INVALID = r then Some (INVALID, s2)
              else
                let pdev = InodeItem (mnt_dev (mnts s2 (i_root (d_data (dirs s2 pdir)))));
                    psblk = m_super (cores s2 (i_private (d_data (dirs s2 pdir))));
                    s3 = mfs_free_cluster pdev psblk (m_fat (m_pmi mp) ! 0) s2
                in Some (VALID, free_tables pdev psblk (m_fat (m_pmi mp)) s3))"

definition mfs_rmdir :: "(addr \<Rightarrow> blk_op) \<Rightarrow> addr \<Rightarrow> name \<Rightarrow> mfs \<Rightarrow> (cint \<times> mfs) option" where
  "mfs_rmdir bops pdir nm s =
     (case mfs_function bops (DirItem pdir) (named_io nm) mfs_ex_searchitem s of
        None \<Rightarrow> None
      | Some (r, mp, s1) \<Rightarrow>
          if INVALID = r then Some (INVALID, s1)
          else if ITYPE_DIR \<noteq> m_attrib (m_pmi mp) then Some (INVALID, s1)
          else if 0 \<noteq> m_size (m_pmi mp) then Some (INVALID, s1)
          else case mfs_function bops (DirItem pdir) mp mfs_ex_rmmfsinode s1 of
            None \<Rightarrow> None
          | Some (r, mp, s2) \<Rightarrow>
              if INVALID = r then Some (INVALID, s2)
              else
                let pdev = InodeItem (mnt_dev (mnts s2 (i_root (d_data (dirs s2 pdir)))));
                    psblk = m_super (cores s2 (i_private (d_data (dirs s2 pdir))))
                in Some (VALID, mfs_free_cluster pdev psblk (m_fat (m_pmi mp) ! 0) s2))"

text \<open>\<^verbatim>\<open>strncpy\<close> from the fixed array \<^verbatim>\<open>pitm->i_name\<close> reads at most its 14 characters.\<close>

definition mfs_rename ::
    "(addr \<Rightarrow> blk_op) \<Rightarrow> addr \<Rightarrow> itemattrib \<Rightarrow> name \<Rightarrow> mfs \<Rightarrow> (cint \<times> itemattrib \<times> mfs) option" where
  "mfs_rename bops pdir pitm nm s =
     (if NULL = pdir then Some (INVALID, pitm, s)
      else
        let new_inode = zero_mfs_inode\<lparr>m_name := name_ncpy (m_name zero_mfs_inode) (i_name pitm)\<rparr>;
            mp0 = (named_io nm)\<lparr>exparam := MFS_EX_UPDATE_NAME, m_private := NewInode new_inode\<rparr>
        in case mfs_function bops (DirItem pdir) mp0 mfs_ex_searchitem s of
          None \<Rightarrow> None
        | Some (r, mp, s1) \<Rightarrow>
            if INVALID = r then Some (INVALID, pitm, s1)
            else if ITYPE_ALIVE AND m_attrib (m_pmi mp) \<noteq> 0
            then map_option (\<lambda>(r, mp, s2). if INVALID = r then (INVALID, pitm, s2) else (VALID, load_pmi pitm mp, s2))
                   (mfs_function bops (DirItem pdir) mp mfs_ex_updatefsinode s1)
            else Some (INVALID, pitm, s1))"

definition open_core :: "addr \<Rightarrow> item \<Rightarrow> mfs_func_param_io \<Rightarrow> addr \<Rightarrow> mfs \<Rightarrow> mfs" where
  "open_core pc pitd mp pdir s =
     (let s1 = upd_core pc (\<lambda>c. c\<lparr>i_fat := m_fat (m_pmi mp), m_cluster := m_clust mp, m_itm := pitd,
                 m_super := m_super (cores s (i_private (d_data (dirs s pdir)))),
                 lck_i_fat := spinlock_init (lck_i_fat c)\<rparr>) s
      in upd_item pitd (\<lambda>d. d\<lparr>i_private := pc\<rparr>) s1)"

definition mfs_opendir :: "(addr \<Rightarrow> blk_op) \<Rightarrow> addr \<Rightarrow> item \<Rightarrow> name \<Rightarrow> mfs \<Rightarrow> (cint \<times> mfs) option" where
  "mfs_opendir bops pdir pitd nm s =
     (if pitd = NoItem then Some (INVALID, s)
      else case mfs_function bops (DirItem pdir) (named_io nm) mfs_ex_searchitem s of
        None \<Rightarrow> None
      | Some (r, mp, s1) \<Rightarrow>
          if VALID = r \<and> ITYPE_DIR = m_attrib (m_pmi mp)
          then map_option (\<lambda>(pc, s2).
                 if NULL = pc then (INVALID, s2)
                 else (VALID, open_core pc pitd mp pdir (upd_item pitd (\<lambda>d. d\<lparr>i_attrib := load_pmi (i_attrib d) mp\<rparr>) s2)))
                 (cmfs_cache_alloc s1)
          else Some (INVALID, s1))"

definition mfs_openinode :: "(addr \<Rightarrow> blk_op) \<Rightarrow> addr \<Rightarrow> item \<Rightarrow> name \<Rightarrow> mfs \<Rightarrow> (cint \<times> mfs) option" where
  "mfs_openinode bops pdir pitd nm s =
     (if pitd = NoItem then Some (INVALID, s)
      else case mfs_function bops (DirItem pdir) (named_io nm) mfs_ex_searchitem s of
        None \<Rightarrow> None
      | Some (r, mp, s1) \<Rightarrow>
          if VALID = r \<and> (ITYPE_ARCHIVE = m_attrib (m_pmi mp) \<or> ITYPE_DEVICE AND m_attrib (m_pmi mp) \<noteq> 0)
          then
            let load = upd_item pitd (\<lambda>d. d\<lparr>i_attrib := load_pmi (i_attrib d) mp\<rparr>)
            in if ITYPE_ARCHIVE = m_attrib (m_pmi mp)
               then map_option (\<lambda>(pc, s2). if NULL = pc then (INVALID, s2) else (VALID, load (open_core pc pitd mp pdir s2)))
                      (cmfs_cache_alloc s1)
               else Some (VALID, load s1)
          else Some (INVALID, s1))"

text \<open>The common body of \<^verbatim>\<open>mfs_closedir\<close> and \<^verbatim>\<open>mfs_closeinode\<close>, which differ in the type they accept.\<close>

definition mfs_closenode :: "(addr \<Rightarrow> blk_op) \<Rightarrow> addr \<Rightarrow> item \<Rightarrow> mfs \<Rightarrow> (cint \<times> mfs) option" where
  "mfs_closenode bops pdir pitd s =
     (let s1 = upd_item pitd (\<lambda>d. d\<lparr>i_attrib := (i_attrib d)\<lparr>d_lastaccess := getdate (clock s),
                 t_lastaccess := gettime (clock s)\<rparr>\<rparr>) s;
          d = item_data pitd s1;
          pmi = load_attrib_into_inode (zero_mfs_inode\<lparr>m_name := map (i_name (i_attrib d)) [0..<K_MAX_LEN_NODE_NAME],
                  m_fat := i_fat (cores s1 (i_private d))\<rparr>) (i_attrib d);
          mp = zero_io\<lparr>m_pmi := pmi, exparam := MFS_EX_UPDATE_IFAT OR MFS_EX_UPDATE_LADATE OR MFS_EX_UPDATE_LATIME
                 OR MFS_EX_UPDATE_SIZE\<rparr>
      in case mfs_function bops (DirItem pdir) mp mfs_ex_updatefsinode s1 of
           None \<Rightarrow> None
         | Some (r, _, s2) \<Rightarrow>
             map_option (\<lambda>s3. (r, upd_item pitd (\<lambda>d. d\<lparr>i_private := NULL\<rparr>) s3))
               (cmfs_cache_free (i_private (item_data pitd s2)) s2))"

definition mfs_closedir :: "(addr \<Rightarrow> blk_op) \<Rightarrow> addr \<Rightarrow> item \<Rightarrow> mfs \<Rightarrow> (cint \<times> mfs) option" where
  "mfs_closedir bops pdir pitd s =
     (if ITYPE_DIR \<noteq> i_type (i_attrib (item_data pitd s)) then Some (INVALID, s) else mfs_closenode bops pdir pitd s)"

definition mfs_closeinode :: "(addr \<Rightarrow> blk_op) \<Rightarrow> addr \<Rightarrow> item \<Rightarrow> mfs \<Rightarrow> (cint \<times> mfs) option" where
  "mfs_closeinode bops pdir pitd s =
     (if ITYPE_ARCHIVE \<noteq> i_type (i_attrib (item_data pitd s)) then Some (INVALID, s) else mfs_closenode bops pdir pitd s)"

definition mfs_readitem ::
    "(addr \<Rightarrow> blk_op) \<Rightarrow> addr \<Rightarrow> itemattrib \<Rightarrow> cint \<Rightarrow> mfs \<Rightarrow> (cint \<times> itemattrib \<times> mfs) option" where
  "mfs_readitem bops pdir pitm index s =
     map_option (\<lambda>(r, mp, s1). if VALID = r then (VALID, load_pmi pitm mp, s1) else (INVALID, pitm, s1))
       (mfs_function bops (DirItem pdir) (zero_io\<lparr>exparam := index\<rparr>) mfs_ex_searchitem_ex s)"

definition mfs_readattrib ::
    "(addr \<Rightarrow> blk_op) \<Rightarrow> addr \<Rightarrow> itemattrib \<Rightarrow> name \<Rightarrow> mfs \<Rightarrow> (cint \<times> itemattrib \<times> mfs) option" where
  "mfs_readattrib bops pdir pitm nm s =
     map_option (\<lambda>(r, mp, s1). if VALID = r then (VALID, load_pmi pitm mp, s1) else (INVALID, pitm, s1))
       (mfs_function bops (DirItem pdir) (named_io nm) mfs_ex_searchitem s)"

definition mfs_dop :: "(addr \<Rightarrow> blk_op) \<Rightarrow> unit mfs_ext dir_op" where
  "mfs_dop bops = \<lparr>op_mknode = Some (mfs_mknode bops), op_touch = Some (mfs_touch bops), op_mkdir = Some (mfs_mkdir bops),
     op_rm = Some (mfs_rm bops), op_rmdir = None, op_rename = Some (mfs_rename bops),
     op_opendir = Some (\<lambda>pdir p. mfs_opendir bops pdir (DirItem p)),
     op_closedir = Some (\<lambda>pdir p. mfs_closedir bops pdir (DirItem p)),
     op_openinode = Some (\<lambda>_ _ _ _. None), op_closeinode = Some (\<lambda>_ _ _. None),
     op_readitem = Some (mfs_readitem bops), op_readattrib = Some (mfs_readattrib bops)\<rparr>"

end
