(* ===== verification/MfsDir.thy ===== *)
theory MfsDir
  imports Mfs VfsTree
begin

text \<open>
  What the MFS operations do to a directory, seen as the list of its 64 entries. The walk
  \<^verbatim>\<open>mfs_function\<close> is characterised once, by the position of the first entry on which its callback does
  not just continue; lookup, creation and removal follow from it. What the block device promises is
  \<^verbatim>\<open>good_disk\<close>: a read returns the sector, a write replaces it.
\<close>

unbundle bit_operations_syntax

section \<open>A directory on a good disk\<close>

definition good_disk :: "blk_op \<Rightarrow> bool" where
  "good_disk b \<longleftrightarrow>
     (\<exists>kr kw. op_kread b = Some kr \<and> op_kwrite b = Some kw \<and>
        (\<forall>d n s. kr d n 1 s = (VALID, disk s n, s)) \<and>
        (\<forall>d bs n s. kw d bs n 1 s = (VALID, s\<lparr>disk := (disk s)(n := bs)\<rparr>)))"

definition mfs_dev :: "mfs \<Rightarrow> addr \<Rightarrow> addr" where
  "mfs_dev s pdir = mnt_dev (mnts s (i_root (d_data (dirs s pdir))))"

definition mfs_clust :: "mfs \<Rightarrow> addr \<Rightarrow> u32" where
  "mfs_clust s pdir = i_fat (cores s (i_private (d_data (dirs s pdir)))) ! 0"

definition mfs_sect :: "mfs \<Rightarrow> addr \<Rightarrow> nat \<Rightarrow> u32" where
  "mfs_sect s pdir j = CLUSTER2SECT (mfs_clust s pdir) + of_nat j"

definition mfs_dir_ok :: "(addr \<Rightarrow> blk_op) \<Rightarrow> mfs \<Rightarrow> addr \<Rightarrow> bool" where
  "mfs_dir_ok bops s pdir \<longleftrightarrow>
     pdir \<noteq> 0 \<and> i_type (i_attrib (d_data (dirs s pdir))) = ITYPE_DIR \<and>
     i_private (d_data (dirs s pdir)) \<noteq> 0 \<and> i_root (d_data (dirs s pdir)) \<noteq> 0 \<and> mfs_dev s pdir \<noteq> 0 \<and>
     mfs_clust s pdir \<noteq> 0 \<and> f_op (i_data (inodes s (mfs_dev s pdir))) \<noteq> 0 \<and>
     good_disk (bops (f_op (i_data (inodes s (mfs_dev s pdir))))) \<and>
     unat (mfs_clust s pdir) * 8 + 8 \<le> unat (i_size (i_attrib (i_data (inodes s (mfs_dev s pdir))))) \<and>
     (\<forall>j < 8. length (disk s (mfs_sect s pdir j)) = 512)"

definition entry :: "mfs \<Rightarrow> addr \<Rightarrow> nat \<Rightarrow> mfs_inode" where
  "entry s pdir p = sector_inodes (disk s (mfs_sect s pdir (p div 8))) ! (p mod 8)"

definition entries :: "mfs \<Rightarrow> addr \<Rightarrow> mfs_inode list" where
  "entries s pdir = map (entry s pdir) [0..<64]"

lemma unat_mfs_sect:
  assumes "mfs_dir_ok bops s pdir" and "j < 8"
  shows "unat (mfs_sect s pdir j) = unat (mfs_clust s pdir) * 8 + j"
proof -
  have "unat (mfs_clust s pdir) * 8 + 8 \<le> unat (i_size (i_attrib (i_data (inodes s (mfs_dev s pdir)))))"
    using assms(1) by (simp add: mfs_dir_ok_def)
  then have b: "unat (mfs_clust s pdir) * 8 + 8 < 4294967296" by (rule le_less_trans) simp
  then show ?thesis using assms(2)
    by (simp add: mfs_sect_def CLUSTER2SECT_def MFS_SCTS_PERCLUSTER_def unat_word_ariths unat_of_nat32)
qed

lemma mfs_sect_inj:
  assumes "mfs_dir_ok bops s pdir" and "i < 8" and "j < 8"
  shows "mfs_sect s pdir i = mfs_sect s pdir j \<longleftrightarrow> i = j"
  using unat_mfs_sect [OF assms(1,2)] unat_mfs_sect [OF assms(1,3)] by (metis add_left_cancel)

lemma sect_in_range:
  assumes "mfs_dir_ok bops s pdir" and "j < 8"
  shows "\<not> i_size (i_attrib (i_data (inodes s (mfs_dev s pdir)))) < mfs_sect s pdir j"
  using unat_mfs_sect [OF assms] assms by (simp add: mfs_dir_ok_def word_less_nat_alt not_less)

lemma read_sector:
  assumes "mfs_dir_ok bops s pdir" and "j < 8"
  shows "mfsr_device bops (InodeItem (mfs_dev s pdir)) buf (mfs_sect s pdir j) s = (VALID, disk s (mfs_sect s pdir j), s)"
  using assms sect_in_range [OF assms] by (auto simp: mfsr_device_def item_data_def mfs_dir_ok_def good_disk_def Let_def)

lemma write_sector:
  assumes "mfs_dir_ok bops s pdir" and "j < 8"
  shows "mfsw_device bops (InodeItem (mfs_dev s pdir)) bs (mfs_sect s pdir j) s =
    (VALID, s\<lparr>disk := (disk s)(mfs_sect s pdir j := bs)\<rparr>)"
  using assms sect_in_range [OF assms] by (auto simp: mfsw_device_def item_data_def mfs_dir_ok_def good_disk_def Let_def)

section \<open>The walk\<close>

text \<open>The callback goes on without changing anything.\<close>

definition passes :: "mfs_ex_proc \<Rightarrow> itemattrib \<Rightarrow> u32 \<Rightarrow> mfs_func_param_io \<Rightarrow> mfs_inode \<Rightarrow> bool" where
  "passes proc a clust pio e \<longleftrightarrow> proc a \<lparr>in_pmi = e, in_clust = clust\<rparr> pio = Some (MFS_RESULT_CONTINUE, a, e, pio)"

lemmas verdicts = MFS_RESULT_ABORT_def MFS_RESULT_DONE_def MFS_RESULT_CONTINUE_def MFS_RESULT_WRITEBACK_def
  MFS_RESULT_WRITEBACK_EX_def

lemma set_attrib_id [simp]: "set_attrib (DirItem p) (i_attrib (d_data (dirs s p))) s = s"
  by (simp add: set_attrib_def upd_item_def upd_dir_id)

lemma entry_loop_skip:
  assumes "\<forall>i. k \<le> i \<and> i < k + n \<longrightarrow> passes proc (i_attrib (d_data (dirs s pdir))) clust pio (buf ! i)"
  shows "entry_loop bops pdev (DirItem pdir) proc clust sct k (n + m) buf pio s =
         entry_loop bops pdev (DirItem pdir) proc clust sct (k + n) m buf pio s"
  using assms
proof (induction n arbitrary: k)
  case (Suc n)
  then have "passes proc (i_attrib (d_data (dirs s pdir))) clust pio (buf ! k)" by auto
  with Suc.IH [of "Suc k"] Suc.prems show ?case
    by (simp add: passes_def item_data_def verdicts)
qed simp

lemma entry_loop_all:
  assumes "\<forall>i < n. passes proc (i_attrib (d_data (dirs s pdir))) clust pio (buf ! i)"
  shows "entry_loop bops pdev (DirItem pdir) proc clust sct 0 n buf pio s = Some (None, pio, s)"
  using entry_loop_skip [of 0 n proc s pdir clust pio buf bops pdev sct 0] assms by simp

lemma entry_loop_at:
  assumes "\<forall>i < k. passes proc (i_attrib (d_data (dirs s pdir))) clust pio (buf ! i)" and "k < n"
  shows "entry_loop bops pdev (DirItem pdir) proc clust sct 0 n buf pio s =
         entry_loop bops pdev (DirItem pdir) proc clust sct k (Suc (n - Suc k)) buf pio s"
  using entry_loop_skip [of 0 k proc s pdir clust pio buf bops pdev sct "Suc (n - Suc k)"] assms by simp

text \<open>The sectors of the cluster from \<^verbatim>\<open>j\<close> on, read from a good disk.\<close>

lemma sector_loop_step:
  assumes "mfs_dir_ok bops s pdir" and "j < 8"
  shows "sector_loop bops (InodeItem (mfs_dev s pdir)) (DirItem pdir) proc (mfs_clust s pdir) j (Suc n) pio s =
    (case entry_loop bops (InodeItem (mfs_dev s pdir)) (DirItem pdir) proc (mfs_clust s pdir) (mfs_sect s pdir j) 0 8
            (sector_inodes (disk s (mfs_sect s pdir j))) pio s of
       None \<Rightarrow> None
     | Some (Some r, pio', s2) \<Rightarrow> Some (Some r, pio', s2)
     | Some (None, pio', s2) \<Rightarrow>
         sector_loop bops (InodeItem (mfs_dev s pdir)) (DirItem pdir) proc (mfs_clust s pdir) (Suc j) n pio' s2)"
  using read_sector [OF assms, of "[]"] by (simp add: mfs_sect_def Let_def)

lemma sector_loop_skip:
  assumes "mfs_dir_ok bops s pdir" and "j + n \<le> 8"
    and "\<forall>p. 8 * j \<le> p \<and> p < 8 * (j + n) \<longrightarrow>
      passes proc (i_attrib (d_data (dirs s pdir))) (mfs_clust s pdir) pio (entry s pdir p)"
  shows "sector_loop bops (InodeItem (mfs_dev s pdir)) (DirItem pdir) proc (mfs_clust s pdir) j (n + m) pio s =
         sector_loop bops (InodeItem (mfs_dev s pdir)) (DirItem pdir) proc (mfs_clust s pdir) (j + n) m pio s"
  using assms
proof (induction n arbitrary: j)
  case (Suc n)
  have "passes proc (i_attrib (d_data (dirs s pdir))) (mfs_clust s pdir) pio (sector_inodes (disk s (mfs_sect s pdir j)) ! i)"
    if "i < 8" for i
  proof -
    from that have "8 * j \<le> 8 * j + i \<and> 8 * j + i < 8 * (j + Suc n)" by simp
    with Suc.prems(3) have "passes proc (i_attrib (d_data (dirs s pdir))) (mfs_clust s pdir) pio (entry s pdir (8 * j + i))"
      by blast
    with that show ?thesis by (simp add: entry_def)
  qed
  then have "entry_loop bops (InodeItem (mfs_dev s pdir)) (DirItem pdir) proc (mfs_clust s pdir) (mfs_sect s pdir j) 0 8
      (sector_inodes (disk s (mfs_sect s pdir j))) pio s = Some (None, pio, s)"
    by (intro entry_loop_all) simp
  moreover have "sector_loop bops (InodeItem (mfs_dev s pdir)) (DirItem pdir) proc (mfs_clust s pdir) (Suc j) (n + m) pio s =
      sector_loop bops (InodeItem (mfs_dev s pdir)) (DirItem pdir) proc (mfs_clust s pdir) (Suc j + n) m pio s"
    using Suc.prems by (intro Suc.IH) auto
  ultimately show ?case
    using sector_loop_step [OF Suc.prems(1), of j proc "n + m" pio] Suc.prems(2) by simp
qed simp

lemma mfs_function_loop:
  assumes "mfs_dir_ok bops s pdir"
  shows "mfs_function bops (DirItem pdir) pio proc s =
    (case sector_loop bops (InodeItem (mfs_dev s pdir)) (DirItem pdir) proc (mfs_clust s pdir) 0 8 pio s of
       None \<Rightarrow> None
     | Some (Some r, pio', s1) \<Rightarrow> Some (r, pio', s1)
     | Some (None, pio', s1) \<Rightarrow> Some (INVALID, pio', s1))"
  using assms
  by (simp add: mfs_function_def mfs_dir_ok_def mfs_dev_def mfs_clust_def item_data_def MFS_DIR_FAT_CNT_def
      MFS_INVALID_CLUSTER_def MFS_SCTS_PERCLUSTER_def Let_def eq_commute [of 0] del: sector_loop.simps split: option.split)

lemma mfs_function_none:
  assumes "mfs_dir_ok bops s pdir"
    and "\<forall>p < 64. passes proc (i_attrib (d_data (dirs s pdir))) (mfs_clust s pdir) pio (entry s pdir p)"
  shows "mfs_function bops (DirItem pdir) pio proc s = Some (INVALID, pio, s)"
  using sector_loop_skip [OF assms(1), of 0 8 proc pio 0] assms(2)
  by (simp add: mfs_function_loop [OF assms(1)])

text \<open>The first entry on which the callback does more than continue decides.\<close>

lemma skip_to:
  assumes "mfs_dir_ok bops s pdir" and "p < 64"
    and "\<forall>q < p. passes proc (i_attrib (d_data (dirs s pdir))) (mfs_clust s pdir) pio (entry s pdir q)"
  shows "sector_loop bops (InodeItem (mfs_dev s pdir)) (DirItem pdir) proc (mfs_clust s pdir) 0 8 pio s =
         sector_loop bops (InodeItem (mfs_dev s pdir)) (DirItem pdir) proc (mfs_clust s pdir) (p div 8) (Suc (7 - p div 8)) pio s"
  using sector_loop_skip [OF assms(1), of 0 "p div 8" proc pio "Suc (7 - p div 8)"] assms(2,3) by simp

lemma enter_at:
  assumes "mfs_dir_ok bops s pdir" and "p < 64"
    and "\<forall>q < p. passes proc (i_attrib (d_data (dirs s pdir))) (mfs_clust s pdir) pio (entry s pdir q)"
  shows "entry_loop bops pdev (DirItem pdir) proc (mfs_clust s pdir) sct 0 8
           (sector_inodes (disk s (mfs_sect s pdir (p div 8)))) pio s =
         entry_loop bops pdev (DirItem pdir) proc (mfs_clust s pdir) sct (p mod 8) (Suc (7 - p mod 8))
           (sector_inodes (disk s (mfs_sect s pdir (p div 8)))) pio s"
proof -
  have "passes proc (i_attrib (d_data (dirs s pdir))) (mfs_clust s pdir) pio
      (sector_inodes (disk s (mfs_sect s pdir (p div 8))) ! i)" if "i < p mod 8" for i
  proof -
    have "8 * (p div 8) + i < p" using that mult_div_mod_eq [of 8 p] by linarith
    with assms(3) have "passes proc (i_attrib (d_data (dirs s pdir))) (mfs_clust s pdir) pio (entry s pdir (8 * (p div 8) + i))"
      by blast
    moreover have "i < 8" using that by simp
    ultimately show ?thesis by (simp add: entry_def)
  qed
  then show ?thesis
    using entry_loop_at [of "p mod 8" proc s pdir "mfs_clust s pdir" pio "sector_inodes (disk s (mfs_sect s pdir (p div 8)))" 8]
    by simp
qed

lemma mfs_function_at:
  assumes "mfs_dir_ok bops s pdir" and "p < 64"
    and "\<forall>q < p. passes proc (i_attrib (d_data (dirs s pdir))) (mfs_clust s pdir) pio (entry s pdir q)"
    and "proc (i_attrib (d_data (dirs s pdir))) \<lparr>in_pmi = entry s pdir p, in_clust = mfs_clust s pdir\<rparr> pio =
           Some (r, a, e, pio')"
    and "r = MFS_RESULT_DONE \<or> r = MFS_RESULT_WRITEBACK"
  shows "mfs_function bops (DirItem pdir) pio proc s =
    (if r = MFS_RESULT_DONE then Some (VALID, pio', set_attrib (DirItem pdir) a s)
     else case mfsw_device bops (InodeItem (mfs_dev s pdir))
            (inodes_sector ((sector_inodes (disk s (mfs_sect s pdir (p div 8))))[p mod 8 := e]))
            (mfs_sect s pdir (p div 8)) (set_attrib (DirItem pdir) a s) of
            (r, s2) \<Rightarrow> Some (r, pio', s2))"
proof -
  have "p div 8 < 8" using assms(2) by simp
  moreover have "item_data (DirItem pdir) s = d_data (dirs s pdir)"
    "sector_inodes (disk s (mfs_sect s pdir (p div 8))) ! (p mod 8) = entry s pdir p"
    by (simp_all add: item_data_def entry_def)
  ultimately show ?thesis
    using assms(4,5) sector_loop_step [OF assms(1), of "p div 8" proc "7 - p div 8" pio] enter_at [OF assms(1-3)]
    by (auto simp: mfs_function_loop [OF assms(1)] skip_to [OF assms(1-3)] verdicts simp del: sector_loop.simps split: prod.split)
qed

section \<open>Lookup\<close>

definition is_entry :: "mfs_func_param_io \<Rightarrow> mfs_inode \<Rightarrow> bool" where
  "is_entry pio e \<longleftrightarrow> name_len e \<noteq> 0 \<and> name_diff e (m_pmi pio) = 0"

lemma nth_entries [simp]: "p < 64 \<Longrightarrow> entries s pdir ! p = entry s pdir p" and length_entries [simp]: "length (entries s pdir) = 64"
  by (simp_all add: entries_def)

lemma search_passes: "passes mfs_ex_searchitem a c pio e \<longleftrightarrow> \<not> is_entry pio e"
  by (auto simp: passes_def mfs_ex_searchitem_def is_entry_def verdicts)

lemma mfs_search:
  assumes "mfs_dir_ok bops s pdir"
  shows "mfs_function bops (DirItem pdir) pio mfs_ex_searchitem s = Some
    (case find (is_entry pio) (entries s pdir) of
       None \<Rightarrow> (INVALID, pio, s)
     | Some e \<Rightarrow> (VALID, pio\<lparr>m_clust := mfs_clust s pdir, m_pmi := e\<rparr>, s))"
proof (cases "find (is_entry pio) (entries s pdir)")
  case None
  then have "\<forall>p < 64. \<not> is_entry pio (entry s pdir p)"
    by (metis find_None_iff length_entries nth_entries nth_mem)
  then show ?thesis using mfs_function_none [OF assms] None by (simp add: search_passes)
next
  case (Some e)
  then obtain p where p: "p < 64" "e = entry s pdir p" "is_entry pio e" "\<forall>q < p. \<not> is_entry pio (entry s pdir q)"
    by (auto simp: find_Some_iff)
  have "mfs_ex_searchitem (i_attrib (d_data (dirs s pdir))) \<lparr>in_pmi = entry s pdir p, in_clust = mfs_clust s pdir\<rparr> pio =
     Some (MFS_RESULT_DONE, i_attrib (d_data (dirs s pdir)), e, pio\<lparr>m_clust := mfs_clust s pdir, m_pmi := e\<rparr>)"
    using p(2,3) by (simp add: mfs_ex_searchitem_def is_entry_def)
  from mfs_function_at [where proc = mfs_ex_searchitem, OF assms p(1) _ this] p(4) Some show ?thesis by (simp add: search_passes)
qed

text \<open>C21: mfs_readattrib is a search of the 64 entries of the directory's cluster by name, and changes
  nothing.\<close>

theorem mfs_readattrib_search:
  assumes "mfs_dir_ok bops s pdir"
  shows "mfs_readattrib bops pdir pitm nm s = Some
    (case find (is_entry (named_io nm)) (entries s pdir) of
       None \<Rightarrow> (INVALID, pitm, s)
     | Some e \<Rightarrow> (VALID, load_inode_into_attrib (copy_name (m_name e) pitm) e, s))"
  by (simp add: mfs_readattrib_def mfs_search [OF assms] load_pmi_def split: option.split)

section \<open>Replacing an entry\<close>

lemma set_attrib_dir [simp]:
  "d_data (dirs (set_attrib (DirItem p) a s) q) = (if q = p then (d_data (dirs s p))\<lparr>i_attrib := a\<rparr> else d_data (dirs s q))"
  "inodes (set_attrib (DirItem p) a s) = inodes s" "mnts (set_attrib (DirItem p) a t) = mnts t"
  "cores (set_attrib (DirItem p) a t) = cores t" "disk (set_attrib (DirItem p) a t) = disk t"
  "clock (set_attrib (DirItem p) a t) = clock t"
  by (simp_all add: set_attrib_def upd_item_def upd_dir_def)

definition put_entry :: "mfs \<Rightarrow> addr \<Rightarrow> nat \<Rightarrow> mfs_inode \<Rightarrow> mfs \<Rightarrow> mfs" where
  "put_entry s pdir p e t = t\<lparr>disk := (disk t)(mfs_sect s pdir (p div 8) :=
     inodes_sector ((sector_inodes (disk t (mfs_sect s pdir (p div 8))))[p mod 8 := e]))\<rparr>"

lemma mfs_function_write:
  assumes "mfs_dir_ok bops s pdir" and "p < 64"
    and "\<forall>q < p. passes proc (i_attrib (d_data (dirs s pdir))) (mfs_clust s pdir) pio (entry s pdir q)"
    and "proc (i_attrib (d_data (dirs s pdir))) \<lparr>in_pmi = entry s pdir p, in_clust = mfs_clust s pdir\<rparr> pio =
           Some (MFS_RESULT_WRITEBACK, a, e, pio')"
    and "i_type a = ITYPE_DIR"
  shows "mfs_function bops (DirItem pdir) pio proc s =
    Some (VALID, pio', put_entry s pdir p e (set_attrib (DirItem pdir) a s))"
proof -
  let ?t = "set_attrib (DirItem pdir) a s"
  have e: "mfs_dev ?t pdir = mfs_dev s pdir" "mfs_clust ?t pdir = mfs_clust s pdir" "mfs_sect ?t pdir = mfs_sect s pdir"
    by (auto simp: mfs_dev_def mfs_clust_def mfs_sect_def)
  have "mfs_dir_ok bops ?t pdir" using assms(1,5) by (simp add: mfs_dir_ok_def e)
  from write_sector [OF this, of "p div 8"] assms(2) show ?thesis
    using mfs_function_at [OF assms(1-4)] by (simp add: e put_entry_def verdicts)
qed

lemma put_entry_keeps:
  assumes "mfs_dir_ok bops s pdir" and "i_type a = ITYPE_DIR" and "p < 64" and "inode_ok e"
  shows "mfs_dir_ok bops (put_entry s pdir p e (set_attrib (DirItem pdir) a s)) pdir"
    and "entries (put_entry s pdir p e (set_attrib (DirItem pdir) a s)) pdir = (entries s pdir)[p := e]"
proof -
  let ?t = "put_entry s pdir p e (set_attrib (DirItem pdir) a s)" and ?j = "p div 8"
  let ?L = "(sector_inodes (disk s (mfs_sect s pdir ?j)))[p mod 8 := e]"
  have j: "?j < 8" using assms(3) by simp
  have eq: "mfs_dev ?t pdir = mfs_dev s pdir" "mfs_clust ?t pdir = mfs_clust s pdir" "mfs_sect ?t pdir = mfs_sect s pdir"
    by (auto simp: mfs_dev_def mfs_clust_def mfs_sect_def put_entry_def)
  have dk: "disk ?t = (disk s)(mfs_sect s pdir ?j := inodes_sector ?L)" by (simp add: put_entry_def)
  have "length (disk s (mfs_sect s pdir ?j)) = 512" using assms(1) j by (simp add: mfs_dir_ok_def)
  then have "\<forall>i \<in> set (sector_inodes (disk s (mfs_sect s pdir ?j))). inode_ok i"
    by (auto simp: sector_inodes_def decode_inode_ok)
  then have ok: "\<forall>i \<in> set ?L. inode_ok i" using assms(4) set_update_subset_insert by fastforce
  have len: "length (inodes_sector ?L) = 512" using length_inodes_sector [OF ok] by simp
  have rt: "sector_inodes (inodes_sector ?L) = ?L" using inodes_roundtrip [OF ok] by simp
  show "mfs_dir_ok bops ?t pdir"
    using assms(1,2) len unfolding mfs_dir_ok_def eq dk by (auto simp: put_entry_def)
  show "entries ?t pdir = (entries s pdir)[p := e]"
  proof (rule nth_equalityI)
    fix q assume "q < length (entries ?t pdir)"
    then have q: "q < 64" by simp
    show "entries ?t pdir ! q = (entries s pdir)[p := e] ! q"
    proof (cases "q div 8 = ?j")
      case True
      then have "q = p \<longleftrightarrow> q mod 8 = p mod 8" by (metis div_mult_mod_eq)
      with q True assms(3) show ?thesis
        by (auto simp: entry_def eq dk rt nth_list_update)
    next
      case False
      then have "mfs_sect s pdir (q div 8) \<noteq> mfs_sect s pdir ?j" "q \<noteq> p"
        using mfs_sect_inj [OF assms(1), of "q div 8" ?j] q j by auto
      with q show ?thesis by (simp add: entry_def eq dk)
    qed
  qed simp
qed

section \<open>Creating a file\<close>

lemma name_nlen_le: "name_nlen n f \<le> n"
  by (induction n arbitrary: f) auto

lemma length_name_ncpy [simp]: "length (name_ncpy dst src) = length dst"
  by (simp add: name_ncpy_def Let_def name_nlen_le)

lemma name_ncpy_first: "dst \<noteq> [] \<Longrightarrow> src 0 \<noteq> 0 \<Longrightarrow> name_ncpy dst src ! 0 = src 0"
  by (cases dst) (simp_all add: name_ncpy_def Let_def nth_append)

lemma named_io_simps [simp]:
  "m_name (m_pmi (named_io nm)) = name_ncpy (replicate 14 0) nm" "inode_ok (m_pmi (named_io nm))"
  "m_unused (m_pmi (named_io nm)) = replicate 2 0" "m_attrib (m_pmi (named_io nm)) = 0"
  by (simp_all add: named_io_def zero_mfs_inode_def inode_ok_def)

lemma name_len_pos:
  assumes "nm 0 \<noteq> 0" and "m_name e = name_ncpy (replicate 14 0) nm"
  shows "name_len e \<noteq> 0"
proof -
  have "0 < length (m_name e)" "m_name e ! 0 = nm 0"
    using assms name_ncpy_first [of "replicate 14 0" nm] by simp_all
  then have "entry_name e 0 \<noteq> 0" using assms(1) by (simp add: entry_name_def nth_append)
  then show ?thesis by (simp add: name_len_def K_MAX_LEN_NODE_NAME_def numeral_eq_Suc)
qed

lemma name_diff_same: "m_name e = m_name i \<Longrightarrow> m_unused e = m_unused i \<Longrightarrow> name_diff e i = 0"
proof -
  assume "m_name e = m_name i" "m_unused e = m_unused i"
  then have "entry_name e = entry_name i" by (auto simp: entry_name_def)
  then show ?thesis by (simp add: name_diff_def)
qed

lemma mk_passes: "passes mfs_ex_mkmfsinode a c pio e \<longleftrightarrow> name_len e \<noteq> 0"
  by (auto simp: passes_def mfs_ex_mkmfsinode_def verdicts)

definition new_file :: "name \<Rightarrow> cmos \<Rightarrow> mfs_inode" where
  "new_file nm c = zero_mfs_inode\<lparr>m_name := name_ncpy (replicate 14 0) nm, m_attrib := ITYPE_ARCHIVE,
     md_create := getdate c, mt_create := gettime c, md_lastaccess := getdate c\<rparr>"

lemma new_file_simps [simp]:
  "inode_ok (new_file nm c)" "m_name (new_file nm c) = name_ncpy (replicate 14 0) nm"
  "m_unused (new_file nm c) = replicate 2 0" "m_attrib (new_file nm c) = ITYPE_ARCHIVE"
  by (simp_all add: new_file_def zero_mfs_inode_def inode_ok_def)

lemma first_free:
  assumes "find (\<lambda>e. name_len e = 0) (entries s pdir) \<noteq> None"
  obtains p where "p < 64" "name_len (entry s pdir p) = 0" "\<forall>q < p. name_len (entry s pdir q) \<noteq> 0"
  using assms by (auto simp: find_Some_iff)

lemma touch_state:
  assumes "mfs_dir_ok bops s pdir" and "find (is_entry (named_io nm)) (entries s pdir) = None"
    and "p < 64" "name_len (entry s pdir p) = 0" "\<forall>q < p. name_len (entry s pdir q) \<noteq> 0"
  shows "mfs_touch bops pdir pitm nm s = Some (VALID, pitm,
    put_entry s pdir p (new_file nm (clock s)) (set_attrib (DirItem pdir)
      ((i_attrib (d_data (dirs s pdir)))\<lparr>i_size := i_size (i_attrib (d_data (dirs s pdir))) + 1\<rparr>) s))"
proof -
  let ?pio = "upd_pmi (\<lambda>i. i\<lparr>md_create := getdate (clock s), mt_create := gettime (clock s), md_lastaccess := getdate (clock s),
     mt_lastaccess := mt_lastaccess i\<rparr>) (upd_pmi (\<lambda>i. i\<lparr>m_attrib := ITYPE_ARCHIVE\<rparr>) (named_io nm))"
  let ?a = "i_attrib (d_data (dirs s pdir))"
  have new: "m_pmi ?pio = new_file nm (clock s)"
    by (simp add: upd_pmi_def new_file_def named_io_def zero_mfs_inode_def)
  have "mfs_ex_mkmfsinode ?a \<lparr>in_pmi = entry s pdir p, in_clust = mfs_clust s pdir\<rparr> ?pio =
      Some (MFS_RESULT_WRITEBACK, ?a\<lparr>i_size := i_size ?a + 1\<rparr>, new_file nm (clock s), ?pio\<lparr>m_clust := mfs_clust s pdir\<rparr>)"
    using assms(4) new by (simp add: mfs_ex_mkmfsinode_def)
  note w = mfs_function_write [where proc = mfs_ex_mkmfsinode, OF assms(1,3) _ this]
  have "i_type ?a = ITYPE_DIR" "pdir \<noteq> 0" using assms(1) by (simp_all add: mfs_dir_ok_def)
  with w assms(5) show ?thesis
    by (simp add: mfs_touch_def mfs_search [OF assms(1)] assms(2) mfs_makeinode_def mk_passes Let_def)
qed

definition touched :: "mfs \<Rightarrow> addr \<Rightarrow> nat \<Rightarrow> name \<Rightarrow> mfs" where
  "touched s pdir p nm = put_entry s pdir p (new_file nm (clock s)) (set_attrib (DirItem pdir)
     ((i_attrib (d_data (dirs s pdir)))\<lparr>i_size := i_size (i_attrib (d_data (dirs s pdir))) + 1\<rparr>) s)"

lemma touched_reads:
  assumes "mfs_dir_ok bops s pdir" and "nm 0 \<noteq> 0" and "find (is_entry (named_io nm)) (entries s pdir) = None" and "p < 64"
  shows "mfs_dir_ok bops (touched s pdir p nm) pdir"
    and "entries (touched s pdir p nm) pdir = (entries s pdir)[p := new_file nm (clock s)]"
    and "\<exists>a. mfs_readattrib bops pdir pitm nm (touched s pdir p nm) = Some (VALID, a, touched s pdir p nm) \<and> i_type a = ITYPE_ARCHIVE"
proof -
  let ?a = "i_attrib (d_data (dirs s pdir))" and ?n = "new_file nm (clock s)" and ?s = "touched s pdir p nm"
  have "i_type (?a\<lparr>i_size := i_size ?a + 1\<rparr>) = ITYPE_DIR" using assms(1) by (simp add: mfs_dir_ok_def)
  note keep = put_entry_keeps [OF assms(1) this assms(4) new_file_simps(1), of nm "clock s", folded touched_def]
  show "mfs_dir_ok bops ?s pdir" "entries ?s pdir = (entries s pdir)[p := ?n]" by (rule keep)+
  have isn: "is_entry (named_io nm) ?n"
    using name_len_pos [of nm ?n, OF assms(2)] name_diff_same [of ?n "m_pmi (named_io nm)"] by (simp add: is_entry_def)
  have "\<not> is_entry (named_io nm) (entries s pdir ! q)" if "q < 64" for q
    using assms(3) that by (simp add: find_None_iff) (metis length_entries nth_mem nth_entries)
  then have "find (is_entry (named_io nm)) (entries ?s pdir) = Some ?n"
    unfolding find_Some_iff keep(2) using assms(4) isn by (intro exI [of _ p]) (auto simp: nth_list_update)
  then show "\<exists>a. mfs_readattrib bops pdir pitm nm ?s = Some (VALID, a, ?s) \<and> i_type a = ITYPE_ARCHIVE"
    by (simp add: mfs_readattrib_def mfs_search [OF keep(1)] load_pmi_def load_inode_into_attrib_def)
qed

text \<open>C20: On a directory with a free slot mfs_touch writes one new entry, changes no other, and
  mfs_readattrib then finds the name as an ordinary file.\<close>

theorem mfs_touch_then_readattrib:
  assumes "mfs_dir_ok bops s pdir" and "nm 0 \<noteq> 0" and "find (is_entry (named_io nm)) (entries s pdir) = None"
    and "find (\<lambda>e. name_len e = 0) (entries s pdir) \<noteq> None"
  shows "\<exists>p < 64. \<exists>s'. mfs_touch bops pdir pitm nm s = Some (VALID, pitm, s') \<and>
    name_len (entries s pdir ! p) = 0 \<and> entries s' pdir = (entries s pdir)[p := new_file nm (clock s)] \<and>
    mfs_dir_ok bops s' pdir \<and>
    (\<exists>a. mfs_readattrib bops pdir pitm nm s' = Some (VALID, a, s') \<and> i_type a = ITYPE_ARCHIVE)"
proof -
  obtain p where p: "p < 64" "name_len (entry s pdir p) = 0" "\<forall>q < p. name_len (entry s pdir q) \<noteq> 0"
    using first_free [OF assms(4)] .
  then show ?thesis
    using touch_state [OF assms(1,3) p, of pitm, folded touched_def] touched_reads [OF assms(1-3) p(1)]
    by (intro exI [of _ p] conjI exI [of _ "touched s pdir p nm"]) auto
qed

section \<open>Removing a file\<close>

text \<open>\<^verbatim>\<open>mfs_ex_rmmfsinode\<close> acts on the first entry whose name differs from the one to remove.\<close>

definition differs :: "mfs_inode \<Rightarrow> mfs_inode \<Rightarrow> bool" where
  "differs i e \<longleftrightarrow> name_len e \<noteq> 0 \<and> name_diff e i \<noteq> 0"

lemma rm_passes: "passes mfs_ex_rmmfsinode a c pio e \<longleftrightarrow> \<not> differs (m_pmi pio) e"
  by (auto simp: passes_def mfs_ex_rmmfsinode_def differs_def verdicts)

lemma free_clusters_id [simp]: "mfs_free_cluster d b c s = s" "free_tables d b cs s = s"
proof -
  have "fold (\<lambda>c s. if MFS_INVALID_CLUSTER \<noteq> c then mfs_freefilefat d b c s else s) xs t = t"
    "fold (\<lambda>c s. if MFS_INVALID_CLUSTER \<noteq> c then mfs_free_cluster d b c s else s) xs t = t" for xs t
    by (induction xs) (simp_all add: mfs_freefilefat_def mfs_free_cluster_def)
  then show "mfs_free_cluster d b c s = s" "free_tables d b cs s = s"
    by (simp_all add: mfs_free_cluster_def free_tables_def)
qed

lemma first_differs:
  assumes "find (differs e) (entries s pdir) = Some x"
  obtains p where "p < 64" "x = entry s pdir p" "differs e (entry s pdir p)" "\<forall>q < p. \<not> differs e (entry s pdir q)"
  using assms by (auto simp: find_Some_iff)

lemma rm_state:
  assumes "mfs_dir_ok bops s pdir" and "find (is_entry (named_io nm)) (entries s pdir) = Some e"
    and "m_attrib e = ITYPE_ARCHIVE"
    and "p < 64" "differs e (entry s pdir p)" "\<forall>q < p. \<not> differs e (entry s pdir q)"
  shows "mfs_rm bops pdir nm s = Some (VALID,
    put_entry s pdir p zero_mfs_inode (set_attrib (DirItem pdir)
      ((i_attrib (d_data (dirs s pdir)))\<lparr>i_size := i_size (i_attrib (d_data (dirs s pdir))) - 1\<rparr>) s))"
proof -
  let ?pio = "(named_io nm)\<lparr>m_clust := mfs_clust s pdir, m_pmi := e\<rparr>"
  let ?a = "i_attrib (d_data (dirs s pdir))"
  have "mfs_ex_rmmfsinode ?a \<lparr>in_pmi = entry s pdir p, in_clust = mfs_clust s pdir\<rparr> ?pio =
      Some (MFS_RESULT_WRITEBACK, ?a\<lparr>i_size := i_size ?a - 1\<rparr>, zero_mfs_inode, ?pio\<lparr>m_clust := mfs_clust s pdir, m_pmi := entry s pdir p\<rparr>)"
    using assms(5) by (simp add: mfs_ex_rmmfsinode_def differs_def)
  note w = mfs_function_write [where proc = mfs_ex_rmmfsinode, OF assms(1,4) _ this]
  have "i_type ?a = ITYPE_DIR" using assms(1) by (simp add: mfs_dir_ok_def)
  with w assms(3,6) show ?thesis
    by (simp add: mfs_rm_def mfs_search [OF assms(1)] assms(2) rm_passes)
qed

lemma zero_not_entry: "name_len zero_mfs_inode = 0"
  by (simp add: name_len_def K_MAX_LEN_NODE_NAME_def numeral_eq_Suc entry_name_def zero_mfs_inode_def nth_append)

text \<open>C30: On a well-formed directory with an entry of another name, mfs_rm of an existing ordinary file
  reports success, erases the first entry whose name differs, and leaves the file.\<close>

theorem mfs_rm_erases_other:
  assumes "mfs_dir_ok bops s pdir" and "find (is_entry (named_io nm)) (entries s pdir) = Some e"
    and "m_attrib e = ITYPE_ARCHIVE" and "find (differs e) (entries s pdir) = Some x"
  shows "\<exists>p < 64. \<exists>s'. mfs_rm bops pdir nm s = Some (VALID, s') \<and> entries s pdir ! p = x \<and>
    entries s' pdir = (entries s pdir)[p := zero_mfs_inode] \<and> mfs_dir_ok bops s' pdir \<and> e \<in> set (entries s' pdir)"
proof -
  obtain p where p: "p < 64" "x = entry s pdir p" "differs e (entry s pdir p)" "\<forall>q < p. \<not> differs e (entry s pdir q)"
    using first_differs [OF assms(4)] .
  let ?a = "i_attrib (d_data (dirs s pdir))"
  let ?s = "put_entry s pdir p zero_mfs_inode (set_attrib (DirItem pdir) (?a\<lparr>i_size := i_size ?a - 1\<rparr>) s)"
  have "i_type (?a\<lparr>i_size := i_size ?a - 1\<rparr>) = ITYPE_DIR" using assms(1) by (simp add: mfs_dir_ok_def)
  note keep = put_entry_keeps [OF assms(1) this p(1) zero_mfs_inode_ok]
  obtain i where i: "i < 64" "entries s pdir ! i = e" using assms(2) by (auto simp: find_Some_iff)
  have "\<not> differs e e" by (simp add: differs_def name_diff_same)
  then have "i \<noteq> p" using p i by auto
  then have "(entries s pdir)[p := zero_mfs_inode] ! i = e" using i by simp
  then have "e \<in> set (entries ?s pdir)" unfolding keep(2) using i(1) by (metis length_entries length_list_update nth_mem)
  then show ?thesis
    using rm_state [OF assms(1-3) p(1,3,4)] keep p by (intro exI [of _ p] conjI exI [of _ ?s]) auto
qed

section \<open>Closing a directory\<close>

lemma mfs_function_fault:
  assumes "mfs_dir_ok bops s pdir" and "p < 64"
    and "\<forall>q < p. passes proc (i_attrib (d_data (dirs s pdir))) (mfs_clust s pdir) pio (entry s pdir q)"
    and "proc (i_attrib (d_data (dirs s pdir))) \<lparr>in_pmi = entry s pdir p, in_clust = mfs_clust s pdir\<rparr> pio = None"
  shows "mfs_function bops (DirItem pdir) pio proc s = None"
proof -
  let ?j = "p div 8" and ?k = "p mod 8"
  let ?sl = "sector_loop bops (InodeItem (mfs_dev s pdir)) (DirItem pdir) proc (mfs_clust s pdir)"
  have skip: "?sl 0 8 pio s = ?sl ?j (Suc (7 - ?j)) pio s" using skip_to [OF assms(1-3)] by simp
  have "?j < 8" using assms(2) by simp
  then show ?thesis
    using enter_at [OF assms(1-3)] assms(4) sector_loop_step [OF assms(1), of ?j proc "7 - ?j" pio]
    by (simp add: mfs_function_loop [OF assms(1)] skip item_data_def entry_def del: sector_loop.simps)
qed

lemma upd_item_keeps:
  assumes "d \<noteq> pdir"
  shows "dirs (upd_item (DirItem d) f s) pdir = dirs s pdir" "inodes (upd_item (DirItem d) f s) = inodes s"
    "mnts (upd_item (DirItem d) f t) = mnts t" "cores (upd_item (DirItem d) f t) = cores t"
    "disk (upd_item (DirItem d) f t) = disk t"
    "item_data (DirItem d) (upd_item (DirItem d) f s) = f (item_data (DirItem d) s)"
  using assms by (simp_all add: upd_item_def upd_dir_def item_data_def)

lemma upd_item_dir:
  assumes "d \<noteq> pdir"
  shows "mfs_dir_ok bops (upd_item (DirItem d) f s) pdir \<longleftrightarrow> mfs_dir_ok bops s pdir"
    and "entry (upd_item (DirItem d) f s) pdir = entry s pdir"
proof -
  have "mfs_dev (upd_item (DirItem d) f s) pdir = mfs_dev s pdir" "mfs_clust (upd_item (DirItem d) f s) pdir = mfs_clust s pdir"
    "mfs_sect (upd_item (DirItem d) f s) pdir = mfs_sect s pdir"
    using assms by (auto simp: mfs_dev_def mfs_clust_def mfs_sect_def upd_item_keeps)
  then show "mfs_dir_ok bops (upd_item (DirItem d) f s) pdir \<longleftrightarrow> mfs_dir_ok bops s pdir"
    "entry (upd_item (DirItem d) f s) pdir = entry s pdir"
    using assms by (auto simp: mfs_dir_ok_def entry_def upd_item_keeps)
qed

text \<open>
  \<^verbatim>\<open>mfs_closedir\<close> asks for the fields of \<^verbatim>\<open>m_private.m_new\<close>, which it leaves null, on the first entry whose
  name differs from that of the directory to close.
\<close>

definition named_inode :: "name \<Rightarrow> mfs_inode" where
  "named_inode nm = zero_mfs_inode\<lparr>m_name := map nm [0..<14]\<rparr>"

text \<open>mfs_closedir follows the null pointer m_new as soon as the parent has an entry with another name.\<close>

theorem mfs_closedir_null:
  assumes "mfs_dir_ok bops s pdir" and "d \<noteq> pdir" and "i_type (i_attrib (d_data (dirs s d))) = ITYPE_DIR"
    and "p < 64" and "name_len (entries s pdir ! p) \<noteq> 0"
    and "name_diff (entries s pdir ! p) (named_inode (i_name (i_attrib (d_data (dirs s d))))) \<noteq> 0"
  shows "mfs_closedir bops pdir (DirItem d) s = None"
proof -
  let ?s = "upd_item (DirItem d) (\<lambda>x. x\<lparr>i_attrib := (i_attrib x)\<lparr>d_lastaccess := getdate (clock s),
              t_lastaccess := gettime (clock s)\<rparr>\<rparr>) s"
  define pmi where "pmi = load_attrib_into_inode (zero_mfs_inode\<lparr>m_name := map (i_name (i_attrib (item_data (DirItem d) ?s))) [0..<K_MAX_LEN_NODE_NAME],
     m_fat := i_fat (cores ?s (i_private (item_data (DirItem d) ?s)))\<rparr>) (i_attrib (item_data (DirItem d) ?s))"
  define pio where "pio = zero_io\<lparr>m_pmi := pmi, exparam := MFS_EX_UPDATE_IFAT OR MFS_EX_UPDATE_LADATE OR MFS_EX_UPDATE_LATIME
     OR MFS_EX_UPDATE_SIZE\<rparr>"
  have n: "m_name pmi = map (i_name (i_attrib (d_data (dirs s d)))) [0..<14]" "m_unused pmi = replicate 2 0"
    by (simp_all add: pmi_def load_attrib_into_inode_def upd_item_def item_data_def K_MAX_LEN_NODE_NAME_def
        zero_mfs_inode_def)
  have pass: "passes mfs_ex_updatefsinode a c pio e \<longleftrightarrow> \<not> differs pmi e" for a c e
    by (auto simp: passes_def mfs_ex_updatefsinode_def differs_def pio_def verdicts Let_def split: option.split)
  have fault: "mfs_ex_updatefsinode a \<lparr>in_pmi = e, in_clust = c\<rparr> pio = None" if "differs pmi e" for a c e
    using that by (simp add: mfs_ex_updatefsinode_def differs_def pio_def upd_new_def m_new_def zero_io_def
        MFS_EX_UPDATE_SIZE_def MFS_EX_UPDATE_IFAT_def MFS_EX_UPDATE_LADATE_def MFS_EX_UPDATE_LATIME_def Let_def)
  have ok: "mfs_dir_ok bops ?s pdir" using assms(1,2) by (simp add: upd_item_dir)
  have "entry_name pmi = entry_name (named_inode (i_name (i_attrib (d_data (dirs s d)))))"
    by (auto simp: entry_name_def n named_inode_def zero_mfs_inode_def)
  then have "differs pmi (entries s pdir ! p)" using assms(5,6) by (simp add: differs_def name_diff_def)
  moreover have "entries s pdir ! p \<in> set (entries s pdir)" using assms(4) by (intro nth_mem) simp
  ultimately have "find (differs pmi) (entries s pdir) \<noteq> None" by (metis find_None_iff)
  then obtain x where "find (differs pmi) (entries s pdir) = Some x" by blast
  then obtain q where q: "q < 64" "differs pmi (entry s pdir q)" "\<forall>r < q. \<not> differs pmi (entry s pdir r)"
    using first_differs by metis
  have "mfs_function bops (DirItem pdir) pio mfs_ex_updatefsinode ?s = None"
    using q assms(2) by (intro mfs_function_fault [OF ok q(1)]) (simp_all add: pass fault upd_item_dir)
  then show ?thesis
    using assms(3) by (simp add: mfs_closedir_def mfs_closenode_def Let_def pmi_def [symmetric] pio_def [symmetric] item_data_def [of "DirItem d" s])
qed

section \<open>New directories and devices\<close>

text \<open>A new directory or device node is never created: the cluster allocator is a stub and the device bit
  is tested on the zeroed inode.\<close>

theorem mfs_new_nodes_refused:
  assumes "mfs_dir_ok bops s pdir" and "find (is_entry (named_io nm)) (entries s pdir) = None"
  shows "mfs_mkdir bops pdir pitm nm s = Some (INVALID, pitm, s) \<and> mfs_mknode bops pdir pitm nm s = Some (INVALID, pitm, s)"
  using assms
  by (auto simp: mfs_mkdir_def mfs_mknode_def mfs_search [OF assms(1)] mfs_alloc_cluster_def mfs_dir_ok_def Let_def)

section \<open>A concrete volume\<close>

definition demo_disk :: blk_op where
  "demo_disk = \<lparr>op_kread = Some (\<lambda>_ n _ s. (VALID, disk s n, s)),
     op_kwrite = Some (\<lambda>_ bs n _ s. (VALID, s\<lparr>disk := (disk s)(n := bs)\<rparr>))\<rparr>"

definition demo_entry :: "u8 list \<Rightarrow> u32 \<Rightarrow> mfs_inode" where
  "demo_entry bs t = zero_mfs_inode\<lparr>m_name := bs @ replicate (14 - length bs) 0, m_attrib := t\<rparr>"

text \<open>The first sector of the root directory: \<^verbatim>\<open>.\<close>, \<^verbatim>\<open>..\<close> and a file \<^verbatim>\<open>f\<close>.\<close>

definition demo_sector :: "mfs_inode list" where
  "demo_sector = [demo_entry [46] ITYPE_DIR, demo_entry [46, 46] ITYPE_DIR, demo_entry [102] ITYPE_ARCHIVE] @
     replicate 5 zero_mfs_inode"

definition demo_mfs :: mfs where
  "demo_mfs = \<lparr>kcaches = zero_kcache, vmem = \<lambda>_. 0, vlinks = \<lambda>_. \<lparr>nxt = 0, pre = 0\<rparr>,
     dirs = (\<lambda>_. zero_dir)(0x1000 := zero_dir\<lparr>d_data := zero_data\<lparr>i_attrib := zero_attrib\<lparr>i_type := ITYPE_DIR\<rparr>,
         i_private := 0x6000, i_root := 0x7000, d_op := 0x9000\<rparr>\<rparr>,
       0x2000 := zero_dir\<lparr>d_data := zero_data\<lparr>i_attrib := zero_attrib\<lparr>i_type := ITYPE_DIR, i_name := str_name [115]\<rparr>\<rparr>\<rparr>),
     inodes = (\<lambda>_. zero_inode)(0x8000 := zero_inode\<lparr>i_data := zero_data\<lparr>i_attrib := zero_attrib\<lparr>i_size := 0x32000\<rparr>, f_op := 0x9100\<rparr>\<rparr>),
     files = \<lambda>_. \<lparr>f_pi = 0, f_owner = \<lparr>own_ptsk = 0, own_pthsk = 0\<rparr>, f_mode = 0, f_private = 0\<rparr>,
     tasks = \<lambda>_. \<lparr>t_fcnt = 0, t_flck = unlocked, t_file = \<lambda>_. 0\<rparr>, tsk_running = 0, thr_running = 0,
     cores = \<lambda>_. \<lparr>m_cluster = 3, m_super = 0, m_itm = NoItem, lck_i_fat = unlocked, i_fat = [3, 0, 0, 0, 0]\<rparr>,
     supers = \<lambda>_. zero_super,
     mnts = \<lambda>_. \<lparr>mnt_num = 0, mnt_flg = 0, mnt_dev = 0x8000, mnt_pfs = 0, mnt_rcnt = 0, mnt_mode = 0, mnt_root = 0,
       mnt_superblk = \<lparr>v_lable = [], v_lbastart = 0, v_lbacnt = 0\<rparr>, mnt_private = 0\<rparr>,
     cmfs = zero_cache, heap = \<lparr>kmem = \<lambda>_. 0, pool = 0, pagemap = 0, cr3_reg = 0, paging_on = False\<rparr>, clock = \<lambda>_. 0,
     disk = (\<lambda>_. inodes_sector (replicate 8 zero_mfs_inode))(24 := inodes_sector demo_sector)\<rparr>"

lemma demo_sector_ok: "\<forall>i \<in> set demo_sector. inode_ok i" "length demo_sector = 8"
  by (auto simp: demo_sector_def demo_entry_def inode_ok_def zero_mfs_inode_def)

lemma demo_sels:
  "mfs_dev demo_mfs 0x1000 = 0x8000" "mfs_clust demo_mfs 0x1000 = 3" "mfs_sect demo_mfs 0x1000 j = 24 + of_nat j"
  "disk demo_mfs 24 = inodes_sector demo_sector" "n \<noteq> 24 \<Longrightarrow> disk demo_mfs n = inodes_sector (replicate 8 zero_mfs_inode)"
  by (simp_all add: mfs_dev_def mfs_clust_def mfs_sect_def demo_mfs_def CLUSTER2SECT_def MFS_SCTS_PERCLUSTER_def)

lemma demo_lengths: "length (disk demo_mfs n) = 512"
  by (cases "n = 24") (simp_all add: demo_sels length_inodes_sector demo_sector_ok)

lemma demo_mfs_ok: "mfs_dir_ok (\<lambda>_. demo_disk) demo_mfs 0x1000"
proof -
  have "good_disk demo_disk" by (simp add: good_disk_def demo_disk_def)
  then show ?thesis
    by (simp add: mfs_dir_ok_def demo_sels demo_lengths) (simp add: demo_mfs_def)
qed

lemma demo_entries: "entries demo_mfs 0x1000 = demo_sector @ replicate 56 zero_mfs_inode"
proof (rule nth_equalityI)
  show len: "length (entries demo_mfs 0x1000) = length (demo_sector @ replicate 56 zero_mfs_inode)"
    by (simp add: demo_sector_ok)
  fix p assume "p < length (entries demo_mfs 0x1000)"
  then have p: "p < 64" by simp
  show "entries demo_mfs 0x1000 ! p = (demo_sector @ replicate 56 zero_mfs_inode) ! p"
  proof (cases "p < 8")
    case True
    then show ?thesis using p
      by (simp add: entry_def demo_sels inodes_roundtrip demo_sector_ok nth_append)
  next
    case False
    then have "p div 8 \<noteq> 0" "p div 8 < 8" using p by (auto simp: div_eq_0_iff)
    then have "(24 :: u32) + of_nat (p div 8) \<noteq> 24"
      by (simp add: word_of_nat_eq_0_iff nat_dvd_not_less)
    then show ?thesis using p False
      by (simp add: entry_def demo_sels inodes_roundtrip demo_sector_ok nth_append)
  qed
qed

lemma name_diff_first: "char_diff (entry_name e 0) (entry_name i 0) \<noteq> 0 \<Longrightarrow> name_diff e i \<noteq> 0"
  by (simp add: name_diff_def K_MAX_LEN_NODE_NAME_def numeral_eq_Suc)

lemma name_len_first: "name_len e = 0 \<longleftrightarrow> entry_name e 0 = 0" "0 < name_len e \<longleftrightarrow> entry_name e 0 \<noteq> 0"
  by (simp_all add: name_len_def K_MAX_LEN_NODE_NAME_def numeral_eq_Suc)

lemma name_ncpy_char: "c \<noteq> 0 \<Longrightarrow> name_ncpy (replicate 14 0) (str_name [c]) = c # replicate 13 0"
proof -
  assume "c \<noteq> 0"
  moreover have "(14 :: nat) = Suc (Suc 12)" by simp
  ultimately have "name_nlen 14 (str_name [c]) = 1" by (simp only: name_nlen.simps) (simp add: str_name_def)
  then show ?thesis by (simp add: name_ncpy_def str_name_def)
qed

lemma demo_first [simp]:
  "entry_name (demo_entry [46] t) 0 = 46" "entry_name (demo_entry [46, 46] t) 0 = 46"
  "entry_name (demo_entry [102] t) 0 = 102" "entry_name (m_pmi (named_io (str_name [103]))) 0 = 103"
  "entry_name (m_pmi (named_io (str_name [102]))) 0 = 102" "entry_name (named_inode (str_name [115])) 0 = 115"
  by (simp_all add: entry_name_def demo_entry_def name_ncpy_char named_inode_def str_name_def upt_conv_Cons)

lemma demo_same: "name_diff (demo_entry [102] t) (m_pmi (named_io (str_name [102]))) = 0"
  by (rule name_diff_same) (simp_all add: demo_entry_def name_ncpy_char zero_mfs_inode_def)

lemma find_zeros: "\<not> P zero_mfs_inode \<Longrightarrow> find P (replicate n zero_mfs_inode) = None"
  by (induction n) auto

lemma demo_finds:
  "find (is_entry (named_io (str_name [102]))) (entries demo_mfs 0x1000) = Some (demo_entry [102] ITYPE_ARCHIVE)"
  "find (is_entry (named_io (str_name [103]))) (entries demo_mfs 0x1000) = None"
  "find (\<lambda>e. name_len e = 0) (entries demo_mfs 0x1000) \<noteq> None"
  "find (differs (demo_entry [102] ITYPE_ARCHIVE)) (entries demo_mfs 0x1000) = Some (demo_entry [46] ITYPE_DIR)"
proof -
  have z: "\<not> is_entry x zero_mfs_inode" for x by (simp add: is_entry_def zero_not_entry)
  have "is_entry (named_io (str_name [102])) (demo_entry [102] t)"
    "\<not> is_entry (named_io (str_name [102])) (demo_entry [46] t)" "\<not> is_entry (named_io (str_name [102])) (demo_entry [46, 46] t)"
    "\<not> is_entry (named_io (str_name [103])) (demo_entry [46] t)" "\<not> is_entry (named_io (str_name [103])) (demo_entry [46, 46] t)"
    "\<not> is_entry (named_io (str_name [103])) (demo_entry [102] t)" for t
    by (simp_all add: is_entry_def demo_same name_len_first name_diff_first char_diff_def)
  with z show "find (is_entry (named_io (str_name [102]))) (entries demo_mfs 0x1000) = Some (demo_entry [102] ITYPE_ARCHIVE)"
    "find (is_entry (named_io (str_name [103]))) (entries demo_mfs 0x1000) = None"
    by (simp_all add: demo_entries demo_sector_def find_append find_zeros)
  show "find (\<lambda>e. name_len e = 0) (entries demo_mfs 0x1000) \<noteq> None"
    unfolding find_None_iff demo_entries demo_sector_def using zero_not_entry by auto
  show "find (differs (demo_entry [102] ITYPE_ARCHIVE)) (entries demo_mfs 0x1000) = Some (demo_entry [46] ITYPE_DIR)"
    by (simp add: demo_entries demo_sector_def differs_def name_len_first name_diff_first char_diff_def)
qed

theorem mfs_readattrib_search_witness:
  "mfs_readattrib (\<lambda>_. demo_disk) 0x1000 zero_attrib (str_name [102]) demo_mfs = Some
     (VALID, load_inode_into_attrib (copy_name (m_name (demo_entry [102] ITYPE_ARCHIVE)) zero_attrib) (demo_entry [102] ITYPE_ARCHIVE), demo_mfs)"
  using mfs_readattrib_search [OF demo_mfs_ok, of zero_attrib "str_name [102]"] by (simp add: demo_finds)

theorem mfs_touch_then_readattrib_witness:
  "\<exists>p < 64. \<exists>s'. mfs_touch (\<lambda>_. demo_disk) 0x1000 zero_attrib (str_name [103]) demo_mfs = Some (VALID, zero_attrib, s') \<and>
    name_len (entries demo_mfs 0x1000 ! p) = 0 \<and>
    entries s' 0x1000 = (entries demo_mfs 0x1000)[p := new_file (str_name [103]) (clock demo_mfs)] \<and>
    mfs_dir_ok (\<lambda>_. demo_disk) s' 0x1000 \<and>
    (\<exists>a. mfs_readattrib (\<lambda>_. demo_disk) 0x1000 zero_attrib (str_name [103]) s' = Some (VALID, a, s') \<and> i_type a = ITYPE_ARCHIVE)"
  by (rule mfs_touch_then_readattrib [OF demo_mfs_ok _ demo_finds(2,3)]) (simp add: str_name_def)

theorem mfs_rm_erases_other_witness:
  "\<exists>p < 64. \<exists>s'. mfs_rm (\<lambda>_. demo_disk) 0x1000 (str_name [102]) demo_mfs = Some (VALID, s') \<and>
    entries demo_mfs 0x1000 ! p = demo_entry [46] ITYPE_DIR \<and>
    entries s' 0x1000 = (entries demo_mfs 0x1000)[p := zero_mfs_inode] \<and> mfs_dir_ok (\<lambda>_. demo_disk) s' 0x1000 \<and>
    demo_entry [102] ITYPE_ARCHIVE \<in> set (entries s' 0x1000)"
  by (rule mfs_rm_erases_other [OF demo_mfs_ok demo_finds(1) _ demo_finds(4)]) (simp add: demo_entry_def)

theorem mfs_closedir_null_witness: "mfs_closedir (\<lambda>_. demo_disk) 0x1000 (DirItem 0x2000) demo_mfs = None"
proof (rule mfs_closedir_null [OF demo_mfs_ok, where p = 0])
  have e: "entries demo_mfs 0x1000 ! 0 = demo_entry [46] ITYPE_DIR" by (simp add: demo_entries demo_sector_def)
  show "name_len (entries demo_mfs 0x1000 ! 0) \<noteq> 0" unfolding e by (simp add: name_len_first)
  have "i_name (i_attrib (d_data (dirs demo_mfs 0x2000))) = str_name [115]" by (simp add: demo_mfs_def)
  then show "name_diff (entries demo_mfs 0x1000 ! 0) (named_inode (i_name (i_attrib (d_data (dirs demo_mfs 0x2000))))) \<noteq> 0"
    unfolding e by (intro name_diff_first) (simp add: char_diff_def)
  show "i_type (i_attrib (d_data (dirs demo_mfs 0x2000))) = ITYPE_DIR" by (simp add: demo_mfs_def)
qed simp_all

theorem mfs_new_nodes_refused_witness:
  "mfs_mkdir (\<lambda>_. demo_disk) 0x1000 zero_attrib (str_name [103]) demo_mfs = Some (INVALID, zero_attrib, demo_mfs) \<and>
   mfs_mknode (\<lambda>_. demo_disk) 0x1000 zero_attrib (str_name [103]) demo_mfs = Some (INVALID, zero_attrib, demo_mfs)"
  by (rule mfs_new_nodes_refused [OF demo_mfs_ok demo_finds(2)])

end
