(* ===== verification/Avl.thy ===== *)
theory Avl
  imports Prelude
begin

text \<open>
  The balanced trees of \<^verbatim>\<open>lib/avl.c\<close> and \<^verbatim>\<open>include/avl.h\<close>: search, insertion and deletion over a store of
  nodes. The code uses the address of the table as a node whose \<^verbatim>\<open>avl_link[0]\<close> is \<^verbatim>\<open>avl_root\<close>, the first
  member of the table; here the table is the node at its address, and the two counters are fields of the
  record. An index of \<^verbatim>\<open>avl_link\<close> is a truth value, as in \<^verbatim>\<open>dir = cmp > 0\<close>. The comparison function and
  its extra argument are the parameter \<^verbatim>\<open>cmp\<close>. A pointer to the data of a node is the node's address.
  The arrays \<^verbatim>\<open>da\<close> and \<^verbatim>\<open>pa\<close> have \<^verbatim>\<open>AVL_MAX_HEIGHT\<close> elements, and an index behind their end is
  \<^const>\<open>None\<close>, as is a walk along links that does not end.
\<close>

section \<open>Data\<close>

definition AVL_MAX_HEIGHT :: nat where
  [simp]: "AVL_MAX_HEIGHT = 32"

record avl_node =
  avl_link :: "bool \<Rightarrow> addr"
  avl_data :: addr
  avl_balance :: u8

type_synonym avl_heap = "addr \<Rightarrow> avl_node"

record avl_table =
  avl_nodes :: avl_heap
  avl_count :: u32
  avl_generation :: u32

type_synonym avl_comparison_func = "addr \<Rightarrow> addr \<Rightarrow> cint"

definition avl_root :: "addr \<Rightarrow> avl_table \<Rightarrow> addr" where
  "avl_root tree s = avl_link (avl_nodes s tree) False"

definition set_link :: "addr \<Rightarrow> bool \<Rightarrow> addr \<Rightarrow> avl_heap \<Rightarrow> avl_heap" where
  "set_link a d p h = h(a := (h a)\<lparr>avl_link := (avl_link (h a))(d := p)\<rparr>)"

definition set_balance :: "addr \<Rightarrow> u8 \<Rightarrow> avl_heap \<Rightarrow> avl_heap" where
  "set_balance a b h = h(a := (h a)\<lparr>avl_balance := b\<rparr>)"

definition set_data :: "addr \<Rightarrow> addr \<Rightarrow> avl_heap \<Rightarrow> avl_heap" where
  "set_data a v h = h(a := (h a)\<lparr>avl_data := v\<rparr>)"

section \<open>Search\<close>

partial_function (option) find_loop :: "avl_comparison_func \<Rightarrow> addr \<Rightarrow> addr \<Rightarrow> avl_heap \<Rightarrow> addr option" where
  "find_loop cmp item p h =
     (if p \<noteq> NULL
      then let c = cmp item (avl_data (h p))
           in if c <s 0 then find_loop cmp item (avl_link (h p) False) h
              else if 0 <s c then find_loop cmp item (avl_link (h p) True) h
              else Some p
      else Some NULL)"

definition avl_find :: "avl_comparison_func \<Rightarrow> addr \<Rightarrow> addr \<Rightarrow> avl_table \<Rightarrow> addr option" where
  "avl_find cmp tree item s = find_loop cmp item (avl_root tree s) (avl_nodes s)"

section \<open>Insertion\<close>

text \<open>
  The descent of \<^verbatim>\<open>avl_probe\<close>: the duplicate if there is one, and otherwise \<^verbatim>\<open>z\<close>, \<^verbatim>\<open>y\<close>, \<^verbatim>\<open>q\<close>, \<^verbatim>\<open>dir\<close> and
  \<^verbatim>\<open>da\<close> where the loop ends.
\<close>

partial_function (option) probe_loop ::
    "avl_comparison_func \<Rightarrow> addr \<Rightarrow> avl_heap \<Rightarrow> addr \<Rightarrow> addr \<Rightarrow> addr \<Rightarrow> addr \<Rightarrow> bool \<Rightarrow> (nat \<Rightarrow> bool) \<Rightarrow> nat \<Rightarrow>
     (addr + addr \<times> addr \<times> addr \<times> bool \<times> (nat \<Rightarrow> bool)) option" where
  "probe_loop cmp x h z y q p dir da k =
     (if p \<noteq> NULL
      then let c = cmp x (avl_data (h p))
           in if c = 0 then Some (Inl p)
              else let (z, y, k) = (if avl_balance (h p) \<noteq> 0 then (q, p, 0) else (z, y, k));
                       dir = 0 <s c
                   in if k < AVL_MAX_HEIGHT
                      then probe_loop cmp x h z y p (avl_link (h p) dir) dir (da(k := dir)) (k + 1)
                      else None
      else Some (Inr (z, y, q, dir, da)))"

partial_function (option) balance_loop :: "addr \<Rightarrow> (nat \<Rightarrow> bool) \<Rightarrow> addr \<Rightarrow> nat \<Rightarrow> avl_heap \<Rightarrow> avl_heap option" where
  "balance_loop n da p k h =
     (if p \<noteq> n
      then if k < AVL_MAX_HEIGHT
           then let h1 = set_balance p (if da k then avl_balance (h p) + 1 else avl_balance (h p) - 1) h
                in balance_loop n da (avl_link (h1 p) (da k)) (k + 1) h1
           else None
      else Some h)"

text \<open>
  The double rotations, which insertion and deletion share: \<^verbatim>\<open>x\<close> is the left (right) child of \<^verbatim>\<open>y\<close>, the
  result is the new root \<^verbatim>\<open>w\<close> of the subtree.
\<close>

definition double_left :: "addr \<Rightarrow> addr \<Rightarrow> avl_heap \<Rightarrow> addr \<times> avl_heap" where
  "double_left x y h =
     (let w = avl_link (h x) True;
          h = set_link x True (avl_link (h w) False) h;
          h = set_link w False x h;
          h = set_link y False (avl_link (h w) True) h;
          h = set_link w True y h;
          h = (if avl_balance (h w) = - 1 then set_balance y 1 (set_balance x 0 h)
               else if avl_balance (h w) = 0 then set_balance x 0 (set_balance y 0 h)
               else set_balance y 0 (set_balance x (- 1) h))
      in (w, set_balance w 0 h))"

definition double_right :: "addr \<Rightarrow> addr \<Rightarrow> avl_heap \<Rightarrow> addr \<times> avl_heap" where
  "double_right x y h =
     (let w = avl_link (h x) False;
          h = set_link x False (avl_link (h w) True) h;
          h = set_link w True x h;
          h = set_link y True (avl_link (h w) False) h;
          h = set_link w False y h;
          h = (if avl_balance (h w) = 1 then set_balance y (- 1) (set_balance x 0 h)
               else if avl_balance (h w) = 0 then set_balance x 0 (set_balance y 0 h)
               else set_balance y 0 (set_balance x 1 h))
      in (w, set_balance w 0 h))"

definition rotate_left :: "addr \<Rightarrow> avl_heap \<Rightarrow> addr \<times> avl_heap" where
  "rotate_left y h =
     (let x = avl_link (h y) False
      in if avl_balance (h x) = - 1
         then let h = set_link y False (avl_link (h x) True) h;
                  h = set_link x True y h
              in (x, set_balance x 0 (set_balance y 0 h))
         else double_left x y h)"

definition rotate_right :: "addr \<Rightarrow> avl_heap \<Rightarrow> addr \<times> avl_heap" where
  "rotate_right y h =
     (let x = avl_link (h y) True
      in if avl_balance (h x) = 1
         then let h = set_link y True (avl_link (h x) False) h;
                  h = set_link x False y h
              in (x, set_balance x 0 (set_balance y 0 h))
         else double_right x y h)"

text \<open>What \<^verbatim>\<open>avl_probe\<close> does once \<^verbatim>\<open>y\<close> is unbalanced by the new node: rotate below \<^verbatim>\<open>z\<close>.\<close>

definition probe_rotate :: "addr \<Rightarrow> addr \<Rightarrow> avl_table \<Rightarrow> avl_table" where
  "probe_rotate z y s =
     (let h = avl_nodes s
      in if avl_balance (h y) = - 2 \<or> avl_balance (h y) = 2
         then let (w, h) = (if avl_balance (h y) = - 2 then rotate_left y h else rotate_right y h)
              in s\<lparr>avl_nodes := set_link z (y \<noteq> avl_link (h z) False) w h, avl_generation := avl_generation s + 1\<rparr>
         else s)"

definition probe_insert ::
    "addr \<Rightarrow> addr \<times> addr \<times> addr \<times> bool \<times> (nat \<Rightarrow> bool) \<Rightarrow> avl_table \<Rightarrow> (addr \<times> avl_table) option" where
  "probe_insert item st s =
     (let (z, y, q, dir, da) = st;
          s1 = s\<lparr>avl_nodes := set_link q dir item (avl_nodes s)\<rparr>
      in if item = NULL then Some (NULL, s1)
         else
           let h = set_link item False NULL (set_link item True NULL (avl_nodes s1));
               s2 = s1\<lparr>avl_count := avl_count s1 + 1, avl_nodes := set_balance item 0 h\<rparr>
           in if y = NULL then Some (item, s2)
              else case balance_loop item da y 0 (avl_nodes s2) of
                     None \<Rightarrow> None
                   | Some h \<Rightarrow> Some (item, probe_rotate z y (s2\<lparr>avl_nodes := h\<rparr>)))"

definition avl_probe :: "avl_comparison_func \<Rightarrow> addr \<Rightarrow> addr \<Rightarrow> avl_table \<Rightarrow> (addr \<times> avl_table) option" where
  "avl_probe cmp tree item s =
     (let h = avl_nodes s; y = avl_root tree s
      in case probe_loop cmp (avl_data (h item)) h tree y tree y False (\<lambda>_. False) 0 of
           None \<Rightarrow> None
         | Some (Inl p) \<Rightarrow> Some (p, s)
         | Some (Inr st) \<Rightarrow> probe_insert item st s)"

definition avl_insert :: "avl_comparison_func \<Rightarrow> addr \<Rightarrow> addr \<Rightarrow> avl_table \<Rightarrow> (addr \<times> avl_table) option" where
  "avl_insert cmp tree item s =
     (case avl_probe cmp tree item s of
        None \<Rightarrow> None
      | Some (p, s') \<Rightarrow>
          Some (if p = NULL \<or> avl_data (avl_nodes s' p) = item then NULL else avl_data (avl_nodes s' p), s'))"

definition avl_replace :: "avl_comparison_func \<Rightarrow> addr \<Rightarrow> addr \<Rightarrow> avl_table \<Rightarrow> (addr \<times> avl_table) option" where
  "avl_replace cmp tree item s =
     (case avl_probe cmp tree item s of
        None \<Rightarrow> None
      | Some (p, s') \<Rightarrow>
          Some (if p = NULL \<or> avl_data (avl_nodes s' p) = item then (NULL, s')
                else (avl_data (avl_nodes s' p), s'\<lparr>avl_nodes := set_data p item (avl_nodes s')\<rparr>)))"

section \<open>Deletion\<close>

text \<open>The search of \<^verbatim>\<open>avl_delete\<close>, which records the path in \<^verbatim>\<open>pa\<close> and \<^verbatim>\<open>da\<close>; the inner \<^const>\<open>None\<close> is no match.\<close>

partial_function (option) delete_find ::
    "avl_comparison_func \<Rightarrow> addr \<Rightarrow> avl_heap \<Rightarrow> addr \<Rightarrow> cint \<Rightarrow> (nat \<Rightarrow> addr) \<Rightarrow> (nat \<Rightarrow> bool) \<Rightarrow> nat \<Rightarrow>
     (addr \<times> (nat \<Rightarrow> addr) \<times> (nat \<Rightarrow> bool) \<times> nat) option option" where
  "delete_find cmp item h p c pa da k =
     (if c \<noteq> 0
      then if k < AVL_MAX_HEIGHT
           then let dir = 0 <s c; p' = avl_link (h p) dir
                in if p' = NULL then Some None
                   else delete_find cmp item h p' (cmp item (avl_data (h p'))) (pa(k := p)) (da(k := dir)) (k + 1)
           else None
      else Some (Some (p, pa, da, k)))"

text \<open>The walk to the successor: the last two nodes \<^verbatim>\<open>r\<close> and \<^verbatim>\<open>s\<close> and the stack.\<close>

partial_function (option) successor_loop ::
    "avl_heap \<Rightarrow> addr \<Rightarrow> (nat \<Rightarrow> addr) \<Rightarrow> (nat \<Rightarrow> bool) \<Rightarrow> nat \<Rightarrow>
     (addr \<times> addr \<times> (nat \<Rightarrow> addr) \<times> (nat \<Rightarrow> bool) \<times> nat) option" where
  "successor_loop h r pa da k =
     (if k < AVL_MAX_HEIGHT
      then let s = avl_link (h r) False
           in if avl_link (h s) False = NULL then Some (r, s, pa(k := r), da(k := False), k + 1)
              else successor_loop h s (pa(k := r)) (da(k := False)) (k + 1)
      else None)"

text \<open>Taking the node \<^verbatim>\<open>p\<close> out of the tree.\<close>

definition delete_unlink ::
    "addr \<Rightarrow> (nat \<Rightarrow> addr) \<Rightarrow> (nat \<Rightarrow> bool) \<Rightarrow> nat \<Rightarrow> avl_heap \<Rightarrow>
     (avl_heap \<times> (nat \<Rightarrow> addr) \<times> (nat \<Rightarrow> bool) \<times> nat) option" where
  "delete_unlink p pa da k h =
     (if avl_link (h p) True = NULL
      then Some (set_link (pa (k - 1)) (da (k - 1)) (avl_link (h p) False) h, pa, da, k)
      else
        let r = avl_link (h p) True
        in if avl_link (h r) False = NULL
           then if k < AVL_MAX_HEIGHT
                then let h = set_link r False (avl_link (h p) False) h;
                         h = set_balance r (avl_balance (h p)) h;
                         h = set_link (pa (k - 1)) (da (k - 1)) r h
                     in Some (h, pa(k := r), da(k := True), k + 1)
                else None
           else case successor_loop h r pa da (k + 1) of
                  None \<Rightarrow> None
                | Some (r, s, pa, da, k') \<Rightarrow>
                    let h = set_link s False (avl_link (h p) False) h;
                        h = set_link r False (avl_link (h s) True) h;
                        h = set_link s True (avl_link (h p) True) h;
                        h = set_balance s (avl_balance (h p)) h;
                        h = set_link (pa (k - 1)) (da (k - 1)) s h
                    in Some (h, pa(k := s), da(k := True), k'))"

text \<open>
  One round of the rebalancing loop at \<^verbatim>\<open>y\<close> whose left (right) subtree has become lower, with the link to
  \<^verbatim>\<open>y\<close> in the node above; the truth value says that the loop is left by \<^verbatim>\<open>break\<close>.
\<close>

definition shrunk_left :: "addr \<Rightarrow> addr \<Rightarrow> bool \<Rightarrow> avl_heap \<Rightarrow> avl_heap \<times> bool" where
  "shrunk_left y up d h =
     (let h = set_balance y (avl_balance (h y) + 1) h
      in if avl_balance (h y) = 1 then (h, True)
         else if avl_balance (h y) = 2
         then let x = avl_link (h y) True
              in if avl_balance (h x) = - 1
                 then let (w, h) = double_right x y h in (set_link up d w h, False)
                 else let h = set_link y True (avl_link (h x) False) h;
                          h = set_link x False y h;
                          h = set_link up d x h
                      in if avl_balance (h x) = 0
                         then (set_balance y 1 (set_balance x (- 1) h), True)
                         else (set_balance x 0 (set_balance y 0 h), False)
         else (h, False))"

definition shrunk_right :: "addr \<Rightarrow> addr \<Rightarrow> bool \<Rightarrow> avl_heap \<Rightarrow> avl_heap \<times> bool" where
  "shrunk_right y up d h =
     (let h = set_balance y (avl_balance (h y) - 1) h
      in if avl_balance (h y) = - 1 then (h, True)
         else if avl_balance (h y) = - 2
         then let x = avl_link (h y) False
              in if avl_balance (h x) = 1
                 then let (w, h) = double_left x y h in (set_link up d w h, False)
                 else let h = set_link y False (avl_link (h x) True) h;
                          h = set_link x True y h;
                          h = set_link up d x h
                      in if avl_balance (h x) = 0
                         then (set_balance y (- 1) (set_balance x 1 h), True)
                         else (set_balance x 0 (set_balance y 0 h), False)
         else (h, False))"

fun delete_balance :: "(nat \<Rightarrow> addr) \<Rightarrow> (nat \<Rightarrow> bool) \<Rightarrow> nat \<Rightarrow> avl_heap \<Rightarrow> avl_heap" where
  "delete_balance pa da 0 h = h"
| "delete_balance pa da (Suc k) h =
     (if k > 0
      then let (h, stop) = (if da k then shrunk_right (pa k) (pa (k - 1)) (da (k - 1)) h
                            else shrunk_left (pa k) (pa (k - 1)) (da (k - 1)) h)
           in if stop then h else delete_balance pa da k h
      else h)"

definition avl_delete :: "avl_comparison_func \<Rightarrow> addr \<Rightarrow> addr \<Rightarrow> avl_table \<Rightarrow> (addr \<times> avl_table) option" where
  "avl_delete cmp tree item s =
     (case delete_find cmp item (avl_nodes s) tree (- 1) (\<lambda>_. 0) (\<lambda>_. False) 0 of
        None \<Rightarrow> None
      | Some None \<Rightarrow> Some (NULL, s)
      | Some (Some (p, pa, da, k)) \<Rightarrow>
          (case delete_unlink p pa da k (avl_nodes s) of
             None \<Rightarrow> None
           | Some (h, pa, da, k) \<Rightarrow>
               Some (p, s\<lparr>avl_nodes := delete_balance pa da k h, avl_count := avl_count s - 1,
                          avl_generation := avl_generation s + 1\<rparr>)))"

end
