(* ===== verification/AvlTree.thy ===== *)
theory AvlTree
  imports Avl "HOL-Library.Tree"
begin

text \<open>
  Correctness of the insertion of \<^verbatim>\<open>lib/avl.c\<close>. A tree of node addresses with their balance factors
  describes a part of the store; the reference insertion on such trees changes the subtree below the last
  unbalanced node of the search path, as the code does, and is proved to keep order and balance. The
  code's loops are then shown to refine it.
\<close>

section \<open>Trees in the store\<close>

type_synonym shape = "(addr \<times> int) tree"

fun rep :: "avl_heap \<Rightarrow> shape \<Rightarrow> addr \<Rightarrow> bool" where
  "rep h Leaf p \<longleftrightarrow> p = 0"
| "rep h (Node l (a, b) r) p \<longleftrightarrow> p = a \<and> a \<noteq> 0 \<and> avl_balance (h a) = word_of_int b \<and>
     rep h l (avl_link (h a) False) \<and> rep h r (avl_link (h a) True)"

fun addrs :: "shape \<Rightarrow> addr list" where
  "addrs Leaf = []"
| "addrs (Node l (a, b) r) = addrs l @ a # addrs r"

fun avl :: "shape \<Rightarrow> bool" where
  "avl Leaf = True"
| "avl (Node l (a, b) r) \<longleftrightarrow> b = int (height r) - int (height l) \<and> - 1 \<le> b \<and> b \<le> 1 \<and> avl l \<and> avl r"

lemma length_addrs: "length (addrs t) = size t"
  by (induction t rule: addrs.induct) auto

lemma rep_frame: "\<forall>a \<in> set (addrs t). h' a = h a \<Longrightarrow> rep h' t p \<longleftrightarrow> rep h t p"
  by (induction t arbitrary: p rule: addrs.induct) auto

lemma rep_upd [simp]: "a \<notin> set (addrs t) \<Longrightarrow> rep (h(a := v)) t p \<longleftrightarrow> rep h t p"
  by (rule rep_frame) auto

lemma rep_root: "rep h t p \<Longrightarrow> (p = 0 \<longleftrightarrow> t = Leaf) \<and> (p \<noteq> 0 \<longrightarrow> p \<in> set (addrs t))"
  by (cases t rule: addrs.cases) auto

lemma rep_nonzero: "rep h t p \<Longrightarrow> 0 \<notin> set (addrs t)"
  by (induction t arbitrary: p rule: addrs.induct) auto

lemma small_balance:
  assumes "- 2 \<le> b" and "b \<le> 2"
  shows "(word_of_int b :: u8) = 0 \<longleftrightarrow> b = 0" "(word_of_int b :: u8) = 1 \<longleftrightarrow> b = 1"
    "(word_of_int b :: u8) = - 1 \<longleftrightarrow> b = - 1" "(word_of_int b :: u8) = 2 \<longleftrightarrow> b = 2"
    "(word_of_int b :: u8) = - 2 \<longleftrightarrow> b = - 2"
proof -
  have "b = - 2 \<or> b = - 1 \<or> b = 0 \<or> b = 1 \<or> b = 2" using assms by linarith
  then show "(word_of_int b :: u8) = 0 \<longleftrightarrow> b = 0" "(word_of_int b :: u8) = 1 \<longleftrightarrow> b = 1"
    "(word_of_int b :: u8) = - 1 \<longleftrightarrow> b = - 1" "(word_of_int b :: u8) = 2 \<longleftrightarrow> b = 2"
    "(word_of_int b :: u8) = - 2 \<longleftrightarrow> b = - 2" by auto
qed

text \<open>A balanced tree whose height exceeds the size of the arrays has at least 9227464 nodes.\<close>

fun least_size :: "nat \<Rightarrow> nat" where
  "least_size 0 = 0"
| "least_size (Suc 0) = 1"
| "least_size (Suc (Suc n)) = least_size (Suc n) + least_size n + 1"

lemma least_size_Suc: "least_size n \<le> least_size (Suc n)"
  by (cases n) auto

lemma least_size_mono: "m \<le> n \<Longrightarrow> least_size m \<le> least_size n"
  using lift_Suc_mono_le [where f = least_size] least_size_Suc by blast

lemma least_size_step:
  assumes "l = r \<or> l = Suc r \<or> r = Suc l"
  shows "least_size (Suc (max l r)) \<le> least_size l + least_size r + 1"
proof (cases "l = r")
  case True
  then show ?thesis using least_size_Suc [of "r - 1"] by (cases r) auto
next
  case False
  then show ?thesis using assms by auto
qed

lemma avl_size: "avl t \<Longrightarrow> least_size (height t) \<le> size t"
proof (induction t rule: avl.induct)
  case (2 l a b r)
  then have "height l = height r \<or> height l = Suc (height r) \<or> height r = Suc (height l)" by auto
  from least_size_step [OF this] 2 show ?case by simp
qed simp

fun least_iter :: "nat \<Rightarrow> int \<Rightarrow> int \<Rightarrow> int" where
  "least_iter 0 x y = y"
| "least_iter (Suc n) x y = least_iter n (x + y + 1) x"

lemma least_iter_numeral [simp]: "least_iter (numeral k) x y = least_iter (pred_numeral k) (x + y + 1) x"
  by (simp add: numeral_eq_Suc)

lemma least_iter: "least_iter n (int (least_size (Suc m))) (int (least_size m)) = int (least_size (m + n))"
proof (induction n arbitrary: m)
  case (Suc n)
  then show ?case using Suc [of "Suc m"] by (simp add: ac_simps)
qed simp

lemma least_size_33: "least_size 33 = 9227464"
  using least_iter [of 33 0] by simp

lemma least_size_32: "least_size 32 = 5702886"
  using least_iter [of 32 0] by simp

lemma avl_height31: "avl t \<Longrightarrow> size t < 5702886 \<Longrightarrow> height t \<le> 31"
  using avl_size [of t] least_size_mono [of 32 "height t"] least_size_32 by linarith

lemma avl_height: "avl t \<Longrightarrow> size t < 9227464 \<Longrightarrow> height t \<le> 32"
  using avl_size [of t] least_size_mono [of 33 "height t"] least_size_33 by linarith

section \<open>The reference insertion\<close>

text \<open>\<^verbatim>\<open>gr a\<close> says that the search goes to the right at the node \<^verbatim>\<open>a\<close>; \<^verbatim>\<open>n\<close> is the new node.\<close>

fun steady :: "(addr \<Rightarrow> bool) \<Rightarrow> shape \<Rightarrow> bool" where
  "steady gr Leaf = True"
| "steady gr (Node l (a, b) r) \<longleftrightarrow> b = 0 \<and> (if gr a then steady gr r else steady gr l)"

fun put :: "(addr \<Rightarrow> bool) \<Rightarrow> addr \<Rightarrow> shape \<Rightarrow> shape" where
  "put gr n Leaf = Node Leaf (n, 0) Leaf"
| "put gr n (Node l (a, b) r) = (if gr a then Node l (a, b) (put gr n r) else Node (put gr n l) (a, b) r)"

fun grow :: "(addr \<Rightarrow> bool) \<Rightarrow> addr \<Rightarrow> shape \<Rightarrow> shape" where
  "grow gr n Leaf = Node Leaf (n, 0) Leaf"
| "grow gr n (Node l (a, b) r) =
     (if gr a then Node l (a, b + 1) (grow gr n r) else Node (grow gr n l) (a, b - 1) r)"

definition rot2 :: "shape \<Rightarrow> addr \<Rightarrow> shape \<Rightarrow> addr \<Rightarrow> shape \<Rightarrow> shape" where
  "rot2 A x B y C = (case B of
     Node B1 (w, c) B2 \<Rightarrow> Node (Node A (x, if c = 1 then - 1 else 0) B1) (w, 0) (Node B2 (y, if c = - 1 then 1 else 0) C)
   | Leaf \<Rightarrow> Leaf)"

fun rot :: "shape \<Rightarrow> shape" where
  "rot Leaf = Leaf"
| "rot (Node l (y, b) r) =
     (if b = - 2 then (case l of
          Node A (x, c) B \<Rightarrow> if c = - 1 then Node A (x, 0) (Node B (y, 0) r) else rot2 A x B y r
        | Leaf \<Rightarrow> Leaf)
      else if b = 2 then (case r of
          Node B (x, c) C \<Rightarrow> if c = 1 then Node (Node l (y, 0) B) (x, 0) C else rot2 l y B x C
        | Leaf \<Rightarrow> Leaf)
      else Node l (y, b) r)"

fun ins :: "(addr \<Rightarrow> bool) \<Rightarrow> addr \<Rightarrow> shape \<Rightarrow> shape" where
  "ins gr n Leaf = Node Leaf (n, 0) Leaf"
| "ins gr n (Node l (a, b) r) =
     (if steady gr (if gr a then r else l) then rot (grow gr n (Node l (a, b) r))
      else if gr a then Node l (a, b) (ins gr n r) else Node (ins gr n l) (a, b) r)"

lemma grow_avl:
  "steady gr t \<Longrightarrow> avl t \<Longrightarrow> avl (grow gr n t) \<and> height (grow gr n t) = Suc (height t)"
  by (induction gr t rule: steady.induct) (auto split: if_splits)

lemma addrs_grow [simp]: "addrs (grow gr n t) = addrs (put gr n t)"
  by (induction gr n t rule: grow.induct) auto

lemma grow_root: "steady gr (Node l (a, b) r) \<Longrightarrow>
  \<exists>l' b' r'. grow gr n (Node l (a, b) r) = Node l' (a, b') r' \<and> b' \<noteq> 0"
  by auto

lemma rot2_avl:
  assumes "avl A" "avl B" "avl C" "height A = height C" "height B = Suc (height C)"
  shows "avl (rot2 A x B y C) \<and> height (rot2 A x B y C) = height C + 2 \<and>
    addrs (rot2 A x B y C) = addrs A @ x # addrs B @ y # addrs C"
  using assms by (cases B rule: addrs.cases) (auto simp: rot2_def)

lemma rot_avl_left:
  assumes "avl l" "avl r" "height l = height r + 2" and "l = Node A (x, c) B" "c \<noteq> 0"
  shows "avl (rot (Node l (y, - 2) r)) \<and> height (rot (Node l (y, - 2) r)) = height l \<and>
    addrs (rot (Node l (y, - 2) r)) = addrs l @ y # addrs r"
  using assms rot2_avl [of A B r x y] by auto

lemma rot_avl_right:
  assumes "avl l" "avl r" "height r = height l + 2" and "r = Node B (x, c) C" "c \<noteq> 0"
  shows "avl (rot (Node l (y, 2) r)) \<and> height (rot (Node l (y, 2) r)) = height r \<and>
    addrs (rot (Node l (y, 2) r)) = addrs l @ y # addrs r"
  using assms rot2_avl [of l B C y x] by auto

lemma rot_avl:
  assumes "steady gr (if gr a then r else l)" and "avl (Node l (a, b) r)"
  shows "avl (rot (grow gr n (Node l (a, b) r))) \<and>
    height (rot (grow gr n (Node l (a, b) r))) = height (Node l (a, b) r) + (if b = 0 then 1 else 0) \<and>
    addrs (rot (grow gr n (Node l (a, b) r))) = addrs (put gr n (Node l (a, b) r))"
proof (cases "gr a")
  case True
  note g = grow_avl [of gr r n]
  show ?thesis
  proof (cases "b = 1")
    case b: True
    then obtain l2 a2 b2 r2 where r: "r = Node l2 (a2, b2) r2"
      using assms by (cases r rule: addrs.cases) auto
    with True assms obtain B c C where "grow gr n r = Node B (a2, c) C" "c \<noteq> 0"
      using grow_root [of gr l2 a2 b2 r2 n] by auto
    from rot_avl_right [OF _ _ _ this] True assms g b show ?thesis by auto
  qed (use True assms g in auto)
next
  case False
  note g = grow_avl [of gr l n]
  show ?thesis
  proof (cases "b = - 1")
    case b: True
    then obtain l2 a2 b2 r2 where l: "l = Node l2 (a2, b2) r2"
      using assms by (cases l rule: addrs.cases) auto
    with False assms obtain A c B where "grow gr n l = Node A (a2, c) B" "c \<noteq> 0"
      using grow_root [of gr l2 a2 b2 r2 n] by auto
    from rot_avl_left [OF _ _ _ this] False assms g b show ?thesis by auto
  qed (use False assms g in auto)
qed

lemma ins_avl: "avl t \<Longrightarrow> avl (ins gr n t) \<and> height (ins gr n t) = height t + (if steady gr t then 1 else 0) \<and>
  addrs (ins gr n t) = addrs (put gr n t)"
proof (induction gr n t rule: ins.induct)
  case (2 gr n l a b r)
  show ?case
  proof (cases "steady gr (if gr a then r else l)")
    case True
    then show ?thesis using rot_avl [OF True 2(3)] by auto
  qed (use 2 in auto)
qed simp

section \<open>Order\<close>

text \<open>What the code relies on of \<^verbatim>\<open>avl_compare\<close>: its sign is that of a comparison of keys.\<close>

definition orders :: "avl_comparison_func \<Rightarrow> (addr \<Rightarrow> 'k :: linorder) \<Rightarrow> bool" where
  "orders cmp key \<longleftrightarrow> (\<forall>a b. (cmp a b <s 0 \<longleftrightarrow> key a < key b) \<and> (0 <s cmp a b \<longleftrightarrow> key b < key a))"

definition node_key :: "(addr \<Rightarrow> 'k) \<Rightarrow> avl_heap \<Rightarrow> addr \<Rightarrow> 'k" where
  "node_key key h a = key (avl_data (h a))"

definition ordered :: "(addr \<Rightarrow> 'k :: linorder) \<Rightarrow> avl_heap \<Rightarrow> shape \<Rightarrow> bool" where
  "ordered key h t \<longleftrightarrow> sorted_wrt (<) (map (node_key key h) (addrs t))"

lemma ordered_simps [simp]:
  "ordered key h Leaf"
  "ordered key h (Node l (a, b) r) \<longleftrightarrow> ordered key h l \<and> ordered key h r \<and>
     (\<forall>c \<in> set (addrs l). node_key key h c < node_key key h a) \<and>
     (\<forall>c \<in> set (addrs r). node_key key h a < node_key key h c)"
  by (auto simp: ordered_def sorted_wrt_append intro: less_trans)

lemma orders_zero: "orders cmp key \<Longrightarrow> cmp a b = 0 \<longleftrightarrow> key a = key b"
  unfolding orders_def by (metis less_irrefl neq_iff signed.less_irrefl signed.neq_iff)

lemma orders_less: "orders cmp key \<Longrightarrow> cmp a b <s 0 \<longleftrightarrow> key a < key b"
  and orders_greater: "orders cmp key \<Longrightarrow> 0 <s cmp a b \<longleftrightarrow> key b < key a"
  by (simp_all add: orders_def)

lemma set_put [simp]: "set (addrs (put gr n t)) = insert n (set (addrs t))"
  by (induction gr n t rule: put.induct) auto

lemma distinct_put: "distinct (addrs t) \<Longrightarrow> n \<notin> set (addrs t) \<Longrightarrow> distinct (addrs (put gr n t))"
  by (induction gr n t rule: put.induct) auto

lemma size_put [simp]: "size (put gr n t) = Suc (size t)"
  by (induction gr n t rule: put.induct) auto

lemma ordered_put:
  assumes "ordered key h t" and "\<forall>a \<in> set (addrs t). node_key key h a \<noteq> node_key key h n"
  shows "ordered key h (put (\<lambda>a. node_key key h a < node_key key h n) n t)"
  using assms by (induction t rule: addrs.induct) auto

lemma find_loop_finds:
  assumes "orders cmp key" and "rep h t p" and "ordered key h t" and "c \<in> set (addrs t)" and "node_key key h c = key x"
  shows "find_loop cmp x p h = Some c"
  using assms(2-5)
  by (induction t arbitrary: p rule: addrs.induct; subst find_loop.simps)
    (auto simp: Let_def node_key_def orders_less [OF assms(1)] orders_greater [OF assms(1)] dest: less_trans)

lemma find_loop_misses:
  assumes "orders cmp key" and "rep h t p" and "\<forall>c \<in> set (addrs t). node_key key h c \<noteq> key x"
  shows "find_loop cmp x p h = Some NULL"
  using assms(2-3)
  by (induction t arbitrary: p rule: addrs.induct; subst find_loop.simps)
    (auto simp: Let_def node_key_def orders_less [OF assms(1)] orders_greater [OF assms(1)])

section \<open>The descent\<close>

fun desc :: "(addr \<Rightarrow> bool) \<Rightarrow> shape \<Rightarrow> addr \<Rightarrow> addr \<Rightarrow> addr \<Rightarrow> bool \<Rightarrow> (nat \<Rightarrow> bool) \<Rightarrow> nat \<Rightarrow>
    addr \<times> addr \<times> addr \<times> bool \<times> (nat \<Rightarrow> bool)" where
  "desc gr Leaf z y q d da k = (z, y, q, d, da)"
| "desc gr (Node l (a, b) r) z y q d da k =
     (let (z, y, k) = (if b \<noteq> 0 then (q, a, 0) else (z, y, k))
      in desc gr (if gr a then r else l) z y a (gr a) (da(k := gr a)) (k + 1))"

lemma probe_loop_finds:
  assumes "orders cmp key" and "rep h t p" and "ordered key h t" and "k + height t \<le> 32"
    and "c \<in> set (addrs t)" and "node_key key h c = key x"
  shows "probe_loop cmp x h z y q p d da k = Some (Inl c)"
  using assms(2-6)
proof (induction t arbitrary: z y q p d da k rule: addrs.induct)
  case (2 l a b r)
  then consider "c = a" | "c \<in> set (addrs l)" "key x < node_key key h a" "\<not> node_key key h a < key x" | "c \<in> set (addrs r)" "node_key key h a < key x"
    by auto
  then show ?case using 2
    by cases (auto simp: probe_loop.simps [of cmp x h z y q a d da k] Let_def node_key_def
        orders_zero [OF assms(1)] orders_greater [OF assms(1)])
qed simp

lemma probe_loop_desc:
  assumes "rep h t p" and "avl t" and "k + height t \<le> 32" and "\<forall>a \<in> set (addrs t). cmp x (avl_data (h a)) \<noteq> 0"
  shows "probe_loop cmp x h z y q p d da k = Some (Inr (desc (\<lambda>a. 0 <s cmp x (avl_data (h a))) t z y q d da k))"
  using assms
proof (induction t arbitrary: z y q p d da k rule: addrs.induct)
  case (2 l a b r)
  then have "word_of_int b = (0 :: u8) \<longleftrightarrow> b = 0" using small_balance [of b] by simp
  with 2 show ?case by (subst probe_loop.simps) (auto simp: Let_def)
qed (simp add: probe_loop.simps)

text \<open>Where the descent ends, and the directions it takes.\<close>

fun last_link :: "(addr \<Rightarrow> bool) \<Rightarrow> shape \<Rightarrow> addr \<Rightarrow> bool \<Rightarrow> addr \<times> bool" where
  "last_link gr Leaf q d = (q, d)"
| "last_link gr (Node l (a, b) r) q d = last_link gr (if gr a then r else l) a (gr a)"

fun path :: "(addr \<Rightarrow> bool) \<Rightarrow> shape \<Rightarrow> bool list" where
  "path gr Leaf = []"
| "path gr (Node l (a, b) r) = gr a # path gr (if gr a then r else l)"

lemma desc_steady:
  assumes "steady gr t"
  shows "\<exists>da'. desc gr t z y q d da k = (z, y, fst (last_link gr t q d), snd (last_link gr t q d), da') \<and>
    (\<forall>i < k. da' i = da i) \<and> (\<forall>i < length (path gr t). da' (k + i) = path gr t ! i)"
  using assms
proof (induction gr t arbitrary: q d da k rule: steady.induct)
  case (2 gr l a b r)
  let ?c = "if gr a then r else l"
  have "\<exists>da'. desc gr ?c z y a (gr a) (da(k := gr a)) (Suc k) =
      (z, y, fst (last_link gr ?c a (gr a)), snd (last_link gr ?c a (gr a)), da') \<and>
      (\<forall>i < Suc k. da' i = (da(k := gr a)) i) \<and> (\<forall>i < length (path gr ?c). da' (Suc k + i) = path gr ?c ! i)"
    using 2(1) [where q = a and d = "gr a" and da = "da(k := gr a)" and k = "Suc k"]
      2(2) [where q = a and d = "gr a" and da = "da(k := gr a)" and k = "Suc k"] 2(3)
    by (cases "gr a") (simp_all del: fun_upd_apply)
  then obtain da' where d: "desc gr ?c z y a (gr a) (da(k := gr a)) (Suc k) =
      (z, y, fst (last_link gr ?c a (gr a)), snd (last_link gr ?c a (gr a)), da')"
    "\<forall>i < Suc k. da' i = (da(k := gr a)) i" "\<forall>i < length (path gr ?c). da' (Suc k + i) = path gr ?c ! i" by blast
  have "da' (k + i) = (gr a # path gr ?c) ! i" if "i < Suc (length (path gr ?c))" for i
    using that d(2,3) by (cases i) auto
  with d 2(3) show ?case by (intro exI [of _ da']) auto
qed simp

lemma length_path: "length (path gr t) \<le> height t"
  by (induction gr t rule: path.induct) auto

section \<open>Insertion in the store\<close>

lemmas heap_defs = set_link_def set_balance_def

definition new_leaf :: "addr \<Rightarrow> addr \<Rightarrow> bool \<Rightarrow> avl_heap \<Rightarrow> avl_heap" where
  "new_leaf n q d h = set_balance n 0 (set_link n False NULL (set_link n True NULL (set_link q d n h)))"

lemma new_leaf_other: "c \<noteq> n \<Longrightarrow> c \<noteq> q \<Longrightarrow> new_leaf n q d h c = h c"
  by (simp add: new_leaf_def heap_defs)

text \<open>Two stores that differ only at the nodes \<^term>\<open>A\<close> and in one link of \<^term>\<open>q\<close>, and in no data.\<close>

definition frame :: "addr set \<Rightarrow> addr \<Rightarrow> bool \<Rightarrow> avl_heap \<Rightarrow> avl_heap \<Rightarrow> bool" where
  "frame A q d h h' \<longleftrightarrow> (\<forall>a. avl_data (h' a) = avl_data (h a)) \<and>
     (\<forall>a. a \<notin> A \<and> a \<noteq> q \<longrightarrow> h' a = h a) \<and>
     (q \<notin> A \<longrightarrow> avl_balance (h' q) = avl_balance (h q) \<and> avl_link (h' q) (\<not> d) = avl_link (h q) (\<not> d))"

lemma rep_put:
  assumes "rep h t p" and "distinct (addrs t)" and "n \<notin> set (addrs t)" and "n \<noteq> 0" and "q \<notin> set (addrs t)" and "q \<noteq> n"
    and "last_link gr t q d = (q', d')"
  shows "rep (new_leaf n q' d' h) (put gr n t) (if t = Leaf then n else p) \<and>
    (q' = q \<and> d' = d \<and> t = Leaf \<or> q' \<in> set (addrs t) \<and> t \<noteq> Leaf)"
  using assms
proof (induction gr t arbitrary: p q d rule: path.induct)
  case (1 gr)
  then show ?case by (simp add: new_leaf_def heap_defs)
next
  case (2 gr l a b r)
  show ?case
  proof (cases "gr a")
    case True
    with 2 have i: "rep (new_leaf n q' d' h) (put gr n r) (if r = Leaf then n else avl_link (h a) True) \<and>
        (q' = a \<and> d' = True \<and> r = Leaf \<or> q' \<in> set (addrs r) \<and> r \<noteq> Leaf)" by auto
    have "n \<notin> set (addrs l)" "q' \<notin> set (addrs l)" using i 2(3,4) by auto
    then have "\<forall>c \<in> set (addrs l). new_leaf n q' d' h c = h c" by (auto intro!: new_leaf_other)
    from rep_frame [OF this] have "rep (new_leaf n q' d' h) l (avl_link (h a) False)" using 2(2) by simp
    moreover have "a \<noteq> n" "a \<notin> set (addrs r)" using 2(3,4) by auto
    then have "avl_link (new_leaf n q' d' h a) False = avl_link (h a) False"
        "avl_link (new_leaf n q' d' h a) True = (if r = Leaf then n else avl_link (h a) True)"
        "avl_balance (new_leaf n q' d' h a) = avl_balance (h a)"
      using i by (auto simp: new_leaf_def heap_defs)
    moreover have "q' \<in> set (addrs (Node l (a, b) r))" using i by auto
    ultimately show ?thesis using i 2(2) True by simp
  next
    case False
    with 2 have i: "rep (new_leaf n q' d' h) (put gr n l) (if l = Leaf then n else avl_link (h a) False) \<and>
        (q' = a \<and> d' = False \<and> l = Leaf \<or> q' \<in> set (addrs l) \<and> l \<noteq> Leaf)" by auto
    have "n \<notin> set (addrs r)" "q' \<notin> set (addrs r)" using i 2(3,4) by auto
    then have "\<forall>c \<in> set (addrs r). new_leaf n q' d' h c = h c" by (auto intro!: new_leaf_other)
    from rep_frame [OF this] have "rep (new_leaf n q' d' h) r (avl_link (h a) True)" using 2(2) by simp
    moreover have "a \<noteq> n" "a \<notin> set (addrs l)" using 2(3,4) by auto
    then have "avl_link (new_leaf n q' d' h a) True = avl_link (h a) True"
        "avl_link (new_leaf n q' d' h a) False = (if l = Leaf then n else avl_link (h a) False)"
        "avl_balance (new_leaf n q' d' h a) = avl_balance (h a)"
      using i by (auto simp: new_leaf_def heap_defs)
    moreover have "q' \<in> set (addrs (Node l (a, b) r))" using i by auto
    ultimately show ?thesis using i 2(2) False by simp
  qed
qed

lemma balance_loop_grow:
  assumes "rep h (put gr n t) p" and "distinct (addrs t)" and "n \<notin> set (addrs t)"
    and "\<forall>i < length (path gr t). da (k + i) = path gr t ! i" and "k + length (path gr t) \<le> 32"
  shows "\<exists>h'. balance_loop n da p k h = Some h' \<and> rep h' (grow gr n t) p \<and>
    (\<forall>a. a \<notin> set (addrs t) \<longrightarrow> h' a = h a) \<and> (\<forall>a. avl_data (h' a) = avl_data (h a) \<and> avl_link (h' a) = avl_link (h a))"
  using assms
proof (induction gr t arbitrary: p k h rule: path.induct)
  case (1 gr)
  then show ?case by (simp add: balance_loop.simps)
next
  case (2 gr l a b r)
  let ?c = "if gr a then r else l"
  let ?h = "set_balance a (if gr a then avl_balance (h a) + 1 else avl_balance (h a) - 1) h"
  have p: "p = a" "a \<noteq> 0" "a \<noteq> n" using 2(2,4) by (auto split: if_splits)
  have k: "da k = gr a" "k < 32" using 2(5,6) by auto
  have "\<forall>i < length (path gr ?c). da (Suc k + i) = path gr ?c ! i"
  proof (intro allI impI)
    fix i assume "i < length (path gr ?c)"
    then show "da (Suc k + i) = path gr ?c ! i" using 2(5) [rule_format, of "Suc i"] by simp
  qed
  moreover have "rep ?h (put gr n ?c) (avl_link (?h a) (gr a))"
    using 2(2,3,4) p by (auto simp: set_balance_def)
  ultimately obtain h' where h': "balance_loop n da (avl_link (?h a) (gr a)) (Suc k) ?h = Some h'"
    "rep h' (grow gr n ?c) (avl_link (?h a) (gr a))" "\<forall>c. c \<notin> set (addrs ?c) \<longrightarrow> h' c = ?h c"
    "\<forall>c. avl_data (h' c) = avl_data (?h c) \<and> avl_link (h' c) = avl_link (?h c)"
    using 2(1) [of ?h "avl_link (?h a) (gr a)" "Suc k"] 2(3,4,6) by (auto split: if_splits)
  have "balance_loop n da p k h = Some h'"
    using h'(1) p k by (subst balance_loop.simps) (cases "gr a"; simp add: Let_def)
  moreover have sib: "rep h' (if gr a then l else r) q = rep h (if gr a then l else r) q" for q
    by (rule rep_frame) (use h'(3) 2(3) in \<open>auto simp: set_balance_def split: if_splits\<close>)
  have "rep h' (grow gr n (Node l (a, b) r)) p"
    using h'(2,3,4) p 2(2,3,4) sib by (auto simp: set_balance_def split: if_splits)
  ultimately show ?case using h'(3,4) p by (intro exI [of _ h']) (auto simp: set_balance_def)
qed

definition turned :: "shape \<Rightarrow> shape \<Rightarrow> avl_heap \<Rightarrow> addr \<times> avl_heap \<Rightarrow> bool" where
  "turned t t' h res \<longleftrightarrow> (case res of (w, h') \<Rightarrow> rep h' t' w \<and> (\<forall>a. a \<notin> set (addrs t) \<longrightarrow> h' a = h a) \<and>
     (\<forall>a. avl_data (h' a) = avl_data (h a)))"

lemma heap_reads:
  "avl_link (set_link a d p h c) = (if c = a then (avl_link (h a))(d := p) else avl_link (h c))"
  "avl_balance (set_link a d p h c) = avl_balance (h c)" "avl_data (set_link a d p h c) = avl_data (h c)"
  "avl_link (set_balance a b h c) = avl_link (h c)" "avl_data (set_balance a b h c) = avl_data (h c)"
  "avl_balance (set_balance a b h c) = (if c = a then b else avl_balance (h c))"
  "c \<noteq> a \<Longrightarrow> set_link a d p h c = h c" "c \<noteq> a \<Longrightarrow> set_balance a b h c = h c"
  "a \<notin> set (addrs t) \<Longrightarrow> rep (set_link a d p h) t q \<longleftrightarrow> rep h t q"
  "a \<notin> set (addrs t) \<Longrightarrow> rep (set_balance a b h) t q \<longleftrightarrow> rep h t q"
  by (simp_all add: heap_defs)

lemma double_left_turned:
  assumes "rep h (Node (Node A (x, c) (Node B1 (w, e) B2)) (y, b) C) y" and "e = - 1 \<or> e = 0 \<or> e = 1"
    and "distinct (addrs (Node (Node A (x, c) (Node B1 (w, e) B2)) (y, b) C))"
  shows "turned (Node (Node A (x, c) (Node B1 (w, e) B2)) (y, b) C) (rot2 A x (Node B1 (w, e) B2) y C) h (double_left x y h)"
proof -
  have "x \<noteq> y" "w \<noteq> x" "w \<noteq> y" "y \<noteq> x" "x \<noteq> w" "y \<noteq> w" using assms(3) by auto
  then show ?thesis using assms
    by (elim disjE) (auto simp: turned_def double_left_def Let_def rot2_def heap_reads)
qed

lemma double_right_turned:
  assumes "rep h (Node A (y, b) (Node (Node B1 (w, e) B2) (x, c) C)) y" and "e = - 1 \<or> e = 0 \<or> e = 1"
    and "distinct (addrs (Node A (y, b) (Node (Node B1 (w, e) B2) (x, c) C)))"
  shows "turned (Node A (y, b) (Node (Node B1 (w, e) B2) (x, c) C)) (rot2 A y (Node B1 (w, e) B2) x C) h (double_right x y h)"
proof -
  have "x \<noteq> y" "w \<noteq> x" "w \<noteq> y" "y \<noteq> x" "x \<noteq> w" "y \<noteq> w" using assms(3) by auto
  then show ?thesis using assms
    by (elim disjE) (auto simp: turned_def double_right_def Let_def rot2_def heap_reads)
qed

lemma avl_balance_cases: "avl (Node l (a, b) r) \<Longrightarrow> b = - 1 \<or> b = 0 \<or> b = 1"
  by auto

lemma rotate_left_turned:
  assumes "rep h (Node (Node A (x, c) B) (y, - 2) C) y" and "avl (Node A (x, c) B)" and "c \<noteq> 0"
    and "distinct (addrs (Node (Node A (x, c) B) (y, - 2) C))"
  shows "turned (Node (Node A (x, c) B) (y, - 2) C) (rot (Node (Node A (x, c) B) (y, - 2) C)) h (rotate_left y h)"
proof (cases "c = - 1")
  case True
  have "x \<noteq> y" "y \<noteq> x" using assms(4) by auto
  with True assms show ?thesis by (auto simp: turned_def rotate_left_def Let_def heap_reads)
next
  case False
  then have c: "c = 1" using avl_balance_cases [OF assms(2)] assms(3) by blast
  then obtain B1 w e B2 where B: "B = Node B1 (w, e) B2" using assms(2) by (cases B rule: addrs.cases) auto
  have "e = - 1 \<or> e = 0 \<or> e = 1" using assms(2) B by auto
  from double_left_turned [OF assms(1) [unfolded B] this assms(4) [unfolded B]]
  show ?thesis using assms(1) c B by (simp add: rotate_left_def Let_def)
qed

lemma rotate_right_turned:
  assumes "rep h (Node A (y, 2) (Node B (x, c) C)) y" and "avl (Node B (x, c) C)" and "c \<noteq> 0"
    and "distinct (addrs (Node A (y, 2) (Node B (x, c) C)))"
  shows "turned (Node A (y, 2) (Node B (x, c) C)) (rot (Node A (y, 2) (Node B (x, c) C))) h (rotate_right y h)"
proof (cases "c = 1")
  case True
  have "x \<noteq> y" "y \<noteq> x" using assms(4) by auto
  with True assms show ?thesis by (auto simp: turned_def rotate_right_def Let_def heap_reads)
next
  case False
  then have c: "c = - 1" using avl_balance_cases [OF assms(2)] assms(3) by blast
  then obtain B1 w e B2 where B: "B = Node B1 (w, e) B2" using assms(2) by (cases B rule: addrs.cases) auto
  have "e = - 1 \<or> e = 0 \<or> e = 1" using assms(2) B by auto
  from double_right_turned [OF assms(1) [unfolded B] this assms(4) [unfolded B]]
  show ?thesis using assms(1) c B by (simp add: rotate_right_def Let_def)
qed

text \<open>The subtree at \<^term>\<open>y\<close> hangs at the link \<^term>\<open>d\<close> of \<^term>\<open>z\<close>, and the code recognises the link.\<close>

definition hangs :: "avl_heap \<Rightarrow> addr \<Rightarrow> bool \<Rightarrow> addr \<Rightarrow> bool" where
  "hangs h z d y \<longleftrightarrow> avl_link (h z) d = y \<and> (d \<longrightarrow> avl_link (h z) False \<noteq> y)"

lemma relink:
  assumes "turned t t' h (w, h1)" and "z \<notin> set (addrs t)" and "hangs h z d y"
    and "z \<notin> set (addrs t')"
  shows "let h' = set_link z (y \<noteq> avl_link (h1 z) False) w h1
    in rep h' t' (avl_link (h' z) d) \<and> frame (set (addrs t)) z d h h'"
  using assms by (cases d) (auto simp: turned_def hangs_def frame_def heap_reads Let_def)

definition leans :: "shape \<Rightarrow> bool" where
  "leans t \<longleftrightarrow> (case t of Leaf \<Rightarrow> False | Node A xc B \<Rightarrow> snd xc \<noteq> 0)"

lemma leansE: "leans t \<Longrightarrow> \<exists>A x c B. t = Node A (x, c) B \<and> c \<noteq> 0"
  by (cases t rule: addrs.cases) (auto simp: leans_def)

lemma probe_rotate_rep:
  assumes "rep h (Node l (y, b) r) y" and "distinct (addrs (Node l (y, b) r))" and "avl l" "avl r"
    and "b = int (height r) - int (height l)" and "- 2 \<le> b" "b \<le> 2" and "b = - 2 \<Longrightarrow> leans l" and "b = 2 \<Longrightarrow> leans r"
    and z: "z \<notin> set (addrs (Node l (y, b) r))" "hangs h z d y" and "avl_nodes s = h"
  shows "\<exists>h' g. probe_rotate z y s = s\<lparr>avl_nodes := h', avl_generation := g\<rparr> \<and>
    rep h' (rot (Node l (y, b) r)) (avl_link (h' z) d) \<and> frame (set (addrs (Node l (y, b) r))) z d h h'"
proof -
  let ?t = "Node l (y, b) r"
  have bal: "avl_balance (h y) = word_of_int b" using assms(1) by simp
  note sb = small_balance [OF assms(6,7)]
  consider "b = - 2" | "b = 2" | "b \<noteq> - 2" "b \<noteq> 2" by blast
  then show ?thesis
  proof cases
    case 1
    then obtain A x c B where l: "l = Node A (x, c) B" "c \<noteq> 0" using leansE [OF assms(8)] by blast
    obtain w h1 where w: "rotate_left y h = (w, h1)" by fastforce
    have t: "turned ?t (rot ?t) h (w, h1)"
      using rotate_left_turned [of h A x c B y r] assms(1-3) l 1 w by simp
    have "set (addrs (rot ?t)) = set (addrs ?t)"
      using rot_avl_left [OF assms(3,4) _ l] assms(5) 1 by simp
    then have "let h' = set_link z (y \<noteq> avl_link (h1 z) False) w h1
        in rep h' (rot ?t) (avl_link (h' z) d) \<and> frame (set (addrs ?t)) z d h h'"
      using relink [OF t z] z(1) by blast
    then show ?thesis using bal sb 1 w assms(12) by (simp add: probe_rotate_def Let_def) blast
  next
    case 2
    then obtain B x c C where r: "r = Node B (x, c) C" "c \<noteq> 0" using leansE [OF assms(9)] by blast
    obtain w h1 where w: "rotate_right y h = (w, h1)" by fastforce
    have t: "turned ?t (rot ?t) h (w, h1)"
      using rotate_right_turned [of h l y B x c C] assms(1,2,4) r 2 w by simp
    have "set (addrs (rot ?t)) = set (addrs ?t)"
      using rot_avl_right [OF assms(3,4) _ r] assms(5) 2 by simp
    then have "let h' = set_link z (y \<noteq> avl_link (h1 z) False) w h1
        in rep h' (rot ?t) (avl_link (h' z) d) \<and> frame (set (addrs ?t)) z d h h'"
      using relink [OF t z] z(1) by blast
    then show ?thesis using bal sb 2 w assms(12) by (simp add: probe_rotate_def Let_def) blast
  next
    case 3
    then have "probe_rotate z y s = s\<lparr>avl_nodes := h, avl_generation := avl_generation s\<rparr>"
      using bal sb assms(12) by (simp add: probe_rotate_def Let_def)
    moreover have "rep h (rot ?t) (avl_link (h z) d)" "frame (set (addrs ?t)) z d h h"
      using 3 assms(1) z(2) by (auto simp: hangs_def frame_def)
    ultimately show ?thesis by blast
  qed
qed

lemma grow_node:
  assumes "steady gr (if gr y then r else l)" and "avl (Node l (y, b) r)"
  obtains l' b' r' where "grow gr n (Node l (y, b) r) = Node l' (y, b') r'" "avl l'" "avl r'"
    "b' = int (height r') - int (height l')" "- 2 \<le> b'" "b' \<le> 2" "b' = - 2 \<Longrightarrow> leans l'" "b' = 2 \<Longrightarrow> leans r'"
proof (cases "gr y")
  case True
  have "leans (grow gr n r)" if "b = 1"
    using that True assms grow_root [of gr _ _ _ _ n] by (cases r rule: addrs.cases) (auto simp: leans_def)
  then show ?thesis using True assms grow_avl [of gr r n] by (intro that [of l "b + 1" "grow gr n r"]) auto
next
  case False
  have "leans (grow gr n l)" if "b = - 1"
    using that False assms grow_root [of gr _ _ _ _ n] by (cases l rule: addrs.cases) (auto simp: leans_def)
  then show ?thesis using False assms grow_avl [of gr l n] by (intro that [of "grow gr n l" "b - 1" r]) auto
qed

lemma probe_insert_at:
  assumes T: "T = Node l (y, b) r" and rep: "rep h T y" "distinct (addrs T)" "avl T" "height T \<le> 32"
    and steady: "steady gr (if gr y then r else l)" and n: "n \<notin> set (addrs T)" "n \<noteq> 0" "n \<noteq> z"
    and z: "z \<notin> set (addrs T)" "hangs h z d y" and da: "\<forall>i < length (path gr T). da i = path gr T ! i"
    and q: "last_link gr T z d = (q', d')" and s: "avl_nodes s = h"
  shows "\<exists>s'. probe_insert n (z, y, q', d', da) s = Some (n, s') \<and> avl_count s' = avl_count s + 1 \<and>
    rep (avl_nodes s') (rot (grow gr n T)) (avl_link (avl_nodes s' z) d) \<and>
    frame (insert n (set (addrs T))) z d h (avl_nodes s')"
proof -
  let ?h1 = "new_leaf n q' d' h"
  have y: "y \<noteq> 0" using rep(1) T by simp
  have put: "rep ?h1 (put gr n T) y" "q' \<in> set (addrs T)"
    using rep_put [OF rep(1,2) n(1,2) z(1) _ q] n(3) T by auto
  have "length (path gr T) \<le> 32" using length_path [of gr T] rep(4) by linarith
  then obtain h2 where h2: "balance_loop n da y 0 ?h1 = Some h2" "rep h2 (grow gr n T) y"
    "\<forall>a. a \<notin> set (addrs T) \<longrightarrow> h2 a = ?h1 a" "\<forall>a. avl_data (h2 a) = avl_data (?h1 a)"
    using balance_loop_grow [OF put(1) rep(2) n(1), of da 0] da by auto
  have z1: "z \<noteq> q'" using z(1) put(2) by blast
  have h2z: "h2 z = h z" using h2(3) z(1) n(3) z1 new_leaf_other [of z n q' d' h] by simp
  obtain l' b' r' where g: "grow gr n T = Node l' (y, b') r'" "avl l'" "avl r'"
    "b' = int (height r') - int (height l')" "- 2 \<le> b'" "b' \<le> 2" "b' = - 2 \<Longrightarrow> leans l'" "b' = 2 \<Longrightarrow> leans r'"
    using grow_node [OF steady rep(3) [unfolded T]] unfolding T by blast
  have set: "set (addrs (Node l' (y, b') r')) = insert n (set (addrs T))" "distinct (addrs (Node l' (y, b') r'))"
    using addrs_grow [of gr n T] distinct_put [OF rep(2) n(1)] unfolding g by auto
  have h2h: "h2 a = h a" if "a \<notin> insert n (set (addrs T))" for a
    using that h2(3) put(2) new_leaf_other [of a n q' d' h] by auto
  have h2d: "avl_data (h2 a) = avl_data (h a)" for a
    using h2(4) by (simp add: new_leaf_def heap_reads)
  have zc: "z \<notin> set (addrs (Node l' (y, b') r'))" unfolding set(1) using z(1) n(3) by blast
  have hz: "hangs h2 z d y" using z(2) h2z by (simp add: hangs_def)
  let ?s = "s\<lparr>avl_count := avl_count s + 1, avl_nodes := h2\<rparr>"
  obtain h' g' where h': "probe_rotate z y ?s = ?s\<lparr>avl_nodes := h', avl_generation := g'\<rparr>"
    "rep h' (rot (grow gr n T)) (avl_link (h' z) d)" "frame (insert n (set (addrs T))) z d h2 h'"
    using probe_rotate_rep [OF h2(2) [unfolded g(1)] set(2) g(2-8) zc hz, of ?s] unfolding g(1) set(1) by auto
  have "frame (insert n (set (addrs T))) z d h h'"
    using h'(3) h2h h2d h2z unfolding frame_def by auto
  moreover have "probe_insert n (z, y, q', d', da) s = Some (n, ?s\<lparr>avl_nodes := h', avl_generation := g'\<rparr>)"
    using h2(1) h'(1) y n(2) s by (simp add: probe_insert_def new_leaf_def Let_def)
  ultimately show ?thesis using h'(2) by auto
qed

lemma frame_trans_link:
  assumes "frame A a c h h'" and "a \<in> B" "A \<subseteq> B" "q \<notin> B"
  shows "frame B q d h h'"
  using assms by (auto simp: frame_def)

lemma desc_node: "\<exists>z' y' da' k'. desc gr (Node l (a, b) r) z y q d da k = desc gr (if gr a then r else l) z' y' a (gr a) da' k'"
proof (cases "b = 0")
  case True
  then show ?thesis by (intro exI [of _ z] exI [of _ y] exI [of _ "da(k := gr a)"] exI [of _ "k + 1"]) simp
next
  case False
  then show ?thesis by (intro exI [of _ q] exI [of _ a] exI [of _ "da(0 := gr a)"] exI [of _ 1]) simp
qed

lemma probe_insert_desc:
  assumes "rep h t p" and "distinct (addrs t)" and "avl t" and "height t \<le> 32" and "n \<notin> set (addrs t)" "n \<noteq> 0" "n \<noteq> q"
    and "q \<notin> set (addrs t)" and "hangs h q d p" and "\<not> steady gr t \<or> t \<noteq> Leaf \<and> z = q \<and> y = p \<and> k = 0" and "avl_nodes s = h"
  shows "\<exists>s'. probe_insert n (desc gr t z y q d da k) s = Some (n, s') \<and> avl_count s' = avl_count s + 1 \<and>
    rep (avl_nodes s') (ins gr n t) (avl_link (avl_nodes s' q) d) \<and>
    frame (insert n (set (addrs t))) q d h (avl_nodes s')"
  using assms
proof (induction gr t arbitrary: p q d z y da k rule: path.induct)
  case (2 gr l a b r)
  let ?c = "if gr a then r else l" and ?T = "Node l (a, b) r"
  have a: "p = a" "a \<noteq> 0" using 2(2) by auto
  show ?case
  proof (cases "steady gr ?c")
    case True
    with 2(11) a have "desc gr ?T z y q d da k = desc gr ?c q a a (gr a) (da(0 := gr a)) 1"
      by (auto simp: Let_def split: if_splits)
    moreover obtain da' where d: "desc gr ?c q a a (gr a) (da(0 := gr a)) 1 =
        (q, a, fst (last_link gr ?T q d), snd (last_link gr ?T q d), da')"
      "\<forall>i < 1. da' i = (da(0 := gr a)) i" "\<forall>i < length (path gr ?c). da' (1 + i) = path gr ?c ! i"
      using desc_steady [OF True, of q a a "gr a" "da(0 := gr a)" 1] by auto
    moreover have "\<forall>i < length (path gr ?T). da' i = path gr ?T ! i"
      using d(2,3) by (auto simp: nth_Cons' less_Suc_eq_0_disj)
    moreover have "ins gr n ?T = rot (grow gr n ?T)" using True by simp
    ultimately show ?thesis
      using probe_insert_at [OF refl 2(2) [unfolded a] 2(3,4,5) True 2(6-9) 2(10) [unfolded a], of da' "fst (last_link gr ?T q d)" "snd (last_link gr ?T q d)" s]
        2(12) by (simp del: ins.simps grow.simps addrs.simps last_link.simps path.simps)
  next
    case False
    have "\<exists>z' y' da' k'. desc gr ?T z y q d da k = desc gr ?c z' y' a (gr a) da' k'"
      by (rule desc_node)
    then obtain z' y' da' k' where d: "desc gr ?T z y q d da k = desc gr ?c z' y' a (gr a) da' k'" by blast
    have c: "rep h ?c (avl_link (h a) (gr a))" "distinct (addrs ?c)" "avl ?c" "height ?c \<le> 32" "n \<notin> set (addrs ?c)"
      "n \<noteq> a" "a \<notin> set (addrs ?c)" "?c \<noteq> Leaf"
      using 2(2-6) False by (auto simp del: steady.simps simp: steady.simps(1) split: if_splits)
    have "hangs h a (gr a) (avl_link (h a) (gr a))"
      using rep_root [OF c(1)] c(8) 2(2,3) rep_root [of h l "avl_link (h a) False"] by (auto simp: hangs_def split: if_splits)
    then obtain s' where s': "probe_insert n (desc gr ?c z' y' a (gr a) da' k') s = Some (n, s')"
      "avl_count s' = avl_count s + 1" "rep (avl_nodes s') (ins gr n ?c) (avl_link (avl_nodes s' a) (gr a))"
      "frame (insert n (set (addrs ?c))) a (gr a) h (avl_nodes s')"
      using 2(1) [OF c(1-5) 2(7) c(6,7) _ disjI1 [OF False] 2(12)] by blast
    have f: "frame (insert n (set (addrs ?T))) q d h (avl_nodes s')"
      by (rule frame_trans_link [OF s'(4)]) (use 2(8,9) in \<open>auto split: if_splits\<close>)
    have sib: "rep (avl_nodes s') (if gr a then l else r) x = rep h (if gr a then l else r) x" for x
      by (rule rep_frame) (use s'(4) 2(3,6) in \<open>auto simp: frame_def split: if_splits\<close>)
    have "avl_balance (avl_nodes s' a) = avl_balance (h a)" "avl_link (avl_nodes s' a) (\<not> gr a) = avl_link (h a) (\<not> gr a)"
      using s'(4) c(6,7) by (auto simp: frame_def)
    then have "rep (avl_nodes s') (ins gr n ?T) a"
      using False s'(3) sib 2(2) by (auto split: if_splits)
    moreover have "avl_link (avl_nodes s' q) d = a"
      using s'(4) 2(8,9,10) a by (auto simp: frame_def hangs_def split: if_splits)
    ultimately show ?thesis using d s'(1,2) f by auto
  qed
qed simp

section \<open>The table\<close>

text \<open>The invariant of a table at address \<^term>\<open>tree\<close> whose nodes form the tree \<^term>\<open>t\<close>.\<close>

definition avl_ok :: "(addr \<Rightarrow> 'k :: linorder) \<Rightarrow> addr \<Rightarrow> shape \<Rightarrow> avl_table \<Rightarrow> bool" where
  "avl_ok key tree t s \<longleftrightarrow> rep (avl_nodes s) t (avl_root tree s) \<and> distinct (tree # addrs t) \<and> avl t \<and>
     ordered key (avl_nodes s) t \<and> avl_count s = of_nat (size t)"

definition fresh :: "(addr \<Rightarrow> 'k) \<Rightarrow> addr \<Rightarrow> shape \<Rightarrow> avl_table \<Rightarrow> addr \<Rightarrow> bool" where
  "fresh key tree t s n \<longleftrightarrow> n \<noteq> 0 \<and> n \<noteq> tree \<and> n \<notin> set (addrs t) \<and>
     (\<forall>a \<in> set (addrs t). node_key key (avl_nodes s) a \<noteq> node_key key (avl_nodes s) n)"

lemma avl_find_hit:
  "orders cmp key \<Longrightarrow> avl_ok key tree t s \<Longrightarrow> c \<in> set (addrs t) \<Longrightarrow> node_key key (avl_nodes s) c = key x \<Longrightarrow>
   avl_find cmp tree x s = Some c"
  unfolding avl_find_def avl_ok_def by (blast intro: find_loop_finds)

lemma avl_find_miss:
  "orders cmp key \<Longrightarrow> avl_ok key tree t s \<Longrightarrow> \<forall>c \<in> set (addrs t). node_key key (avl_nodes s) c \<noteq> key x \<Longrightarrow>
   avl_find cmp tree x s = Some NULL"
  unfolding avl_find_def avl_ok_def by (blast intro: find_loop_misses)

lemma avl_probe_new:
  assumes cmp: "orders cmp key" and ok: "avl_ok key tree t s" and "size t < 9227464" and n: "fresh key tree t s item"
  obtains t' s' where "avl_probe cmp tree item s = Some (item, s')" "avl_ok key tree t' s'"
    "set (addrs t') = insert item (set (addrs t))" "frame (insert item (set (addrs t))) tree False (avl_nodes s) (avl_nodes s')"
proof -
  let ?h = "avl_nodes s" and ?p = "avl_root tree s"
  let ?gr = "\<lambda>a. 0 <s cmp (avl_data (?h item)) (avl_data (?h a))"
  have gr: "?gr = (\<lambda>a. node_key key ?h a < node_key key ?h item)"
    by (simp add: orders_greater [OF cmp] node_key_def)
  note o = ok [unfolded avl_ok_def]
  have ht: "height t \<le> 32" using avl_height o assms(3) by blast
  have "\<forall>a \<in> set (addrs t). cmp (avl_data (?h item)) (avl_data (?h a)) \<noteq> 0"
    using n by (auto simp: fresh_def node_key_def orders_zero [OF cmp])
  then have loop: "probe_loop cmp (avl_data (?h item)) ?h tree ?p tree ?p False (\<lambda>_. False) 0 =
      Some (Inr (desc ?gr t tree ?p tree False (\<lambda>_. False) 0))"
    using probe_loop_desc [of ?h t ?p 0] o ht by auto
  have "\<exists>s'. probe_insert item (desc ?gr t tree ?p tree False (\<lambda>_. False) 0) s = Some (item, s') \<and>
      avl_count s' = avl_count s + 1 \<and> rep (avl_nodes s') (ins ?gr item t) (avl_link (avl_nodes s' tree) False) \<and>
      frame (insert item (set (addrs t))) tree False ?h (avl_nodes s')"
  proof (cases "t = Leaf")
    case True
    then show ?thesis using o n
      by (auto simp: probe_insert_def Let_def fresh_def frame_def heap_reads)
  next
    case False
    show ?thesis
      by (rule probe_insert_desc) (use o n ht False in \<open>auto simp: fresh_def hangs_def avl_root_def\<close>)
  qed
  then obtain s' where s': "probe_insert item (desc ?gr t tree ?p tree False (\<lambda>_. False) 0) s = Some (item, s')"
    "avl_count s' = avl_count s + 1" "rep (avl_nodes s') (ins ?gr item t) (avl_link (avl_nodes s' tree) False)"
    "frame (insert item (set (addrs t))) tree False ?h (avl_nodes s')" by blast
  have key: "node_key key (avl_nodes s') = node_key key ?h" using s'(4) by (auto simp: frame_def node_key_def)
  have a: "addrs (ins ?gr item t) = addrs (put ?gr item t)" "avl (ins ?gr item t)" using ins_avl o by blast+
  have "ordered key ?h (put ?gr item t)"
    unfolding gr using o n by (intro ordered_put) (auto simp: fresh_def)
  moreover have "size (ins ?gr item t) = Suc (size t)"
    using length_addrs [of "ins ?gr item t"] length_addrs [of "put ?gr item t"] a(1) by simp
  moreover have "distinct (tree # addrs (put ?gr item t))"
    using o n by (auto simp: fresh_def intro!: distinct_put)
  ultimately have "avl_ok key tree (ins ?gr item t) s'"
    using s'(2,3) o a by (simp add: avl_ok_def ordered_def key avl_root_def add.commute)
  moreover have "avl_probe cmp tree item s = Some (item, s')"
    using loop s'(1) by (simp add: avl_probe_def Let_def)
  moreover have "set (addrs (ins ?gr item t)) = insert item (set (addrs t))" using a(1) by simp
  ultimately show thesis using that s'(4) by blast
qed

text \<open>C13: Inserting a node with a new key into a well-formed table returns, keeps order, balance, balance
  factors and the counter, adds exactly that node, and changes no data and no node outside the table.\<close>

theorem avl_probe_inserts:
  assumes "orders cmp key" and "avl_ok key tree t s" and "size t < 9227464" and "fresh key tree t s item"
  shows "\<exists>t' s'. avl_probe cmp tree item s = Some (item, s') \<and> avl_ok key tree t' s' \<and>
    set (addrs t') = insert item (set (addrs t)) \<and>
    (\<forall>a. avl_data (avl_nodes s' a) = avl_data (avl_nodes s a)) \<and>
    (\<forall>a. a \<noteq> tree \<and> a \<noteq> item \<and> a \<notin> set (addrs t) \<longrightarrow> avl_nodes s' a = avl_nodes s a)"
proof -
  obtain t' s' where "avl_probe cmp tree item s = Some (item, s')" "avl_ok key tree t' s'"
    "set (addrs t') = insert item (set (addrs t))" "frame (insert item (set (addrs t))) tree False (avl_nodes s) (avl_nodes s')"
    using avl_probe_new [OF assms] .
  then show ?thesis by (intro exI [of _ t'] exI [of _ s']) (auto simp: frame_def)
qed

text \<open>C15: After an insertion avl_find returns the new node for its key and for every other key what it
  returned before: the table behaves as a map that is updated.\<close>

theorem avl_find_after_probe:
  assumes "orders cmp key" and "avl_ok key tree t s" and "size t < 9227464" and "fresh key tree t s item"
  shows "\<exists>s'. avl_probe cmp tree item s = Some (item, s') \<and>
    avl_find cmp tree x s' = (if key x = key (avl_data (avl_nodes s item)) then Some item else avl_find cmp tree x s)"
proof -
  obtain t' s' where s': "avl_probe cmp tree item s = Some (item, s')" "avl_ok key tree t' s'"
    "set (addrs t') = insert item (set (addrs t))" "frame (insert item (set (addrs t))) tree False (avl_nodes s) (avl_nodes s')"
    using avl_probe_new [OF assms] .
  have key: "node_key key (avl_nodes s') = node_key key (avl_nodes s)" using s'(4) by (auto simp: frame_def node_key_def)
  note hit = avl_find_hit [OF assms(1)] and miss = avl_find_miss [OF assms(1)]
  have "avl_find cmp tree x s' = (if key x = node_key key (avl_nodes s) item then Some item else avl_find cmp tree x s)"
  proof (cases "\<exists>c \<in> set (addrs t'). node_key key (avl_nodes s) c = key x")
    case True
    then obtain c where "c \<in> set (addrs t')" "node_key key (avl_nodes s) c = key x" by blast
    then show ?thesis using hit [OF s'(2), of c x] hit [OF assms(2), of c x] s'(3) assms(4) key
      by (auto simp: fresh_def)
  next
    case False
    then show ?thesis using miss [OF s'(2), of x] miss [OF assms(2), of x] s'(3) key by auto
  qed
  with s'(1) show ?thesis by (auto simp: node_key_def)
qed

text \<open>A node with a key that is already in the table is not inserted; the node that has it is returned.\<close>

theorem avl_probe_duplicate:
  assumes "orders cmp key" and "avl_ok key tree t s" and "size t < 9227464" and "c \<in> set (addrs t)"
    and "key (avl_data (avl_nodes s c)) = key (avl_data (avl_nodes s item))"
  shows "avl_probe cmp tree item s = Some (c, s)"
proof -
  have "height t \<le> 32" using avl_height assms(2,3) by (auto simp: avl_ok_def)
  then show ?thesis
    using probe_loop_finds [OF assms(1), of "avl_nodes s" t "avl_root tree s" 0 c "avl_data (avl_nodes s item)"] assms(2,4,5)
    by (simp add: avl_probe_def Let_def avl_ok_def node_key_def)
qed

text \<open>For a node whose data pointer is not the node itself avl_insert reports a successful insertion as a
  duplicate, and avl_replace overwrites the new node's data with the node's address.\<close>

theorem avl_insert_new_result:
  assumes "orders cmp key" and "avl_ok key tree t s" and "size t < 9227464" and "fresh key tree t s item"
    and "avl_data (avl_nodes s item) \<noteq> item"
  shows "\<exists>s1 s2. avl_insert cmp tree item s = Some (avl_data (avl_nodes s item), s1) \<and>
    avl_replace cmp tree item s = Some (avl_data (avl_nodes s item), s2) \<and> avl_data (avl_nodes s2 item) = item"
proof -
  obtain t' s' where "avl_probe cmp tree item s = Some (item, s')"
    "frame (insert item (set (addrs t))) tree False (avl_nodes s) (avl_nodes s')"
    using avl_probe_new [OF assms(1-4)] .
  with assms(4,5) show ?thesis
    by (auto simp: avl_insert_def avl_replace_def frame_def fresh_def set_data_def)
qed

section \<open>A table with two nodes\<close>

definition demo_cmp :: avl_comparison_func where
  "demo_cmp a b = (if a < b then - 1 else if b < a then 1 else 0)"

definition demo_node :: "addr \<Rightarrow> addr \<Rightarrow> addr \<Rightarrow> u8 \<Rightarrow> avl_node" where
  "demo_node l r v b = \<lparr>avl_link = (\<lambda>d. if d then r else l), avl_data = v, avl_balance = b\<rparr>"

text \<open>The table is at 16; the nodes 32 and 48 hold 5 and 7, and node 64 with 6 is not in the table.\<close>

definition demo_avl :: avl_table where
  "demo_avl = \<lparr>avl_nodes = (\<lambda>_. demo_node 0 0 0 0)(16 := demo_node 32 0 0 0, 32 := demo_node 0 48 5 1,
     48 := demo_node 0 0 7 0, 64 := demo_node 0 0 6 0), avl_count = 2, avl_generation = 0\<rparr>"

definition demo_shape :: shape where
  "demo_shape = Node Leaf (32, 1) (Node Leaf (48, 0) Leaf)"

lemma demo_orders: "orders demo_cmp (\<lambda>a. a)"
  by (auto simp: orders_def demo_cmp_def word_sless_alt)

lemma demo_avl_ok: "avl_ok (\<lambda>a. a) 16 demo_shape demo_avl" "size demo_shape < 5702886" "size demo_shape < 9227464"
  "fresh (\<lambda>a. a) 16 demo_shape demo_avl 64" "avl_data (avl_nodes demo_avl 64) = 6" "avl_data (avl_nodes demo_avl 48) = 7"
  by (simp_all add: avl_ok_def demo_shape_def demo_avl_def demo_node_def avl_root_def node_key_def fresh_def)

theorem avl_probe_inserts_witness:
  "\<exists>t' s'. avl_probe demo_cmp 16 64 demo_avl = Some (64, s') \<and> avl_ok (\<lambda>a. a) 16 t' s' \<and>
    set (addrs t') = {64, 32, 48}"
  using avl_probe_inserts [OF demo_orders demo_avl_ok(1,3,4)] by (auto simp: demo_shape_def)

theorem avl_find_after_probe_witness:
  "\<exists>s'. avl_probe demo_cmp 16 64 demo_avl = Some (64, s') \<and> avl_find demo_cmp 16 6 s' = Some 64"
  using avl_find_after_probe [OF demo_orders demo_avl_ok(1,3,4), of 6] by (auto simp: demo_avl_ok)

theorem avl_insert_new_result_witness:
  "\<exists>s1 s2. avl_insert demo_cmp 16 64 demo_avl = Some (6, s1) \<and> avl_replace demo_cmp 16 64 demo_avl = Some (6, s2) \<and>
    avl_data (avl_nodes s2 64) = 64"
  using avl_insert_new_result [OF demo_orders demo_avl_ok(1,3,4)] by (simp add: demo_avl_ok)

end
