(* ===== verification/AvlDelete.thy ===== *)
theory AvlDelete
  imports AvlTree
begin

text \<open>
  Correctness of \<^verbatim>\<open>avl_delete\<close>. The stack \<^verbatim>\<open>pa\<close>, \<^verbatim>\<open>da\<close> of the code is a context: the list of the nodes above a
  subtree, each with its balance factor, the direction taken and the subtree on the other side. The
  node is taken out, which lowers one subtree by one, and the loop repairs the context from below.
\<close>

section \<open>Contexts\<close>

type_synonym ctx = "(addr \<times> int \<times> bool \<times> shape) list"

fun plug :: "shape \<Rightarrow> ctx \<Rightarrow> shape" where
  "plug t [] = t"
| "plug t ((a, b, d, sib) # cs) = plug (if d then Node sib (a, b) t else Node t (a, b) sib) cs"

fun lft :: "ctx \<Rightarrow> addr list" where
  "lft [] = []"
| "lft ((a, b, d, sib) # cs) = (if d then lft cs @ addrs sib @ [a] else lft cs)"

fun rgt :: "ctx \<Rightarrow> addr list" where
  "rgt [] = []"
| "rgt ((a, b, d, sib) # cs) = (if d then rgt cs else a # addrs sib @ rgt cs)"

abbreviation cset :: "ctx \<Rightarrow> addr set" where
  "cset cs \<equiv> set (lft cs) \<union> set (rgt cs)"

lemma addrs_plug: "addrs (plug t cs) = lft cs @ addrs t @ rgt cs"
  by (induction t cs rule: plug.induct) auto

text \<open>The link where a subtree with the given context hangs.\<close>

fun hold :: "addr \<Rightarrow> ctx \<Rightarrow> addr" where
  "hold tree [] = tree"
| "hold tree ((a, b, d, sib) # cs) = a"

fun hdir :: "ctx \<Rightarrow> bool" where
  "hdir [] = False"
| "hdir ((a, b, d, sib) # cs) = d"

fun repc :: "avl_heap \<Rightarrow> addr \<Rightarrow> ctx \<Rightarrow> bool" where
  "repc h tree [] = True"
| "repc h tree ((a, b, d, sib) # cs) \<longleftrightarrow> a \<noteq> 0 \<and> avl_balance (h a) = word_of_int b \<and>
     rep h sib (avl_link (h a) (\<not> d)) \<and> avl_link (h (hold tree cs)) (hdir cs) = a \<and> repc h tree cs"

lemma rep_plug:
  "rep h (plug t cs) (avl_link (h tree) False) \<longleftrightarrow> repc h tree cs \<and> rep h t (avl_link (h (hold tree cs)) (hdir cs))"
  by (induction t cs rule: plug.induct) auto

lemma hold_in: "hold tree cs \<in> insert tree (cset cs)"
  by (cases cs rule: lft.cases) auto

lemma repc_same: "\<forall>a \<in> insert tree (cset cs). h' a = h a \<Longrightarrow> repc h' tree cs \<longleftrightarrow> repc h tree cs"
proof (induction h tree cs rule: repc.induct)
  case (2 h tree a b d sib cs)
  then have "h' (hold tree cs) = h (hold tree cs)" using hold_in [of tree cs] by (auto split: if_splits)
  moreover have "rep h' sib p = rep h sib p" for p by (rule rep_frame) (use 2(2) in \<open>auto split: if_splits\<close>)
  moreover have "h' a = h a" using 2(2) by (auto split: if_splits)
  ultimately show ?case using 2 by (auto split: if_splits)
qed simp

lemma repc_frame:
  assumes "frame A (hold tree cs) (hdir cs) h h'" and "A \<inter> insert tree (cset cs) = {}" and "distinct (tree # lft cs @ rgt cs)"
  shows "repc h' tree cs \<longleftrightarrow> repc h tree cs"
proof (cases cs rule: lft.cases)
  case (2 a b d sib cs')
  have n: "a \<notin> insert tree (cset cs')" "a \<notin> set (addrs sib)" using assms(3) 2 by (auto split: if_splits)
  then have h: "\<forall>c \<in> insert tree (cset cs'). h' c = h c" using assms(1,2) 2 by (auto simp: frame_def split: if_splits)
  then have "h' (hold tree cs') = h (hold tree cs')" using hold_in by blast
  moreover have "rep h' sib p = rep h sib p" for p
    by (rule rep_frame) (use assms(1,2) n 2 in \<open>auto simp: frame_def split: if_splits\<close>)
  ultimately show ?thesis using assms(1,2) n 2 repc_same [OF h] by (auto simp: frame_def split: if_splits)
qed simp

fun avlc :: "nat \<Rightarrow> ctx \<Rightarrow> bool" where
  "avlc n [] = True"
| "avlc n ((a, b, d, sib) # cs) \<longleftrightarrow> avl sib \<and>
     b = (if d then int n - int (height sib) else int (height sib) - int n) \<and> - 1 \<le> b \<and> b \<le> 1 \<and>
     avlc (Suc (max n (height sib))) cs"

lemma avl_plug: "avl (plug t cs) \<longleftrightarrow> avl t \<and> avlc (height t) cs"
  by (induction t cs rule: plug.induct) (auto simp: max.commute)

fun stacked :: "(nat \<Rightarrow> addr) \<Rightarrow> (nat \<Rightarrow> bool) \<Rightarrow> addr \<Rightarrow> ctx \<Rightarrow> bool" where
  "stacked pa da tree [] \<longleftrightarrow> pa 0 = tree \<and> da 0 = False"
| "stacked pa da tree ((a, b, d, sib) # cs) \<longleftrightarrow> pa (Suc (length cs)) = a \<and> da (Suc (length cs)) = d \<and> stacked pa da tree cs"

lemma stacked_hold: "stacked pa da tree cs \<Longrightarrow> pa (length cs) = hold tree cs \<and> da (length cs) = hdir cs"
  by (cases cs rule: lft.cases) auto

lemma stacked_upd [simp]:
  "length cs < k \<Longrightarrow> stacked (pa(k := p)) da tree cs \<longleftrightarrow> stacked pa da tree cs"
  "length cs < k \<Longrightarrow> stacked pa (da(k := d)) tree cs \<longleftrightarrow> stacked pa da tree cs"
  by (induction pa da tree cs rule: stacked.induct) auto

section \<open>Repairing the balance\<close>

text \<open>The node \<^term>\<open>y\<close> after its right (left) subtree has become \<^term>\<open>r\<close> (\<^term>\<open>l\<close>), one lower than before.\<close>

definition lower_right :: "shape \<Rightarrow> addr \<Rightarrow> int \<Rightarrow> shape \<Rightarrow> shape \<times> bool" where
  "lower_right l y b r =
     (if b = 0 then (Node l (y, - 1) r, True)
      else if b = 1 then (Node l (y, 0) r, False)
      else (case l of
          Node A (x, c) B \<Rightarrow>
            if c = 1 then (rot2 A x B y r, False)
            else if c = 0 then (Node A (x, 1) (Node B (y, - 1) r), True)
            else (Node A (x, 0) (Node B (y, 0) r), False)
        | Leaf \<Rightarrow> (Leaf, False)))"

definition lower_left :: "shape \<Rightarrow> addr \<Rightarrow> int \<Rightarrow> shape \<Rightarrow> shape \<times> bool" where
  "lower_left l y b r =
     (if b = 0 then (Node l (y, 1) r, True)
      else if b = - 1 then (Node l (y, 0) r, False)
      else (case r of
          Node B (x, c) C \<Rightarrow>
            if c = - 1 then (rot2 l y B x C, False)
            else if c = 0 then (Node (Node l (y, 1) B) (x, - 1) C, True)
            else (Node (Node l (y, 0) B) (x, 0) C, False)
        | Leaf \<Rightarrow> (Leaf, False)))"

lemma lower_right_avl:
  assumes "avl l" "avl r" "b = int (Suc (height r)) - int (height l)" "- 1 \<le> b" "b \<le> 1"
  shows "\<exists>t stop. lower_right l y b r = (t, stop) \<and> avl t \<and> addrs t = addrs l @ y # addrs r \<and>
    Suc (max (height l) (Suc (height r))) = (if stop then height t else Suc (height t))"
proof (cases "b = - 1")
  case True
  then obtain A x c B where l: "l = Node A (x, c) B" using assms by (cases l rule: addrs.cases) auto
  have "c = - 1 \<or> c = 0 \<or> c = 1" using avl_balance_cases assms(1) l by blast
  then show ?thesis using l True assms rot2_avl [of A B r x y] by (elim disjE) (auto simp: lower_right_def)
qed (use assms in \<open>auto simp: lower_right_def\<close>)

lemma lower_left_avl:
  assumes "avl l" "avl r" "b = int (height r) - int (Suc (height l))" "- 1 \<le> b" "b \<le> 1"
  shows "\<exists>t stop. lower_left l y b r = (t, stop) \<and> avl t \<and> addrs t = addrs l @ y # addrs r \<and>
    Suc (max (Suc (height l)) (height r)) = (if stop then height t else Suc (height t))"
proof (cases "b = 1")
  case True
  then obtain B x c C where r: "r = Node B (x, c) C" using assms by (cases r rule: addrs.cases) auto
  have "c = - 1 \<or> c = 0 \<or> c = 1" using avl_balance_cases assms(2) r by blast
  then show ?thesis
  proof (elim disjE)
    assume "c = - 1"
    then show ?thesis using r True assms rot2_avl [of l B C y x] by (simp add: lower_left_def) blast
  qed (use r True assms in \<open>simp_all add: lower_left_def, blast+\<close>)
qed (use assms in \<open>auto simp: lower_left_def\<close>)

fun shrink :: "ctx \<Rightarrow> shape \<Rightarrow> shape" where
  "shrink [] t = t"
| "shrink ((a, b, d, sib) # cs) t =
     (let (t', stop) = (if d then lower_right sib a b t else lower_left t a b sib)
      in if stop then plug t' cs else shrink cs t')"

lemma shrink_avl:
  assumes "avl t" and "avlc (Suc (height t)) cs"
  shows "avl (shrink cs t) \<and> addrs (shrink cs t) = addrs (plug t cs)"
  using assms
proof (induction cs t rule: shrink.induct)
  case (2 a b d sib cs t)
  obtain t' stop where t': "(if d then lower_right sib a b t else lower_left t a b sib) = (t', stop)" "avl t'"
    "addrs t' = (if d then addrs sib @ a # addrs t else addrs t @ a # addrs sib)"
    "Suc (max (Suc (height t)) (height sib)) = (if stop then height t' else Suc (height t'))"
    using lower_right_avl [of sib t b a] lower_left_avl [of t sib b a] 2(2,3)
    by (cases d) (auto simp: max.commute)
  then show ?case using 2(1) [OF t'(1) [symmetric] refl] 2(3) by (auto simp: avl_plug addrs_plug)
qed simp

lemma set_balance_rep:
  "rep h (Node l (y, b) r) p \<Longrightarrow> distinct (addrs (Node l (y, b) r)) \<Longrightarrow> w = word_of_int b' \<Longrightarrow>
   rep (set_balance y w h) (Node l (y, b') r) p"
  by (simp add: heap_reads)

lemma turned_up:
  assumes "turned t t' (set_balance y v h) (w, h1)" and "y \<in> set (addrs t)" and "up \<notin> set (addrs t)" "up \<notin> set (addrs t')"
  shows "rep (set_link up d w h1) t' (avl_link (set_link up d w h1 up) d) \<and> frame (set (addrs t)) up d h (set_link up d w h1)"
proof -
  have "set_balance y v h a = h a" if "a \<notin> set (addrs t)" for a using that assms(2) by (auto simp: set_balance_def)
  then show ?thesis using assms by (auto simp: turned_def frame_def heap_reads)
qed

definition lowered :: "shape \<Rightarrow> addr \<Rightarrow> bool \<Rightarrow> avl_heap \<Rightarrow> shape \<times> bool \<Rightarrow> avl_heap \<times> bool \<Rightarrow> bool" where
  "lowered t up d h res res' \<longleftrightarrow> (case res of (t', stop) \<Rightarrow> case res' of (h', stop') \<Rightarrow>
     stop' = stop \<and> rep h' t' (avl_link (h' up) d) \<and> frame (set (addrs t)) up d h h')"

lemma shrunk_right_rep:
  assumes rep: "rep h (Node l (y, b) r) y" "distinct (addrs (Node l (y, b) r))" and l: "avl l" "avl r"
    and b: "b = int (Suc (height r)) - int (height l)" "- 1 \<le> b" "b \<le> 1"
    and up: "up \<notin> set (addrs (Node l (y, b) r))" "avl_link (h up) d = y"
  shows "lowered (Node l (y, b) r) up d h (lower_right l y b r) (shrunk_right y up d h)"
proof -
  consider "b = 0" | "b = 1" | "b = - 1" using b(2,3) by linarith
  then show ?thesis
  proof cases
    case 3
    then obtain A x c B where l': "l = Node A (x, c) B" using b l by (cases l rule: addrs.cases) auto
    let ?h = "set_balance y (- 2) h"
    have r2: "rep ?h (Node l (y, - 2) r) y" using set_balance_rep [OF rep, of "- 2" "- 2"] by simp
    have xy: "x \<noteq> y" "y \<noteq> x" "up \<noteq> x" "up \<noteq> y" "x \<noteq> up" "y \<noteq> up" using rep(2) up(1) l' by auto
    consider "c = 1" | "c = 0 \<or> c = - 1" using avl_balance_cases l(1) l' by blast
    then show ?thesis
    proof cases
      case 1
      then obtain B1 w e B2 where B: "B = Node B1 (w, e) B2" using l l' by (cases B rule: addrs.cases) auto
      have e: "e = - 1 \<or> e = 0 \<or> e = 1" using l l' B by auto
      obtain v h1 where v: "double_left x y ?h = (v, h1)" by fastforce
      have t: "turned (Node l (y, - 2) r) (rot2 A x B y r) ?h (v, h1)"
        using double_left_turned [OF r2 [unfolded l' B] e] rep(2) l' B v by auto
      have "up \<notin> set (addrs (rot2 A x B y r))" using up(1) l' B by (auto simp: rot2_def)
      from turned_up [OF t _ _ this, of d] show ?thesis
        using up(1) l' 1 3 v rep(1) xy
        by (simp add: lowered_def lower_right_def shrunk_right_def Let_def heap_reads)
    next
      case 2
      then show ?thesis using rep r2 xy l' 3 up
        by (elim disjE) (auto simp: lowered_def lower_right_def shrunk_right_def Let_def heap_reads frame_def)
    qed
  qed (use rep up in \<open>auto simp: lowered_def lower_right_def shrunk_right_def Let_def heap_reads frame_def\<close>)
qed

lemma shrunk_left_rep:
  assumes rep: "rep h (Node l (y, b) r) y" "distinct (addrs (Node l (y, b) r))" and r: "avl l" "avl r"
    and b: "b = int (height r) - int (Suc (height l))" "- 1 \<le> b" "b \<le> 1"
    and up: "up \<notin> set (addrs (Node l (y, b) r))" "avl_link (h up) d = y"
  shows "lowered (Node l (y, b) r) up d h (lower_left l y b r) (shrunk_left y up d h)"
proof -
  consider "b = 0" | "b = - 1" | "b = 1" using b(2,3) by linarith
  then show ?thesis
  proof cases
    case 3
    then obtain B x c C where r': "r = Node B (x, c) C" using b r by (cases r rule: addrs.cases) auto
    let ?h = "set_balance y 2 h"
    have r2: "rep ?h (Node l (y, 2) r) y" using set_balance_rep [OF rep, of 2 2] by simp
    have xy: "x \<noteq> y" "y \<noteq> x" "up \<noteq> x" "up \<noteq> y" "x \<noteq> up" "y \<noteq> up" using rep(2) up(1) r' by auto
    consider "c = - 1" | "c = 0 \<or> c = 1" using avl_balance_cases r(2) r' by blast
    then show ?thesis
    proof cases
      case 1
      then obtain B1 w e B2 where B: "B = Node B1 (w, e) B2" using r r' by (cases B rule: addrs.cases) auto
      have e: "e = - 1 \<or> e = 0 \<or> e = 1" using r r' B by auto
      obtain v h1 where v: "double_right x y ?h = (v, h1)" by fastforce
      have t: "turned (Node l (y, 2) r) (rot2 l y B x C) ?h (v, h1)"
        using double_right_turned [OF r2 [unfolded r' B] e] rep(2) r' B v by auto
      have "up \<notin> set (addrs (rot2 l y B x C))" using up(1) r' B by (auto simp: rot2_def)
      from turned_up [OF t _ _ this, of d] show ?thesis
        using up(1) r' 1 3 v rep(1) xy
        by (simp add: lowered_def lower_left_def shrunk_left_def Let_def heap_reads)
    next
      case 2
      then show ?thesis using rep r2 xy r' 3 up
        by (elim disjE) (auto simp: lowered_def lower_left_def shrunk_left_def Let_def heap_reads frame_def)
    qed
  qed (use rep up in \<open>auto simp: lowered_def lower_left_def shrunk_left_def Let_def heap_reads frame_def\<close>)
qed

lemma frame_up:
  assumes "frame A p c h h'" and "frame B q d h' h''" and "A \<subseteq> B" and "p \<in> insert q B" and "p = q \<Longrightarrow> c = d"
  shows "frame B q d h h''"
  using assms unfolding frame_def by (auto; metis)

lemma frame_mono:
  assumes "frame A q d h h'" and "A \<subseteq> B" and "q \<notin> B"
  shows "frame B q d h h'"
  using assms by (auto simp: frame_def)

lemma frame_hold:
  assumes "frame A (hold tree cs) (hdir cs) h h'" and "A \<union> cset cs \<subseteq> B" and "tree \<notin> B"
  shows "frame B tree False h h'"
proof (cases cs rule: lft.cases)
  case 1
  then show ?thesis using assms frame_mono by simp
next
  case (2 a b d sib cs')
  then have "a \<in> B" using assms(2) by (cases d) auto
  then show ?thesis using assms 2 frame_trans_link [of A a d h h' B tree False] by simp
qed

lemma delete_balance_rep:
  assumes "repc h tree cs" and "rep h t (avl_link (h (hold tree cs)) (hdir cs))" and "distinct (tree # addrs (plug t cs))"
    and "avl t" and "avlc (Suc (height t)) cs" and "stacked pa da tree cs"
  shows "rep (delete_balance pa da (Suc (length cs)) h) (shrink cs t) (avl_link (delete_balance pa da (Suc (length cs)) h tree) False) \<and>
    frame (set (addrs (plug t cs))) tree False h (delete_balance pa da (Suc (length cs)) h)"
  using assms
proof (induction cs t arbitrary: h rule: shrink.induct)
  case (1 t)
  then show ?case by (simp add: frame_def)
next
  case (2 a b d sib cs t)
  let ?n = "if d then Node sib (a, b) t else Node t (a, b) sib" and ?up = "hold tree cs"
  let ?low = "if d then lower_right sib a b t else lower_left t a b sib"
  let ?shr = "if d then shrunk_right a ?up (hdir cs) h else shrunk_left a ?up (hdir cs) h"
  have n: "rep h ?n a" "avl_link (h ?up) (hdir cs) = a" "repc h tree cs" using 2(2,3) by auto
  have dist: "distinct (tree # lft cs @ addrs ?n @ rgt cs)" using 2(4) addrs_plug [of ?n cs] by simp
  have up: "?up \<notin> set (addrs ?n)" using hold_in [of tree cs] dist by (auto simp del: addrs.simps)
  have low: "lowered ?n ?up (hdir cs) h ?low ?shr"
    using shrunk_right_rep [of h sib a b t ?up "hdir cs"] shrunk_left_rep [of h t a b sib ?up "hdir cs"] n(1,2) up dist 2(5,6)
    by (cases d) (auto simp: max.commute)
  obtain t' stop h' where t': "?low = (t', stop)" "?shr = (h', stop)" "rep h' t' (avl_link (h' ?up) (hdir cs))"
    "frame (set (addrs ?n)) ?up (hdir cs) h h'"
    using low unfolding lowered_def by (auto split: prod.splits)
  have avl': "avl t'" "addrs t' = addrs ?n" "Suc (max (Suc (height t)) (height sib)) = (if stop then height t' else Suc (height t'))"
    using t'(1) lower_right_avl [of sib t b a] lower_left_avl [of t sib b a] 2(5,6) by (cases d; auto simp: max.commute)+
  have cs': "repc h' tree cs" using repc_frame [OF t'(4)] dist n(3) by (auto simp del: addrs.simps)
  have fr: "frame (set (addrs (plug ?n cs))) tree False h h'"
    by (rule frame_hold [OF t'(4)]) (use dist in \<open>auto simp: addrs_plug simp del: addrs.simps\<close>)
  have addr: "addrs (plug t' cs) = addrs (plug ?n cs)" using avl'(2) by (simp add: addrs_plug)
  have st: "stacked pa da tree cs" "pa (Suc (length cs)) = a" "da (Suc (length cs)) = d"
    "pa (length cs) = ?up" "da (length cs) = hdir cs" using 2(7) stacked_hold by auto
  have step: "delete_balance pa da (Suc (length ((a, b, d, sib) # cs))) h =
      (if stop then h' else delete_balance pa da (Suc (length cs)) h')"
    using t'(2) st(2-5) by (simp del: delete_balance.simps add: delete_balance.simps(2) [of pa da "Suc (length cs)"] split: if_splits)
  show ?case
  proof (cases stop)
    case True
    then show ?thesis using t'(1,3) cs' fr by (simp only: step) (simp add: rep_plug)
  next
    case False
    have "rep (delete_balance pa da (Suc (length cs)) h') (shrink cs t') (avl_link (delete_balance pa da (Suc (length cs)) h' tree) False) \<and>
        frame (set (addrs (plug t' cs))) tree False h' (delete_balance pa da (Suc (length cs)) h')"
      by (rule 2(1) [OF t'(1) [symmetric] refl False cs' t'(3)]) (use 2(4,6) addr avl' False st(1) in auto)
    then show ?thesis using False t'(1) fr addr frame_up [OF fr, of "set (addrs (plug ?n cs))" tree False]
      by (simp only: step) (simp del: delete_balance.simps)
  qed
qed

section \<open>The successor\<close>

lemma plug_append: "plug t (ds @ cs) = plug (plug t ds) cs"
  by (induction t ds rule: plug.induct) auto

lemma lft_append [simp]: "lft (ds @ cs) = lft cs @ lft ds" and rgt_append [simp]: "rgt (ds @ cs) = rgt ds @ rgt cs"
  by (induction ds rule: lft.induct) auto

text \<open>The part of the stack from \<^term>\<open>k\<close> on.\<close>

fun segment :: "(nat \<Rightarrow> addr) \<Rightarrow> (nat \<Rightarrow> bool) \<Rightarrow> nat \<Rightarrow> ctx \<Rightarrow> bool" where
  "segment pa da k [] = True"
| "segment pa da k ((a, b, d, sib) # cs) \<longleftrightarrow> pa (k + length cs) = a \<and> da (k + length cs) = d \<and> segment pa da k cs"

lemma stacked_append: "stacked pa da tree (ds @ cs) \<longleftrightarrow> segment pa da (Suc (length cs)) ds \<and> stacked pa da tree cs"
  by (induction ds rule: lft.induct) (auto simp: ac_simps)

lemma segment_upd [simp]:
  "k + length ds \<le> j \<or> j < k \<Longrightarrow> segment (pa(j := p)) da k ds \<longleftrightarrow> segment pa da k ds"
  "k + length ds \<le> j \<or> j < k \<Longrightarrow> segment pa (da(j := d)) k ds \<longleftrightarrow> segment pa da k ds"
  by (induction pa da k ds rule: segment.induct) auto

lemma stacked_cong: "\<forall>i \<le> length cs. pa' i = pa i \<and> da' i = da i \<Longrightarrow> stacked pa' da' tree cs \<longleftrightarrow> stacked pa da tree cs"
  by (induction pa da tree cs rule: stacked.induct) auto

lemma successor_loop_spine:
  assumes "rep h (Node l (a, b) r) a" and "l \<noteq> Leaf" and "segment pa da k ds0" and "lft ds0 = []"
    and "k + length ds0 + height l \<le> 32"
  shows "\<exists>x s pa' da' ds e sr. successor_loop h a pa da (k + length ds0) = Some (x, s, pa', da', k + length ds) \<and>
    plug (Node Leaf (s, e) sr) ds = plug (Node l (a, b) r) ds0 \<and> ds \<noteq> [] \<and> hold x ds = x \<and> \<not> hdir ds \<and>
    lft ds = [] \<and> segment pa' da' k ds \<and> (\<forall>i < k. pa' i = pa i \<and> da' i = da i)"
  using assms
proof (induction l arbitrary: a b r pa da ds0 rule: addrs.induct)
  case (2 ll x e lr)
  let ?pa = "pa(k + length ds0 := a)" and ?da = "da(k + length ds0 := False)" and ?ds = "(a, b, False, r) # ds0"
  have k: "k + length ds0 < 32" using 2(7) by simp
  have link: "avl_link (h a) False = x" "avl_link (h x) False = 0 \<longleftrightarrow> ll = Leaf"
    using 2(3) rep_root [of h ll "avl_link (h x) False"] by auto
  have seg: "segment ?pa ?da k ?ds" using 2(5) by simp
  show ?case
  proof (cases "ll = Leaf")
    case True
    have "successor_loop h a pa da (k + length ds0) = Some (a, x, ?pa, ?da, k + length ?ds)"
      using k link True by (subst successor_loop.simps) simp
    moreover have "plug (Node Leaf (x, e) lr) ?ds = plug (Node (Node ll (x, e) lr) (a, b) r) ds0"
      "?ds \<noteq> []" "hold a ?ds = a" "\<not> hdir ?ds" "lft ?ds = []" "\<forall>i < k. ?pa i = pa i \<and> ?da i = da i"
      using True 2(6) by simp_all
    ultimately show ?thesis using seg by blast
  next
    case False
    have "successor_loop h a pa da (k + length ds0) = successor_loop h x ?pa ?da (k + length ?ds)"
      using k link False by (subst successor_loop.simps) simp
    moreover have "\<exists>y s pa' da' ds e' sr. successor_loop h x ?pa ?da (k + length ?ds) = Some (y, s, pa', da', k + length ds) \<and>
        plug (Node Leaf (s, e') sr) ds = plug (Node ll (x, e) lr) ?ds \<and> ds \<noteq> [] \<and> hold y ds = y \<and> \<not> hdir ds \<and>
        lft ds = [] \<and> segment pa' da' k ds \<and> (\<forall>i < k. pa' i = ?pa i \<and> da' i = ?da i)"
      by (rule 2(1)) (use 2(3,6,7) False seg link(1) in \<open>auto simp del: fun_upd_apply\<close>)
    ultimately show ?thesis by auto
  qed
qed simp

section \<open>Taking the node out\<close>

lemma repc_mid:
  assumes "repc h tree (ds @ (p, b, True, l) # cs)" and "repc h' tree ((s, b, True, l) # cs)" and "ds \<noteq> []"
    and "avl_link (h' s) True = avl_link (h p) True" and "\<forall>a \<in> cset ds. h' a = h a"
  shows "repc h' tree (ds @ (s, b, True, l) # cs)"
  using assms(1,3,5)
proof (induction ds rule: lft.induct)
  case (2 a c d sib ds)
  have sib: "rep h' sib q = rep h sib q" for q
    by (rule rep_frame) (use 2(5) in \<open>cases d; simp\<close>)
  note ih = 2(1,2) and rc = 2(3)
  have in_cs: "a \<in> cset ((a, c, d, sib) # ds)" "cset ds \<subseteq> cset ((a, c, d, sib) # ds)" by (cases d; auto)+
  then have a: "h' a = h a" "\<forall>a \<in> cset ds. h' a = h a" using 2(5) by blast+
  show ?case
  proof (cases ds rule: lft.cases)
    case 1
    then show ?thesis using rc sib a assms(2,4) by auto
  next
    case (2 a' b' d' sib' ds')
    then have "a' \<in> cset ds" by simp
    then show ?thesis using 2 rc ih sib a by (cases d) auto
  qed
qed simp

lemma repc_mid_hold:
  assumes "repc h tree (ds @ (p, b, True, l) # cs)" and "repc h' tree ((s, b, True, l) # cs)" and "ds \<noteq> []"
    and "avl_link (h' s) True = avl_link (h p) True" and "frame A (hold tree ds) (hdir ds) h h'"
    and "A \<inter> cset ds = {}" and "distinct (lft ds @ rgt ds)"
  shows "repc h' tree (ds @ (s, b, True, l) # cs)"
proof (cases ds rule: lft.cases)
  case (2 a c d sib ds')
  have a: "a \<notin> A" "a \<notin> set (addrs sib)" "a \<notin> cset ds'" using assms(6,7) 2 by (auto split: if_splits)
  have sib: "rep h' sib q = rep h sib q" for q
    by (rule rep_frame) (use assms(5,6) a 2 in \<open>auto simp: frame_def split: if_splits\<close>)
  have ds': "\<forall>c \<in> cset ds'. h' c = h c" using assms(5,6) a 2 by (auto simp: frame_def split: if_splits)
  have bal: "avl_balance (h' a) = avl_balance (h a)" "avl_link (h' a) (\<not> d) = avl_link (h a) (\<not> d)"
    using assms(5) a 2 by (auto simp: frame_def)
  show ?thesis
  proof (cases ds' rule: lft.cases)
    case 1
    then show ?thesis using assms(1,2,4) bal sib 2 by simp
  next
    case (2 a' b' d' sib' ds'')
    then have "a' \<in> cset ds'" by simp
    moreover have "repc h' tree (ds' @ (s, b, True, l) # cs)"
      by (rule repc_mid [OF _ assms(2) _ assms(4) ds']) (use assms(1) \<open>ds = (a, c, d, sib) # ds'\<close> 2 in auto)
    ultimately show ?thesis using assms(1) bal sib ds' \<open>ds = (a, c, d, sib) # ds'\<close> 2 by auto
  qed
qed (use assms in simp)

definition unlinked :: "avl_heap \<Rightarrow> addr \<Rightarrow> shape \<Rightarrow> addr \<Rightarrow> shape \<Rightarrow> ctx \<Rightarrow>
    (avl_heap \<times> (nat \<Rightarrow> addr) \<times> (nat \<Rightarrow> bool) \<times> nat) option \<Rightarrow> bool" where
  "unlinked h tree l p r cs res \<longleftrightarrow> (\<exists>h' pa da cs' t. res = Some (h', pa, da, Suc (length cs')) \<and>
     repc h' tree cs' \<and> rep h' t (avl_link (h' (hold tree cs')) (hdir cs')) \<and> stacked pa da tree cs' \<and>
     avl t \<and> avlc (Suc (height t)) cs' \<and> addrs (plug t cs') = lft cs @ addrs l @ addrs r @ rgt cs \<and>
     frame (insert p (set (addrs (plug t cs')))) tree False h h')"

lemma unlinkedI:
  assumes "res = Some (h', pa, da, Suc (length cs'))" and "repc h' tree cs'"
    and "rep h' t (avl_link (h' (hold tree cs')) (hdir cs'))" and "stacked pa da tree cs'" and "avl t"
    and "avlc (Suc (height t)) cs'" and "addrs (plug t cs') = lft cs @ addrs l @ addrs r @ rgt cs"
    and "frame (insert p (set (addrs (plug t cs')))) tree False h h'"
  shows "unlinked h tree l p r cs res"
  using assms unfolding unlinked_def by blast

lemma set_link_frame: "frame A q d h (set_link q d v h)"
  by (cases d) (auto simp: frame_def heap_reads)

lemma unlink_no_right:
  assumes c: "repc h tree cs" "rep h (Node l (p, b) Leaf) (avl_link (h (hold tree cs)) (hdir cs))" "stacked pa da tree cs"
    and d: "distinct (tree # addrs (plug (Node l (p, b) Leaf) cs))" and a: "avl (plug (Node l (p, b) Leaf) cs)"
  shows "unlinked h tree l p Leaf cs (delete_unlink p pa da (Suc (length cs)) h)"
proof -
  let ?h = "set_link (hold tree cs) (hdir cs) (avl_link (h p) False) h"
  have dist: "distinct (tree # lft cs @ addrs l @ p # rgt cs)" using d by (simp add: addrs_plug)
  have up: "hold tree cs \<notin> set (addrs l)" using hold_in [of tree cs] dist by auto
  show ?thesis
  proof (rule unlinkedI [where h' = ?h and pa = pa and da = da and cs' = cs and t = l])
    show "delete_unlink p pa da (Suc (length cs)) h = Some (?h, pa, da, Suc (length cs))"
      using c(2) stacked_hold [OF c(3)] by (simp add: delete_unlink_def)
    show "repc ?h tree cs"
      using repc_frame [OF set_link_frame, of "{}" tree cs] c(1) dist by auto
    show "rep ?h l (avl_link (?h (hold tree cs)) (hdir cs))" using c(2) up by (simp add: heap_reads)
    show "avl l" "avlc (Suc (height l)) cs" using a by (simp_all add: avl_plug max_absorb1)
    show "frame (insert p (set (addrs (plug l cs)))) tree False h ?h"
      by (rule frame_hold [OF set_link_frame [of "{}"]]) (use dist in \<open>auto simp: addrs_plug\<close>)
  qed (simp_all add: addrs_plug c(3))
qed

lemma unlink_right_child:
  assumes c: "repc h tree cs" "rep h (Node l (p, b) (Node Leaf (r, e) rr)) (avl_link (h (hold tree cs)) (hdir cs))"
    "stacked pa da tree cs" and d: "distinct (tree # addrs (plug (Node l (p, b) (Node Leaf (r, e) rr)) cs))"
    and a: "avl (plug (Node l (p, b) (Node Leaf (r, e) rr)) cs)" and k: "Suc (length cs) < 32"
  shows "unlinked h tree l p (Node Leaf (r, e) rr) cs (delete_unlink p pa da (Suc (length cs)) h)"
proof -
  let ?h1 = "set_balance r (avl_balance (h p)) (set_link r False (avl_link (h p) False) h)"
  let ?h = "set_link (hold tree cs) (hdir cs) r ?h1"
  let ?cs = "(r, b, True, l) # cs" and ?pa = "pa(Suc (length cs) := r)" and ?da = "da(Suc (length cs) := True)"
  have dist: "distinct (tree # lft cs @ addrs l @ p # r # addrs rr @ rgt cs)" using d by (simp add: addrs_plug)
  then have n: "p \<noteq> r" "r \<noteq> p" by auto
  have up: "hold tree cs \<notin> set (addrs l)" "hold tree cs \<notin> set (addrs rr)" "hold tree cs \<noteq> r" "hold tree cs \<noteq> p" "r \<noteq> hold tree cs"
    using hold_in [of tree cs] dist by auto
  have f: "frame {r} (hold tree cs) (hdir cs) h ?h" by (cases "hdir cs") (auto simp: frame_def heap_reads)
  show ?thesis
  proof (rule unlinkedI [where h' = ?h and pa = ?pa and da = ?da and cs' = ?cs and t = rr])
    show "delete_unlink p pa da (Suc (length cs)) h = Some (?h, ?pa, ?da, Suc (length ?cs))"
      using c(2) stacked_hold [OF c(3)] k n by (simp add: delete_unlink_def Let_def heap_reads)
    have "repc ?h tree cs" using repc_frame [OF f] c(1) dist by auto
    then show "repc ?h tree ?cs" using c(2) up dist n by (simp add: heap_reads)
    show "rep ?h rr (avl_link (?h (hold tree ?cs)) (hdir ?cs))" using c(2) up dist n by (simp add: heap_reads)
    show "stacked ?pa ?da tree ?cs" using c(3) by simp
    show "avl rr" "avlc (Suc (height rr)) ?cs" using a by (simp_all add: avl_plug max.commute)
    show "frame (insert p (set (addrs (plug rr ?cs)))) tree False h ?h"
      by (rule frame_hold [OF f]) (use dist in \<open>auto simp: addrs_plug\<close>)
    show "addrs (plug rr ?cs) = lft cs @ addrs l @ addrs (Node Leaf (r, e) rr) @ rgt cs"  by (simp add: addrs_plug)
  qed
qed

lemma avlc_append: "avlc n (ds @ cs) \<longleftrightarrow> avlc n ds \<and> avlc (fold (\<lambda>(a, b, d, sib) n. Suc (max n (height sib))) ds n) cs"
  by (induction n ds rule: avlc.induct) auto

lemma avlc_rename: "avlc n (ds @ (s, b, d, l) # cs) \<longleftrightarrow> avlc n (ds @ (p, b, d, l) # cs)"
  by (simp add: avlc_append)

lemma hold_append: "ds \<noteq> [] \<Longrightarrow> hold tree (ds @ cs) = hold tree' ds \<and> hdir (ds @ cs) = hdir ds"
  by (cases ds rule: lft.cases) auto

lemma unlink_successor:
  assumes c: "repc h tree cs" "rep h (Node l (p, b) r) (avl_link (h (hold tree cs)) (hdir cs))" "stacked pa da tree cs"
    and d: "distinct (tree # addrs (plug (Node l (p, b) r) cs))" and a: "avl (plug (Node l (p, b) r) cs)"
    and k: "Suc (length cs) + height r \<le> 32" and r: "r = Node rl (r0, rb) rr" "rl \<noteq> Leaf"
  shows "unlinked h tree l p r cs (delete_unlink p pa da (Suc (length cs)) h)"
proof -
  let ?k = "Suc (length cs)" and ?up = "hold tree cs"
  have link: "avl_link (h p) True = r0" "r0 \<noteq> 0" "avl_link (h r0) False \<noteq> 0" and rep0: "rep h (Node rl (r0, rb) rr) r0"
    using c(2) r rep_root [of h rl "avl_link (h r0) False"] by auto
  have kk: "Suc ?k + length [] + height rl \<le> 32" using k r(1) by simp
  obtain x s pa' da' ds e sr where sl: "successor_loop h r0 pa da (Suc ?k) = Some (x, s, pa', da', Suc ?k + length ds)"
    and pl: "plug (Node Leaf (s, e) sr) ds = r" and ds: "ds \<noteq> []" "hold x ds = x" "\<not> hdir ds" "lft ds = []"
    and seg: "segment pa' da' (Suc ?k) ds" and low: "\<forall>i < Suc ?k. pa' i = pa i \<and> da' i = da i"
    using successor_loop_spine [OF rep0 r(2) _ _ kk, of pa da] r(1) by auto
  let ?h1 = "set_link x False (avl_link (h s) True) (set_link s False (avl_link (h p) False) h)"
  let ?h2 = "set_balance s (avl_balance (h p)) (set_link s True (avl_link (h p) True) ?h1)"
  let ?h = "set_link ?up (hdir cs) s ?h2"
  let ?cs = "ds @ (s, b, True, l) # cs" and ?ocs = "ds @ (p, b, True, l) # cs"
  have old: "plug (Node Leaf (s, e) sr) ?ocs = plug (Node l (p, b) r) cs" using pl by (simp add: plug_append)
  have ar: "addrs r = s # addrs sr @ rgt ds" using pl ds(4) by (simp add: addrs_plug flip: pl)
  have dist: "distinct (tree # lft cs @ addrs l @ p # s # addrs sr @ rgt ds @ rgt cs)" using d ar by (simp add: addrs_plug)
  have x: "x \<in> set (rgt ds)" using ds by (cases ds rule: lft.cases) auto
  have hx: "hold tree ds = x" using hold_append [OF ds(1), of x "[]" tree] ds(2) by simp
  have n: "p \<noteq> s" "s \<noteq> p" "x \<noteq> s" "s \<noteq> x" "x \<noteq> p" "p \<noteq> x" using dist x by auto
  have up: "?up \<notin> set (addrs l) \<union> set (addrs sr) \<union> set (rgt ds) \<union> {p, s, x}" using hold_in [of tree cs] dist x by auto
  have f: "frame {s, x} ?up (hdir cs) h ?h" using up by (cases "hdir cs") (auto simp: frame_def heap_reads)
  have f': "frame {s, ?up} (hold tree ds) (hdir ds) h ?h" using n up hx ds(3) by (simp add: frame_def heap_reads)
  have orep: "repc h tree ?ocs" "rep h (Node Leaf (s, e) sr) (avl_link (h x) False)"
    using c(1,2) rep_plug [of h "Node Leaf (s, e) sr" ?ocs tree] rep_plug [of h "Node l (p, b) r" cs tree] old
      hold_append [OF ds(1), of tree "(p, b, True, l) # cs" x] ds by auto
  have rcs: "repc ?h tree cs" using repc_frame [OF f] c(1) dist x by auto
  have xl: "x \<notin> set (addrs l)" "s \<notin> set (addrs l)" "x \<notin> set (addrs sr)" "s \<notin> set (addrs sr)"
    "?up \<notin> set (addrs l)" "?up \<notin> set (addrs sr)" "?up \<noteq> s" "?up \<noteq> x" "s \<noteq> ?up" "x \<noteq> ?up"
    using dist x up by auto
  have "rep ?h l (avl_link (?h s) False)"
    using c(2) n xl by (simp add: heap_reads)
  then have rs: "repc ?h tree ((s, b, True, l) # cs)"
    using rcs c(2) xl n orep(2) by (simp add: heap_reads)
  show ?thesis
  proof (rule unlinkedI [where h' = ?h and pa = "pa'(?k := s)" and da = "da'(?k := True)" and cs' = ?cs and t = sr])
    show "delete_unlink p pa da ?k h = Some (?h, pa'(?k := s), da'(?k := True), Suc (length ?cs))"
      using sl link stacked_hold [OF c(3)] low n by (simp add: delete_unlink_def Let_def heap_reads ac_simps)
    show "repc ?h tree ?cs"
      by (rule repc_mid_hold [OF orep(1) rs ds(1) _ f'])
        (use up n dist ds(3,4) hx in \<open>auto simp: heap_reads\<close>)
    show "rep ?h sr (avl_link (?h (hold tree ?cs)) (hdir ?cs))"
      using orep(2) n xl hold_append [OF ds(1), of tree "(s, b, True, l) # cs" x] ds(2,3) by (simp add: heap_reads)
    show "stacked (pa'(?k := s)) (da'(?k := True)) tree ?cs"
      using seg c(3) low stacked_cong [of cs pa' pa da' da tree] by (simp add: stacked_append)
    have "avl sr \<and> avlc (height (Node Leaf (s, e) sr)) ?ocs" using a avl_plug [of "Node Leaf (s, e) sr" ?ocs] old by simp
    then show "avl sr" "avlc (Suc (height sr)) ?cs" using avlc_rename [of "Suc (height sr)" ds s b True l cs p] by simp_all
    show "frame (insert p (set (addrs (plug sr ?cs)))) tree False h ?h"
      by (rule frame_hold [OF f]) (use dist x ds(4) in \<open>auto simp: addrs_plug\<close>)
    show "addrs (plug sr ?cs) = lft cs @ addrs l @ addrs r @ rgt cs" using ar ds(4) by (simp add: addrs_plug)
  qed
qed

lemma delete_unlink_unlinked:
  assumes "repc h tree cs" "rep h (Node l (p, b) r) (avl_link (h (hold tree cs)) (hdir cs))" "stacked pa da tree cs"
    and "distinct (tree # addrs (plug (Node l (p, b) r) cs))" and "avl (plug (Node l (p, b) r) cs)"
    and "Suc (length cs) + height r \<le> 32"
  shows "unlinked h tree l p r cs (delete_unlink p pa da (Suc (length cs)) h)"
proof (cases r rule: addrs.cases)
  case 1
  show ?thesis unfolding 1 by (rule unlink_no_right [OF assms(1-5) [unfolded 1]])
next
  case (2 rl r0 rb rr)
  show ?thesis
  proof (cases "rl = Leaf")
    case True
    have "Suc (length cs) < 32" using assms(6) 2 by simp
    then show ?thesis unfolding 2 True by (rule unlink_right_child [OF assms(1-5) [unfolded 2 True]])
  next
    case False
    with 2 show ?thesis using assms by (intro unlink_successor)
  qed
qed

section \<open>The search\<close>

lemma delete_find_hit:
  assumes "orders cmp key" and "rep h t p" and "ordered key h t" and "stacked pa da tree cs"
    and "length cs + height t \<le> 31" and "c \<in> set (addrs t)" and "node_key key h c = key x"
  shows "\<exists>l b r cs' pa' da'. delete_find cmp x h p (cmp x (avl_data (h p))) pa da (Suc (length cs)) =
      Some (Some (c, pa', da', Suc (length cs'))) \<and> plug (Node l (c, b) r) cs' = plug t cs \<and> stacked pa' da' tree cs'"
  using assms(2-7)
proof (induction t arbitrary: p cs pa da rule: addrs.induct)
  case (2 l a b r)
  then have a: "p = a" "a \<noteq> 0" "Suc (length cs) < 32" by auto
  let ?d = "node_key key h a < key x"
  let ?c = "if ?d then r else l" and ?s = "if ?d then l else r"
  show ?case
  proof (cases "c = a")
    case True
    then have "cmp x (avl_data (h a)) = 0" using orders_zero [OF assms(1)] 2(8) by (simp add: node_key_def)
    then have "delete_find cmp x h p (cmp x (avl_data (h p))) pa da (Suc (length cs)) = Some (Some (a, pa, da, Suc (length cs)))"
      using a(1) by (subst delete_find.simps) simp
    then show ?thesis using True 2(5) by blast
  next
    case False
    let ?q = "avl_link (h a) ?d" and ?cs = "(a, b, ?d, ?s) # cs"
    let ?pa = "pa(Suc (length cs) := a)" and ?da = "da(Suc (length cs) := ?d)"
    have c: "c \<in> set (addrs ?c)" "rep h ?c ?q" "node_key key h a \<noteq> key x" using 2(3,4,7,8) False by auto
    then have q: "?q \<noteq> 0" using rep_root [OF c(2)] by auto
    have "delete_find cmp x h p (cmp x (avl_data (h p))) pa da (Suc (length cs)) =
        delete_find cmp x h ?q (cmp x (avl_data (h ?q))) ?pa ?da (Suc (length ?cs))"
      using a q c(3) orders_zero [OF assms(1), of x "avl_data (h a)"] orders_greater [OF assms(1), of x "avl_data (h a)"]
      by (subst delete_find.simps) (simp add: node_key_def Let_def)
    moreover have "\<exists>l b r cs' pa' da'. delete_find cmp x h ?q (cmp x (avl_data (h ?q))) ?pa ?da (Suc (length ?cs)) =
        Some (Some (c, pa', da', Suc (length cs'))) \<and> plug (Node l (c, b) r) cs' = plug ?c ?cs \<and> stacked pa' da' tree cs'"
    proof (cases ?d)
      case True
      then show ?thesis using 2(2) [of ?q ?pa ?da ?cs] c 2(4-6,8) by (simp del: fun_upd_apply add: fun_upd_same)
    next
      case False
      then show ?thesis using 2(1) [of ?q ?pa ?da ?cs] c 2(4-6,8) by (simp del: fun_upd_apply add: fun_upd_same)
    qed
    moreover have "plug ?c ?cs = plug (Node l (a, b) r) cs" by simp
    ultimately show ?thesis by simp
  qed
qed simp

lemma delete_find_miss:
  assumes "orders cmp key" and "rep h t p" and "k + height t \<le> 32" and "t \<noteq> Leaf"
    and "\<forall>c \<in> set (addrs t). node_key key h c \<noteq> key x"
  shows "delete_find cmp x h p (cmp x (avl_data (h p))) pa da k = Some None"
  using assms(2-5)
proof (induction t arbitrary: p k pa da rule: addrs.induct)
  case (2 l a b r)
  let ?d = "node_key key h a < key x"
  let ?c = "if ?d then r else l" and ?q = "avl_link (h a) ?d"
  have c: "rep h ?c ?q" "cmp x (avl_data (h a)) \<noteq> 0" "(0 <s cmp x (avl_data (h a))) = ?d" "p = a" "k < 32"
    using 2(3,4,6) orders_zero [OF assms(1), of x "avl_data (h a)"] orders_greater [OF assms(1), of x "avl_data (h a)"]
    by (auto simp: node_key_def)
  show ?case
  proof (cases "?c = Leaf")
    case True
    then show ?thesis using c rep_root [OF c(1)] by (subst delete_find.simps) (simp add: Let_def)
  next
    case False
    then have "delete_find cmp x h p (cmp x (avl_data (h p))) pa da k =
        delete_find cmp x h ?q (cmp x (avl_data (h ?q))) (pa(k := a)) (da(k := ?d)) (Suc k)"
      using c rep_root [OF c(1)] by (subst delete_find.simps) (simp add: Let_def)
    moreover have "delete_find cmp x h ?q (cmp x (avl_data (h ?q))) (pa(k := a)) (da(k := ?d)) (Suc k) = Some None"
      using 2(1,2) [of ?q "Suc k"] c(1) 2(4,6) False by (auto simp del: fun_upd_apply split: if_splits)
    ultimately show ?thesis by simp
  qed
qed simp

section \<open>Deletion\<close>

lemma height_plug: "length cs + height t \<le> height (plug t cs)"
  by (induction t cs rule: plug.induct) (auto simp: le_max_iff_disj intro: order_trans [rotated])

lemma delete_find_start:
  "avl_root tree s \<noteq> 0 \<Longrightarrow> delete_find cmp x (avl_nodes s) tree (- 1) (\<lambda>_. 0) (\<lambda>_. False) 0 =
   delete_find cmp x (avl_nodes s) (avl_root tree s) (cmp x (avl_data (avl_nodes s (avl_root tree s)))) ((\<lambda>_. 0)(0 := tree)) (\<lambda>_. False) 1"
  by (subst delete_find.simps) (simp add: avl_root_def Let_def fun_upd_idem)

lemma avl_delete_hit:
  assumes cmp: "orders cmp key" and ok: "avl_ok key tree t s" and "size t < 5702886" and c: "c \<in> set (addrs t)"
    and x: "node_key key (avl_nodes s) c = key x"
  obtains t' s' where "avl_delete cmp tree x s = Some (c, s')" "avl_ok key tree t' s'"
    "set (addrs t') = set (addrs t) - {c}" "frame (set (addrs t)) tree False (avl_nodes s) (avl_nodes s')"
proof -
  let ?h = "avl_nodes s"
  note o = ok [unfolded avl_ok_def]
  have ht: "height t \<le> 31" using avl_height31 o assms(3) by blast
  have root: "avl_root tree s \<noteq> 0" using c rep_root o by fastforce
  obtain l b r cs pa da where df: "delete_find cmp x ?h tree (- 1) (\<lambda>_. 0) (\<lambda>_. False) 0 = Some (Some (c, pa, da, Suc (length cs)))"
    and t: "plug (Node l (c, b) r) cs = t" and st: "stacked pa da tree cs"
    using delete_find_hit [OF cmp, of ?h t "avl_root tree s" "(\<lambda>_. 0)(0 := tree)" "\<lambda>_. False" tree "[]" c x] o c x ht
      delete_find_start [OF root, of cmp x] by auto
  have rp: "repc ?h tree cs" "rep ?h (Node l (c, b) r) (avl_link (?h (hold tree cs)) (hdir cs))"
    using rep_plug [of ?h "Node l (c, b) r" cs tree] o t by (auto simp: avl_root_def)
  have "Suc (length cs) + height r \<le> 32" using height_plug [of cs "Node l (c, b) r"] ht t by simp
  then obtain h1 pa1 da1 cs1 t1 where u: "delete_unlink c pa da (Suc (length cs)) ?h = Some (h1, pa1, da1, Suc (length cs1))"
    "repc h1 tree cs1" "rep h1 t1 (avl_link (h1 (hold tree cs1)) (hdir cs1))" "stacked pa1 da1 tree cs1"
    "avl t1" "avlc (Suc (height t1)) cs1" "addrs (plug t1 cs1) = lft cs @ addrs l @ addrs r @ rgt cs"
    "frame (insert c (set (addrs (plug t1 cs1)))) tree False ?h h1"
    using delete_unlink_unlinked [OF rp st] o t unfolding unlinked_def by auto
  let ?h2 = "delete_balance pa1 da1 (Suc (length cs1)) h1" and ?t = "shrink cs1 t1"
  have at: "addrs t = lft cs @ addrs l @ c # addrs r @ rgt cs" using t by (auto simp: addrs_plug)
  have dist: "distinct (tree # addrs (plug t1 cs1))" using o at u(7) by auto
  have db: "rep ?h2 ?t (avl_link (?h2 tree) False)" "frame (set (addrs (plug t1 cs1))) tree False h1 ?h2"
    using delete_balance_rep [OF u(2,3) dist u(5,6,4)] by blast+
  have sh: "avl ?t" "addrs ?t = lft cs @ addrs l @ addrs r @ rgt cs" using shrink_avl [OF u(5,6)] u(7) by auto
  have sets: "set (addrs t) = insert c (set (addrs (plug t1 cs1)))" using at u(7) by auto
  have f: "frame (set (addrs t)) tree False ?h ?h2"
    using u(8) db(2) o sets unfolding frame_def by auto
  then have key: "node_key key ?h2 = node_key key ?h" by (auto simp: frame_def node_key_def)
  let ?s = "s\<lparr>avl_nodes := ?h2, avl_count := avl_count s - 1, avl_generation := avl_generation s + 1\<rparr>"
  have "size t = Suc (size ?t)" using length_addrs [of t] length_addrs [of ?t] at sh(2) by simp
  moreover have "ordered key ?h ?t" using o at sh(2) by (auto simp: ordered_def sorted_wrt_append)
  ultimately have "avl_ok key tree ?t ?s"
    using o db(1) dist sh u(7) by (simp add: avl_ok_def avl_root_def ordered_def key del: delete_balance.simps)
  moreover have "avl_delete cmp tree x s = Some (c, ?s)" using df u(1) by (simp add: avl_delete_def del: delete_balance.simps)
  moreover have "set (addrs ?t) = set (addrs t) - {c}" using o at sh(2) by auto
  ultimately show thesis using that f by simp
qed

text \<open>C14: Deleting a key of a well-formed table returns its node, keeps order, balance and the counter,
  removes exactly that node, and changes no data and no node outside the table.\<close>

theorem avl_delete_removes:
  assumes "orders cmp key" and "avl_ok key tree t s" and "size t < 5702886" and "c \<in> set (addrs t)"
    and "key (avl_data (avl_nodes s c)) = key x"
  shows "\<exists>t' s'. avl_delete cmp tree x s = Some (c, s') \<and> avl_ok key tree t' s' \<and> set (addrs t') = set (addrs t) - {c} \<and>
    (\<forall>a. avl_data (avl_nodes s' a) = avl_data (avl_nodes s a)) \<and>
    (\<forall>a. a \<noteq> tree \<and> a \<notin> set (addrs t) \<longrightarrow> avl_nodes s' a = avl_nodes s a)"
proof -
  obtain t' s' where "avl_delete cmp tree x s = Some (c, s')" "avl_ok key tree t' s'"
    "set (addrs t') = set (addrs t) - {c}" "frame (set (addrs t)) tree False (avl_nodes s) (avl_nodes s')"
    using avl_delete_hit [OF assms(1-4)] assms(5) unfolding node_key_def .
  then show ?thesis by (intro exI [of _ t'] exI [of _ s']) (auto simp: frame_def)
qed

text \<open>C16: avl_delete returns what avl_find found; afterwards that key is not found and every other key as
  before, and without a match nothing changes.\<close>

theorem avl_find_after_delete:
  assumes "orders cmp key" and "avl_ok key tree t s" and "size t < 5702886"
  shows "\<exists>p s'. avl_delete cmp tree x s = Some (p, s') \<and> avl_find cmp tree x s = Some p \<and> (p = NULL \<longrightarrow> s' = s) \<and>
    avl_find cmp tree y s' = (if key y = key x then Some NULL else avl_find cmp tree y s)"
proof (cases "\<exists>c \<in> set (addrs t). node_key key (avl_nodes s) c = key x")
  case True
  then obtain c where c: "c \<in> set (addrs t)" "node_key key (avl_nodes s) c = key x" by blast
  obtain t' s' where s': "avl_delete cmp tree x s = Some (c, s')" "avl_ok key tree t' s'"
    "set (addrs t') = set (addrs t) - {c}" "frame (set (addrs t)) tree False (avl_nodes s) (avl_nodes s')"
    using avl_delete_hit [OF assms c] .
  have key: "node_key key (avl_nodes s') = node_key key (avl_nodes s)" using s'(4) by (auto simp: frame_def node_key_def)
  note hit = avl_find_hit [OF assms(1)] and miss = avl_find_miss [OF assms(1)]
  have one: "a = c" if "a \<in> set (addrs t)" "node_key key (avl_nodes s) a = key x" for a
    using hit [OF assms(2) that] hit [OF assms(2) c] by simp
  have "avl_find cmp tree y s' = (if key y = key x then Some NULL else avl_find cmp tree y s)"
  proof (cases "\<exists>a \<in> set (addrs t'). node_key key (avl_nodes s) a = key y")
    case True
    then obtain a where a: "a \<in> set (addrs t')" "node_key key (avl_nodes s) a = key y" by blast
    then show ?thesis using hit [OF s'(2), of a y] hit [OF assms(2), of a y] s'(3) one key by auto
  next
    case False
    then have "\<forall>a \<in> set (addrs t). node_key key (avl_nodes s) a \<noteq> key y" if "key y \<noteq> key x"
      using that s'(3) c(2) by force
    with False show ?thesis using miss [OF s'(2), of y] miss [OF assms(2), of y] key by auto
  qed
  moreover have "c \<noteq> 0" using c(1) rep_nonzero assms(2) by (auto simp: avl_ok_def)
  ultimately show ?thesis using s'(1) hit [OF assms(2) c] by auto
next
  case False
  note miss = avl_find_miss [OF assms(1,2)]
  have ht: "height t \<le> 31" using avl_height31 assms(2,3) by (auto simp: avl_ok_def)
  have "avl_delete cmp tree x s = Some (NULL, s)"
  proof (cases "t = Leaf")
    case True
    then show ?thesis using assms(2)
      by (simp add: avl_delete_def avl_ok_def avl_root_def delete_find.simps [of _ _ _ _ "- 1"] Let_def)
  next
    case t: False
    then have "avl_root tree s \<noteq> 0" using assms(2) rep_root by (auto simp: avl_ok_def)
    from delete_find_start [OF this, of cmp x] show ?thesis
      using delete_find_miss [OF assms(1), of "avl_nodes s" t "avl_root tree s" 1 x] assms(2) t ht False
      by (simp add: avl_delete_def avl_ok_def del: fun_upd_apply)
  qed
  moreover have "avl_find cmp tree x s = Some NULL" using miss False by blast
  moreover have "avl_find cmp tree y s = Some NULL" if "key y = key x" using miss [of y] False that by auto
  ultimately show ?thesis by auto
qed

theorem avl_delete_removes_witness:
  "\<exists>t' s'. avl_delete demo_cmp 16 7 demo_avl = Some (48, s') \<and> avl_ok (\<lambda>a. a) 16 t' s' \<and> set (addrs t') = {32}"
proof -
  have "(48 :: addr) \<in> set (addrs demo_shape)" by (simp add: demo_shape_def)
  from avl_delete_removes [OF demo_orders demo_avl_ok(1,2) this, of 7] show ?thesis
    by (auto simp: demo_avl_ok demo_shape_def insert_Diff_if)
qed

theorem avl_find_after_delete_witness:
  "\<exists>p s'. avl_delete demo_cmp 16 7 demo_avl = Some (p, s') \<and> avl_find demo_cmp 16 7 s' = Some NULL"
  using avl_find_after_delete [OF demo_orders demo_avl_ok(1,2), of 7 7] by auto

end
