(* ===== verification/IoPort.thy ===== *)
theory IoPort
  imports Prelude
begin

text \<open>
  Port input and output, and the interrupt controllers (\<^verbatim>\<open>kernel/8259a.c\<close>). The state holds what a read of
  each port returns and the writes in their order. What a write changes at the device is the parameter
  \<^verbatim>\<open>hw\<close>: from the port, the byte and the readable values to the new readable values. The code shifts \<^verbatim>\<open>1\<close> by
  a vector number above 31; the machine's shift takes the count modulo 32.
\<close>

section \<open>Ports\<close>

record ports =
  port_in :: "u16 \<Rightarrow> u8"
  port_out :: "(u16 \<times> u8) list"

type_synonym hardware = "u16 \<Rightarrow> u8 \<Rightarrow> (u16 \<Rightarrow> u8) \<Rightarrow> u16 \<Rightarrow> u8"

definition outb :: "hardware \<Rightarrow> u16 \<Rightarrow> u8 \<Rightarrow> 's ports_scheme \<Rightarrow> 's ports_scheme" where
  "outb hw p v s = s\<lparr>port_in := hw p v (port_in s), port_out := port_out s @ [(p, v)]\<rparr>"

definition inb :: "u16 \<Rightarrow> 's ports_scheme \<Rightarrow> u8" where
  "inb p s = port_in s p"

section \<open>The interrupt controllers\<close>

definition INT_M_CTL :: u16 where [code_defs]: "INT_M_CTL = 0x20"
definition INT_M_CTLMASK :: u16 where [code_defs]: "INT_M_CTLMASK = 0x21"
definition INT_S_CTL :: u16 where [code_defs]: "INT_S_CTL = 0xA0"
definition INT_S_CTLMASK :: u16 where [code_defs]: "INT_S_CTLMASK = 0xA1"
definition EOI :: u8 where [code_defs]: "EOI = 0x20"
definition INT_VECTOR_IRQ0 :: u8 where [code_defs]: "INT_VECTOR_IRQ0 = 0x20"
definition INT_VECTOR_IRQ8 :: u8 where [code_defs]: "INT_VECTOR_IRQ8 = 0x28"

definition eoi_m :: "hardware \<Rightarrow> 's ports_scheme \<Rightarrow> 's ports_scheme" where
  "eoi_m hw = outb hw INT_M_CTL EOI"

definition eoi_s :: "hardware \<Rightarrow> 's ports_scheme \<Rightarrow> 's ports_scheme" where
  "eoi_s hw = outb hw INT_S_CTL EOI"

definition init8259A :: "hardware \<Rightarrow> 's ports_scheme \<Rightarrow> 's ports_scheme" where
  "init8259A hw s =
     (let s = outb hw INT_M_CTL 0x11 s;
          s = outb hw INT_S_CTL 0x11 s;
          s = outb hw INT_M_CTLMASK INT_VECTOR_IRQ0 s;
          s = outb hw INT_S_CTLMASK INT_VECTOR_IRQ8 s;
          s = outb hw INT_M_CTLMASK 0x4 s;
          s = outb hw INT_S_CTLMASK 0x2 s;
          s = outb hw INT_M_CTLMASK 0x1 s;
          s = outb hw INT_S_CTLMASK 0x1 s;
          s = outb hw INT_M_CTLMASK 0x01 s
      in outb hw INT_S_CTLMASK 0x00 s)"

definition shl1 :: "u32 \<Rightarrow> u32" where
  "shl1 n = push_bit (unat (n mod 32)) 1"

definition i8259Asti :: "hardware \<Rightarrow> u8 \<Rightarrow> 's ports_scheme \<Rightarrow> 's ports_scheme" where
  "i8259Asti hw vector s =
     (if vector < INT_VECTOR_IRQ8
      then outb hw INT_M_CTLMASK (ucast (ucast (inb INT_M_CTLMASK s) AND NOT (shl1 (ucast vector)))) s
      else outb hw INT_S_CTLMASK (ucast (ucast (inb INT_M_CTLMASK s) AND NOT (shl1 (ucast vector - 8)))) s)"

definition i8259Acli :: "hardware \<Rightarrow> u8 \<Rightarrow> 's ports_scheme \<Rightarrow> 's ports_scheme" where
  "i8259Acli hw vector s =
     (if vector < INT_VECTOR_IRQ8
      then outb hw INT_M_CTLMASK (ucast (ucast (inb INT_M_CTLMASK s) OR shl1 (ucast vector))) s
      else outb hw INT_S_CTLMASK (ucast (ucast (inb INT_M_CTLMASK s) OR shl1 (ucast vector - 8))) s)"

section \<open>Masking\<close>

text \<open>
  The mask registers of the controllers, once initialised, hold what was written to them and change by no
  other write.
\<close>

definition holds_masks :: "hardware \<Rightarrow> bool" where
  "holds_masks hw \<longleftrightarrow> (\<forall>p v f. \<forall>q \<in> {INT_M_CTLMASK, INT_S_CTLMASK}. hw p v f q = (if q = p then v else f q))"

lemma shl1_bit: "n < 8 \<Longrightarrow> bit (shl1 (0x20 + of_nat n)) j \<longleftrightarrow> j = n"
proof -
  assume n: "n < 8"
  then have "unat ((0x20 + of_nat n :: u32) mod 32) = n"
    by (simp add: unat_mod unat_word_ariths unat_of_nat)
  then show ?thesis using n by (auto simp: shl1_def bit_simps)
qed

lemma below8: "n < 8 \<Longrightarrow> n = 0 \<or> n = 1 \<or> n = 2 \<or> n = 3 \<or> n = 4 \<or> n = 5 \<or> n = 6 \<or> n = (7 :: nat)"
  by linarith

lemma master_vector:
  "n < 8 \<Longrightarrow> (0x20 + of_nat n :: u8) < 0x28 \<and> (ucast (0x20 + of_nat n :: u8) :: u32) = 0x20 + of_nat n"
  by (drule below8) auto

lemma slave_vector:
  "n < 8 \<Longrightarrow> \<not> (0x28 + of_nat n :: u8) < 0x28 \<and> (ucast (0x28 + of_nat n :: u8) :: u32) - 8 = 0x20 + of_nat n"
  by (drule below8) auto

lemma bit_clear: "n < 8 \<Longrightarrow>
  bit (ucast (ucast (b :: u8) AND NOT (shl1 (0x20 + of_nat n))) :: u8) j \<longleftrightarrow> bit b j \<and> j \<noteq> n"
  by (auto simp: bit_simps shl1_bit dest: bit_imp_le_length)

lemma bit_mask: "n < 8 \<Longrightarrow>
  bit (ucast (ucast (b :: u8) OR shl1 (0x20 + of_nat n)) :: u8) j \<longleftrightarrow> bit b j \<or> j = n"
  by (auto simp: bit_simps shl1_bit dest: bit_imp_le_length)

text \<open>Unmasking a line of the first controller clears exactly its bit; unmasking one of the second
  controller overwrites its mask with that of the first.\<close>

theorem pic_unmask:
  assumes "holds_masks hw" and "n < 8"
  shows "(bit (inb INT_M_CTLMASK (i8259Asti hw (INT_VECTOR_IRQ0 + of_nat n) s)) j \<longleftrightarrow> bit (inb INT_M_CTLMASK s) j \<and> j \<noteq> n) \<and>
    inb INT_S_CTLMASK (i8259Asti hw (INT_VECTOR_IRQ0 + of_nat n) s) = inb INT_S_CTLMASK s \<and>
    (bit (inb INT_S_CTLMASK (i8259Asti hw (INT_VECTOR_IRQ8 + of_nat n) s)) j \<longleftrightarrow> bit (inb INT_M_CTLMASK s) j \<and> j \<noteq> n)"
  using assms(1) master_vector [OF assms(2)] slave_vector [OF assms(2)] bit_clear [OF assms(2), of "inb INT_M_CTLMASK s" j]
  by (simp add: i8259Asti_def outb_def inb_def holds_masks_def code_defs)

text \<open>Masking and unmasking a line of the first controller leaves the other lines as they were.\<close>

theorem pic_mask_unmask:
  assumes "holds_masks hw" and "n < 8"
  shows "bit (inb INT_M_CTLMASK (i8259Asti hw (INT_VECTOR_IRQ0 + of_nat n) (i8259Acli hw (INT_VECTOR_IRQ0 + of_nat n) s))) j \<longleftrightarrow>
    bit (inb INT_M_CTLMASK s) j \<and> j \<noteq> n"
  using assms(1) master_vector [OF assms(2)] bit_clear [OF assms(2)] bit_mask [OF assms(2), of "inb INT_M_CTLMASK s" j]
  by (auto simp: i8259Asti_def i8259Acli_def outb_def inb_def holds_masks_def code_defs)

definition latch :: hardware where
  "latch p v f = f(p := v)"

theorem pic_unmask_witness:
  "\<not> bit (inb INT_M_CTLMASK (i8259Asti latch 0x21 \<lparr>port_in = (\<lambda>_. 0xFF), port_out = []\<rparr>)) 1 \<and>
   bit (inb INT_S_CTLMASK (i8259Asti latch 0x29 \<lparr>port_in = (\<lambda>_. 0xFF), port_out = []\<rparr>)) 2"
  using pic_unmask [of latch 1 "\<lparr>port_in = (\<lambda>_. 0xFF), port_out = []\<rparr>" 1]
    pic_unmask [of latch 1 "\<lparr>port_in = (\<lambda>_. 0xFF), port_out = []\<rparr>" 2]
  by (simp add: holds_masks_def latch_def inb_def code_defs)

end
