(* ===== verification/Format.thy ===== *)
theory Format
  imports Stdlib
begin

text \<open>
  What \<^verbatim>\<open>vsprintf\<close> of \<^verbatim>\<open>lib/stdlib.c\<close> writes, against a reference: numbers in positional notation, a format as a list
  of conversions and its rendering as a function on lists. \<^verbatim>\<open>itoa\<close> and \<^verbatim>\<open>itox\<close> write the reference numbers, and
  \<^verbatim>\<open>vsprintf\<close> the rendering, whenever the format, the arguments and their strings lie outside the buffer.
\<close>

unbundle bit_operations_syntax

section \<open>Numbers\<close>

definition glyph :: "nat \<Rightarrow> u8" where
  "glyph d = of_nat (if d < 10 then 48 + d else 55 + d)"

function number :: "nat \<Rightarrow> nat \<Rightarrow> u8 list" where
  "number b n = (if n < b \<or> b < 2 then [glyph n] else number b (n div b) @ [glyph (n mod b)])"
  by pat_completeness auto
termination
  by (relation "measure snd") auto

declare number.simps [simp del]

text \<open>The notation denotes the number: its digits, read from the left, give it back.\<close>

definition glyph_value :: "u8 \<Rightarrow> nat" where
  "glyph_value c = (if c < 58 then unat c - 48 else unat c - 55)"

lemma glyph_value_glyph: "d < 16 \<Longrightarrow> glyph_value (glyph d) = d"
proof -
  assume "d < 16"
  then have "d \<in> set [0..<16]" by simp
  also have "[0..<16] = [0, 1, 2, 3, 4, 5, 6, 7, 8, 9, 10, 11, 12, 13, 14, 15]" by (simp add: upt_rec)
  finally show ?thesis by (auto simp: glyph_value_def glyph_def)
qed

lemma number_value:
  assumes "2 \<le> b" and "b \<le> 16"
  shows "foldl (\<lambda>v c. v * b + glyph_value c) 0 (number b n) = n"
proof (induction n rule: less_induct)
  case (less n)
  have g: "glyph_value (glyph (n mod b)) = n mod b" using assms by (intro glyph_value_glyph) (simp add: order.strict_trans2 [OF mod_less_divisor])
  show ?case
  proof (cases "n < b")
    case True
    then show ?thesis using assms glyph_value_glyph [of n] by (simp add: number.simps [of b n])
  next
    case False
    then have "foldl (\<lambda>v c. v * b + glyph_value c) 0 (number b (n div b)) = n div b"
      using assms by (intro less.IH) simp
    then show ?thesis using False assms g by (simp add: number.simps [of b n])
  qed
qed

definition decimal :: "u32 \<Rightarrow> u8 list" where
  "decimal w = (if sint w < 0 then 45 # number 10 (nat (- sint w)) else number 10 (nat (sint w)))"

definition hexadecimal :: "u32 \<Rightarrow> u8 list" where
  "hexadecimal w = number 16 (unat w)"

text \<open>How long a number is, and that none of its digits is the terminator.\<close>

lemma number_length: "2 \<le> b \<Longrightarrow> n < b ^ Suc k \<Longrightarrow> length (number b n) \<le> Suc k"
proof (induction k arbitrary: n)
  case 0
  then show ?case by (simp add: number.simps)
next
  case (Suc k)
  then have "n div b < b ^ Suc k" by (simp add: less_mult_imp_div_less mult.commute)
  then have "length (number b (n div b)) \<le> Suc k" using Suc.IH Suc.prems(1) by blast
  then show ?case by (simp add: number.simps [of b n])
qed

lemma glyph_nonzero: "d < 16 \<Longrightarrow> glyph d \<noteq> 0"
proof -
  assume "d < 16"
  then have "d \<in> set [0..<16]" by simp
  also have "[0..<16] = [0, 1, 2, 3, 4, 5, 6, 7, 8, 9, 10, 11, 12, 13, 14, 15]" by (simp add: upt_rec)
  finally show ?thesis by (auto simp: glyph_def)
qed

lemma number_nonzero: "2 \<le> b \<Longrightarrow> b \<le> 16 \<Longrightarrow> 0 \<notin> set (number b n)"
proof (induction n rule: less_induct)
  case (less n)
  have "glyph (n mod b) \<noteq> 0" using less.prems by (intro glyph_nonzero) (simp add: order.strict_trans2 [OF mod_less_divisor])
  moreover have "n < b \<Longrightarrow> glyph n \<noteq> 0" using less.prems by (intro glyph_nonzero) simp
  ultimately show ?case using less.IH [of "n div b"] less.prems by (simp add: number.simps [of b n])
qed

lemma hexadecimal_text: "length (hexadecimal w) \<le> 8" "0 \<notin> set (hexadecimal w)"
  using number_length [of 16 "unat w" 7] unsigned_less [of w, where ?'a = nat] number_nonzero [of 16 "unat w"]
  by (simp_all add: hexadecimal_def)

fun digs :: "nat \<Rightarrow> nat \<Rightarrow> nat \<Rightarrow> u8 list" where
  "digs b 0 d = [glyph d]"
| "digs b (Suc k) d = glyph (d div b ^ Suc k) # digs b k (d mod b ^ Suc k)"

lemma length_digs [simp]: "length (digs b k d) = Suc k"
  by (induction k arbitrary: d) auto

lemma digs_snoc:
  assumes "0 < b"
  shows "digs b (Suc k) d = digs b k (d div b) @ [glyph (d mod b)]"
proof (induction k arbitrary: d)
  case (Suc k)
  have "digs b (Suc (Suc k)) d = glyph (d div b ^ Suc (Suc k)) # digs b (Suc k) (d mod b ^ Suc (Suc k))" by simp
  also have "\<dots> = glyph (d div b ^ Suc (Suc k)) # digs b k (d mod b ^ Suc (Suc k) div b) @ [glyph (d mod b ^ Suc (Suc k) mod b)]"
    using Suc.IH by simp
  also have "d mod b ^ Suc (Suc k) div b = d div b mod b ^ Suc k"
    using assms mod_mult2_eq [of d b "b ^ Suc k"] by simp
  also have "d mod b ^ Suc (Suc k) mod b = d mod b" by (rule mod_mod_cancel) simp
  also have "d div b ^ Suc (Suc k) = d div b div b ^ Suc k" by (simp add: div_mult2_eq)
  finally show ?case by simp
qed simp

lemma digs_number:
  assumes "2 \<le> b" and "d < b ^ Suc k" and "k = 0 \<or> b ^ k \<le> d"
  shows "digs b k d = number b d"
  using assms(2,3)
proof (induction k arbitrary: d)
  case 0
  then show ?case by (simp add: number.simps)
next
  case (Suc k)
  have le: "b ^ k * b \<le> d" using Suc.prems(2) by (simp add: mult.commute)
  then have "b ^ k \<le> d div b" using assms(1) by (simp add: less_eq_div_iff_mult_less_eq)
  moreover have "d div b < b ^ Suc k" using Suc.prems(1) by (simp add: less_mult_imp_div_less mult.commute)
  ultimately have "digs b k (d div b) = number b (d div b)" by (intro Suc.IH) auto
  moreover have "\<not> d < b"
    using le assms(1) one_le_power [of b k] mult_le_mono1 [of 1 "b ^ k" b] by linarith
  ultimately show ?case using assms(1) by (simp add: digs_snoc number.simps [of b d] del: digs.simps)
qed

lemma dig_digs: "d < 10 ^ Suc k \<Longrightarrow> dig k d = digs 10 k d"
proof (induction k arbitrary: d)
  case (Suc k)
  have "d div 10 ^ Suc k < 10" using Suc.prems by (simp add: less_mult_imp_div_less)
  moreover have "dig k (d mod 10 ^ Suc k) = digs 10 k (d mod 10 ^ Suc k)" by (intro Suc.IH) simp
  ultimately show ?case by (simp add: glyph_def del: of_nat_add)
qed (simp add: glyph_def)

lemma itoa_scale_top: "itoa_scale dec tom = Some t \<Longrightarrow> dec div t \<noteq> 0"
proof (induction dec tom rule: itoa_scale.induct)
  case (1 dec tom)
  from "1.prems" "1.IH" show ?case by (subst (asm) itoa_scale.simps) (auto split: if_splits)
qed

lemma itoa_pos_number:
  assumes "0 < d" and "d < 2147483648"
  shows "itoa_pos t p (of_nat d) m = Some (p + of_nat (length (number 10 d)) - t, store_bytes p (number 10 d) m)"
proof -
  obtain j where j: "j \<le> 9" "itoa_scale (of_nat d) (of_nat (10 ^ 9)) = Some (of_nat (10 ^ j))" "d < 10 ^ Suc j"
    using itoa_scale_finds [of 9 d] assms by auto
  have s: "itoa_scale (of_nat d) 1000000000 = Some (of_nat (10 ^ j))" using j(2) by simp
  have b: "(10 :: nat) ^ j < 4294967296" using j(1) by (rule pow10_bound)
  have "(of_nat d div of_nat (10 ^ j) :: u32) \<noteq> 0" by (rule itoa_scale_top [OF j(2)])
  moreover have "(of_nat d div of_nat (10 ^ j) :: u32) = of_nat (d div 10 ^ j)"
    using b assms(2) by (intro of_nat_div32) simp_all
  ultimately have "d div 10 ^ j \<noteq> 0" by (intro notI) simp
  then have "10 ^ j \<le> d" by (simp add: div_eq_0_iff)
  then have n: "dig j d = number 10 d" using digs_number [of 10 d j] dig_digs [OF j(3)] j(3) by simp
  have l: "length (number 10 d) = Suc j" unfolding n [symmetric] by simp
  have "itoa_pos t p (of_nat d) m = Some (p + of_nat (Suc j) - t, store_bytes p (dig j d) m)"
    using itoa_digits_writes [OF j(1,3), of p m] assms by (simp add: itoa_pos_def s)
  then show ?thesis unfolding n l .
qed

lemma itoa_decimal: "itoa p w m = Some (of_nat (length (decimal w)), store_bytes p (decimal w) m)"
proof -
  consider "w = 0x80000000" | "sint w < 0" "w \<noteq> 0x80000000" | "w = 0" | "0 < sint w"
  proof -
    have "unat w = 0" if "sint w = 0" using that sint_unat [of w] unat_less_32 [of w] by linarith
    then show thesis using less_linear [of "sint w" 0] that by (auto simp: word_unat_eq_iff)
  qed
  then show ?thesis
  proof cases
    case 1
    have "butlast min_digits = dig 9 2147483648" by (simp add: min_digits_def dig_numeral)
    also have "\<dots> = number 10 2147483648" using dig_digs [of 2147483648 9] digs_number [of 10 2147483648 9] by simp
    finally have b: "number 10 2147483648 = butlast min_digits" by simp
    have "sint w = - 2147483648" using 1 by simp
    then show ?thesis using 1 by (simp add: itoa_def decimal_def b) (simp add: min_digits_def)
  next
    case 2
    define d where "d = unat (- w)"
    have "2147483648 \<le> unat w" "unat w \<noteq> 2147483648" "w \<noteq> 0" "sint w = int (unat w) - 4294967296"
      using 2 sint_unat [of w] by (auto simp: word_unat_eq_iff)
    moreover have "d = 4294967296 - unat w" using \<open>w \<noteq> 0\<close> by (simp add: d_def unat_minus')
    ultimately have d: "0 < d" "d < 2147483648" "nat (- sint w) = d" using unat_less_32 [of w] by linarith+
    moreover have "of_nat d = - w" by (simp add: d_def)
    ultimately show ?thesis using 2 itoa_pos_number [OF d(1,2), of p "p + 1" "m(p := 45)"] by (simp add: itoa_def decimal_def)
  next
    case 3
    then show ?thesis by (simp add: itoa_def decimal_def number.simps digit_def glyph_def)
  next
    case 4
    define d where "d = unat w"
    have d: "0 < d" "d < 2147483648" "nat (sint w) = d"
      using 4 sint_unat [of w] unat_less_32 [of w] unfolding d_def by linarith+
    moreover have "of_nat d = w" by (simp add: d_def)
    moreover have "w \<noteq> 0" using 4 by auto
    ultimately show ?thesis using 4 itoa_pos_number [OF d(1,2), of p p m] by (simp add: itoa_def decimal_def)
  qed
qed

lemma nibble_mask:
  assumes "k < 8"
  shows "push_bit (4 * k) 0xF AND (w :: u32) = push_bit (4 * k) (take_bit 4 (drop_bit (4 * k) w))"
proof -
  have m: "(0xF :: u32) = mask 4" by (simp add: mask_eq_exp_minus_1)
  show ?thesis unfolding m by (rule bit_word_eqI) (use assms in \<open>auto simp: bit_simps\<close>)
qed

lemma nibble_shift:
  assumes "k < 8"
  shows "drop_bit (4 * k) (push_bit (4 * k) (take_bit 4 x)) AND 0xF = (take_bit 4 x :: u32)"
proof -
  have m: "(0xF :: u32) = mask 4" by (simp add: mask_eq_exp_minus_1)
  show ?thesis unfolding m by (rule bit_word_eqI) (use assms in \<open>auto simp: bit_simps\<close>)
qed

lemma nibble_value: "unat (take_bit 4 (drop_bit (4 * k) w) :: u32) = unat w div 16 ^ k mod 16"
proof -
  have "(2 :: nat) ^ (4 * k) = 16 ^ k" by (simp add: power_mult)
  moreover have "unat (take_bit 4 (drop_bit (4 * k) w) :: u32) = take_bit 4 (drop_bit (4 * k) (unat w))"
    by (simp only: unsigned_take_bit_eq unat_drop_bit_eq)
  ultimately show ?thesis by (simp add: drop_bit_eq_div take_bit_eq_mod)
qed

lemma nibble_step: "k < 7 \<Longrightarrow> drop_bit 4 (push_bit (4 * Suc k) 0xF :: u32) = push_bit (4 * k) 0xF"
proof -
  assume k: "k < 7"
  have m: "(0xF :: u32) = mask 4" by (simp add: mask_eq_exp_minus_1)
  show ?thesis unfolding m by (rule bit_word_eqI) (use k in \<open>auto simp: bit_simps\<close>)
qed

lemma nibble_nonzero: "k < 8 \<Longrightarrow> (push_bit (4 * k) 0xF :: u32) \<noteq> 0"
proof
  assume k: "k < 8" and z: "(push_bit (4 * k) 0xF :: u32) = 0"
  have "bit (push_bit (4 * k) 0xF :: u32) (4 * k)" using k by (simp add: bit_push_bit_iff bit_0)
  then show False unfolding z by simp
qed

lemma hexdigit_glyph: "d < 16 \<Longrightarrow> hexdigit (of_nat d) = glyph d"
proof -
  assume "d < 16"
  then have "d \<in> set [0..<16]" by simp
  also have "[0..<16] = [0, 1, 2, 3, 4, 5, 6, 7, 8, 9, 10, 11, 12, 13, 14, 15]" by (simp add: upt_rec)
  finally show ?thesis by (auto simp: hexdigit_def glyph_def)
qed

lemma hexdigit_nibble: "hexdigit (take_bit 4 (drop_bit (4 * k) w)) = glyph (unat w div 16 ^ k mod 16)"
proof -
  have "take_bit 4 (drop_bit (4 * k) w) = of_nat (unat w div 16 ^ k mod 16)"
    unfolding nibble_value [symmetric] by simp
  then show ?thesis by (simp only: hexdigit_glyph mod_less_divisor zero_less_numeral)
qed

lemma itox_digits_writes:
  assumes "k < 8"
  shows "itox_digits p w (push_bit (4 * k) 0xF) (of_nat k) m = (p + of_nat (Suc k), store_bytes p (digs 16 k (unat w mod 16 ^ Suc k)) m)"
  using assms
proof (induction k arbitrary: p m)
  case (0 p m)
  have "hexdigit (take_bit 4 w) = glyph (unat w mod 16)"
    using hexdigit_nibble [of 0 w] by simp
  moreover have "(0xF AND w) AND 0xF = take_bit 4 w" using nibble_mask [of 0 w] nibble_shift [of 0 w] by simp
  ultimately show ?case
    by (simp add: itox_digits.simps [of p] itox_digits.simps [of "p + 1"] word_gt_0 fun_upd_def)
next
  case (Suc k p m)
  let ?h = "unat w div 16 ^ Suc k mod 16"
  have g: "0 < (push_bit (4 * Suc k) 0xF :: u32)" using nibble_nonzero [OF Suc.prems] by (simp add: word_gt_0)
  have j: "(of_nat (Suc k) - 1 :: u32) = of_nat k" by simp
  have s: "unat (4 * of_nat (Suc k) :: u32) = 4 * Suc k"
  proof -
    have "(4 * of_nat (Suc k) :: u32) = of_nat (4 * Suc k)" by simp
    then show ?thesis using unat_of_nat32 [of "4 * Suc k"] Suc.prems by (simp del: of_nat_mult of_nat_Suc)
  qed
  have h: "hexdigit (take_bit 4 (drop_bit (4 * Suc k) w)) = glyph ?h" by (rule hexdigit_nibble)
  have d: "unat w mod 16 ^ Suc (Suc k) div 16 ^ Suc k = ?h" "unat w mod 16 ^ Suc (Suc k) mod 16 ^ Suc k = unat w mod 16 ^ Suc k"
  proof -
    have "unat w mod (16 ^ Suc k * 16) = 16 ^ Suc k * ?h + unat w mod 16 ^ Suc k" by (rule mod_mult2_eq)
    then show "unat w mod 16 ^ Suc (Suc k) div 16 ^ Suc k = ?h" by (simp add: mult.commute)
    show "unat w mod 16 ^ Suc (Suc k) mod 16 ^ Suc k = unat w mod 16 ^ Suc k" by (rule mod_mod_cancel) simp
  qed
  have IH: "itox_digits (p + 1) w (push_bit (4 * k) 0xF) (of_nat k) m' =
      (p + 1 + of_nat (Suc k), store_bytes (p + 1) (digs 16 k (unat w mod 16 ^ Suc k)) m')" for m'
    using Suc.prems by (intro Suc.IH) simp
  have "itox_digits p w (push_bit (4 * Suc k) 0xF) (of_nat (Suc k)) m =
      itox_digits (p + 1) w (push_bit (4 * k) 0xF) (of_nat k) (m(p := glyph ?h))"
    using g nibble_step [of k] Suc.prems
    by (subst itox_digits.simps) (simp only: if_True j s nibble_mask [OF Suc.prems] nibble_shift [OF Suc.prems] h)
  then show ?case unfolding IH digs.simps d by (simp add: ac_simps)
qed

lemma itox_scale_finds:
  assumes "k < 8" and "w \<noteq> 0" and "unat w < 16 ^ Suc k"
  shows "\<exists>j \<le> k. itox_scale w (push_bit (4 * k) 0xF) (of_nat k) = Some (push_bit (4 * j) 0xF, of_nat j) \<and> 16 ^ j \<le> unat w \<and> unat w < 16 ^ Suc j"
  using assms
proof (induction k)
  case 0
  have "0xF AND w \<noteq> 0"
  proof
    assume "0xF AND w = 0"
    then have "unat w mod 16 = 0" using nibble_mask [of 0 w] nibble_value [of 0 w] by simp
    then show False using 0 by (simp add: word_unat_eq_iff)
  qed
  moreover have "1 \<le> unat w" using 0 by (simp add: word_unat_eq_iff)
  ultimately show ?case using 0 by (subst itox_scale.simps) simp
next
  case (Suc k)
  have nz: "(push_bit (4 * Suc k) 0xF :: u32) \<noteq> 0" using Suc.prems(1) by (rule nibble_nonzero)
  have v: "unat w div 16 ^ Suc k mod 16 = unat w div 16 ^ Suc k"
    using Suc.prems(3) by (simp add: less_mult_imp_div_less)
  have z: "push_bit (4 * Suc k) 0xF AND w = 0 \<longleftrightarrow> unat w < 16 ^ Suc k"
  proof -
    have "push_bit (4 * Suc k) 0xF AND w = 0 \<longleftrightarrow> take_bit 4 (drop_bit (4 * Suc k) w) = 0"
    proof
      assume "push_bit (4 * Suc k) 0xF AND w = 0"
      then have "push_bit (4 * Suc k) (take_bit 4 (drop_bit (4 * Suc k) w)) = 0" by (simp only: nibble_mask [OF Suc.prems(1)])
      then show "take_bit 4 (drop_bit (4 * Suc k) w) = 0" using nibble_shift [OF Suc.prems(1), of "drop_bit (4 * Suc k) w"] by simp
    qed (simp only: nibble_mask [OF Suc.prems(1)], simp)
    also have "\<dots> \<longleftrightarrow> unat w div 16 ^ Suc k = 0"
      using nibble_value [of "Suc k" w] v by (simp only: word_unat_eq_iff unat_0)
    also have "\<dots> \<longleftrightarrow> unat w < 16 ^ Suc k" by (simp add: div_eq_0_iff)
    finally show ?thesis .
  qed
  show ?case
  proof (cases "unat w < 16 ^ Suc k")
    case True
    have "itox_scale w (push_bit (4 * Suc k) 0xF) (of_nat (Suc k)) = itox_scale w (push_bit (4 * k) 0xF) (of_nat k)"
      using nz z True nibble_step [of k] Suc.prems(1) by (subst itox_scale.simps) simp
    then show ?thesis using Suc.IH Suc.prems True by (auto intro: le_SucI)
  next
    case False
    then show ?thesis using nz z Suc.prems(3) by (subst itox_scale.simps) (auto intro!: exI [of _ "Suc k"])
  qed
qed

lemma itox_hexadecimal: "itox p w m = Some (of_nat (length (hexadecimal w)), store_bytes p (hexadecimal w) m)"
proof (cases "w = 0")
  case True
  then show ?thesis by (simp add: itox_def hexadecimal_def number.simps hexdigit_def glyph_def)
next
  case False
  have t: "push_bit (4 * 7) 0xF = (0xF0000000 :: u32)" by simp
  obtain j where j: "j \<le> 7" "itox_scale w 0xF0000000 7 = Some (push_bit (4 * j) 0xF, of_nat j)" "16 ^ j \<le> unat w" "unat w < 16 ^ Suc j"
    using itox_scale_finds [of 7 w] False unsigned_less [of w, where ?'a = nat] unfolding t by auto
  have n: "digs 16 j (unat w) = hexadecimal w" unfolding hexadecimal_def using j(3,4) by (intro digs_number) auto
  have l: "length (hexadecimal w) = Suc j" unfolding n [symmetric] by simp
  show ?thesis
    using j(1,4) False itox_digits_writes [of j p w m] by (simp add: itox_def j(2) n l)
qed


section \<open>Formats\<close>

datatype token = Lit u8 | Percent | Str | Dec | Hex | Chr

datatype farg = Word u32 | Text addr "u8 list"

fun token_bytes :: "token \<Rightarrow> u8 list" where
  "token_bytes (Lit c) = [c]"
| "token_bytes Percent = [37, 37]"
| "token_bytes Str = [37, 115]"
| "token_bytes Dec = [37, 100]"
| "token_bytes Hex = [37, 120]"
| "token_bytes Chr = [37, 99]"

definition format_bytes :: "token list \<Rightarrow> u8 list" where
  "format_bytes ts = concat (List.map token_bytes ts) @ [0]"

fun token_ok :: "token \<Rightarrow> bool" where
  "token_ok (Lit c) \<longleftrightarrow> c \<noteq> 0 \<and> c \<noteq> 37"
| "token_ok _ \<longleftrightarrow> True"

fun render :: "token list \<Rightarrow> farg list \<Rightarrow> u8 list option" where
  "render [] xs = Some []"
| "render (Lit c # ts) xs = map_option ((#) c) (render ts xs)"
| "render (Percent # ts) xs = map_option ((#) 37) (render ts xs)"
| "render (Str # ts) (Text p t # xs) = map_option ((@) t) (render ts xs)"
| "render (Dec # ts) (Word w # xs) = map_option ((@) (decimal w)) (render ts xs)"
| "render (Hex # ts) (Word w # xs) = map_option ((@) (hexadecimal w)) (render ts xs)"
| "render (Chr # ts) (Word w # xs) = map_option ((#) (ucast w)) (render ts xs)"
| "render _ _ = None"

text \<open>Bytes in memory that a buffer of \<^verbatim>\<open>n\<close> bytes does not touch.\<close>

definition kept :: "addr \<Rightarrow> nat \<Rightarrow> mem \<Rightarrow> addr \<Rightarrow> u8 list \<Rightarrow> bool" where
  "kept buf n m p bs \<longleftrightarrow> (\<forall>i < length bs. m (p + of_nat i) = bs ! i \<and> \<not> p + of_nat i - buf < of_nat n)"

lemma kept_Nil [simp]: "kept buf n m p []"
  by (simp add: kept_def)

lemma kept_Cons [simp]: "kept buf n m p (b # bs) \<longleftrightarrow> m p = b \<and> \<not> p - buf < of_nat n \<and> kept buf n m (p + 1) bs"
  by (auto simp: kept_def less_Suc_eq_0_disj add.commute add.left_commute)

lemma kept_append [simp]: "kept buf n m p (as @ bs) \<longleftrightarrow> kept buf n m p as \<and> kept buf n m (p + of_nat (length as)) bs"
  by (induction as arbitrary: p) (auto simp: add.assoc)

lemma apart_advance:
  assumes "\<not> (x :: u32) - buf < of_nat n" and "k \<le> n" and "n < 4294967296"
  shows "\<not> x - (buf + of_nat k) < of_nat (n - k)" and "\<not> x - buf < of_nat k"
proof -
  define d where "d = unat (x - buf)"
  have u: "unat (of_nat j :: u32) = j" if "j \<le> n" for j using that assms(3) by (intro unat_of_nat32) simp
  have d: "n \<le> d" using assms(1) u [of n] by (simp add: d_def word_less_nat_alt)
  have "x - (buf + of_nat k) = (x - buf) - of_nat k" by simp
  then have "unat (x - (buf + of_nat k)) = d - k"
    using d assms(2) u [of k] unat_sub_if' [of "x - buf" "of_nat k"] by (simp only: d_def) simp
  then show "\<not> x - (buf + of_nat k) < of_nat (n - k)" using d assms(2) u [of "n - k"] by (simp add: word_less_nat_alt)
  show "\<not> x - buf < of_nat k" using d assms(2) u [of k] by (simp add: word_less_nat_alt d_def)
qed

lemma kept_advance:
  assumes "kept buf n m p bs" and "length out \<le> n" and "n < 4294967296"
  shows "kept (buf + of_nat (length out)) (n - length out) (store_bytes buf out m) p bs"
  unfolding kept_def
proof (intro allI impI)
  fix i assume i: "i < length bs"
  have a: "\<not> p + of_nat i - buf < of_nat n" "m (p + of_nat i) = bs ! i" using assms(1) i by (auto simp: kept_def)
  note b = apart_advance [OF a(1) assms(2,3)]
  show "store_bytes buf out m (p + of_nat i) = bs ! i \<and> \<not> p + of_nat i - (buf + of_nat (length out)) < of_nat (n - length out)"
    using a(2) b store_bytes_frame [of out "p + of_nat i" buf m] assms(2,3) by simp
qed

definition word_bytes :: "u32 \<Rightarrow> u8 list" where
  "word_bytes w = [ucast w, ucast (drop_bit 8 w), ucast (drop_bit 16 w), ucast (drop_bit 24 w)]"

lemma load32_kept: "kept buf n m a (word_bytes w) \<Longrightarrow> load32 m a = w"
proof -
  assume "kept buf n m a (word_bytes w)"
  then have "load32 m a = load32 (store32 a w m) a"
    by (intro load32_cong) (auto simp: word_bytes_def word_at_def store32_def ac_simps)
  then show "load32 m a = w" by simp
qed

lemma length_word_bytes [simp]: "length (word_bytes w) = 4"
  by (simp add: word_bytes_def)

lemma store32_bytes: "store32 a w m = store_bytes a (word_bytes w) m"
  by (simp add: word_bytes_def store32_def add.assoc)

text \<open>The arguments of a variadic call, pushed from the address of the format on.\<close>

fun push_args :: "addr \<Rightarrow> u32 list \<Rightarrow> mem \<Rightarrow> mem" where
  "push_args a [] m = m"
| "push_args a (w # ws) m = push_args (a + 4) ws (store32 a w m)"

fun farg_word :: "farg \<Rightarrow> u32" where
  "farg_word (Word w) = w"
| "farg_word (Text p t) = p"

text \<open>A string argument is the null pointer or an address at which the string stands, without wrapping.\<close>

fun text_kept :: "addr \<Rightarrow> nat \<Rightarrow> mem \<Rightarrow> farg \<Rightarrow> bool" where
  "text_kept buf n m (Word w) \<longleftrightarrow> True"
| "text_kept buf n m (Text p t) \<longleftrightarrow>
     p = NULL \<and> t = [] \<or> p \<noteq> NULL \<and> 0 \<notin> set t \<and> unat p + length t < 4294967296 \<and> kept buf n m p (t @ [0])"

fun args_kept :: "addr \<Rightarrow> nat \<Rightarrow> mem \<Rightarrow> addr \<Rightarrow> farg list \<Rightarrow> bool" where
  "args_kept buf n m a [] \<longleftrightarrow> True"
| "args_kept buf n m a (x # xs) \<longleftrightarrow>
     kept buf n m a (word_bytes (farg_word x)) \<and> text_kept buf n m x \<and> args_kept buf n m (a + 4) xs"

lemma text_kept_advance:
  "text_kept buf n m x \<Longrightarrow> length out \<le> n \<Longrightarrow> n < 4294967296 \<Longrightarrow>
     text_kept (buf + of_nat (length out)) (n - length out) (store_bytes buf out m) x"
  by (cases x) (auto dest: kept_advance simp del: kept_append)

lemma args_kept_advance:
  "args_kept buf n m a xs \<Longrightarrow> length out \<le> n \<Longrightarrow> n < 4294967296 \<Longrightarrow>
     args_kept (buf + of_nat (length out)) (n - length out) (store_bytes buf out m) a xs"
  by (induction xs arbitrary: a) (simp_all add: kept_advance text_kept_advance)

lemma store_bytes_append: "store_bytes a (bs @ cs) m = store_bytes (a + of_nat (length bs)) cs (store_bytes a bs m)"
  by (induction bs arbitrary: a m) (simp_all add: ac_simps)

lemma push_args_bytes: "push_args a ws m = store_bytes a (concat (List.map word_bytes ws)) m"
  by (induction ws arbitrary: a m) (simp_all add: store32_bytes store_bytes_append)

lemma args_kept_words:
  assumes "holds m a (concat (List.map word_bytes ws))" and "\<forall>i < 4 * length ws. \<not> a + of_nat i - buf < of_nat n"
  shows "args_kept buf n m a (List.map Word ws)"
  using assms
proof (induction ws arbitrary: a)
  case (Cons w ws)
  have "\<not> a + 4 + of_nat i - buf < of_nat n" if "i < 4 * length ws" for i
    using Cons.prems(2) [rule_format, of "4 + i"] that by (simp add: add.assoc)
  then have "args_kept buf n m (a + 4) (List.map Word ws)" using Cons.prems(1) by (intro Cons.IH) simp_all
  moreover have "kept buf n m a (word_bytes w)" using Cons.prems by (simp add: kept_def holds_def nth_append)
  ultimately show ?case by simp
qed simp

lemma args_kept_pushed:
  assumes "length ws < 1000" and "\<forall>i < 4 * length ws. \<not> a + of_nat i - buf < of_nat n"
  shows "args_kept buf n (push_args a ws m) a (List.map Word ws)"
proof (rule args_kept_words [OF _ assms(2)])
  have "length (concat (List.map word_bytes ws)) = 4 * length ws" by (induction ws) simp_all
  then show "holds (push_args a ws m) a (concat (List.map word_bytes ws))"
    unfolding push_args_bytes using assms(1) by (intro store_bytes_holds) simp
qed

lemma str_arg_copies:
  assumes "0 \<notin> set t" and "p \<noteq> NULL" and "unat p + length t < 4294967296" and "kept buf n m p (t @ [0])"
    and "length t \<le> n" and "n < 4294967296"
  shows "str_arg buf p m = Some (buf + of_nat (length t), store_bytes buf t m)"
  using assms
proof (induction t arbitrary: buf p m n)
  case Nil
  then show ?case by (subst str_arg.simps) simp
next
  case (Cons c t)
  have k: "kept buf n m p ([c] @ (t @ [0]))" using Cons.prems(4) by simp
  have "kept (buf + of_nat (length [c])) (n - length [c]) (store_bytes buf [c] m) p ([c] @ (t @ [0]))"
    by (rule kept_advance [OF k]) (use Cons.prems(5,6) in simp_all)
  then have k': "kept (buf + 1) (n - 1) (m(buf := c)) (p + 1) (t @ [0])" by (simp add: fun_upd_def del: kept_append)
  have u: "unat (p + 1) = unat p + 1" using Cons.prems(3) by (simp add: unat_word_ariths)
  then have "p + 1 \<noteq> NULL" by (auto simp: word_unat_eq_iff)
  then have IH: "str_arg (buf + 1) (p + 1) (m(buf := c)) = Some (buf + 1 + of_nat (length t), store_bytes (buf + 1) t (m(buf := c)))"
    using Cons.prems u k' by (intro Cons.IH [where n = "n - 1"]) (simp_all add: fun_upd_def del: kept_append)
  then show ?case using Cons.prems(1,2) k by (subst str_arg.simps) (simp add: ac_simps)
qed


lemma var_arg_word: "var_arg vl 4 = (vl_this vl, vl\<lparr>vl_this := vl_this vl + 4\<rparr>)" "var_arg vl 1 = (vl_this vl, vl\<lparr>vl_this := vl_this vl + 4\<rparr>)"
  by (simp_all add: var_arg_def Let_def)

lemma fmt_step: "(fmt :: addr) + 1 + 1 = fmt + 2"
  by (simp add: add.assoc)

lemma vsprintf_loop_end: "m fmt = 0 \<Longrightarrow> vsprintf_loop buf fmt vl m = Some (buf, m)"
  by (subst vsprintf_loop.simps) simp

lemma vsprintf_loop_lit: "m fmt = c \<Longrightarrow> c \<noteq> 0 \<Longrightarrow> c \<noteq> 37 \<Longrightarrow> vsprintf_loop buf fmt vl m = vsprintf_loop (buf + 1) (fmt + 1) vl (m(buf := c))"
  by (subst vsprintf_loop.simps) simp

lemma vsprintf_loop_percent:
  "m fmt = 37 \<Longrightarrow> m (fmt + 1) = 37 \<Longrightarrow> vsprintf_loop buf fmt vl m = vsprintf_loop (buf + 1) (fmt + 2) vl (m(buf := 37))"
  by (subst vsprintf_loop.simps) (simp add: Let_def fmt_step)

lemma vsprintf_loop_conv:
  fixes vl :: var_list
  defines "vl' \<equiv> vl\<lparr>vl_this := vl_this vl + 4\<rparr>"
  assumes "m fmt = 37" and "m (fmt + 1) = c"
  shows "c = 115 \<Longrightarrow> str_arg buf (load32 m (vl_this vl)) m = Some (b, m') \<Longrightarrow> vsprintf_loop buf fmt vl m = vsprintf_loop b (fmt + 2) vl' m'"
    and "c = 100 \<Longrightarrow> itoa buf (load32 m (vl_this vl)) m = Some (d, m') \<Longrightarrow> vsprintf_loop buf fmt vl m = vsprintf_loop (buf + d) (fmt + 2) vl' m'"
    and "c = 120 \<Longrightarrow> itox buf (load32 m (vl_this vl)) m = Some (d, m') \<Longrightarrow> vsprintf_loop buf fmt vl m = vsprintf_loop (buf + d) (fmt + 2) vl' m'"
    and "c = 99 \<Longrightarrow> vsprintf_loop buf fmt vl m = vsprintf_loop (buf + 1) (fmt + 2) vl' (m(buf := m (vl_this vl)))"
  using assms by (subst vsprintf_loop.simps, simp add: Let_def fmt_step var_arg_word)+

text \<open>One conversion: it appends a piece to the buffer and the rest of the format goes on behind it.\<close>

lemma format_bytes_Cons: "format_bytes (t # ts) = token_bytes t @ format_bytes ts"
  by (simp add: format_bytes_def)

lemma kept_two: "kept buf n m p (b # c # bs) \<longleftrightarrow> m p = b \<and> m (p + 1) = c \<and> \<not> p - buf < of_nat n \<and> \<not> p + 1 - buf < of_nat n \<and> kept buf n m (p + 2) bs"
  by (auto simp: fmt_step)

lemma piece_done:
  "out = piece @ out' \<Longrightarrow> vsprintf_loop (buf + of_nat (length piece)) fmt vl (store_bytes buf piece m) =
     Some (buf + of_nat (length piece) + of_nat (length out'), store_bytes (buf + of_nat (length piece)) out' (store_bytes buf piece m)) \<Longrightarrow>
   vsprintf_loop (buf + of_nat (length piece)) fmt vl (store_bytes buf piece m) = Some (buf + of_nat (length out), store_bytes buf out m)"
  by (simp add: store_bytes_append add.assoc)

text \<open>What is left after a piece: the rest of the format, the arguments and the rest of the output.\<close>

lemma rest_kept:
  assumes "kept buf (length out) m fmt (format_bytes (t # ts))" and "args_kept buf (length out) m a xs"
    and "length out < 4294967296" and "out = piece @ out'"
  shows "kept (buf + of_nat (length piece)) (length out') (store_bytes buf piece m) (fmt + of_nat (length (token_bytes t))) (format_bytes ts)"
    and "args_kept (buf + of_nat (length piece)) (length out') (store_bytes buf piece m) a xs"
    and "length out' < 4294967296"
proof -
  have "length out - length piece = length out'" "length piece \<le> length out" using assms(4) by simp_all
  then show "kept (buf + of_nat (length piece)) (length out') (store_bytes buf piece m) (fmt + of_nat (length (token_bytes t))) (format_bytes ts)"
      "args_kept (buf + of_nat (length piece)) (length out') (store_bytes buf piece m) a xs"
    using kept_advance [OF assms(1), of piece] args_kept_advance [OF assms(2), of piece] assms(3)
    by (simp_all add: format_bytes_Cons)
  show "length out' < 4294967296" using assms(3,4) by simp
qed

lemma vsprintf_loop_renders:
  assumes "render ts xs = Some out" and "\<forall>t \<in> set ts. token_ok t" and "length out < 4294967296"
    and "kept buf (length out) m fmt (format_bytes ts)" and "args_kept buf (length out) m (vl_this vl) xs"
  shows "vsprintf_loop buf fmt vl m = Some (buf + of_nat (length out), store_bytes buf out m)"
  using assms
proof (induction ts xs arbitrary: buf m fmt vl out rule: render.induct)
  case (1 xs)
  then show ?case by (simp add: format_bytes_def vsprintf_loop_end)
next
  case (2 c ts xs)
  then obtain out' where o: "render ts xs = Some out'" "out = [c] @ out'" by auto
  note r = rest_kept [OF "2.prems"(4,5,3) o(2)]
  have "vsprintf_loop buf fmt vl m = vsprintf_loop (buf + 1) (fmt + 1) vl (m(buf := c))"
    using "2.prems"(2,4) by (intro vsprintf_loop_lit) (simp_all add: format_bytes_Cons)
  with piece_done [OF o(2) "2.IH" [OF o(1) _ r(3)]] r(1,2) "2.prems"(2) show ?case by (simp add: fun_upd_def)
next
  case (3 ts xs)
  then obtain out' where o: "render ts xs = Some out'" "out = [37] @ out'" by auto
  note r = rest_kept [OF "3.prems"(4,5,3) o(2)]
  have "vsprintf_loop buf fmt vl m = vsprintf_loop (buf + 1) (fmt + 2) vl (m(buf := 37))"
    using "3.prems"(4) by (intro vsprintf_loop_percent) (simp_all add: format_bytes_Cons)
  with piece_done [OF o(2) "3.IH" [OF o(1) _ r(3)]] r(1,2) "3.prems"(2) show ?case by (simp add: fun_upd_def)
next
  case (4 ts p t xs)
  then obtain out' where o: "render ts xs = Some out'" "out = t @ out'" by auto
  note r = rest_kept [OF "4.prems"(4,5,3) o(2)]
  have w: "load32 m (vl_this vl) = p" using "4.prems"(5) load32_kept by fastforce
  have s: "str_arg buf (load32 m (vl_this vl)) m = Some (buf + of_nat (length t), store_bytes buf t m)"
  proof (cases "p = NULL")
    case True
    then show ?thesis using "4.prems"(5) unfolding w by (subst str_arg.simps) simp
  next
    case False
    then show ?thesis using "4.prems"(3,5) o(2) unfolding w by (intro str_arg_copies [where n = "length out"]) auto
  qed
  have "vsprintf_loop buf fmt vl m = vsprintf_loop (buf + of_nat (length t)) (fmt + 2) (vl\<lparr>vl_this := vl_this vl + 4\<rparr>) (store_bytes buf t m)"
    using "4.prems"(4) s by (intro vsprintf_loop_conv(1)) (simp_all add: format_bytes_Cons)
  with piece_done [OF o(2) "4.IH" [OF o(1) _ r(3)]] r(1,2) "4.prems"(2) show ?case by simp
next
  case (5 ts w xs)
  then obtain out' where o: "render ts xs = Some out'" "out = decimal w @ out'" by auto
  note r = rest_kept [OF "5.prems"(4,5,3) o(2)]
  have w: "load32 m (vl_this vl) = w" using "5.prems"(5) load32_kept by fastforce
  have "vsprintf_loop buf fmt vl m =
      vsprintf_loop (buf + of_nat (length (decimal w))) (fmt + 2) (vl\<lparr>vl_this := vl_this vl + 4\<rparr>) (store_bytes buf (decimal w) m)"
    using "5.prems"(4) w by (intro vsprintf_loop_conv(2)) (simp_all add: format_bytes_Cons itoa_decimal)
  with piece_done [OF o(2) "5.IH" [OF o(1) _ r(3)]] r(1,2) "5.prems"(2) show ?case by simp
next
  case (6 ts w xs)
  then obtain out' where o: "render ts xs = Some out'" "out = hexadecimal w @ out'" by auto
  note r = rest_kept [OF "6.prems"(4,5,3) o(2)]
  have w: "load32 m (vl_this vl) = w" using "6.prems"(5) load32_kept by fastforce
  have "vsprintf_loop buf fmt vl m =
      vsprintf_loop (buf + of_nat (length (hexadecimal w))) (fmt + 2) (vl\<lparr>vl_this := vl_this vl + 4\<rparr>) (store_bytes buf (hexadecimal w) m)"
    using "6.prems"(4) w by (intro vsprintf_loop_conv(3)) (simp_all add: format_bytes_Cons itox_hexadecimal)
  with piece_done [OF o(2) "6.IH" [OF o(1) _ r(3)]] r(1,2) "6.prems"(2) show ?case by simp
next
  case (7 ts w xs)
  then obtain out' where o: "render ts xs = Some out'" "out = [ucast w] @ out'" by auto
  note r = rest_kept [OF "7.prems"(4,5,3) o(2)]
  have "vsprintf_loop buf fmt vl m = vsprintf_loop (buf + 1) (fmt + 2) (vl\<lparr>vl_this := vl_this vl + 4\<rparr>) (m(buf := m (vl_this vl)))"
    using "7.prems"(4) by (intro vsprintf_loop_conv(4)) (simp_all add: format_bytes_Cons)
  moreover have "m (vl_this vl) = ucast w" using "7.prems"(5) by (simp add: word_bytes_def)
  ultimately show ?case using piece_done [OF o(2) "7.IH" [OF o(1) _ r(3)]] r(1,2) "7.prems"(2) by (simp add: fun_upd_def)
qed simp_all

text \<open>C28: vsprintf writes exactly what the reference rendering of its format and arguments gives, numbers
  in decimal or hexadecimal notation, and returns its length, when format, arguments and strings lie
  outside the buffer.\<close>

theorem vsprintf_renders:
  assumes "render ts xs = Some out" and "\<forall>t \<in> set ts. token_ok t" and "length out < 4294967296"
    and "kept buf (length out) m fmt (format_bytes ts)" and "args_kept buf (length out) m (vl_this vl) xs"
  shows "vsprintf buf fmt vl m = Some (of_nat (length out), store_bytes buf out m)"
  using vsprintf_loop_renders [OF assms] by (simp add: vsprintf_def)

text \<open>\<^verbatim>\<open>vsprintf(buf, "%c=%d %x", 65, -7, 0xBEEF)\<close>\<close>

definition demo_format :: mem where
  "demo_format = store_bytes 0x100 (format_bytes [Chr, Lit 61, Dec, Lit 32, Hex])
     (store_bytes 0x204 (word_bytes 65 @ word_bytes (- 7) @ word_bytes 0xBEEF) (\<lambda>_. 0))"

theorem vsprintf_renders_witness:
  "vsprintf 0x1000 0x100 (va_start 0x200) demo_format = Some (9, store_bytes 0x1000 [65, 61, 45, 55, 32, 66, 69, 69, 70] demo_format)"
proof -
  have "render [Chr, Lit 61, Dec, Lit 32, Hex] [Word 65, Word (- 7), Word 0xBEEF] = Some [65, 61, 45, 55, 32, 66, 69, 69, 70]"
    by (simp add: decimal_def hexadecimal_def number.simps glyph_def)
  from vsprintf_renders [OF this, of "0x1000" demo_format "0x100" "va_start 0x200"] show ?thesis
    by (simp add: demo_format_def format_bytes_def word_bytes_def va_start_def)
qed

end
