(* ===== verification/Printk.thy ===== *)
theory Printk
  imports IoPort Format "HOL-Library.Signed_Division"
begin

text \<open>
  The kernel's own output (\<^verbatim>\<open>kernel/printk.c\<close>): text goes straight into the video memory at \<^verbatim>\<open>0xB8000\<close>, a cell of two bytes per
  character, and the cursor position to the display controller. Column and row are signed bytes as in the code.
  The addresses of the buffer \<^verbatim>\<open>kbuf\<close>, of the string \<^verbatim>\<open>\n\<close> and of the stack slots that hold the
  format arguments are arguments. A string without terminator is \<^const>\<open>None\<close>.
\<close>

section \<open>Operations\<close>

record kscreen = ports +
  scr_mem :: mem
  kx :: u8
  ky :: u8

definition cell :: "u8 \<Rightarrow> u8 \<Rightarrow> addr" where
  "cell x y = 0xB8000 + 2 * (scast y * 80 + scast x)"

definition setcursor :: "hardware \<Rightarrow> cint \<Rightarrow> cint \<Rightarrow> 's ports_scheme \<Rightarrow> 's ports_scheme" where
  "setcursor hw x y s =
     (let v = of_int (sint (y * 2 * 80 + x * 2) sdiv 2) :: cint;
          s = outb hw 0x03D4 0x0E s;
          s = outb hw 0x03D5 (ucast (signed_drop_bit 8 v AND 0xFF)) s;
          s = outb hw 0x03D4 0x0F s
      in outb hw 0x03D5 (ucast (v AND 0xFF)) s)"

definition tab_width :: "u8 \<Rightarrow> cint" where
  "tab_width x = (let n = 4 - sint x smod 4 in if n = 0 then 4 else of_int n)"

definition put_char :: "hardware \<Rightarrow> u8 \<Rightarrow> 's kscreen_scheme \<Rightarrow> 's kscreen_scheme" where
  "put_char hw c s =
     (let p = cell (kx s) (ky s);
          s = s\<lparr>scr_mem := store16 p (ucast (scast c OR (0x0700 :: cint))) (scr_mem s)\<rparr>;
          s = (if c = 10 then s\<lparr>scr_mem := store16 p 0 (scr_mem s), kx := 0, ky := ky s + 1\<rparr>
               else if c = 9 then s\<lparr>scr_mem := snd (memset p 0 (tab_width (kx s)) (scr_mem s)), kx := kx s + ucast (tab_width (kx s))\<rparr>
               else s\<lparr>kx := kx s + 1\<rparr>);
          s = (if 80 \<le>s kx s then s\<lparr>kx := 0, ky := ky s + 1\<rparr> else s)
      in setcursor hw (scast (kx s)) (scast (ky s)) s)"

partial_function (option) vprintk_loop :: "hardware \<Rightarrow> addr \<Rightarrow> 's kscreen_scheme \<Rightarrow> 's kscreen_scheme option" where
  "vprintk_loop hw buf s =
     (if scr_mem s buf \<noteq> 0 then vprintk_loop hw (buf + 1) (put_char hw (scr_mem s buf) s) else Some s)"

definition scroll :: "hardware \<Rightarrow> 's kscreen_scheme \<Rightarrow> 's kscreen_scheme" where
  "scroll hw s =
     (if 24 \<le>s ky s
      then let v = 80 * (scast (ky s) - 25 :: cint);
               s = outb hw 0x03D4 0x0C s;
               s = outb hw 0x03D5 (ucast (signed_drop_bit 8 v AND 0xFF)) s;
               s = outb hw 0x03D4 0x0D s
           in outb hw 0x03D5 (ucast (v AND 0xFF)) s
      else s)"

definition vprintk :: "hardware \<Rightarrow> addr \<Rightarrow> 's kscreen_scheme \<Rightarrow> (cint \<times> 's kscreen_scheme) option" where
  "vprintk hw buf s = map_option (\<lambda>s. (0, scroll hw s)) (vprintk_loop hw buf s)"

text \<open>Format into \<^verbatim>\<open>kbuf\<close>, terminate, print; \<^verbatim>\<open>l\<close> is the address of the format argument.\<close>

definition print_formatted :: "hardware \<Rightarrow> addr \<Rightarrow> addr \<Rightarrow> 's kscreen_scheme \<Rightarrow> (cint \<times> 's kscreen_scheme) option" where
  "print_formatted hw kbuf l s =
     (case vsprintf kbuf (load32 (scr_mem s) l) (va_start l) (scr_mem s) of
        None \<Rightarrow> None
      | Some (len, m) \<Rightarrow> map_option (\<lambda>(_, s). (len, s)) (vprintk hw kbuf (s\<lparr>scr_mem := m(kbuf + len := 0)\<rparr>)))"

definition kprintf :: "hardware \<Rightarrow> addr \<Rightarrow> addr \<Rightarrow> 's kscreen_scheme \<Rightarrow> (cint \<times> 's kscreen_scheme) option" where
  "kprintf hw kbuf l s = print_formatted hw kbuf l s"

definition printk :: "hardware \<Rightarrow> addr \<Rightarrow> addr \<Rightarrow> addr \<Rightarrow> addr \<Rightarrow> 's kscreen_scheme \<Rightarrow> (cint \<times> 's kscreen_scheme) option" where
  "printk hw kbuf l_core newline l s =
     (let s = (if 0 \<noteq> kx s then s\<lparr>kx := 0, ky := ky s + 1\<rparr> else s)
      in case print_formatted hw kbuf l_core s of
           None \<Rightarrow> None
         | Some (_, s) \<Rightarrow>
             (case print_formatted hw kbuf l s of
                None \<Rightarrow> None
              | Some (len, s) \<Rightarrow> map_option (\<lambda>(_, s). (len, s)) (vprintk hw newline s)))"

section \<open>The column\<close>

lemma setcursor_frame [simp]:
  "scr_mem (setcursor hw x y s) = scr_mem s" "kx (setcursor hw x y s) = kx s" "ky (setcursor hw x y s) = ky s"
  by (simp_all add: setcursor_def outb_def Let_def)

lemma scroll_frame [simp]: "scr_mem (scroll hw s) = scr_mem s" "kx (scroll hw s) = kx s" "ky (scroll hw s) = ky s"
  by (simp_all add: scroll_def outb_def Let_def)

definition column_ok :: "'s kscreen_scheme \<Rightarrow> bool" where
  "column_ok s \<longleftrightarrow> unat (kx s) < 80"

lemma sint_byte:
  assumes "unat (x :: u8) < 128"
  shows "sint x = int (unat x)"
proof -
  define n where "n = unat x"
  have u: "uint x = int n" by (simp add: n_def)
  have "signed_take_bit 7 (int n) = int n"
    using assms by (intro signed_take_bit_int_eq_self) (simp_all add: n_def [symmetric])
  then show ?thesis unfolding sint_uint u n_def [symmetric] by simp
qed

lemma sle_80:
  assumes "unat (x :: u8) < 128"
  shows "80 \<le>s x \<longleftrightarrow> 80 \<le> unat x"
  using sint_byte [OF assms] by (simp add: word_sle_eq del: of_nat_unat)

lemma tab_width_column:
  assumes "unat x < 80"
  shows "tab_width x = of_nat (4 - unat x mod 4)"
proof -
  have "sint x smod 4 = int (unat x mod 4)"
    using sint_byte [of x] assms by (simp add: signed_modulo_int_def signed_divide_int_def zmod_int minus_mult_div_eq_mod del: of_nat_unat)
      (cases "unat x = 0"; simp)
  moreover have "unat x mod 4 < 4" by simp
  ultimately show ?thesis by (simp add: tab_width_def Let_def of_nat_diff)
qed

lemma put_char_column:
  assumes "column_ok s"
  shows "column_ok (put_char hw c s)"
proof -
  have "unat (kx s) < 80" using assms by (simp add: column_ok_def)
  have t: "unat (kx s + ucast (tab_width (kx s))) < 128"
  proof -
    define k where "k = 4 - unat (kx s) mod 4"
    have k: "tab_width (kx s) = of_nat k" "k \<le> 4"
      unfolding k_def using assms by (rule_tac tab_width_column) (simp_all add: column_ok_def)
    have "unat (ucast (of_nat k :: cint) :: u8) = k"
      using k(2) by (simp add: unsigned_ucast_eq unat_of_nat take_bit_nat_eq_self)
    then show ?thesis using k assms by (simp add: column_ok_def unat_word_ariths)
  qed
  have "unat (kx s + 1) < 128" using assms by (simp add: column_ok_def unat_word_ariths)
  then show ?thesis using t by (auto simp: put_char_def column_ok_def Let_def sle_80)
qed

lemma vprintk_loop_column:
  assumes "vprintk_loop hw buf s = Some s'" and "column_ok s"
  shows "column_ok s'"
proof -
  have "column_ok s \<longrightarrow> column_ok s'"
  proof (rule vprintk_loop.raw_induct [OF _ assms(1)], goal_cases)
    case (1 f hw buf s s')
    then show ?case using put_char_column [of s hw "scr_mem s buf"] by (auto split: if_splits)
  qed
  with assms(2) show ?thesis by blast
qed

lemma vprintk_column: "vprintk hw buf s = Some (r, t) \<Longrightarrow> column_ok s \<Longrightarrow> column_ok t"
  using vprintk_loop_column [of hw buf s] by (auto simp: vprintk_def column_ok_def)

lemma print_formatted_column: "print_formatted hw kbuf l s = Some (r, t) \<Longrightarrow> column_ok s \<Longrightarrow> column_ok t"
  by (auto simp: print_formatted_def column_ok_def split: option.splits dest!: vprintk_column)

text \<open>printk keeps the column between 0 and 79.\<close>

theorem printk_column:
  assumes "printk hw kbuf l_core newline l s = Some (len, s')" and "column_ok s"
  shows "column_ok s'"
  using assms by (auto simp: printk_def Let_def column_ok_def split: option.splits if_splits
    dest!: vprintk_column print_formatted_column)

section \<open>A line of text\<close>

definition plain :: "u8 \<Rightarrow> bool" where
  "plain c \<longleftrightarrow> c \<noteq> 0 \<and> c \<noteq> 9 \<and> c \<noteq> 10 \<and> c < 0x80"

lemma attr_bits: "bit (0x0700 :: cint) n \<longleftrightarrow> 8 \<le> n \<and> n < 11"
proof -
  have m: "(0x0700 :: cint) = push_bit 8 (mask 3)" by (simp add: mask_eq_exp_minus_1)
  show ?thesis unfolding m by (auto simp: bit_simps)
qed

lemma text_word:
  "(ucast (ucast (ucast c OR (0x0700 :: cint)) :: u16) :: u8) = c"
  "(ucast (drop_bit 8 (ucast (ucast c OR (0x0700 :: cint)) :: u16)) :: u8) = 7"
proof -
  show "(ucast (ucast (ucast c OR (0x0700 :: cint)) :: u16) :: u8) = c"
    by (rule bit_word_eqI) (simp only: bit_ucast_iff bit_or_iff attr_bits, auto)
  have m: "(7 :: u8) = mask 3" by (simp add: mask_eq_exp_minus_1)
  show "(ucast (drop_bit 8 (ucast (ucast c OR (0x0700 :: cint)) :: u16)) :: u8) = 7"
    unfolding m by (rule bit_word_eqI)
      (simp only: bit_ucast_iff bit_or_iff bit_drop_bit_eq o_def attr_bits bit_mask_iff, auto dest: bit_imp_le_length)
qed

lemma scast_byte: "unat (x :: u8) < 128 \<Longrightarrow> (scast x :: cint) = of_nat (unat x)"
  using sint_byte [of x] by (simp only: scast_eq of_int_of_nat_eq)

lemma plain_cell:
  assumes "plain c"
  shows "store16 p (ucast (scast c OR (0x0700 :: cint))) m = m(p := c, p + 1 := 7)"
proof -
  have "unat c < 128" using assms by (simp add: plain_def word_less_nat_alt)
  then have "(scast c :: cint) = ucast c" by (simp add: scast_byte)
  then show ?thesis by (simp only: store16_def text_word)
qed

lemma cell_next:
  assumes "unat x < 79"
  shows "cell (x + 1) y = cell x y + 2"
proof -
  have "unat (x + 1) = Suc (unat x)" using assms by (simp add: unat_word_ariths)
  then have "(scast (x + 1) :: cint) = scast x + 1" using assms by (simp add: scast_byte)
  then show ?thesis by (simp add: cell_def algebra_simps)
qed

lemma put_plain:
  assumes "plain c" and "unat (kx s) < 79"
  shows "kx (put_char hw c s) = kx s + 1" "ky (put_char hw c s) = ky s"
    "scr_mem (put_char hw c s) = (scr_mem s)(cell (kx s) (ky s) := c, cell (kx s) (ky s) + 1 := 7)"
proof -
  have "\<not> 80 \<le>s kx s + 1" using assms(2) by (subst sle_80) (simp_all add: unat_word_ariths)
  then show "kx (put_char hw c s) = kx s + 1" "ky (put_char hw c s) = ky s"
    "scr_mem (put_char hw c s) = (scr_mem s)(cell (kx s) (ky s) := c, cell (kx s) (ky s) + 1 := 7)"
    using assms(1) plain_cell [of c] by (simp_all add: put_char_def Let_def plain_def)
qed

lemma two_more:
  fixes a :: addr
  assumes "n < 80"
  shows "a - p < of_nat (2 * Suc n) \<longleftrightarrow> a = p \<or> a = p + 1 \<or> a - (p + 2) < of_nat (2 * n)"
proof -
  have w: "(of_nat (2 * Suc n) :: u32) = of_nat (2 * n) + 2" by simp
  have "unat (of_nat (2 * n) + 2 :: u32) = 2 * n + 2" "unat (of_nat (2 * n) + 1 :: u32) = 2 * n + 1"
    using assms by (simp_all add: unat_word_ariths unat_of_nat)
  then have "(of_nat (2 * n) + 2 :: u32) \<noteq> 0" "(of_nat (2 * n) + 1 :: u32) \<noteq> 0" by (simp_all add: word_unat_eq_iff)
  then show ?thesis
    unfolding w using range_step [of "of_nat (2 * n) + 2" a p] range_step [of "of_nat (2 * n) + 1" a "p + 1"]
    by (simp add: algebra_simps)
qed

lemma vprintk_loop_plain:
  assumes "\<forall>i < n. plain (scr_mem s (buf + of_nat i))" and "scr_mem s (buf + of_nat n) = 0" and "unat (kx s) + n < 80"
    and "\<forall>i \<le> n. \<not> buf + of_nat i - cell (kx s) (ky s) < of_nat (2 * n)"
  shows "\<exists>s'. vprintk_loop hw buf s = Some s' \<and> kx s' = kx s + of_nat n \<and> ky s' = ky s \<and>
    (\<forall>i < n. scr_mem s' (cell (kx s) (ky s) + of_nat (2 * i)) = scr_mem s (buf + of_nat i) \<and>
      scr_mem s' (cell (kx s) (ky s) + of_nat (2 * i) + 1) = 7) \<and>
    (\<forall>a. \<not> a - cell (kx s) (ky s) < of_nat (2 * n) \<longrightarrow> scr_mem s' a = scr_mem s a)"
  using assms
proof (induction n arbitrary: buf s)
  case 0
  then show ?case by (subst vprintk_loop.simps) simp
next
  case (Suc n)
  let ?p = "cell (kx s) (ky s)" let ?c = "scr_mem s buf" let ?s = "put_char hw ?c s"
  have n: "n < 80" "unat (kx s) < 79" using Suc.prems(3) by auto
  have c: "plain ?c" using Suc.prems(1) [rule_format, of 0] by simp
  note put = put_plain [OF c n(2), of hw]
  have cell: "cell (kx ?s) (ky ?s) = ?p + 2" using put cell_next [OF n(2)] by simp
  have kx: "unat (kx ?s) + n < 80" using put(1) Suc.prems(3) by (simp add: unat_word_ariths)
  have far: "\<not> buf + 1 + of_nat i - (?p + 2) < of_nat (2 * n) \<and> buf + 1 + of_nat i \<noteq> ?p \<and> buf + 1 + of_nat i \<noteq> ?p + 1"
    if "i \<le> n" for i
    using Suc.prems(4) [rule_format, of "Suc i"] that two_more [OF n(1), of "buf + 1 + of_nat i" ?p] by (simp add: ac_simps)
  then have same: "scr_mem ?s (buf + 1 + of_nat i) = scr_mem s (buf + of_nat (Suc i))" if "i \<le> n" for i
    using put(3) that by (simp add: ac_simps)
  have "\<exists>s'. vprintk_loop hw (buf + 1) ?s = Some s' \<and> kx s' = kx ?s + of_nat n \<and> ky s' = ky ?s \<and>
    (\<forall>i < n. scr_mem s' (?p + 2 + of_nat (2 * i)) = scr_mem ?s (buf + 1 + of_nat i) \<and> scr_mem s' (?p + 2 + of_nat (2 * i) + 1) = 7) \<and>
    (\<forall>a. \<not> a - (?p + 2) < of_nat (2 * n) \<longrightarrow> scr_mem s' a = scr_mem ?s a)"
  proof -
    have "\<forall>i < n. plain (scr_mem ?s (buf + 1 + of_nat i))"
      using same Suc.prems(1) [rule_format, of "Suc i" for i] by (simp del: of_nat_Suc)
    moreover have "scr_mem ?s (buf + 1 + of_nat n) = 0" using same [of n] Suc.prems(2) by simp
    moreover have "\<forall>i \<le> n. \<not> buf + 1 + of_nat i - cell (kx ?s) (ky ?s) < of_nat (2 * n)" unfolding cell using far by blast
    ultimately show ?thesis using Suc.IH [of ?s "buf + 1"] kx unfolding cell by blast
  qed
  then obtain s' where s': "vprintk_loop hw (buf + 1) ?s = Some s'" "kx s' = kx ?s + of_nat n" "ky s' = ky ?s"
    and new: "\<forall>i < n. scr_mem s' (?p + 2 + of_nat (2 * i)) = scr_mem ?s (buf + 1 + of_nat i) \<and> scr_mem s' (?p + 2 + of_nat (2 * i) + 1) = 7"
    and old: "\<forall>a. \<not> a - (?p + 2) < of_nat (2 * n) \<longrightarrow> scr_mem s' a = scr_mem ?s a" by blast
  have "vprintk_loop hw buf s = Some s'" using c s'(1) by (subst vprintk_loop.simps) (simp add: plain_def)
  moreover have "scr_mem s' (?p + of_nat (2 * i)) = scr_mem s (buf + of_nat i) \<and> scr_mem s' (?p + of_nat (2 * i) + 1) = 7" if "i < Suc n" for i
  proof (cases i)
    case 0
    have "\<not> (- 2 :: u32) < of_nat (2 * n)"
      using n by (simp add: word_less_nat_alt unat_of_nat unat_word_ariths)
    moreover have "\<not> (- 1 :: u32) < of_nat (2 * n)" by (rule minus_one_not_less)
    ultimately show ?thesis using 0 old [rule_format, of ?p] old [rule_format, of "?p + 1"] put(3) by simp
  next
    case (Suc j)
    then show ?thesis using new [rule_format, of j] same [of j] that by (simp add: algebra_simps)
  qed
  moreover have "scr_mem s' a = scr_mem s a" if "\<not> a - ?p < of_nat (2 * Suc n)" for a
    using that old [rule_format, of a] put(3) unfolding two_more [OF n(1)] by simp
  ultimately show ?case using s'(2,3) put(1,2) by (auto simp: add.assoc)
qed

text \<open>vprintk of a string of plain characters that fits in the row writes each with attribute 7 into its
  cell, moves the column, keeps the row and changes no other memory.\<close>

theorem vprintk_line:
  assumes "\<forall>i < n. plain (scr_mem s (buf + of_nat i))" and "scr_mem s (buf + of_nat n) = 0" and "unat (kx s) + n < 80"
    and "\<forall>i \<le> n. \<not> buf + of_nat i - cell (kx s) (ky s) < of_nat (2 * n)"
  shows "\<exists>s'. vprintk hw buf s = Some (0, s') \<and> kx s' = kx s + of_nat n \<and> ky s' = ky s \<and>
    (\<forall>i < n. scr_mem s' (cell (kx s) (ky s) + of_nat (2 * i)) = scr_mem s (buf + of_nat i) \<and>
      scr_mem s' (cell (kx s) (ky s) + of_nat (2 * i) + 1) = 7) \<and>
    (\<forall>a. \<not> a - cell (kx s) (ky s) < of_nat (2 * n) \<longrightarrow> scr_mem s' a = scr_mem s a)"
  using vprintk_loop_plain [OF assms, of hw] by (auto simp: vprintk_def)

text \<open>\<^verbatim>\<open>kprintf\<close> of a format whose rendering is plain and fits in the row.\<close>

lemma print_formatted_line:
  assumes "render ts xs = Some out" and "\<forall>t \<in> set ts. token_ok t" and "\<forall>c \<in> set out. plain c"
    and "kept kbuf (length out) (scr_mem s) (load32 (scr_mem s) l) (format_bytes ts)"
    and "args_kept kbuf (length out) (scr_mem s) (l + 4) xs" and "unat (kx s) + length out < 80"
    and "\<forall>i \<le> length out. \<not> kbuf + of_nat i - cell (kx s) (ky s) < of_nat (2 * length out)"
  shows "\<exists>s'. print_formatted hw kbuf l s = Some (of_nat (length out), s') \<and> kx s' = kx s + of_nat (length out) \<and> ky s' = ky s \<and>
    (\<forall>i < length out. scr_mem s' (cell (kx s) (ky s) + of_nat (2 * i)) = out ! i \<and>
      scr_mem s' (cell (kx s) (ky s) + of_nat (2 * i) + 1) = 7) \<and>
    (\<forall>a. \<not> a - cell (kx s) (ky s) < of_nat (2 * length out) \<longrightarrow> \<not> a - kbuf < of_nat (Suc (length out)) \<longrightarrow> scr_mem s' a = scr_mem s a)"
proof -
  let ?n = "length out" let ?m = "(store_bytes kbuf out (scr_mem s))(kbuf + of_nat ?n := 0)" let ?t = "s\<lparr>scr_mem := ?m\<rparr>"
  have n: "?n < 4294967296" using assms(6) by simp
  have v: "vsprintf kbuf (load32 (scr_mem s) l) (va_start l) (scr_mem s) = Some (of_nat ?n, store_bytes kbuf out (scr_mem s))"
    using vsprintf_loop_renders [of ts xs out kbuf "scr_mem s" "load32 (scr_mem s) l" "va_start l"] assms(1,2,4,5) n
    by (simp add: vsprintf_def va_start_def)
  have u: "unat (of_nat i :: u32) = i" if "i \<le> ?n" for i using that n by (intro unat_of_nat32) simp
  have ne: "kbuf + of_nat i \<noteq> kbuf + of_nat ?n" if "i < ?n" for i
  proof
    assume "kbuf + of_nat i = kbuf + of_nat ?n"
    then have "(of_nat i :: u32) = of_nat ?n" by simp
    then have "unat (of_nat i :: u32) = unat (of_nat ?n :: u32)" by (rule arg_cong)
    then show False using that u [of i] u [of ?n] by simp
  qed
  have written: "scr_mem ?t (kbuf + of_nat i) = out ! i" if "i < ?n" for i
    using store_bytes_holds [OF n, of kbuf "scr_mem s"] that ne [OF that] by (simp add: holds_def)
  have "\<forall>i < ?n. plain (scr_mem ?t (kbuf + of_nat i))" using written assms(3) by simp
  moreover have "scr_mem ?t (kbuf + of_nat ?n) = 0" by simp
  moreover have "unat (kx ?t) + ?n < 80" "\<forall>i \<le> ?n. \<not> kbuf + of_nat i - cell (kx ?t) (ky ?t) < of_nat (2 * ?n)"
    using assms(6,7) by simp_all
  ultimately obtain s' where s': "vprintk_loop hw kbuf ?t = Some s'" "kx s' = kx s + of_nat ?n" "ky s' = ky s"
      "\<forall>i < ?n. scr_mem s' (cell (kx s) (ky s) + of_nat (2 * i)) = out ! i \<and> scr_mem s' (cell (kx s) (ky s) + of_nat (2 * i) + 1) = 7"
      "\<forall>a. \<not> a - cell (kx s) (ky s) < of_nat (2 * ?n) \<longrightarrow> scr_mem s' a = scr_mem ?t a"
    using vprintk_loop_plain [of ?n ?t kbuf hw] written by auto
  have "scr_mem ?t a = scr_mem s a" if "\<not> a - kbuf < of_nat (Suc ?n)" for a
  proof -
    have "unat (of_nat (Suc ?n) :: u32) = Suc ?n" using assms(6) by (intro unat_of_nat32) simp
    then have d: "Suc ?n \<le> unat (a - kbuf)" using that by (simp add: word_less_nat_alt)
    then have "a \<noteq> kbuf + of_nat ?n" using u [of ?n] by auto
    moreover have "\<not> a - kbuf < of_nat ?n" using d u [of ?n] by (simp add: word_less_nat_alt)
    ultimately show ?thesis using store_bytes_frame [OF n] by simp
  qed
  then show ?thesis using s' by (auto simp: print_formatted_def v vprintk_def)
qed

text \<open>kprintf of a format whose rendering is plain and fits in the row returns its length, puts each
  character with attribute 7 into its cell, moves the column and keeps the row.\<close>

theorem kprintf_line:
  assumes "render ts xs = Some out" and "\<forall>t \<in> set ts. token_ok t" and "\<forall>c \<in> set out. plain c"
    and "kept kbuf (length out) (scr_mem s) (load32 (scr_mem s) l) (format_bytes ts)"
    and "args_kept kbuf (length out) (scr_mem s) (l + 4) xs" and "unat (kx s) + length out < 80"
    and "\<forall>i \<le> length out. \<not> kbuf + of_nat i - cell (kx s) (ky s) < of_nat (2 * length out)"
  shows "\<exists>s'. kprintf hw kbuf l s = Some (of_nat (length out), s') \<and> kx s' = kx s + of_nat (length out) \<and> ky s' = ky s \<and>
    (\<forall>i < length out. scr_mem s' (cell (kx s) (ky s) + of_nat (2 * i)) = out ! i \<and>
      scr_mem s' (cell (kx s) (ky s) + of_nat (2 * i) + 1) = 7)"
  using print_formatted_line [OF assms, of hw] by (auto simp: kprintf_def)

text \<open>The row is a signed byte: the row after 127 is -128, whose cells lie 20480 bytes below the video memory.\<close>

theorem printk_row_wraps: "ky s = 127 \<Longrightarrow> ky (put_char hw 10 s) = - 128 \<and> cell (kx (put_char hw 10 s)) (ky (put_char hw 10 s)) = 0xB3000"
  by (simp add: put_char_def Let_def cell_def word_sle_eq)

section \<open>Examples\<close>

definition demo_screen :: kscreen where
  "demo_screen = \<lparr>port_in = (\<lambda>_. 0), port_out = [], scr_mem = (\<lambda>a. if a = 0x100 then 72 else if a = 0x101 then 105 else 0), kx = 3, ky = 2\<rparr>"

theorem vprintk_line_witness:
  "\<exists>s'. vprintk latch 0x100 demo_screen = Some (0, s') \<and> kx s' = 5 \<and> scr_mem s' (0xB8000 + 326) = 72 \<and> scr_mem s' (0xB8000 + 328) = 105"
proof -
  have p: "cell (kx demo_screen) (ky demo_screen) = 0xB8000 + 326" by (simp add: demo_screen_def cell_def)
  have lt: "i < 2 \<longleftrightarrow> i = 0 \<or> i = 1" and le: "i \<le> 2 \<longleftrightarrow> i = 0 \<or> i = 1 \<or> i = 2" for i :: nat by linarith+
  have "\<forall>i < 2. plain (scr_mem demo_screen (0x100 + of_nat i))" by (auto simp: lt demo_screen_def plain_def)
  moreover have "scr_mem demo_screen (0x100 + of_nat 2) = 0" "unat (kx demo_screen) + 2 < 80" by (simp_all add: demo_screen_def)
  moreover have "\<forall>i \<le> 2. \<not> 0x100 + of_nat i - cell (kx demo_screen) (ky demo_screen) < of_nat (2 * 2)"
    unfolding p by (auto simp: le)
  ultimately obtain s' where s': "vprintk latch 0x100 demo_screen = Some (0, s')" "kx s' = kx demo_screen + of_nat 2"
    "\<forall>i < 2. scr_mem s' (0xB8000 + 326 + of_nat (2 * i)) = scr_mem demo_screen (0x100 + of_nat i)"
    using vprintk_line [of 2 demo_screen "0x100" latch] unfolding p by blast
  show ?thesis using s'(1,2) s'(3) [rule_format, of 0] s'(3) [rule_format, of 1] by (simp add: demo_screen_def)
qed


text \<open>\<^verbatim>\<open>kprintf("%c=%d %x", 65, -7, 0xBEEF)\<close>\<close>

definition demo_print :: kscreen where
  "demo_print = \<lparr>port_in = (\<lambda>_. 0), port_out = [], scr_mem = store_bytes 0x200 (word_bytes 0x100) demo_format, kx = 3, ky = 2\<rparr>"

theorem kprintf_line_witness:
  "\<exists>s'. kprintf latch 0x1000 0x200 demo_print = Some (9, s') \<and> kx s' = 12 \<and> scr_mem s' (0xB8000 + 326) = 65 \<and> scr_mem s' (0xB8000 + 330) = 45"
proof -
  let ?out = "[65, 61, 45, 55, 32, 66, 69, 69, 70] :: u8 list"
  have p: "cell (kx demo_print) (ky demo_print) = 0xB8000 + 326" by (simp add: demo_print_def cell_def)
  have l: "load32 (scr_mem demo_print) 0x200 = 0x100" by (simp add: demo_print_def demo_format_def word_bytes_def load32_def format_bytes_def)
  have r: "render [Chr, Lit 61, Dec, Lit 32, Hex] [Word 65, Word (- 7), Word 0xBEEF] = Some ?out"
    by (simp add: decimal_def hexadecimal_def number.simps glyph_def)
  have u: "i \<le> 9 \<longleftrightarrow> i = 0 \<or> i = 1 \<or> i = 2 \<or> i = 3 \<or> i = 4 \<or> i = 5 \<or> i = 6 \<or> i = 7 \<or> i = 8 \<or> i = 9" for i :: nat by presburger
  have "kept 0x1000 (length ?out) (scr_mem demo_print) (load32 (scr_mem demo_print) 0x200) (format_bytes [Chr, Lit 61, Dec, Lit 32, Hex])"
    unfolding l by (simp add: demo_print_def demo_format_def format_bytes_def word_bytes_def)
  moreover have "args_kept 0x1000 (length ?out) (scr_mem demo_print) (0x200 + 4) [Word 65, Word (- 7), Word 0xBEEF]"
    by (simp add: demo_print_def demo_format_def format_bytes_def word_bytes_def)
  moreover have "unat (kx demo_print) + length ?out < 80" by (simp add: demo_print_def)
  moreover have "\<forall>i \<le> length ?out. \<not> 0x1000 + of_nat i - cell (kx demo_print) (ky demo_print) < of_nat (2 * length ?out)"
  proof -
    have n: "length ?out = 9" by simp
    show ?thesis unfolding p n u by auto
  qed
  moreover have "\<forall>c \<in> set ?out. plain c" by (simp add: plain_def)
  ultimately obtain s' where s': "kprintf latch 0x1000 0x200 demo_print = Some (of_nat (length ?out), s')"
    "kx s' = kx demo_print + of_nat (length ?out)"
    "\<forall>i < length ?out. scr_mem s' (cell (kx demo_print) (ky demo_print) + of_nat (2 * i)) = ?out ! i"
    using kprintf_line [OF r, of "0x1000" demo_print "0x200" latch] by auto
  show ?thesis using s'(1,2) s'(3) [rule_format, of 0] s'(3) [rule_format, of 2] unfolding p by (simp add: demo_print_def)
qed

end
