(* ===== verification/Interrupt.thy ===== *)
theory Interrupt
  imports IoPort StringLib
begin

text \<open>
  Interrupt descriptors, the routing of interrupts and exceptions and the dispatch of system calls
  (\<^verbatim>\<open>kernel/int.c\<close>, \<^verbatim>\<open>include/kernel/int.h\<close>). A function pointer is an address: \<^verbatim>\<open>fn\<close> gives the address of a function by
  its name, \<^verbatim>\<open>call\<close> and \<^verbatim>\<open>callx\<close> run a handler, \<^verbatim>\<open>callsys\<close> a system call. An index behind a table of 255
  descriptors and a call through a null pointer are \<^const>\<open>None\<close>. Messages to the screen are recorded.
\<close>

section \<open>Data\<close>

definition IDT_SIZE :: nat where [code_defs]: "IDT_SIZE = 0xFF"
definition EXPMAXVECTOR :: u8 where [code_defs]: "EXPMAXVECTOR = 31"
definition SELECTOR_FLAT_C :: u16 where [code_defs]: "SELECTOR_FLAT_C = 0x08"
definition SELECTOR_KERNEL_CS :: u16 where [code_defs]: "SELECTOR_KERNEL_CS = SELECTOR_FLAT_C"
definition DA_386IGate :: u8 where [code_defs]: "DA_386IGate = 0x8E"
definition PRIVILEGE_KRNL :: u8 where [code_defs]: "PRIVILEGE_KRNL = 0"
definition PRIVILEGE_USER :: u8 where [code_defs]: "PRIVILEGE_USER = 3"

record gate_struct =
  offset_low :: u16
  selector :: u16
  dcount :: u8
  attr :: u8
  offset_hight :: u16

record irq_route_table =
  handlename :: addr
  handle :: addr

datatype kmsg = Unrouted_irq | Unrouted_exception u8 | Exception_state cint cint cint cint

record intr = ports +
  idt :: "nat \<Rightarrow> gate_struct"
  irqtable :: "nat \<Rightarrow> irq_route_table"
  clicnt :: u32
  if_flag :: bool
  system_entry :: "nat \<Rightarrow> addr"
  ps_entry :: "nat \<Rightarrow> addr"
  file_entry :: "nat \<Rightarrow> addr"
  mm_entry :: "nat \<Rightarrow> addr"
  klog :: "kmsg list"

definition message :: "kmsg \<Rightarrow> 's intr_scheme \<Rightarrow> 's intr_scheme" where
  "message k s = s\<lparr>klog := klog s @ [k]\<rparr>"

section \<open>Nested masking\<close>

definition sti :: "'s intr_scheme \<Rightarrow> 's intr_scheme" where
  "sti s = (let s = s\<lparr>clicnt := clicnt s - 1\<rparr> in if 0 = clicnt s then s\<lparr>if_flag := True\<rparr> else s)"

definition cli :: "'s intr_scheme \<Rightarrow> 's intr_scheme" where
  "cli s = (let s = s\<lparr>clicnt := clicnt s + 1\<rparr> in if 1 = clicnt s then s\<lparr>if_flag := False\<rparr> else s)"

section \<open>Descriptors\<close>

definition init_idt_desc :: "u8 \<Rightarrow> u8 \<Rightarrow> addr \<Rightarrow> u8 \<Rightarrow> 's intr_scheme \<Rightarrow> 's intr_scheme option" where
  "init_idt_desc vector desc_type irqhandle prvilege s =
     (if unat vector < IDT_SIZE
      then Some (s\<lparr>idt := (idt s)(unat vector :=
             \<lparr>offset_low = ucast (irqhandle AND 0xFFFF), selector = SELECTOR_KERNEL_CS, dcount = 0,
              attr = ucast (ucast desc_type OR (push_bit 5 (ucast prvilege) :: u32)),
              offset_hight = ucast (drop_bit 16 irqhandle AND 0xFFFF)\<rparr>)\<rparr>)
      else None)"

text \<open>The limit that \<^verbatim>\<open>lidt\<close> gives the processor: a gate has 8 bytes.\<close>

definition gate_size :: nat where [code_defs]: "gate_size = 8"
definition idt_limit :: u16 where [code_defs]: "idt_limit = of_nat (IDT_SIZE * gate_size - 1)"

text \<open>The vectors of the exceptions.\<close>

definition INT_VECTOR_DIVIDE :: u8 where [code_defs]: "INT_VECTOR_DIVIDE = 0x0"
definition INT_VECTOR_DEBUG :: u8 where [code_defs]: "INT_VECTOR_DEBUG = 0x1"
definition INT_VECTOR_NMI :: u8 where [code_defs]: "INT_VECTOR_NMI = 0x2"
definition INT_VECTOR_BREAKPOINT :: u8 where [code_defs]: "INT_VECTOR_BREAKPOINT = 0x3"
definition INT_VECTOR_OVERFLOW :: u8 where [code_defs]: "INT_VECTOR_OVERFLOW = 0x4"
definition INT_VECTOR_BOUNDS :: u8 where [code_defs]: "INT_VECTOR_BOUNDS = 0x5"
definition INT_VECTOR_INVAL_OP :: u8 where [code_defs]: "INT_VECTOR_INVAL_OP = 0x6"
definition INT_VECTOR_COPROC_NOT :: u8 where [code_defs]: "INT_VECTOR_COPROC_NOT = 0x7"
definition INT_VECTOR_DOUBLE_FAULT :: u8 where [code_defs]: "INT_VECTOR_DOUBLE_FAULT = 0x8"
definition INT_VECTOR_COPROC_SEG :: u8 where [code_defs]: "INT_VECTOR_COPROC_SEG = 0x9"
definition INT_VECTOR_INVAL_TSS :: u8 where [code_defs]: "INT_VECTOR_INVAL_TSS = 0xA"
definition INT_VECTOR_SEG_NOT :: u8 where [code_defs]: "INT_VECTOR_SEG_NOT = 0xB"
definition INT_VECTOR_STACK_FAULT :: u8 where [code_defs]: "INT_VECTOR_STACK_FAULT = 0xC"
definition INT_VECTOR_PROTECTION :: u8 where [code_defs]: "INT_VECTOR_PROTECTION = 0xD"
definition INT_VECTOR_PAGE_FAULT :: u8 where [code_defs]: "INT_VECTOR_PAGE_FAULT = 0xE"
definition INT_VECTOR_COPROC_ERR :: u8 where [code_defs]: "INT_VECTOR_COPROC_ERR = 0xF"

definition gates :: "(u8 \<times> string \<times> u8) list" where
  "gates =
     [(INT_VECTOR_DIVIDE, ''divide_error'', PRIVILEGE_KRNL),
      (INT_VECTOR_DEBUG, ''single_step_exception'', PRIVILEGE_KRNL),
      (INT_VECTOR_NMI, ''nmi'', PRIVILEGE_KRNL),
      (INT_VECTOR_BREAKPOINT, ''breakpoint_exception'', PRIVILEGE_USER),
      (INT_VECTOR_OVERFLOW, ''overflow'', PRIVILEGE_USER),
      (INT_VECTOR_BOUNDS, ''bounds_check'', PRIVILEGE_KRNL),
      (INT_VECTOR_INVAL_OP, ''inval_opcode'', PRIVILEGE_KRNL),
      (INT_VECTOR_COPROC_NOT, ''copr_not_available'', PRIVILEGE_KRNL),
      (INT_VECTOR_DOUBLE_FAULT, ''double_fault'', PRIVILEGE_KRNL),
      (INT_VECTOR_COPROC_SEG, ''copr_seg_overrun'', PRIVILEGE_KRNL),
      (INT_VECTOR_INVAL_TSS, ''inval_tss'', PRIVILEGE_KRNL),
      (INT_VECTOR_SEG_NOT, ''segment_not_present'', PRIVILEGE_KRNL),
      (INT_VECTOR_STACK_FAULT, ''stack_exception'', PRIVILEGE_KRNL),
      (INT_VECTOR_PROTECTION, ''general_protection'', PRIVILEGE_KRNL),
      (INT_VECTOR_PAGE_FAULT, ''page_fault'', PRIVILEGE_KRNL),
      (INT_VECTOR_COPROC_ERR, ''copr_error'', PRIVILEGE_KRNL),
      (INT_VECTOR_IRQ0 + 0, ''clock_hwint00'', PRIVILEGE_KRNL),
      (INT_VECTOR_IRQ0 + 1, ''keyboard_hwint01'', PRIVILEGE_KRNL),
      (INT_VECTOR_IRQ0 + 2, ''cascade_hwint02'', PRIVILEGE_KRNL),
      (INT_VECTOR_IRQ0 + 3, ''second_serial_hwint03'', PRIVILEGE_KRNL),
      (INT_VECTOR_IRQ0 + 4, ''first_serial_hwint04'', PRIVILEGE_KRNL),
      (INT_VECTOR_IRQ0 + 5, ''XT_winchester_hwint05'', PRIVILEGE_KRNL),
      (INT_VECTOR_IRQ0 + 6, ''floppy_hwint06'', PRIVILEGE_KRNL),
      (INT_VECTOR_IRQ0 + 7, ''printer_hwint07'', PRIVILEGE_KRNL),
      (INT_VECTOR_IRQ8 + 0, ''realtime_clock_hwint08'', PRIVILEGE_KRNL),
      (INT_VECTOR_IRQ8 + 1, ''irq_2_redirected_hwint09'', PRIVILEGE_KRNL),
      (INT_VECTOR_IRQ8 + 2, ''irq_10_hwint10'', PRIVILEGE_KRNL),
      (INT_VECTOR_IRQ8 + 3, ''irq_11_hwint11'', PRIVILEGE_KRNL),
      (INT_VECTOR_IRQ8 + 4, ''PS_2_mourse_hwint12'', PRIVILEGE_KRNL),
      (INT_VECTOR_IRQ8 + 5, ''FPU_exception_hwint13'', PRIVILEGE_KRNL),
      (INT_VECTOR_IRQ8 + 6, ''IDE0_hwint14'', PRIVILEGE_KRNL),
      (INT_VECTOR_IRQ8 + 7, ''IDE1_hwint15'', PRIVILEGE_KRNL),
      (0x80, ''asm_sys_call'', PRIVILEGE_USER)]"

fun init_gates :: "(string \<Rightarrow> addr) \<Rightarrow> (u8 \<times> string \<times> u8) list \<Rightarrow> 's intr_scheme \<Rightarrow> 's intr_scheme option" where
  "init_gates fn [] s = Some s"
| "init_gates fn ((v, f, p) # gs) s = Option.bind (init_idt_desc v DA_386IGate (fn f) p s) (init_gates fn gs)"

section \<open>System call tables\<close>

text \<open>
  The tables have 4, 3, 11 and 4 elements; the calls are numbered from 1, so the last one of each class is
  stored behind its table. The functions here include that word as their last value; where the linker puts
  another table there, element 0 of that table, which no valid call number selects, is the same word.
\<close>

text \<open>A call number has the class in its upper and the function in its lower half.\<close>

definition SYS_CALL_SYS :: u32 where [code_defs]: "SYS_CALL_SYS = 0x00010000"
definition SYS_CALL_SYSTEM :: u32 where [code_defs]: "SYS_CALL_SYSTEM = drop_bit 16 SYS_CALL_SYS"
definition SYS_CALL_VERSION :: u32 where [code_defs]: "SYS_CALL_VERSION = SYS_CALL_SYS OR 0x00000001"
definition SYS_CALL_CHROOT :: u32 where [code_defs]: "SYS_CALL_CHROOT = SYS_CALL_SYS OR 0x00000002"
definition SYS_CALL_MOUNT :: u32 where [code_defs]: "SYS_CALL_MOUNT = SYS_CALL_SYS OR 0x00000003"
definition SYS_CALL_UMOUNT :: u32 where [code_defs]: "SYS_CALL_UMOUNT = SYS_CALL_SYS OR 0x00000004"

definition SYS_CALL_PS :: u32 where [code_defs]: "SYS_CALL_PS = 0x00020000"
definition SYS_CALL_PROCESS :: u32 where [code_defs]: "SYS_CALL_PROCESS = drop_bit 16 SYS_CALL_PS"
definition SYS_CALL_EXECL :: u32 where [code_defs]: "SYS_CALL_EXECL = SYS_CALL_PS OR 0x00000001"
definition SYS_CALL_EXECV :: u32 where [code_defs]: "SYS_CALL_EXECV = SYS_CALL_PS OR 0x00000002"
definition SYS_CALL_EXIT :: u32 where [code_defs]: "SYS_CALL_EXIT = SYS_CALL_PS OR 0x00000003"

definition SYS_CALL_FILE :: u32 where [code_defs]: "SYS_CALL_FILE = 0x00030000"
definition SYS_CALL_FILE_CTL :: u32 where [code_defs]: "SYS_CALL_FILE_CTL = drop_bit 16 SYS_CALL_FILE"
definition SYS_CALL_FILE_OPEN :: u32 where [code_defs]: "SYS_CALL_FILE_OPEN = SYS_CALL_FILE OR 0x00000001"
definition SYS_CALL_FILE_WRITE :: u32 where [code_defs]: "SYS_CALL_FILE_WRITE = SYS_CALL_FILE OR 0x00000002"
definition SYS_CALL_FILE_READ :: u32 where [code_defs]: "SYS_CALL_FILE_READ = SYS_CALL_FILE OR 0x00000003"
definition SYS_CALL_FILE_CLOSE :: u32 where [code_defs]: "SYS_CALL_FILE_CLOSE = SYS_CALL_FILE OR 0x00000004"
definition SYS_CALL_FILE_IOCTL :: u32 where [code_defs]: "SYS_CALL_FILE_IOCTL = SYS_CALL_FILE OR 0x00000005"
definition SYS_CALL_FILE_CREATE :: u32 where [code_defs]: "SYS_CALL_FILE_CREATE = SYS_CALL_FILE OR 0x00000006"
definition SYS_CALL_FILE_REMOVE :: u32 where [code_defs]: "SYS_CALL_FILE_REMOVE = SYS_CALL_FILE OR 0x00000007"
definition SYS_CALL_FILE_MKDIR :: u32 where [code_defs]: "SYS_CALL_FILE_MKDIR = SYS_CALL_FILE OR 0x00000008"
definition SYS_CALL_FILE_RMDIR :: u32 where [code_defs]: "SYS_CALL_FILE_RMDIR = SYS_CALL_FILE OR 0x00000009"
definition SYS_CALL_FILE_READDIR :: u32 where [code_defs]: "SYS_CALL_FILE_READDIR = SYS_CALL_FILE OR 0x0000000A"
definition SYS_CALL_FILE_LOOKUP :: u32 where [code_defs]: "SYS_CALL_FILE_LOOKUP = SYS_CALL_FILE OR 0x0000000B"

definition SYS_CALL_MEMORY :: u32 where [code_defs]: "SYS_CALL_MEMORY = 0x00040000"
definition SYS_CALL_MM :: u32 where [code_defs]: "SYS_CALL_MM = drop_bit 16 SYS_CALL_MEMORY"
definition SYS_CALL_MM_ALLOC :: u32 where [code_defs]: "SYS_CALL_MM_ALLOC = SYS_CALL_MEMORY OR 0x00000001"
definition SYS_CALL_MM_FREE :: u32 where [code_defs]: "SYS_CALL_MM_FREE = SYS_CALL_MEMORY OR 0x00000002"
definition SYS_CALL_MM_VMALLOC :: u32 where [code_defs]: "SYS_CALL_MM_VMALLOC = SYS_CALL_MEMORY OR 0x00000003"
definition SYS_CALL_MM_VMFREE :: u32 where [code_defs]: "SYS_CALL_MM_VMFREE = SYS_CALL_MEMORY OR 0x00000004"

definition SYS_CALL_SYS_CNT :: nat where [code_defs]: "SYS_CALL_SYS_CNT = 4"
definition SYS_CALL_PS_CNT :: nat where [code_defs]: "SYS_CALL_PS_CNT = 3"
definition SYS_CALL_FILE_CNT :: nat where [code_defs]: "SYS_CALL_FILE_CNT = 0x0B"
definition SYS_CALL_MM_CNT :: nat where [code_defs]: "SYS_CALL_MM_CNT = 4"

definition GETFUNCTIONNUM :: "u32 \<Rightarrow> u32" where [code_defs]: "GETFUNCTIONNUM eax = drop_bit 16 eax"
definition GETCHLDFUCTIONNUM :: "u32 \<Rightarrow> nat" where [code_defs]: "GETCHLDFUCTIONNUM eax = unat (eax AND 0x0000FFFF)"

fun set_entries :: "(nat \<times> addr) list \<Rightarrow> (nat \<Rightarrow> addr) \<Rightarrow> nat \<Rightarrow> addr" where
  "set_entries [] t = t"
| "set_entries ((n, p) # es) t = set_entries es (t(n := p))"

definition add_syscall_route_table :: "(string \<Rightarrow> addr) \<Rightarrow> 's intr_scheme \<Rightarrow> 's intr_scheme" where
  "add_syscall_route_table fn s =
     s\<lparr>system_entry := set_entries
         [(GETCHLDFUCTIONNUM SYS_CALL_VERSION, fn ''sys_version''),
          (GETCHLDFUCTIONNUM SYS_CALL_CHROOT, fn ''sys_chroot''),
          (GETCHLDFUCTIONNUM SYS_CALL_MOUNT, fn ''sys_mount''),
          (GETCHLDFUCTIONNUM SYS_CALL_UMOUNT, fn ''sys_umount'')] (system_entry s),
       ps_entry := set_entries
         [(GETCHLDFUCTIONNUM SYS_CALL_EXECL, fn ''sys_execl''),
          (GETCHLDFUCTIONNUM SYS_CALL_EXECL, fn ''sys_execv''),
          (GETCHLDFUCTIONNUM SYS_CALL_EXECV, fn ''sys_exit'')] (ps_entry s),
       file_entry := set_entries
         [(GETCHLDFUCTIONNUM SYS_CALL_FILE_OPEN, fn ''sys_open''),
          (GETCHLDFUCTIONNUM SYS_CALL_FILE_WRITE, fn ''sys_write''),
          (GETCHLDFUCTIONNUM SYS_CALL_FILE_READ, fn ''sys_read''),
          (GETCHLDFUCTIONNUM SYS_CALL_FILE_CLOSE, fn ''sys_close''),
          (GETCHLDFUCTIONNUM SYS_CALL_FILE_IOCTL, fn ''sys_ioctl''),
          (GETCHLDFUCTIONNUM SYS_CALL_FILE_CREATE, fn ''sys_create''),
          (GETCHLDFUCTIONNUM SYS_CALL_FILE_REMOVE, fn ''sys_remove''),
          (GETCHLDFUCTIONNUM SYS_CALL_FILE_MKDIR, fn ''sys_mkdir''),
          (GETCHLDFUCTIONNUM SYS_CALL_FILE_RMDIR, fn ''sys_rmdir''),
          (GETCHLDFUCTIONNUM SYS_CALL_FILE_READDIR, fn ''sys_readdir''),
          (GETCHLDFUCTIONNUM SYS_CALL_FILE_LOOKUP, fn ''sys_lookup'')] (file_entry s),
       mm_entry := set_entries
         [(GETCHLDFUCTIONNUM SYS_CALL_MM_ALLOC, fn ''sys_open''),
          (GETCHLDFUCTIONNUM SYS_CALL_MM_FREE, fn ''sys_write''),
          (GETCHLDFUCTIONNUM SYS_CALL_MM_VMALLOC, fn ''sys_read''),
          (GETCHLDFUCTIONNUM SYS_CALL_MM_VMFREE, fn ''sys_close'')] (mm_entry s)\<rparr>"

definition irqrouterinit :: "(string \<Rightarrow> addr) \<Rightarrow> 's intr_scheme \<Rightarrow> 's intr_scheme option" where
  "irqrouterinit fn s = map_option (add_syscall_route_table fn) (init_gates fn gates s)"

section \<open>Routing\<close>

definition unrouted_handle :: "hardware \<Rightarrow> u8 \<Rightarrow> 's intr_scheme \<Rightarrow> 's intr_scheme" where
  "unrouted_handle hw irq s =
     (if EXPMAXVECTOR < irq
      then if INT_VECTOR_IRQ0 \<le> irq \<and> irq \<le> INT_VECTOR_IRQ8 + 7
           then let s1 = (if INT_VECTOR_IRQ8 \<le> irq \<and> irq \<le> INT_VECTOR_IRQ8 + 7 then eoi_s hw s else s)
                in message Unrouted_irq (eoi_m hw s1)
           else s
      else message (Unrouted_exception irq) s)"

definition irq_routehandle ::
    "hardware \<Rightarrow> (addr \<Rightarrow> 's intr_scheme \<Rightarrow> 's intr_scheme) \<Rightarrow> u8 \<Rightarrow> 's intr_scheme \<Rightarrow> 's intr_scheme option" where
  "irq_routehandle hw call irq s =
     (if unat irq < IDT_SIZE
      then Some (if handle (irqtable s (unat irq)) \<noteq> NULL
                 then eoi_m hw (eoi_s hw (call (handle (irqtable s (unat irq))) s))
                 else unrouted_handle hw irq s)
      else None)"

definition exp_routehandle ::
    "hardware \<Rightarrow> (addr \<Rightarrow> cint \<Rightarrow> cint \<Rightarrow> cint \<Rightarrow> cint \<Rightarrow> cint \<Rightarrow> 's intr_scheme \<Rightarrow> 's intr_scheme) \<Rightarrow>
     cint \<Rightarrow> cint \<Rightarrow> cint \<Rightarrow> cint \<Rightarrow> cint \<Rightarrow> 's intr_scheme \<Rightarrow> 's intr_scheme option" where
  "exp_routehandle hw callx error_code expvector eip cs eflags s =
     (if unat expvector < IDT_SIZE
      then Some (if handle (irqtable s (unat expvector)) \<noteq> NULL
                 then callx (handle (irqtable s (unat expvector))) error_code expvector eip cs eflags s
                 else unrouted_handle hw (ucast expvector) (message (Exception_state error_code eip cs eflags) s))
      else None)"

definition set_route :: "u8 \<Rightarrow> addr \<Rightarrow> addr \<Rightarrow> 's intr_scheme \<Rightarrow> 's intr_scheme" where
  "set_route irq n h s = s\<lparr>irqtable := (irqtable s)(unat irq := \<lparr>handlename = n, handle = h\<rparr>)\<rparr>"

definition hwregistehandle :: "hardware \<Rightarrow> u8 \<Rightarrow> addr \<Rightarrow> addr \<Rightarrow> 's intr_scheme \<Rightarrow> (cint \<times> 's intr_scheme) option" where
  "hwregistehandle hw irq name irqhandle s =
     (if irq \<le> EXPMAXVECTOR then Some (0, s)
      else if unat irq < IDT_SIZE
      then Some (if handle (irqtable s (unat irq)) = NULL
                 then (1, i8259Asti hw irq (set_route irq name irqhandle s)) else (0, s))
      else None)"

definition hwunregistehandle :: "mem \<Rightarrow> u8 \<Rightarrow> addr \<Rightarrow> addr \<Rightarrow> 's intr_scheme \<Rightarrow> (cint \<times> 's intr_scheme) option" where
  "hwunregistehandle m irq name irqhandle s =
     (if irq \<le> EXPMAXVECTOR then Some (0, s)
      else if unat irq < IDT_SIZE
      then let r = irqtable s (unat irq)
           in if handle r \<noteq> NULL \<and> irqhandle = handle r
              then case strcmp (handlename r) name m of
                     None \<Rightarrow> None
                   | Some d \<Rightarrow> Some (if 0 = d then (1, set_route irq NULL NULL s) else (0, s))
              else Some (0, s)
      else None)"

definition expregistehandle :: "u8 \<Rightarrow> addr \<Rightarrow> addr \<Rightarrow> 's intr_scheme \<Rightarrow> cint \<times> 's intr_scheme" where
  "expregistehandle irq expname exphandle s =
     (if EXPMAXVECTOR < irq then (0, s)
      else if handle (irqtable s (unat irq)) = NULL then (1, set_route irq expname exphandle s) else (0, s))"

definition expunregistehandle :: "mem \<Rightarrow> u8 \<Rightarrow> addr \<Rightarrow> addr \<Rightarrow> 's intr_scheme \<Rightarrow> (cint \<times> 's intr_scheme) option" where
  "expunregistehandle m irq expname exphandle s =
     (if EXPMAXVECTOR < irq then Some (0, s)
      else let r = irqtable s (unat irq)
           in if handle r \<noteq> NULL \<and> exphandle = handle r
              then case strcmp (handlename r) expname m of
                     None \<Rightarrow> None
                   | Some d \<Rightarrow> Some (if 0 = d then (1, set_route irq NULL NULL s) else (0, s))
              else Some (0, s))"

section \<open>System calls\<close>

record stack_regs_struct =
  r_gs :: u32
  r_fs :: u32
  r_es :: u32
  r_ds :: u32
  r_edi :: u32
  r_esi :: u32
  r_ebp :: u32
  r_kernel_esp :: u32
  r_ebx :: u32
  r_edx :: u32
  r_ecx :: u32
  r_eax :: u32
  r_eip :: u32
  r_cs :: u32
  r_eflags :: u32
  r_esp :: u32
  r_ss :: u32

definition wrong_syscall_entry :: "u32 \<Rightarrow> u32 \<Rightarrow> u32 \<Rightarrow> u32 \<Rightarrow> u32 \<Rightarrow> cint" where
  "wrong_syscall_entry ebx ecx edx edi esi = INVALID"

text \<open>The entry that a call number selects; no entry stands for \<^verbatim>\<open>wrong_syscall_entry\<close>.\<close>

definition syscall_route :: "u32 \<Rightarrow> 's intr_scheme \<Rightarrow> addr option" where
  "syscall_route eax s =
     (let slave = GETCHLDFUCTIONNUM eax; kind = GETFUNCTIONNUM eax
      in if kind = SYS_CALL_SYSTEM then if SYS_CALL_SYS_CNT \<ge> slave then Some (system_entry s slave) else None
         else if kind = SYS_CALL_PROCESS then if SYS_CALL_PS_CNT \<ge> slave then Some (ps_entry s slave) else None
         else if kind = SYS_CALL_FILE_CTL then if SYS_CALL_FILE_CNT \<ge> slave then Some (file_entry s slave) else None
         else if kind = SYS_CALL_MM then if SYS_CALL_MM_CNT \<ge> slave then Some (mm_entry s slave) else None
         else None)"

definition sys_call_handle ::
    "(addr \<Rightarrow> u32 \<Rightarrow> u32 \<Rightarrow> u32 \<Rightarrow> u32 \<Rightarrow> u32 \<Rightarrow> 's intr_scheme \<Rightarrow> (cint \<times> 's intr_scheme) option) \<Rightarrow>
     stack_regs_struct \<Rightarrow> 's intr_scheme \<Rightarrow> (stack_regs_struct \<times> 's intr_scheme) option" where
  "sys_call_handle callsys r s =
     (case syscall_route (r_eax r) s of
        None \<Rightarrow> Some (r\<lparr>r_eax := wrong_syscall_entry (r_ebx r) (r_ecx r) (r_edx r) (r_edi r) (r_esi r)\<rparr>, s)
      | Some p \<Rightarrow>
          if p = NULL then None
          else case callsys p (r_ebx r) (r_ecx r) (r_edx r) (r_edi r) (r_esi r) s of
                 None \<Rightarrow> None
               | Some (v, s') \<Rightarrow> Some (r\<lparr>r_eax := v\<rparr>, s'))"

section \<open>Properties\<close>

text \<open>What the processor reads from a descriptor.\<close>

definition gate_offset :: "gate_struct \<Rightarrow> u32" where
  "gate_offset g = push_bit 16 (ucast (offset_hight g)) OR ucast (offset_low g)"

definition gate_dpl :: "gate_struct \<Rightarrow> u8" where
  "gate_dpl g = drop_bit 5 (attr g) AND 3"

definition gate_present :: "gate_struct \<Rightarrow> bool" where
  "gate_present g \<longleftrightarrow> bit (attr g) 7 \<and> attr g AND 0x1F = 0x0E"

definition gate_for :: "addr \<Rightarrow> u8 \<Rightarrow> gate_struct \<Rightarrow> bool" where
  "gate_for h p g \<longleftrightarrow> gate_offset g = h \<and> gate_dpl g = p \<and> gate_present g \<and> selector g = SELECTOR_KERNEL_CS"

lemma split_offset: "push_bit 16 (ucast (ucast (drop_bit 16 x AND 0xFFFF) :: u16)) OR ucast (ucast (x AND 0xFFFF) :: u16) = (x :: u32)"
proof -
  have m: "(0xFFFF :: u32) = mask 16" by (simp add: mask_eq_exp_minus_1)
  show ?thesis unfolding m by (rule bit_word_eqI) (auto simp: bit_simps)
qed

lemma init_idt_desc_gate:
  assumes "unat v < IDT_SIZE" and "p = PRIVILEGE_KRNL \<or> p = PRIVILEGE_USER"
  shows "\<exists>g. init_idt_desc v DA_386IGate h p s = Some (s\<lparr>idt := (idt s)(unat v := g)\<rparr>) \<and> gate_for h p g"
  using assms by (auto simp: init_idt_desc_def gate_for_def gate_offset_def split_offset gate_dpl_def gate_present_def code_defs)

lemma init_gates_all:
  assumes "\<forall>(v, f, p) \<in> set gs. unat v < IDT_SIZE \<and> (p = PRIVILEGE_KRNL \<or> p = PRIVILEGE_USER)" and "distinct (map fst gs)"
  shows "\<exists>s'. init_gates fn gs s = Some s' \<and> (\<forall>v f p. (v, f, p) \<in> set gs \<longrightarrow> gate_for (fn f) p (idt s' (unat v))) \<and>
    (\<forall>v. v \<notin> fst ` set gs \<longrightarrow> idt s' (unat v) = idt s (unat v))"
  using assms
proof (induction fn gs s rule: init_gates.induct)
  case (2 fn v f p gs s)
  have "unat v < IDT_SIZE" "p = PRIVILEGE_KRNL \<or> p = PRIVILEGE_USER" using 2(2) by auto
  then obtain g where g: "init_idt_desc v DA_386IGate (fn f) p s = Some (s\<lparr>idt := (idt s)(unat v := g)\<rparr>)" "gate_for (fn f) p g"
    using init_idt_desc_gate by blast
  obtain s' where s': "init_gates fn gs (s\<lparr>idt := (idt s)(unat v := g)\<rparr>) = Some s'"
    "\<forall>v f p. (v, f, p) \<in> set gs \<longrightarrow> gate_for (fn f) p (idt s' (unat v))"
    "\<forall>w. w \<notin> fst ` set gs \<longrightarrow> idt s' (unat w) = ((idt s)(unat v := g)) (unat w)"
    using 2(1) [of "s\<lparr>idt := (idt s)(unat v := g)\<rparr>"] 2(2,3) g(1) by auto
  have "v \<notin> fst ` set gs" using 2(3) by auto
  then show ?case using g s' by (auto simp flip: word_unat_eq_iff)
qed simp

lemma routed_gates:
  "\<exists>s'. irqrouterinit fn s = Some s' \<and> (\<forall>v f p. (v, f, p) \<in> set gates \<longrightarrow> gate_for (fn f) p (idt s' (unat v))) \<and>
    (\<forall>v. v \<notin> fst ` set gates \<longrightarrow> idt s' (unat v) = idt s (unat v))"
proof -
  have "\<forall>(v, f, p) \<in> set gates. unat v < IDT_SIZE \<and> (p = PRIVILEGE_KRNL \<or> p = PRIVILEGE_USER)"
    by (simp add: gates_def code_defs)
  moreover have "distinct (map fst gates)" by (simp add: gates_def code_defs)
  ultimately obtain s' where "init_gates fn gates s = Some s'"
    "\<forall>v f p. (v, f, p) \<in> set gates \<longrightarrow> gate_for (fn f) p (idt s' (unat v))"
    "\<forall>v. v \<notin> fst ` set gates \<longrightarrow> idt s' (unat v) = idt s (unat v)"
    using init_gates_all [of gates fn s] by blast
  then show ?thesis by (simp add: irqrouterinit_def add_syscall_route_table_def)
qed

text \<open>irqrouterinit fills the 33 gates so that the processor decodes the right handler, privilege and code
  segment from each, and changes no other gate.\<close>

theorem irqrouterinit_gates:
  "\<exists>s'. irqrouterinit fn s = Some s' \<and> (\<forall>v f p. (v, f, p) \<in> set gates \<longrightarrow> gate_for (fn f) p (idt s' (unat v))) \<and>
    (\<forall>v. v \<notin> fst ` set gates \<longrightarrow> idt s' (unat v) = idt s (unat v))"
  by (rule routed_gates)

text \<open>C34: After hwregistehandle of a handler that is not NULL succeeds, an interrupt of that vector runs
  the handler and acknowledges both controllers, a second registration fails, and the routes of the
  other vectors are unchanged.\<close>

theorem registered_handler_runs:
  assumes "hwregistehandle hw irq nm h s = Some (1, s')" and "h \<noteq> NULL"
  shows "irq_routehandle hw call irq s' = Some (eoi_m hw (eoi_s hw (call h s'))) \<and>
    hwregistehandle hw irq nm2 h2 s' = Some (0, s') \<and> (\<forall>v. v \<noteq> irq \<longrightarrow> irqtable s' (unat v) = irqtable s (unat v))"
  using assms
  by (auto simp: hwregistehandle_def irq_routehandle_def i8259Asti_def outb_def set_route_def split: if_splits
      simp flip: word_unat_eq_iff)

text \<open>Registering and unregistering a handler under a terminated name leaves the vector free.\<close>

lemma strcmp_same: "m (p + of_nat n) = 0 \<Longrightarrow> strcmp p p m = Some 0"
proof (induction n arbitrary: p)
  case 0
  then show ?case by (subst strcmp.simps) (simp add: char_diff_def)
next
  case (Suc n)
  then have "strcmp (p + 1) (p + 1) m = Some 0" by (simp add: ac_simps)
  then show ?case by (subst strcmp.simps) (simp add: char_diff_def)
qed

theorem register_unregister:
  assumes "hwregistehandle hw irq nm h s = Some (1, s')" and "h \<noteq> NULL" and "m (nm + of_nat n) = 0"
  shows "hwunregistehandle m irq nm h s' = Some (1, set_route irq NULL NULL s')"
  using assms strcmp_same [of m nm n]
  by (auto simp: hwregistehandle_def hwunregistehandle_def i8259Asti_def outb_def set_route_def Let_def split: if_splits)

text \<open>A sequence of \<^verbatim>\<open>cli\<close> (true) and \<^verbatim>\<open>sti\<close> (false), and its depth if no \<^verbatim>\<open>sti\<close> comes too early.\<close>

fun run_masks :: "bool list \<Rightarrow> 's intr_scheme \<Rightarrow> 's intr_scheme" where
  "run_masks [] s = s"
| "run_masks (c # cs) s = run_masks cs (if c then cli s else sti s)"

fun nest :: "nat \<Rightarrow> bool list \<Rightarrow> nat option" where
  "nest d [] = Some d"
| "nest d (True # cs) = nest (Suc d) cs"
| "nest 0 (False # cs) = None"
| "nest (Suc d) (False # cs) = nest d cs"

lemma run_masks_nest:
  assumes "nest d cs = Some e" and "d + length cs < 2 ^ 32" and "clicnt s = of_nat d" and "if_flag s \<longleftrightarrow> d = 0"
  shows "clicnt (run_masks cs s) = of_nat e \<and> (if_flag (run_masks cs s) \<longleftrightarrow> e = 0)"
  using assms
proof (induction d cs arbitrary: s rule: nest.induct)
  case (2 d cs)
  have "(of_nat d :: u32) = 0 \<longleftrightarrow> d = 0" using 2(3) of_nat_inj32 [of d 0] by auto
  then have "clicnt (cli s) = of_nat (Suc d)" "\<not> if_flag (cli s)"
    using 2(4,5) by (auto simp: cli_def Let_def add.commute)
  then show ?case using 2(1) [of "cli s"] 2(2,3) by simp
next
  case (4 d cs)
  have "(of_nat d :: u32) = 0 \<longleftrightarrow> d = 0" using 4(3) of_nat_inj32 [of d 0] by auto
  then have "clicnt (sti s) = of_nat d" "if_flag (sti s) \<longleftrightarrow> d = 0"
    using 4(4,5) by (auto simp: sti_def Let_def)
  then show ?case using 4(1) [of "sti s"] 4(2,3) by simp
qed auto

text \<open>In every nested sequence of cli and sti the counter is the depth and interrupts are enabled exactly
  at depth 0.\<close>

theorem cli_sti_nesting:
  assumes "clicnt s = 0" and "if_flag s" and "nest 0 cs = Some d" and "length cs < 2 ^ 32"
  shows "clicnt (run_masks cs s) = of_nat d \<and> (if_flag (run_masks cs s) \<longleftrightarrow> d = 0)"
  using run_masks_nest [of 0 cs d s] assms by simp

text \<open>The entry each call number selects: EXECL reaches sys_execv, EXECV sys_exit, the memory calls the
  file functions; an unknown class selects none.\<close>

theorem syscall_routes:
  "map (\<lambda>n. syscall_route n (add_syscall_route_table fn s))
     [0x10001, 0x10002, 0x10003, 0x20001, 0x20002, 0x30001, 0x30002, 0x30003, 0x30004, 0x30005, 0x30006, 0x30007, 0x30008,
      0x30009, 0x3000A, 0x40001, 0x40002, 0x40003] =
   map (\<lambda>f. Some (fn f))
     [''sys_version'', ''sys_chroot'', ''sys_mount'', ''sys_execv'', ''sys_exit'', ''sys_open'', ''sys_write'', ''sys_read'',
      ''sys_close'', ''sys_ioctl'', ''sys_create'', ''sys_remove'', ''sys_mkdir'', ''sys_rmdir'', ''sys_readdir'',
      ''sys_open'', ''sys_write'', ''sys_read''] \<and>
   (\<forall>n. GETFUNCTIONNUM n \<notin> {1, 2, 3, 4} \<longrightarrow> syscall_route n (add_syscall_route_table fn s) = None)"
  by (simp add: add_syscall_route_table_def syscall_route_def code_defs)

text \<open>Every gate lies within the limit of the table; the gate of vector 255 does not.\<close>

theorem gates_within_limit:
  "list_all (\<lambda>(v, _, _). unat v * gate_size + (gate_size - 1) \<le> unat idt_limit) gates \<and> unat idt_limit < 255 * gate_size"
  by (simp add: gates_def code_defs)

section \<open>A fresh state\<close>

definition demo_intr :: intr where
  "demo_intr = \<lparr>port_in = (\<lambda>_. 0), port_out = [], idt = (\<lambda>_. \<lparr>offset_low = 0, selector = 0, dcount = 0, attr = 0, offset_hight = 0\<rparr>),
     irqtable = (\<lambda>_. \<lparr>handlename = 0, handle = 0\<rparr>), clicnt = 0, if_flag = True, system_entry = (\<lambda>_. 0), ps_entry = (\<lambda>_. 0),
     file_entry = (\<lambda>_. 0), mm_entry = (\<lambda>_. 0), klog = []\<rparr>"

theorem irqrouterinit_gates_witness:
  "\<exists>s'. irqrouterinit (\<lambda>f. of_nat (length f)) demo_intr = Some s' \<and> gate_offset (idt s' 0x80) = 12 \<and> gate_dpl (idt s' 0x80) = 3"
proof -
  obtain s' where s': "irqrouterinit (\<lambda>f. of_nat (length f)) demo_intr = Some s'"
    "\<forall>v f p. (v, f, p) \<in> set gates \<longrightarrow> gate_for (of_nat (length f)) p (idt s' (unat v))"
    using irqrouterinit_gates [of "\<lambda>f. of_nat (length f)" demo_intr] by blast
  have "(0x80, ''asm_sys_call'', PRIVILEGE_USER) \<in> set gates" by (simp add: gates_def)
  from s'(2) [rule_format, OF this] s'(1) show ?thesis by (simp add: gate_for_def PRIVILEGE_USER_def)
qed

theorem registered_handler_runs_witness:
  "\<exists>s'. hwregistehandle (\<lambda>_ _ f. f) 0x21 100 200 demo_intr = Some (1, s') \<and>
    irq_routehandle (\<lambda>_ _ f. f) (\<lambda>_ s. s) 0x21 s' = Some (eoi_m (\<lambda>_ _ f. f) (eoi_s (\<lambda>_ _ f. f) s'))"
proof -
  obtain s' where s': "hwregistehandle (\<lambda>_ _ f. f) 0x21 100 200 demo_intr = Some (1, s')"
    by (simp add: hwregistehandle_def demo_intr_def code_defs)
  from registered_handler_runs [OF this, of "\<lambda>_ s. s"] s' show ?thesis by auto
qed

theorem cli_sti_nesting_witness:
  "clicnt (run_masks [True, True, False] demo_intr) = 1 \<and> \<not> if_flag (run_masks [True, True, False] demo_intr)"
  using cli_sti_nesting [of demo_intr "[True, True, False]" 1] by (simp add: demo_intr_def)

theorem syscall_routes_witness:
  "syscall_route 0x20001 (add_syscall_route_table (\<lambda>f. of_nat (length f)) demo_intr) = Some 9 \<and>
   syscall_route 0x50001 (add_syscall_route_table (\<lambda>f. of_nat (length f)) demo_intr) = None"
  using syscall_routes [of "\<lambda>f. of_nat (length f)" demo_intr] by (simp add: GETFUNCTIONNUM_def)

end
