(* ===== verification/Syscall.thy ===== *)
theory Syscall
  imports Interrupt VfsTree MfsScan UserCopy
begin

text \<open>
  The system calls of \<^verbatim>\<open>kernel/int.c\<close> behind the dispatch of \<^verbatim>\<open>Interrupt\<close>: \<^verbatim>\<open>sys_open\<close> takes a path from user space and walks it from
  the root of a mounted volume, \<^verbatim>\<open>sys_read\<close> and \<^verbatim>\<open>sys_write\<close> call the functions of an open file, and the others
  are stubs. Local buffers have addresses (\<^verbatim>\<open>cf\<close> for \<^verbatim>\<open>cfilename\<close>, \<^verbatim>\<open>buf\<close> and \<^verbatim>\<open>sp\<close> for those of the callees); the file
  functions behind a table address are an argument. An index behind a table is \<^const>\<open>None\<close>.
\<close>

section \<open>Stubs\<close>

definition sys_version :: "u32 \<Rightarrow> u32 \<Rightarrow> u32 \<Rightarrow> u32 \<Rightarrow> u32 \<Rightarrow> cint" where "sys_version ebx ecx edx edi esi = INVALID"
definition sys_chroot :: "u32 \<Rightarrow> u32 \<Rightarrow> u32 \<Rightarrow> u32 \<Rightarrow> u32 \<Rightarrow> cint" where "sys_chroot ebx ecx edx edi esi = INVALID"
definition sys_mount :: "u32 \<Rightarrow> u32 \<Rightarrow> u32 \<Rightarrow> u32 \<Rightarrow> u32 \<Rightarrow> cint" where "sys_mount ebx ecx edx edi esi = INVALID"
definition sys_umount :: "u32 \<Rightarrow> u32 \<Rightarrow> u32 \<Rightarrow> u32 \<Rightarrow> u32 \<Rightarrow> cint" where "sys_umount ebx ecx edx edi esi = INVALID"
definition sys_execl :: "u32 \<Rightarrow> u32 \<Rightarrow> u32 \<Rightarrow> u32 \<Rightarrow> u32 \<Rightarrow> cint" where "sys_execl ebx ecx edx edi esi = INVALID"
definition sys_execv :: "u32 \<Rightarrow> u32 \<Rightarrow> u32 \<Rightarrow> u32 \<Rightarrow> u32 \<Rightarrow> cint" where "sys_execv ebx ecx edx edi esi = INVALID"
definition sys_exit :: "u32 \<Rightarrow> u32 \<Rightarrow> u32 \<Rightarrow> u32 \<Rightarrow> u32 \<Rightarrow> cint" where "sys_exit ebx ecx edx edi esi = INVALID"
definition sys_close :: "cint \<Rightarrow> u32 \<Rightarrow> u32 \<Rightarrow> u32 \<Rightarrow> u32 \<Rightarrow> cint" where "sys_close fd ecx edx edi esi = INVALID"
definition sys_ioctl :: "cint \<Rightarrow> u32 \<Rightarrow> u32 \<Rightarrow> u32 \<Rightarrow> u32 \<Rightarrow> cint" where "sys_ioctl fd ecx edx edi esi = INVALID"
definition sys_create :: "u32 \<Rightarrow> u32 \<Rightarrow> u32 \<Rightarrow> u32 \<Rightarrow> u32 \<Rightarrow> cint" where "sys_create ebx ecx edx edi esi = INVALID"
definition sys_remove :: "u32 \<Rightarrow> u32 \<Rightarrow> u32 \<Rightarrow> u32 \<Rightarrow> u32 \<Rightarrow> cint" where "sys_remove ebx ecx edx edi esi = INVALID"
definition sys_mkdir :: "u32 \<Rightarrow> u32 \<Rightarrow> u32 \<Rightarrow> u32 \<Rightarrow> u32 \<Rightarrow> cint" where "sys_mkdir ebx ecx edx edi esi = INVALID"
definition sys_rmdir :: "u32 \<Rightarrow> u32 \<Rightarrow> u32 \<Rightarrow> u32 \<Rightarrow> u32 \<Rightarrow> cint" where "sys_rmdir ebx ecx edx edi esi = INVALID"
definition sys_readdir :: "u32 \<Rightarrow> u32 \<Rightarrow> u32 \<Rightarrow> u32 \<Rightarrow> u32 \<Rightarrow> cint" where "sys_readdir ebx ecx edx edi esi = INVALID"
definition sys_lookup :: "u32 \<Rightarrow> u32 \<Rightarrow> u32 \<Rightarrow> u32 \<Rightarrow> u32 \<Rightarrow> cint" where "sys_lookup ebx ecx edx edi esi = INVALID"
definition sys_alloc :: "u32 \<Rightarrow> u32 \<Rightarrow> u32 \<Rightarrow> u32 \<Rightarrow> u32 \<Rightarrow> cint" where "sys_alloc ebx ecx edx edi esi = INVALID"
definition sys_free :: "u32 \<Rightarrow> u32 \<Rightarrow> u32 \<Rightarrow> u32 \<Rightarrow> u32 \<Rightarrow> cint" where "sys_free ebx ecx edx edi esi = INVALID"
definition sys_vmalloc :: "u32 \<Rightarrow> u32 \<Rightarrow> u32 \<Rightarrow> u32 \<Rightarrow> u32 \<Rightarrow> cint" where "sys_vmalloc ebx ecx edx edi esi = INVALID"
definition sys_vmfree :: "u32 \<Rightarrow> u32 \<Rightarrow> u32 \<Rightarrow> u32 \<Rightarrow> u32 \<Rightarrow> cint" where "sys_vmfree ebx ecx edx edi esi = INVALID"

definition do_execl :: "addr \<Rightarrow> u8 \<Rightarrow> u32" where "do_execl filename param = 0"
definition do_execv :: "addr \<Rightarrow> u8 \<Rightarrow> u32" where "do_execv filename param = 0"

section \<open>Opening a path\<close>

definition K_MAX_PATH_LEN :: u32 where [code_defs]: "K_MAX_PATH_LEN = 128"
definition K_MNT_MAX_BLK_DEV :: u32 where [code_defs]: "K_MNT_MAX_BLK_DEV = 26"
definition MNT_DONE :: u8 where [code_defs]: "MNT_DONE = 0x01"
definition EOF :: cint where [code_defs]: "EOF = - 1"

record vsys = vfs +
  devroot :: "nat \<Rightarrow> mntpnt_struct"
  run_cr3 :: u32

partial_function (option) slash_loop :: "addr \<Rightarrow> u32 \<Rightarrow> mem \<Rightarrow> u32 option" where
  "slash_loop cf i m = (if m (cf + i) \<noteq> 47 then slash_loop cf (i + 1) m else Some i)"

text \<open>The checks of the copied path before the volume is looked up.\<close>

definition path_form_ok :: "addr \<Rightarrow> mem \<Rightarrow> bool" where
  "path_form_ok cf m \<longleftrightarrow>
     (let len = strnlen cf K_MAX_PATH_LEN m
      in (m (cf + 1) = 58 \<or> m (cf + 2) = 58) \<and> (m (cf + 1) = 47 \<or> m (cf + 2) = 47) \<and> 3 < len \<and> m (cf + (len - 1)) \<noteq> 47)"

definition sys_open ::
    "(addr \<Rightarrow> unit vsys_ext dir_op) \<Rightarrow> (addr \<Rightarrow> unit vsys_ext file_open) \<Rightarrow> addr \<Rightarrow> addr \<Rightarrow> addr \<Rightarrow> addr \<Rightarrow> u32 \<Rightarrow> vsys \<Rightarrow> (cint \<times> vsys) option" where
  "sys_open dops fops cf buf sp ufilename mode s =
     (let m0 = snd (memset cf 0 129 (vmem s));
          (n, m) = strncpfromuser (run_cr3 s) ufilename cf K_MAX_PATH_LEN m0;
          s = s\<lparr>vmem := m\<rparr>
      in if 0 = n then Some (INVALID, s)
         else case atoi sp cf m of
           None \<Rightarrow> None
         | Some volnum \<Rightarrow>
             if K_MNT_MAX_BLK_DEV < volnum then Some (INVALID, s)
             else if \<not> path_form_ok cf m then Some (INVALID, s)
             else if volnum = K_MNT_MAX_BLK_DEV then None
             else if MNT_DONE \<noteq> mnt_flg (devroot s (unat volnum)) then Some (INVALID, s)
             else (case slash_loop cf 0 m of
                     None \<Rightarrow> None
                   | Some i \<Rightarrow> sys_do_open dops fops buf (mnt_root (devroot s (unat volnum))) mode (cf + i) s))"

section \<open>Reading and writing\<close>

type_synonym 's io_fun = "(addr \<Rightarrow> addr \<Rightarrow> cint \<Rightarrow> addr \<Rightarrow> cint \<Rightarrow> 's vfs_scheme \<Rightarrow> (cint \<times> 's vfs_scheme) option) option"

text \<open>The function of an open file that \<^verbatim>\<open>sys_read\<close> and \<^verbatim>\<open>sys_write\<close> call.\<close>

definition file_fun :: "(addr \<Rightarrow> 's io_fun) \<Rightarrow> addr \<Rightarrow> 's vfs_scheme \<Rightarrow> 's io_fun" where
  "file_fun ops pf s =
     (let pi = f_pi (files s pf); op = f_op (i_data (inodes s pi)) in if pi \<noteq> NULL \<and> op \<noteq> NULL then ops op else None)"

definition sys_write ::
    "(addr \<Rightarrow> 's io_fun) \<Rightarrow> cint \<Rightarrow> addr \<Rightarrow> cint \<Rightarrow> addr \<Rightarrow> cint \<Rightarrow> 's vfs_scheme \<Rightarrow> (cint \<times> 's vfs_scheme) option" where
  "sys_write wops fd ptr offset poff cnt s =
     (if 0 \<le>s fd \<and> fd \<le>s of_nat K_MAX_FILE_OPEN_PPS
      then if fd = of_nat K_MAX_FILE_OPEN_PPS then None
           else let pf = t_file (tasks s (vfs.tsk_running s)) (unat fd)
                in if NULL = pf then Some (EOF, s)
                   else case file_fun wops pf s of Some f \<Rightarrow> f pf ptr offset poff cnt s | None \<Rightarrow> Some (EOF, s)
      else Some (EOF, s))"

definition sys_read ::
    "(addr \<Rightarrow> 's io_fun) \<Rightarrow> cint \<Rightarrow> addr \<Rightarrow> cint \<Rightarrow> addr \<Rightarrow> cint \<Rightarrow> 's vfs_scheme \<Rightarrow> (cint \<times> 's vfs_scheme) option" where
  "sys_read rops fd ptr offset poff cnt s =
     (if 0 \<le>s fd \<and> fd \<le>s of_nat K_MAX_FILE_OPEN_PPS
      then if fd = of_nat K_MAX_FILE_OPEN_PPS then None
           else let pf = t_file (tasks s (vfs.tsk_running s)) (unat fd)
                in if NULL = pf then Some (EOF, s)
                   else case file_fun rops pf s of Some f \<Rightarrow> f pf ptr offset poff cnt s | None \<Rightarrow> Some (EOF, s)
      else Some (EOF, s))"

section \<open>Properties\<close>

text \<open>Exactly the two forms with one character before the colon and the slash pass.\<close>

lemma path_form_two:
  "path_form_ok cf m \<longleftrightarrow> (m (cf + 1) = 58 \<and> m (cf + 2) = 47 \<or> m (cf + 1) = 47 \<and> m (cf + 2) = 58) \<and>
     3 < strnlen cf 128 m \<and> m (cf + (strnlen cf 128 m - 1)) \<noteq> 47"
  by (auto simp: path_form_ok_def Let_def K_MAX_PATH_LEN_def)

lemma value_loop_step:
  "value_loop 10 p t m = (if m p \<noteq> 0 \<and> isdigit (m p) then value_loop 9 (p + 1) (t * 10 + (signed (m p) - 48)) m else t)"
  "value_loop 9 p t m = (if m p \<noteq> 0 \<and> isdigit (m p) then value_loop 8 (p + 1) (t * 10 + (signed (m p) - 48)) m else t)"
proof -
  have n: "10 = Suc 9" "9 = Suc 8" by simp_all
  show "value_loop 10 p t m = (if m p \<noteq> 0 \<and> isdigit (m p) then value_loop 9 (p + 1) (t * 10 + (signed (m p) - 48)) m else t)"
    by (subst n(1)) (rule value_loop.simps(2))
  show "value_loop 9 p t m = (if m p \<noteq> 0 \<and> isdigit (m p) then value_loop 8 (p + 1) (t * 10 + (signed (m p) - 48)) m else t)"
    by (subst n(2)) (rule value_loop.simps(2))
qed

lemma digit_value: "isdigit c \<Longrightarrow> (signed c - 48 :: cint) < 10"
proof -
  assume "isdigit c"
  then have "48 \<le> sint c" "sint c \<le> 57" by (simp_all add: isdigit_def ge0_def le9_def)
  then have k: "sint c = int (nat (sint c))" "48 \<le> nat (sint c)" "nat (sint c) \<le> 57" by linarith+
  define k where "k = nat (sint c)"
  note k = k [folded k_def]
  have "(signed c :: cint) = of_nat k" using k(1) by (simp add: scast_eq)
  then have "(signed c - 48 :: cint) = of_nat (k - 48)" using k(2) by (simp add: of_nat_diff)
  then show ?thesis using k(3) by (simp add: word_less_nat_alt unat_of_nat)
qed

lemma separators_no_digit: "\<not> isdigit 58" "\<not> isdigit 47"
  by (simp_all add: isdigit_def ge0_def le9_def)

lemma one_digit_value:
  assumes "m (p + 1) = 58 \<or> m (p + 1) = 47"
  shows "value_loop 10 p 0 m < (10 :: cint)"
  using assms digit_value [of "m p"] separators_no_digit by (auto simp: value_loop_step)

lemma volume_one_digit:
  assumes "path_form_ok cf m" and "atoi sp cf m = Some v" and "v \<le> K_MNT_MAX_BLK_DEV" and "clear_of sp cf 3"
  shows "v < 10"
proof -
  let ?m = "store_bytes (sp + 11) max_digits (store_bytes sp min_digits m)"
  have h: "holds ?m cf [m cf, m (cf + 1), m (cf + 2)]"
    using holds_under_arrays [of sp cf "[m cf, m (cf + 1), m (cf + 2)]" m] assms(4) by (simp add: add.assoc numeral_3_eq_3)
  then have b: "?m cf = m cf" "?m (cf + 1) = m (cf + 1)" "?m (cf + 2) = m (cf + 2)" by (simp_all add: add.assoc)
  have sep: "?m (cf + 1) = 58 \<or> ?m (cf + 1) = 47" using assms(1) b by (auto simp: path_form_two)
  define q where "q = signed_pos cf ?m"
  have "atoi_value (fst q) (snd q) ?m < 10"
  proof (cases "snd q = cf")
    case True
    then have "\<not> fst q" by (auto simp: q_def signed_pos_def split: if_splits)
    then show ?thesis using True one_digit_value [of ?m cf] sep by (simp add: atoi_value_def)
  next
    case False
    then have "snd q = cf + 1" by (auto simp: q_def signed_pos_def split: if_splits)
    then have "value_loop 10 (snd q) 0 ?m = (0 :: cint)" using sep separators_no_digit by (auto simp: value_loop_step)
    then show ?thesis by (simp add: atoi_value_def)
  qed
  moreover have "v = atoi_value (fst q) (snd q) ?m \<or> v = INT_MAX \<or> v = INT_MIN"
    using assms(2) unfolding atoi_def q_def [symmetric] Let_def split_beta
    by (auto simp: bind_eq_Some_conv split: if_splits)
  ultimately show ?thesis using assms(3) by (auto simp: code_defs)
qed

text \<open>sys_open accepts only one character before the colon and slash, so it fails for every path when no
  volume below 10 is mounted, whatever else is.\<close>

theorem sys_open_low_volumes:
  assumes "strncpfromuser (run_cr3 s) ufilename cf K_MAX_PATH_LEN (snd (memset cf 0 129 (vmem s))) = (n, m)"
    and "atoi sp cf m = Some v" and "clear_of sp cf 3" and "\<forall>v < 10. mnt_flg (devroot s v) \<noteq> MNT_DONE"
  shows "sys_open dops fops cf buf sp ufilename mode s = Some (INVALID, s\<lparr>vmem := m\<rparr>)"
proof (cases "path_form_ok cf m \<and> v \<le> K_MNT_MAX_BLK_DEV")
  case True
  then have "v < 10" using volume_one_digit [OF _ assms(2) _ assms(3)] by blast
  then have "unat v < 10" by (simp add: word_less_nat_alt)
  moreover have "v \<noteq> 26" using \<open>v < 10\<close> by auto
  moreover have "MNT_DONE \<noteq> mnt_flg (devroot s (unat v))" using \<open>unat v < 10\<close> assms(4) by metis
  ultimately show ?thesis using True assms(1-3) by (simp add: sys_open_def Let_def K_MNT_MAX_BLK_DEV_def)
next
  case False
  then show ?thesis using assms by (auto simp: sys_open_def Let_def)
qed

definition demo_path :: mem where
  "demo_path = demo_space(0x3010 := 49, 0x3011 := 50, 0x3012 := 58, 0x3013 := 47, 0x3014 := 97)"

definition demo_sys :: "vfs \<Rightarrow> superblk \<Rightarrow> vsys" where
  "demo_sys v sb = vfs.extend (v\<lparr>vmem := demo_path\<rparr>) (vsys.fields
     (\<lambda>i. mntpnt_struct.make 0 (if i = 12 then MNT_DONE else 0) 0 0 0 0 0 sb 0) 0x1000)"

definition demo_zeroed :: mem where "demo_zeroed = (\<lambda>a. if a - 0x6000 < 129 then 0 else demo_path a)"

lemma demo_reads:
  "demo_zeroed 0x1000 = 7" "demo_zeroed 0x1001 = 0x20" "demo_zeroed 0x1002 = 0" "demo_zeroed 0x1003 = 0"
  "demo_zeroed 0x2000 = 7" "demo_zeroed 0x2001 = 0x30" "demo_zeroed 0x2002 = 0" "demo_zeroed 0x2003 = 0"
  "demo_zeroed 0x3010 = 49" "demo_zeroed 0x3011 = 50" "demo_zeroed 0x3012 = 58" "demo_zeroed 0x3013 = 47"
  "demo_zeroed 0x3014 = 97" "demo_zeroed 0x3015 = 0" "demo_zeroed 0x6006 = 0"
  by (simp_all add: demo_zeroed_def demo_path_def demo_space_def)

abbreviation copied_path :: mem where
  "copied_path \<equiv> demo_zeroed(0x6000 := 49, 0x6001 := 50, 0x6002 := 58, 0x6003 := 47, 0x6004 := 97, 0x6005 := 0)"

lemma demo_path_copied:
  "strncpfromuser 0x1000 0x10 0x6000 K_MAX_PATH_LEN (snd (memset 0x6000 0 129 demo_path)) = (5, copied_path)"
proof -
  have "snd (memset 0x6000 0 129 demo_path) = demo_zeroed" by (simp add: memset_eq demo_zeroed_def cong: if_cong)
  then show ?thesis
    by (simp add: strncpfromuser_def strncpfromuser_loop.simps K_MAX_PATH_LEN_def user_byte_def dir_slot_def tab_slot_def
        load32_def demo_reads Let_def INVALID_PAGE_def)
qed

lemma demo_clear: "clear_of 0x9000 0x6000 7"
  by (rule clear_of_below) simp_all

lemma demo_volume: "atoi 0x9000 0x6000 copied_path = Some 12"
proof -
  define m where "m = store_bytes 0x900B max_digits (store_bytes 0x9000 min_digits copied_path)"
  have "holds m 0x6000 [49, 50, 58, 47, 97, 0, 0]"
    using holds_under_arrays [OF clear_of_mono [OF demo_clear], of "[49, 50, 58, 47, 97, 0, 0]" copied_path]
    by (simp add: demo_reads m_def del: fun_upd_apply) (simp add: demo_reads)
  then have b: "m 0x6000 = 49" "m 0x6001 = 50" "m 0x6002 = 58" "m 0x6003 = 47" "m 0x6004 = 97" "m 0x6005 = 0" "m 0x6006 = 0" by simp_all
  then have p: "signed_pos 0x6000 m = (False, 0x6000)" by (simp add: signed_pos_def)
  have v: "value_loop 10 0x6000 0 m = (12 :: cint)"
    using b by (simp add: value_loop_step value_loop.simps(2) [of 7, simplified] isdigit_def ge0_def le9_def)
  have "count_loop 10 0x6000 0 m = 3"
    using b by (subst count_loop.simps, subst count_loop.simps, subst count_loop.simps, subst count_loop.simps) (simp add: ge0_def le9_def)
  with p v show ?thesis by (simp add: atoi_def Let_def m_def [symmetric] atoi_value_def)
qed

theorem sys_open_low_volumes_witness:
  "\<forall>v sb dops fops mode. mnt_flg (devroot (demo_sys v sb) 12) = MNT_DONE \<and>
   sys_open dops fops 0x6000 0x7000 0x9000 0x10 mode (demo_sys v sb) = Some (INVALID, (demo_sys v sb)\<lparr>vmem := copied_path\<rparr>)"
proof (intro allI conjI)
  fix v sb dops fops mode
  show "mnt_flg (devroot (demo_sys v sb) 12) = MNT_DONE"
    by (simp add: demo_sys_def vfs.defs vsys.defs mntpnt_struct.defs)
  show "sys_open dops fops 0x6000 0x7000 0x9000 0x10 mode (demo_sys v sb) = Some (INVALID, (demo_sys v sb)\<lparr>vmem := copied_path\<rparr>)"
  proof (rule sys_open_low_volumes [OF _ demo_volume clear_of_mono [OF demo_clear]])
    show "strncpfromuser (run_cr3 (demo_sys v sb)) 0x10 0x6000 K_MAX_PATH_LEN (snd (memset 0x6000 0 129 (vmem (demo_sys v sb)))) = (5, copied_path)"
      using demo_path_copied by (simp add: demo_sys_def vfs.defs vsys.defs)
  qed (simp_all add: demo_sys_def vfs.defs vsys.defs mntpnt_struct.defs MNT_DONE_def)
qed

text \<open>The descriptors sys_write accepts: 256 indexes behind the table, negative and larger ones fail, the
  others reach the function of their file.\<close>

theorem sys_write_descriptors:
  "(fd = 256 \<longrightarrow> sys_write wops fd ptr offset poff cnt s = None) \<and>
   (fd <s 0 \<or> 256 <s fd \<longrightarrow> sys_write wops fd ptr offset poff cnt s = Some (EOF, s)) \<and>
   (0 \<le>s fd \<and> fd <s 256 \<longrightarrow> sys_write wops fd ptr offset poff cnt s =
     (let pf = t_file (tasks s (vfs.tsk_running s)) (unat fd); pi = f_pi (files s pf); op = f_op (i_data (inodes s pi))
      in if pf = 0 \<or> pi = 0 \<or> op = 0 \<or> wops op = None then Some (EOF, s) else the (wops op) pf ptr offset poff cnt s))"
proof -
  have "fd \<noteq> 256" if "fd <s 256" using that by auto
  then show ?thesis
    by (auto simp: sys_write_def file_fun_def Let_def code_defs word_sle_eq word_sless_alt split: option.splits)
qed

text \<open>C37: After sys_set_taskfile gave an open file its descriptor, sys_write and sys_read on that
  descriptor call the write and read function of the file's inode.\<close>

theorem descriptor_reaches_file:
  assumes "t_flck (tasks s (vfs.tsk_running s)) = unlocked" and "t_fcnt (tasks s (vfs.tsk_running s)) < 256"
    and "\<exists>i. 3 \<le> i \<and> i < 256 \<and> t_file (tasks s (vfs.tsk_running s)) i = 0"
    and "pf \<noteq> 0" and "f_pi (files s pf) \<noteq> 0" and "f_op (i_data (inodes s (f_pi (files s pf)))) \<noteq> 0"
    and "wops (f_op (i_data (inodes s (f_pi (files s pf))))) = Some w" and "rops (f_op (i_data (inodes s (f_pi (files s pf))))) = Some r"
  shows "\<exists>fd s'. sys_set_taskfile (vfs.tsk_running s) pf s = Some (fd, s') \<and>
     sys_write wops fd ptr offset poff cnt s' = w pf ptr offset poff cnt s' \<and>
     sys_read rops fd ptr offset poff cnt s' = r pf ptr offset poff cnt s'"
proof -
  let ?tsk = "vfs.tsk_running s"
  obtain fd s' where set: "sys_set_taskfile ?tsk pf s = Some (of_nat fd, s')" and fd: "3 \<le> fd" "fd < 256"
    and t': "t_file (tasks s' ?tsk) = (t_file (tasks s ?tsk))(fd := pf)" and fs: "files s' = files s" "inodes s' = inodes s" "vfs.tsk_running s' = ?tsk"
    using set_taskfile_result [OF assms(1-3), of pf] by blast
  have u: "unat (of_nat fd :: cint) = fd" using fd by (intro unat_of_nat32) simp
  have "sint (of_nat fd :: cint) = int fd" using fd by (simp add: signed_of_nat signed_take_bit_int_eq_self)
  then have range: "0 \<le>s (of_nat fd :: cint)" "(of_nat fd :: cint) \<le>s 256" "(of_nat fd :: cint) \<noteq> 256"
    using fd u by (auto simp: word_sle_eq)
  show ?thesis
    using set range t' assms(4-) by (intro exI [of _ "of_nat fd"] exI [of _ s'])
      (simp add: sys_write_def sys_read_def file_fun_def Let_def code_defs fs u)
qed

definition demo_open :: vfs where
  "demo_open = demo_vfs\<lparr>inodes := \<lambda>_. zero_inode\<lparr>i_data := zero_data\<lparr>f_op := 0x8000\<rparr>\<rparr>\<rparr>"

lemma demo_open_sels:
  "vfs.tsk_running demo_open = 0x5000" "t_flck (tasks demo_open t) = unlocked" "t_fcnt (tasks demo_open t) = 1"
  "t_file (tasks demo_open t) 4 = 0" "f_pi (files demo_open 0x4000) = 0x4100" "f_op (i_data (inodes demo_open i)) = 0x8000"
  by (simp_all add: demo_open_def demo_vfs_def)

theorem descriptor_reaches_file_witness:
  "\<exists>fd s'. sys_set_taskfile 0x5000 0x4000 demo_open = Some (fd, s') \<and>
     sys_write (\<lambda>_. Some (\<lambda>pf _ _ _ n s. Some (n, s))) fd 0x100 0 0 9 s' = Some (9, s') \<and>
     sys_read (\<lambda>_. Some (\<lambda>pf _ _ _ n s. Some (EOF, s))) fd 0x100 0 0 9 s' = Some (EOF, s')"
proof -
  have "\<exists>i. 3 \<le> i \<and> i < 256 \<and> t_file (tasks demo_open 0x5000) i = 0"
    by (rule exI [of _ 4]) (simp add: demo_open_sels)
  then show ?thesis
    using descriptor_reaches_file [of demo_open "0x4000" "\<lambda>_. Some (\<lambda>pf _ _ _ n s. Some (n, s))" "\<lambda>pf _ _ _ n s. Some (n, s)"
        "\<lambda>_. Some (\<lambda>pf _ _ _ n s. Some (EOF, s))" "\<lambda>pf _ _ _ n s. Some (EOF, s)" "0x100" 0 0 9]
    by (simp add: demo_open_sels)
qed

end
