(* ===== verification/Region.thy ===== *)
theory Region
  imports Format
begin

text \<open>
  Regions of memory, by address and length, and what writing to one leaves in another: the layout conditions of the
  programs that pass buffers and arguments around (\<^verbatim>\<open>InitApp\<close>, \<^verbatim>\<open>PrintText\<close>) are stated with them.
\<close>

definition region :: "addr \<Rightarrow> nat \<Rightarrow> addr set" where
  "region a n = {x. x - a < of_nat n}"

lemma in_region: "n < 5000 \<Longrightarrow> x \<in> region a n \<longleftrightarrow> (\<exists>k < n. x = a + of_nat k)"
proof
  assume n: "n < 5000"
  have u: "unat (of_nat n :: u32) = n" using n by (intro unat_of_nat32) simp
  show "x \<in> region a n \<Longrightarrow> \<exists>k < n. x = a + of_nat k"
  proof -
    assume "x \<in> region a n"
    then have "unat (x - a) < n" using u by (simp add: region_def word_less_nat_alt)
    moreover have "x = a + of_nat (unat (x - a))" by simp
    ultimately show ?thesis by blast
  qed
  assume "\<exists>k < n. x = a + of_nat k"
  then obtain k where k: "k < n" "x = a + of_nat k" by blast
  have "unat (of_nat k :: u32) = k" using n k(1) by (intro unat_of_nat32) simp
  then show "x \<in> region a n" using k u by (simp add: region_def word_less_nat_alt)
qed

lemma region_at: "k < n \<Longrightarrow> n < 5000 \<Longrightarrow> a + of_nat k \<in> region a n"
  using in_region by blast

lemma region_cases:
  assumes "x \<in> region a n" "n < 5000"
  obtains k where "k < n" "x = a + of_nat k"
  using assms in_region by blast

lemma region_mono: "k \<le> n \<Longrightarrow> n < 5000 \<Longrightarrow> region a k \<subseteq> region a n"
proof
  fix x assume k: "k \<le> n" "n < 5000" and x: "x \<in> region a k"
  from k have "k < 5000" by simp
  with x obtain i where "i < k" "x = a + of_nat i" by (rule region_cases)
  then show "x \<in> region a n" using k region_at [of i n a] by simp
qed

lemma region_word:
  assumes "i < n" "2 * n < 5000"
  shows "a + of_nat (2 * i) \<in> region a (2 * n)" "a + of_nat (2 * i) + 1 \<in> region a (2 * n)"
proof -
  show "a + of_nat (2 * i) \<in> region a (2 * n)" by (rule region_at) (use assms in simp_all)
  have "a + of_nat (Suc (2 * i)) \<in> region a (2 * n)" by (rule region_at) (use assms in simp_all)
  then show "a + of_nat (2 * i) + 1 \<in> region a (2 * n)" by (simp add: ac_simps)
qed

fun separate :: "addr set list \<Rightarrow> bool" where
  "separate [] \<longleftrightarrow> True"
| "separate (r # rs) \<longleftrightarrow> (\<forall>t \<in> set rs. r \<inter> t = {}) \<and> separate rs"

lemma offsets_apart:
  fixes a b :: addr
  assumes "unat a + m \<le> unat b" and "unat b + n \<le> 4294967296" and "k < m" and "l < n"
  shows "a + of_nat k \<noteq> b + of_nat l"
proof -
  have "unat (a + of_nat k) = unat a + k" "unat (b + of_nat l) = unat b + l"
    using assms unat_of_nat32 [of k] unat_of_nat32 [of l] by (simp_all add: unat_word_ariths)
  then show ?thesis using assms by (auto dest: arg_cong [where f = unat])
qed

lemma region_apart:
  assumes "unat a + m \<le> unat b" and "unat b + n \<le> 4294967296" and "m < 5000" and "n < 5000"
  shows "region a m \<inter> region b n = {}"
proof -
  have "x \<notin> region b n" if x: "x \<in> region a m" for x
  proof
    assume b: "x \<in> region b n"
    obtain k where "k < m" "x = a + of_nat k" using x assms(3) by (rule region_cases)
    moreover obtain l where "l < n" "x = b + of_nat l" using b assms(4) by (rule region_cases)
    ultimately show False using offsets_apart [OF assms(1,2)] by blast
  qed
  then show ?thesis by blast
qed

lemma region_outside: "\<not> x - a < of_nat n \<Longrightarrow> x \<notin> region a n"
  by (simp add: region_def)

lemma holds_kept:
  assumes "holds m a bs" and "region a (length bs) \<inter> region buf n = {}" and "length bs < 5000"
  shows "kept buf n m a bs"
  unfolding kept_def
proof (intro allI impI conjI)
  fix k assume k: "k < length bs"
  show "m (a + of_nat k) = bs ! k" using assms(1) k by (simp add: holds_def)
  have "a + of_nat k \<notin> region buf n" using region_at [OF k assms(3)] assms(2) by blast
  then show "\<not> a + of_nat k - buf < of_nat n" by (simp add: region_def)
qed

lemma holds_word_bytes: "holds (store32 a w m) a (word_bytes w)"
  unfolding store32_bytes by (rule store_bytes_holds) (simp add: word_bytes_def)

lemma store_bytes_out: "x \<notin> region a n \<Longrightarrow> length bs \<le> n \<Longrightarrow> n < 5000 \<Longrightarrow> store_bytes a bs m x = m x"
proof -
  assume x: "x \<notin> region a n" and n: "length bs \<le> n" "n < 5000"
  then have "x \<notin> region a (length bs)" using region_mono [OF n] by blast
  then show ?thesis using n by (intro store_bytes_frame) (simp_all add: region_def)
qed

lemma holds_frame: "holds m a bs \<Longrightarrow> (\<And>x. x \<in> region a (length bs) \<Longrightarrow> m' x = m x) \<Longrightarrow> length bs < 5000 \<Longrightarrow> holds m' a bs"
  unfolding holds_def using region_at by metis

lemma region_tail: "k + n \<le> N \<Longrightarrow> N < 5000 \<Longrightarrow> region (a + of_nat k) n \<subseteq> region a N"
proof
  fix x assume k: "k + n \<le> N" "N < 5000" and x: "x \<in> region (a + of_nat k) n"
  from k have "n < 5000" by simp
  with x obtain i where "i < n" "x = a + of_nat (k + i)" by (auto elim!: region_cases simp: add.assoc)
  then show "x \<in> region a N" using k region_at [of "k + i" N a] by simp
qed

end
