(* ===== verification/UserLib.thy ===== *)
theory UserLib
  imports Syscall "HOL-Library.Monad_Syntax" Region
begin

text \<open>
  The library of user programs, \<^verbatim>\<open>lib/io.c\<close> and \<^verbatim>\<open>lib/file.c\<close>: the system call wrappers, character input with
  line editing and buffered character output, with the stubs of \<^verbatim>\<open>lib/ps.c\<close> and \<^verbatim>\<open>lib/alloc.c\<close>. The kernel behind \<^verbatim>\<open>syscall\<close> (\<^verbatim>\<open>lib/entry.s\<close>) is an argument that maps the
  six registers, the memory of the program and the outside world to a result; \<^const>\<open>None\<close> is a call that does not return.
  A stream is the index of its slot in \<^verbatim>\<open>fslot\<close>, or \<^const>\<open>None\<close> for a null pointer.
\<close>

type_synonym 'w usyscall = "u32 \<Rightarrow> u32 \<Rightarrow> u32 \<Rightarrow> u32 \<Rightarrow> u32 \<Rightarrow> u32 \<Rightarrow> mem \<times> 'w \<Rightarrow> (cint \<times> mem \<times> 'w) option"

record io_file =
  io_size :: u32
  io_index :: u32
  io_t_size :: u32
  io_base :: addr
  io_ptr :: addr

record 'w ulib =
  umem :: mem
  fslot :: "nat \<Rightarrow> io_file"
  u_stdin :: "nat option"
  u_stdout :: "nat option"
  world :: 'w

text \<open>Addresses the linker and the compiler choose: the path literals, the two buffers and the local \<^verbatim>\<open>ch\<close> of \<^verbatim>\<open>getchar\<close>.\<close>

record crt =
  stdin_path :: addr
  stdout_path :: addr
  stdin_buf :: addr
  stdout_buf :: addr
  ch_at :: addr

definition MODE_READWRITE :: u32 where [code_defs]: "MODE_READWRITE = 2"
definition fd_stdin :: u32 where [code_defs]: "fd_stdin = 0"
definition fd_stdout :: u32 where [code_defs]: "fd_stdout = 1"

section \<open>System call wrappers\<close>

definition usys :: "(mem \<times> 'w \<Rightarrow> (cint \<times> mem \<times> 'w) option) \<Rightarrow> 'w ulib \<Rightarrow> (cint \<times> 'w ulib) option" where
  "usys f s = map_option (\<lambda>(r, m, w). (r, s\<lparr>umem := m, world := w\<rparr>)) (f (umem s, world s))"

definition lib_open :: "'w usyscall \<Rightarrow> addr \<Rightarrow> u32 \<Rightarrow> 'w ulib \<Rightarrow> (cint \<times> 'w ulib) option" where
  "lib_open sc filename mode = usys (sc 0x00020001 filename mode 0 0 0)"

definition lib_write :: "'w usyscall \<Rightarrow> u32 \<Rightarrow> addr \<Rightarrow> u32 \<Rightarrow> 'w ulib \<Rightarrow> (cint \<times> 'w ulib) option" where
  "lib_write sc fd buf sz = usys (sc 0x00020002 fd buf sz 0 0)"

definition lib_read :: "'w usyscall \<Rightarrow> u32 \<Rightarrow> addr \<Rightarrow> u32 \<Rightarrow> 'w ulib \<Rightarrow> (cint \<times> 'w ulib) option" where
  "lib_read sc fd buf sz = usys (sc 0x00020003 fd buf sz 0 0)"

definition ioctl :: "u32 \<Rightarrow> u32 \<Rightarrow> u32 \<Rightarrow> u32" where "ioctl fd cmd param = 0"
definition seek :: "u32 \<Rightarrow> u32 \<Rightarrow> u32 \<Rightarrow> u32" where "seek fd offset base = 0"
definition close :: "u32 \<Rightarrow> u32" where "close fd = 0"
definition fopen :: "addr \<Rightarrow> addr \<Rightarrow> addr" where "fopen filename mode = NULL"
definition fread :: "addr \<Rightarrow> u32 \<Rightarrow> u32 \<Rightarrow> addr \<Rightarrow> cint" where "fread ptr bn bs fp = 0"
definition exec :: "addr \<Rightarrow> cint \<Rightarrow> addr \<Rightarrow> cint" where "exec filename argc argv = 0"
definition malloc :: "u32 \<Rightarrow> addr" where "malloc bs = NULL"
definition calloc :: "u32 \<Rightarrow> u32 \<Rightarrow> addr" where "calloc bn bs = NULL"
definition scanf :: "addr \<Rightarrow> cint" where "scanf fmt = 0"

section \<open>Input\<close>

text \<open>The slot of a descriptor; outside the table of 256 slots there is none.\<close>

definition slot :: "cint \<Rightarrow> nat option" where
  "slot fd = (if 0 \<le>s fd \<and> fd <s 256 then Some (unat fd) else None)"

definition upd_slot :: "nat \<Rightarrow> (io_file \<Rightarrow> io_file) \<Rightarrow> 'w ulib \<Rightarrow> 'w ulib" where
  "upd_slot i f s = s\<lparr>fslot := (fslot s)(i := f (fslot s i))\<rparr>"

definition getchar :: "crt \<Rightarrow> 'w usyscall \<Rightarrow> 'w ulib \<Rightarrow> (cint \<times> 'w ulib) option" where
  "getchar c sc s =
     do {
       (fd, s) \<leftarrow> (if u_stdin s = None then lib_open sc (stdin_path c) MODE_READWRITE s else Some (0, s));
       if u_stdin s = None \<and> fd = - 1 then Some (0, s)
       else do {
         s \<leftarrow> (if u_stdin s = None
               then map_option (\<lambda>i. upd_slot i (\<lambda>_. \<lparr>io_size = 1024, io_index = fd_stdin, io_t_size = 0, io_base = stdin_buf c,
                      io_ptr = stdin_buf c\<rparr>) (s\<lparr>u_stdin := Some i\<rparr>)) (slot fd)
               else Some s);
         i \<leftarrow> u_stdin s;
         if io_t_size (fslot s i) \<ge> io_size (fslot s i) then Some (- 1, s)
         else do {
           (r, s) \<leftarrow> lib_read sc fd_stdin (ch_at c) 1 s;
           Some (load32 (umem s) (ch_at c) AND 0x000000FF, s)
         }
       }
     }"

section \<open>Output\<close>

text \<open>The loop that gives every cell of the output buffer the normal colour.\<close>

primrec colour_loop :: "nat \<Rightarrow> addr \<Rightarrow> mem \<Rightarrow> mem" where
  "colour_loop 0 p m = m"
| "colour_loop (Suc n) p m = colour_loop n (p + 2) (store16 p 0x0700 m)"

text \<open>The three statements that empty the buffer of a stream after it is written out.\<close>

definition refresh :: "'w usyscall \<Rightarrow> nat \<Rightarrow> 'w ulib \<Rightarrow> 'w ulib option" where
  "refresh sc j s =
     do {
       (r, s) \<leftarrow> lib_write sc fd_stdout (io_base (fslot s j)) (io_t_size (fslot s j)) s;
       Some (upd_slot j (\<lambda>f. f\<lparr>io_ptr := io_base f, io_t_size := 0\<rparr>) s)
     }"

text \<open>The character with its colour, and its store into the next cell.\<close>

definition cell_of :: "u8 \<Rightarrow> u16" where
  "cell_of ch = ucast ((0x0700 :: cint) OR scast ch)"

definition put_cell :: "nat \<Rightarrow> u8 \<Rightarrow> 'w ulib \<Rightarrow> 'w ulib" where
  "put_cell j ch s =
     (let p = io_ptr (fslot s j)
      in upd_slot j (\<lambda>f. f\<lparr>io_ptr := p + 2, io_t_size := io_t_size f + 1\<rparr>)
           (s\<lparr>umem := store16 p (cell_of ch) (umem s)\<rparr>))"

definition printable :: "u8 \<Rightarrow> bool" where
  "printable ch \<longleftrightarrow> 32 \<le>s ch \<and> ch \<le>s 126 \<or> ch = 9"

definition putchar :: "crt \<Rightarrow> 'w usyscall \<Rightarrow> u8 \<Rightarrow> 'w ulib \<Rightarrow> (cint \<times> 'w ulib) option" where
  "putchar c sc ch s =
     do {
       (fd, s) \<leftarrow> (if u_stdout s = None then lib_open sc (stdout_path c) MODE_READWRITE s else Some (0, s));
       if u_stdout s = None \<and> fd = - 1 then Some (0, s)
       else do {
         s \<leftarrow> (if u_stdout s = None
               then map_option (\<lambda>j. upd_slot j (\<lambda>_. \<lparr>io_size = 4000, io_index = fd_stdout, io_t_size = 0, io_base = stdout_buf c,
                      io_ptr = stdout_buf c\<rparr>) (s\<lparr>u_stdout := Some j, umem := colour_loop 2000 (stdout_buf c) (umem s)\<rparr>)) (slot fd)
               else Some s);
         j \<leftarrow> u_stdout s;
         s \<leftarrow> (if io_t_size (fslot s j) \<ge> io_size (fslot s j) div 2 then refresh sc j s else Some s);
         if printable ch
         then let s = put_cell j ch s
              in if io_t_size (fslot s j) \<ge> io_size (fslot s j) div 2 then map_option (\<lambda>s. (1, s)) (refresh sc j s)
                 else Some (1, s)
         else if ch = 10 then map_option (\<lambda>s. (1, s)) (refresh sc j (put_cell j ch s))
         else Some (0, s)
       }
     }"

partial_function (option) puts_loop :: "crt \<Rightarrow> 'w usyscall \<Rightarrow> addr \<Rightarrow> 'w ulib \<Rightarrow> (addr \<times> 'w ulib) option" where
  "puts_loop c sc str s =
     (if umem s str = 0 then Some (str, s)
      else do {
        (r, s) \<leftarrow> putchar c sc (umem s str) s;
        if r = 0 then Some (str + 1, s) else puts_loop c sc (str + 1) s
      })"

definition puts :: "crt \<Rightarrow> 'w usyscall \<Rightarrow> addr \<Rightarrow> 'w ulib \<Rightarrow> (u32 \<times> 'w ulib) option" where
  "puts c sc str s = map_option (\<lambda>(p, s). (p - str, s)) (puts_loop c sc str s)"

text \<open>\<^verbatim>\<open>printf\<close>: \<^verbatim>\<open>buf\<close> is its local buffer, \<^verbatim>\<open>l\<close> the address of its format argument.\<close>

definition printf :: "crt \<Rightarrow> 'w usyscall \<Rightarrow> addr \<Rightarrow> addr \<Rightarrow> 'w ulib \<Rightarrow> (u32 \<times> 'w ulib) option" where
  "printf c sc buf l s =
     do {
       (len, m) \<leftarrow> vsprintf buf (load32 (umem s) l) (va_start l) (umem s);
       puts c sc buf (s\<lparr>umem := m(buf + len := 0)\<rparr>)
     }"

section \<open>A line\<close>

text \<open>The copy at the end of a line, which clears the buffer behind itself.\<close>

primrec take_line :: "nat \<Rightarrow> addr \<Rightarrow> addr \<Rightarrow> mem \<Rightarrow> mem" where
  "take_line 0 ptr p m = m"
| "take_line (Suc n) ptr p m = take_line n (ptr + 1) (p + 1) (let m = m(ptr := m p) in m(p := 0))"

text \<open>What one character does to the input buffer: a printable one is appended, code 4 takes the last one back.\<close>

definition edit_line :: "nat \<Rightarrow> cint \<Rightarrow> 'w ulib \<Rightarrow> 'w ulib" where
  "edit_line i ch s =
     (let s = (if (32 \<le>s ch \<and> ch \<le>s 126 \<or> ch = 9) \<and> io_size (fslot s i) > io_t_size (fslot s i)
               then upd_slot i (\<lambda>f. f\<lparr>io_ptr := io_ptr f + 1, io_t_size := io_t_size f + 1\<rparr>)
                      (s\<lparr>umem := (umem s)(io_ptr (fslot s i) := ucast ch)\<rparr>)
               else s)
      in if ch = 4 \<and> io_ptr (fslot s i) > io_base (fslot s i)
         then upd_slot i (\<lambda>f. f\<lparr>io_t_size := io_t_size f - 1, io_ptr := io_ptr f - 1\<rparr>)
                (s\<lparr>umem := (umem s)(io_ptr (fslot s i) - 1 := 0)\<rparr>)
         else s)"

definition needs_stdin :: "cint \<Rightarrow> bool" where
  "needs_stdin ch \<longleftrightarrow> 32 \<le>s ch \<and> ch \<le>s 126 \<or> ch = 9 \<or> ch = 4"

partial_function (option) gets_loop :: "crt \<Rightarrow> 'w usyscall \<Rightarrow> addr \<Rightarrow> cint \<Rightarrow> 'w ulib \<Rightarrow> (cint \<times> 'w ulib) option" where
  "gets_loop c sc ptr len s =
     do {
       (ch, s) \<leftarrow> getchar c sc s;
       (r, s) \<leftarrow> putchar c sc (ucast ch) s;
       if ch = 3 \<and> 0 <s len
       then do {
         i \<leftarrow> u_stdin s;
         let m = take_line (unat len) ptr (io_base (fslot s i)) (umem s);
         Some (len, upd_slot i (\<lambda>f. f\<lparr>io_ptr := io_base f, io_t_size := 0\<rparr>)
           (s\<lparr>umem := snd (memset (io_base (fslot s i)) 0 1024 m)\<rparr>))
       }
       else do {
         s \<leftarrow> (if needs_stdin ch then map_option (\<lambda>i. edit_line i ch s) (u_stdin s) else Some s);
         gets_loop c sc ptr (len + 1) s
       }
     }"

definition gets :: "crt \<Rightarrow> 'w usyscall \<Rightarrow> addr \<Rightarrow> 'w ulib \<Rightarrow> (cint \<times> 'w ulib) option" where
  "gets c sc ptr s = gets_loop c sc ptr 0 s"

section \<open>Output of a line\<close>

definition cells :: "nat \<Rightarrow> addr \<Rightarrow> mem \<Rightarrow> u16 list" where
  "cells n p m = map (\<lambda>i. load16 m (p + of_nat (2 * i))) [0..<n]"

text \<open>A display as the world: a write delivers the cells and leaves the memory of the program alone.\<close>

definition terminal :: "u16 list list usyscall \<Rightarrow> bool" where
  "terminal sc \<longleftrightarrow> (\<forall>base n m w. sc 0x00020002 1 base n 0 0 (m, w) = Some (n, m, w @ [cells (unat n) base m]))"

definition displays :: "(u16 list \<Rightarrow> 'w \<Rightarrow> 'w) \<Rightarrow> 'w usyscall \<Rightarrow> bool" where
  "displays put sc \<longleftrightarrow> (\<forall>base n m w. sc 0x00020002 1 base n 0 0 (m, w) = Some (n, m, put (cells (unat n) base m) w))"

lemma terminal_displays: "terminal sc \<Longrightarrow> displays (\<lambda>cs w. w @ [cs]) sc"
  by (simp add: terminal_def displays_def)

text \<open>Since \<open>s0\<close>, exactly the characters \<open>xs\<close> were put into the empty buffer of slot \<open>j\<close>.\<close>

definition buffered :: "nat \<Rightarrow> u8 list \<Rightarrow> 'w ulib \<Rightarrow> 'w ulib \<Rightarrow> bool" where
  "buffered j xs s0 s \<longleftrightarrow>
     u_stdout s = Some j \<and> u_stdin s = u_stdin s0 \<and> world s = world s0 \<and> (\<forall>k. k \<noteq> j \<longrightarrow> fslot s k = fslot s0 k) \<and>
     fslot s j = \<lparr>io_size = 4000, io_index = io_index (fslot s0 j), io_t_size = of_nat (length xs),
       io_base = io_base (fslot s0 j), io_ptr = io_base (fslot s0 j) + of_nat (2 * length xs)\<rparr> \<and>
     cells (length xs) (io_base (fslot s0 j)) (umem s) = map cell_of xs \<and>
     (\<forall>a. \<not> a - io_base (fslot s0 j) < of_nat (2 * length xs) \<longrightarrow> umem s a = umem s0 a)"

lemma cells_Suc: "cells (Suc n) p m = cells n p m @ [load16 m (p + of_nat (2 * n))]"
  by (simp add: cells_def)

lemma distinct_offsets:
  fixes p :: addr
  assumes "a < 5000" and "b < 5000" and "a \<noteq> b"
  shows "p + of_nat a \<noteq> p + of_nat b"
  using assms unat_of_nat32 [of a] unat_of_nat32 [of b] by (auto simp: add_left_cancel dest: arg_cong [where f = unat])

lemma cells_store:
  assumes "n \<le> k" and "k \<le> 2000"
  shows "cells n p (store16 (p + of_nat (2 * k)) v m) = cells n p m"
proof -
  have "load16 (store16 (p + of_nat (2 * k)) v m) (p + of_nat (2 * i)) = load16 m (p + of_nat (2 * i))" if "i < n" for i
  proof (rule load16_store16_other)
    show "p + of_nat (2 * i) \<noteq> p + of_nat (2 * k)" using that assms by (intro distinct_offsets) auto
    have "p + of_nat (Suc (2 * i)) \<noteq> p + of_nat (2 * k)" using that assms by (intro distinct_offsets) auto
    then show "p + of_nat (2 * i) + 1 \<noteq> p + of_nat (2 * k)" by (simp add: algebra_simps)
    have "p + of_nat (2 * i) \<noteq> p + of_nat (Suc (2 * k))" using that assms by (intro distinct_offsets) auto
    then show "p + of_nat (2 * i) \<noteq> p + of_nat (2 * k) + 1" by (simp add: algebra_simps)
  qed
  then show ?thesis by (simp add: cells_def)
qed

lemma in_cells:
  fixes a p :: addr
  assumes "k < 2000" and "\<not> a - p < of_nat (2 * Suc k)"
  shows "a \<noteq> p + of_nat (2 * k)" and "a \<noteq> p + of_nat (2 * k) + 1" and "\<not> a - p < of_nat (2 * k)"
proof -
  have u: "unat (of_nat (2 * Suc k) :: u32) = 2 * Suc k" "unat (of_nat (2 * k) :: u32) = 2 * k" "unat (of_nat (Suc (2 * k)) :: u32) = Suc (2 * k)"
    using assms(1) by (intro unat_of_nat32; simp)+
  have far: "2 * Suc k \<le> unat (a - p)" using assms(2) u(1) by (simp only: word_less_nat_alt)
  show "a \<noteq> p + of_nat (2 * k)" using far u(2) by auto
  show "a \<noteq> p + of_nat (2 * k) + 1"
  proof
    assume "a = p + of_nat (2 * k) + 1"
    then have "a - p = of_nat (Suc (2 * k))" by (simp add: algebra_simps)
    then show False using far u(3) by simp
  qed
  show "\<not> a - p < of_nat (2 * k)" unfolding word_less_nat_alt u(2) using far by simp
qed

lemma buffered_put_cell:
  assumes b: "buffered j xs s0 s" and n: "length xs < 2000"
  shows "buffered j (xs @ [ch]) s0 (put_cell j ch s)"
proof -
  let ?p = "io_base (fslot s0 j)"
  have ptr: "io_ptr (fslot s j) = ?p + of_nat (2 * length xs)" using b by (simp add: buffered_def)
  have m: "umem (put_cell j ch s) = store16 (?p + of_nat (2 * length xs)) (cell_of ch) (umem s)"
    by (simp add: put_cell_def upd_slot_def Let_def ptr)
  have "cells (Suc (length xs)) ?p (umem (put_cell j ch s)) = map cell_of (xs @ [ch])"
    unfolding cells_Suc m using b n by (subst cells_store) (simp_all add: buffered_def)
  moreover have "umem (put_cell j ch s) a = umem s0 a" if "\<not> a - ?p < of_nat (2 * Suc (length xs))" for a
    using in_cells [OF n that] b unfolding m by (simp add: store16_def buffered_def)
  ultimately show ?thesis using b
    by (simp add: buffered_def put_cell_def upd_slot_def Let_def algebra_simps)
qed

lemma putchar_printable:
  assumes "u_stdout s = Some j" and "io_size (fslot s j) = 4000" and "io_t_size (fslot s j) < 1999" and "printable ch"
  shows "putchar c sc ch s = Some (1, put_cell j ch s)"
proof -
  have "\<not> 2000 \<le> io_t_size (fslot s j)" "\<not> 2000 \<le> io_t_size (fslot s j) + 1"
    using assms(3) by (auto simp: not_le word_less_nat_alt unat_word_ariths)
  then show ?thesis using assms
    by (simp add: putchar_def put_cell_def upd_slot_def Let_def)
qed

lemma putchar_newline:
  assumes "u_stdout s = Some j" and "io_size (fslot s j) = 4000" and "io_t_size (fslot s j) < 2000"
  shows "putchar c sc 10 s = map_option (\<lambda>s. (1, s)) (refresh sc j (put_cell j 10 s))"
proof -
  have "\<not> printable 10" by (simp add: printable_def word_sle_eq)
  moreover have "\<not> 2000 \<le> io_t_size (fslot s j)" using assms(3) by simp
  ultimately show ?thesis using assms(1,2) by (simp add: putchar_def put_cell_def upd_slot_def Let_def)
qed

lemma printable_nonzero: "printable ch \<Longrightarrow> ch \<noteq> 0"
  by (auto simp: printable_def word_sle_eq)

text \<open>The string at \<open>str\<close> lies outside the first \<open>n\<close> cells of the buffer.\<close>

definition outside :: "addr \<Rightarrow> nat \<Rightarrow> addr \<Rightarrow> nat \<Rightarrow> bool" where
  "outside str k p n \<longleftrightarrow> (\<forall>i < k. \<not> str + of_nat i - p < of_nat (2 * n))"

lemma outside_below:
  assumes "unat str + k \<le> unat p" and "unat p + 2 * n < 4294967296"
  shows "outside str k p n"
  unfolding outside_def
proof (intro allI impI)
  fix i assume "i < k"
  moreover from this have "unat (of_nat i :: u32) = i" using assms by (intro unat_of_nat32) linarith
  ultimately have "unat (str + of_nat i) = unat str + i" using assms by (simp add: unat_word_ariths)
  moreover have "unat (of_nat (2 * n) :: u32) = 2 * n" using assms(2) by (intro unat_of_nat32) linarith
  ultimately show "\<not> str + of_nat i - p < of_nat (2 * n)"
    using \<open>i < k\<close> assms by (simp only: word_less_nat_alt) (simp add: unat_sub_if')
qed

lemma far_mono: "\<not> (a :: addr) < of_nat (2 * n) \<Longrightarrow> k \<le> n \<Longrightarrow> n \<le> 2000 \<Longrightarrow> \<not> a < of_nat (2 * k)"
  using unat_of_nat32 [of "2 * n"] unat_of_nat32 [of "2 * k"] by (simp only: word_less_nat_alt)

lemma puts_loop_buffers:
  assumes "buffered j xs s0 s" and "\<forall>b \<in> set ys. printable b" and "length xs + length ys < 1999"
    and "holds (umem s0) str (ys @ [10, 0])" and "outside str (length ys + 2) (io_base (fslot s0 j)) (length xs + length ys + 1)"
  shows "\<exists>s'. buffered j (xs @ ys) s0 s' \<and> puts_loop c sc str s = puts_loop c sc (str + of_nat (length ys)) s'"
  using assms
proof (induction ys arbitrary: xs s str)
  case Nil
  then show ?case by auto
next
  case (Cons y ys)
  let ?p = "io_base (fslot s0 j)"
  have f: "u_stdout s = Some j" "io_size (fslot s j) = 4000" "io_t_size (fslot s j) = of_nat (length xs)"
    using Cons.prems(1) by (simp_all add: buffered_def)
  have n: "length xs < 1999" using Cons.prems(3) by simp
  have t: "io_t_size (fslot s j) < 1999" unfolding f(3) using n by (simp add: word_less_nat_alt unat_of_nat32)
  have "\<not> str - ?p < of_nat (2 * (length xs + Suc (length ys) + 1))"
    using Cons.prems(5) unfolding outside_def by (auto dest: spec [of _ 0])
  then have "\<not> str - ?p < of_nat (2 * length xs)" by (rule far_mono) (use Cons.prems(3) in simp_all)
  then have y: "umem s str = y" using Cons.prems(1,4) by (simp add: buffered_def)
  have step: "puts_loop c sc str s = puts_loop c sc (str + 1) (put_cell j y s)"
    using putchar_printable [OF f(1,2) t, of y c sc] Cons.prems(2) y printable_nonzero [of y]
    by (subst puts_loop.simps) simp
  have "buffered j (xs @ [y]) s0 (put_cell j y s)" by (rule buffered_put_cell [OF Cons.prems(1)]) (use n in simp)
  moreover have "outside (str + 1) (length ys + 2) ?p (length (xs @ [y]) + length ys + 1)"
    unfolding outside_def
  proof (intro allI impI)
    fix i assume "i < length ys + 2"
    then have "\<not> str + of_nat (Suc i) - ?p < of_nat (2 * (length xs + length (y # ys) + 1))"
      using Cons.prems(5) unfolding outside_def by (auto simp del: of_nat_Suc)
    then show "\<not> str + 1 + of_nat i - ?p < of_nat (2 * (length (xs @ [y]) + length ys + 1))"
      by (simp add: add.assoc)
  qed
  ultimately obtain s' where "buffered j ((xs @ [y]) @ ys) s0 s'"
    "puts_loop c sc (str + 1) (put_cell j y s) = puts_loop c sc (str + 1 + of_nat (length ys)) s'"
    using Cons.IH [of "xs @ [y]" "put_cell j y s" "str + 1"] Cons.prems(2,3,4) by auto
  then show ?case using step by (auto simp: add.assoc)
qed

text \<open>A line behind characters that wait in the buffer: one write delivers them all and empties the buffer.\<close>

lemma puts_appends:
  assumes d: "displays put sc" and b0: "buffered j xs s0 s" and p: "io_base (fslot s0 j) = p"
    and "\<forall>b \<in> set bs. printable b" and n: "length xs + length bs < 1999"
    and h: "holds (umem s0) str (bs @ [10, 0])" and o: "outside str (length bs + 2) p (length xs + length bs + 1)"
  shows "\<exists>s'. puts c sc str s = Some (of_nat (length bs + 1), s') \<and> world s' = put (map cell_of (xs @ bs @ [10])) (world s0) \<and>
    u_stdin s' = u_stdin s0 \<and> u_stdout s' = Some j \<and> (\<forall>k. k \<noteq> j \<longrightarrow> fslot s' k = fslot s0 k) \<and>
    fslot s' j = \<lparr>io_size = 4000, io_index = io_index (fslot s0 j), io_t_size = 0, io_base = p, io_ptr = p\<rparr> \<and>
    (\<forall>a. \<not> a - p < 4000 \<longrightarrow> umem s' a = umem s0 a)"
proof -
  let ?n = "length bs" let ?k = "length xs + ?n"
  obtain s1 where b1: "buffered j (xs @ bs) s0 s1" and l1: "puts_loop c sc str s = puts_loop c sc (str + of_nat ?n) s1"
    using puts_loop_buffers [OF b0, of bs str c sc] assms(3-) by auto
  have same: "umem s1' (str + of_nat i) = umem s0 (str + of_nat i)" if "buffered j zs s0 s1'" "length zs \<le> ?k + 1" "i < ?n + 2" for zs s1' i
  proof -
    have "\<not> str + of_nat i - p < of_nat (2 * (?k + 1))" using o that(3) unfolding outside_def by blast
    then have "\<not> str + of_nat i - p < of_nat (2 * length zs)" by (rule far_mono) (use that(2) n in simp_all)
    then show ?thesis using that(1) p by (simp add: buffered_def)
  qed
  have nl: "umem s0 (str + of_nat ?n) = 10" "umem s0 (str + of_nat (?n + 1)) = 0"
    using h by (simp_all add: ac_simps)
  let ?s2 = "put_cell j 10 s1"
  have b2: "buffered j (xs @ bs @ [10]) s0 ?s2" using buffered_put_cell [OF b1, of 10] n by simp
  define s3 where "s3 = upd_slot j (\<lambda>f. f\<lparr>io_ptr := io_base f, io_t_size := 0\<rparr>) (?s2\<lparr>world := put (map cell_of (xs @ bs @ [10])) (world s0)\<rparr>)"
  have u: "unat (of_nat (length (xs @ bs @ [10 :: u8])) :: u32) = length (xs @ bs @ [10 :: u8])"
    using n by (intro unat_of_nat32) simp
  have "refresh sc j ?s2 = Some s3"
    using d p b2 u
    by (simp add: refresh_def lib_write_def usys_def displays_def buffered_def s3_def upd_slot_def fd_stdout_def)
  then have "putchar c sc 10 s1 = Some (1, s3)"
  proof (subst putchar_newline [of s1 j])
    have "unat (of_nat ?k :: u32) = ?k" using n by (intro unat_of_nat32) simp
    then have "(of_nat ?k :: u32) < 2000" using n by (simp add: word_less_nat_alt del: of_nat_add)
    then show "io_t_size (fslot s1 j) < 2000" using b1 by (simp add: buffered_def)
  qed (use b1 in \<open>simp_all add: buffered_def\<close>)
  moreover have inc: "str + of_nat ?n + 1 = str + of_nat (?n + 1)" by (simp add: ac_simps)
  ultimately have "puts_loop c sc (str + of_nat ?n) s1 = puts_loop c sc (str + of_nat (?n + 1)) s3"
    using same [OF b1, of ?n] nl(1) by (subst puts_loop.simps) (simp add: inc del: of_nat_add of_nat_Suc)
  also have "\<dots> = Some (str + of_nat (?n + 1), s3)"
    using same [OF b2, of "?n + 1"] nl(2) by (subst puts_loop.simps) (simp add: s3_def upd_slot_def)
  finally have "puts c sc str s = Some (of_nat (?n + 1), s3)" using l1 by (simp add: puts_def)
  moreover have "umem s3 a = umem s0 a" if "\<not> a - p < 4000" for a
  proof -
    have "\<not> a - p < of_nat (2 * length (xs @ bs @ [10 :: u8]))"
      by (rule far_mono [of _ 2000]) (use that n in simp_all)
    then show ?thesis using b2 p by (simp add: s3_def upd_slot_def buffered_def)
  qed
  moreover have "world s3 = put (map cell_of (xs @ bs @ [10])) (world s0)" "u_stdin s3 = u_stdin s0" "u_stdout s3 = Some j"
    "\<forall>k. k \<noteq> j \<longrightarrow> fslot s3 k = fslot s0 k"
    "fslot s3 j = \<lparr>io_size = 4000, io_index = io_index (fslot s0 j), io_t_size = 0, io_base = p, io_ptr = p\<rparr>"
    using b2 p by (simp_all add: s3_def upd_slot_def buffered_def)
  ultimately show ?thesis by blast
qed

text \<open>puts of a line of fewer than 1999 printable characters returns its length and delivers it to the
  display with one write, each character with its colour, and leaves the buffer empty.\<close>

theorem puts_line:
  assumes "terminal sc" and "u_stdout s = Some j"
    and "fslot s j = \<lparr>io_size = 4000, io_index = ix, io_t_size = 0, io_base = p, io_ptr = p\<rparr>"
    and "\<forall>b \<in> set bs. printable b" and "length bs < 1999"
    and "holds (umem s) str (bs @ [10, 0])" and "outside str (length bs + 2) p (length bs + 1)"
  shows "\<exists>s'. puts c sc str s = Some (of_nat (length bs + 1), s') \<and> world s' = world s @ [map cell_of (bs @ [10])] \<and>
    fslot s' j = fslot s j"
proof -
  have b: "buffered j [] s s" using assms(2,3) by (simp add: buffered_def cells_def)
  from puts_appends [OF terminal_displays [OF assms(1)] b, of p bs str c] assms(3-) show ?thesis by auto
qed

section \<open>Input of a line\<close>

text \<open>A keyboard and a display as the world: a read of one byte takes the next key, a write changes nothing of the program.\<close>

definition console :: "(u8 list \<times> u16 list list) usyscall \<Rightarrow> bool" where
  "console sc \<longleftrightarrow>
     (\<forall>a m b keys out. sc 0x00020003 0 a 1 0 0 (m, (b # keys, out)) = Some (1, m(a := b), (keys, out))) \<and>
     (\<forall>base n m keys out. sc 0x00020002 1 base n 0 0 (m, (keys, out)) = Some (n, m, (keys, out @ [cells (unat n) base m])))"

text \<open>The input buffer at \<open>q\<close> is apart from the byte \<open>ch\<close> and from the output cells at \<open>p\<close>.\<close>

definition apart :: "addr \<Rightarrow> addr \<Rightarrow> addr \<Rightarrow> bool" where
  "apart q ch p \<longleftrightarrow> (\<forall>k < 1024. q + of_nat k \<noteq> ch \<and> (\<forall>l < 4000. q + of_nat k \<noteq> p + of_nat l))"

text \<open>The characters \<open>xs\<close> were typed and echoed.\<close>

definition typed :: "nat \<Rightarrow> nat \<Rightarrow> addr \<Rightarrow> addr \<Rightarrow> u8 list \<Rightarrow> 'w ulib \<Rightarrow> bool" where
  "typed i j q p xs s \<longleftrightarrow>
     u_stdin s = Some i \<and> u_stdout s = Some j \<and> i \<noteq> j \<and>
     io_size (fslot s i) = 1024 \<and> io_t_size (fslot s i) = of_nat (length xs) \<and> io_base (fslot s i) = q \<and>
     io_ptr (fslot s i) = q + of_nat (length xs) \<and>
     io_size (fslot s j) = 4000 \<and> io_t_size (fslot s j) = of_nat (length xs) \<and> io_ptr (fslot s j) = p + of_nat (2 * length xs) \<and>
     holds (umem s) q xs"

lemma load32_low_byte: "load32 m a AND 0xFF = ucast (m a)"
proof -
  have f: "(0xFF :: u32) = mask 8" by (simp add: mask_eq_exp_minus_1)
  show ?thesis unfolding f load32_def by (rule bit_word_eqI) (auto simp: bit_simps dest: bit_imp_le_length)
qed

lemma byte_wide: "ucast (ucast b :: cint) = (b :: u8)"
  by (rule bit_word_eqI) (auto simp: bit_simps)

lemma printable_value: "printable b \<Longrightarrow> \<exists>k. b = of_nat k \<and> (32 \<le> k \<and> k \<le> 126 \<or> k = 9)"
proof -
  assume "printable b"
  then consider "32 \<le> sint b" "sint b \<le> 126" | "b = of_nat 9" by (auto simp: printable_def word_sle_eq)
  then show ?thesis
  proof cases
    case 1
    then have "of_nat (nat (sint b)) = b" by (simp add: of_nat_nat of_int_sint)
    then show ?thesis using 1 by (intro exI [of _ "nat (sint b)"]) auto
  qed blast
qed

lemma printable_wide:
  assumes "printable b"
  shows "32 \<le>s (ucast b :: cint) \<and> ucast b \<le>s (126 :: cint) \<or> ucast b = (9 :: cint)" and "ucast b \<noteq> (4 :: cint)" and "ucast b \<noteq> (3 :: cint)"
proof -
  obtain k where k: "b = of_nat k" "32 \<le> k \<and> k \<le> 126 \<or> k = 9" using printable_value [OF assms] by blast
  have "unat b = k" unfolding k(1) unat_of_nat using k(2) by auto
  then have w: "(ucast b :: cint) = of_nat k" by (metis of_nat_unat)
  have u: "unat (of_nat k :: cint) = k" using k(2) by (intro unat_of_nat32) auto
  have "sint (of_nat k :: cint) = int k" using k(2) by (simp add: signed_of_nat) (auto intro: signed_take_bit_int_eq_self)
  then show "32 \<le>s (ucast b :: cint) \<and> ucast b \<le>s (126 :: cint) \<or> ucast b = (9 :: cint)"
    using k(2) unfolding w by (auto simp: word_sle_eq)
  show "ucast b \<noteq> (4 :: cint)" "ucast b \<noteq> (3 :: cint)" unfolding w using u k(2) by auto
qed

lemma getchar_key:
  assumes "console sc" and "typed i j q p xs s" and "length xs < 1024" and "world s = (b # keys, out)"
  shows "getchar c sc s = Some (ucast b, s\<lparr>umem := (umem s)(ch_at c := b), world := (keys, out)\<rparr>)"
proof -
  have "(of_nat (length xs) :: u32) < 1024" using assms(3) by (simp add: word_less_nat_alt unat_of_nat32)
  then show ?thesis using assms
    by (simp add: getchar_def typed_def lib_read_def usys_def console_def load32_low_byte fd_stdin_def not_le [symmetric])
qed

lemma key_state:
  assumes t: "typed i j q p xs s" and n: "length xs < 1024" and b: "printable b"
  shows "edit_line i (ucast b) (put_cell j b (s\<lparr>umem := (umem s)(ch_at c := b), world := w\<rparr>)) =
      s\<lparr>umem := (store16 (p + of_nat (2 * length xs)) (cell_of b) ((umem s)(ch_at c := b)))(q + of_nat (length xs) := b), world := w,
        fslot := (fslot s)(j := (fslot s j)\<lparr>io_ptr := p + of_nat (2 * length xs) + 2, io_t_size := of_nat (length xs) + 1\<rparr>,
          i := (fslot s i)\<lparr>io_ptr := q + of_nat (length xs) + 1, io_t_size := of_nat (length xs) + 1\<rparr>)\<rparr>"
proof -
  have less: "(of_nat (length xs) :: u32) < 1024" using n by (simp add: word_less_nat_alt unat_of_nat32)
  show ?thesis using t less printable_wide [OF b]
    by (simp add: edit_line_def put_cell_def upd_slot_def Let_def typed_def fun_upd_twist byte_wide)
qed

lemma typed_key:
  assumes t: "typed i j q p xs s" and n: "length xs < 1024" and a: "apart q (ch_at c) p" and b: "printable b"
  shows "typed i j q p (xs @ [b]) (edit_line i (ucast b) (put_cell j b (s\<lparr>umem := (umem s)(ch_at c := b), world := w\<rparr>)))"
    and "world (edit_line i (ucast b) (put_cell j b (s\<lparr>umem := (umem s)(ch_at c := b), world := w\<rparr>))) = w"
proof -
  let ?n = "length xs"
  let ?m = "store16 (p + of_nat (2 * ?n)) (cell_of b) ((umem s)(ch_at c := b))"
  note e = key_state [OF t n b, where c = c and w = w]
  have "?m (q + of_nat k) = umem s (q + of_nat k)" if "k < 1024" for k
  proof -
    have "q + of_nat k \<noteq> ch_at c" "q + of_nat k \<noteq> p + of_nat (2 * ?n)" "q + of_nat k \<noteq> p + of_nat (Suc (2 * ?n))"
      using a n that unfolding apart_def by (auto simp del: of_nat_Suc of_nat_mult)
    then show ?thesis by (simp add: store16_def add.assoc add.commute [of 1])
  qed
  then have "holds (?m(q + of_nat ?n := b)) q (xs @ [b])"
    using t n distinct_offsets [of _ ?n q] by (auto simp: typed_def holds_def nth_append less_Suc_eq)
  then show "typed i j q p (xs @ [b]) (edit_line i (ucast b) (put_cell j b (s\<lparr>umem := (umem s)(ch_at c := b), world := w\<rparr>)))"
    unfolding e using t by (simp add: typed_def ac_simps)
  show "world (edit_line i (ucast b) (put_cell j b (s\<lparr>umem := (umem s)(ch_at c := b), world := w\<rparr>))) = w"
    unfolding e by simp
qed

text \<open>One key of a line.\<close>

lemma gets_step:
  assumes "console sc" and "typed i j q p xs s" and "length xs < 1024" and y: "printable y" and "world s = (y # rest, out)"
  shows "gets_loop c sc ptr (of_nat (length xs)) s = gets_loop c sc ptr (of_nat (length (xs @ [y])))
    (edit_line i (ucast y) (put_cell j y (s\<lparr>umem := (umem s)(ch_at c := y), world := (rest, out)\<rparr>)))"
proof -
  let ?s1 = "s\<lparr>umem := (umem s)(ch_at c := y), world := (rest, out)\<rparr>"
  have g: "getchar c sc s = Some (ucast y, ?s1)" by (rule getchar_key [OF assms(1,2,3,5)])
  have "io_t_size (fslot ?s1 j) < 1999"
    using assms(2,3) by (simp add: typed_def word_less_nat_alt unat_of_nat32)
  then have p: "putchar c sc (ucast (ucast y :: cint)) ?s1 = Some (1, put_cell j y ?s1)"
    unfolding byte_wide using assms(2) y by (intro putchar_printable) (simp_all add: typed_def)
  have "u_stdin (put_cell j y ?s1) = Some i" using assms(2) by (simp add: typed_def put_cell_def upd_slot_def Let_def)
  then show ?thesis using g p printable_wide [OF y] by (subst gets_loop.simps) (auto simp: needs_stdin_def ac_simps)
qed

text \<open>The state after one key, and the loop over the keys of a line, which keeps whatever every key keeps.\<close>

definition after_key :: "crt \<Rightarrow> nat \<Rightarrow> nat \<Rightarrow> u8 \<Rightarrow> 'w \<Rightarrow> 'w ulib \<Rightarrow> 'w ulib" where
  "after_key c i j b w s = edit_line i (ucast b) (put_cell j b (s\<lparr>umem := (umem s)(ch_at c := b), world := w\<rparr>))"

lemma gets_loop_keeps:
  assumes "console sc" and a: "apart q (ch_at c) p" and "typed i j q p xs s" and "\<forall>b \<in> set ys. printable b"
    and "length xs + length ys < 1024" and "world s = (ys @ keys, out)" and "I xs s"
    and I: "\<And>xs b s w. typed i j q p xs s \<Longrightarrow> length xs < 1024 \<Longrightarrow> printable b \<Longrightarrow> I xs s \<Longrightarrow> I (xs @ [b]) (after_key c i j b w s)"
  shows "\<exists>s'. typed i j q p (xs @ ys) s' \<and> I (xs @ ys) s' \<and> world s' = (keys, out) \<and>
    gets_loop c sc ptr (of_nat (length xs)) s = gets_loop c sc ptr (of_nat (length (xs @ ys))) s'"
  using assms(3-7)
proof (induction ys arbitrary: xs s)
  case Nil
  then show ?case by auto
next
  case (Cons y ys)
  have n: "length xs < 1024" and y: "printable y" using Cons.prems(2,3) by simp_all
  let ?s = "after_key c i j y (ys @ keys, out) s"
  have "world s = (y # ys @ keys, out)" using Cons.prems(4) by simp
  note step = gets_step [OF assms(1) Cons.prems(1) n y this, of c ptr, folded after_key_def]
  note t = typed_key [OF Cons.prems(1) n a y, of "(ys @ keys, out)", folded after_key_def]
  have "I (xs @ [y]) ?s" by (rule I [OF Cons.prems(1) n y Cons.prems(5)])
  then have "\<exists>s'. typed i j q p ((xs @ [y]) @ ys) s' \<and> I ((xs @ [y]) @ ys) s' \<and> world s' = (keys, out) \<and>
      gets_loop c sc ptr (of_nat (length (xs @ [y]))) ?s = gets_loop c sc ptr (of_nat (length ((xs @ [y]) @ ys))) s'"
    using Cons.prems(2,3) t by (intro Cons.IH) simp_all
  then show ?case unfolding step [symmetric] by simp
qed

lemma gets_loop_types:
  assumes "console sc" and "apart q (ch_at c) p" and "typed i j q p xs s" and "\<forall>b \<in> set ys. printable b"
    and "length xs + length ys < 1024" and "world s = (ys @ keys, out)"
  shows "\<exists>s'. typed i j q p (xs @ ys) s' \<and> world s' = (keys, out) \<and>
    gets_loop c sc ptr (of_nat (length xs)) s = gets_loop c sc ptr (of_nat (length (xs @ ys))) s'"
  using gets_loop_keeps [OF assms, where I = "\<lambda>_ _. True"] by simp

lemma take_line_frame:
  assumes "\<forall>k < n. a \<noteq> ptr + of_nat k \<and> a \<noteq> p + of_nat k"
  shows "take_line n ptr p m a = m a"
  using assms
proof (induction n arbitrary: ptr p m)
  case (Suc n)
  have "a \<noteq> ptr + 1 + of_nat k \<and> a \<noteq> p + 1 + of_nat k" if "k < n" for k
    using Suc.prems [rule_format, of "Suc k"] that by (simp add: add.assoc)
  then show ?case using Suc.IH [of "ptr + 1" "p + 1"] Suc.prems by (auto simp: Let_def dest: spec [of _ 0])
qed simp

lemma take_line_copies:
  assumes "\<forall>k < n. \<forall>l < n. ptr + of_nat k \<noteq> p + of_nat l" and "n < 5000" and "k < n"
  shows "take_line n ptr p m (ptr + of_nat k) = m (p + of_nat k)"
  using assms
proof (induction n arbitrary: ptr p m k)
  case (Suc n)
  let ?m = "m(ptr := m p, p := 0)"
  note IH = Suc.IH [of "ptr + 1" "p + 1" _ ?m] and n = Suc.prems(2)
  have apart: "ptr + of_nat k \<noteq> p + of_nat l" if "k \<le> n" "l \<le> n" for k l using Suc.prems(1) that by (simp add: less_Suc_eq_le)
  have k: "k < Suc n" by (rule Suc.prems(3))
  show ?case
  proof (cases k)
    case 0
    have "ptr \<noteq> ptr + 1 + of_nat k \<and> ptr \<noteq> p + 1 + of_nat k" if "k < n" for k
      using distinct_offsets [of 0 "Suc k" ptr] apart [of 0 "Suc k"] that n by (simp add: add.assoc)
    then have "take_line n (ptr + 1) (p + 1) ?m ptr = ?m ptr" by (intro take_line_frame) blast
    moreover have "ptr \<noteq> p" using apart [of 0 0] by simp
    ultimately show ?thesis using 0 by (simp add: Let_def)
  next
    case (Suc k')
    have "ptr + 1 + of_nat k \<noteq> p + 1 + of_nat l" if "k < n" "l < n" for k l
      using apart [of "Suc k" "Suc l"] that by (simp add: add.assoc)
    then have "take_line n (ptr + 1) (p + 1) ?m (ptr + 1 + of_nat k') = ?m (p + 1 + of_nat k')"
      using IH [of k'] n k Suc by (auto simp del: fun_upd_apply)
    moreover have "p + of_nat (Suc k') \<noteq> ptr" "p + of_nat (Suc k') \<noteq> p"
      using apart [of 0 "Suc k'"] distinct_offsets [of "Suc k'" 0 p] n k Suc by auto
    ultimately show ?thesis using Suc by (simp add: Let_def add.assoc)
  qed
qed simp

lemma putchar_ignored:
  assumes "u_stdout s = Some j" and "io_size (fslot s j) = 4000" and "io_t_size (fslot s j) < 2000" and "\<not> printable ch" and "ch \<noteq> 10"
  shows "putchar c sc ch s = Some (0, s)"
proof -
  have "\<not> 2000 \<le> io_t_size (fslot s j)" using assms(3) by simp
  then show ?thesis using assms by (simp add: putchar_def)
qed

text \<open>The key that ends a line.\<close>

lemma gets_end:
  assumes "console sc" and t: "typed i j q p xs s" and "xs \<noteq> []" and n: "length xs < 1024" and "world s = (3 # keys, out)"
  shows "gets_loop c sc ptr (of_nat (length xs)) s = Some (of_nat (length xs),
    upd_slot i (\<lambda>f. f\<lparr>io_ptr := io_base f, io_t_size := 0\<rparr>)
      (s\<lparr>umem := snd (memset q 0 1024 (take_line (length xs) ptr q ((umem s)(ch_at c := 3)))), world := (keys, out)\<rparr>))"
proof -
  let ?n = "length xs" let ?s2 = "s\<lparr>umem := (umem s)(ch_at c := 3), world := (keys, out)\<rparr>"
  have k: "getchar c sc s = Some (3, ?s2)" using getchar_key [OF assms(1) t n assms(5)] by simp
  have "\<not> printable 3" by (simp add: printable_def word_sle_eq)
  moreover have "io_t_size (fslot ?s2 j) < 2000" using t n by (simp add: typed_def word_less_nat_alt unat_of_nat32)
  ultimately have e: "putchar c sc 3 ?s2 = Some (0, ?s2)"
    using t by (intro putchar_ignored [where j = j]) (simp_all add: typed_def)
  have u: "unat (of_nat ?n :: cint) = ?n" using n by (intro unat_of_nat32) simp
  have "sint (of_nat ?n :: cint) = int ?n"
    using n by (simp add: signed_of_nat) (auto intro: signed_take_bit_int_eq_self)
  then have pos: "0 <s (of_nat ?n :: cint)" using assms(3) by (simp add: word_sless_alt)
  show ?thesis using k e pos t by (subst gets_loop.simps) (simp add: typed_def u upd_slot_def)
qed

text \<open>C38: With the streams open, empty buffers and a console behind the calls (numbers this kernel gives
  to execv and exit), gets of a line of 1 to 1023 printable characters ended by code 3 returns its
  length, stores exactly the characters typed and leaves the later keys.\<close>

theorem gets_line:
  assumes "console sc" and "apart q (ch_at c) p" and "u_stdin s = Some i" and "u_stdout s = Some j" and "i \<noteq> j"
    and "fslot s i = \<lparr>io_size = 1024, io_index = ix, io_t_size = 0, io_base = q, io_ptr = q\<rparr>"
    and "fslot s j = \<lparr>io_size = 4000, io_index = jx, io_t_size = 0, io_base = p, io_ptr = p\<rparr>"
    and "\<forall>b \<in> set xs. printable b" and "xs \<noteq> []" and "length xs < 1024"
    and "\<forall>k < length xs. \<forall>l < 1024. ptr + of_nat k \<noteq> q + of_nat l" and "world s = (xs @ 3 # keys, out)"
  shows "\<exists>s'. gets c sc ptr s = Some (of_nat (length xs), s') \<and> holds (umem s') ptr xs \<and> fst (world s') = keys \<and>
    io_t_size (fslot s' i) = 0 \<and> io_ptr (fslot s' i) = q"
proof -
  let ?n = "length xs"
  have "typed i j q p [] s" using assms(3-7) by (simp add: typed_def)
  then obtain s1 where t: "typed i j q p xs s1" and w: "world s1 = (3 # keys, out)"
    and g: "gets c sc ptr s = gets_loop c sc ptr (of_nat ?n) s1"
    using gets_loop_types [OF assms(1,2), of i j "[]" s xs "3 # keys" out ptr] assms(8,10,12) by (auto simp: gets_def)
  let ?s2 = "s1\<lparr>umem := (umem s1)(ch_at c := 3), world := (keys, out)\<rparr>"
  let ?m = "take_line ?n ptr q (umem ?s2)"
  define s3 where "s3 = upd_slot i (\<lambda>f. f\<lparr>io_ptr := io_base f, io_t_size := 0\<rparr>) (?s2\<lparr>umem := snd (memset q 0 1024 ?m)\<rparr>)"
  have "gets c sc ptr s = Some (of_nat ?n, s3)"
    unfolding g using gets_end [OF assms(1) t assms(9,10) w, of c ptr] by (simp add: s3_def upd_slot_def)
  moreover have "umem s3 (ptr + of_nat k) = xs ! k" if "k < ?n" for k
  proof -
    have "\<not> ptr + of_nat k - q < 1024"
    proof
      assume "ptr + of_nat k - q < 1024"
      then have "unat (ptr + of_nat k - q) < 1024" by (simp add: word_less_nat_alt)
      moreover have "ptr + of_nat k = q + of_nat (unat (ptr + of_nat k - q))" by simp
      ultimately show False using assms(11) that by blast
    qed
    then have "umem s3 (ptr + of_nat k) = ?m (ptr + of_nat k)" by (simp add: s3_def upd_slot_def memset_eq)
    also have "\<dots> = umem ?s2 (q + of_nat k)" using assms(10,11) that by (intro take_line_copies) auto
    also have "\<dots> = xs ! k" using t assms(2,10) that by (simp add: typed_def holds_def apart_def)
    finally show ?thesis .
  qed
  moreover have "fst (world s3) = keys" "io_t_size (fslot s3 i) = 0 \<and> io_ptr (fslot s3 i) = q"
    using t assms(6) by (simp_all add: s3_def upd_slot_def typed_def)
  ultimately show ?thesis unfolding holds_def by blast
qed

text \<open>When the input buffer is full \<^verbatim>\<open>getchar\<close> returns without reading, so the end of the line is never seen.\<close>

definition full :: "nat \<Rightarrow> 'w ulib \<Rightarrow> bool" where
  "full i s \<longleftrightarrow> u_stdin s = Some i \<and> io_size (fslot s i) \<le> io_t_size (fslot s i) \<and> (\<exists>j. u_stdout s = Some j \<and> j \<noteq> i)"

lemma full_refresh: "full i s \<Longrightarrow> u_stdout s = Some j \<Longrightarrow> refresh sc j s = Some s' \<Longrightarrow> full i s'"
  by (auto simp: full_def refresh_def lib_write_def usys_def upd_slot_def bind_eq_Some_conv)

lemma full_putchar: "full i s \<Longrightarrow> putchar c sc (- 1) s = Some (r, s') \<Longrightarrow> full i s'"
proof -
  assume f: "full i s" and p: "putchar c sc (- 1) s = Some (r, s')"
  obtain j where j: "u_stdout s = Some j" using f by (auto simp: full_def)
  have "\<not> printable (- 1)" by (simp add: printable_def word_sle_eq)
  then have "s' = s \<or> refresh sc j s = Some s'"
    using p j by (auto simp: putchar_def bind_eq_Some_conv split: if_splits)
  then show ?thesis using f full_refresh [OF f j] by blast
qed

lemma minus_one_byte: "ucast (- 1 :: cint) = (- 1 :: u8)"
  by (rule bit_word_eqI) (simp add: bit_simps)

lemma gets_loop_full:
  assumes "gets_loop c sc ptr len s = Some y"
  shows "\<not> full i s"
proof (rule gets_loop.raw_induct [OF _ assms], goal_cases)
  case (1 f c sc ptr len s y)
  show ?case
  proof
    assume "full i s"
    then have "getchar c sc s = Some (- 1, s)" by (auto simp: full_def getchar_def)
    then obtain r s' where "putchar c sc (- 1) s = Some (r, s')" "f c sc ptr (len + 1) s' = Some y"
      using 1(2) by (auto simp: bind_eq_Some_conv needs_stdin_def word_sle_eq minus_one_byte)
    then show False using 1(1) full_putchar [OF \<open>full i s\<close>] by blast
  qed
qed

theorem gets_full_hangs: "full i s \<Longrightarrow> gets c sc ptr s = None"
  using gets_loop_full [of c sc ptr 0 s _ i] by (cases "gets c sc ptr s") (auto simp: gets_def)

section \<open>A program on this kernel\<close>

text \<open>The kernel with the memory of the calling program, and \<^verbatim>\<open>int 0x80\<close>: \<^verbatim>\<open>asm_sys_call\<close> hands the saved registers to
  \<^verbatim>\<open>sys_call_handle\<close> and restores them, with the result in \<^verbatim>\<open>eax\<close>.\<close>

record kernel = intr +
  k_mem :: mem

definition int80 ::
    "(addr \<Rightarrow> u32 \<Rightarrow> u32 \<Rightarrow> u32 \<Rightarrow> u32 \<Rightarrow> u32 \<Rightarrow> kernel \<Rightarrow> (cint \<times> kernel) option) \<Rightarrow> stack_regs_struct \<Rightarrow> kernel usyscall" where
  "int80 callsys r eax ebx ecx edx edi esi mk =
     map_option (\<lambda>(r', k'). (r_eax r', k_mem k', k'))
       (sys_call_handle callsys (r\<lparr>r_eax := eax, r_ebx := ebx, r_ecx := ecx, r_edx := edx, r_edi := edi, r_esi := esi\<rparr>)
          ((snd mk)\<lparr>k_mem := fst mk\<rparr>))"

text \<open>The call number of \<^verbatim>\<open>open\<close> reaches an entry of the process calls that fails without an effect.\<close>

definition open_refused :: "'w usyscall \<Rightarrow> 'w ulib \<Rightarrow> bool" where
  "open_refused sc s \<longleftrightarrow> (\<forall>p mode. lib_open sc p mode s = Some (- 1, s))"

lemma int80_open:
  assumes "ps_entry (world s) 1 = p" and "p \<noteq> NULL" and "k_mem (world s) = umem s"
    and "\<forall>b c d e f k. callsys p b c d e f k = Some (sys_execv b c d e f, k)"
  shows "open_refused (int80 callsys r) s"
  using assms
  by (simp add: open_refused_def lib_open_def usys_def int80_def sys_call_handle_def syscall_route_def sys_execv_def Let_def
      SYS_CALL_PS_CNT_def GETFUNCTIONNUM_def GETCHLDFUCTIONNUM_def INVALID_def
      SYS_CALL_SYSTEM_def SYS_CALL_SYS_def SYS_CALL_PROCESS_def SYS_CALL_PS_def)

lemma getchar_refused: "open_refused sc s \<Longrightarrow> u_stdin s = None \<Longrightarrow> getchar c sc s = Some (0, s)"
  by (simp add: getchar_def open_refused_def)

lemma putchar_refused: "open_refused sc s \<Longrightarrow> u_stdout s = None \<Longrightarrow> putchar c sc ch s = Some (0, s)"
  by (simp add: putchar_def open_refused_def)

lemma gets_loop_refused:
  assumes "gets_loop c sc ptr len s = Some y"
  shows "\<not> (open_refused sc s \<and> u_stdin s = None \<and> u_stdout s = None)"
proof (rule gets_loop.raw_induct [OF _ assms], goal_cases)
  case (1 f c sc ptr len s y)
  show ?case
  proof
    assume r: "open_refused sc s \<and> u_stdin s = None \<and> u_stdout s = None"
    then have "f c sc ptr (len + 1) s = Some y"
      using 1(2) by (simp add: getchar_refused putchar_refused needs_stdin_def word_sle_eq)
    then show False using 1(1) r by blast
  qed
qed

text \<open>C40: On this kernel a program whose streams are not open cannot open them: the call number of open
  reaches sys_execv, so gets never returns and puts gives up after one character.\<close>

theorem console_unreachable:
  assumes "world s = (add_syscall_route_table fn k)\<lparr>k_mem := umem s\<rparr>" and "fn ''sys_execv'' \<noteq> NULL"
    and "\<forall>b c d e f k. callsys (fn ''sys_execv'') b c d e f k = Some (sys_execv b c d e f, k)"
    and "u_stdin s = None" and "u_stdout s = None"
  shows "gets c (int80 callsys r) ptr s = None \<and>
    puts c (int80 callsys r) str s = Some (if umem s str = 0 then 0 else 1, s)"
proof -
  have r: "open_refused (int80 callsys r) s"
    by (rule int80_open) (use assms in \<open>simp_all add: add_syscall_route_table_def GETCHLDFUCTIONNUM_def
      SYS_CALL_EXECL_def SYS_CALL_EXECV_def SYS_CALL_PS_def\<close>)
  then have "gets_loop c (int80 callsys r) ptr 0 s = None"
    using gets_loop_refused [of c "int80 callsys r" ptr 0 s] assms(4,5) by (metis option.exhaust prod.exhaust)
  moreover have "puts_loop c (int80 callsys r) str s = Some (if umem s str = 0 then str else str + 1, s)"
    using putchar_refused [OF r assms(5)] by (subst puts_loop.simps) simp
  ultimately show ?thesis by (auto simp: gets_def puts_def)
qed

section \<open>Examples\<close>

definition demo_terminal :: "u16 list list usyscall" where
  "demo_terminal eax ebx ecx edx edi esi mw = Some (edx, fst mw, snd mw @ [cells (unat edx) ecx (fst mw)])"

definition demo_ulib :: "'w \<Rightarrow> nat option \<Rightarrow> 'w ulib" where
  "demo_ulib w so = \<lparr>umem = (\<lambda>a. if a = 0x100 then 72 else if a = 0x101 then 105 else if a = 0x102 then 10 else 0),
     fslot = (\<lambda>_. \<lparr>io_size = 4000, io_index = 1, io_t_size = 0, io_base = 0x8000, io_ptr = 0x8000\<rparr>),
     u_stdin = None, u_stdout = so, world = w\<rparr>"

definition demo_crt :: crt where
  "demo_crt = \<lparr>stdin_path = 0x200, stdout_path = 0x210, stdin_buf = 0x7000, stdout_buf = 0x8000, ch_at = 0x9000\<rparr>"

theorem puts_line_witness:
  "\<exists>s'. puts demo_crt demo_terminal 0x100 (demo_ulib [] (Some 5)) = Some (3, s') \<and> world s' = [map cell_of [72, 105, 10]]"
proof -
  have "terminal demo_terminal" by (simp add: terminal_def demo_terminal_def)
  moreover have "outside 0x100 (Suc (Suc (Suc (Suc 0)))) 0x8000 (Suc (Suc (Suc 0)))" by (rule outside_below) simp_all
  moreover have "printable 72" "printable 105" by (simp_all add: printable_def word_sle_eq)
  ultimately show ?thesis
    using puts_line [of demo_terminal "demo_ulib [] (Some 5)" 5 1 "0x8000" "[72, 105]" "0x100" demo_crt]
    by (auto simp: demo_ulib_def)
qed

definition demo_kernel :: kernel where
  "demo_kernel = intr.extend demo_intr (kernel.fields (umem (demo_ulib () None)))"

theorem console_unreachable_witness:
  "gets demo_crt (int80 (\<lambda>_ b c d e f k. Some (sys_execv b c d e f, k)) (stack_regs_struct.make 0 0 0 0 0 0 0 0 0 0 0 0 0 0 0 0 0)) 0x300
     (demo_ulib ((add_syscall_route_table (\<lambda>f. of_nat (length f)) demo_kernel)\<lparr>k_mem := umem (demo_ulib () None)\<rparr>) None) = None"
proof -
  let ?w = "(add_syscall_route_table (\<lambda>f. of_nat (length f)) demo_kernel)\<lparr>k_mem := umem (demo_ulib () None)\<rparr>"
  have "world (demo_ulib ?w None) = (add_syscall_route_table (\<lambda>f. of_nat (length f)) demo_kernel)\<lparr>k_mem := umem (demo_ulib ?w None)\<rparr>"
    by (simp add: demo_ulib_def)
  from console_unreachable [OF this, of "\<lambda>_ b c d e f k. Some (sys_execv b c d e f, k)"] show ?thesis
    by (simp add: demo_ulib_def)
qed

definition demo_console :: "(u8 list \<times> u16 list list) usyscall" where
  "demo_console eax ebx ecx edx edi esi mw =
     (case mw of (m, keys, out) \<Rightarrow>
        if eax = 0x00020003 then (case keys of [] \<Rightarrow> None | b # ks \<Rightarrow> Some (1, m(ecx := b), ks, out))
        else Some (edx, m, keys, out @ [cells (unat edx) ecx m]))"

definition demo_input :: "(u8 list \<times> u16 list list) ulib" where
  "demo_input = \<lparr>umem = (\<lambda>_. 0),
     fslot = (\<lambda>_. \<lparr>io_size = 4000, io_index = 1, io_t_size = 0, io_base = 0x8000, io_ptr = 0x8000\<rparr>)
       (4 := \<lparr>io_size = 1024, io_index = 0, io_t_size = 0, io_base = 0x7000, io_ptr = 0x7000\<rparr>),
     u_stdin = Some 4, u_stdout = Some 5, world = ([72, 105, 3], [])\<rparr>"

theorem gets_line_witness:
  "\<exists>s'. gets demo_crt demo_console 0x300 demo_input = Some (2, s') \<and> holds (umem s') 0x300 [72, 105]"
proof -
  have "apart 0x7000 0x9000 0x8000"
    using offsets_apart [of "0x7000" 1024 "0x8000" 4000] offsets_apart [of "0x7000" 1024 "0x9000" 1 _ 0] by (simp add: apart_def)
  moreover have "console demo_console" by (simp add: console_def demo_console_def)
  moreover have "\<forall>k < length [72, 105 :: u8]. \<forall>l < 1024. 0x300 + of_nat k \<noteq> (0x7000 + of_nat l :: addr)"
    using offsets_apart [of "0x300" 2 "0x7000" 1024] by simp
  moreover have "\<forall>b \<in> set [72, 105]. printable b" by (simp add: printable_def word_sle_eq)
  ultimately show ?thesis
    using gets_line [of demo_console "0x7000" demo_crt "0x8000" demo_input 4 5 0 1 "[72, 105]" "0x300" "[]" "[]"]
    by (auto simp: demo_input_def demo_crt_def)
qed

end
