(* ===== verification/WideString.thy ===== *)
theory WideString
  imports StringLib
begin

text \<open>
  The wide-character functions of \<^verbatim>\<open>lib/string.c\<close>: a \<^verbatim>\<open>wchar_t\<close> is a signed 16-bit cell, pointers advance by two bytes and the
  results are differences of addresses, that is, bytes.
\<close>

section \<open>Bounded operations\<close>

definition wchar_diff :: "u16 \<Rightarrow> u16 \<Rightarrow> cint" where
  "wchar_diff a b = scast a - scast b"

function wstrncmp :: "addr \<Rightarrow> addr \<Rightarrow> u32 \<Rightarrow> mem \<Rightarrow> cint" where
  "wstrncmp des src mx m =
     (if load16 m des \<noteq> 0 \<and> load16 m src \<noteq> 0 \<and> wchar_diff (load16 m des) (load16 m src) = 0 \<and> mx \<noteq> 0
      then wstrncmp (des + 2) (src + 2) (mx - 1) m
      else wchar_diff (load16 m des) (load16 m src))"
  by pat_completeness auto
termination
  by (relation "measure (\<lambda>(des, src, mx, m). unat mx)") (auto simp: unat_dec_less)

function wstrncpy_loop :: "addr \<Rightarrow> addr \<Rightarrow> u32 \<Rightarrow> mem \<Rightarrow> addr \<times> mem" where
  "wstrncpy_loop des src mx m =
     (if load16 m src \<noteq> 0 \<and> mx \<noteq> 0
      then wstrncpy_loop (des + 2) (src + 2) (mx - 1) (store16 des (load16 m src) m) else (des, m))"
  by pat_completeness auto
termination
  by (relation "measure (\<lambda>(des, src, mx, m). unat mx)") (auto simp: unat_dec_less)

definition wstrncpy :: "addr \<Rightarrow> addr \<Rightarrow> u32 \<Rightarrow> mem \<Rightarrow> u32 \<times> mem" where
  "wstrncpy des src mx m = (case wstrncpy_loop des src mx m of (d, m') \<Rightarrow> (d - des, m'))"

function wstrnlen_loop :: "addr \<Rightarrow> u32 \<Rightarrow> mem \<Rightarrow> addr" where
  "wstrnlen_loop des mx m =
     (if load16 m des \<noteq> 0 \<and> mx \<noteq> 0 then wstrnlen_loop (des + 2) (mx - 1) m else des)"
  by pat_completeness auto
termination
  by (relation "measure (\<lambda>(des, mx, m). unat mx)") (auto simp: unat_dec_less)

definition wstrnlen :: "addr \<Rightarrow> u32 \<Rightarrow> mem \<Rightarrow> u32" where
  "wstrnlen des mx m = wstrnlen_loop des mx m - des"

definition wlower_char :: "u16 \<Rightarrow> u16" where
  "wlower_char c = (if 65 \<le>s c \<and> c <s 90 then c + 65 - 97 else c)"

definition wupper_char :: "u16 \<Rightarrow> u16" where
  "wupper_char c = (if 97 \<le>s c \<and> c <s 122 then c + 97 - 65 else c)"

function wconvn_loop :: "(u16 \<Rightarrow> u16) \<Rightarrow> addr \<Rightarrow> u32 \<Rightarrow> mem \<Rightarrow> addr \<times> mem" where
  "wconvn_loop f des mx m =
     (if load16 m des \<noteq> 0 \<and> mx \<noteq> 0
      then wconvn_loop f (des + 2) (mx - 1) (store16 des (f (load16 m des)) m) else (des, m))"
  by pat_completeness auto
termination
  by (relation "measure (\<lambda>(f, des, mx, m). unat mx)") (auto simp: unat_dec_less)

definition wtonlower :: "addr \<Rightarrow> u32 \<Rightarrow> mem \<Rightarrow> u32 \<times> mem" where
  "wtonlower des mx m = (case wconvn_loop wlower_char des mx m of (d, m') \<Rightarrow> (d - des, m'))"

definition wtonupper :: "addr \<Rightarrow> u32 \<Rightarrow> mem \<Rightarrow> u32 \<times> mem" where
  "wtonupper des mx m = (case wconvn_loop wupper_char des mx m of (d, m') \<Rightarrow> (d - des, m'))"

declare wstrncmp.simps [simp del] wstrncpy_loop.simps [simp del] wstrnlen_loop.simps [simp del]
  wconvn_loop.simps [simp del]

section \<open>Unbounded operations\<close>

partial_function (option) wskip_string :: "addr \<Rightarrow> mem \<Rightarrow> addr option" where
  "wskip_string p m = (if load16 m p = 0 then Some (p + 2) else wskip_string (p + 2) m)"

partial_function (option) wcopy_string :: "addr \<Rightarrow> addr \<Rightarrow> mem \<Rightarrow> (addr \<times> mem) option" where
  "wcopy_string des src m =
     (if load16 m src = 0 then Some (des, m) else wcopy_string (des + 2) (src + 2) (store16 des (load16 m src) m))"

definition wstrlen :: "addr \<Rightarrow> mem \<Rightarrow> u32 option" where
  "wstrlen des m = map_option (\<lambda>d. d - des) (wskip_string des m)"

definition wstrcat :: "addr \<Rightarrow> addr \<Rightarrow> mem \<Rightarrow> (u32 \<times> mem) option" where
  "wstrcat des src m =
     Option.bind (wskip_string des m)
       (\<lambda>tmp. map_option (\<lambda>(d, m'). (d - tmp, m')) (wcopy_string tmp src m))"

definition wstrcpy :: "addr \<Rightarrow> addr \<Rightarrow> mem \<Rightarrow> (u32 \<times> mem) option" where
  "wstrcpy des src m = map_option (\<lambda>(d, m'). (d - des, m')) (wcopy_string des src m)"

partial_function (option) wstrcmp :: "addr \<Rightarrow> addr \<Rightarrow> mem \<Rightarrow> cint option" where
  "wstrcmp des src m =
     (if load16 m des \<noteq> 0 \<and> load16 m src \<noteq> 0 \<and> wchar_diff (load16 m des) (load16 m src) = 0
      then wstrcmp (des + 2) (src + 2) m
      else Some (wchar_diff (load16 m des) (load16 m src)))"

partial_function (option) wconv_loop :: "(u16 \<Rightarrow> u16) \<Rightarrow> addr \<Rightarrow> mem \<Rightarrow> (addr \<times> mem) option" where
  "wconv_loop f des m =
     (if load16 m des = 0 then Some (des, m) else wconv_loop f (des + 2) (store16 des (f (load16 m des)) m))"

definition wtolower :: "addr \<Rightarrow> mem \<Rightarrow> (u32 \<times> mem) option" where
  "wtolower des m = map_option (\<lambda>(d, m'). (d - des, m')) (wconv_loop wlower_char des m)"

definition wtoupper :: "addr \<Rightarrow> mem \<Rightarrow> (u32 \<times> mem) option" where
  "wtoupper des m = map_option (\<lambda>(d, m'). (d - des, m')) (wconv_loop wupper_char des m)"

partial_function (option) wstrstr_match :: "addr \<Rightarrow> addr \<Rightarrow> mem \<Rightarrow> addr option" where
  "wstrstr_match des tmps m =
     (if load16 m tmps = 0 then Some tmps
      else if load16 m des = load16 m tmps then wstrstr_match (des + 2) (tmps + 2) m
      else Some (tmps + 2))"

partial_function (option) wstrstr_loop :: "addr \<Rightarrow> addr \<Rightarrow> addr \<Rightarrow> mem \<Rightarrow> addr option" where
  "wstrstr_loop des src tmps m =
     (if load16 m des = 0 \<or> load16 m src = 0 then Some NULL
      else if load16 m des = load16 m tmps then
        (let tmpd = tmps in
         Option.bind (wstrstr_match (des + 2) (tmps + 2) m)
           (\<lambda>t. if t = NULL then Some tmpd else Some NULL))
      else wstrstr_loop (des + 2) src (tmps + 2) m)"

definition wstrstr :: "addr \<Rightarrow> addr \<Rightarrow> mem \<Rightarrow> addr option" where
  "wstrstr des src m = wstrstr_loop des src src m"

section \<open>Length and copy\<close>

text \<open>The characters before the terminator, at most \<open>k\<close>.\<close>

primrec wlen :: "nat \<Rightarrow> addr \<Rightarrow> mem \<Rightarrow> nat" where
  "wlen 0 p m = 0"
| "wlen (Suc k) p m = (if load16 m p = 0 then 0 else Suc (wlen k (p + 2) m))"

lemma wlen_le: "wlen k p m \<le> k"
  by (induction k arbitrary: p) simp_all

lemma wlen_nonzero: "i < wlen k p m \<Longrightarrow> load16 m (p + of_nat (2 * i)) \<noteq> 0"
proof (induction k arbitrary: p i)
  case (Suc k)
  then show ?case using Suc.IH [of "i - 1" "p + 2"] by (cases i) (auto simp: add.assoc split: if_splits)
qed simp

lemma wlen_stop: "wlen k p m < k \<Longrightarrow> load16 m (p + of_nat (2 * wlen k p m)) = 0"
proof (induction k arbitrary: p)
  case (Suc k)
  then show ?case using Suc.IH [of "p + 2"] by (auto simp: add.assoc split: if_splits)
qed simp

lemma wstrnlen_loop_eq: "wstrnlen_loop p mx m = p + of_nat (2 * wlen (unat mx) p m)"
proof (induction p mx m rule: wstrnlen_loop.induct)
  case (1 p mx m)
  show ?case
  proof (cases "mx = 0")
    case True
    then show ?thesis by (subst wstrnlen_loop.simps) simp
  next
    case False
    then have u: "unat mx = Suc (unat (mx - 1))" by (simp add: unat_minus_one unat_gt_0)
    show ?thesis using 1 False unfolding u by (subst wstrnlen_loop.simps) (simp add: algebra_simps)
  qed
qed

text \<open>The memory after \<open>k\<close> characters were copied.\<close>

definition wcopied :: "addr \<Rightarrow> addr \<Rightarrow> nat \<Rightarrow> mem \<Rightarrow> mem" where
  "wcopied des src k m = (\<lambda>a. if a - des < of_nat (2 * k) then m (src + (a - des)) else m a)"

lemma store16_bytes: "store16 p (load16 m q) m' = m'(p := m q, p + 1 := m (q + 1))"
proof -
  have "ucast (load16 m q) = m q" by (rule bit_word_eqI) (auto simp: load16_def bit_simps)
  moreover have "ucast (drop_bit 8 (load16 m q)) = m (q + 1)" by (rule bit_word_eqI) (auto simp: load16_def bit_simps dest: bit_imp_le_length)
  ultimately show ?thesis by (simp add: store16_def)
qed

lemma unat_double: "k < 2147483648 \<Longrightarrow> unat (of_nat (2 * k) :: u32) = 2 * k"
  by (rule unat_of_nat32) simp

lemma wcopied_source:
  assumes "2 * k + i < unat (des - src)"
  shows "wcopied des src k m (src + of_nat (2 * k + i)) = m (src + of_nat (2 * k + i))"
proof -
  define D x where "D = des - src" and "x = (of_nat (2 * k + i) :: u32)"
  have D: "unat D < 4294967296" using unsigned_less [of D] by simp
  then have x: "unat x = 2 * k + i" using assms unfolding x_def D_def by (intro unat_of_nat32) linarith
  have "unat (x - D) = unat x + 4294967296 - unat D" using assms x by (simp add: unat_sub_if' D_def [symmetric])
  moreover have "src + x - des = x - D" by (simp add: D_def)
  ultimately have "unat (src + x - des) = 2 * k + i + 4294967296 - unat D" using x by metis
  then have "2 * k \<le> unat (src + x - des)" using D by linarith
  moreover have "unat (of_nat (2 * k) :: u32) = 2 * k" using D assms unfolding D_def by (intro unat_of_nat32) linarith
  ultimately have "\<not> src + x - des < of_nat (2 * k)" by (simp only: word_less_nat_alt)
  then show ?thesis unfolding x_def [symmetric] by (simp add: wcopied_def)
qed

lemma wcopied_load:
  assumes "2 * k + 1 < unat (des - src)"
  shows "load16 (wcopied des src k m) (src + of_nat (2 * k)) = load16 m (src + of_nat (2 * k))"
  using wcopied_source [of k 0 des src m] wcopied_source [of k 1 des src m] assms by (simp add: load16_def ac_simps)

lemma wcopied_Suc:
  assumes "k < 2147483647"
  shows "store16 (des + of_nat (2 * k)) (load16 m (src + of_nat (2 * k))) (wcopied des src k m) = wcopied des src (Suc k) m"
proof (rule ext)
  fix a
  have u: "unat (of_nat (2 * k) :: u32) = 2 * k" "unat (of_nat (2 * Suc k) :: u32) = 2 * Suc k" "unat (of_nat (2 * k + 1) :: u32) = 2 * k + 1"
    using assms by (intro unat_of_nat32; simp)+
  consider "a - des = of_nat (2 * k)" | "a - des = of_nat (2 * k + 1)" | "a - des \<noteq> of_nat (2 * k)" "a - des \<noteq> of_nat (2 * k + 1)" by blast
  then show "store16 (des + of_nat (2 * k)) (load16 m (src + of_nat (2 * k))) (wcopied des src k m) a = wcopied des src (Suc k) m a"
  proof cases
    case 1
    then have "a = des + of_nat (2 * k)" by (simp add: algebra_simps)
    moreover have "a - des < of_nat (2 * Suc k)" unfolding 1 word_less_nat_alt u by simp
    ultimately show ?thesis using 1 by (simp add: store16_bytes wcopied_def del: of_nat_mult)
  next
    case 2
    then have "a = des + of_nat (2 * k) + 1" by (simp add: algebra_simps)
    moreover have "a - des < of_nat (2 * Suc k)" unfolding 2 word_less_nat_alt u by simp
    ultimately show ?thesis using 2 by (simp add: store16_bytes wcopied_def add.assoc del: of_nat_mult)
  next
    case 3
    then have "unat (a - des) \<noteq> 2 * k" "unat (a - des) \<noteq> 2 * k + 1"
      using u by (auto simp: word_unat_eq_iff simp del: of_nat_mult of_nat_add)
    then have "a - des < of_nat (2 * Suc k) \<longleftrightarrow> a - des < of_nat (2 * k)" unfolding word_less_nat_alt u by auto
    moreover have "a \<noteq> des + of_nat (2 * k)" "a \<noteq> des + of_nat (2 * k) + 1" using 3 by (auto simp: algebra_simps)
    ultimately show ?thesis by (simp add: store16_bytes wcopied_def)
  qed
qed

text \<open>wstrncpy to a place behind its source is memcpy of as many bytes as wstrnlen counts: no terminator
  is written.\<close>

theorem wstrncpy_is_memcpy:
  assumes "2 * wlen (unat mx) src m + 1 < unat (des - src)"
  shows "wstrncpy des src mx m = memcpy des src (wstrnlen src mx m) m"
proof -
  define n where "n = wlen (unat mx) src m"
  have n: "2 * n + 1 < unat (des - src)" "n \<le> unat mx" using assms wlen_le by (simp_all add: n_def)
  have D: "unat (des - src) < 4294967296" using unsigned_less [of "des - src"] by simp
  have "wstrncpy_loop (des + of_nat (2 * k)) (src + of_nat (2 * k)) (mx - of_nat k) (wcopied des src k m) =
      (des + of_nat (2 * n), wcopied des src n m)" if "k \<le> n" for k
    using that
  proof (induction k rule: inc_induct)
    case base
    have "load16 (wcopied des src n m) (src + of_nat (2 * n)) = 0 \<or> mx - of_nat n = 0"
    proof (cases "n < unat mx")
      case True
      then show ?thesis using wlen_stop [of "unat mx" src m] wcopied_load [OF n(1)] by (simp add: n_def)
    next
      case False
      then have "mx = of_nat n" using n(2) by simp
      then show ?thesis by simp
    qed
    then show ?case by (subst wstrncpy_loop.simps) auto
  next
    case (step k)
    have l: "load16 (wcopied des src k m) (src + of_nat (2 * k)) = load16 m (src + of_nat (2 * k))"
      by (rule wcopied_load) (use step(2) n(1) in simp)
    have small: "k < 2147483647" using step(2) n D by linarith
    have "unat (of_nat k :: u32) = k" using step(2) n D by (intro unat_of_nat32) linarith
    then have "mx \<noteq> of_nat k" using step(2) n(2) by auto
    moreover have "load16 m (src + of_nat (2 * k)) \<noteq> 0" using wlen_nonzero step(2) by (simp add: n_def)
    ultimately have "wstrncpy_loop (des + of_nat (2 * k)) (src + of_nat (2 * k)) (mx - of_nat k) (wcopied des src k m) =
        wstrncpy_loop (des + of_nat (2 * k) + 2) (src + of_nat (2 * k) + 2) (mx - of_nat k - 1) (wcopied des src (Suc k) m)"
      using l wcopied_Suc [OF small, of des m src] by (subst wstrncpy_loop.simps) (simp del: of_nat_mult)
    then show ?case using step(3) by (simp add: algebra_simps)
  qed
  from this [of 0] have "wstrncpy_loop des src mx m = (des + of_nat (2 * n), wcopied des src n m)" by (simp add: wcopied_def)
  moreover have "memcpy des src (of_nat (2 * n)) m = (of_nat (2 * n), wcopied des src n m)"
    unfolding wcopied_def using n(1) D unat_double [of n] by (intro memcpy_eq) (simp only: word_le_nat_alt, simp)
  moreover have "wstrnlen src mx m = of_nat (2 * n)" by (simp add: wstrnlen_def wstrnlen_loop_eq n_def)
  ultimately show ?thesis by (simp add: wstrncpy_def)
qed

text \<open>\<^verbatim>\<open>wstrlen\<close> counts bytes and includes the terminator.\<close>

theorem wstrlen_counts_bytes:
  assumes "\<forall>i < n. load16 m (p + of_nat (2 * i)) \<noteq> 0" and "load16 m (p + of_nat (2 * n)) = 0"
  shows "wstrlen p m = Some (of_nat (2 * n + 2))"
proof -
  have "wskip_string (p + of_nat (2 * k)) m = Some (p + of_nat (2 * n + 2))" if "k \<le> n" for k
    using that
  proof (induction k rule: inc_induct)
    case base
    show ?case using assms(2) by (subst wskip_string.simps) (simp add: algebra_simps)
  next
    case (step k)
    then show ?case using assms(1) by (subst wskip_string.simps) (simp add: algebra_simps)
  qed
  from this [of 0] show ?thesis by (simp add: wstrlen_def)
qed

section \<open>Example\<close>

definition demo_wide :: mem where
  "demo_wide = (\<lambda>_. 0)(0x100 := 72, 0x102 := 105)"

theorem wstrncpy_is_memcpy_witness:
  "wstrncpy 0x200 0x100 5 demo_wide = memcpy 0x200 0x100 (wstrnlen 0x100 5 demo_wide) demo_wide \<and> wstrnlen 0x100 5 demo_wide = 4"
proof -
  have five: "(5 :: nat) = Suc (Suc (Suc (Suc (Suc 0))))" by simp
  have w: "wlen 5 0x100 demo_wide = 2" unfolding five by (simp add: demo_wide_def load16_def)
  then have "wstrnlen 0x100 5 demo_wide = 4" by (simp add: wstrnlen_def wstrnlen_loop_eq)
  then show ?thesis using wstrncpy_is_memcpy [of 5 "0x100" demo_wide "0x200"] w by simp
qed

end
