(* ===== verification/Descriptors.thy ===== *)
theory Descriptors
  imports Paging
begin

text \<open>
  The segment descriptors and the task state segment (\<^verbatim>\<open>kernel/kmain.c\<close>, \<^verbatim>\<open>include/kernel/kernel.h\<close>):
  \<^verbatim>\<open>mkdescriptor\<close>, \<^verbatim>\<open>seg2phys\<close> and \<^verbatim>\<open>doshift\<close>, which builds the table the kernel runs with. The addresses of the
  task state segment and of the kernel stack are arguments. What the processor makes of a descriptor is
  written out as separate decoding functions, so the theorems say which segments the table gives.
\<close>

section \<open>Data\<close>

record seg_descriptor =
  limit_low :: u16
  base_low :: u16
  base_mid :: u8
  attrib1 :: u8
  limit_high_attr2 :: u8
  base_high :: u8

record tss_struct =
  ts_backlink :: u32
  ts_esp0 :: u32
  ts_ss0 :: u32
  ts_esp1 :: u32
  ts_ss1 :: u32
  ts_esp2 :: u32
  ts_ss2 :: u32
  ts_cr3 :: u32
  ts_eip :: u32
  ts_flags :: u32
  ts_eax :: u32
  ts_ecx :: u32
  ts_edx :: u32
  ts_ebx :: u32
  ts_esp :: u32
  ts_ebp :: u32
  ts_esi :: u32
  ts_edi :: u32
  ts_es :: u32
  ts_cs :: u32
  ts_ss :: u32
  ts_ds :: u32
  ts_fs :: u32
  ts_gs :: u32
  ts_ldt :: u32
  ts_trap :: u32
  ts_iobase :: u32

record descs =
  gdt :: "nat \<Rightarrow> seg_descriptor"
  tss :: tss_struct

definition GDT_SIZE :: nat where [code_defs]: "GDT_SIZE = 8"
definition gdt_limit :: u16 where [code_defs]: "gdt_limit = 8 * of_nat GDT_SIZE - 1"
definition DA_32 :: u16 where [code_defs]: "DA_32 = 0x4000"
definition DA_LIMIT_4K :: u16 where [code_defs]: "DA_LIMIT_4K = 0x8000"
definition DA_DPL3 :: u16 where [code_defs]: "DA_DPL3 = 0x60"
definition DA_DRW :: u16 where [code_defs]: "DA_DRW = 0x92"
definition DA_CR :: u16 where [code_defs]: "DA_CR = 0x9A"
definition DA_386TSS :: u16 where [code_defs]: "DA_386TSS = 0x89"
definition SELECTOR_FLAT_RW :: u16 where [code_defs]: "SELECTOR_FLAT_RW = 0x10"
definition SELECTOR_FLAT_STACK :: u16 where [code_defs]: "SELECTOR_FLAT_STACK = 0x18"
definition SELECTOR_TSS :: u16 where [code_defs]: "SELECTOR_TSS = 0x38"
definition SELECTOR_KERNEL_DS :: u16 where [code_defs]: "SELECTOR_KERNEL_DS = SELECTOR_FLAT_RW"
definition SELECTOR_KERNEL_SS :: u16 where [code_defs]: "SELECTOR_KERNEL_SS = SELECTOR_FLAT_STACK"

section \<open>Operations\<close>

definition mkdescriptor :: "u32 \<Rightarrow> u32 \<Rightarrow> u16 \<Rightarrow> seg_descriptor" where
  "mkdescriptor base limit attribute =
     \<lparr>limit_low = ucast (limit AND 0x0FFFF), base_low = ucast (base AND 0x0FFFF),
      base_mid = ucast (drop_bit 16 base AND 0x0FF), attrib1 = ucast (attribute AND 0xFF),
      limit_high_attr2 = ucast ((drop_bit 16 limit AND 0x0F) OR (drop_bit 8 (ucast attribute) AND 0xF0)),
      base_high = ucast (drop_bit 24 base AND 0x0FF)\<rparr>"

definition vir2phys :: "u32 \<Rightarrow> u32 \<Rightarrow> u32" where
  "vir2phys seg_base vir = seg_base + vir"

text \<open>The code trusts the selector; an index behind the table is \<^const>\<open>None\<close> here.\<close>

definition seg2phys :: "u16 \<Rightarrow> descs \<Rightarrow> u32 option" where
  "seg2phys seg s =
     (if unat (drop_bit 3 seg) < GDT_SIZE
      then let d = gdt s (unat (drop_bit 3 seg))
           in Some (push_bit 24 (ucast (base_high d)) OR push_bit 16 (ucast (base_mid d)) OR ucast (base_low d))
      else None)"

definition set_desc :: "nat \<Rightarrow> seg_descriptor \<Rightarrow> descs \<Rightarrow> descs" where
  "set_desc i d s = s\<lparr>gdt := (gdt s)(i := d)\<rparr>"

definition zero_tss :: tss_struct where
  "zero_tss =
     \<lparr>ts_backlink = 0, ts_esp0 = 0, ts_ss0 = 0, ts_esp1 = 0, ts_ss1 = 0, ts_esp2 = 0, ts_ss2 = 0, ts_cr3 = 0, ts_eip = 0,
      ts_flags = 0, ts_eax = 0, ts_ecx = 0, ts_edx = 0, ts_ebx = 0, ts_esp = 0, ts_ebp = 0, ts_esi = 0, ts_edi = 0,
      ts_es = 0, ts_cs = 0, ts_ss = 0, ts_ds = 0, ts_fs = 0, ts_gs = 0, ts_ldt = 0, ts_trap = 0, ts_iobase = 0\<rparr>"

text \<open>The structure has 27 words.\<close>

definition tss_size :: u32 where [code_defs]: "tss_size = 108"

definition doshift :: "addr \<Rightarrow> addr \<Rightarrow> descs \<Rightarrow> descs option" where
  "doshift kstacktop tss_addr s =
     (let s = s\<lparr>tss := zero_tss\<lparr>ts_ss0 := ucast SELECTOR_KERNEL_SS, ts_esp0 := kstacktop, ts_cr3 := KERNEL_CR3,
                ts_iobase := tss_size\<rparr>\<rparr>;
          s = set_desc 0 (mkdescriptor 0 0 0) s;
          s = set_desc 1 (mkdescriptor 0 0x000FFFFF (DA_CR OR DA_32 OR DA_LIMIT_4K)) s;
          s = set_desc 2 (mkdescriptor 0 0x000FFFFF (DA_DRW OR DA_32 OR DA_LIMIT_4K)) s;
          s = set_desc 3 (mkdescriptor 0 0x000FFFFF (DA_DRW OR DA_32 OR DA_LIMIT_4K)) s;
          s = set_desc 4 (mkdescriptor 0 0x000FFFFF (DA_CR OR DA_32 OR DA_LIMIT_4K OR DA_DPL3)) s;
          s = set_desc 5 (mkdescriptor 0 0x000FFFFF (DA_DRW OR DA_32 OR DA_LIMIT_4K OR DA_DPL3)) s;
          s = set_desc 6 (mkdescriptor 0 0x000FFFFF (DA_DRW OR DA_32 OR DA_LIMIT_4K OR DA_DPL3)) s
      in case seg2phys SELECTOR_KERNEL_DS s of
           None \<Rightarrow> None
         | Some b \<Rightarrow> Some (set_desc 7 (mkdescriptor (vir2phys b tss_addr) tss_size DA_386TSS) s))"

section \<open>What the processor reads\<close>

definition desc_base :: "seg_descriptor \<Rightarrow> u32" where
  "desc_base d = push_bit 24 (ucast (base_high d)) OR push_bit 16 (ucast (base_mid d)) OR ucast (base_low d)"

definition desc_granular :: "seg_descriptor \<Rightarrow> bool" where
  "desc_granular d \<longleftrightarrow> bit (limit_high_attr2 d) 7"

definition desc_raw_limit :: "seg_descriptor \<Rightarrow> u32" where
  "desc_raw_limit d = push_bit 16 (ucast (limit_high_attr2 d AND 0x0F)) OR ucast (limit_low d)"

definition desc_limit :: "seg_descriptor \<Rightarrow> u32" where
  "desc_limit d = (if desc_granular d then push_bit 12 (desc_raw_limit d) OR 0xFFF else desc_raw_limit d)"

definition desc_dpl :: "seg_descriptor \<Rightarrow> u8" where
  "desc_dpl d = drop_bit 5 (attrib1 d) AND 3"

definition desc_present :: "seg_descriptor \<Rightarrow> bool" where
  "desc_present d \<longleftrightarrow> bit (attrib1 d) 7"

definition desc_type :: "seg_descriptor \<Rightarrow> u8" where
  "desc_type d = attrib1 d AND 0x1F"

text \<open>A 32-bit segment that covers the whole address space.\<close>

definition flat :: "u8 \<Rightarrow> u8 \<Rightarrow> seg_descriptor \<Rightarrow> bool" where
  "flat ty dpl d \<longleftrightarrow> desc_present d \<and> desc_base d = 0 \<and> desc_limit d = 0xFFFFFFFF \<and> desc_type d = ty \<and> desc_dpl d = dpl \<and>
     bit (limit_high_attr2 d) 6"

section \<open>Properties\<close>

lemma masks: "(0x0F :: u32) = mask 4" "(0x0FF :: u32) = mask 8" "(0x0FFFF :: u32) = mask 16" "(0x0F :: u8) = mask 4"
  "(0xFF :: u16) = mask 8" "(0xF0 :: u32) = push_bit 4 (mask 4)" "(0xFFFFF :: u32) = mask 20"
  by (simp_all add: mask_eq_exp_minus_1)

lemma mkdescriptor_base: "desc_base (mkdescriptor base limit attribute) = base"
  unfolding desc_base_def mkdescriptor_def masks
proof (rule bit_word_eqI, goal_cases)
  case (1 n)
  then consider "n < 16" | "16 \<le> n" "n < 24" | "24 \<le> n" "n < 32" by fastforce
  then show ?case by cases (auto simp: bit_simps)
qed

lemma mkdescriptor_limit: "desc_raw_limit (mkdescriptor base limit attribute) = limit AND 0xFFFFF"
  unfolding desc_raw_limit_def mkdescriptor_def masks
  by (rule bit_word_eqI) (auto simp: bit_simps)

lemma mkdescriptor_attr: "attrib1 (mkdescriptor base limit attribute) = ucast attribute"
  unfolding mkdescriptor_def masks
  by (simp, rule bit_word_eqI) (auto simp: bit_simps)

lemma mkdescriptor_flags: "j < 4 \<Longrightarrow> bit (limit_high_attr2 (mkdescriptor base limit attribute)) (4 + j) \<longleftrightarrow> bit attribute (12 + j)"
  unfolding mkdescriptor_def masks
  by (simp) (auto simp: bit_simps add.commute)

lemma seg2phys_mkdescriptor:
  assumes "i < GDT_SIZE" and "k < 8"
  shows "seg2phys (of_nat (8 * i + k)) (set_desc i (mkdescriptor base limit attribute) s) = Some base"
proof -
  have "unat (of_nat (8 * i + k) :: u16) = 8 * i + k"
    using assms by (simp add: GDT_SIZE_def unat_of_nat del: of_nat_add of_nat_mult)
  then have "unat (drop_bit 3 (of_nat (8 * i + k) :: u16)) = drop_bit 3 (8 * i + k)"
    by (simp only: unat_drop_bit_eq)
  also have "\<dots> = i" using assms(2) by (simp add: drop_bit_eq_div)
  finally show ?thesis using mkdescriptor_base [of base limit attribute] assms
    by (simp add: seg2phys_def set_desc_def desc_base_def Let_def)
qed

text \<open>The processor decodes from mkdescriptor's bytes the base, the low 20 bits of the limit and the
  attributes given, and seg2phys of a selector of that slot returns the base.\<close>

theorem descriptor_decodes:
  "desc_base (mkdescriptor base limit attribute) = base \<and> desc_raw_limit (mkdescriptor base limit attribute) = limit AND 0xFFFFF \<and>
   attrib1 (mkdescriptor base limit attribute) = ucast attribute \<and>
   (\<forall>j < 4. bit (limit_high_attr2 (mkdescriptor base limit attribute)) (4 + j) \<longleftrightarrow> bit attribute (12 + j)) \<and>
   (\<forall>i < GDT_SIZE. \<forall>k < 8. seg2phys (of_nat (8 * i + k)) (set_desc i (mkdescriptor base limit attribute) s) = Some base)"
  using mkdescriptor_base mkdescriptor_limit mkdescriptor_attr mkdescriptor_flags seg2phys_mkdescriptor by simp

text \<open>The bytes of the task state segment at which the processor looks for the I/O permission map: the second half of
  word 25. A map that starts behind the segment's limit permits no port.\<close>

definition iomap_offset :: "tss_struct \<Rightarrow> u16" where
  "iomap_offset t = ucast (drop_bit 16 (ts_trap t))"

lemma doshift_tables:
  "\<exists>s'. doshift kstacktop tss_addr s = Some s' \<and> gdt s' 1 = mkdescriptor 0 0xFFFFF 0xC09A \<and> gdt s' 2 = mkdescriptor 0 0xFFFFF 0xC092 \<and>
    gdt s' 3 = mkdescriptor 0 0xFFFFF 0xC092 \<and> gdt s' 4 = mkdescriptor 0 0xFFFFF 0xC0FA \<and> gdt s' 5 = mkdescriptor 0 0xFFFFF 0xC0F2 \<and>
    gdt s' 6 = mkdescriptor 0 0xFFFFF 0xC0F2 \<and> gdt s' 7 = mkdescriptor tss_addr 108 0x89 \<and>
    tss s' = zero_tss\<lparr>ts_ss0 := 0x18, ts_esp0 := kstacktop, ts_cr3 := 0x100, ts_iobase := 108\<rparr>"
  by (simp add: doshift_def Let_def seg2phys_def set_desc_def vir2phys_def mkdescriptor_def code_defs)

lemma flat_segments:
  "flat 0x1A 0 (mkdescriptor 0 0xFFFFF 0xC09A)" "flat 0x12 0 (mkdescriptor 0 0xFFFFF 0xC092)"
  "flat 0x1A 3 (mkdescriptor 0 0xFFFFF 0xC0FA)" "flat 0x12 3 (mkdescriptor 0 0xFFFFF 0xC0F2)"
  by (simp_all add: flat_def desc_present_def desc_base_def desc_limit_def desc_granular_def desc_raw_limit_def desc_type_def
      desc_dpl_def mkdescriptor_def)

text \<open>The six segments doshift builds are flat with their types and privileges, the task state segment is
  the last; the offset at which the processor looks for the I/O map lies inside the segment.\<close>

theorem doshift_segments:
  "\<exists>s'. doshift kstacktop tss_addr s = Some s' \<and> flat 0x1A 0 (gdt s' 1) \<and> flat 0x12 0 (gdt s' 2) \<and> flat 0x12 0 (gdt s' 3) \<and>
    flat 0x1A 3 (gdt s' 4) \<and> flat 0x12 3 (gdt s' 5) \<and> flat 0x12 3 (gdt s' 6) \<and>
    desc_base (gdt s' 7) = tss_addr \<and> desc_type (gdt s' 7) = 0x09 \<and> desc_present (gdt s' 7) \<and>
    ts_esp0 (tss s') = kstacktop \<and> ts_ss0 (tss s') = 0x18 \<and> ucast (iomap_offset (tss s')) < desc_limit (gdt s' 7)"
proof -
  have "ucast (0 :: u16) < desc_limit (mkdescriptor tss_addr 108 0x89)" "desc_type (mkdescriptor tss_addr 108 0x89) = 0x09"
    "desc_present (mkdescriptor tss_addr 108 0x89)"
    by (simp_all add: desc_limit_def desc_granular_def mkdescriptor_limit desc_type_def desc_present_def)
      (simp_all add: mkdescriptor_def)
  then show ?thesis
    using doshift_tables [of kstacktop tss_addr s] flat_segments mkdescriptor_base
    by (auto simp: iomap_offset_def zero_tss_def)
qed

theorem descriptor_decodes_witness:
  "seg2phys 0x10 (set_desc 2 (mkdescriptor 0x12345678 0xFFFFF 0xC092) \<lparr>gdt = (\<lambda>_. mkdescriptor 0 0 0), tss = zero_tss\<rparr>) =
     Some 0x12345678"
proof -
  let ?s = "\<lparr>gdt = (\<lambda>_. mkdescriptor 0 0 0), tss = zero_tss\<rparr>"
  have "\<forall>i < GDT_SIZE. \<forall>k < 8. seg2phys (of_nat (8 * i + k)) (set_desc i (mkdescriptor 0x12345678 0xFFFFF 0xC092) ?s) = Some 0x12345678"
    using descriptor_decodes by blast
  from this [rule_format, of 2 0] show ?thesis by (simp add: GDT_SIZE_def)
qed

end
