(* ===== verification/Schedu.thy ===== *)
theory Schedu
  imports Descriptors Interrupt Vfs
begin

text \<open>
  The scheduler's start (\<^verbatim>\<open>kernel/schedu.c\<close>, \<^verbatim>\<open>include/kernel/schedu.h\<close>): the kernel task and the first user task,
  the save and restore of a thread's registers around an interrupt, and the register image of a new
  user thread. \<^verbatim>\<open>kschedu\<close> is empty in the code. The addresses of the four static structures are an argument.
  \<^verbatim>\<open>pcb\<close> extends the file table part of \<^verbatim>\<open>struct task_struct\<close>, which the object tree uses, by its other fields;
  the two fields \<^verbatim>\<open>t_pid\<close> of the code are \<^verbatim>\<open>t_pid\<close> (of a task) and \<^verbatim>\<open>th_pid\<close> (of a thread).
\<close>

section \<open>Data\<close>

definition K_MAX_THREAD_CNT_PPS :: nat where [code_defs]: "K_MAX_THREAD_CNT_PPS = 64"

record kthread_struct =
  th_regs :: stack_regs_struct
  th_status :: u16
  th_id :: u32
  th_pid :: u32
  th_tckremain :: u32
  th_tckused :: u64
  th_ptsk :: addr

record pcb = task_struct +
  t_cr3 :: u32
  t_thrd :: "nat \<Rightarrow> addr"
  t_threadcnt :: u32
  t_name :: "u8 list"
  t_pmsgq :: addr
  t_msglck :: spin_lock
  t_ppid :: u32
  t_pid :: u32
  t_level :: cint
  t_pparent :: addr

record symbols =
  core_at :: addr
  init_at :: addr
  pcore_at :: addr
  pinit_at :: addr

record sched =
  kst :: kstate
  slinks :: links
  Core :: pcb
  Init :: pcb
  Pcore :: kthread_struct
  Pinit :: kthread_struct
  tsk_running :: addr
  thr_running :: addr

text \<open>The list node stands behind the page directory, the 64 thread pointers and the count.\<close>

definition t_lst_of :: "addr \<Rightarrow> addr" where
  "t_lst_of task = task + 264"

section \<open>Operations\<close>

text \<open>\<^verbatim>\<open>strcpy\<close> of this library writes no terminator: the bytes behind the name stay.\<close>

definition copy_name :: "u8 list \<Rightarrow> u8 list \<Rightarrow> u8 list" where
  "copy_name src des = src @ drop (length src) des"

definition clear_first :: "nat \<Rightarrow> (nat \<Rightarrow> addr) \<Rightarrow> nat \<Rightarrow> addr" where
  "clear_first n f = (\<lambda>i. if i < n then 0 else f i)"

definition kscheduinit :: "symbols \<Rightarrow> sched \<Rightarrow> sched" where
  "kscheduinit sy s =
     (let s = s\<lparr>Core := (Core s)\<lparr>t_cr3 := push_bit 12 KERNEL_CR3\<rparr>\<rparr>;
          s = s\<lparr>Pcore := (Pcore s)\<lparr>th_ptsk := core_at sy\<rparr>\<rparr>;
          s = s\<lparr>Core := (Core s)\<lparr>t_thrd := (t_thrd (Core s))(0 := pcore_at sy)\<rparr>\<rparr>;
          s = s\<lparr>tsk_running := core_at sy, thr_running := pcore_at sy\<rparr>;
          s = s\<lparr>Init := (Init s)\<lparr>t_thrd := clear_first K_MAX_THREAD_CNT_PPS (t_thrd (Init s))\<rparr>\<rparr>;
          (p, k) = allocpage (kst s);
          s = s\<lparr>kst := k, Init := (Init s)\<lparr>t_cr3 := push_bit 12 p\<rparr>\<rparr>;
          s = s\<lparr>Init := (Init s)\<lparr>t_thrd := (t_thrd (Init s))(0 := pinit_at sy), t_threadcnt := 1\<rparr>\<rparr>;
          s = s\<lparr>slinks := list_ini (t_lst_of (init_at sy)) (slinks s)\<rparr>;
          s = s\<lparr>Init := (Init s)\<lparr>t_name := copy_name [0x2F, 0x49, 0x6E, 0x69, 0x74] (t_name (Init s)), t_pmsgq := NULL,
                t_msglck := spinlock_init (t_msglck (Init s)), t_ppid := 0, t_pid := 0, t_level := 0, t_pparent := NULL,
                t_flck := spinlock_init (t_flck (Init s)), t_fcnt := 0,
                t_file := clear_first K_MAX_FILE_OPEN_PPS (t_file (Init s))\<rparr>\<rparr>
      in s\<lparr>Pinit := (Pinit s)\<lparr>th_pid := 0, th_id := 0, th_ptsk := init_at sy\<rparr>\<rparr>)"

text \<open>
  A thread structure starts with 4096 bytes of kernel stack; the registers follow. Both copies are of
  68 bytes between the stack of the interrupted code and that place.
\<close>

definition th_regs_of :: "addr \<Rightarrow> addr" where
  "th_regs_of thread = thread + 0x1000"

definition save_stack_fram :: "addr \<Rightarrow> addr \<Rightarrow> mem \<Rightarrow> mem" where
  "save_stack_fram thread esp m = snd (memcpy (th_regs_of thread) esp 68 m)"

definition restor_stack_fram :: "addr \<Rightarrow> addr \<Rightarrow> mem \<Rightarrow> mem" where
  "restor_stack_fram thread esp m = snd (memcpy esp (th_regs_of thread) 68 m)"

definition SELECTOR_GDT_CODE_USER :: u16 where [code_defs]: "SELECTOR_GDT_CODE_USER = 0x23"
definition SELECTOR_GDT_DATE_USER :: u16 where [code_defs]: "SELECTOR_GDT_DATE_USER = 0x2B"
definition SELECTOR_GDT_STACK_USER :: u16 where [code_defs]: "SELECTOR_GDT_STACK_USER = 0x33"
definition SELECTOR_CS_USER :: u16 where [code_defs]: "SELECTOR_CS_USER = SELECTOR_GDT_CODE_USER"
definition SELECTOR_DS_USER :: u16 where [code_defs]: "SELECTOR_DS_USER = SELECTOR_GDT_DATE_USER"
definition SELECTOR_GS_USER :: u16 where [code_defs]: "SELECTOR_GS_USER = SELECTOR_GDT_DATE_USER"
definition SELECTOR_SS_USER :: u16 where [code_defs]: "SELECTOR_SS_USER = SELECTOR_GDT_STACK_USER"
definition SELECTOR_ES_USER :: u16 where [code_defs]: "SELECTOR_ES_USER = SELECTOR_GDT_DATE_USER"
definition SELECTOR_FS_USER :: u16 where [code_defs]: "SELECTOR_FS_USER = SELECTOR_GDT_DATE_USER"

definition file_threadregister :: "stack_regs_struct \<Rightarrow> u32 \<Rightarrow> u32 \<Rightarrow> cint \<Rightarrow> addr \<Rightarrow> stack_regs_struct" where
  "file_threadregister r esp eip argc argv =
     r\<lparr>r_gs := ucast SELECTOR_GS_USER, r_fs := ucast SELECTOR_FS_USER, r_es := ucast SELECTOR_ES_USER,
       r_ds := ucast SELECTOR_DS_USER, r_edi := 0, r_esi := 0, r_ebp := esp, r_kernel_esp := 0, r_ebx := 0, r_edx := 0,
       r_ecx := argc, r_eax := argv, r_eip := eip, r_cs := ucast SELECTOR_CS_USER, r_eflags := 0x202, r_esp := esp,
       r_ss := ucast SELECTOR_SS_USER\<rparr>"

section \<open>Properties\<close>

text \<open>C35: Restoring a thread's frame gives back the 68 bytes that were saved, provided the saved area was
  not changed in between and neither copy overlaps its source from behind.\<close>

theorem context_roundtrip:
  assumes "68 \<le> th_regs_of thread - esp" and "68 \<le> esp' - th_regs_of thread"
    and "\<forall>i < 68. m' (th_regs_of thread + i) = save_stack_fram thread esp m (th_regs_of thread + i)" and "i < 68"
  shows "restor_stack_fram thread esp' m' (esp' + i) = m (esp + i)"
proof -
  have "save_stack_fram thread esp m (th_regs_of thread + i) = m (esp + i)"
    using memcpy_eq [of esp "th_regs_of thread" 68 m] assms(1,4) by (simp add: save_stack_fram_def)
  moreover have "restor_stack_fram thread esp' m' (esp' + i) = m' (th_regs_of thread + i)"
    using memcpy_eq [of "th_regs_of thread" esp' 68 m'] assms(2,4) by (simp add: restor_stack_fram_def)
  ultimately show ?thesis using assms(3,4) by simp
qed

text \<open>A selector names a user segment of the table: requested and descriptor privilege are 3 and the segment is flat.\<close>

definition user_segment :: "u8 \<Rightarrow> u32 \<Rightarrow> descs \<Rightarrow> bool" where
  "user_segment ty sel g \<longleftrightarrow> sel AND 7 = 3 \<and> flat ty 3 (gdt g (unat (drop_bit 3 sel)))"

text \<open>C36: With the tables doshift builds, the selectors file_threadregister sets name flat user segments
  of privilege 3, interrupts are on and I/O privilege is 0, and eip and esp are the ones given.\<close>

theorem user_thread_registers:
  assumes "doshift kstacktop tss_addr g = Some g'" and "file_threadregister r esp eip argc argv = r'"
  shows "user_segment 0x1A (r_cs r') g' \<and> (\<forall>f \<in> {r_ds, r_es, r_fs, r_gs, r_ss}. user_segment 0x12 (f r') g') \<and>
    r_eip r' = eip \<and> r_esp r' = esp \<and> bit (r_eflags r') 9 \<and> drop_bit 12 (r_eflags r') AND 3 = 0"
  using assms doshift_tables [of kstacktop tss_addr g] flat_segments
  by (auto simp: file_threadregister_def user_segment_def code_defs)

text \<open>kscheduinit makes the core task the running one and builds the initial task with a page directory of
  its own, or with directory 0 when no frame was left.\<close>

theorem kscheduinit_tasks:
  "let s' = kscheduinit sy s; p = fst (allocpage (kst s))
   in tsk_running s' = core_at sy \<and> thr_running s' = pcore_at sy \<and> t_cr3 (Core s') = 0x100000 \<and>
      t_cr3 (Init s') AND 0xFFF = 0 \<and> (p = 0 \<longleftrightarrow> t_cr3 (Init s') = 0) \<and> kst s' = snd (allocpage (kst s)) \<and>
      th_ptsk (Pinit s') = init_at sy \<and> (\<forall>i < 64. t_thrd (Init s') i = (if i = 0 then pinit_at sy else 0)) \<and>
      ring (slinks s') (t_lst_of (init_at sy)) [] \<and> t_flck (Init s') = unlocked \<and> t_fcnt (Init s') = 0 \<and>
      (\<forall>i < 256. t_file (Init s') i = 0)"
proof -
  obtain p k where p: "allocpage (kst s) = (p, k)" by (cases "allocpage (kst s)")
  have "p < 131072" using p by (rule allocpage_cases) auto
  then have "unat (push_bit 12 p) = 4096 * unat p" by (simp add: push_bit_eq_mult unat_word_ariths word_less_nat_alt)
  then have "push_bit 12 p = 0 \<longleftrightarrow> p = 0" by (simp add: word_unat_eq_iff)
  moreover have "push_bit 12 p AND 0xFFF = 0"
    unfolding page_mask by (rule bit_word_eqI) (auto simp: bit_simps)
  ultimately show ?thesis using p ring_ini
    by (auto simp: kscheduinit_def Let_def clear_first_def spinlock_init_def unlocked_def code_defs)
qed

text \<open>Every selector the kernel uses names a descriptor within the limit of the table.\<close>

theorem selectors_within_limit:
  "list_all (\<lambda>sel. unat (drop_bit 3 sel) * 8 + 7 \<le> unat gdt_limit)
     [SELECTOR_KERNEL_CS, SELECTOR_KERNEL_DS, SELECTOR_KERNEL_SS, SELECTOR_TSS, SELECTOR_CS_USER, SELECTOR_DS_USER, SELECTOR_ES_USER,
      SELECTOR_FS_USER, SELECTOR_GS_USER, SELECTOR_SS_USER]"
  by (simp add: code_defs)

section \<open>Examples\<close>

definition demo_pcb :: pcb where
  "demo_pcb = \<lparr>t_fcnt = 0, t_flck = unlocked, t_file = (\<lambda>_. 0), t_cr3 = 0, t_thrd = (\<lambda>_. 7), t_threadcnt = 0, t_name = replicate 32 0,
     t_pmsgq = 0, t_msglck = unlocked, t_ppid = 0, t_pid = 0, t_level = 0, t_pparent = 0\<rparr>"

definition demo_regs :: stack_regs_struct where
  "demo_regs = \<lparr>r_gs = 0, r_fs = 0, r_es = 0, r_ds = 0, r_edi = 0, r_esi = 0, r_ebp = 0, r_kernel_esp = 0, r_ebx = 0, r_edx = 0,
     r_ecx = 0, r_eax = 0, r_eip = 0, r_cs = 0, r_eflags = 0, r_esp = 0, r_ss = 0\<rparr>"

definition demo_thread :: kthread_struct where
  "demo_thread = \<lparr>th_regs = demo_regs, th_status = 0, th_id = 0, th_pid = 0, th_tckremain = 0, th_tckused = 0, th_ptsk = 0\<rparr>"

definition demo_sched :: sched where
  "demo_sched = \<lparr>kst = boot_map, slinks = (\<lambda>p. \<lparr>nxt = p, pre = p\<rparr>), Core = demo_pcb, Init = demo_pcb, Pcore = demo_thread, Pinit = demo_thread,
     tsk_running = 0, thr_running = 0\<rparr>"

definition demo_symbols :: symbols where
  "demo_symbols = \<lparr>core_at = 0x1000, init_at = 0x2000, pcore_at = 0x3000, pinit_at = 0x5000\<rparr>"

theorem context_roundtrip_witness:
  "restor_stack_fram 0x3000 0x9000 (save_stack_fram 0x3000 0x8000 (\<lambda>a. ucast a)) (0x9000 + 5) = 5"
  using context_roundtrip [of "0x3000" "0x8000" "0x9000" "save_stack_fram 0x3000 0x8000 (\<lambda>a. ucast a)" "\<lambda>a. ucast a" 5]
  by (simp add: th_regs_of_def)

theorem user_thread_registers_witness:
  "\<exists>g'. doshift 0x7000 0x6000 \<lparr>gdt = (\<lambda>_. mkdescriptor 0 0 0), tss = zero_tss\<rparr> = Some g' \<and>
    user_segment 0x1A (r_cs (file_threadregister demo_regs 0x9000 0x400000 0 0)) g'"
proof -
  obtain g' where g: "doshift 0x7000 0x6000 \<lparr>gdt = (\<lambda>_. mkdescriptor 0 0 0), tss = zero_tss\<rparr> = Some g'"
    using doshift_tables by blast
  show ?thesis using g user_thread_registers [OF g refl] by blast
qed

theorem kscheduinit_tasks_witness:
  "tsk_running (kscheduinit demo_symbols demo_sched) = 0x1000 \<and> t_thrd (Init (kscheduinit demo_symbols demo_sched)) 0 = 0x5000 \<and>
   t_thrd (Init (kscheduinit demo_symbols demo_sched)) 5 = 0"
proof -
  let ?s = "kscheduinit demo_symbols demo_sched"
  have "tsk_running ?s = core_at demo_symbols" "\<forall>i < 64. t_thrd (Init ?s) i = (if i = 0 then pinit_at demo_symbols else 0)"
    using kscheduinit_tasks [of demo_symbols demo_sched] unfolding Let_def by blast+
  then show ?thesis by (simp add: demo_symbols_def)
qed

end
