(* ===== verification/Keyboard.thy ===== *)
theory Keyboard
  imports Interrupt UserCopy Registry
begin

text \<open>
  The keyboard driver (\<^verbatim>\<open>drivers/keyboard.c\<close>, \<^verbatim>\<open>include/drivers/keyboard.h\<close>): the interrupt handler is an automaton
  over scan codes whose state is which modifier keys are held, and the read functions wait for a code. The
  bytes that the controller delivers by interrupts while a reader waits are the argument \<^verbatim>\<open>codes\<close>; when there
  are none the reader waits for ever, which is \<^const>\<open>None\<close>.
\<close>

section \<open>The controller\<close>

definition I8042OUTPUTBUF :: u16 where [code_defs]: "I8042OUTPUTBUF = 0x60"
definition I8042INPUTBYF :: u16 where [code_defs]: "I8042INPUTBYF = 0x60"
definition I8042CTLREG :: u16 where [code_defs]: "I8042CTLREG = 0x64"
definition I8042CMDMOURSE :: u8 where [code_defs]: "I8042CMDMOURSE = 0xD4"
definition KEYBOARD_HWINT1 :: u8 where [code_defs]: "KEYBOARD_HWINT1 = INT_VECTOR_IRQ0 + 1"

definition i8042setled :: "hardware \<Rightarrow> u8 \<Rightarrow> 's ports_scheme \<Rightarrow> 's ports_scheme" where
  "i8042setled hw led s = outb hw I8042OUTPUTBUF (led AND 0x07) (outb hw I8042OUTPUTBUF 0xDE s)"

definition init8042 :: "hardware \<Rightarrow> 's ports_scheme \<Rightarrow> 's ports_scheme" where
  "init8042 hw = i8042setled hw 0x07"

definition i8042readscancode :: "'s ports_scheme \<Rightarrow> u8" where
  "i8042readscancode s = inb I8042INPUTBYF s"

definition i8042cmdmourse :: "hardware \<Rightarrow> 's ports_scheme \<Rightarrow> 's ports_scheme" where
  "i8042cmdmourse hw = outb hw I8042CTLREG I8042CMDMOURSE"

definition i8042setresolution1x1 :: "hardware \<Rightarrow> 's ports_scheme \<Rightarrow> 's ports_scheme" where
  "i8042setresolution1x1 hw s = outb hw I8042OUTPUTBUF 0xE6 (i8042cmdmourse hw s)"

definition i8042setresolution2x1 :: "hardware \<Rightarrow> 's ports_scheme \<Rightarrow> 's ports_scheme" where
  "i8042setresolution2x1 hw s = outb hw I8042OUTPUTBUF 0xE7 (i8042cmdmourse hw s)"

definition i8042setresolution :: "hardware \<Rightarrow> u8 \<Rightarrow> 's ports_scheme \<Rightarrow> 's ports_scheme" where
  "i8042setresolution hw rs s = outb hw I8042OUTPUTBUF rs (outb hw I8042OUTPUTBUF 0xE8 (i8042cmdmourse hw s))"

text \<open>The three bytes are what the controller delivers to the three reads.\<close>

definition i8042getmourseinfo :: "hardware \<Rightarrow> u8 \<Rightarrow> u8 \<Rightarrow> u8 \<Rightarrow> 's ports_scheme \<Rightarrow> u32 \<times> 's ports_scheme" where
  "i8042getmourseinfo hw b1 b2 b3 s =
     (let s = outb hw I8042OUTPUTBUF 0xE9 (i8042cmdmourse hw s);
          info = 0 OR ucast b1;
          info = push_bit 8 info;
          info = info OR ucast b2;
          info = push_bit 8 info
      in (info OR ucast b3, s))"

definition i8042detect :: "hardware \<Rightarrow> 's ports_scheme \<Rightarrow> u8 \<times> 's ports_scheme" where
  "i8042detect hw s = (let s = outb hw I8042OUTPUTBUF 0xEE s in (inb I8042INPUTBYF s, s))"

definition i8042keyboardenable :: "hardware \<Rightarrow> 's ports_scheme \<Rightarrow> 's ports_scheme" where
  "i8042keyboardenable hw = outb hw I8042OUTPUTBUF 0xF4"

definition i8042mourseenable :: "hardware \<Rightarrow> 's ports_scheme \<Rightarrow> 's ports_scheme" where
  "i8042mourseenable hw s = outb hw I8042OUTPUTBUF 0xF4 (i8042cmdmourse hw s)"

section \<open>The scan code automaton\<close>

record keystatus_struct =
  caps_lck :: u8
  shift_down :: u8
  shift_l_down :: u8
  shift_r_down :: u8
  ctl_down :: u8
  ctl_l_down :: u8
  ctl_r_down :: u8
  alt_down :: u8
  alt_l_down :: u8
  alt_r_down :: u8
  scancode :: u32
  newinput :: u32

record kbd = intr +
  keystatus :: keystatus_struct
  devreg :: registry

definition MAKE_CODE_CAPS_LCK :: u8 where [code_defs]: "MAKE_CODE_CAPS_LCK = 0x3A"
definition MAKE_CODE_L_SHIFT :: u8 where [code_defs]: "MAKE_CODE_L_SHIFT = 0x2A"
definition MAKE_CODE_R_SHIFT :: u8 where [code_defs]: "MAKE_CODE_R_SHIFT = 0x36"
definition MAKE_CODE_L_CTL :: u8 where [code_defs]: "MAKE_CODE_L_CTL = 0x1D"
definition MAKE_CODE_R_CTL :: u8 where [code_defs]: "MAKE_CODE_R_CTL = 0x8D"
definition MAKE_CODE_L_ALT :: u8 where [code_defs]: "MAKE_CODE_L_ALT = 0x38"
definition MAKE_CODE_R_ALT :: u8 where [code_defs]: "MAKE_CODE_R_ALT = 0xE0"
definition BREAK_CODE_L_SHIFT :: u8 where [code_defs]: "BREAK_CODE_L_SHIFT = 0xAA"
definition BREAK_CODE_R_SHIFT :: u8 where [code_defs]: "BREAK_CODE_R_SHIFT = 0xB6"
definition BREAK_CODE_L_CTL :: u8 where [code_defs]: "BREAK_CODE_L_CTL = 0x9D"
definition BREAK_CODE_L_ALT :: u8 where [code_defs]: "BREAK_CODE_L_ALT = 0xB8"

definition flag :: "u8 \<Rightarrow> nat \<Rightarrow> u32" where
  "flag v n = push_bit n (ucast v AND 1)"

definition makescancode :: "keystatus_struct \<Rightarrow> u8 \<Rightarrow> keystatus_struct" where
  "makescancode ps ch = ps\<lparr>scancode :=
       flag (caps_lck ps) 31 OR flag (shift_down ps) 30 OR flag (shift_l_down ps) 29 OR flag (shift_r_down ps) 28 OR
       flag (ctl_down ps) 27 OR flag (ctl_l_down ps) 26 OR flag (ctl_r_down ps) 25 OR flag (alt_down ps) 24 OR
       flag (alt_l_down ps) 23 OR flag (alt_r_down ps) 22 OR (ucast ch AND 0x000000FF),
     newinput := 1\<rparr>"

text \<open>The cases of the switch, which end in \<^verbatim>\<open>goto end\<close>; \<^const>\<open>None\<close> when no case applies.\<close>

definition key_case :: "u8 \<Rightarrow> keystatus_struct \<Rightarrow> keystatus_struct option" where
  "key_case ch k =
     (if ch = MAKE_CODE_CAPS_LCK then Some (k\<lparr>caps_lck := if 1 = caps_lck k then 0 else 1\<rparr>)
      else if ch = MAKE_CODE_L_SHIFT then Some (k\<lparr>shift_down := 1, shift_l_down := 1\<rparr>)
      else if ch = MAKE_CODE_R_SHIFT then Some (k\<lparr>shift_down := 1, shift_r_down := 1\<rparr>)
      else if ch = MAKE_CODE_L_CTL then Some (k\<lparr>ctl_down := 1, ctl_l_down := 1\<rparr>)
      else if ch = MAKE_CODE_R_CTL then Some (k\<lparr>ctl_down := 1, ctl_r_down := 1\<rparr>)
      else if ch = MAKE_CODE_L_ALT then Some (k\<lparr>alt_down := 1, alt_l_down := 1\<rparr>)
      else if ch = MAKE_CODE_R_ALT then Some (k\<lparr>alt_down := 1, alt_r_down := 1\<rparr>)
      else if ch = BREAK_CODE_L_SHIFT then Some (k\<lparr>shift_down := shift_r_down k, shift_l_down := 0\<rparr>)
      else if ch = BREAK_CODE_R_SHIFT then Some (k\<lparr>shift_down := shift_l_down k, shift_r_down := 0\<rparr>)
      else if ch = BREAK_CODE_L_CTL then Some (k\<lparr>ctl_down := ctl_r_down k, ctl_l_down := 0\<rparr>)
      else if ch = BREAK_CODE_L_ALT then Some (k\<lparr>alt_down := alt_r_down k, alt_l_down := 0\<rparr>)
      else None)"

definition key_step :: "u8 \<Rightarrow> keystatus_struct \<Rightarrow> keystatus_struct" where
  "key_step ch k =
     (case key_case ch k of
        Some k' \<Rightarrow> makescancode k' ch
      | None \<Rightarrow> if ch < 0x80 then makescancode k ch else k)"

definition keyboardhandle :: "hardware \<Rightarrow> 's kbd_scheme \<Rightarrow> 's kbd_scheme" where
  "keyboardhandle hw s = eoi_m hw (s\<lparr>keystatus := key_step (i8042readscancode s) (keystatus s)\<rparr>)"

section \<open>The device\<close>

definition keyboard_startup :: "hardware \<Rightarrow> addr \<Rightarrow> addr \<Rightarrow> addr \<Rightarrow> 's kbd_scheme \<Rightarrow> (cint \<times> 's kbd_scheme) option" where
  "keyboard_startup hw keyboardname handler keyboard_dev s =
     (let (b, s1) = i8042detect hw s
      in if 0xEE \<noteq> b then Some (INVALID, s1)
         else case hwregistehandle hw KEYBOARD_HWINT1 keyboardname handler s1 of
                None \<Rightarrow> None
              | Some (r, s2) \<Rightarrow>
                  if r = 0 then Some (INVALID, s2)
                  else let s3 = i8259Asti hw KEYBOARD_HWINT1 s2
                       in case register_device keyboard_dev (devreg s3) of
                            None \<Rightarrow> None
                          | Some (r, g) \<Rightarrow> Some (if INVALID = r then INVALID else 1, s3\<lparr>devreg := g\<rparr>))"

definition keyboard_open :: "addr \<Rightarrow> addr \<Rightarrow> cint" where "keyboard_open pf pi = 1"
definition keyboard_close :: "addr \<Rightarrow> addr \<Rightarrow> cint" where "keyboard_close pf pi = INVALID"
definition keyboard_ioctl :: "addr \<Rightarrow> cint \<Rightarrow> cint \<Rightarrow> cint" where "keyboard_ioctl pf cmd param = INVALID"

text \<open>The waiting loop: each interrupt that ends \<^verbatim>\<open>hlt\<close> puts the next byte into the port and runs the handler.\<close>

fun wait_key :: "hardware \<Rightarrow> u8 list \<Rightarrow> 's kbd_scheme \<Rightarrow> (u8 list \<times> 's kbd_scheme) option" where
  "wait_key hw codes s =
     (if 0 = newinput (keystatus s)
      then case codes of
             [] \<Rightarrow> None
           | c # cs \<Rightarrow> wait_key hw cs (keyboardhandle hw (s\<lparr>port_in := (port_in s)(I8042INPUTBYF := c)\<rparr>))
      else Some (codes, s))"

definition set_newinput :: "u32 \<Rightarrow> 's kbd_scheme \<Rightarrow> 's kbd_scheme" where
  "set_newinput v s = s\<lparr>keystatus := (keystatus s)\<lparr>newinput := v\<rparr>\<rparr>"

definition clear_input :: "'s kbd_scheme \<Rightarrow> 's kbd_scheme" where
  "clear_input s = (let s = s\<lparr>if_flag := False\<rparr>; s = set_newinput 0 s in s\<lparr>if_flag := True\<rparr>)"

definition keyboard_kread ::
    "hardware \<Rightarrow> u8 list \<Rightarrow> addr \<Rightarrow> cint \<Rightarrow> mem \<Rightarrow> 's kbd_scheme \<Rightarrow> (cint \<times> u8 list \<times> mem \<times> 's kbd_scheme) option" where
  "keyboard_kread hw codes ptr cnt m s =
     (if cnt \<le>s 0 then Some (INVALID, codes, m, s)
      else case wait_key hw codes (clear_input s) of
             None \<Rightarrow> None
           | Some (cs, s1) \<Rightarrow> Some (1, cs, store32 ptr (scancode (keystatus s1)) m, set_newinput 0 s1))"

definition keyboard_read ::
    "hardware \<Rightarrow> addr \<Rightarrow> u32 \<Rightarrow> u8 list \<Rightarrow> addr \<Rightarrow> cint \<Rightarrow> mem \<Rightarrow> 's kbd_scheme \<Rightarrow> (cint \<times> u8 list \<times> mem \<times> 's kbd_scheme) option" where
  "keyboard_read hw sp cr3 codes ptr cnt m s =
     (if cnt \<le>s 0 then Some (INVALID, codes, m, s)
      else case wait_key hw codes (clear_input s) of
             None \<Rightarrow> None
           | Some (cs, s1) \<Rightarrow>
               (case cpdword2user sp cr3 ptr (scancode (keystatus s1)) m of
                  (n, m') \<Rightarrow> Some (if 0 = n then INVALID else 1, cs, m', set_newinput 0 s1)))"

section \<open>Properties\<close>

definition boolean :: "u8 \<Rightarrow> bool" where
  "boolean v \<longleftrightarrow> v = 0 \<or> v = 1"

text \<open>A common flag is set when one of its two keys is.\<close>

definition pair_ok :: "u8 \<Rightarrow> u8 \<Rightarrow> u8 \<Rightarrow> bool" where
  "pair_ok c l r \<longleftrightarrow> boolean l \<and> boolean r \<and> c = (if l = 1 \<or> r = 1 then 1 else 0)"

definition key_ok :: "keystatus_struct \<Rightarrow> bool" where
  "key_ok k \<longleftrightarrow> boolean (caps_lck k) \<and> pair_ok (shift_down k) (shift_l_down k) (shift_r_down k) \<and>
     pair_ok (ctl_down k) (ctl_l_down k) (ctl_r_down k) \<and> pair_ok (alt_down k) (alt_l_down k) (alt_r_down k)"

lemma key_ok_make [simp]: "key_ok (makescancode k ch) \<longleftrightarrow> key_ok k"
  by (simp add: key_ok_def makescancode_def)

text \<open>The four moves of the handler on such a pair: press and release, left and right.\<close>

lemma pair_moves:
  "pair_ok c l r \<Longrightarrow> pair_ok 1 1 r" "pair_ok c l r \<Longrightarrow> pair_ok 1 l 1"
  "pair_ok c l r \<Longrightarrow> pair_ok r 0 r" "pair_ok c l r \<Longrightarrow> pair_ok l l 0"
  by (auto simp: pair_ok_def boolean_def)

lemma key_case_ok: "key_ok k \<Longrightarrow> key_case ch k = Some k' \<Longrightarrow> key_ok k'"
  by (simp add: key_case_def key_ok_def split: if_split_asm; (elim conjE)?; hypsubst?)
     (auto simp: boolean_def intro: pair_moves)

lemma key_step_ok: "key_ok k \<Longrightarrow> key_ok (key_step ch k)"
  using key_case_ok by (auto simp: key_step_def split: option.split)

text \<open>C32: Under every sequence of scan codes the modifier flags stay 0 or 1, and the common flag of
  shift, control and alt is set exactly when one of its two keys is.\<close>

theorem keys_consistent: "key_ok k \<Longrightarrow> key_ok (fold key_step codes k)"
  by (induction codes arbitrary: k) (simp_all add: key_step_ok)

lemma ctl_r_step: "ctl_down k = 1 \<and> ctl_r_down k = 1 \<Longrightarrow> ctl_down (key_step ch k) = 1 \<and> ctl_r_down (key_step ch k) = 1"
  by (auto simp: key_step_def key_case_def makescancode_def)

lemma ctl_r_sticks: "ctl_down k = 1 \<and> ctl_r_down k = 1 \<Longrightarrow>
  ctl_down (fold key_step codes k) = 1 \<and> ctl_r_down (fold key_step codes k) = 1"
proof (induction codes arbitrary: k)
  case (Cons c codes)
  then show ?case using ctl_r_step [of k c] by simp
qed simp

text \<open>Releasing the equals key counts as pressing the right control key, which no code releases: control
  stays down.\<close>

theorem equals_key_holds_ctl:
  "ctl_down (fold key_step ([0x0D, 0x8D] @ codes) k) = 1 \<and> ctl_r_down (fold key_step ([0x0D, 0x8D] @ codes) k) = 1"
proof -
  let ?k = "key_step 0x8D (key_step 0x0D k)"
  have "ctl_down ?k = 1 \<and> ctl_r_down ?k = 1"
    by (simp add: key_step_def key_case_def makescancode_def code_defs)
  from ctl_r_sticks [OF this] show ?thesis by simp
qed

text \<open>The codes the handler ignores: releases of keys that are not modifiers.\<close>

definition silent :: "u8 \<Rightarrow> bool" where
  "silent ch \<longleftrightarrow> \<not> ch < 0x80 \<and> ch \<notin> {MAKE_CODE_R_CTL, MAKE_CODE_R_ALT, BREAK_CODE_L_SHIFT, BREAK_CODE_R_SHIFT,
     BREAK_CODE_L_CTL, BREAK_CODE_L_ALT}"

lemma silent_step: "silent ch \<Longrightarrow> key_step ch k = k"
  by (auto simp: silent_def key_step_def key_case_def code_defs)

lemma loud_step: "\<not> silent ch \<Longrightarrow> newinput (key_step ch k) = 1"
  by (auto simp: silent_def key_step_def key_case_def makescancode_def)

lemma wait_key_first:
  assumes "\<forall>q \<in> set qs. silent q" and "\<not> silent c" and "newinput (keystatus s) = 0"
  shows "\<exists>s'. wait_key hw (qs @ c # rest) s = Some (rest, s') \<and> keystatus s' = key_step c (keystatus s)"
  using assms(1,3)
proof (induction qs arbitrary: s)
  case Nil
  then show ?case using loud_step [OF assms(2), of "keystatus s"]
    by (simp add: keyboardhandle_def eoi_m_def outb_def i8042readscancode_def inb_def)
next
  case (Cons q qs)
  let ?s = "keyboardhandle hw (s\<lparr>port_in := (port_in s)(I8042INPUTBYF := q)\<rparr>)"
  have "keystatus ?s = keystatus s"
    using Cons.prems(1) silent_step [of q]
    by (simp add: keyboardhandle_def eoi_m_def outb_def i8042readscancode_def inb_def)
  moreover have "wait_key hw ((q # qs) @ c # rest) s = wait_key hw (qs @ c # rest) ?s"
    using Cons.prems(2) by (subst wait_key.simps) simp
  ultimately show ?case using Cons.IH [of ?s] Cons.prems by simp
qed

lemma kread_first:
  assumes "\<forall>q \<in> set qs. silent q" and "\<not> silent c" and "0 <s cnt"
  shows "\<exists>s'. keyboard_kread hw (qs @ c # rest) ptr cnt m s =
    Some (1, rest, store32 ptr (scancode (key_step c ((keystatus s)\<lparr>newinput := 0\<rparr>))) m, s') \<and> newinput (keystatus s') = 0"
proof -
  have "\<not> cnt \<le>s 0" using assms(3) by (simp add: signed.not_le)
  moreover obtain s' where "wait_key hw (qs @ c # rest) (clear_input s) = Some (rest, s')"
    "keystatus s' = key_step c ((keystatus s)\<lparr>newinput := 0\<rparr>)"
    using wait_key_first [OF assms(1,2), of "clear_input s" hw rest]
    by (auto simp: clear_input_def set_newinput_def)
  ultimately show ?thesis by (simp add: keyboard_kread_def set_newinput_def)
qed

text \<open>keyboard_kread returns as soon as a byte other than the release of an ordinary key has arrived,
  skips the releases before it, stores the code word of that byte and leaves the later bytes.\<close>

theorem keyboard_kread_first:
  assumes "\<forall>q \<in> set qs. silent q" and "\<not> silent c" and "0 <s cnt"
  shows "\<exists>s'. keyboard_kread hw (qs @ c # rest) ptr cnt m s =
    Some (1, rest, store32 ptr (scancode (key_step c ((keystatus s)\<lparr>newinput := 0\<rparr>))) m, s') \<and> newinput (keystatus s') = 0"
  using assms by (rule kread_first)

lemma flag_bit [simp]: "n < 32 \<Longrightarrow> bit (flag v n) i \<longleftrightarrow> i = n \<and> odd v"
  by (auto simp: flag_def bit_simps bit_0 le_less)

lemma low_byte_bit: "bit (ucast ch AND 0x000000FF :: u32) i \<longleftrightarrow> i < 8 \<and> bit (ch :: u8) i"
proof -
  have m: "(0x000000FF :: u32) = mask 8" by (simp add: mask_eq_exp_minus_1)
  show ?thesis unfolding m by (auto simp: bit_simps dest: bit_imp_le_length)
qed

text \<open>The layout of the word that the readers get, as the comments of the structure give it: bit 31 caps lock, bits 30 to
  22 the shift, control and alt flags, bits 7 to 0 the scan code and every other bit clear.\<close>

theorem makescancode_layout:
  "bit (scancode (makescancode k ch)) i \<longleftrightarrow>
     i = 31 \<and> odd (caps_lck k) \<or> i = 30 \<and> odd (shift_down k) \<or> i = 29 \<and> odd (shift_l_down k) \<or> i = 28 \<and> odd (shift_r_down k) \<or>
     i = 27 \<and> odd (ctl_down k) \<or> i = 26 \<and> odd (ctl_l_down k) \<or> i = 25 \<and> odd (ctl_r_down k) \<or> i = 24 \<and> odd (alt_down k) \<or>
     i = 23 \<and> odd (alt_l_down k) \<or> i = 22 \<and> odd (alt_r_down k) \<or> i < 8 \<and> bit ch i"
  by (simp add: makescancode_def bit_or_iff low_byte_bit)

section \<open>A fresh keyboard\<close>

definition demo_keys :: keystatus_struct where
  "demo_keys = \<lparr>caps_lck = 0, shift_down = 0, shift_l_down = 0, shift_r_down = 0, ctl_down = 0, ctl_l_down = 0, ctl_r_down = 0,
     alt_down = 0, alt_l_down = 0, alt_r_down = 0, scancode = 0, newinput = 0\<rparr>"

lemma demo_keys_ok: "key_ok demo_keys"
  by (simp add: key_ok_def demo_keys_def boolean_def pair_ok_def)

theorem keys_consistent_witness: "key_ok demo_keys \<and> key_ok (fold key_step [0x2A, 0x1E, 0xAA] demo_keys)"
  using demo_keys_ok keys_consistent [OF demo_keys_ok, of "[0x2A, 0x1E, 0xAA]"] by blast

definition demo_kbd :: kbd where
  "demo_kbd = intr.extend demo_intr \<lparr>keystatus = demo_keys, devreg = demo_registry\<rparr>"

lemma demo_kbd_keys: "keystatus demo_kbd = demo_keys"
  by (simp add: demo_kbd_def intr.extend_def)

theorem keyboard_kread_first_witness:
  "\<exists>s'. keyboard_kread (\<lambda>_ _. id) [0x9E, 0x1E, 0x9E] 0x1000 4 (\<lambda>_. 0) demo_kbd =
    Some (1, [0x9E], store32 0x1000 0x1E (\<lambda>_. 0), s') \<and> newinput (keystatus s') = 0"
proof -
  have "scancode (key_step 0x1E (demo_keys\<lparr>newinput := 0\<rparr>)) = 0x1E"
    by (simp add: key_step_def key_case_def makescancode_def flag_def demo_keys_def code_defs)
  then show ?thesis
    using keyboard_kread_first [where qs = "[0x9E]" and c = "0x1E" and cnt = 4 and hw = "\<lambda>_ _. id" and rest = "[0x9E]"
      and ptr = "0x1000" and m = "\<lambda>_. 0" and s = demo_kbd]
    by (simp add: silent_def code_defs demo_kbd_keys word_sless_alt)
qed

end
