(* ===== verification/Ide.thy ===== *)
theory Ide
  imports Lock Stdlib Interrupt
begin

text \<open>
  The IDE disk driver (\<^verbatim>\<open>drivers/ide.c\<close>, \<^verbatim>\<open>include/drivers/ide.h\<close>): waiting for the status and for the interrupt, the command
  block, and the transfer of one sector by programmed input and output. The device and the time stamp
  counter are the parameter \<^verbatim>\<open>A\<close>: a reading of the counter also says which interrupt arrived since the last one, and
  the model runs its handler there. A loop that the device never lets end is \<^const>\<open>None\<close>. The
  pointer to a table of port numbers is an optional record.
\<close>

section \<open>Data\<close>

definition SECTOR_BYTES :: nat where [code_defs]: "SECTOR_BYTES = 512"
definition IDE_MAX_IODELAY :: cint where [code_defs]: "IDE_MAX_IODELAY = 0x20000"
definition IDES_BUSY :: cint where [code_defs]: "IDES_BUSY = 0x80"
definition IDES_REQESTDATA :: cint where [code_defs]: "IDES_REQESTDATA = 0x08"
definition IDEC_READSECTORS :: u8 where [code_defs]: "IDEC_READSECTORS = 0x20"
definition IDEC_WRITESECTORS :: u8 where [code_defs]: "IDEC_WRITESECTORS = 0x30"
definition MAX_IDE_DEVICE :: nat where [code_defs]: "MAX_IDE_DEVICE = 64"
definition IDE_PRIMARY_MASK :: u16 where [code_defs]: "IDE_PRIMARY_MASK = 0x1000"
definition IDE_SECONDY_MASK :: u16 where [code_defs]: "IDE_SECONDY_MASK = 0x0100"
definition IDE_MASTER_MASK :: u16 where [code_defs]: "IDE_MASTER_MASK = 0x0010"
definition IDE_SLAVE_MASK :: u16 where [code_defs]: "IDE_SLAVE_MASK = 0x0001"
definition IDE_NO_INT :: u16 where [code_defs]: "IDE_NO_INT = 0x0000"
definition IDE_GET_INT :: u16 where [code_defs]: "IDE_GET_INT = 0x00FF"
definition IDE_WAIT_INT :: u16 where [code_defs]: "IDE_WAIT_INT = 0xFF00"

record ide_ctl_ioport =
  reg_data :: u16
  reg_ef :: u16
  reg_count :: u16
  reg_lba_low :: u16
  reg_lba_mid :: u16
  reg_lba_high :: u16
  reg_device :: u16
  reg_sc :: u16
  reg_ad :: u16

definition ide_primary :: ide_ctl_ioport where
  "ide_primary = \<lparr>reg_data = 0x01F0, reg_ef = 0x1F1, reg_count = 0x1F2, reg_lba_low = 0x1F3, reg_lba_mid = 0x1F4,
     reg_lba_high = 0x1F5, reg_device = 0x1F6, reg_sc = 0x1F7, reg_ad = 0x3F6\<rparr>"

definition ide_secondy :: ide_ctl_ioport where
  "ide_secondy = \<lparr>reg_data = 0x0170, reg_ef = 0x171, reg_count = 0x172, reg_lba_low = 0x173, reg_lba_mid = 0x174,
     reg_lba_high = 0x175, reg_device = 0x176, reg_sc = 0x177, reg_ad = 0x376\<rparr>"

record ide_device_status =
  devnum :: u32
  lba_start :: u32
  lba_end :: u32
  lba_cnt :: u32
  ide_dev_mask :: u16
  ide_port_r :: "ide_ctl_ioport option"
  ide_port_w :: "ide_ctl_ioport option"

record ide_cmd_struct =
  c_features :: u8
  c_count :: u8
  c_lba_low :: u8
  c_lba_mid :: u8
  c_lba_high :: u8
  c_device :: u8
  c_cmd :: u8
  c_dev_ctl :: u8

datatype ide_irq = No_irq | Irq_ide0 | Irq_ide1

text \<open>The device: reading the counter, port reads and writes, and block transfers of the data port.\<close>

record 'd ata =
  a_rdtsc :: "'d \<Rightarrow> u64 \<times> ide_irq \<times> 'd"
  a_inb :: "u16 \<Rightarrow> 'd \<Rightarrow> u8 \<times> 'd"
  a_outb :: "u16 \<Rightarrow> u8 \<Rightarrow> 'd \<Rightarrow> 'd"
  a_inputs :: "u16 \<Rightarrow> nat \<Rightarrow> 'd \<Rightarrow> u8 list \<times> 'd"
  a_outputs :: "u16 \<Rightarrow> u8 list \<Rightarrow> 'd \<Rightarrow> 'd"

datatype ide_msg = Status_error u8 | Command_error | Read_command_error | Read_error | Write_error

record 'd ide =
  unit :: 'd
  ide0_intflg :: "nat \<Rightarrow> u16"
  ide1_intflg :: "nat \<Rightarrow> u16"
  ide_intflg :: u16
  ide0_rwlck :: spin_lock
  ide1_rwlck :: spin_lock
  ide_mem :: mem
  ide_dev :: "nat \<Rightarrow> ide_device_status"
  ide_log :: "ide_msg list"

definition ide_message :: "ide_msg \<Rightarrow> 'd ide \<Rightarrow> 'd ide" where
  "ide_message x s = s\<lparr>ide_log := ide_log s @ [x]\<rparr>"

section \<open>Ports and interrupts\<close>

definition ide_inb :: "'d ata \<Rightarrow> u16 \<Rightarrow> 'd ide \<Rightarrow> u8 \<times> 'd ide" where
  "ide_inb A p s = (let (v, d) = a_inb A p (unit s) in (v, s\<lparr>unit := d\<rparr>))"

definition ide_outb :: "'d ata \<Rightarrow> u16 \<Rightarrow> u8 \<Rightarrow> 'd ide \<Rightarrow> 'd ide" where
  "ide_outb A p v s = s\<lparr>unit := a_outb A p v (unit s)\<rparr>"

definition got :: "nat \<Rightarrow> (nat \<Rightarrow> u16) \<Rightarrow> nat \<Rightarrow> u16" where
  "got i f = (if IDE_WAIT_INT AND f i \<noteq> 0 then f(i := IDE_GET_INT) else f)"

definition ide0_handle :: "'d ata \<Rightarrow> 'd ide \<Rightarrow> 'd ide" where
  "ide0_handle A s =
     (let s = snd (ide_inb A (reg_sc ide_primary) s);
          s = s\<lparr>ide_intflg := IDE_GET_INT\<rparr>
      in s\<lparr>ide0_intflg := got 1 (got 0 (ide0_intflg s))\<rparr>)"

definition ide1_handle :: "'d ata \<Rightarrow> 'd ide \<Rightarrow> 'd ide" where
  "ide1_handle A s =
     (let s = snd (ide_inb A (reg_sc ide_secondy) s);
          s = s\<lparr>ide_intflg := IDE_GET_INT\<rparr>
      in s\<lparr>ide1_intflg := got 1 (got 0 (ide1_intflg s))\<rparr>)"

definition rdtsc :: "'d ata \<Rightarrow> 'd ide \<Rightarrow> u64 \<times> 'd ide" where
  "rdtsc A s =
     (let (t, irq, d) = a_rdtsc A (unit s); s = s\<lparr>unit := d\<rparr>
      in (t, case irq of No_irq \<Rightarrow> s | Irq_ide0 \<Rightarrow> ide0_handle A s | Irq_ide1 \<Rightarrow> ide1_handle A s))"

text \<open>The loops. A \<^verbatim>\<open>nop\<close> of the first one lets time pass as a reading of the counter does.\<close>

partial_function (option) wait_forever :: "'d ata \<Rightarrow> 'd ide \<Rightarrow> 'd ide option" where
  "wait_forever A s = (if ide_intflg s \<noteq> IDE_GET_INT then wait_forever A (snd (rdtsc A s)) else Some s)"

partial_function (option) wait_int_loop :: "'d ata \<Rightarrow> u64 \<Rightarrow> u64 \<Rightarrow> 'd ide \<Rightarrow> 'd ide option" where
  "wait_int_loop A start reffer s =
     (let (t, s) = rdtsc A s
      in if t - start < reffer \<and> ide_intflg s \<noteq> IDE_GET_INT then wait_int_loop A start reffer s else Some s)"

definition ide_wait_interrupt :: "'d ata \<Rightarrow> cint \<Rightarrow> 'd ide \<Rightarrow> (cint \<times> 'd ide) option" where
  "ide_wait_interrupt A timeout s =
     (if timeout \<le>s 0
      then map_option (\<lambda>s. (1, s\<lparr>ide_intflg := IDE_NO_INT\<rparr>)) (wait_forever A s)
      else let (start, s) = rdtsc A s
           in map_option (\<lambda>s. if IDE_GET_INT = ide_intflg s then (1, s\<lparr>ide_intflg := IDE_NO_INT\<rparr>) else (0, s))
                (wait_int_loop A start (scast (timeout * 1000)) s))"

partial_function (option) wait_status_loop ::
    "'d ata \<Rightarrow> u16 \<Rightarrow> cint \<Rightarrow> cint \<Rightarrow> u64 \<Rightarrow> u64 \<Rightarrow> u8 \<Rightarrow> 'd ide \<Rightarrow> (cint \<times> 'd ide) option" where
  "wait_status_loop A port msk val tt ts sv s =
     (let (t, s) = rdtsc A s
      in if t - ts < tt
         then let (v, s) = ide_inb A port s
              in if val = (ucast v AND msk) then Some (1, s) else wait_status_loop A port msk val tt ts v s
         else Some (0, ide_message (Status_error sv) s))"

definition ide_wait_status :: "'d ata \<Rightarrow> ide_ctl_ioport \<Rightarrow> cint \<Rightarrow> cint \<Rightarrow> cint \<Rightarrow> 'd ide \<Rightarrow> (cint \<times> 'd ide) option" where
  "ide_wait_status A ctlpt msk val timeout s =
     (let (ts, s) = rdtsc A s in wait_status_loop A (reg_sc ctlpt) msk val (ucast timeout * 1000) ts 0 s)"

section \<open>Commands\<close>

definition ide_exec_cmd :: "'d ata \<Rightarrow> ide_ctl_ioport option \<Rightarrow> ide_cmd_struct option \<Rightarrow> 'd ide \<Rightarrow> (cint \<times> 'd ide) option" where
  "ide_exec_cmd A ctlpt cmd s =
     (case (ctlpt, cmd) of
        (Some p, Some c) \<Rightarrow>
          (case ide_wait_status A p IDES_BUSY 0 IDE_MAX_IODELAY s of
             None \<Rightarrow> None
           | Some (r, s) \<Rightarrow>
               if r = 0 then Some (0, ide_message Command_error s)
               else let s = ide_outb A (reg_ad p) (c_dev_ctl c) s;
                        s = ide_outb A (reg_ef p) (c_features c) s;
                        s = ide_outb A (reg_count p) (c_count c) s;
                        s = ide_outb A (reg_lba_low p) (c_lba_low c) s;
                        s = ide_outb A (reg_lba_mid p) (c_lba_mid c) s;
                        s = ide_outb A (reg_lba_high p) (c_lba_high c) s;
                        s = ide_outb A (reg_device p) (c_device c) s
                    in Some (1, ide_outb A (reg_sc p) (c_cmd c) s))
      | _ \<Rightarrow> Some (0, s))"

definition MAKEDEV :: "u32 \<Rightarrow> u32 \<Rightarrow> u32" where
  "MAKEDEV lbahigh drv = push_bit 4 drv OR (lbahigh AND 0x0F) OR 0xA0"

definition sector_cmd :: "ide_device_status \<Rightarrow> u32 \<Rightarrow> u8 \<Rightarrow> ide_cmd_struct" where
  "sector_cmd pids lba cmd =
     \<lparr>c_features = 0, c_count = 1, c_lba_low = ucast (lba AND 0x000000FF), c_lba_mid = ucast (drop_bit 8 (lba AND 0x0000FF00)),
      c_lba_high = ucast (drop_bit 16 (lba AND 0x00FF0000)),
      c_device = ucast (MAKEDEV (drop_bit 24 lba AND 0x0F) (if IDE_SLAVE_MASK AND ide_dev_mask pids \<noteq> 0 then 1 else 0)),
      c_cmd = cmd, c_dev_ctl = 0\<rparr>"

text \<open>The lock of the channel; the outer \<^const>\<open>None\<close> is a spin that nobody ends, the inner one no channel.\<close>

definition channel_lock :: "ide_device_status \<Rightarrow> 'd ide \<Rightarrow> 'd ide option option" where
  "channel_lock pids s =
     (if IDE_PRIMARY_MASK AND ide_dev_mask pids \<noteq> 0
      then map_option (\<lambda>l. Some (s\<lparr>ide0_rwlck := l\<rparr>)) (get_spinlock (ide0_rwlck s))
      else if IDE_SECONDY_MASK AND ide_dev_mask pids \<noteq> 0
      then map_option (\<lambda>l. Some (s\<lparr>ide1_rwlck := l\<rparr>)) (get_spinlock (ide1_rwlck s))
      else Some None)"

definition channel_unlock :: "ide_device_status \<Rightarrow> 'd ide \<Rightarrow> 'd ide" where
  "channel_unlock pids s =
     (if IDE_PRIMARY_MASK AND ide_dev_mask pids \<noteq> 0 then s\<lparr>ide0_rwlck := release_spinlock (ide0_rwlck s)\<rparr>
      else s\<lparr>ide1_rwlck := release_spinlock (ide1_rwlck s)\<rparr>)"

definition read_body :: "'d ata \<Rightarrow> ide_device_status \<Rightarrow> u32 \<Rightarrow> addr \<Rightarrow> 'd ide \<Rightarrow> (cint \<times> 'd ide) option" where
  "read_body A pids lba ptr s =
     (case ide_exec_cmd A (ide_port_r pids) (Some (sector_cmd pids lba IDEC_READSECTORS)) s of
        None \<Rightarrow> None
      | Some (r, s) \<Rightarrow>
          if 0 = r then Some (0, ide_message Read_command_error s)
          else (case ide_wait_interrupt A IDE_MAX_IODELAY s of
                  None \<Rightarrow> None
                | Some (r, s) \<Rightarrow>
                    if r \<noteq> 0
                    then let (bs, d) = a_inputs A (reg_data (the (ide_port_r pids))) SECTOR_BYTES (unit s)
                         in Some (1, s\<lparr>unit := d, ide_mem := store_bytes ptr bs (ide_mem s)\<rparr>)
                    else Some (0, ide_message Read_error s)))"

definition ide_read_sct :: "'d ata \<Rightarrow> ide_device_status \<Rightarrow> u32 \<Rightarrow> addr \<Rightarrow> 'd ide \<Rightarrow> (cint \<times> 'd ide) option" where
  "ide_read_sct A pids lba ptr s =
     (case channel_lock pids s of
        None \<Rightarrow> None
      | Some None \<Rightarrow> Some (0, s)
      | Some (Some s) \<Rightarrow> map_option (\<lambda>(r, s). (r, channel_unlock pids s)) (read_body A pids lba ptr s))"

definition read_bytes :: "addr \<Rightarrow> nat \<Rightarrow> mem \<Rightarrow> u8 list" where
  "read_bytes p n m = map (\<lambda>i. m (p + of_nat i)) [0..<n]"

definition write_body :: "'d ata \<Rightarrow> ide_device_status \<Rightarrow> u32 \<Rightarrow> addr \<Rightarrow> 'd ide \<Rightarrow> (cint \<times> 'd ide) option" where
  "write_body A pids lba ptr s =
     (case ide_exec_cmd A (ide_port_w pids) (Some (sector_cmd pids lba IDEC_WRITESECTORS)) s of
        None \<Rightarrow> None
      | Some (r, s) \<Rightarrow>
          if 0 = r then Some (0, s)
          else (case ide_wait_status A (the (ide_port_w pids)) IDES_REQESTDATA IDES_REQESTDATA IDE_MAX_IODELAY s of
                  None \<Rightarrow> None
                | Some (r, s) \<Rightarrow>
                    if r = 0 then Some (0, ide_message Write_error s)
                    else let s = s\<lparr>unit := a_outputs A (reg_data (the (ide_port_w pids))) (read_bytes ptr SECTOR_BYTES (ide_mem s)) (unit s)\<rparr>
                         in map_option (\<lambda>(r, s). (if r \<noteq> 0 then 1 else 0, s)) (ide_wait_interrupt A IDE_MAX_IODELAY s)))"

definition ide_write_sct :: "'d ata \<Rightarrow> ide_device_status \<Rightarrow> u32 \<Rightarrow> addr \<Rightarrow> 'd ide \<Rightarrow> (cint \<times> 'd ide) option" where
  "ide_write_sct A pids lba ptr s =
     (case channel_lock pids s of
        None \<Rightarrow> None
      | Some None \<Rightarrow> Some (0, s)
      | Some (Some s) \<Rightarrow> map_option (\<lambda>(r, s). (r, channel_unlock pids s)) (write_body A pids lba ptr s))"

section \<open>The device table\<close>

fun alloc_loop :: "nat \<Rightarrow> nat \<Rightarrow> u32 \<Rightarrow> 'd ide \<Rightarrow> nat option \<times> 'd ide" where
  "alloc_loop i 0 n s = (None, s)"
| "alloc_loop i (Suc k) n s =
     (if 0 = devnum (ide_dev s i) then (Some i, s\<lparr>ide_dev := (ide_dev s)(i := (ide_dev s i)\<lparr>devnum := n\<rparr>)\<rparr>)
      else alloc_loop (Suc i) k n s)"

definition ide_struct_alloc :: "u32 \<Rightarrow> 'd ide \<Rightarrow> nat option \<times> 'd ide" where
  "ide_struct_alloc n s = alloc_loop 0 MAX_IDE_DEVICE n s"

definition ide_open :: "addr \<Rightarrow> addr \<Rightarrow> cint" where "ide_open pkf pki = 1"
definition ide_ioctl :: "addr \<Rightarrow> cint \<Rightarrow> cint \<Rightarrow> cint" where "ide_ioctl pkf cmd param = 0"
definition ide_read :: "addr \<Rightarrow> addr \<Rightarrow> cint \<Rightarrow> addr \<Rightarrow> cint \<Rightarrow> cint" where "ide_read pkf ptr off poff cnt = cnt"
definition ide_write :: "addr \<Rightarrow> addr \<Rightarrow> cint \<Rightarrow> addr \<Rightarrow> cint \<Rightarrow> cint" where "ide_write pkf ptr off poff cnt = cnt"
definition ide_c_read :: "addr \<Rightarrow> addr \<Rightarrow> cint \<Rightarrow> addr \<Rightarrow> cint \<Rightarrow> cint" where "ide_c_read pkf ptr off poff cnt = cnt"
definition ide_c_write :: "addr \<Rightarrow> addr \<Rightarrow> cint \<Rightarrow> addr \<Rightarrow> cint \<Rightarrow> cint" where "ide_c_write pi ptr off poff cnt = cnt"

definition IDE0_INT :: u8 where [code_defs]: "IDE0_INT = INT_VECTOR_IRQ8 + 6"
definition IDE1_INT :: u8 where [code_defs]: "IDE1_INT = INT_VECTOR_IRQ8 + 7"

definition ide_startup :: "hardware \<Rightarrow> addr \<Rightarrow> addr \<Rightarrow> addr \<Rightarrow> addr \<Rightarrow> 's intr_scheme \<Rightarrow> 's intr_scheme option" where
  "ide_startup hw name0 h0 name1 h1 s =
     Option.bind (hwregistehandle hw IDE0_INT name0 h0 s) (\<lambda>(_, s). map_option snd (hwregistehandle hw IDE1_INT name1 h1 s))"

end
