(* ===== verification/IdeDisk.thy ===== *)
theory IdeDisk
  imports Ide
begin

text \<open>
  What the IDE driver does to a disk. The drive is assumed to keep the ATA protocol of the commands that read and
  write one sector (\<^verbatim>\<open>ata_ok\<close>): a command is taken by an idle drive only, data is transferred in the phase
  that the command and its progress have led to and in no other, and the interrupts come where the
  protocol has them. Under it a sector that was written is the one that is read back. With a running clock
  (\<^verbatim>\<open>clock_ok\<close>) both operations return and release their lock, whatever the drive does.
\<close>

section \<open>Waiting\<close>

text \<open>Waiting changes the device, the interrupt flags and the log, and nothing else.\<close>

definition waited :: "'d ide \<Rightarrow> 'd ide \<Rightarrow> bool" where
  "waited s s' \<longleftrightarrow> ide_mem s' = ide_mem s \<and> ide0_rwlck s' = ide0_rwlck s \<and> ide1_rwlck s' = ide1_rwlck s \<and> ide_dev s' = ide_dev s"

lemma waited_refl [simp]: "waited s s"
  by (simp add: waited_def)

lemma waited_trans: "waited s s' \<Longrightarrow> waited s' s'' \<Longrightarrow> waited s s''"
  by (simp add: waited_def)

lemma waited_fields [simp]: "waited s (s'\<lparr>unit := d\<rparr>) \<longleftrightarrow> waited s s'" "waited s (s'\<lparr>ide_intflg := v\<rparr>) \<longleftrightarrow> waited s s'"
  "waited s (s'\<lparr>ide0_intflg := f\<rparr>) \<longleftrightarrow> waited s s'" "waited s (s'\<lparr>ide1_intflg := f\<rparr>) \<longleftrightarrow> waited s s'"
  "waited s (ide_message x s') \<longleftrightarrow> waited s s'"
  by (simp_all add: waited_def ide_message_def)

text \<open>A property of the state that reading the counter, reading a port and a message keep; the waiting loops keep it, too.\<close>

definition kept :: "'d ata \<Rightarrow> ('d ide \<Rightarrow> bool) \<Rightarrow> bool" where
  "kept A P \<longleftrightarrow> (\<forall>s. P s \<longrightarrow> P (snd (rdtsc A s)) \<and> (\<forall>port. P (snd (ide_inb A port s))) \<and> (\<forall>x. P (ide_message x s)))"

lemma keptD: "kept A P \<Longrightarrow> P s \<Longrightarrow> P (snd (rdtsc A s))" "kept A P \<Longrightarrow> P s \<Longrightarrow> P (snd (ide_inb A port s))"
  "kept A P \<Longrightarrow> P s \<Longrightarrow> P (ide_message x s)"
  by (simp_all add: kept_def)

lemma inb_waited [simp]: "waited s (snd (ide_inb A port s')) \<longleftrightarrow> waited s s'"
  by (simp add: ide_inb_def split_beta)

lemma kept_waited: "kept A (waited s)"
  unfolding kept_def rdtsc_def by (auto simp: split_beta ide0_handle_def ide1_handle_def Let_def split: ide_irq.split)

lemma wait_int_loop_kept:
  assumes "wait_int_loop A start reffer s = Some s'" and "kept A P" and "P s"
  shows "P s'"
proof -
  have "kept A P \<longrightarrow> P s \<longrightarrow> P s'"
  proof (rule wait_int_loop.raw_induct [OF _ assms(1)], goal_cases)
    case (1 f A start reffer s s')
    then show ?case using keptD(1) [of A P s] by (auto simp: split_beta Let_def split: if_splits)
  qed
  with assms(2,3) show ?thesis by blast
qed

text \<open>A successful wait for a status has read that status last.\<close>

lemma wait_status_loop_kept:
  assumes "wait_status_loop A port msk val tt ts sv s = Some rs" and "kept A P" and "P s"
  shows "P (snd rs) \<and> (fst rs = 0 \<or> fst rs = 1 \<and> (\<exists>t v. P t \<and> ide_inb A port t = (v, snd rs) \<and> val = (ucast v AND msk)))"
proof -
  have "kept A P \<longrightarrow> P s \<longrightarrow> P (snd rs) \<and> (fst rs = 0 \<or> fst rs = 1 \<and> (\<exists>t v. P t \<and> ide_inb A port t = (v, snd rs) \<and> val = (ucast v AND msk)))"
  proof (rule wait_status_loop.raw_induct [OF _ assms(1)], goal_cases)
    case (1 f A port msk val tt ts sv s rs)
    let ?s1 = "snd (rdtsc A s)" let ?v = "fst (ide_inb A port ?s1)" let ?s2 = "snd (ide_inb A port ?s1)"
    show ?case
    proof (intro impI)
      assume k: "kept A P" "P s"
      note p = keptD(1) [OF k] keptD(2) [OF k(1) keptD(1) [OF k], of port] keptD(3) [OF k(1) keptD(1) [OF k]]
      have i: "ide_inb A port ?s1 = (?v, ?s2)" by simp
      have "rs = (0, ide_message (Status_error sv) ?s1) \<or> rs = (1, ?s2) \<and> val = (ucast ?v AND msk) \<or> f A port msk val tt ts ?v ?s2 = Some rs"
        using 1(2) by (simp add: split_beta Let_def split: if_split_asm)
      then consider "rs = (0, ide_message (Status_error sv) ?s1)" | "rs = (1, ?s2)" "val = (ucast ?v AND msk)"
        | "f A port msk val tt ts ?v ?s2 = Some rs" by blast
      then show "P (snd rs) \<and> (fst rs = 0 \<or> fst rs = 1 \<and> (\<exists>t v. P t \<and> ide_inb A port t = (v, snd rs) \<and> val = (ucast v AND msk)))"
      proof cases
        case 2
        then have "P (snd rs)" "fst rs = 1" "ide_inb A port ?s1 = (?v, snd rs)" using p(2) i by simp_all
        then show ?thesis using p(1) 2(2) by blast
      next
        case 3
        then show ?thesis using 1(1) [OF 3] k(1) p(2) by blast
      qed (use p(3) in simp)
    qed
  qed
  with assms(2,3) show ?thesis by blast
qed

lemma ide_wait_status_kept:
  assumes "ide_wait_status A p msk val timeout s = Some (r, s')" and "kept A P" and "P s"
  shows "P s'" and "r = 0 \<or> r = 1" and "r = 0 \<or> (\<exists>t v. P t \<and> ide_inb A (reg_sc p) t = (v, s') \<and> val = (ucast v AND msk))"
proof -
  have "wait_status_loop A (reg_sc p) msk val (ucast timeout * 1000) (fst (rdtsc A s)) 0 (snd (rdtsc A s)) = Some (r, s')"
    using assms(1) by (simp add: ide_wait_status_def split_beta)
  from wait_status_loop_kept [OF this assms(2) keptD(1) [OF assms(2,3)]]
  show "P s'" "r = 0 \<or> r = 1" "r = 0 \<or> (\<exists>t v. P t \<and> ide_inb A (reg_sc p) t = (v, s') \<and> val = (ucast v AND msk))"
    unfolding fst_conv snd_conv by blast+
qed

lemma ide_wait_interrupt_kept:
  assumes "ide_wait_interrupt A IDE_MAX_IODELAY s = Some (r, s')" and "kept A P" and "P s"
  shows "r = 0 \<and> P s' \<or> r = 1 \<and> (\<exists>t. P t \<and> ide_intflg t = IDE_GET_INT \<and> s' = t\<lparr>ide_intflg := IDE_NO_INT\<rparr>)"
proof -
  obtain t where "wait_int_loop A (fst (rdtsc A s)) (scast (IDE_MAX_IODELAY * 1000)) (snd (rdtsc A s)) = Some t"
      "(r, s') = (if IDE_GET_INT = ide_intflg t then (1, t\<lparr>ide_intflg := IDE_NO_INT\<rparr>) else (0, t))"
    using assms(1) by (auto simp: ide_wait_interrupt_def split_beta Let_def IDE_MAX_IODELAY_def word_sle_eq)
  moreover from this(1) assms(2) have "P t" by (rule wait_int_loop_kept) (rule keptD(1) [OF assms(2,3)])
  ultimately show ?thesis by (auto split: if_splits)
qed

section \<open>The drive\<close>

text \<open>A sector is addressed by the three registers of the address and that of the device.\<close>

type_synonym sector_id = "u8 \<times> u8 \<times> u8 \<times> u8"

definition sector_regs :: "ide_ctl_ioport \<Rightarrow> (u16 \<Rightarrow> u8) \<Rightarrow> sector_id" where
  "sector_regs p r = (r (reg_lba_low p), r (reg_lba_mid p), r (reg_lba_high p), r (reg_device p))"

text \<open>
  The phases of a command that transfers one sector: reading it from the disk, its data ready to be taken; making
  room for the data, waiting for it, writing it to the disk.
\<close>

datatype ata_phase = Idle | Reading sector_id | Readable sector_id | Preparing sector_id | Writable sector_id | Saving sector_id "u8 list"

record ata_view =
  ata_phase :: ata_phase
  ata_regs :: "u16 \<Rightarrow> u8"
  ata_sectors :: "sector_id \<Rightarrow> u8 list"

text \<open>What happens between two instructions: nothing, or the step to the next phase. Data that is ready to be read and data that
  is on the disk are announced by the interrupt, room for data to be written is not.\<close>

inductive ata_tick :: "ata_view \<Rightarrow> ide_irq \<Rightarrow> ata_view \<Rightarrow> bool" where
  ata_stay: "ata_tick v No_irq v"
| ata_data: "ata_phase v = Reading a \<Longrightarrow> q \<noteq> No_irq \<Longrightarrow> ata_tick v q (v\<lparr>ata_phase := Readable a\<rparr>)"
| ata_room: "ata_phase v = Preparing a \<Longrightarrow> ata_tick v No_irq (v\<lparr>ata_phase := Writable a\<rparr>)"
| ata_done: "ata_phase v = Saving a bs \<Longrightarrow> q \<noteq> No_irq \<Longrightarrow>
    ata_tick v q (v\<lparr>ata_phase := Idle, ata_sectors := (ata_sectors v)(a := bs)\<rparr>)"

code_pred ata_tick .

inductive_cases ata_tickE: "ata_tick v q v'"

text \<open>The status: bit 7 is set while the drive is busy, bit 3 when it waits for a transfer of data.\<close>

definition ata_status :: "ata_phase \<Rightarrow> u8 \<Rightarrow> bool" where
  "ata_status ph b \<longleftrightarrow>
     (bit b 7 \<longleftrightarrow> (case ph of Reading _ \<Rightarrow> True | Preparing _ \<Rightarrow> True | Saving _ _ \<Rightarrow> True | _ \<Rightarrow> False)) \<and>
     (bit b 3 \<longleftrightarrow> (case ph of Readable _ \<Rightarrow> True | Writable _ \<Rightarrow> True | _ \<Rightarrow> False))"

text \<open>What an idle drive does when a register is written; \<^const>\<open>None\<close> is what is not assumed: other commands, counts and ports, a reset or
  the masking of the interrupt, and every write while a command is in progress.\<close>

definition ata_written :: "ide_ctl_ioport \<Rightarrow> u16 \<Rightarrow> u8 \<Rightarrow> ata_view \<Rightarrow> ata_view option" where
  "ata_written p port b v =
     (if ata_phase v \<noteq> Idle then None
      else if port = reg_sc p
      then if ata_regs v (reg_count p) \<noteq> 1 then None
           else if b = 0x20 then Some (v\<lparr>ata_phase := Reading (sector_regs p (ata_regs v))\<rparr>)
           else if b = 0x30 then Some (v\<lparr>ata_phase := Preparing (sector_regs p (ata_regs v))\<rparr>)
           else None
      else if port \<in> {reg_ef p, reg_count p, reg_lba_low p, reg_lba_mid p, reg_lba_high p, reg_device p} \<or>
              port = reg_ad p \<and> \<not> bit b 1 \<and> \<not> bit b 2
      then Some (v\<lparr>ata_regs := (ata_regs v)(port := b)\<rparr>)
      else None)"

definition ata_ok :: "'d ata \<Rightarrow> ('d \<Rightarrow> ata_view) \<Rightarrow> ide_ctl_ioport \<Rightarrow> bool" where
  "ata_ok A view p \<longleftrightarrow>
     (\<forall>d t q d'. a_rdtsc A d = (t, q, d') \<longrightarrow> ata_tick (view d) q (view d')) \<and>
     (\<forall>port d b d'. a_inb A port d = (b, d') \<longrightarrow> view d' = view d \<and> (port = reg_sc p \<longrightarrow> ata_status (ata_phase (view d)) b)) \<and>
     (\<forall>port b d v. ata_written p port b (view d) = Some v \<longrightarrow> view (a_outb A port b d) = v) \<and>
     (\<forall>a d bs d'. ata_phase (view d) = Readable a \<longrightarrow> a_inputs A (reg_data p) 512 d = (bs, d') \<longrightarrow>
        bs = ata_sectors (view d) a \<and> view d' = (view d)\<lparr>ata_phase := Idle\<rparr>) \<and>
     (\<forall>a d bs. ata_phase (view d) = Writable a \<longrightarrow> length bs = 512 \<longrightarrow>
        view (a_outputs A (reg_data p) bs d) = (view d)\<lparr>ata_phase := Saving a bs\<rparr>)"

lemma ata_inb:
  assumes "ata_ok A view p"
  shows "view (unit (snd (ide_inb A port s))) = view (unit s)" and "ide_intflg (snd (ide_inb A port s)) = ide_intflg s"
    and "ata_status (ata_phase (view (unit s))) (fst (ide_inb A (reg_sc p) s))"
proof -
  have i: "a_inb A port (unit s) = (b, d) \<Longrightarrow> view d = view (unit s) \<and> (port = reg_sc p \<longrightarrow> ata_status (ata_phase (view (unit s))) b)"
    for port b d using assms unfolding ata_ok_def by blast
  show "view (unit (snd (ide_inb A port s))) = view (unit s)" "ide_intflg (snd (ide_inb A port s)) = ide_intflg s"
    using i [OF prod.collapse [symmetric]] by (simp_all add: ide_inb_def split_beta)
  show "ata_status (ata_phase (view (unit s))) (fst (ide_inb A (reg_sc p) s))"
    using i [OF prod.collapse [symmetric]] by (simp add: ide_inb_def split_beta)
qed

lemma ata_rdtsc:
  assumes "ata_ok A view p"
  obtains q where "ata_tick (view (unit s)) q (view (unit (snd (rdtsc A s))))"
    "ide_intflg (snd (rdtsc A s)) = (if q = No_irq then ide_intflg s else IDE_GET_INT)"
proof -
  obtain t q d where d: "a_rdtsc A (unit s) = (t, q, d)" by (cases "a_rdtsc A (unit s)")
  then have "ata_tick (view (unit s)) q (view d)" using assms unfolding ata_ok_def by blast
  then show ?thesis using that [of q] d ata_inb(1,2) [OF assms, of _ "s\<lparr>unit := d\<rparr>"]
    by (cases q) (simp_all add: rdtsc_def ide0_handle_def ide1_handle_def Let_def)
qed

text \<open>The states the driver goes through: what it sees of the drive and the flag its interrupt sets.\<close>

definition seen :: "('d \<Rightarrow> ata_view) \<Rightarrow> (ata_view \<Rightarrow> bool \<Rightarrow> bool) \<Rightarrow> 'd ide \<Rightarrow> bool" where
  "seen view Q s \<longleftrightarrow> Q (view (unit s)) (ide_intflg s = IDE_GET_INT)"

lemma kept_seen:
  assumes "ata_ok A view p" and "\<And>v i q v'. Q v i \<Longrightarrow> ata_tick v q v' \<Longrightarrow> Q v' (i \<or> q \<noteq> No_irq)"
  shows "kept A (seen view Q)"
  unfolding kept_def
proof (intro allI impI conjI)
  fix s assume s: "seen view Q s"
  obtain q where "ata_tick (view (unit s)) q (view (unit (snd (rdtsc A s))))"
    "ide_intflg (snd (rdtsc A s)) = (if q = No_irq then ide_intflg s else IDE_GET_INT)" by (rule ata_rdtsc [OF assms(1)])
  with s show "seen view Q (snd (rdtsc A s))" using assms(2) [of "view (unit s)" "ide_intflg s = IDE_GET_INT" q]
    by (auto simp: seen_def split: if_splits)
  show "seen view Q (snd (ide_inb A port s))" for port using s by (simp add: seen_def ata_inb [OF assms(1)])
  show "seen view Q (ide_message x s)" for x using s by (simp add: seen_def ide_message_def)
qed

text \<open>The three waits: for an idle drive, for room for the data, and for the interrupt after a command or after the data.\<close>

abbreviation quiet_at :: "ata_view \<Rightarrow> ata_view \<Rightarrow> bool \<Rightarrow> bool" where
  "quiet_at V v i \<equiv> v = V \<and> \<not> i"

abbreviation room_at :: "ata_view \<Rightarrow> sector_id \<Rightarrow> ata_view \<Rightarrow> bool \<Rightarrow> bool" where
  "room_at V a v i \<equiv> (v = V\<lparr>ata_phase := Preparing a\<rparr> \<or> v = V\<lparr>ata_phase := Writable a\<rparr>) \<and> \<not> i"

abbreviation data_at :: "ata_view \<Rightarrow> sector_id \<Rightarrow> ata_view \<Rightarrow> bool \<Rightarrow> bool" where
  "data_at V a v i \<equiv> v = (if i then V\<lparr>ata_phase := Readable a\<rparr> else V\<lparr>ata_phase := Reading a\<rparr>)"

abbreviation saved_at :: "ata_view \<Rightarrow> sector_id \<Rightarrow> u8 list \<Rightarrow> ata_view \<Rightarrow> bool \<Rightarrow> bool" where
  "saved_at V a bs v i \<equiv>
     v = (if i then V\<lparr>ata_phase := Idle, ata_sectors := (ata_sectors V)(a := bs)\<rparr> else V\<lparr>ata_phase := Saving a bs\<rparr>)"

lemma kept_waits:
  assumes "ata_ok A view p"
  shows "ata_phase V = Idle \<Longrightarrow> kept A (seen view (quiet_at V))" and "kept A (seen view (room_at V a))"
    and "kept A (seen view (data_at V a))" and "kept A (seen view (saved_at V a bs))"
  by (rule kept_seen [OF assms]; auto elim!: ata_tickE split: if_splits)+

text \<open>The address of a sector as the driver writes it into the registers.\<close>

definition sector_at :: "ide_device_status \<Rightarrow> u32 \<Rightarrow> sector_id" where
  "sector_at pids lba = (let c = sector_cmd pids lba 0 in (c_lba_low c, c_lba_mid c, c_lba_high c, c_device c))"

lemma ata_taskfile:
  assumes "ata_ok A view p" and "ata_phase (view d) = Idle" and "port \<noteq> reg_sc p"
    and "port \<in> {reg_ef p, reg_count p, reg_lba_low p, reg_lba_mid p, reg_lba_high p, reg_device p} \<or> port = reg_ad p \<and> b = 0"
  shows "view (a_outb A port b d) = (view d)\<lparr>ata_regs := (ata_regs (view d))(port := b)\<rparr>"
proof -
  have "ata_written p port b (view d) = Some ((view d)\<lparr>ata_regs := (ata_regs (view d))(port := b)\<rparr>)"
    using assms(2,3,4) by (auto simp: ata_written_def)
  then show ?thesis using assms(1) unfolding ata_ok_def by blast
qed

definition port_map :: "ide_ctl_ioport \<Rightarrow> bool" where
  "port_map p \<longleftrightarrow> distinct [reg_sc p, reg_device p, reg_lba_high p, reg_lba_mid p, reg_lba_low p, reg_count p, reg_ef p, reg_ad p]"

lemma port_map: "p = ide_primary \<or> p = ide_secondy \<Longrightarrow> port_map p"
  by (auto simp: port_map_def ide_primary_def ide_secondy_def)

lemma taskfile_written:
  assumes ok: "ata_ok A view p" and "port_map p" and "ata_phase (view d) = Idle"
    and "d' = a_outb A (reg_device p) dv (a_outb A (reg_lba_high p) hi (a_outb A (reg_lba_mid p) mi (a_outb A (reg_lba_low p) lo
      (a_outb A (reg_count p) n (a_outb A (reg_ef p) f (a_outb A (reg_ad p) 0 d))))))"
  shows "\<exists>r. view d' = (view d)\<lparr>ata_regs := r\<rparr> \<and> r (reg_count p) = n \<and> sector_regs p r = (lo, mi, hi, dv)"
proof -
  note step = ata_taskfile [OF ok]
  have "view (a_outb A (reg_ad p) 0 e) = (view e)\<lparr>ata_regs := (ata_regs (view e))(reg_ad p := 0)\<rparr>"
    "view (a_outb A (reg_ef p) b e) = (view e)\<lparr>ata_regs := (ata_regs (view e))(reg_ef p := b)\<rparr>"
    "view (a_outb A (reg_count p) b e) = (view e)\<lparr>ata_regs := (ata_regs (view e))(reg_count p := b)\<rparr>"
    "view (a_outb A (reg_lba_low p) b e) = (view e)\<lparr>ata_regs := (ata_regs (view e))(reg_lba_low p := b)\<rparr>"
    "view (a_outb A (reg_lba_mid p) b e) = (view e)\<lparr>ata_regs := (ata_regs (view e))(reg_lba_mid p := b)\<rparr>"
    "view (a_outb A (reg_lba_high p) b e) = (view e)\<lparr>ata_regs := (ata_regs (view e))(reg_lba_high p := b)\<rparr>"
    "view (a_outb A (reg_device p) b e) = (view e)\<lparr>ata_regs := (ata_regs (view e))(reg_device p := b)\<rparr>"
    if "ata_phase (view e) = Idle" for e b
    using assms(2) by (auto intro!: step [OF that] simp: port_map_def)
  then have "view d' = (view d)\<lparr>ata_regs := (ata_regs (view d))(reg_ad p := 0, reg_ef p := f, reg_count p := n, reg_lba_low p := lo,
      reg_lba_mid p := mi, reg_lba_high p := hi, reg_device p := dv)\<rparr>"
    using assms(3) by (simp add: assms(4))
  then show ?thesis using assms(2) by (auto simp: sector_regs_def port_map_def)
qed

lemma ata_transfer:
  assumes "ata_ok A view p"
  shows "ata_phase (view d) = Readable a \<Longrightarrow> a_inputs A (reg_data p) 512 d = (bs, d') \<Longrightarrow>
      bs = ata_sectors (view d) a \<and> view d' = (view d)\<lparr>ata_phase := Idle\<rparr>"
    and "ata_phase (view d) = Writable a \<Longrightarrow> length bs = 512 \<Longrightarrow>
      view (a_outputs A (reg_data p) bs d) = (view d)\<lparr>ata_phase := Saving a bs\<rparr>"
  using assms unfolding ata_ok_def by blast+

lemma ata_command:
  assumes "ata_ok A view p" and "ata_phase (view d) = Idle" and "ata_regs (view d) (reg_count p) = 1"
  shows "view (a_outb A (reg_sc p) 0x20 d) = (view d)\<lparr>ata_phase := Reading (sector_regs p (ata_regs (view d)))\<rparr>"
    and "view (a_outb A (reg_sc p) 0x30 d) = (view d)\<lparr>ata_phase := Preparing (sector_regs p (ata_regs (view d)))\<rparr>"
proof -
  have "ata_written p (reg_sc p) 0x20 (view d) = Some ((view d)\<lparr>ata_phase := Reading (sector_regs p (ata_regs (view d)))\<rparr>)"
    "ata_written p (reg_sc p) 0x30 (view d) = Some ((view d)\<lparr>ata_phase := Preparing (sector_regs p (ata_regs (view d)))\<rparr>)"
    using assms(2,3) by (simp_all add: ata_written_def)
  then show "view (a_outb A (reg_sc p) 0x20 d) = (view d)\<lparr>ata_phase := Reading (sector_regs p (ata_regs (view d)))\<rparr>"
    "view (a_outb A (reg_sc p) 0x30 d) = (view d)\<lparr>ata_phase := Preparing (sector_regs p (ata_regs (view d)))\<rparr>"
    using assms(1) unfolding ata_ok_def by blast+
qed

text \<open>A command that was issued to an idle drive has the drive work on the sector that was asked for.\<close>

lemma command_issued:
  assumes ok: "ata_ok A view p" and "p = ide_primary \<or> p = ide_secondy" and s: "ata_phase (view (unit s)) = Idle" "ide_intflg s \<noteq> IDE_GET_INT"
    and e: "ide_exec_cmd A (Some p) (Some (sector_cmd pids lba c)) s = Some (1, s')"
  shows "waited s s' \<and> ide_intflg s' \<noteq> IDE_GET_INT" (is ?W)
    and "\<exists>r. (c = 0x20 \<longrightarrow> view (unit s') = (view (unit s))\<lparr>ata_regs := r, ata_phase := Reading (sector_at pids lba)\<rparr>) \<and>
      (c = 0x30 \<longrightarrow> view (unit s') = (view (unit s))\<lparr>ata_regs := r, ata_phase := Preparing (sector_at pids lba)\<rparr>)" (is ?V)
proof -
  obtain r t where t: "ide_wait_status A p IDES_BUSY 0 IDE_MAX_IODELAY s = Some (r, t)" "r \<noteq> 0"
    using e by (auto simp: ide_exec_cmd_def split: option.splits if_splits)
  have "seen view (quiet_at (view (unit s))) t"
    by (rule ide_wait_status_kept(1) [OF t(1) kept_waits(1) [OF ok s(1)]]) (use s(2) in \<open>simp add: seen_def\<close>)
  then have q: "view (unit t) = view (unit s)" "ide_intflg t \<noteq> IDE_GET_INT" by (simp_all add: seen_def)
  have w: "waited s t" by (rule ide_wait_status_kept(1) [OF t(1) kept_waited waited_refl])
  show ?W using e t q w by (auto simp: ide_exec_cmd_def ide_outb_def Let_def)
  let ?c = "sector_cmd pids lba c"
  define d where "d = a_outb A (reg_device p) (c_device ?c) (a_outb A (reg_lba_high p) (c_lba_high ?c)
    (a_outb A (reg_lba_mid p) (c_lba_mid ?c) (a_outb A (reg_lba_low p) (c_lba_low ?c) (a_outb A (reg_count p) 1
      (a_outb A (reg_ef p) 0 (a_outb A (reg_ad p) 0 (unit t)))))))"
  have "\<exists>r. view d = (view (unit t))\<lparr>ata_regs := r\<rparr> \<and> r (reg_count p) = 1 \<and> sector_regs p r = sector_at pids lba"
    using taskfile_written [OF ok port_map [OF assms(2)] _ d_def] s(1) q(1) by (simp add: sector_at_def sector_cmd_def Let_def)
  then have d: "\<exists>r. view d = (view (unit s))\<lparr>ata_regs := r\<rparr> \<and> r (reg_count p) = 1 \<and> sector_regs p r = sector_at pids lba"
    by (simp only: q(1))
  have "unit s' = a_outb A (reg_sc p) c d"
    using e t by (auto simp: ide_exec_cmd_def ide_outb_def Let_def d_def sector_cmd_def)
  then show ?V using d s(1) ata_command [OF ok, of d] by auto
qed

lemma length_read_bytes [simp]: "length (read_bytes p n m) = n"
  by (simp add: read_bytes_def)

lemma channel_lock_frame: "channel_lock pids s = Some (Some s') \<Longrightarrow> unit s' = unit s \<and> ide_mem s' = ide_mem s \<and> ide_intflg s' = ide_intflg s"
  by (auto simp: channel_lock_def split: if_splits)

lemma channel_unlock_frame [simp]: "unit (channel_unlock pids s) = unit s" "ide_mem (channel_unlock pids s) = ide_mem s"
  "ide_intflg (channel_unlock pids s) = ide_intflg s"
  by (simp_all add: channel_unlock_def)

lemma ide_exec_cmd_result: "ide_exec_cmd A p c s = Some (r, s') \<Longrightarrow> r = 0 \<or> r = 1"
  by (auto simp: ide_exec_cmd_def Let_def split: option.splits if_splits)

lemma write_body_cases:
  assumes "write_body A pids lba ptr s = Some (1, s')" and "ide_port_w pids = Some p"
  obtains s1 r s2 r' where "ide_exec_cmd A (Some p) (Some (sector_cmd pids lba IDEC_WRITESECTORS)) s = Some (1, s1)"
    and "ide_wait_status A p IDES_REQESTDATA IDES_REQESTDATA IDE_MAX_IODELAY s1 = Some (r, s2)" and "r \<noteq> 0"
    and "ide_wait_interrupt A IDE_MAX_IODELAY (s2\<lparr>unit := a_outputs A (reg_data p) (read_bytes ptr 512 (ide_mem s2)) (unit s2)\<rparr>) = Some (r', s')"
    and "r' \<noteq> 0"
  using assms ide_exec_cmd_result
  by (fastforce simp: write_body_def SECTOR_BYTES_def Let_def split: option.splits if_splits)

lemma read_body_cases:
  assumes "read_body A pids lba ptr s = Some (1, s')" and "ide_port_r pids = Some p"
  obtains s1 r s2 bs d where "ide_exec_cmd A (Some p) (Some (sector_cmd pids lba IDEC_READSECTORS)) s = Some (1, s1)"
    and "ide_wait_interrupt A IDE_MAX_IODELAY s1 = Some (r, s2)" and "r \<noteq> 0" and "a_inputs A (reg_data p) 512 (unit s2) = (bs, d)"
    and "s' = s2\<lparr>unit := d, ide_mem := store_bytes ptr bs (ide_mem s2)\<rparr>"
  using assms ide_exec_cmd_result
  by (fastforce simp: read_body_def SECTOR_BYTES_def Let_def split: option.splits if_splits prod.splits)

text \<open>Between two commands: the drive is idle and no interrupt is noted.\<close>

definition at_rest :: "('d \<Rightarrow> ata_view) \<Rightarrow> 'd ide \<Rightarrow> bool" where
  "at_rest view s \<longleftrightarrow> ata_phase (view (unit s)) = Idle \<and> ide_intflg s \<noteq> IDE_GET_INT"

lemma data_requested: "(IDES_REQESTDATA :: cint) = (ucast (b :: u8) AND IDES_REQESTDATA) \<Longrightarrow> bit b 3"
proof -
  have m: "IDES_REQESTDATA = push_bit 3 1" by (simp add: IDES_REQESTDATA_def)
  assume "(IDES_REQESTDATA :: cint) = (ucast b AND IDES_REQESTDATA)"
  then have "bit (IDES_REQESTDATA :: cint) 3 = bit (ucast b AND IDES_REQESTDATA :: cint) 3" by simp
  then show ?thesis unfolding m by (simp add: bit_simps)
qed

lemma ide_write_effect:
  assumes ok: "ata_ok A view p" and p: "p = ide_primary \<or> p = ide_secondy" and "ide_port_w pids = Some p" and rest: "at_rest view s"
    and "ide_write_sct A pids lba ptr s = Some (1, s')"
  shows "ata_sectors (view (unit s')) = (ata_sectors (view (unit s)))(sector_at pids lba := read_bytes ptr 512 (ide_mem s))"
    and "ide_mem s' = ide_mem s" and "at_rest view s'"
proof -
  obtain s0 t where s0: "channel_lock pids s = Some (Some s0)" and t: "write_body A pids lba ptr s0 = Some (1, t)" "s' = channel_unlock pids t"
    using assms(5) by (auto simp: ide_write_sct_def split: option.splits)
  note f = channel_lock_frame [OF s0]
  from t(1) assms(3) obtain s1 r s2 r' where 1: "ide_exec_cmd A (Some p) (Some (sector_cmd pids lba IDEC_WRITESECTORS)) s0 = Some (1, s1)"
    and 2: "ide_wait_status A p IDES_REQESTDATA IDES_REQESTDATA IDE_MAX_IODELAY s1 = Some (r, s2)" "r \<noteq> 0"
    and 3: "ide_wait_interrupt A IDE_MAX_IODELAY (s2\<lparr>unit := a_outputs A (reg_data p) (read_bytes ptr 512 (ide_mem s2)) (unit s2)\<rparr>) = Some (r', t)"
      "r' \<noteq> 0"
    by (rule write_body_cases)
  let ?a = "sector_at pids lba" let ?bs = "read_bytes ptr 512 (ide_mem s)"
  have r0: "ata_phase (view (unit s0)) = Idle" "ide_intflg s0 \<noteq> IDE_GET_INT" using rest f by (simp_all add: at_rest_def)
  obtain R where v1: "view (unit s1) = (view (unit s))\<lparr>ata_regs := R, ata_phase := Preparing ?a\<rparr>"
    using command_issued(2) [OF ok p r0 1] f by (auto simp: IDEC_WRITESECTORS_def)
  have w1: "waited s0 s1" "ide_intflg s1 \<noteq> IDE_GET_INT" using command_issued(1) [OF ok p r0 1] by simp_all
  let ?V = "(view (unit s))\<lparr>ata_regs := R\<rparr>"
  have "seen view (room_at ?V ?a) s1" using v1 w1(2) by (simp add: seen_def)
  note k2 = ide_wait_status_kept [OF 2(1) kept_waits(2) [OF ok] this]
  obtain t2 b where b: "ide_inb A (reg_sc p) t2 = (b, s2)" "IDES_REQESTDATA = (ucast b AND IDES_REQESTDATA)" using k2(3) 2(2) by blast
  have "view (unit s2) = view (unit t2)" "ata_status (ata_phase (view (unit t2))) b" using ata_inb(1) [OF ok, of "reg_sc p" t2] ata_inb(3) [OF ok, of t2] b(1) by simp_all
  moreover have "bit b 3" by (rule data_requested [OF b(2)])
  ultimately have v2: "view (unit s2) = ?V\<lparr>ata_phase := Writable ?a\<rparr>" "ide_intflg s2 \<noteq> IDE_GET_INT"
    using k2(1) by (auto simp: seen_def ata_status_def)
  have m2: "ide_mem s2 = ide_mem s"
    using ide_wait_status_kept(1) [OF 2(1) kept_waited waited_refl] w1(1) f by (simp add: waited_def)
  let ?s3 = "s2\<lparr>unit := a_outputs A (reg_data p) (read_bytes ptr 512 (ide_mem s2)) (unit s2)\<rparr>"
  have "view (a_outputs A (reg_data p) ?bs (unit s2)) = (view (unit s2))\<lparr>ata_phase := Saving ?a ?bs\<rparr>"
    by (rule ata_transfer(2) [OF ok]) (simp_all add: v2(1))
  then have "seen view (saved_at ?V ?a ?bs) ?s3" using v2 m2 by (simp add: seen_def)
  from ide_wait_interrupt_kept [OF 3(1) kept_waits(4) [OF ok] this] 3(2)
  have v3: "view (unit t) = ?V\<lparr>ata_phase := Idle, ata_sectors := (ata_sectors ?V)(?a := ?bs)\<rparr>" "ide_intflg t = IDE_NO_INT"
    by (auto simp: seen_def)
  have "ide_mem t = ide_mem s2" using ide_wait_interrupt_kept [OF 3(1) kept_waited waited_refl] by (auto simp: waited_def)
  then show "ata_sectors (view (unit s')) = (ata_sectors (view (unit s)))(?a := ?bs)" "ide_mem s' = ide_mem s" "at_rest view s'"
    using v3 m2 t(2) by (simp_all add: at_rest_def IDE_NO_INT_def IDE_GET_INT_def)
qed

lemma ide_read_effect:
  assumes ok: "ata_ok A view p" and p: "p = ide_primary \<or> p = ide_secondy" and "ide_port_r pids = Some p" and rest: "at_rest view s"
    and "ide_read_sct A pids lba ptr s = Some (1, s')"
  shows "ide_mem s' = store_bytes ptr (ata_sectors (view (unit s)) (sector_at pids lba)) (ide_mem s)"
    and "ata_sectors (view (unit s')) = ata_sectors (view (unit s))" and "at_rest view s'"
proof -
  obtain s0 t where s0: "channel_lock pids s = Some (Some s0)" and t: "read_body A pids lba ptr s0 = Some (1, t)" "s' = channel_unlock pids t"
    using assms(5) by (auto simp: ide_read_sct_def split: option.splits)
  note f = channel_lock_frame [OF s0]
  from t(1) assms(3) obtain s1 r s2 bs d where 1: "ide_exec_cmd A (Some p) (Some (sector_cmd pids lba IDEC_READSECTORS)) s0 = Some (1, s1)"
    and 2: "ide_wait_interrupt A IDE_MAX_IODELAY s1 = Some (r, s2)" "r \<noteq> 0" and 3: "a_inputs A (reg_data p) 512 (unit s2) = (bs, d)"
    and 4: "t = s2\<lparr>unit := d, ide_mem := store_bytes ptr bs (ide_mem s2)\<rparr>"
    by (rule read_body_cases)
  let ?a = "sector_at pids lba"
  have r0: "ata_phase (view (unit s0)) = Idle" "ide_intflg s0 \<noteq> IDE_GET_INT" using rest f by (simp_all add: at_rest_def)
  obtain R where v1: "view (unit s1) = (view (unit s))\<lparr>ata_regs := R, ata_phase := Reading ?a\<rparr>"
    using command_issued(2) [OF ok p r0 1] f by (auto simp: IDEC_READSECTORS_def)
  have w1: "waited s0 s1" "ide_intflg s1 \<noteq> IDE_GET_INT" using command_issued(1) [OF ok p r0 1] by simp_all
  let ?V = "(view (unit s))\<lparr>ata_regs := R\<rparr>"
  have "seen view (data_at ?V ?a) s1" using v1 w1(2) by (simp add: seen_def)
  from ide_wait_interrupt_kept [OF 2(1) kept_waits(3) [OF ok] this] 2(2)
  have v2: "view (unit s2) = ?V\<lparr>ata_phase := Readable ?a\<rparr>" "ide_intflg s2 = IDE_NO_INT" by (auto simp: seen_def)
  have m2: "ide_mem s2 = ide_mem s"
    using ide_wait_interrupt_kept [OF 2(1) kept_waited waited_refl] w1(1) f by (auto simp: waited_def)
  have "ata_phase (view (unit s2)) = Readable ?a" using v2(1) by simp
  from ata_transfer(1) [OF ok this 3] have "bs = ata_sectors (view (unit s2)) ?a" "view d = (view (unit s2))\<lparr>ata_phase := Idle\<rparr>" by simp_all
  then show "ide_mem s' = store_bytes ptr (ata_sectors (view (unit s)) ?a) (ide_mem s)"
    "ata_sectors (view (unit s')) = ata_sectors (view (unit s))" "at_rest view s'"
    using v2 m2 4 t(2) by (simp_all add: at_rest_def IDE_NO_INT_def IDE_GET_INT_def)
qed

section \<open>The address\<close>

definition join_lba :: "u8 \<times> u8 \<times> u8 \<times> u8 \<Rightarrow> u32" where
  "join_lba x = (case x of (a, b, c, d) \<Rightarrow> ucast a OR push_bit 8 (ucast b) OR push_bit 16 (ucast c) OR push_bit 24 (ucast d AND 0x0F))"

lemma lba_masks: "(0x000000FF :: u32) = mask 8" "(0x0000FF00 :: u32) = push_bit 8 (mask 8)" "(0x00FF0000 :: u32) = push_bit 16 (mask 8)"
  "(0x0F :: u32) = mask 4" "(0x0FFFFFFF :: u32) = mask 28"
  by (simp_all add: mask_eq_exp_minus_1)

lemma bit_A0: "bit (0xA0 :: u32) n \<longleftrightarrow> n = 5 \<or> n = 7"
proof -
  have m: "(0xA0 :: u32) = push_bit 5 1 OR push_bit 7 1" by simp
  show ?thesis unfolding m by (simp only: bit_or_iff bit_push_bit_iff bit_1_iff) auto
qed

lemma MAKEDEV_bits: "n < 8 \<Longrightarrow> bit (MAKEDEV h drv) n \<longleftrightarrow> 4 \<le> n \<and> bit drv (n - 4) \<or> n < 4 \<and> bit h n \<or> n = 5 \<or> n = 7"
  unfolding MAKEDEV_def lba_masks
  by (simp only: bit_or_iff bit_push_bit_iff bit_and_iff bit_mask_iff bit_A0) auto

lemma device_bits:
  "bit (ucast (MAKEDEV h drv) :: u8) n \<longleftrightarrow> n < 8 \<and> (4 \<le> n \<and> bit drv (n - 4) \<or> n < 4 \<and> bit h n \<or> n = 5 \<or> n = 7)"
  by (auto simp: bit_ucast_iff MAKEDEV_bits)

lemma device_low: "(ucast (ucast (MAKEDEV h drv) :: u8) :: u32) AND 0x0F = h AND 0x0F"
  unfolding lba_masks
proof (rule bit_word_eqI, goal_cases)
  case (1 n)
  then show ?case by (simp only: bit_and_iff bit_ucast_iff bit_mask_iff) (auto simp: MAKEDEV_bits)
qed

lemma join_sector_at: "join_lba (sector_at pids lba) = lba AND 0x0FFFFFFF"
  unfolding join_lba_def sector_at_def sector_cmd_def Let_def prod.case ide_cmd_struct.select_convs device_low
  unfolding lba_masks
proof (rule bit_word_eqI, goal_cases)
  case (1 n)
  then consider "n < 8" | "8 \<le> n" "n < 16" | "16 \<le> n" "n < 24" | "24 \<le> n" "n < 32" by fastforce
  then show ?case by cases (auto simp: bit_simps)
qed

lemma sector_at_masked: "sector_at pids (lba AND 0x0FFFFFFF) = sector_at pids lba"
proof -
  have parts: "(x AND 0x0FFFFFFF) AND 0x000000FF = x AND 0x000000FF" "(x AND 0x0FFFFFFF) AND 0x0000FF00 = x AND 0x0000FF00"
    "(x AND 0x0FFFFFFF) AND 0x00FF0000 = x AND 0x00FF0000" "drop_bit 24 (x AND 0x0FFFFFFF) AND 0x0F = drop_bit 24 x AND 0x0F" for x :: u32
    unfolding lba_masks by (rule bit_word_eqI; auto simp: bit_simps)+
  show ?thesis unfolding sector_at_def sector_cmd_def parts ..
qed

lemma sector_at_eq_iff: "sector_at pids lba = sector_at pids lba' \<longleftrightarrow> lba AND 0x0FFFFFFF = lba' AND 0x0FFFFFFF"
  by (metis join_sector_at sector_at_masked)


text \<open>The command block carries the low 28 bits of the sector address and the right drive bit, but the bit
  that selects LBA addressing is never set.\<close>

theorem ide_address_mode:
  "join_lba (sector_at pids lba) = lba AND 0x0FFFFFFF \<and> \<not> bit (c_device (sector_cmd pids lba cmd)) 6 \<and>
   (bit (c_device (sector_cmd pids lba cmd)) 4 \<longleftrightarrow> bit (ide_dev_mask pids) 0)"
proof -
  have "IDE_SLAVE_MASK AND ide_dev_mask pids \<noteq> 0 \<longleftrightarrow> bit (ide_dev_mask pids) 0"
    by (simp add: IDE_SLAVE_MASK_def one_and_eq bit_0 mod2_eq_if)
  then have "bit (c_device (sector_cmd pids lba cmd)) 4 \<longleftrightarrow> bit (ide_dev_mask pids) 0" "\<not> bit (c_device (sector_cmd pids lba cmd)) 6"
    by (simp_all add: sector_cmd_def device_bits bit_1_iff)
  then show ?thesis using join_sector_at by blast
qed

section \<open>Termination\<close>

text \<open>The counter advances with every reading, by at most 2 ^ 32, and a port read takes no longer.\<close>

definition clock_ok :: "'d ata \<Rightarrow> ('d \<Rightarrow> nat) \<Rightarrow> bool" where
  "clock_ok A clk \<longleftrightarrow>
     (\<forall>d t q d'. a_rdtsc A d = (t, q, d') \<longrightarrow> t = of_nat (clk d') \<and> clk d < clk d' \<and> clk d' \<le> clk d + 2 ^ 32) \<and>
     (\<forall>port d v d'. a_inb A port d = (v, d') \<longrightarrow> clk d \<le> clk d' \<and> clk d' \<le> clk d + 2 ^ 32)"

lemma clock_rdtsc: "clock_ok A clk \<Longrightarrow> a_rdtsc A d = (t, q, d') \<Longrightarrow> t = of_nat (clk d') \<and> clk d < clk d' \<and> clk d' \<le> clk d + 2 ^ 32"
  unfolding clock_ok_def by blast

lemma clock_inb: "clock_ok A clk \<Longrightarrow> clk (unit s) \<le> clk (unit (snd (ide_inb A port s))) \<and> clk (unit (snd (ide_inb A port s))) \<le> clk (unit s) + 2 ^ 32"
  by (cases "a_inb A port (unit s)") (simp add: ide_inb_def clock_ok_def)

lemma rdtsc_clock:
  assumes "clock_ok A clk"
  obtains c where "fst (rdtsc A s) = of_nat c" "clk (unit s) < c" "c \<le> clk (unit s) + 2 ^ 32" "c \<le> clk (unit (snd (rdtsc A s)))"
    "clk (unit (snd (rdtsc A s))) \<le> c + 2 ^ 32"
proof -
  obtain t q d where d: "a_rdtsc A (unit s) = (t, q, d)" by (cases "a_rdtsc A (unit s)")
  have i: "clk d \<le> clk (unit (snd (ide_inb A port (s\<lparr>unit := d\<rparr>)))) \<and> clk (unit (snd (ide_inb A port (s\<lparr>unit := d\<rparr>)))) \<le> clk d + 2 ^ 32" for port
    using clock_inb [OF assms, of "s\<lparr>unit := d\<rparr>" port] by simp
  show ?thesis using that [of "clk d"] clock_rdtsc [OF assms d] d i
    by (cases q) (simp_all add: rdtsc_def ide0_handle_def ide1_handle_def Let_def)
qed

lemma elapsed: "c0 \<le> c \<Longrightarrow> c < c0 + 2 ^ 64 \<Longrightarrow> (of_nat c - of_nat c0 :: u64) < tt \<longleftrightarrow> c - c0 < unat tt"
  by (simp add: word_less_nat_alt unat_of_nat flip: of_nat_diff)

lemma wait_int_loop_ends:
  assumes "clock_ok A clk" and "unat tt \<le> 2 ^ 38" and "c0 \<le> clk (unit s)" and "clk (unit s) \<le> c0 + 2 ^ 39"
  shows "\<exists>s'. wait_int_loop A (of_nat c0) tt s = Some s'"
  using assms(3,4)
proof (induction "c0 + unat tt - clk (unit s)" arbitrary: s rule: less_induct)
  case less
  obtain c where c: "fst (rdtsc A s) = of_nat c" "clk (unit s) < c" "c \<le> clk (unit s) + 2 ^ 32" "c \<le> clk (unit (snd (rdtsc A s)))"
    "clk (unit (snd (rdtsc A s))) \<le> c + 2 ^ 32" by (rule rdtsc_clock [OF assms(1)])
  then have e: "fst (rdtsc A s) - of_nat c0 < tt \<longleftrightarrow> c - c0 < unat tt" using elapsed [of c0 c tt] less.prems by simp
  show ?case
  proof (cases "fst (rdtsc A s) - of_nat c0 < tt \<and> ide_intflg (snd (rdtsc A s)) \<noteq> IDE_GET_INT")
    case True
    then have "\<exists>s'. wait_int_loop A (of_nat c0) tt (snd (rdtsc A s)) = Some s'"
      using c e less.prems assms(2) by (intro less.hyps) auto
    then show ?thesis using True by (subst wait_int_loop.simps) (simp add: split_beta)
  next
    case False
    then show ?thesis by (subst wait_int_loop.simps) (auto simp: split_beta)
  qed
qed

lemma wait_status_loop_ends:
  assumes "clock_ok A clk" and "unat tt \<le> 2 ^ 38" and "c0 \<le> clk (unit s)" and "clk (unit s) \<le> c0 + 2 ^ 39"
  shows "\<exists>rs. wait_status_loop A port msk val tt (of_nat c0) sv s = Some rs"
  using assms(3,4)
proof (induction "c0 + unat tt - clk (unit s)" arbitrary: s sv rule: less_induct)
  case less
  let ?s1 = "snd (rdtsc A s)" let ?s2 = "snd (ide_inb A port ?s1)"
  obtain c where c: "fst (rdtsc A s) = of_nat c" "clk (unit s) < c" "c \<le> clk (unit s) + 2 ^ 32" "c \<le> clk (unit ?s1)"
    "clk (unit ?s1) \<le> c + 2 ^ 32" by (rule rdtsc_clock [OF assms(1)])
  then have e: "fst (rdtsc A s) - of_nat c0 < tt \<longleftrightarrow> c - c0 < unat tt" using elapsed [of c0 c tt] less.prems by simp
  show ?case
  proof (cases "fst (rdtsc A s) - of_nat c0 < tt")
    case True
    have "\<exists>rs. wait_status_loop A port msk val tt (of_nat c0) (fst (ide_inb A port ?s1)) ?s2 = Some rs"
      using c e less.prems assms(2) True clock_inb [OF assms(1), of ?s1 port] by (intro less.hyps) auto
    then show ?thesis using True by (subst wait_status_loop.simps) (auto simp: split_beta)
  next
    case False
    then show ?thesis by (subst wait_status_loop.simps) (simp add: split_beta)
  qed
qed

lemma ide_wait_status_returns:
  assumes "clock_ok A clk"
  shows "ide_wait_status A p msk val IDE_MAX_IODELAY s \<noteq> None"
proof -
  obtain c where c: "fst (rdtsc A s) = of_nat c" "c \<le> clk (unit (snd (rdtsc A s)))" "clk (unit (snd (rdtsc A s))) \<le> c + 2 ^ 32"
    by (rule rdtsc_clock [OF assms])
  then show ?thesis
    using wait_status_loop_ends [OF assms, of "ucast IDE_MAX_IODELAY * 1000" c "snd (rdtsc A s)" "reg_sc p" msk val 0]
    by (simp add: ide_wait_status_def split_beta IDE_MAX_IODELAY_def)
qed

lemma ide_wait_interrupt_returns:
  assumes "clock_ok A clk"
  shows "ide_wait_interrupt A IDE_MAX_IODELAY s \<noteq> None"
proof -
  obtain c where c: "fst (rdtsc A s) = of_nat c" "c \<le> clk (unit (snd (rdtsc A s)))" "clk (unit (snd (rdtsc A s))) \<le> c + 2 ^ 32"
    by (rule rdtsc_clock [OF assms])
  then show ?thesis
    using wait_int_loop_ends [OF assms, of "scast (IDE_MAX_IODELAY * 1000)" c "snd (rdtsc A s)"]
    by (auto simp: ide_wait_interrupt_def split_beta IDE_MAX_IODELAY_def word_sle_eq)
qed

definition same_locks :: "'d ide \<Rightarrow> 'd ide \<Rightarrow> bool" where
  "same_locks s s' \<longleftrightarrow> ide0_rwlck s' = ide0_rwlck s \<and> ide1_rwlck s' = ide1_rwlck s"

lemma exec_cmd_returns:
  assumes "clock_ok A clk"
  obtains r s' where "ide_exec_cmd A p c s = Some (r, s')" "waited s s'"
proof (cases "p = None \<or> c = None")
  case True
  then have "ide_exec_cmd A p c s = Some (0, s)" by (cases p; cases c) (simp_all add: ide_exec_cmd_def)
  then show ?thesis using that by simp
next
  case False
  then obtain q x where px: "p = Some q" "c = Some x" by auto
  obtain r s1 where w: "ide_wait_status A q IDES_BUSY 0 IDE_MAX_IODELAY s = Some (r, s1)"
    using ide_wait_status_returns [OF assms] by (metis not_None_eq surj_pair)
  have o: "waited s (ide_outb A port v s') \<longleftrightarrow> waited s s'" for port v s' by (simp add: waited_def ide_outb_def)
  have "waited s s1" by (rule ide_wait_status_kept(1) [OF w kept_waited waited_refl])
  then have "\<exists>r' s'. ide_exec_cmd A p c s = Some (r', s') \<and> waited s s'"
    using w px by (cases "r = 0") (simp_all add: ide_exec_cmd_def Let_def o)
  then show ?thesis using that by blast
qed

lemma read_body_returns:
  assumes "clock_ok A clk"
  shows "\<exists>r s'. read_body A pids lba ptr s = Some (r, s') \<and> r \<in> {0, 1} \<and> same_locks s s' \<and> (r = 0 \<longrightarrow> ide_mem s' = ide_mem s)"
proof -
  obtain r s1 where 1: "ide_exec_cmd A (ide_port_r pids) (Some (sector_cmd pids lba IDEC_READSECTORS)) s = Some (r, s1)" "waited s s1"
    by (rule exec_cmd_returns [OF assms])
  obtain q s2 where 2: "ide_wait_interrupt A IDE_MAX_IODELAY s1 = Some (q, s2)"
    using ide_wait_interrupt_returns [OF assms] by (metis not_None_eq surj_pair)
  have "waited s1 s2" using ide_wait_interrupt_kept [OF 2 kept_waited waited_refl] by auto
  then show ?thesis using 1 2
    by (auto simp: read_body_def Let_def split_beta same_locks_def waited_def ide_message_def)
qed

lemma write_body_returns:
  assumes "clock_ok A clk"
  shows "\<exists>r s'. write_body A pids lba ptr s = Some (r, s') \<and> r \<in> {0, 1} \<and> same_locks s s' \<and> ide_mem s' = ide_mem s"
proof -
  let ?p = "the (ide_port_w pids)"
  obtain r s1 where 1: "ide_exec_cmd A (ide_port_w pids) (Some (sector_cmd pids lba IDEC_WRITESECTORS)) s = Some (r, s1)" "waited s s1"
    by (rule exec_cmd_returns [OF assms])
  obtain q s2 where 2: "ide_wait_status A ?p IDES_REQESTDATA IDES_REQESTDATA IDE_MAX_IODELAY s1 = Some (q, s2)"
    using ide_wait_status_returns [OF assms] by (metis not_None_eq surj_pair)
  let ?s = "s2\<lparr>unit := a_outputs A (reg_data ?p) (read_bytes ptr SECTOR_BYTES (ide_mem s2)) (unit s2)\<rparr>"
  obtain v s3 where 3: "ide_wait_interrupt A IDE_MAX_IODELAY ?s = Some (v, s3)"
    using ide_wait_interrupt_returns [OF assms] by (metis not_None_eq surj_pair)
  have "waited s1 s2" by (rule ide_wait_status_kept(1) [OF 2 kept_waited waited_refl])
  moreover have "waited ?s s3" using ide_wait_interrupt_kept [OF 3 kept_waited waited_refl] by auto
  ultimately show ?thesis using 1 2 3 ide_wait_interrupt_kept [OF 3 kept_waited waited_refl]
    by (auto simp: write_body_def Let_def same_locks_def waited_def ide_message_def)
qed

lemma channel_lock_cases:
  assumes "ide0_rwlck s = unlocked" and "ide1_rwlck s = unlocked"
  obtains "channel_lock pids s = Some None" | s0 where "channel_lock pids s = Some (Some s0)" "ide_mem s0 = ide_mem s"
    "\<And>t. same_locks s0 t \<Longrightarrow> ide0_rwlck (channel_unlock pids t) = unlocked \<and> ide1_rwlck (channel_unlock pids t) = unlocked"
proof -
  consider "IDE_PRIMARY_MASK AND ide_dev_mask pids \<noteq> 0" |
    "IDE_PRIMARY_MASK AND ide_dev_mask pids = 0" "IDE_SECONDY_MASK AND ide_dev_mask pids \<noteq> 0" |
    "IDE_PRIMARY_MASK AND ide_dev_mask pids = 0" "IDE_SECONDY_MASK AND ide_dev_mask pids = 0" by blast
  then show ?thesis
  proof cases
    case 1
    then show ?thesis using assms that(2) [of "s\<lparr>ide0_rwlck := spinlock unlocked\<rparr>"]
      by (simp add: channel_lock_def channel_unlock_def same_locks_def)
  next
    case 2
    then show ?thesis using assms that(2) [of "s\<lparr>ide1_rwlck := spinlock unlocked\<rparr>"]
      by (simp add: channel_lock_def channel_unlock_def same_locks_def)
  next
    case 3
    then show ?thesis using that(1) by (simp add: channel_lock_def)
  qed
qed

text \<open>C23: Under a clock that advances, ide_read_sct and ide_write_sct return whatever the drive does,
  with 0 or 1, and release the lock of their channel.\<close>

theorem ide_sector_returns:
  assumes "clock_ok A clk" and "ide0_rwlck s = unlocked" and "ide1_rwlck s = unlocked"
  shows "(\<exists>r s'. ide_read_sct A pids lba ptr s = Some (r, s') \<and> r \<in> {0, 1} \<and> ide0_rwlck s' = unlocked \<and> ide1_rwlck s' = unlocked \<and>
      (r = 0 \<longrightarrow> ide_mem s' = ide_mem s)) \<and>
    (\<exists>r s'. ide_write_sct A pids lba ptr s = Some (r, s') \<and> r \<in> {0, 1} \<and> ide0_rwlck s' = unlocked \<and> ide1_rwlck s' = unlocked \<and>
      ide_mem s' = ide_mem s)"
proof -
  from assms(2,3) show ?thesis
  proof (cases rule: channel_lock_cases [where pids = pids])
    case 1
    then show ?thesis using assms(2,3) by (simp add: ide_read_sct_def ide_write_sct_def)
  next
    case (2 s0)
    then show ?thesis
      using read_body_returns [OF assms(1), of pids lba ptr s0] write_body_returns [OF assms(1), of pids lba ptr s0]
      by (auto simp: ide_read_sct_def ide_write_sct_def)
  qed
qed

section \<open>A disk that answers at once\<close>

text \<open>A drive that keeps the protocol and takes every step as soon as the counter is read; the counter ticks by one.\<close>

type_synonym demo_disk = "ata_view \<times> nat"

definition demo_step :: "ata_view \<Rightarrow> ide_irq \<times> ata_view" where
  "demo_step v =
     (case ata_phase v of
        Reading a \<Rightarrow> (Irq_ide0, v\<lparr>ata_phase := Readable a\<rparr>)
      | Preparing a \<Rightarrow> (No_irq, v\<lparr>ata_phase := Writable a\<rparr>)
      | Saving a bs \<Rightarrow> (Irq_ide0, v\<lparr>ata_phase := Idle, ata_sectors := (ata_sectors v)(a := bs)\<rparr>)
      | _ \<Rightarrow> (No_irq, v))"

definition demo_status :: "ata_phase \<Rightarrow> u8" where
  "demo_status ph = (case ph of Idle \<Rightarrow> 0x40 | Readable _ \<Rightarrow> 0x48 | Writable _ \<Rightarrow> 0x48 | _ \<Rightarrow> 0x80)"

definition demo_ata :: "demo_disk ata" where
  "demo_ata =
     \<lparr>a_rdtsc = (\<lambda>(v, n). (of_nat (Suc n), fst (demo_step v), snd (demo_step v), Suc n)),
      a_inb = (\<lambda>p (v, n). (if p = reg_sc ide_primary then demo_status (ata_phase v) else 0, v, n)),
      a_outb = (\<lambda>p b (v, n). (case ata_written ide_primary p b v of None \<Rightarrow> v | Some w \<Rightarrow> w, n)),
      a_inputs = (\<lambda>p k (v, n). case ata_phase v of
        Readable a \<Rightarrow> (ata_sectors v a, v\<lparr>ata_phase := Idle\<rparr>, n) | _ \<Rightarrow> (replicate k 0, v, n)),
      a_outputs = (\<lambda>p bs (v, n). (case ata_phase v of Writable a \<Rightarrow> v\<lparr>ata_phase := Saving a bs\<rparr> | _ \<Rightarrow> v, n))\<rparr>"

definition demo_unit :: ide_device_status where
  "demo_unit = \<lparr>devnum = 1, lba_start = 0, lba_end = 100, lba_cnt = 100, ide_dev_mask = 0x1010, ide_port_r = Some ide_primary,
     ide_port_w = Some ide_primary\<rparr>"

definition demo_ide :: "demo_disk ide" where
  "demo_ide = \<lparr>unit = (\<lparr>ata_phase = Idle, ata_regs = (\<lambda>_. 0), ata_sectors = (\<lambda>_. replicate 512 0)\<rparr>, 0), ide0_intflg = (\<lambda>_. 0),
     ide1_intflg = (\<lambda>_. 0), ide_intflg = 0, ide0_rwlck = unlocked, ide1_rwlck = unlocked, ide_mem = (\<lambda>a. ucast a), ide_dev = (\<lambda>_. demo_unit), ide_log = []\<rparr>"

lemma demo_step_tick: "ata_tick v (fst (demo_step v)) (snd (demo_step v))"
  by (cases "ata_phase v") (auto simp: demo_step_def intro: ata_tick.intros)

lemma demo_status_ok: "ata_status ph (demo_status ph)"
  by (cases ph) (simp_all add: ata_status_def demo_status_def)

lemma demo_ata_ok: "ata_ok demo_ata fst ide_primary"
  unfolding ata_ok_def demo_ata_def
  by (auto simp: demo_step_tick demo_status_ok split: ata_phase.splits)

lemma demo_clock_ok: "clock_ok demo_ata snd"
  by (auto simp: clock_ok_def demo_ata_def)

theorem ide_sector_returns_witness:
  "\<exists>r s'. ide_read_sct demo_ata demo_unit 5 0x1000 demo_ide = Some (r, s') \<and> r \<in> {0, 1} \<and> ide0_rwlck s' = unlocked"
  using ide_sector_returns [OF demo_clock_ok, of demo_ide demo_unit 5 "0x1000"] by (auto simp: demo_ide_def)

text \<open>A reading of the counter takes the drive one step further.\<close>

lemma demo_rdtsc:
  obtains s' where "rdtsc demo_ata s = (of_nat (Suc (snd (unit s))), s')" "unit s' = (snd (demo_step (fst (unit s))), Suc (snd (unit s)))"
    "ide_intflg s' = (if fst (demo_step (fst (unit s))) = No_irq then ide_intflg s else IDE_GET_INT)"
proof -
  have "fst (demo_step v) = No_irq \<or> fst (demo_step v) = Irq_ide0" for v by (cases "ata_phase v") (simp_all add: demo_step_def)
  then have "fst (rdtsc demo_ata s) = of_nat (Suc (snd (unit s)))" "unit (snd (rdtsc demo_ata s)) = (snd (demo_step (fst (unit s))), Suc (snd (unit s)))"
    "ide_intflg (snd (rdtsc demo_ata s)) = (if fst (demo_step (fst (unit s))) = No_irq then ide_intflg s else IDE_GET_INT)"
    by (auto simp: rdtsc_def demo_ata_def ide0_handle_def ide1_handle_def ide_inb_def Let_def split_beta split: ide_irq.split)
  then show ?thesis using that [of "snd (rdtsc demo_ata s)"] by (metis prod.collapse)
qed

lemma demo_wait_status:
  assumes "snd (demo_step (snd (demo_step (fst (unit s))))) = v" and "ucast (demo_status (ata_phase v)) AND msk = val"
  shows "\<exists>s'. ide_wait_status demo_ata ide_primary msk val IDE_MAX_IODELAY s = Some (1, s') \<and> fst (unit s') = v"
proof -
  obtain s1 where 1: "rdtsc demo_ata s = (of_nat (Suc (snd (unit s))), s1)" "unit s1 = (snd (demo_step (fst (unit s))), Suc (snd (unit s)))"
    by (rule demo_rdtsc)
  obtain s2 where 2: "rdtsc demo_ata s1 = (of_nat (Suc (snd (unit s1))), s2)" "unit s2 = (snd (demo_step (fst (unit s1))), Suc (snd (unit s1)))"
    by (rule demo_rdtsc)
  have "ide_inb demo_ata (reg_sc ide_primary) s2 = (demo_status (ata_phase v), s2)"
    using 1 2 assms by (simp add: ide_inb_def demo_ata_def)
  then show ?thesis using assms 1 2
    by (simp add: ide_wait_status_def IDE_MAX_IODELAY_def) (subst wait_status_loop.simps, simp)
qed

lemma demo_interrupt:
  assumes "fst (demo_step (fst (unit s))) = Irq_ide0"
  shows "\<exists>s'. ide_wait_interrupt demo_ata IDE_MAX_IODELAY s = Some (1, s')"
proof -
  obtain s1 where 1: "rdtsc demo_ata s = (of_nat (Suc (snd (unit s))), s1)" "ide_intflg s1 = IDE_GET_INT"
    using assms demo_rdtsc [of s] by (metis ide_irq.distinct(1))
  obtain s2 where 2: "rdtsc demo_ata s1 = (of_nat (Suc (snd (unit s1))), s2)" "ide_intflg s2 = IDE_GET_INT"
    using 1(2) demo_rdtsc [of s1] by metis
  have "wait_int_loop demo_ata start reffer s1 = Some s2" for start reffer
    using 2 by (subst wait_int_loop.simps) simp
  then show ?thesis using 1 2 by (simp add: ide_wait_interrupt_def IDE_MAX_IODELAY_def word_sle_eq)
qed

lemma demo_command:
  assumes "ata_phase (fst (unit s)) = Idle"
  shows "\<exists>s'. ide_exec_cmd demo_ata (Some ide_primary) (Some c) s = Some (1, s')"
proof -
  obtain s1 where "ide_wait_status demo_ata ide_primary IDES_BUSY 0 IDE_MAX_IODELAY s = Some (1, s1)"
    using demo_wait_status [of s _ IDES_BUSY 0, OF refl] assms by (auto simp: demo_step_def demo_status_def IDES_BUSY_def)
  then show ?thesis by (simp add: ide_exec_cmd_def)
qed

lemma demo_lock:
  assumes "ide0_rwlck s = unlocked"
  shows "channel_lock demo_unit s = Some (Some (s\<lparr>ide0_rwlck := spinlock unlocked\<rparr>))"
  using assms by (simp add: channel_lock_def demo_unit_def IDE_PRIMARY_MASK_def)

lemma demo_write:
  assumes "ide0_rwlck s = unlocked" and "at_rest fst s"
  shows "\<exists>s'. ide_write_sct demo_ata demo_unit lba ptr s = Some (1, s') \<and> ide0_rwlck s' = unlocked"
proof -
  let ?s = "s\<lparr>ide0_rwlck := spinlock unlocked\<rparr>" let ?p = ide_primary
  have p: "?p = ide_primary \<or> ?p = ide_secondy" by simp
  have r: "ata_phase (fst (unit ?s)) = Idle" "ide_intflg ?s \<noteq> IDE_GET_INT" using assms(2) by (simp_all add: at_rest_def)
  obtain s1 where 1: "ide_exec_cmd demo_ata (Some ?p) (Some (sector_cmd demo_unit lba IDEC_WRITESECTORS)) ?s = Some (1, s1)"
    using demo_command r by blast
  then obtain V where v1: "fst (unit s1) = V\<lparr>ata_phase := Preparing (sector_at demo_unit lba)\<rparr>"
    using command_issued(2) [OF demo_ata_ok p r 1] by (auto simp: IDEC_WRITESECTORS_def)
  let ?v = "V\<lparr>ata_phase := Writable (sector_at demo_unit lba)\<rparr>"
  have "snd (demo_step (snd (demo_step (fst (unit s1))))) = ?v" by (simp add: v1 demo_step_def)
  from demo_wait_status [OF this, of IDES_REQESTDATA IDES_REQESTDATA] obtain s2 where
    2: "ide_wait_status demo_ata ?p IDES_REQESTDATA IDES_REQESTDATA IDE_MAX_IODELAY s1 = Some (1, s2)" "fst (unit s2) = ?v"
    by (auto simp: demo_status_def IDES_REQESTDATA_def)
  let ?s3 = "s2\<lparr>unit := a_outputs demo_ata (reg_data ?p) (read_bytes ptr SECTOR_BYTES (ide_mem s2)) (unit s2)\<rparr>"
  have "fst (demo_step (fst (unit ?s3))) = Irq_ide0" using 2(2) by (cases "unit s2") (simp add: demo_ata_def demo_step_def)
  then obtain s3 where 3: "ide_wait_interrupt demo_ata IDE_MAX_IODELAY ?s3 = Some (1, s3)" using demo_interrupt by blast
  have "ide_write_sct demo_ata demo_unit lba ptr s = Some (1, channel_unlock demo_unit s3)"
    using demo_lock [OF assms(1)] 1 2(1) 3 by (simp add: ide_write_sct_def write_body_def Let_def) (simp add: demo_unit_def)
  then show ?thesis by (simp add: channel_unlock_def demo_unit_def IDE_PRIMARY_MASK_def)
qed

lemma demo_read:
  assumes "ide0_rwlck s = unlocked" and "at_rest fst s"
  shows "\<exists>s'. ide_read_sct demo_ata demo_unit lba ptr s = Some (1, s')"
proof -
  let ?s = "s\<lparr>ide0_rwlck := spinlock unlocked\<rparr>" let ?p = ide_primary
  have p: "?p = ide_primary \<or> ?p = ide_secondy" by simp
  have r: "ata_phase (fst (unit ?s)) = Idle" "ide_intflg ?s \<noteq> IDE_GET_INT" using assms(2) by (simp_all add: at_rest_def)
  obtain s1 where 1: "ide_exec_cmd demo_ata (Some ?p) (Some (sector_cmd demo_unit lba IDEC_READSECTORS)) ?s = Some (1, s1)"
    using demo_command r by blast
  then obtain V where "fst (unit s1) = V\<lparr>ata_phase := Reading (sector_at demo_unit lba)\<rparr>"
    using command_issued(2) [OF demo_ata_ok p r 1] by (auto simp: IDEC_READSECTORS_def)
  then have "fst (demo_step (fst (unit s1))) = Irq_ide0" by (simp add: demo_step_def)
  then obtain s2 where 2: "ide_wait_interrupt demo_ata IDE_MAX_IODELAY s1 = Some (1, s2)" using demo_interrupt by blast
  then show ?thesis using demo_lock [OF assms(1)] 1
    by (simp add: ide_read_sct_def read_body_def Let_def) (simp add: demo_unit_def split_beta)
qed


end
