(* ===== verification/Vga.thy ===== *)
theory Vga
  imports IoPort UserCopy Registry
begin

text \<open>
  The screen device and the console (\<^verbatim>\<open>drivers/vga.c\<close>, \<^verbatim>\<open>drivers/console.c\<close>, \<^verbatim>\<open>include/drivers/vga.h\<close>). The addresses of the static
  device and driver structures are arguments. The debugging message of \<^verbatim>\<open>vga_eraselines\<close> is recorded. The value of
  \<^verbatim>\<open>vga_reset\<close>, which has no \<^verbatim>\<open>return\<close>, and that of \<^verbatim>\<open>tty_startup\<close> are not modelled.
\<close>

section \<open>The screen\<close>

definition MAJOR_VGA :: u32 where [code_defs]: "MAJOR_VGA = 0x004"
definition MAJOR_TTY :: u32 where [code_defs]: "MAJOR_TTY = 0x009"
definition VGA_MAX_LINE :: u32 where [code_defs]: "VGA_MAX_LINE = 204"
definition VGA_REG_ADDR :: u16 where [code_defs]: "VGA_REG_ADDR = 0x3D4"
definition VGA_REG_DATA :: u16 where [code_defs]: "VGA_REG_DATA = 0x3D5"
definition VGA_INDEX_DIS_ADDR_HIGH :: u8 where [code_defs]: "VGA_INDEX_DIS_ADDR_HIGH = 0x0C"
definition VGA_INDEX_DIS_ADDR_LOW :: u8 where [code_defs]: "VGA_INDEX_DIS_ADDR_LOW = 0x0D"
definition VGA_INDEX_CURSOR_HIGH :: u8 where [code_defs]: "VGA_INDEX_CURSOR_HIGH = 0x0E"
definition VGA_INDEX_CURSOR_LOW :: u8 where [code_defs]: "VGA_INDEX_CURSOR_LOW = 0x0F"
definition VGA_CMD_SET_RESET :: cint where [code_defs]: "VGA_CMD_SET_RESET = 1"
definition VGA_CMD_SET_DIS_LINE :: cint where [code_defs]: "VGA_CMD_SET_DIS_LINE = 3"
definition VGA_CMD_ERASE_LINES :: cint where [code_defs]: "VGA_CMD_ERASE_LINES = 4"
definition VGA_CMD_SET_CURSOR :: cint where [code_defs]: "VGA_CMD_SET_CURSOR = 5"
definition VGA_CMD_SET_CURSOR_HIDE :: cint where [code_defs]: "VGA_CMD_SET_CURSOR_HIDE = 6"
definition VGA_CMD_SET_CURSOR_DIS :: cint where [code_defs]: "VGA_CMD_SET_CURSOR_DIS = 7"

record vga_private =
  vga_mem_base :: addr
  c_x_y :: u32
  c_max_line :: u16
  c_dis_line :: u16
  c_cur_status :: u16

record vga = ports +
  scr :: mem
  vga_pivat :: vga_private
  vga_reg :: registry
  vga_log :: "(addr \<times> addr) list"

definition GET_POS_X :: "u32 \<Rightarrow> u32" where "GET_POS_X pos = pos AND 0x0000FFFF"
definition GET_POS_Y :: "u32 \<Rightarrow> u32" where "GET_POS_Y pos = drop_bit 16 pos"

definition vga_startup :: "addr \<Rightarrow> addr \<Rightarrow> addr \<Rightarrow> addr \<Rightarrow> vga \<Rightarrow> (cint \<times> vga) option" where
  "vga_startup vga_dev vga_drv vga_fop name s =
     (let g = vga_reg s;
          g = g\<lparr>dev_structs := (dev_structs g)(vga_dev := \<lparr>dev_num = MAKEDEVNUM MAJOR_VGA 0, dev_name = name\<rparr>)\<rparr>;
          g = g\<lparr>drv_structs := (drv_structs g)(vga_drv := (drv_structs g vga_drv)\<lparr>drv_f_op := vga_fop, drv_d_op := NULL\<rparr>)\<rparr>
      in case register_device vga_dev g of
           None \<Rightarrow> None
         | Some (r, g) \<Rightarrow>
             if INVALID = r then Some (INVALID, s\<lparr>vga_reg := g\<rparr>)
             else (case register_driver vga_drv g of
                     (r, g) \<Rightarrow> Some (if INVALID = r then INVALID else 1, s\<lparr>vga_reg := g\<rparr>)))"

definition vga_open :: "addr \<Rightarrow> addr \<Rightarrow> cint" where "vga_open kf ki = 1"
definition vga_close :: "addr \<Rightarrow> addr \<Rightarrow> cint" where "vga_close kf ki = INVALID"

definition scr_at :: "cint \<Rightarrow> vga \<Rightarrow> addr" where
  "scr_at ptr s = vga_mem_base (vga_pivat s) + 2 * ptr"

definition copied :: "u32 \<times> mem \<Rightarrow> vga \<Rightarrow> cint \<times> vga" where
  "copied r s = (if 0 = fst r then INVALID else 1, s\<lparr>scr := snd r\<rparr>)"

definition vga_read :: "u32 \<Rightarrow> addr \<Rightarrow> cint \<Rightarrow> cint \<Rightarrow> vga \<Rightarrow> cint \<times> vga" where
  "vga_read cr3 optr ptr cnt s =
     (if cnt \<le>s 0 then (INVALID, s) else copied (cp2user cr3 optr (cnt * 2) (scr_at ptr s) (scr s)) s)"

definition vga_write :: "u32 \<Rightarrow> addr \<Rightarrow> cint \<Rightarrow> cint \<Rightarrow> vga \<Rightarrow> cint \<times> vga" where
  "vga_write cr3 iptr ptr cnt s =
     (if cnt \<le>s 0 then (INVALID, s) else copied (cpfromuser cr3 iptr (cnt * 2) (scr_at ptr s) (scr s)) s)"

definition vga_kread :: "addr \<Rightarrow> cint \<Rightarrow> cint \<Rightarrow> vga \<Rightarrow> cint \<times> vga" where
  "vga_kread optr ptr cnt s =
     (if cnt \<le>s 0 then (INVALID, s) else copied (memcpy optr (scr_at ptr s) (cnt * 2) (scr s)) s)"

definition vga_kwrite :: "addr \<Rightarrow> cint \<Rightarrow> cint \<Rightarrow> vga \<Rightarrow> cint \<times> vga" where
  "vga_kwrite iptr ptr cnt s =
     (if cnt \<le>s 0 then (INVALID, s) else copied (memcpy (scr_at ptr s) iptr (cnt * 2) (scr s)) s)"

text \<open>\<^verbatim>\<open>line_to_addr\<close> overwrites the base address by the line number times 80; without a result its pointer stays as it was.\<close>

definition line_to_addr :: "u16 \<Rightarrow> addr \<Rightarrow> cint \<times> addr" where
  "line_to_addr line p = (if VGA_MAX_LINE < ucast line then (INVALID, p) else (1, ucast line * 80))"

text \<open>\<^verbatim>\<open>do { *startline = 0; } while (start++ < endline++)\<close>: the cleared cell never moves.\<close>

partial_function (option) erase_loop :: "addr \<Rightarrow> u16 \<Rightarrow> addr \<Rightarrow> mem \<Rightarrow> mem option" where
  "erase_loop startline start endline m =
     (let m = m(startline := 0, startline + 1 := 0)
      in if ucast start < endline then erase_loop startline (start + 1) (endline + 2) m else Some m)"

definition vga_eraselines :: "u16 \<Rightarrow> u16 \<Rightarrow> vga \<Rightarrow> (cint \<times> vga) option" where
  "vga_eraselines start cnt s =
     (if VGA_MAX_LINE < ucast start + ucast cnt then Some (INVALID, s)
      else let startline = snd (line_to_addr start 0); endline = snd (line_to_addr (start + cnt) 0)
           in map_option (\<lambda>m. (1, s\<lparr>scr := m, vga_log := vga_log s @ [(startline, endline)]\<rparr>))
                (erase_loop startline start endline (scr s)))"

definition vga_erasearea :: "u16 \<Rightarrow> u16 \<Rightarrow> cint" where "vga_erasearea start en = INVALID"

definition vga_setdisline :: "hardware \<Rightarrow> u16 \<Rightarrow> vga \<Rightarrow> cint \<times> vga" where
  "vga_setdisline hw line s =
     (let data = ucast line :: u32;
          hight = ucast (drop_bit 8 (data * 80) AND 0xFF);
          low = ucast ((data * 80) AND 0xFF);
          s = outb hw VGA_REG_ADDR VGA_INDEX_DIS_ADDR_HIGH s;
          s = outb hw VGA_REG_DATA hight s;
          s = outb hw VGA_REG_ADDR VGA_INDEX_DIS_ADDR_LOW s;
          s = outb hw VGA_REG_DATA low s
      in (1, s\<lparr>vga_pivat := (vga_pivat s)\<lparr>c_dis_line := line\<rparr>\<rparr>))"

definition vga_setcursorpos :: "hardware \<Rightarrow> u32 \<Rightarrow> vga \<Rightarrow> cint \<times> vga" where
  "vga_setcursorpos hw pos s =
     (let x = GET_POS_X pos + 80 * GET_POS_Y pos;
          hight = ucast (drop_bit 8 x AND 0xFF);
          low = ucast (x AND 0xFF);
          s = outb hw VGA_REG_ADDR VGA_INDEX_CURSOR_HIGH s;
          s = outb hw VGA_REG_DATA hight s;
          s = outb hw VGA_REG_ADDR VGA_INDEX_CURSOR_LOW s;
          s = outb hw VGA_REG_DATA low s
      in (1, s\<lparr>vga_pivat := (vga_pivat s)\<lparr>c_x_y := pos\<rparr>\<rparr>))"

definition vga_hidecursor :: cint where "vga_hidecursor = INVALID"
definition vga_showcursor :: cint where "vga_showcursor = INVALID"

definition vga_reset :: "hardware \<Rightarrow> vga \<Rightarrow> vga option" where
  "vga_reset hw s =
     map_option (\<lambda>(_, s). snd (vga_setdisline hw 0 (snd (vga_setcursorpos hw 0 s)))) (vga_eraselines 0 (ucast VGA_MAX_LINE) s)"

text \<open>The result is missing after a reset.\<close>

definition vga_ioctl :: "hardware \<Rightarrow> cint \<Rightarrow> cint \<Rightarrow> vga \<Rightarrow> (cint option \<times> vga) option" where
  "vga_ioctl hw cmd param s =
     (if cmd = VGA_CMD_SET_RESET then map_option (\<lambda>s. (None, s)) (vga_reset hw s)
      else if cmd = VGA_CMD_SET_DIS_LINE then (case vga_setdisline hw (ucast param) s of (r, s) \<Rightarrow> Some (Some r, s))
      else if cmd = VGA_CMD_ERASE_LINES
      then map_option (\<lambda>(r, s). (Some r, s)) (vga_eraselines (ucast (signed_drop_bit 16 param)) (ucast param) s)
      else if cmd = VGA_CMD_SET_CURSOR then (case vga_setcursorpos hw param s of (r, s) \<Rightarrow> Some (Some r, s))
      else if cmd = VGA_CMD_SET_CURSOR_HIDE then Some (Some vga_hidecursor, s)
      else if cmd = VGA_CMD_SET_CURSOR_DIS then Some (Some vga_showcursor, s)
      else Some (Some INVALID, s))"

section \<open>The console\<close>

fun register_all :: "addr list \<Rightarrow> registry \<Rightarrow> registry option" where
  "register_all [] g = Some g"
| "register_all (d # ds) g = (case register_device d g of None \<Rightarrow> None | Some (_, g) \<Rightarrow> register_all ds g)"

text \<open>The seven devices in the order of the calls: four terminals and the three standard streams.\<close>

definition tty_startup :: "addr list \<Rightarrow> addr \<Rightarrow> registry \<Rightarrow> registry option" where
  "tty_startup devs console_drv g = map_option (\<lambda>g. snd (register_driver console_drv g)) (register_all devs g)"

definition console_open :: "addr \<Rightarrow> addr \<Rightarrow> cint" where "console_open fd pi = INVALID"
definition console_close :: "addr \<Rightarrow> addr \<Rightarrow> cint" where "console_close fd pi = INVALID"
definition console_read :: "addr \<Rightarrow> addr \<Rightarrow> cint \<Rightarrow> addr \<Rightarrow> cint \<Rightarrow> cint" where "console_read fd ptr foff pfoff cnt = INVALID"
definition console_write :: "addr \<Rightarrow> addr \<Rightarrow> cint \<Rightarrow> addr \<Rightarrow> cint \<Rightarrow> cint" where "console_write fd ptr foff pfoff cnt = INVALID"
definition console_ioctl :: "addr \<Rightarrow> cint \<Rightarrow> cint \<Rightarrow> cint" where "console_ioctl fd cmd param = INVALID"
definition console_kread :: "addr \<Rightarrow> addr \<Rightarrow> cint \<Rightarrow> addr \<Rightarrow> cint \<Rightarrow> cint" where "console_kread pi ptr foff pfoff cnt = INVALID"
definition console_kwrite :: "addr \<Rightarrow> addr \<Rightarrow> cint \<Rightarrow> addr \<Rightarrow> cint \<Rightarrow> cint" where "console_kwrite pi ptr foff pfoff cnt = INVALID"

section \<open>Properties\<close>

lemma erase_loop_ends:
  assumes "endline = - of_nat (2 * k)"
  shows "erase_loop p start endline m = Some (m(p := 0, p + 1 := 0))"
  using assms
proof (induction k arbitrary: start endline m)
  case 0
  then show ?case by (subst erase_loop.simps) simp
next
  case (Suc k)
  let ?m = "m(p := 0, p + 1 := 0)"
  have m: "?m(p := 0, p + 1 := 0) = ?m" by auto
  have "endline + 2 = - of_nat (2 * k)" using Suc.prems by simp
  then have "erase_loop p (start + 1) (endline + 2) ?m = Some (?m(p := 0, p + 1 := 0))" by (rule Suc.IH)
  then have "erase_loop p (start + 1) (endline + 2) ?m = Some ?m" unfolding m .
  then show ?case by (subst erase_loop.simps) (simp add: Let_def)
qed

lemma even_minus: "n \<le> 204 \<Longrightarrow> (of_nat (80 * n) :: u32) = - of_nat (2 * (2147483648 - 40 * n))"
proof -
  assume "n \<le> 204"
  then have "2 * (2147483648 - 40 * n) + 80 * n = 4294967296" by simp
  then have "(of_nat (2 * (2147483648 - 40 * n)) + of_nat (80 * n) :: u32) = of_nat 4294967296" by (simp only: flip: of_nat_add)
  moreover have "(of_nat 4294967296 :: u32) = 0" by (simp add: word_of_nat_eq_0_iff del: of_nat_numeral)
  ultimately show ?thesis by (simp only: eq_neg_iff_add_eq_0 add.commute)
qed

text \<open>vga_eraselines for any valid range of lines clears two bytes at address 80 * start, in low memory,
  and no cell of the screen.\<close>

theorem eraselines_one_cell:
  assumes "unat start + unat cnt \<le> 204"
  shows "vga_eraselines start cnt s = Some (1, s\<lparr>scr := (scr s)(80 * ucast start := 0, 80 * ucast start + 1 := 0),
    vga_log := vga_log s @ [(80 * ucast start, 80 * ucast (start + cnt))]\<rparr>)"
proof -
  have u: "unat (ucast start + ucast cnt :: u32) = unat start + unat cnt" "unat (start + cnt) = unat start + unat cnt"
    using assms by (simp_all add: unat_word_ariths unsigned_ucast_eq take_bit_nat_eq_self)
  have n: "\<not> VGA_MAX_LINE < ucast start + ucast cnt" "\<not> VGA_MAX_LINE < ucast start" "\<not> VGA_MAX_LINE < ucast (start + cnt)"
    using assms u by (simp_all add: VGA_MAX_LINE_def word_less_nat_alt unsigned_ucast_eq take_bit_nat_eq_self)
  have "(ucast (start + cnt) * 80 :: u32) = of_nat (80 * (unat start + unat cnt))"
    unfolding u(2) [symmetric] by (simp only: of_nat_mult of_nat_unat of_nat_numeral mult.commute)
  then obtain k where "ucast (start + cnt) * 80 = (- of_nat (2 * k) :: u32)" using even_minus [OF assms] by metis
  then show ?thesis
    using n erase_loop_ends by (simp add: vga_eraselines_def line_to_addr_def Let_def mult.commute [of 80])
qed

text \<open>vga_startup registers the driver under major number 0: looking it up by the number of its device
  gives what it gave before.\<close>

theorem vga_driver_not_found:
  assumes "vga_startup vga_dev vga_drv vga_fop name s = Some (1, s')" and "dev_major_num (drv_structs (vga_reg s) vga_drv) = 0"
  shows "find_device (MAKEDEVNUM MAJOR_VGA 0) (vga_reg s') = vga_dev \<and> search_driver 0 (vga_reg s') = vga_drv \<and>
    find_driver (MAKEDEVNUM MAJOR_VGA 0) (vga_reg s') = find_driver (MAKEDEVNUM MAJOR_VGA 0) (vga_reg s)"
  using assms
  by (auto simp: vga_startup_def register_device_def register_driver_def find_device_def search_driver_def find_driver_def
      GETMAJOR_def GETSLAVE_def MAKEDEVNUM_def code_defs Let_def split: option.splits if_splits)

text \<open>What vga_kwrite puts on the screen is what vga_kread reads back from the same position.\<close>

theorem screen_roundtrip:
  assumes "0 <s cnt" and "cnt * 2 \<noteq> 0" and "cnt * 2 \<le> scr_at ptr s - iptr" and "cnt * 2 \<le> optr - scr_at ptr s"
    and "vga_kwrite iptr ptr cnt s = (r, s1)" and "vga_kread optr ptr cnt s1 = (r', s2)"
  shows "r = 1 \<and> r' = 1 \<and> (\<forall>i < cnt * 2. scr s2 (optr + i) = scr s (iptr + i))"
proof -
  have c: "\<not> cnt \<le>s 0" using assms(1) by (simp add: signed.not_le)
  have "memcpy (scr_at ptr s) iptr (cnt * 2) (scr s) =
      (cnt * 2, \<lambda>a. if a - scr_at ptr s < cnt * 2 then scr s (iptr + (a - scr_at ptr s)) else scr s a)"
    by (rule memcpy_eq) (simp add: assms(3))
  then have s1: "r = 1" "s1 = s\<lparr>scr := \<lambda>a. if a - scr_at ptr s < cnt * 2 then scr s (iptr + (a - scr_at ptr s)) else scr s a\<rparr>"
    using assms(2,5) c by (auto simp: vga_kwrite_def copied_def)
  then have "scr_at ptr s1 = scr_at ptr s" by (simp add: scr_at_def)
  moreover have "memcpy optr (scr_at ptr s) (cnt * 2) (scr s1) =
      (cnt * 2, \<lambda>a. if a - optr < cnt * 2 then scr s1 (scr_at ptr s + (a - optr)) else scr s1 a)"
    by (rule memcpy_eq) (simp add: assms(4))
  ultimately have "r' = 1" "s2 = s1\<lparr>scr := \<lambda>a. if a - optr < cnt * 2 then scr s1 (scr_at ptr s + (a - optr)) else scr s1 a\<rparr>"
    using assms(2,6) c by (auto simp: vga_kread_def copied_def)
  then show ?thesis using s1 by simp
qed

lemma two_bytes: "256 * unat (ucast (drop_bit 8 x AND 0xFF) :: u8) + unat (ucast (x AND 0xFF) :: u8) = unat (x :: u32) mod 65536"
proof -
  have m: "(0xFF :: u32) = mask 8" by (simp add: mask_eq_exp_minus_1)
  have "unat (ucast (y AND 0xFF) :: u8) = unat y mod 256" for y :: u32
    unfolding m by (simp add: unsigned_ucast_eq unsigned_take_bit_eq take_bit_eq_mod unat_mod flip: take_bit_eq_mask)
  moreover have "unat (drop_bit 8 x) = unat x div 256" by (simp only: unat_drop_bit_eq) (simp add: drop_bit_eq_div)
  moreover have "unat x mod 65536 = 256 * (unat x div 256 mod 256) + unat x mod 256"
    using mod_mult2_eq [of "unat x" 256 256] by simp
  ultimately show ?thesis by simp
qed

text \<open>The cursor registers get the linear position of the column and row that the argument packs.\<close>

theorem cursor_position:
  "\<exists>h l. port_out (snd (vga_setcursorpos hw pos s)) = port_out s @ [(0x3D4, 0x0E), (0x3D5, h), (0x3D4, 0x0F), (0x3D5, l)] \<and>
    256 * unat h + unat l = unat (GET_POS_X pos + 80 * GET_POS_Y pos) mod 65536"
  using two_bytes [of "GET_POS_X pos + 80 * GET_POS_Y pos"]
  by (simp add: vga_setcursorpos_def Let_def outb_def code_defs)

section \<open>Examples\<close>

definition demo_vga :: vga where
  "demo_vga = \<lparr>port_in = (\<lambda>_. 0), port_out = [], scr = (\<lambda>a. ucast a),
     vga_pivat = \<lparr>vga_mem_base = 0xB8000, c_x_y = 0, c_max_line = 204, c_dis_line = 0, c_cur_status = 0\<rparr>,
     vga_reg = demo_registry\<lparr>drv_structs := \<lambda>_. \<lparr>dev_major_num = 0, drv_f_op = 0, drv_d_op = 0\<rparr>\<rparr>, vga_log = []\<rparr>"

theorem eraselines_one_cell_witness: "\<exists>s'. vga_eraselines 2 3 demo_vga = Some (1, s') \<and> scr s' 160 = 0 \<and> scr s' 0xB8001 = 1"
  using eraselines_one_cell [of 2 3 demo_vga] by (simp add: demo_vga_def)

theorem vga_driver_not_found_witness:
  "\<exists>s'. vga_startup 0x700 0x800 0x900 0xA00 demo_vga = Some (1, s') \<and> find_device 0x400000 (vga_reg s') = 0x700 \<and>
    find_driver 0x400000 (vga_reg s') = 0"
proof -
  obtain s' where s': "vga_startup 0x700 0x800 0x900 0xA00 demo_vga = Some (1, s')"
    by (simp add: vga_startup_def demo_vga_def demo_registry_def register_device_def register_driver_def GETMAJOR_def GETSLAVE_def
        MAKEDEVNUM_def code_defs Let_def get_spinlock_def)
  have "find_driver 0x400000 (vga_reg demo_vga) = 0" "dev_major_num (drv_structs (vga_reg demo_vga) 0x800) = 0"
    by (simp_all add: demo_vga_def demo_registry_def find_driver_def search_driver_def GETMAJOR_def)
  then show ?thesis using s' vga_driver_not_found [OF s'] by (simp add: MAKEDEVNUM_def MAJOR_VGA_def)
qed

lemma num_less_6: "(2 :: u32) < 6"
  by simp

theorem screen_roundtrip_witness:
  "\<exists>s2. vga_kread 0x9000 5 3 (snd (vga_kwrite 0x8000 5 3 demo_vga)) = (1, s2) \<and> scr s2 0x9002 = 2"
proof -
  obtain r s1 r' s2 where 1: "vga_kwrite 0x8000 5 3 demo_vga = (r, s1)" and 2: "vga_kread 0x9000 5 3 s1 = (r', s2)" by fastforce
  have "scr_at 5 demo_vga = 0xB800A" by (simp add: scr_at_def demo_vga_def)
  then have *: "r = 1 \<and> r' = 1 \<and> (\<forall>i < 6. scr s2 (0x9000 + i) = scr demo_vga (0x8000 + i))"
    using screen_roundtrip [OF _ _ _ _ 1 2] by (simp add: word_sless_alt)
  then have "scr s2 (0x9000 + 2) = scr demo_vga (0x8000 + 2)" by (meson num_less_6)
  then show ?thesis using * 1 2 by (simp add: demo_vga_def)
qed

end
