(* ===== verification/Boot.thy ===== *)
theory Boot
  imports Schedu Keyboard IdeDisk Vga Mfs
begin

text \<open>
  The start of the kernel, the first part of \<^verbatim>\<open>kmain\<close> in \<^verbatim>\<open>kernel/kmain.c\<close>: it calls the start functions of the components one after
  the other and then enables interrupts. The state of the machine is the states of the components.
\<close>

record machine =
  m_intr :: intr
  m_caches :: caches
  m_sched :: sched

text \<open>\<^verbatim>\<open>for (;(unsigned int)p<0xA0000;p++) *p = 0x0700 | ' ';\<close>\<close>

function clear_loop :: "addr \<Rightarrow> mem \<Rightarrow> mem" where
  "clear_loop p m = (if p < 0xA0000 then clear_loop (p + 2) (store16 p (0x0700 OR 0x20) m) else m)"
  by pat_completeness auto
termination
proof (relation "measure (\<lambda>(p, m). 0xA0000 - unat p)")
  fix p :: addr and m :: mem assume "p < 0xA0000"
  then have "unat (p + 2) = unat p + 2" "unat p < 0xA0000" by (simp_all add: word_less_nat_alt unat_word_ariths)
  then show "((p + 2, store16 p (0x0700 OR 0x20) m), (p, m)) \<in> measure (\<lambda>(p, m). 0xA0000 - unat p)" by simp
qed simp

declare clear_loop.simps [simp del]

text \<open>Up to the enabling of interrupts; \<^const>\<open>None\<close> is a fault.\<close>

definition kmain_start :: "hardware \<Rightarrow> (string \<Rightarrow> addr) \<Rightarrow> symbols \<Rightarrow> machine \<Rightarrow> machine option" where
  "kmain_start hw fn sy s =
     (let k = (kst (m_sched s))\<lparr>kmem := clear_loop 0xB8000 (kmem (kst (m_sched s)))\<rparr>
      in case irqrouterinit fn (m_intr s) of
           None \<Rightarrow> None
         | Some i \<Rightarrow>
             let i = init8259A hw i; k = startpage k
             in case cache_init k of
                  None \<Rightarrow> None
                | Some (cs, k) \<Rightarrow>
                    let r = model_startup; sc = kscheduinit sy ((m_sched s)\<lparr>kst := k\<rparr>)
                    in Some \<lparr>m_intr = i\<lparr>if_flag := True\<rparr>, m_caches = cs, m_sched = sc\<rparr>)"

lemma screen_not_cleared: "clear_loop 0xB8000 m = m"
  by (simp add: clear_loop.simps)

lemma init8259A_keeps: "idt (init8259A hw s) = idt s" "ps_entry (init8259A hw s) = ps_entry s"
  by (simp_all add: init8259A_def outb_def Let_def)

lemma kcache_create_keeps:
  "kcache_create cp cb kmalloc kfree s = Some (c, t) \<Longrightarrow> \<exists>p. t = s\<lparr>pool := p\<rparr>"
  by (auto simp: kcache_create_def kmalloc_def Let_def split: if_splits)

lemma cache_init_keeps: "cache_init s = Some (cs, t) \<Longrightarrow> \<exists>p. t = s\<lparr>pool := p\<rparr>"
  by (fastforce simp: cache_init_def split: option.splits prod.splits dest!: kcache_create_keeps)

lemma first_frame:
  assumes "pages_used s = {}" and "pagemap s = b" and "reserved_marked s"
  shows "allocpage s = (8192, s\<lparr>kmem := bitset 8192 b (kmem s)\<rparr>)"
proof -
  have clear: "\<not> bit_at b (kmem s) j" if "8192 \<le> j" "j < 131072" for j
    using assms that by (auto simp: pages_used_def bits_of_def)
  have "j < 131072" "8192 \<le> j" if "above 8192 j" for j
  proof -
    have "unat j div 8 = 1024" using that unat_div_8 [of j] by (simp add: above_def)
    then show "j < 131072" by (simp add: word_less_nat_alt)
    show "8192 \<le> j" using that by (auto simp: above_def)
  qed
  then have t: "tail_clear b (kmem s) 8192" using clear by (auto simp: tail_clear_def)
  obtain p s' where p: "allocpage s = (p, s')" by (cases "allocpage s")
  then show ?thesis
  proof (cases rule: allocpage_cases)
    case 1
    then show ?thesis using t assms(2) by auto
  next
    case 2
    have "\<not> 8192 < p" using 2(5) [of 8192] t assms(2) by auto
    then have "p = 8192" using 2(1) by simp
    then show ?thesis using 2(4) p assms(2) by simp
  qed
qed

lemma startpage_fields:
  "paging_on (startpage s)" "pagemap (startpage s) = pool s" "pool (startpage s) = pool s + 131072"
  by (simp_all add: startpage_def kmalloc_def Let_def memsize_def)

text \<open>C6: From the initial heap the start of kmain succeeds: paging is on, the tables translate every
  address below 512 MB to itself, for the processor and (from 4 KB on) for the kernel's own page walk,
  only frame 8192 is in use, the caches are well formed, the gates are set, interrupts are on and the
  core task runs under the kernel's page directory.\<close>

theorem kernel_boots:
  assumes "pool (kst (m_sched s)) = 0x400400"
  shows "\<exists>s'. kmain_start hw fn sy s = Some s' \<and>
    (let k = kst (m_sched s') in
       paging_on k \<and> (\<forall>a. 0x1000 \<le> a \<and> a < 0x20000000 \<longrightarrow> user_byte (cr3_reg k) a (kmem k) = Some a) \<and>
       (\<forall>a. a < 0x20000000 \<longrightarrow> mmu_byte (cr3_reg k) a (kmem k) = Some a) \<and>
       reserved_marked k \<and> pages_used k = {8192}) \<and>
    cache_ok (cdir (m_caches s')) \<and> cache_ok (cinode (m_caches s')) \<and> cache_ok (cfile (m_caches s')) \<and>
    (\<forall>v f p. (v, f, p) \<in> set gates \<longrightarrow> gate_for (fn f) p (idt (m_intr s') (unat v))) \<and> if_flag (m_intr s') \<and>
    sched.tsk_running (m_sched s') = core_at sy \<and> t_cr3 (Core (m_sched s')) = cr3_reg (kst (m_sched s')) \<and>
    t_cr3 (Init (m_sched s')) = 0x2000000"
proof -
  let ?k = "startpage (kst (m_sched s))"
  obtain i where i: "irqrouterinit fn (m_intr s) = Some i"
    "\<forall>v f p. (v, f, p) \<in> set gates \<longrightarrow> gate_for (fn f) p (idt i (unat v))"
    using routed_gates [of fn "m_intr s"] by blast
  obtain cs t where c: "cache_init ?k = Some (cs, t)" "cache_ok (cdir cs)" "cache_ok (cinode cs)" "cache_ok (cfile cs)"
    using cache_init_ok [of ?k] assms by (auto simp: startpage_fields)
  obtain q where t: "t = ?k\<lparr>pool := q\<rparr>" using cache_init_keeps [OF c(1)] by blast
  have r: "reserved_marked ?k \<and> pages_used ?k = {}" by (rule startpage_reserved) (simp_all add: assms)
  then have r': "reserved_marked t" "pages_used t = {}" by (simp_all add: t reserved_marked_def pages_used_def)
  have pm: "pagemap t = 0x400400" by (simp add: t startpage_fields assms)
  have a: "allocpage t = (8192, t\<lparr>kmem := bitset 8192 0x400400 (kmem t)\<rparr>)"
    by (rule first_frame) (use r' pm in simp_all)
  define k where "k = t\<lparr>kmem := bitset 8192 0x400400 (kmem t)\<rparr>"
  have tables: "identity_tables (kmem k)"
    unfolding k_def t by (simp add: bitset_def identity_tables_upd startpage_tables)
  have mmu: "mmu_byte (cr3_reg k) a (kmem k) = Some a" if "a < 0x20000000" for a
    using identity_tables_mmu [OF tables that] by (simp add: k_def t startpage_cr3)
  have ident: "user_byte (cr3_reg k) a (kmem k) = Some a" if "0x1000 \<le> a" "a < 0x20000000" for a
    using identity_tables_byte [OF tables that] by (simp add: k_def t startpage_cr3)
  have used: "reserved_marked k" "pages_used k = {8192}"
    using r' pm by (auto simp: k_def reserved_marked_def pages_used_def)
  have "kmain_start hw fn sy s = Some \<lparr>m_intr = (init8259A hw i)\<lparr>if_flag := True\<rparr>, m_caches = cs,
      m_sched = kscheduinit sy ((m_sched s)\<lparr>kst := t\<rparr>)\<rparr>"
    using i(1) c(1) by (simp add: kmain_start_def screen_not_cleared)
  moreover have "kst (kscheduinit sy ((m_sched s)\<lparr>kst := t\<rparr>)) = k"
      "sched.tsk_running (kscheduinit sy ((m_sched s)\<lparr>kst := t\<rparr>)) = core_at sy"
      "t_cr3 (Core (kscheduinit sy ((m_sched s)\<lparr>kst := t\<rparr>))) = 0x100000"
      "t_cr3 (Init (kscheduinit sy ((m_sched s)\<lparr>kst := t\<rparr>))) = 0x2000000"
    by (simp_all add: kscheduinit_def Let_def a k_def KERNEL_CR3_def)
  moreover have "paging_on k" "cr3_reg k = 0x100000" by (simp_all add: k_def t startpage_fields startpage_cr3)
  ultimately show ?thesis using c i(2) ident mmu used by (simp add: init8259A_keeps)
qed

definition demo_machine :: machine where
  "demo_machine = \<lparr>m_intr = demo_intr, m_caches = \<lparr>cdir = zero_cache, cinode = zero_cache, cfile = zero_cache\<rparr>,
     m_sched = demo_sched\<lparr>kst := \<lparr>kmem = \<lambda>_. 0xAA, pool = 0x400400, pagemap = 0, cr3_reg = 0, paging_on = False\<rparr>\<rparr>\<rparr>"

theorem kernel_boots_witness:
  "\<exists>s'. kmain_start latch (\<lambda>f. of_nat (length f)) demo_symbols demo_machine = Some s' \<and>
     user_byte (cr3_reg (kst (m_sched s'))) 0x1234567 (kmem (kst (m_sched s'))) = Some 0x1234567 \<and> t_cr3 (Init (m_sched s')) = 0x2000000"
proof -
  have "pool (kst (m_sched demo_machine)) = 0x400400" by (simp add: demo_machine_def)
  from kernel_boots [OF this, of latch "\<lambda>f. of_nat (length f)" demo_symbols] show ?thesis by (auto simp: Let_def)
qed

end
