(* ===== verification/Modules.thy ===== *)
theory Modules
  imports Boot
begin

text \<open>
  The modules that \<^verbatim>\<open>module_init\<close> of \<^verbatim>\<open>kernel/kmodel.c\<close> starts: the static data of the drivers and of MFS
  (\<^verbatim>\<open>drivers/keyboard.c\<close>, \<^verbatim>\<open>drivers/console.c\<close>, \<^verbatim>\<open>drivers/vga.c\<close>, \<^verbatim>\<open>fs/mfs/mfs.c\<close>), the calls of their start functions, and what
  the tables of the kernel hold afterwards. The addresses of handlers, names and structs are those of
  \<^verbatim>\<open>mod_symbols\<close>.
\<close>

record mod_symbols =
  keyboard_devname :: addr
  keyboard_drv_at :: addr
  keyboard_fop_at :: addr
  tty_devname :: addr
  console_fop_at :: addr
  mfs_name :: addr
  mfs_fop_at :: addr
  mfs_dop_at :: addr
  keyboard_name :: addr
  keyboard_handler :: addr
  keyboard_dev :: addr
  vga_dev_at :: addr
  vga_drv_at :: addr
  vga_fop_at :: addr
  vga_name_at :: addr
  tty_devs :: "addr list"
  console_drv_at :: addr
  ide0_name :: addr
  ide0_at :: addr
  ide1_name :: addr
  ide1_at :: addr
  mfs_at :: addr

section \<open>Static data of the modules\<close>

definition MAJOR_KB :: u32 where [code_defs]: "MAJOR_KB = 0x002"
definition MFS_ID :: u8 where [code_defs]: "MFS_ID = 0x90"

definition keyboard_dev_data :: "mod_symbols \<Rightarrow> device_base" where
  "keyboard_dev_data y = \<lparr>dev_num = MAKEDEVNUM MAJOR_KB 0, dev_name = keyboard_devname y\<rparr>"

definition keyboard_drv_data :: "mod_symbols \<Rightarrow> driver" where
  "keyboard_drv_data y = \<lparr>dev_major_num = MAJOR_KB, drv_f_op = keyboard_fop_at y, drv_d_op = NULL\<rparr>"

text \<open>The seven devices of the console, numbered from 0, bear the same name.\<close>

definition tty_dev_data :: "mod_symbols \<Rightarrow> nat \<Rightarrow> device_base" where
  "tty_dev_data y i = \<lparr>dev_num = MAKEDEVNUM MAJOR_TTY (of_nat i), dev_name = tty_devname y\<rparr>"

definition console_drv_data :: "mod_symbols \<Rightarrow> driver" where
  "console_drv_data y = \<lparr>dev_major_num = MAJOR_TTY, drv_f_op = console_fop_at y, drv_d_op = NULL\<rparr>"

definition vga_drv_data :: driver where
  "vga_drv_data = \<lparr>dev_major_num = 0, drv_f_op = 0, drv_d_op = 0\<rparr>"

definition mfs_struct_data :: "mod_symbols \<Rightarrow> fs_struct" where
  "mfs_struct_data y = \<lparr>fs_id = MFS_ID, fs_name = mfs_name y, fs_f_op = mfs_fop_at y, fs_d_op = mfs_dop_at y\<rparr>"

fun place :: "addr list \<Rightarrow> 'a list \<Rightarrow> (addr \<Rightarrow> 'a) \<Rightarrow> addr \<Rightarrow> 'a" where
  "place (a # as) (x # xs) f = place as xs (f(a := x))"
| "place _ _ f = f"

text \<open>The initialised data, where the loader puts it.\<close>

definition module_data :: "mod_symbols \<Rightarrow> registry \<Rightarrow> registry" where
  "module_data y g =
     g\<lparr>dev_structs := place (keyboard_dev y # tty_devs y) (keyboard_dev_data y # List.map (tty_dev_data y) [0..<7]) (dev_structs g),
       drv_structs := place [keyboard_drv_at y, console_drv_at y, vga_drv_at y] [keyboard_drv_data y, console_drv_data y, vga_drv_data]
         (drv_structs g),
       fs_structs := (fs_structs g)(mfs_at y := mfs_struct_data y)\<rparr>"

section \<open>Starting the modules\<close>

text \<open>\<^verbatim>\<open>module_init\<close> of \<^verbatim>\<open>kernel/kmodel.c\<close>: the start functions of the drivers and of MFS, in order; their results are ignored.\<close>

record mods =
  md_kbd :: kbd
  md_vga :: vga
  md_mfs :: mfs

definition module_init :: "hardware \<Rightarrow> mod_symbols \<Rightarrow> mods \<Rightarrow> (cint \<times> mods) option" where
  "module_init hw y s =
     (case keyboard_startup hw (keyboard_name y) (keyboard_handler y) (keyboard_dev y) (md_kbd s) of
        None \<Rightarrow> None
      | Some (_, k) \<Rightarrow>
     (case vga_startup (vga_dev_at y) (vga_drv_at y) (vga_fop_at y) (vga_name_at y) ((md_vga s)\<lparr>vga_reg := devreg k\<rparr>) of
        None \<Rightarrow> None
      | Some (_, v) \<Rightarrow>
     (case tty_startup (tty_devs y) (console_drv_at y) (vga_reg v) of
        None \<Rightarrow> None
      | Some g \<Rightarrow>
     (case ide_startup hw (ide0_name y) (ide0_at y) (ide1_name y) (ide1_at y) k of
        None \<Rightarrow> None
      | Some k \<Rightarrow>
     (case mfs_startup (mfs_at y) g (md_mfs s) of
        None \<Rightarrow> None
      | Some (_, g, m) \<Rightarrow> Some (VALID, \<lparr>md_kbd = k\<lparr>devreg := g\<rparr>, md_vga = v\<lparr>vga_reg := g\<rparr>, md_mfs = m\<rparr>))))))"

lemma irqtable_ports [simp]: "irqtable (i8259Asti hw irq s) = irqtable s" "irqtable (snd (i8042detect hw s)) = irqtable s"
  by (simp_all add: i8259Asti_def i8042detect_def outb_def Let_def)

lemma hwregistehandle_free:
  assumes "handle (irqtable s (unat irq)) = NULL" and "EXPMAXVECTOR < irq" and "unat irq < IDT_SIZE"
  shows "hwregistehandle hw irq name h s = Some (1, i8259Asti hw irq (set_route irq name h s))"
  using assms by (simp add: hwregistehandle_def)

lemma set_route_table: "irqtable (set_route irq name h s) = (irqtable s)(unat irq := \<lparr>handlename = name, handle = h\<rparr>)"
  by (simp add: set_route_def)

lemma ide_startup_routes:
  assumes "handle (irqtable s 46) = NULL" and "handle (irqtable s 47) = NULL"
  shows "\<exists>s'. ide_startup hw n0 h0 n1 h1 s = Some s' \<and>
    irqtable s' = (irqtable s)(46 := \<lparr>handlename = n0, handle = h0\<rparr>, 47 := \<lparr>handlename = n1, handle = h1\<rparr>)"
  using assms by (simp add: ide_startup_def hwregistehandle_free set_route_table code_defs)

lemma keyboard_startup_routes:
  assumes "handle (irqtable s 33) = NULL" and "keyboard_startup hw n h d s = Some (r, s')"
  shows "irqtable s' = (if fst (i8042detect hw s) = 0xEE then (irqtable s)(33 := \<lparr>handlename = n, handle = h\<rparr>) else irqtable s)"
proof -
  obtain b s1 where d: "i8042detect hw s = (b, s1)" by (cases "i8042detect hw s")
  then have s1: "irqtable s1 = irqtable s" using irqtable_ports(2) [of hw s] by simp
  show ?thesis using assms d s1
    by (auto simp: keyboard_startup_def hwregistehandle_free set_route_table code_defs Let_def split: option.splits if_splits)
qed

theorem modules_routed:
  assumes "module_init hw y s = Some (r, s')" and "\<forall>v \<in> {33, 46, 47}. handle (irqtable (md_kbd s) v) = NULL"
  shows "handle (irqtable (md_kbd s') 46) = ide0_at y \<and> handle (irqtable (md_kbd s') 47) = ide1_at y \<and>
    handle (irqtable (md_kbd s') 33) = (if fst (i8042detect hw (md_kbd s)) = 0xEE then keyboard_handler y else NULL)"
proof -
  obtain r k where k: "keyboard_startup hw (keyboard_name y) (keyboard_handler y) (keyboard_dev y) (md_kbd s) = Some (r, k)"
    using assms(1) by (auto simp: module_init_def split: option.splits)
  have n: "handle (irqtable (md_kbd s) 33) = NULL" "handle (irqtable (md_kbd s) 46) = NULL" "handle (irqtable (md_kbd s) 47) = NULL"
    using assms(2) by simp_all
  note t = keyboard_startup_routes [OF n(1) k]
  have free: "handle (irqtable k 46) = NULL" "handle (irqtable k 47) = NULL" using n by (simp_all add: t)
  obtain k' where k': "ide_startup hw (ide0_name y) (ide0_at y) (ide1_name y) (ide1_at y) k = Some k'"
    "irqtable k' = (irqtable k)(46 := \<lparr>handlename = ide0_name y, handle = ide0_at y\<rparr>, 47 := \<lparr>handlename = ide1_name y, handle = ide1_at y\<rparr>)"
    using ide_startup_routes [of k, OF free(1,2)] by blast
  have "irqtable (md_kbd s') = irqtable k'"
    using assms(1) by (auto simp: module_init_def k k'(1) split: option.splits)
  then show ?thesis using k'(2) t n by simp
qed

section \<open>What is registered\<close>

lemma place_frame: "a \<notin> set as \<Longrightarrow> place as xs f a = f a"
  by (induction as xs f rule: place.induct) auto

lemma place_nth: "distinct as \<Longrightarrow> length as = length xs \<Longrightarrow> i < length as \<Longrightarrow> place as xs f (as ! i) = xs ! i"
proof (induction as xs f arbitrary: i rule: place.induct)
  case (1 a as x xs f)
  then show ?case by (cases i) (simp_all add: place_frame fun_upd_def)
qed simp_all

lemma register_device_takes:
  assumes "device_ok g" and "dev \<noteq> NULL" and "dev_num (dev_structs g dev) = n" and "device_valid n" and "find_device n g = NULL"
  shows "\<exists>h. register_device dev g = Some (VALID, g\<lparr>device_head := h\<rparr>) \<and>
    (\<forall>j. device_valid j \<longrightarrow> find_device j (g\<lparr>device_head := h\<rparr>) = (if j = n then dev else find_device j g))"
proof -
  have "register_device dev g \<noteq> None" using assms(1) by (simp add: register_device_def device_ok_def Let_def)
  then obtain r g' where d: "register_device dev g = Some (r, g')" "device_put dev g = (r, g')"
    by (auto simp: device_put_def)
  have k: "device_key g dev = n" using assms(3) by (simp add: device_key_def)
  have r: "r = VALID" using devices.put_result [of g dev] assms k d(2) by simp
  have l: "g\<lparr>device_head := h, lck_device := unlocked\<rparr> = g\<lparr>device_head := h\<rparr>" for h
    using assms(1) by (cases g) (simp add: device_ok_def)
  obtain h where "g' = g\<lparr>device_head := h, lck_device := unlocked\<rparr>"
    using d(1) r assms(1) by (auto simp: register_device_def device_ok_def Let_def VALID_def INVALID_def split: if_splits)
  then have h: "g' = g\<lparr>device_head := h\<rparr>" by (simp only: l)
  have "find_device j g' = (if j = n then dev else find_device j g)" if "device_valid j" for j
    using devices.put_find [of g dev j] assms k d(2) that by auto
  then show ?thesis using d(1) r h by blast
qed

lemma register_all_takes:
  assumes "device_ok g" and "NULL \<notin> set ds" and "distinct (List.map (dev_num \<circ> dev_structs g) ds)"
    and "\<forall>d \<in> set ds. device_valid (dev_num (dev_structs g d)) \<and> find_device (dev_num (dev_structs g d)) g = NULL"
  shows "\<exists>h. register_all ds g = Some (g\<lparr>device_head := h\<rparr>) \<and>
    (\<forall>d \<in> set ds. find_device (dev_num (dev_structs g d)) (g\<lparr>device_head := h\<rparr>) = d) \<and>
    (\<forall>j. device_valid j \<longrightarrow> j \<notin> set (List.map (dev_num \<circ> dev_structs g) ds) \<longrightarrow> find_device j (g\<lparr>device_head := h\<rparr>) = find_device j g)"
  using assms
proof (induction ds arbitrary: g)
  case Nil
  then show ?case by (intro exI [of _ "device_head g"]) simp
next
  case (Cons d ds)
  let ?n = "dev_num (dev_structs g d)"
  obtain h where h: "register_device d g = Some (VALID, g\<lparr>device_head := h\<rparr>)"
    "\<forall>j. device_valid j \<longrightarrow> find_device j (g\<lparr>device_head := h\<rparr>) = (if j = ?n then d else find_device j g)"
    using register_device_takes [OF Cons.prems(1), of d ?n] Cons.prems(2,4) by auto
  let ?g = "g\<lparr>device_head := h\<rparr>"
  have ok: "device_ok ?g" using Cons.prems(1) by (simp add: device_ok_def)
  have free: "\<forall>e \<in> set ds. device_valid (dev_num (dev_structs ?g e)) \<and> find_device (dev_num (dev_structs ?g e)) ?g = NULL"
    using Cons.prems(3,4) h(2) by (auto simp: image_iff)
  obtain h' where h': "register_all ds ?g = Some (?g\<lparr>device_head := h'\<rparr>)"
    "\<forall>e \<in> set ds. find_device (dev_num (dev_structs ?g e)) (?g\<lparr>device_head := h'\<rparr>) = e"
    "\<forall>j. device_valid j \<longrightarrow> j \<notin> set (List.map (dev_num \<circ> dev_structs ?g) ds) \<longrightarrow> find_device j (?g\<lparr>device_head := h'\<rparr>) = find_device j ?g"
    using Cons.IH [OF ok _ _ free] Cons.prems(2,3) by auto
  have "find_device ?n (?g\<lparr>device_head := h'\<rparr>) = d"
    using h'(3) [rule_format, of ?n] h(2) Cons.prems(3,4) by auto
  then show ?case using h(1,2) h' by (intro exI [of _ h']) auto
qed


text \<open>The addresses of the static structs differ from each other.\<close>

definition symbols_ok :: "mod_symbols \<Rightarrow> bool" where
  "symbols_ok y \<longleftrightarrow> length (tty_devs y) = 7 \<and> distinct (NULL # vga_dev_at y # keyboard_dev y # tty_devs y) \<and>
     distinct [NULL, keyboard_drv_at y, console_drv_at y, vga_drv_at y] \<and> mfs_at y \<noteq> NULL"

text \<open>The registry before: its tables are empty and the data of the modules is in place.\<close>

definition registry_fresh :: "mod_symbols \<Rightarrow> registry \<Rightarrow> bool" where
  "registry_fresh y g \<longleftrightarrow> lck_device g = unlocked \<and> device_head g = (\<lambda>_ _. NULL) \<and> driver_head g = (\<lambda>_. NULL) \<and> fs_table g = (\<lambda>_. NULL) \<and>
     (\<exists>g'. g = module_data y g')"

lemma devnums:
  "device_valid (MAKEDEVNUM MAJOR_KB 0)" "device_valid (MAKEDEVNUM MAJOR_VGA 0)" "i < 7 \<Longrightarrow> device_valid (MAKEDEVNUM MAJOR_TTY (of_nat i))"
  "i < 7 \<Longrightarrow> k < 7 \<Longrightarrow> MAKEDEVNUM MAJOR_TTY (of_nat i) = MAKEDEVNUM MAJOR_TTY (of_nat k) \<longleftrightarrow> i = k"
  "i < 7 \<Longrightarrow> MAKEDEVNUM MAJOR_KB 0 \<noteq> MAKEDEVNUM MAJOR_TTY (of_nat i)" "i < 7 \<Longrightarrow> MAKEDEVNUM MAJOR_VGA 0 \<noteq> MAKEDEVNUM MAJOR_TTY (of_nat i)"
  "MAKEDEVNUM MAJOR_VGA 0 \<noteq> MAKEDEVNUM MAJOR_KB 0"
proof -
  have s: "i < 7 \<longleftrightarrow> i = 0 \<or> i = 1 \<or> i = 2 \<or> i = 3 \<or> i = 4 \<or> i = 5 \<or> i = 6" for i :: nat by linarith
  show "device_valid (MAKEDEVNUM MAJOR_KB 0)" "device_valid (MAKEDEVNUM MAJOR_VGA 0)" "MAKEDEVNUM MAJOR_VGA 0 \<noteq> MAKEDEVNUM MAJOR_KB 0"
    by (simp_all add: device_valid_def MAKEDEVNUM_def GETMAJOR_def GETSLAVE_def code_defs)
  show "i < 7 \<Longrightarrow> device_valid (MAKEDEVNUM MAJOR_TTY (of_nat i))"
    unfolding s by (elim disjE; simp add: device_valid_def MAKEDEVNUM_def GETMAJOR_def GETSLAVE_def code_defs)
  show "i < 7 \<Longrightarrow> MAKEDEVNUM MAJOR_KB 0 \<noteq> MAKEDEVNUM MAJOR_TTY (of_nat i)" "i < 7 \<Longrightarrow> MAKEDEVNUM MAJOR_VGA 0 \<noteq> MAKEDEVNUM MAJOR_TTY (of_nat i)"
    unfolding s by (elim disjE; simp add: MAKEDEVNUM_def code_defs)+
  show "i < 7 \<Longrightarrow> k < 7 \<Longrightarrow> MAKEDEVNUM MAJOR_TTY (of_nat i) = MAKEDEVNUM MAJOR_TTY (of_nat k) \<longleftrightarrow> i = k"
    unfolding s by (elim disjE; simp add: MAKEDEVNUM_def code_defs)
qed


text \<open>What the data says of each struct.\<close>

lemma module_structs:
  assumes "symbols_ok y"
  shows "dev_structs (module_data y g) (keyboard_dev y) = keyboard_dev_data y"
    and "i < 7 \<Longrightarrow> dev_structs (module_data y g) (tty_devs y ! i) = tty_dev_data y i"
    and "drv_structs (module_data y g) (console_drv_at y) = console_drv_data y"
    and "drv_structs (module_data y g) (vga_drv_at y) = vga_drv_data"
    and "fs_structs (module_data y g) (mfs_at y) = mfs_struct_data y"
proof -
  let ?as = "keyboard_dev y # tty_devs y" let ?xs = "keyboard_dev_data y # List.map (tty_dev_data y) [0..<7]"
  have d: "distinct ?as" "length ?as = length ?xs" "length (tty_devs y) = 7" using assms by (auto simp: symbols_ok_def)
  show "dev_structs (module_data y g) (keyboard_dev y) = keyboard_dev_data y"
    using place_nth [OF d(1,2), of 0 "dev_structs g"] by (simp add: module_data_def del: place.simps)
  show "dev_structs (module_data y g) (tty_devs y ! i) = tty_dev_data y i" if "i < 7"
    using place_nth [OF d(1,2), of "Suc i" "dev_structs g"] that d(3) by (simp add: module_data_def del: place.simps upt.simps)
  show "drv_structs (module_data y g) (console_drv_at y) = console_drv_data y"
    "drv_structs (module_data y g) (vga_drv_at y) = vga_drv_data" "fs_structs (module_data y g) (mfs_at y) = mfs_struct_data y"
    using assms by (auto simp: module_data_def symbols_ok_def)
qed

lemma keyboard_step:
  assumes "symbols_ok y" and "registry_fresh y (devreg s)" and "handle (irqtable s 33) = NULL"
  shows "\<exists>r k h. keyboard_startup hw n hnd (keyboard_dev y) s = Some (r, k) \<and> devreg k = (devreg s)\<lparr>device_head := h\<rparr> \<and>
    (\<forall>j. device_valid j \<longrightarrow> find_device j (devreg k) =
      (if fst (i8042detect hw s) = 0xEE \<and> j = MAKEDEVNUM MAJOR_KB 0 then keyboard_dev y else NULL))"
proof -
  let ?g = "devreg s"
  have none: "find_device j ?g = NULL" for j using assms(2) by (simp add: registry_fresh_def find_device_def Let_def)
  obtain b s1 where d: "i8042detect hw s = (b, s1)" by (cases "i8042detect hw s")
  then have s1: "irqtable s1 = irqtable s" "devreg s1 = ?g" by (auto simp: i8042detect_def outb_def Let_def)
  show ?thesis
  proof (cases "b = 0xEE")
    case False
    have "devreg s1 = ?g\<lparr>device_head := device_head ?g\<rparr>" using s1(2) by simp
    then show ?thesis using False d s1(2) none
      by (intro exI [of _ INVALID] exI [of _ s1] exI [of _ "device_head ?g"]) (simp add: keyboard_startup_def)
  next
    case True
    let ?t = "i8259Asti hw KEYBOARD_HWINT1 (i8259Asti hw KEYBOARD_HWINT1 (set_route KEYBOARD_HWINT1 n hnd s1))"
    have t: "devreg ?t = ?g" using s1(2) by (simp add: i8259Asti_def outb_def set_route_def Let_def)
    have r: "hwregistehandle hw KEYBOARD_HWINT1 n hnd s1 = Some (1, i8259Asti hw KEYBOARD_HWINT1 (set_route KEYBOARD_HWINT1 n hnd s1))"
      by (rule hwregistehandle_free) (use assms(3) s1(1) in \<open>simp_all add: code_defs\<close>)
    have num: "dev_num (dev_structs ?g (keyboard_dev y)) = MAKEDEVNUM MAJOR_KB 0"
      using assms(2) module_structs(1) [OF assms(1)] by (auto simp: registry_fresh_def keyboard_dev_data_def)
    obtain h where h: "register_device (keyboard_dev y) ?g = Some (VALID, ?g\<lparr>device_head := h\<rparr>)"
      "\<forall>j. device_valid j \<longrightarrow> find_device j (?g\<lparr>device_head := h\<rparr>) = (if j = MAKEDEVNUM MAJOR_KB 0 then keyboard_dev y else find_device j ?g)"
      using register_device_takes [of ?g "keyboard_dev y" "MAKEDEVNUM MAJOR_KB 0"] assms(1,2) none num devnums(1)
      by (auto simp: registry_fresh_def device_ok_def symbols_ok_def)
    have "keyboard_startup hw n hnd (keyboard_dev y) s =
        Some (if INVALID = VALID then INVALID else 1, ?t\<lparr>devreg := ?g\<lparr>device_head := h\<rparr>\<rparr>)"
      using True d r t h(1) by (simp add: keyboard_startup_def Let_def)
    then show ?thesis using True d none h(2)
      by (intro exI [of _ "if INVALID = VALID then INVALID else 1"] exI [of _ "?t\<lparr>devreg := ?g\<lparr>device_head := h\<rparr>\<rparr>"] exI [of _ h])
        (simp add: none)
  qed
qed


lemma find_device_head: "device_head g' = device_head g \<Longrightarrow> find_device j g' = find_device j g"
  by (simp add: find_device_def Let_def)

lemma screen_console:
  assumes "symbols_ok y" and "registry_fresh y G" and "g = G\<lparr>device_head := h\<rparr>"
    and "\<forall>j. device_valid j \<longrightarrow> find_device j g = (if kb \<and> j = MAKEDEVNUM MAJOR_KB 0 then keyboard_dev y else NULL)"
  shows "\<exists>r v g'. vga_startup (vga_dev_at y) (vga_drv_at y) fop nm (s\<lparr>vga_reg := g\<rparr>) = Some (r, v) \<and>
    tty_startup (tty_devs y) (console_drv_at y) (vga_reg v) = Some g' \<and>
    find_device (MAKEDEVNUM MAJOR_VGA 0) g' = vga_dev_at y \<and>
    (\<forall>i < 7. find_device (MAKEDEVNUM MAJOR_TTY (of_nat i)) g' = tty_devs y ! i) \<and>
    find_device (MAKEDEVNUM MAJOR_KB 0) g' = (if kb then keyboard_dev y else NULL) \<and>
    driver_head g' = (\<lambda>_. NULL)(0 := vga_drv_at y, 9 := console_drv_at y) \<and> fs_table g' = fs_table G \<and> fs_structs g' = fs_structs G"
proof -
  have y: "length (tty_devs y) = 7" "vga_dev_at y \<noteq> NULL" "NULL \<notin> set (tty_devs y)" "vga_dev_at y \<notin> set (tty_devs y)"
    "vga_drv_at y \<noteq> NULL" "console_drv_at y \<noteq> NULL" "console_drv_at y \<noteq> vga_drv_at y"
    using assms(1) by (auto simp: symbols_ok_def)
  obtain g0 where G: "G = module_data y g0" "lck_device G = unlocked" "driver_head G = (\<lambda>_. NULL)"
    using assms(2) by (auto simp: registry_fresh_def)
  define D where "D = (dev_structs G)(vga_dev_at y := \<lparr>dev_num = MAKEDEVNUM MAJOR_VGA 0, dev_name = nm\<rparr>)"
  define V where "V = (drv_structs G)(vga_drv_at y := vga_drv_data\<lparr>drv_f_op := fop, drv_d_op := NULL\<rparr>)"
  define g1 where "g1 = g\<lparr>dev_structs := D, drv_structs := V\<rparr>"
  have ok: "device_ok g1" using G(2) by (simp add: g1_def assms(3) device_ok_def)
  have find1: "find_device j g1 = find_device j g" for j by (rule find_device_head) (simp add: g1_def)
  have num1: "dev_num (dev_structs g1 (vga_dev_at y)) = MAKEDEVNUM MAJOR_VGA 0" by (simp add: g1_def D_def)
  have free1: "find_device (MAKEDEVNUM MAJOR_VGA 0) g1 = NULL" using devnums(2,7) assms(4) by (simp add: find1)
  obtain h2 where h2: "register_device (vga_dev_at y) g1 = Some (VALID, g1\<lparr>device_head := h2\<rparr>)"
    "\<forall>j. device_valid j \<longrightarrow> find_device j (g1\<lparr>device_head := h2\<rparr>) = (if j = MAKEDEVNUM MAJOR_VGA 0 then vga_dev_at y else find_device j g1)"
    using register_device_takes [OF ok y(2) num1 devnums(2) free1] by blast
  define g3 where "g3 = g1\<lparr>device_head := h2, driver_head := (driver_head G)(0 := vga_drv_at y)\<rparr>"
  have drv: "register_driver (vga_drv_at y) (g1\<lparr>device_head := h2\<rparr>) = (VALID, g3)"
    using y(5) G(3) by (simp add: register_driver_def g1_def g3_def assms(3) V_def vga_drv_data_def Let_def)
  have "drv_structs G (vga_drv_at y) = vga_drv_data" unfolding G(1) by (rule module_structs(4) [OF assms(1)])
  then have v: "vga_startup (vga_dev_at y) (vga_drv_at y) fop nm (s\<lparr>vga_reg := g\<rparr>) = Some (1, s\<lparr>vga_reg := g3\<rparr>)"
    using h2(1) drv by (simp add: vga_startup_def Let_def assms(3) g1_def D_def V_def VALID_def INVALID_def)
  have ok3: "device_ok g3" using ok by (simp add: g3_def device_ok_def)
  have find3: "find_device j g3 = find_device j (g1\<lparr>device_head := h2\<rparr>)" for j by (rule find_device_head) (simp add: g3_def)
  have num: "dev_num (dev_structs g3 (tty_devs y ! i)) = MAKEDEVNUM MAJOR_TTY (of_nat i)" if "i < 7" for i
  proof -
    have "tty_devs y ! i \<in> set (tty_devs y)" using that y(1) by simp
    then have "tty_devs y ! i \<noteq> vga_dev_at y" using y(4) by auto
    then show ?thesis using module_structs(2) [OF assms(1) that, of g0] by (simp add: g3_def g1_def D_def G(1) tty_dev_data_def)
  qed
  have "List.map (dev_num \<circ> dev_structs g3) (tty_devs y) = List.map (\<lambda>i. MAKEDEVNUM MAJOR_TTY (of_nat i)) [0..<7]"
    by (rule nth_equalityI) (use num y(1) in \<open>simp_all add: nth_upt del: upt.simps\<close>)
  then have nums: "List.map (dev_num \<circ> dev_structs g3) (tty_devs y) = List.map (\<lambda>i. MAKEDEVNUM MAJOR_TTY (of_nat i)) [0..<7]" .
  have dist: "distinct (List.map (dev_num \<circ> dev_structs g3) (tty_devs y))"
    unfolding nums by (auto simp: distinct_map inj_on_def devnums(4) simp del: upt.simps)
  have free: "\<forall>d \<in> set (tty_devs y). device_valid (dev_num (dev_structs g3 d)) \<and> find_device (dev_num (dev_structs g3 d)) g3 = NULL"
  proof
    fix d assume "d \<in> set (tty_devs y)"
    then obtain i where i: "i < 7" "d = tty_devs y ! i" using y(1) by (auto simp: in_set_conv_nth)
    have "find_device (MAKEDEVNUM MAJOR_TTY (of_nat i)) g3 = NULL"
      using i(1) devnums(3) [OF i(1)] devnums(5,6) [OF i(1), THEN not_sym] h2(2) assms(4) by (simp add: find3 find1)
    then show "device_valid (dev_num (dev_structs g3 d)) \<and> find_device (dev_num (dev_structs g3 d)) g3 = NULL"
      using i num devnums(3) by simp
  qed
  obtain h4 where h4: "register_all (tty_devs y) g3 = Some (g3\<lparr>device_head := h4\<rparr>)"
    "\<forall>d \<in> set (tty_devs y). find_device (dev_num (dev_structs g3 d)) (g3\<lparr>device_head := h4\<rparr>) = d"
    "\<forall>j. device_valid j \<longrightarrow> j \<notin> set (List.map (dev_num \<circ> dev_structs g3) (tty_devs y)) \<longrightarrow> find_device j (g3\<lparr>device_head := h4\<rparr>) = find_device j g3"
    using register_all_takes [OF ok3 y(3) dist free] by blast
  define g5 where "g5 = g3\<lparr>device_head := h4, driver_head := (driver_head g3)(9 := console_drv_at y)\<rparr>"
  have "drv_structs g3 (console_drv_at y) = console_drv_data y"
    using module_structs(3) [OF assms(1), of g0] y(7) by (simp add: g3_def g1_def V_def G(1))
  then have "register_driver (console_drv_at y) (g3\<lparr>device_head := h4\<rparr>) = (VALID, g5)"
    using y(6) G(3) by (simp add: register_driver_def console_drv_data_def g5_def g3_def code_defs Let_def)
  then have t: "tty_startup (tty_devs y) (console_drv_at y) g3 = Some g5" using h4(1) by (simp add: tty_startup_def)
  have find5: "find_device j g5 = find_device j (g3\<lparr>device_head := h4\<rparr>)" for j by (rule find_device_head) (simp add: g5_def)
  have tty: "find_device (MAKEDEVNUM MAJOR_TTY (of_nat i)) g5 = tty_devs y ! i" if "i < 7" for i
    using h4(2) [rule_format, of "tty_devs y ! i"] num [OF that] that y(1) by (simp add: find5)
  have other: "find_device j g5 = find_device j g3" if "device_valid j" "\<And>i. i < 7 \<Longrightarrow> j \<noteq> MAKEDEVNUM MAJOR_TTY (of_nat i)" for j
  proof -
    have "j \<notin> set (List.map (dev_num \<circ> dev_structs g3) (tty_devs y))"
    proof
      assume "j \<in> set (List.map (dev_num \<circ> dev_structs g3) (tty_devs y))"
      then obtain i where "i < 7" "j = MAKEDEVNUM MAJOR_TTY (of_nat i)" unfolding nums by (auto simp del: upt.simps)
      then show False using that(2) by blast
    qed
    then show ?thesis using h4(3) that(1) unfolding find5 by blast
  qed
  have "find_device (MAKEDEVNUM MAJOR_VGA 0) g5 = vga_dev_at y"
    using other [OF devnums(2) devnums(6)] h2(2) devnums(2) by (simp add: find3)
  moreover have "find_device (MAKEDEVNUM MAJOR_KB 0) g5 = (if kb then keyboard_dev y else NULL)"
    using other [OF devnums(1) devnums(5)] h2(2) devnums(1) devnums(7) [THEN not_sym] assms(4) by (simp add: find3 find1)
  moreover have "driver_head g5 = (\<lambda>_. NULL)(0 := vga_drv_at y, 9 := console_drv_at y)" by (simp add: g5_def g3_def G(3))
  moreover have "fs_table g5 = fs_table G" "fs_structs g5 = fs_structs G" by (simp_all add: g5_def g3_def g1_def assms(3))
  ultimately show ?thesis using v t tty by (intro exI [of _ 1] exI [of _ "s\<lparr>vga_reg := g3\<rparr>"] exI [of _ g5]) simp
qed


lemma registered_fs:
  assumes "fs_structs g p = mfs_struct_data y" and "fs_table g = (\<lambda>_. NULL)" and "p \<noteq> NULL"
  shows "register_fs p g = (VALID, g\<lparr>fs_table := (fs_table g)(0x90 := p)\<rparr>)"
  using assms by (simp add: register_fs_def mfs_struct_data_def code_defs Let_def)

lemma mfs_startup_registers:
  assumes "fs_structs g p = mfs_struct_data y" and "fs_table g = (\<lambda>_. NULL)" and "p \<noteq> NULL"
  shows "\<exists>m. mfs_startup p g s = Some (VALID, g\<lparr>fs_table := (\<lambda>_. NULL)(0x90 := p)\<rparr>, m)"
proof -
  have "kcache_create (64 * sizeof_mfs_core) sizeof_mfs_core kmalloc kfree (heap s) \<noteq> None"
    by (simp add: kcache_create_def sizeof_mfs_core_def Let_def split: prod.split)
  then show ?thesis using registered_fs [OF assms] assms(2) by (auto simp: mfs_startup_def Let_def)
qed

text \<open>C7: From empty tables module_init succeeds: keyboard (if it answered), screen and the seven console
  devices are found by number, MFS has its slot, the console driver is found, and no driver is found
  for keyboard and screen.\<close>

theorem modules_registered:
  assumes "symbols_ok y" and "registry_fresh y (devreg (md_kbd s))" and "\<forall>v \<in> {33, 46, 47}. handle (irqtable (md_kbd s) v) = NULL"
  shows "\<exists>s'. module_init hw y s = Some (VALID, s') \<and>
    (let g = devreg (md_kbd s') in
       find_device (MAKEDEVNUM MAJOR_KB 0) g = (if fst (i8042detect hw (md_kbd s)) = 0xEE then keyboard_dev y else NULL) \<and>
       find_device (MAKEDEVNUM MAJOR_VGA 0) g = vga_dev_at y \<and>
       (\<forall>i < 7. find_device (MAKEDEVNUM MAJOR_TTY (of_nat i)) g = tty_devs y ! i) \<and>
       find_driver (MAKEDEVNUM MAJOR_TTY 0) g = console_drv_at y \<and> find_driver (MAKEDEVNUM MAJOR_KB 0) g = NULL \<and>
       find_driver (MAKEDEVNUM MAJOR_VGA 0) g = NULL \<and> search_driver 0 g = vga_drv_at y \<and> fs_table g (unat MFS_ID) = mfs_at y)"
proof -
  let ?G = "devreg (md_kbd s)"
  have n: "handle (irqtable (md_kbd s) 33) = NULL" "handle (irqtable (md_kbd s) 46) = NULL" "handle (irqtable (md_kbd s) 47) = NULL"
    using assms(3) by simp_all
  obtain r k h where k: "keyboard_startup hw (keyboard_name y) (keyboard_handler y) (keyboard_dev y) (md_kbd s) = Some (r, k)"
    "devreg k = ?G\<lparr>device_head := h\<rparr>"
    "\<forall>j. device_valid j \<longrightarrow> find_device j (devreg k) =
      (if fst (i8042detect hw (md_kbd s)) = 0xEE \<and> j = MAKEDEVNUM MAJOR_KB 0 then keyboard_dev y else NULL)"
    using keyboard_step [OF assms(1,2) n(1)] by blast
  obtain rv v g where v: "vga_startup (vga_dev_at y) (vga_drv_at y) (vga_fop_at y) (vga_name_at y) ((md_vga s)\<lparr>vga_reg := devreg k\<rparr>) = Some (rv, v)"
    "tty_startup (tty_devs y) (console_drv_at y) (vga_reg v) = Some g"
    and g: "find_device (MAKEDEVNUM MAJOR_VGA 0) g = vga_dev_at y" "\<forall>i < 7. find_device (MAKEDEVNUM MAJOR_TTY (of_nat i)) g = tty_devs y ! i"
    "find_device (MAKEDEVNUM MAJOR_KB 0) g = (if fst (i8042detect hw (md_kbd s)) = 0xEE then keyboard_dev y else NULL)"
    "driver_head g = (\<lambda>_. NULL)(0 := vga_drv_at y, 9 := console_drv_at y)" "fs_table g = fs_table ?G" "fs_structs g = fs_structs ?G"
    using screen_console [OF assms(1,2) k(2,3)] by blast
  note t = keyboard_startup_routes [OF n(1) k(1)]
  have "handle (irqtable k 46) = NULL" "handle (irqtable k 47) = NULL" using n by (simp_all add: t)
  then obtain k' where k': "ide_startup hw (ide0_name y) (ide0_at y) (ide1_name y) (ide1_at y) k = Some k'"
    using ide_startup_routes by blast
  have "fs_structs g (mfs_at y) = mfs_struct_data y" "fs_table g = (\<lambda>_. NULL)" "mfs_at y \<noteq> NULL"
    using assms(1,2) g(5,6) module_structs(5) [OF assms(1)] by (auto simp: registry_fresh_def symbols_ok_def)
  then obtain m where m: "mfs_startup (mfs_at y) g (md_mfs s) = Some (VALID, g\<lparr>fs_table := (\<lambda>_. NULL)(0x90 := mfs_at y)\<rparr>, m)"
    using mfs_startup_registers by blast
  let ?g = "g\<lparr>fs_table := (\<lambda>_. NULL)(0x90 := mfs_at y)\<rparr>"
  have f: "find_device j ?g = find_device j g" for j by (rule find_device_head) simp
  have d: "find_driver (MAKEDEVNUM MAJOR_TTY 0) ?g = console_drv_at y" "find_driver (MAKEDEVNUM MAJOR_KB 0) ?g = NULL"
    "find_driver (MAKEDEVNUM MAJOR_VGA 0) ?g = NULL" "search_driver 0 ?g = vga_drv_at y"
    using g(4) by (simp_all add: find_driver_def search_driver_def GETMAJOR_def MAKEDEVNUM_def code_defs)
  show ?thesis using k(1) v k' m g(1-3) f d by (simp add: module_init_def Let_def MFS_ID_def)
qed


section \<open>A start\<close>

definition demo_modules :: mod_symbols where
  "demo_modules = \<lparr>keyboard_devname = 0x10, keyboard_drv_at = 0x20, keyboard_fop_at = 0x30, tty_devname = 0x40, console_fop_at = 0x50,
     mfs_name = 0x60, mfs_fop_at = 0x70, mfs_dop_at = 0x80, keyboard_name = 0x90, keyboard_handler = 0xA0, keyboard_dev = 0xB0,
     vga_dev_at = 0xC0, vga_drv_at = 0xD0, vga_fop_at = 0xE0, vga_name_at = 0xF0,
     tty_devs = [0x100, 0x108, 0x110, 0x118, 0x120, 0x128, 0x130], console_drv_at = 0x140, ide0_name = 0x150, ide0_at = 0x160,
     ide1_name = 0x170, ide1_at = 0x180, mfs_at = 0x190\<rparr>"

theorem modules_registered_witness:
  "\<forall>m. \<exists>s'. module_init latch demo_modules
     \<lparr>md_kbd = demo_kbd\<lparr>devreg := module_data demo_modules demo_registry\<rparr>, md_vga = demo_vga, md_mfs = m\<rparr> = Some (VALID, s') \<and>
     find_device 0x900003 (devreg (md_kbd s')) = 0x118 \<and> find_driver 0x900000 (devreg (md_kbd s')) = 0x140"
proof
  fix m
  let ?s = "\<lparr>md_kbd = demo_kbd\<lparr>devreg := module_data demo_modules demo_registry\<rparr>, md_vga = demo_vga, md_mfs = m\<rparr>"
  have "symbols_ok demo_modules" by (simp add: symbols_ok_def demo_modules_def)
  moreover have "registry_fresh demo_modules (devreg (md_kbd ?s))"
    by (auto simp: registry_fresh_def) (simp_all add: module_data_def demo_registry_def)
  moreover have "\<forall>v \<in> {33, 46, 47}. handle (irqtable (md_kbd ?s) v) = NULL"
    by (simp add: demo_kbd_def intr.extend_def demo_intr_def)
  ultimately obtain s' where s': "module_init latch demo_modules ?s = Some (VALID, s')"
    "\<forall>i < 7. find_device (MAKEDEVNUM MAJOR_TTY (of_nat i)) (devreg (md_kbd s')) = tty_devs demo_modules ! i"
    "find_driver (MAKEDEVNUM MAJOR_TTY 0) (devreg (md_kbd s')) = console_drv_at demo_modules"
    using modules_registered [of demo_modules ?s latch] by (auto simp: Let_def)
  have "MAKEDEVNUM MAJOR_TTY (of_nat 3) = 0x900003" "MAKEDEVNUM MAJOR_TTY 0 = 0x900000" by (simp_all add: MAKEDEVNUM_def code_defs)
  then show "\<exists>s'. module_init latch demo_modules ?s = Some (VALID, s') \<and>
     find_device 0x900003 (devreg (md_kbd s')) = 0x118 \<and> find_driver 0x900000 (devreg (md_kbd s')) = 0x140"
    using s'(1,3) s'(2) [rule_format, of 3] by (simp add: demo_modules_def)
qed

end
