(* ===== verification/Keymap.thy ===== *)
theory Keymap
  imports Keyboard
begin

text \<open>
  The key codes of \<^verbatim>\<open>include/drivers/keyboard.h\<close> and the table of \<^verbatim>\<open>drivers/keymap_US.c\<close>: a row for each of the 128 scan
  codes, with the codes of the key alone, with shift and behind the prefix \<^verbatim>\<open>E0\<close>. The table is the rows one
  after the other, as the array has them; an index behind it is \<^const>\<open>None\<close>.
\<close>

section \<open>Key codes\<close>

definition MAP_COLS :: nat where [code_defs]: "MAP_COLS = 3"
definition NR_SCAN_CODES :: nat where [code_defs]: "NR_SCAN_CODES = 0x80"
definition FLAG_EXT :: u32 where [code_defs]: "FLAG_EXT = 0x0100"
definition MASK_RAW :: u32 where [code_defs]: "MASK_RAW = 0x01FF"
definition ESC :: u32 where [code_defs]: "ESC = 0x01 + FLAG_EXT"
definition TAB :: u32 where [code_defs]: "TAB = 0x02 + FLAG_EXT"
definition ENTER :: u32 where [code_defs]: "ENTER = 0x03 + FLAG_EXT"
definition BACKSPACE :: u32 where [code_defs]: "BACKSPACE = 0x04 + FLAG_EXT"
definition GUI_L :: u32 where [code_defs]: "GUI_L = 0x05 + FLAG_EXT"
definition GUI_R :: u32 where [code_defs]: "GUI_R = 0x06 + FLAG_EXT"
definition APPS :: u32 where [code_defs]: "APPS = 0x07 + FLAG_EXT"
definition SHIFT_L :: u32 where [code_defs]: "SHIFT_L = 0x08 + FLAG_EXT"
definition SHIFT_R :: u32 where [code_defs]: "SHIFT_R = 0x09 + FLAG_EXT"
definition CTRL_L :: u32 where [code_defs]: "CTRL_L = 0x0A + FLAG_EXT"
definition CTRL_R :: u32 where [code_defs]: "CTRL_R = 0x0B + FLAG_EXT"
definition ALT_L :: u32 where [code_defs]: "ALT_L = 0x0C + FLAG_EXT"
definition ALT_R :: u32 where [code_defs]: "ALT_R = 0x0D + FLAG_EXT"
definition CAPS_LOCK :: u32 where [code_defs]: "CAPS_LOCK = 0x0E + FLAG_EXT"
definition NUM_LOCK :: u32 where [code_defs]: "NUM_LOCK = 0x0F + FLAG_EXT"
definition SCROLL_LOCK :: u32 where [code_defs]: "SCROLL_LOCK = 0x10 + FLAG_EXT"
definition F1 :: u32 where [code_defs]: "F1 = 0x11 + FLAG_EXT"
definition F2 :: u32 where [code_defs]: "F2 = 0x12 + FLAG_EXT"
definition F3 :: u32 where [code_defs]: "F3 = 0x13 + FLAG_EXT"
definition F4 :: u32 where [code_defs]: "F4 = 0x14 + FLAG_EXT"
definition F5 :: u32 where [code_defs]: "F5 = 0x15 + FLAG_EXT"
definition F6 :: u32 where [code_defs]: "F6 = 0x16 + FLAG_EXT"
definition F7 :: u32 where [code_defs]: "F7 = 0x17 + FLAG_EXT"
definition F8 :: u32 where [code_defs]: "F8 = 0x18 + FLAG_EXT"
definition F9 :: u32 where [code_defs]: "F9 = 0x19 + FLAG_EXT"
definition F10 :: u32 where [code_defs]: "F10 = 0x1A + FLAG_EXT"
definition F11 :: u32 where [code_defs]: "F11 = 0x1B + FLAG_EXT"
definition F12 :: u32 where [code_defs]: "F12 = 0x1C + FLAG_EXT"
definition PRINTSCREEN :: u32 where [code_defs]: "PRINTSCREEN = 0x1D + FLAG_EXT"
definition PAUSEBREAK :: u32 where [code_defs]: "PAUSEBREAK = 0x1E + FLAG_EXT"
definition INSERT :: u32 where [code_defs]: "INSERT = 0x1F + FLAG_EXT"
definition DELETE :: u32 where [code_defs]: "DELETE = 0x20 + FLAG_EXT"
definition HOME :: u32 where [code_defs]: "HOME = 0x21 + FLAG_EXT"
definition END :: u32 where [code_defs]: "END = 0x22 + FLAG_EXT"
definition PAGEUP :: u32 where [code_defs]: "PAGEUP = 0x23 + FLAG_EXT"
definition PAGEDOWN :: u32 where [code_defs]: "PAGEDOWN = 0x24 + FLAG_EXT"
definition UP :: u32 where [code_defs]: "UP = 0x25 + FLAG_EXT"
definition DOWN :: u32 where [code_defs]: "DOWN = 0x26 + FLAG_EXT"
definition LEFT :: u32 where [code_defs]: "LEFT = 0x27 + FLAG_EXT"
definition RIGHT :: u32 where [code_defs]: "RIGHT = 0x28 + FLAG_EXT"
definition POWER :: u32 where [code_defs]: "POWER = 0x29 + FLAG_EXT"
definition SLEEP :: u32 where [code_defs]: "SLEEP = 0x2A + FLAG_EXT"
definition WAKE :: u32 where [code_defs]: "WAKE = 0x2B + FLAG_EXT"
definition PAD_SLASH :: u32 where [code_defs]: "PAD_SLASH = 0x2C + FLAG_EXT"
definition PAD_STAR :: u32 where [code_defs]: "PAD_STAR = 0x2D + FLAG_EXT"
definition PAD_MINUS :: u32 where [code_defs]: "PAD_MINUS = 0x2E + FLAG_EXT"
definition PAD_PLUS :: u32 where [code_defs]: "PAD_PLUS = 0x2F + FLAG_EXT"
definition PAD_ENTER :: u32 where [code_defs]: "PAD_ENTER = 0x30 + FLAG_EXT"
definition PAD_DOT :: u32 where [code_defs]: "PAD_DOT = 0x31 + FLAG_EXT"
definition PAD_0 :: u32 where [code_defs]: "PAD_0 = 0x32 + FLAG_EXT"
definition PAD_1 :: u32 where [code_defs]: "PAD_1 = 0x33 + FLAG_EXT"
definition PAD_2 :: u32 where [code_defs]: "PAD_2 = 0x34 + FLAG_EXT"
definition PAD_3 :: u32 where [code_defs]: "PAD_3 = 0x35 + FLAG_EXT"
definition PAD_4 :: u32 where [code_defs]: "PAD_4 = 0x36 + FLAG_EXT"
definition PAD_5 :: u32 where [code_defs]: "PAD_5 = 0x37 + FLAG_EXT"
definition PAD_6 :: u32 where [code_defs]: "PAD_6 = 0x38 + FLAG_EXT"
definition PAD_7 :: u32 where [code_defs]: "PAD_7 = 0x39 + FLAG_EXT"
definition PAD_8 :: u32 where [code_defs]: "PAD_8 = 0x3A + FLAG_EXT"
definition PAD_9 :: u32 where [code_defs]: "PAD_9 = 0x3B + FLAG_EXT"
definition PAD_UP :: u32 where [code_defs]: "PAD_UP = PAD_8"
definition PAD_DOWN :: u32 where [code_defs]: "PAD_DOWN = PAD_2"
definition PAD_LEFT :: u32 where [code_defs]: "PAD_LEFT = PAD_4"
definition PAD_RIGHT :: u32 where [code_defs]: "PAD_RIGHT = PAD_6"
definition PAD_HOME :: u32 where [code_defs]: "PAD_HOME = PAD_7"
definition PAD_END :: u32 where [code_defs]: "PAD_END = PAD_1"
definition PAD_PGUP :: u32 where [code_defs]: "PAD_PGUP = PAD_9"
definition PAD_PGDOWN :: u32 where [code_defs]: "PAD_PGDOWN = PAD_3"
definition PAD_INS :: u32 where [code_defs]: "PAD_INS = PAD_0"
definition PAD_MID :: u32 where [code_defs]: "PAD_MID = PAD_5"
definition PAD_DEL :: u32 where [code_defs]: "PAD_DEL = PAD_DOT"

section \<open>The table\<close>

definition asc :: "char \<Rightarrow> u32" where
  "asc c = of_char c"

definition keymap_rows :: "(u32 \<times> u32 \<times> u32) list" where
  "keymap_rows =
     [(0, 0, 0),
      (ESC, ESC, 0),
      (asc (CHR ''1''), asc (CHR ''!''), 0),
      (asc (CHR ''2''), asc (CHR ''@''), 0),
      (asc (CHR ''3''), asc (CHR ''#''), 0),
      (asc (CHR ''4''), asc (CHR ''$''), 0),
      (asc (CHR ''5''), asc (CHR ''%''), 0),
      (asc (CHR ''6''), asc (CHR ''^''), 0),
      (asc (CHR ''7''), asc (CHR ''&''), 0),
      (asc (CHR ''8''), asc (CHR ''*''), 0),
      (asc (CHR ''9''), asc (CHR ''(''), 0),
      (asc (CHR ''0''), asc (CHR '')''), 0),
      (asc (CHR ''-''), asc (CHR ''_''), 0),
      (asc (CHR ''=''), asc (CHR ''+''), 0),
      (BACKSPACE, BACKSPACE, 0),
      (TAB, TAB, 0),
      (asc (CHR ''q''), asc (CHR ''Q''), 0),
      (asc (CHR ''w''), asc (CHR ''W''), 0),
      (asc (CHR ''e''), asc (CHR ''E''), 0),
      (asc (CHR ''r''), asc (CHR ''R''), 0),
      (asc (CHR ''t''), asc (CHR ''T''), 0),
      (asc (CHR ''y''), asc (CHR ''Y''), 0),
      (asc (CHR ''u''), asc (CHR ''U''), 0),
      (asc (CHR ''i''), asc (CHR ''I''), 0),
      (asc (CHR ''o''), asc (CHR ''O''), 0),
      (asc (CHR ''p''), asc (CHR ''P''), 0),
      (asc (CHR ''[''), asc (CHR ''{''), 0),
      (asc (CHR '']''), asc (CHR ''}''), 0),
      (ENTER, ENTER, PAD_ENTER),
      (CTRL_L, CTRL_L, CTRL_R),
      (asc (CHR ''a''), asc (CHR ''A''), 0),
      (asc (CHR ''s''), asc (CHR ''S''), 0),
      (asc (CHR ''d''), asc (CHR ''D''), 0),
      (asc (CHR ''f''), asc (CHR ''F''), 0),
      (asc (CHR ''g''), asc (CHR ''G''), 0),
      (asc (CHR ''h''), asc (CHR ''H''), 0),
      (asc (CHR ''j''), asc (CHR ''J''), 0),
      (asc (CHR ''k''), asc (CHR ''K''), 0),
      (asc (CHR ''l''), asc (CHR ''L''), 0),
      (asc (CHR '';''), asc (CHR '':''), 0),
      (asc (CHR 0x27), asc (CHR 0x22), 0),
      (asc (CHR 0x60), asc (CHR ''~''), 0),
      (SHIFT_L, SHIFT_L, 0),
      (asc (CHR 0x5C), asc (CHR ''|''), 0),
      (asc (CHR ''z''), asc (CHR ''Z''), 0),
      (asc (CHR ''x''), asc (CHR ''X''), 0),
      (asc (CHR ''c''), asc (CHR ''C''), 0),
      (asc (CHR ''v''), asc (CHR ''V''), 0),
      (asc (CHR ''b''), asc (CHR ''B''), 0),
      (asc (CHR ''n''), asc (CHR ''N''), 0),
      (asc (CHR ''m''), asc (CHR ''M''), 0),
      (asc (CHR '',''), asc (CHR ''<''), 0),
      (asc (CHR ''.''), asc (CHR ''>''), 0),
      (asc (CHR ''/''), asc (CHR ''?''), PAD_SLASH),
      (SHIFT_R, SHIFT_R, 0),
      (asc (CHR ''*''), asc (CHR ''*''), 0),
      (ALT_L, ALT_L, ALT_R),
      (asc (CHR '' ''), asc (CHR '' ''), 0),
      (CAPS_LOCK, CAPS_LOCK, 0),
      (F1, F1, 0),
      (F2, F2, 0),
      (F3, F3, 0),
      (F4, F4, 0),
      (F5, F5, 0),
      (F6, F6, 0),
      (F7, F7, 0),
      (F8, F8, 0),
      (F9, F9, 0),
      (F10, F10, 0),
      (NUM_LOCK, NUM_LOCK, 0),
      (SCROLL_LOCK, SCROLL_LOCK, 0),
      (PAD_HOME, asc (CHR ''7''), HOME),
      (PAD_UP, asc (CHR ''8''), UP),
      (PAD_PGUP, asc (CHR ''9''), PAGEUP),
      (PAD_MINUS, asc (CHR ''-''), 0),
      (PAD_LEFT, asc (CHR ''4''), LEFT),
      (PAD_MID, asc (CHR ''5''), 0),
      (PAD_RIGHT, asc (CHR ''6''), RIGHT),
      (PAD_PLUS, asc (CHR ''+''), 0),
      (PAD_END, asc (CHR ''1''), END),
      (PAD_DOWN, asc (CHR ''2''), DOWN),
      (PAD_PGDOWN, asc (CHR ''3''), PAGEDOWN),
      (PAD_INS, asc (CHR ''0''), INSERT),
      (PAD_DOT, asc (CHR ''.''), DELETE),
      (0, 0, 0),
      (asc (CHR ''?''), 0, 0),
      (asc (CHR ''?''), 0, 0),
      (F11, F11, 0),
      (F12, F12, 0),
      (asc (CHR ''?''), 0, 0),
      (asc (CHR ''?''), 0, 0),
      (asc (CHR ''?''), 0, GUI_L),
      (asc (CHR ''?''), 0, GUI_R),
      (asc (CHR ''?''), 0, APPS),
      (asc (CHR ''?''), 0, 0),
      (asc (CHR ''?''), 0, 0),
      (asc (CHR ''?''), 0, 0),
      (asc (CHR ''?''), 0, 0),
      (asc (CHR ''?''), 0, 0),
      (asc (CHR ''?''), 0, 0),
      (asc (CHR ''?''), 0, 0),
      (asc (CHR ''?''), 0, 0),
      (asc (CHR ''?''), 0, 0),
      (asc (CHR ''?''), 0, 0),
      (asc (CHR ''?''), 0, 0),
      (asc (CHR ''?''), 0, 0),
      (asc (CHR ''?''), 0, 0),
      (asc (CHR ''?''), 0, 0),
      (asc (CHR ''?''), 0, 0),
      (asc (CHR ''?''), 0, 0),
      (asc (CHR ''?''), 0, 0),
      (asc (CHR ''?''), 0, 0),
      (asc (CHR ''?''), 0, 0),
      (asc (CHR ''?''), 0, 0),
      (asc (CHR ''?''), 0, 0),
      (asc (CHR ''?''), 0, 0),
      (asc (CHR ''?''), 0, 0),
      (asc (CHR ''?''), 0, 0),
      (asc (CHR ''?''), 0, 0),
      (asc (CHR ''?''), 0, 0),
      (asc (CHR ''?''), 0, 0),
      (asc (CHR ''?''), 0, 0),
      (asc (CHR ''?''), 0, 0),
      (asc (CHR ''?''), 0, 0),
      (asc (CHR ''?''), 0, 0),
      (asc (CHR ''?''), 0, 0),
      (asc (CHR ''?''), 0, 0),
      (asc (CHR ''?''), 0, 0)]"

definition keymap :: "u32 list" where
  "keymap = concat (List.map (\<lambda>(a, b, c). [a, b, c]) keymap_rows)"

definition keymap_at :: "nat \<Rightarrow> u32 option" where
  "keymap_at i = (if i < length keymap then Some (keymap ! i) else None)"


section \<open>What the table holds\<close>

lemma length_rows: "length keymap_rows = 128"
  by (simp add: keymap_rows_def)

lemma length_concat3: "length (concat (List.map (\<lambda>(a, b, c). [a, b, c]) xs)) = 3 * length xs"
  by (induction xs) auto

lemma nth_concat3:
  "i < length xs \<Longrightarrow> concat (List.map (\<lambda>(a, b, c). [a, b, c]) xs) ! (3 * i) = fst (xs ! i)"
proof (induction xs arbitrary: i)
  case (Cons x xs)
  obtain a b c where x: "x = (a, b, c)" by (cases x)
  show ?case
  proof (cases i)
    case (Suc j)
    have "3 * i = Suc (Suc (Suc (3 * j)))" using Suc by simp
    then show ?thesis using Cons Suc x by simp
  qed (use x in simp)
qed simp

lemma length_keymap: "length keymap = 384"
  by (simp add: keymap_def length_concat3 length_rows)

text \<open>A row of the table is the entry the index of its scan code times the number of columns selects.\<close>

lemma keymap_at_row: "c < 128 \<Longrightarrow> keymap_at (c * 3) = Some (fst (keymap_rows ! c))"
  using nth_concat3 [of c keymap_rows] by (simp add: keymap_at_def length_keymap length_rows mult.commute [of c]) (simp add: keymap_def)

text \<open>A key code: nothing, a printable character, or a special key.\<close>

definition keycode :: "u32 \<Rightarrow> bool" where
  "keycode x \<longleftrightarrow> x = 0 \<or> 0x20 \<le> x \<and> x < 0x7F \<or> FLAG_EXT < x \<and> x \<le> PAD_9"

lemma concat3_all: "list_all P (concat (List.map (\<lambda>(a, b, c). [a, b, c]) xs)) \<longleftrightarrow> list_all (\<lambda>(a, b, c). P a \<and> P b \<and> P c) xs"
  by (induction xs) auto

lemma rows_codes: "list_all (\<lambda>(a, b, c). keycode a \<and> keycode b \<and> keycode c) keymap_rows"
  by (simp add: keymap_rows_def keycode_def asc_def code_defs)

lemma keycode_raw: "keycode x \<Longrightarrow> x AND MASK_RAW = x"
proof -
  assume "keycode x"
  then have "x < 0x200" by (auto simp: keycode_def code_defs word_less_nat_alt word_le_nat_alt)
  then have "take_bit 9 x = x" by (simp add: word_less_nat_alt word_unat_eq_iff unsigned_take_bit_eq take_bit_nat_eq_self_iff)
  moreover have "MASK_RAW = mask 9" by (simp add: MASK_RAW_def mask_eq_exp_minus_1)
  ultimately show "x AND MASK_RAW = x" by (simp add: take_bit_eq_mask)
qed

text \<open>The key table has three entries for each of the 128 scan codes, and every entry is 0, a printable
  character or one of the special keys, and fits the mask of raw codes.\<close>

lemma keymap_codes: "length keymap = NR_SCAN_CODES * MAP_COLS \<and> list_all (\<lambda>x. keycode x \<and> x AND MASK_RAW = x) keymap"
proof -
  have "list_all keycode keymap" unfolding keymap_def concat3_all by (rule rows_codes)
  then show ?thesis using length_keymap by (simp add: list_all_iff keycode_raw NR_SCAN_CODES_def MAP_COLS_def)
qed

text \<open>
  What the keys of the American layout stand for, written down from the layout and not from the table: the rows
  of the keyboard from left to right, by the scan code of their first key.
\<close>

definition key_row :: "nat \<Rightarrow> string \<Rightarrow> (u8 \<times> char) list" where
  "key_row first keys = zip (List.map of_nat [first..<first + length keys]) keys"

definition us_keys :: "(u8 \<times> char) list" where
  "us_keys = key_row 0x02 ''1234567890-='' @ key_row 0x10 ''qwertyuiop[]'' @ key_row 0x1E (''asdfghjkl;'' @ [CHR 0x27, CHR 0x60]) @
     key_row 0x2B (CHR 0x5C # ''zxcvbnm,./'') @ key_row 0x39 '' ''"

lemma us_keys_in_table: "list_all (\<lambda>(c, ch). c < 0x80 \<and> fst (keymap_rows ! unat c) = of_char ch) us_keys"
  by (simp add: us_keys_def key_row_def keymap_rows_def asc_def upt_rec)

text \<open>The shift column of a letter is its capital.\<close>

lemma keymap_capitals: "list_all (\<lambda>(a, b, c). 97 \<le> a \<and> a < 123 \<longrightarrow> b = a - 32) keymap_rows"
  by (simp add: keymap_rows_def asc_def code_defs)

end
