(* ===== verification/Kmain.thy ===== *)
theory Kmain
  imports Boot Keymap Printk Clock
begin

text \<open>
  The second half of \<^verbatim>\<open>kmain\<close> in \<^verbatim>\<open>kernel/kmain.c\<close>: the report on the heap and the endless loop that reads a key, echoes it,
  waits for the next interrupt and prints date and time. The bytes of the keyboard are a list, one per interrupt;
  what the clock holds in a round is the argument \<^verbatim>\<open>cmos\<close>. Local variables, arguments and strings lie at the
  addresses of \<^verbatim>\<open>kmain_symbols\<close>. An index behind the key table or behind the names of the days is \<^const>\<open>None\<close>, and
  so is waiting for a byte that never comes.
\<close>

section \<open>Operations\<close>

record kmain_symbols =
  code_at :: addr
  args_slot :: addr
  kbuf_at :: addr
  core_slot :: addr
  newline_at :: addr
  fmt_alloc :: addr
  fmt_panic :: addr
  fmt_char :: addr
  fmt_date :: addr
  day_names :: "addr list"

record kloop =
  kl_kbd :: kbd
  kl_mem :: mem
  kl_kx :: u8
  kl_ky :: u8

text \<open>The screen and the interrupt controller are reached through the same ports.\<close>

definition kl_screen :: "kloop \<Rightarrow> kscreen" where
  "kl_screen s = \<lparr>port_in = port_in (kl_kbd s), port_out = port_out (kl_kbd s), scr_mem = kl_mem s, kx = kl_kx s, ky = kl_ky s\<rparr>"

definition with_screen :: "kscreen \<Rightarrow> kloop \<Rightarrow> kloop" where
  "with_screen k s = s\<lparr>kl_kbd := (kl_kbd s)\<lparr>port_in := port_in k, port_out := port_out k\<rparr>, kl_mem := scr_mem k, kl_kx := kx k, kl_ky := ky k\<rparr>"

definition call_printk :: "hardware \<Rightarrow> kmain_symbols \<Rightarrow> u32 list \<Rightarrow> kloop \<Rightarrow> kloop option" where
  "call_printk hw y ws s =
     map_option (\<lambda>(_, k). with_screen k s)
       (printk hw (kbuf_at y) (core_slot y) (newline_at y) (args_slot y)
          ((kl_screen s)\<lparr>scr_mem := push_args (args_slot y) ws (kl_mem s)\<rparr>))"

definition call_kprintf :: "hardware \<Rightarrow> kmain_symbols \<Rightarrow> u32 list \<Rightarrow> kloop \<Rightarrow> kloop option" where
  "call_kprintf hw y ws s =
     map_option (\<lambda>(_, k). with_screen k s)
       (kprintf hw (kbuf_at y) (args_slot y) ((kl_screen s)\<lparr>scr_mem := push_args (args_slot y) ws (kl_mem s)\<rparr>))"

definition kmain_report :: "hardware \<Rightarrow> kmain_symbols \<Rightarrow> addr \<Rightarrow> kloop \<Rightarrow> kloop option" where
  "kmain_report hw y hp s =
     Option.bind (call_printk hw y [fmt_alloc y, hp, (hp - 0x00400400) div (1024 * 1024)] s)
       (call_printk hw y [fmt_panic y])"

definition kmain_echo :: "hardware \<Rightarrow> kmain_symbols \<Rightarrow> u8 list \<Rightarrow> kloop \<Rightarrow> (u8 list \<times> kloop) option" where
  "kmain_echo hw y codes s =
     (case keyboard_kread hw codes (code_at y) 1 (kl_mem s) (kl_kbd s) of
        None \<Rightarrow> None
      | Some (_, cs, m, kb) \<Rightarrow>
          (case keymap_at (unat (load32 m (code_at y) AND 0xFF) * 3) of
             None \<Rightarrow> None
           | Some v \<Rightarrow> map_option (Pair cs) (call_kprintf hw y [fmt_char y, v] (s\<lparr>kl_kbd := kb, kl_mem := m\<rparr>))))"

text \<open>\<^verbatim>\<open>hlt\<close>: the next byte of the keyboard ends it.\<close>

fun kmain_hlt :: "hardware \<Rightarrow> u8 list \<Rightarrow> kloop \<Rightarrow> (u8 list \<times> kloop) option" where
  "kmain_hlt hw [] s = None"
| "kmain_hlt hw (c # cs) s =
     Some (cs, s\<lparr>kl_kbd := keyboardhandle hw ((kl_kbd s)\<lparr>port_in := (port_in (kl_kbd s))(I8042INPUTBYF := c)\<rparr>)\<rparr>)"

definition BCD :: "u32 \<Rightarrow> u32" where
  "BCD d = drop_bit 4 d * 10 + (d AND 0x0F)"

definition date_args :: "cmos \<Rightarrow> u32 list" where
  "date_args cmos =
     (let t = gettime cmos; d = getdate cmos
      in [BCD (YEAR d), BCD (MONTH d), BCD (DAY d), BCD (HOUR t), BCD (MINI t), BCD (SECOND t)])"

text \<open>The names of the days, spelled as the array has them; \<^verbatim>\<open>day_names\<close> are their addresses.\<close>

definition ddd :: "string list" where
  "ddd = ['''', ''Monday'', ''Turthday'', ''Wednesday'', ''Thurthday'', ''Friday'', ''Statuday'', ''Sunday'']"

definition kmain_clock :: "hardware \<Rightarrow> kmain_symbols \<Rightarrow> cmos \<Rightarrow> kloop \<Rightarrow> kloop option" where
  "kmain_clock hw y cmos s =
     (let w = unat (WEEKDAY (getdate cmos))
      in if w < length ddd then call_printk hw y ([fmt_date y] @ date_args cmos @ [day_names y ! w]) s else None)"

definition kmain_round :: "hardware \<Rightarrow> kmain_symbols \<Rightarrow> cmos \<Rightarrow> u8 list \<Rightarrow> kloop \<Rightarrow> (u8 list \<times> kloop) option" where
  "kmain_round hw y cmos codes s =
     (case kmain_echo hw y codes s of
        None \<Rightarrow> None
      | Some (cs, s) \<Rightarrow>
     (case kmain_hlt hw cs s of
        None \<Rightarrow> None
      | Some (cs, s) \<Rightarrow> map_option (Pair cs) (kmain_clock hw y cmos (s\<lparr>kl_kbd := sti (kl_kbd s)\<rparr>))))"

text \<open>The loop, a round for every state of the clock.\<close>

fun kmain_rounds :: "hardware \<Rightarrow> kmain_symbols \<Rightarrow> cmos list \<Rightarrow> u8 list \<Rightarrow> kloop \<Rightarrow> (u8 list \<times> kloop) option" where
  "kmain_rounds hw y [] codes s = Some (codes, s)"
| "kmain_rounds hw y (c # clocks) codes s =
     (case kmain_round hw y c codes s of None \<Rightarrow> None | Some (cs, s) \<Rightarrow> kmain_rounds hw y clocks cs s)"


section \<open>The key table is indexed with the byte of the key\<close>

lemma low_byte: "scancode (makescancode k ch) AND 0xFF = ucast ch"
proof -
  have m: "(0xFF :: u32) = mask 8" by (simp add: mask_eq_exp_minus_1)
  show ?thesis
  proof (rule bit_word_eqI)
    fix n assume "n < LENGTH(32)"
    show "bit (scancode (makescancode k ch) AND 0xFF) n \<longleftrightarrow> bit (ucast ch :: u32) n"
    proof (cases "n < 8")
      case True
      then show ?thesis unfolding m by (simp add: bit_and_iff bit_mask_iff makescancode_layout bit_ucast_iff)
    next
      case False
      then show ?thesis unfolding m using bit_imp_le_length [of ch n] by (auto simp: bit_and_iff bit_mask_iff bit_ucast_iff)
    qed
  qed
qed

lemma no_case_silent: "key_case ch k = None \<Longrightarrow> \<not> ch < 0x80 \<Longrightarrow> silent ch"
  by (simp add: silent_def key_case_def split: if_split_asm)

lemma loud_code:
  assumes "\<not> silent c"
  shows "scancode (key_step c k) AND 0xFF = ucast c"
  using no_case_silent [of c k] assms by (auto simp: key_step_def low_byte split: option.split)

lemma keymap_at_byte: "keymap_at (unat (c :: u8) * 3) = (if c < 0x80 then Some (fst (keymap_rows ! unat c)) else None)"
proof -
  have b: "c < 0x80 \<longleftrightarrow> unat c < 128" by (simp add: word_less_nat_alt)
  show ?thesis unfolding b using keymap_at_row [of "unat c"] by (simp add: keymap_at_def length_keymap)
qed

section \<open>The echo\<close>

text \<open>The state in which the echo prints: the variable holds the code word of the key.\<close>

abbreviation key_stored :: "kmain_symbols \<Rightarrow> u8 \<Rightarrow> kloop \<Rightarrow> kbd \<Rightarrow> kloop" where
  "key_stored y c s kb \<equiv>
     s\<lparr>kl_kbd := kb, kl_mem := store32 (code_at y) (scancode (key_step c ((keystatus (kl_kbd s))\<lparr>newinput := 0\<rparr>))) (kl_mem s)\<rparr>"

lemma echo_byte:
  assumes "\<forall>q \<in> set qs. silent q" and "\<not> silent c"
  shows "\<exists>kb. kmain_echo hw y (qs @ c # rest) s =
    (case keymap_at (unat c * 3) of
       None \<Rightarrow> None
     | Some v \<Rightarrow> map_option (Pair rest) (call_kprintf hw y [fmt_char y, v] (key_stored y c s kb)))"
proof -
  have "0 <s (1 :: cint)" by (simp add: word_sless_alt)
  from kread_first [OF assms this, of hw rest "code_at y" "kl_mem s" "kl_kbd s"] obtain kb
    where "keyboard_kread hw (qs @ c # rest) (code_at y) 1 (kl_mem s) (kl_kbd s) =
      Some (1, rest, store32 (code_at y) (scancode (key_step c ((keystatus (kl_kbd s))\<lparr>newinput := 0\<rparr>))) (kl_mem s), kb)" by blast
  then have "kmain_echo hw y (qs @ c # rest) s =
    (case keymap_at (unat c * 3) of
       None \<Rightarrow> None
     | Some v \<Rightarrow> map_option (Pair rest) (call_kprintf hw y [fmt_char y, v] (key_stored y c s kb)))"
    by (simp add: kmain_echo_def loud_code [OF assms(2)])
  then show ?thesis by blast
qed

text \<open>C10: The echo of kmain indexes the key table with three times the byte of the first key that is not
  the release of an ordinary one: it prints the entry there when that lies inside the table, and reads
  behind the table otherwise, as for the release of a shift key.\<close>

theorem kmain_echo_index:
  assumes "\<forall>q \<in> set qs. silent q" and "\<not> silent c"
  shows "\<exists>kb. kmain_echo hw y (qs @ c # rest) s =
    (if 3 * unat c < length keymap
     then map_option (Pair rest) (call_kprintf hw y [fmt_char y, keymap ! (3 * unat c)] (key_stored y c s kb))
     else None)"
  using echo_byte [OF assms, of hw y rest s] by (cases "unat c * 3 < length keymap") (simp_all add: keymap_at_def mult.commute)

text \<open>The variable, the arguments, the format, the buffer and the cell do not overlap.\<close>

definition echo_layout :: "kmain_symbols \<Rightarrow> kloop \<Rightarrow> bool" where
  "echo_layout y s \<longleftrightarrow>
     (let args = word_at (args_slot y) \<union> word_at (args_slot y + 4); f = {fmt_char y, fmt_char y + 1, fmt_char y + 2};
          p = cell (kl_kx s) (kl_ky s)
      in f \<inter> (word_at (code_at y) \<union> args) = {} \<and> {kbuf_at y, kbuf_at y + 1} \<inter> (f \<union> args \<union> {p, p + 1}) = {} \<and>
         holds (kl_mem s) (fmt_char y) [37, 99, 0])"

lemma less_two: "(x :: u32) < 2 \<longleftrightarrow> x = 0 \<or> x = 1"
proof -
  have "unat x < 2 \<longleftrightarrow> unat x = 0 \<or> unat x = 1" by linarith
  then show ?thesis by (simp add: word_less_nat_alt word_unat_eq_iff)
qed

lemma less_one': "(a :: addr) - p < 1 \<longleftrightarrow> a = p"
  by (simp add: word_less_nat_alt unat_eq_0)

lemma within_two: "(a :: addr) - p < 2 \<longleftrightarrow> a = p \<or> a = p + 1"
  unfolding less_two by (auto simp: diff_eq_eq add.commute)

lemma kprintf_char:
  assumes "echo_layout y s" and "plain (ucast v)" and "unat (kl_kx s) < 79"
  shows "\<exists>s'. call_kprintf hw y [fmt_char y, v] (s\<lparr>kl_kbd := kb, kl_mem := store32 (code_at y) w (kl_mem s)\<rparr>) = Some s' \<and>
    kl_mem s' (cell (kl_kx s) (kl_ky s)) = ucast v \<and> kl_mem s' (cell (kl_kx s) (kl_ky s) + 1) = 7 \<and>
    kl_kx s' = kl_kx s + 1 \<and> kl_ky s' = kl_ky s"
proof -
  define M where "M = push_args (args_slot y) [fmt_char y, v] (store32 (code_at y) w (kl_mem s))"
  let ?k = "(kl_screen (s\<lparr>kl_kbd := kb, kl_mem := store32 (code_at y) w (kl_mem s)\<rparr>))\<lparr>scr_mem := M\<rparr>"
  have f: "kx ?k = kl_kx s" "ky ?k = kl_ky s" "scr_mem ?k = M" by (simp_all add: kl_screen_def)
  have l: "b \<notin> word_at (code_at y)" "b \<notin> word_at (args_slot y)" "b \<notin> word_at (args_slot y + 4)" "b \<noteq> kbuf_at y" "b \<noteq> kbuf_at y + 1"
    if "b \<in> {fmt_char y, fmt_char y + 1, fmt_char y + 2}" for b
    using assms(1) that unfolding echo_layout_def Let_def by blast+
  have k: "b \<noteq> kbuf_at y" if "b \<in> word_at (args_slot y) \<union> word_at (args_slot y + 4)" for b
    using assms(1) that unfolding echo_layout_def Let_def by blast
  have c: "kbuf_at y + d \<noteq> cell (kl_kx s) (kl_ky s)" "kbuf_at y + d \<noteq> cell (kl_kx s) (kl_ky s) + 1" if "d = 0 \<or> d = 1" for d
    using assms(1) that unfolding echo_layout_def Let_def by auto
  have "M b = kl_mem s b" if "b \<in> {fmt_char y, fmt_char y + 1, fmt_char y + 2}" for b
    using l [OF that] by (simp add: M_def store32_other)
  then have fmt: "M (fmt_char y) = 37" "M (fmt_char y + 1) = 99" "M (fmt_char y + 2) = 0"
    using assms(1) by (simp_all add: echo_layout_def Let_def add.assoc)
  have args: "load32 M (args_slot y) = fmt_char y"
  proof -
    have "word_at (args_slot y) \<inter> word_at (args_slot y + 4) = {}" by (auto simp: word_at_def add.assoc)
    then show ?thesis by (simp add: M_def load32_store32_other)
  qed
  have val: "M (args_slot y + 4) = ucast v" "M (args_slot y + 5) = ucast (drop_bit 8 v)" "M (args_slot y + 6) = ucast (drop_bit 16 v)"
    "M (args_slot y + 7) = ucast (drop_bit 24 v)"
    by (simp_all add: M_def store32_def add.assoc)
  have "kept (kbuf_at y) (length [ucast v :: u8]) (scr_mem ?k) (load32 (scr_mem ?k) (args_slot y)) (format_bytes [Chr])"
    unfolding f args using fmt l by (simp add: format_bytes_def less_one' add.assoc)
  moreover have "args_kept (kbuf_at y) (length [ucast v :: u8]) (scr_mem ?k) (args_slot y + 4) [Word v]"
    unfolding f using val k by (simp add: word_bytes_def less_one' word_at_def add.assoc)
  moreover have "\<forall>i \<le> length [ucast v :: u8]. \<not> kbuf_at y + of_nat i - cell (kx ?k) (ky ?k) < of_nat (2 * length [ucast v :: u8])"
  proof -
    have "i \<le> 1 \<longleftrightarrow> i = 0 \<or> i = 1" for i :: nat by linarith
    then show ?thesis unfolding f using c [of 0] c [of 1] by (auto simp: within_two)
  qed
  ultimately obtain k' where k': "kprintf hw (kbuf_at y) (args_slot y) ?k = Some (1, k')" "kx k' = kl_kx s + 1" "ky k' = kl_ky s"
      "scr_mem k' (cell (kl_kx s) (kl_ky s)) = ucast v" "scr_mem k' (cell (kl_kx s) (kl_ky s) + 1) = 7"
    using print_formatted_line [of "[Chr]" "[Word v]" "[ucast v]" "kbuf_at y" ?k "args_slot y" hw] assms(2,3) f(1,2)
    by (auto simp: kprintf_def)
  have "call_kprintf hw y [fmt_char y, v] (s\<lparr>kl_kbd := kb, kl_mem := store32 (code_at y) w (kl_mem s)\<rparr>) =
      map_option (\<lambda>(_, k). with_screen k (s\<lparr>kl_kbd := kb, kl_mem := store32 (code_at y) w (kl_mem s)\<rparr>)) (kprintf hw (kbuf_at y) (args_slot y) ?k)"
    by (simp add: call_kprintf_def M_def)
  then show ?thesis using k' by (simp add: with_screen_def)
qed

lemma us_key:
  assumes "(c, ch) \<in> set us_keys"
  shows "\<not> silent c" and "keymap_at (unat c * 3) = Some (of_char ch)"
proof -
  have "c < 0x80 \<and> fst (keymap_rows ! unat c) = of_char ch" using us_keys_in_table assms by (auto simp: list_all_iff)
  then show "\<not> silent c" "keymap_at (unat c * 3) = Some (of_char ch)"
    by (auto simp: keymap_at_byte silent_def dest: order_less_le_trans)
qed

lemma us_keys_plain: "list_all (\<lambda>(c, ch). plain (of_char ch) \<and> ucast (of_char ch :: u32) = (of_char ch :: u8)) us_keys"
  by (simp add: us_keys_def key_row_def upt_rec plain_def)

text \<open>C8: For a key of the American layout that stands for a printable character, and a cursor left of
  column 79, the echo of kmain skips the releases of ordinary keys before it, consumes its byte, and
  puts that character with attribute 7 into the cell at the cursor, which moves one column; buffer,
  format, variables and cell must not overlap.\<close>

theorem kmain_echo_shows:
  assumes "\<forall>q \<in> set qs. silent q" and "(c, ch) \<in> set us_keys" and "echo_layout y s" and "unat (kl_kx s) < 79"
  shows "\<exists>s'. kmain_echo hw y (qs @ c # rest) s = Some (rest, s') \<and>
    kl_mem s' (cell (kl_kx s) (kl_ky s)) = of_char ch \<and> kl_mem s' (cell (kl_kx s) (kl_ky s) + 1) = 7 \<and>
    kl_kx s' = kl_kx s + 1 \<and> kl_ky s' = kl_ky s"
proof -
  obtain kb where e: "kmain_echo hw y (qs @ c # rest) s =
      map_option (Pair rest) (call_kprintf hw y [fmt_char y, of_char ch] (key_stored y c s kb))"
    using echo_byte [OF assms(1) us_key(1) [OF assms(2)], of hw y rest s] us_key(2) [OF assms(2)] by auto
  have ch: "plain (of_char ch)" "ucast (of_char ch :: u32) = (of_char ch :: u8)" using us_keys_plain assms(2) by (auto simp: list_all_iff)
  then have "plain (ucast (of_char ch :: u32))" by simp
  from kprintf_char [OF assms(3) this assms(4), where hw = hw and kb = kb and w = "scancode (key_step c ((keystatus (kl_kbd s))\<lparr>newinput := 0\<rparr>))"]
  show ?thesis unfolding e by (auto simp: ch(2))
qed


section \<open>Date and time\<close>

lemma BCD_to_bcd:
  assumes "n < 100"
  shows "BCD (ucast (to_bcd n)) = of_nat n"
proof -
  let ?b = "ucast (to_bcd n) :: u32"
  have u: "unat ?b = unat (to_bcd n)" by (simp add: unsigned_ucast_eq take_bit_nat_eq_self)
  have "unat (drop_bit 4 ?b) = n div 10"
    using bcd_digits(1) [OF assms] unat_to_bcd [OF assms] assms unfolding unat_drop_bit_eq u
    by (simp add: drop_bit_eq_div div_less_iff_less_mult)
  moreover have "unat (?b AND 0x0F) = n mod 10"
    unfolding nibbles unsigned_take_bit_eq u using bcd_digits(2) [OF assms] by (simp add: take_bit_eq_mod)
  ultimately have "drop_bit 4 ?b = of_nat (n div 10)" "?b AND 0x0F = of_nat (n mod 10)"
    by (metis of_nat_unat ucast_id)+
  then have "BCD ?b = of_nat (n div 10) * 10 + of_nat (n mod 10)" by (simp only: BCD_def)
  also have "\<dots> = of_nat (n div 10 * 10 + n mod 10)" by (simp only: of_nat_add of_nat_mult of_nat_numeral)
  also have "n div 10 * 10 + n mod 10 = n" by simp
  finally show ?thesis .
qed

lemma byte_mask: "ucast (b :: u8) AND 0xFF = (ucast b :: u32)"
proof -
  have "ucast b AND 0xFF = (take_bit 8 (ucast b) :: u32)" by (rule and_byte)
  also have "\<dots> = ucast b" by (rule bit_word_eqI) (auto simp: bit_simps dest: bit_imp_le_length)
  finally show ?thesis .
qed

text \<open>With packed decimal registers the six numbers kmain prints are the year, month, day, hour, minute
  and second encoded.\<close>

theorem kmain_date_decimal:
  assumes "cmos CMOS_REG_YEAR = to_bcd y" and "cmos CMOS_REG_MONTH = to_bcd mo" and "cmos CMOS_REG_DAY = to_bcd d"
    and "cmos CMOS_REG_HOUR = to_bcd h" and "cmos CMOS_REG_MIN = to_bcd mi" and "cmos CMOS_REG_SEC = to_bcd s"
    and "\<forall>n \<in> {y, mo, d, h, mi, s}. n < 100"
  shows "date_args cmos = List.map of_nat [y, mo, d, h, mi, s]"
  using assms by (simp add: date_args_def gettime_def getdate_def Let_def packed_fields byte_mask BCD_to_bcd)

definition demo_clock :: cmos where
  "demo_clock r = to_bcd (if r = CMOS_REG_YEAR then 12 else if r = CMOS_REG_MONTH then 5 else if r = CMOS_REG_DAY then 27
     else if r = CMOS_REG_HOUR then 11 else if r = CMOS_REG_MIN then 36 else if r = CMOS_REG_SEC then 21 else 7)"

theorem kmain_date_decimal_witness: "date_args demo_clock = [12, 5, 27, 11, 36, 21]"
  using kmain_date_decimal [of demo_clock 12 5 27 11 36 21] by (simp add: demo_clock_def code_defs)

text \<open>A weekday register above 7 makes the index of the day's name leave its array.\<close>

lemma kmain_clock_fault:
  assumes "7 < cmos CMOS_REG_WEEKDAY"
  shows "kmain_clock hw y cmos s = None"
proof -
  have "unat (WEEKDAY (getdate cmos)) = unat (cmos CMOS_REG_WEEKDAY)"
    by (simp add: getdate_def packed_fields byte_mask unsigned_ucast_eq take_bit_nat_eq_self)
  then show ?thesis using assms by (simp add: kmain_clock_def ddd_def word_less_nat_alt Let_def)
qed

section \<open>The rounds\<close>

lemma keyboardhandle_keeps [simp]: "clicnt (keyboardhandle hw s) = clicnt s" "if_flag (keyboardhandle hw s) = if_flag s"
  by (simp_all add: keyboardhandle_def eoi_m_def outb_def)

lemma wait_key_keeps:
  "wait_key hw codes s = Some (cs, s') \<Longrightarrow> key_ok (keystatus s) \<Longrightarrow>
     clicnt s' = clicnt s \<and> if_flag s' = if_flag s \<and> key_ok (keystatus s')"
proof (induction hw codes s rule: wait_key.induct)
  case (1 hw codes s)
  show ?case
  proof (cases "0 = newinput (keystatus s)")
    case True
    with "1.prems" obtain c ds where c: "codes = c # ds"
      "wait_key hw ds (keyboardhandle hw (s\<lparr>port_in := (port_in s)(I8042INPUTBYF := c)\<rparr>)) = Some (cs, s')"
      by (subst (asm) wait_key.simps) (auto split: list.splits)
    have "key_ok (keystatus (keyboardhandle hw (s\<lparr>port_in := (port_in s)(I8042INPUTBYF := c)\<rparr>)))"
      using "1.prems"(2) key_step_ok by (simp add: keyboardhandle_def eoi_m_def outb_def)
    from "1.IH" [OF True c(1) c(2) this] show ?thesis by simp
  next
    case False
    with "1.prems" show ?thesis by (subst (asm) wait_key.simps) simp
  qed
qed

lemma key_ok_newinput [simp]: "key_ok (k\<lparr>newinput := v\<rparr>) \<longleftrightarrow> key_ok k"
  by (simp add: key_ok_def)

lemma keyboard_kread_keeps:
  assumes "keyboard_kread hw codes ptr 1 m s = Some (r, cs, m', s')" and "key_ok (keystatus s)"
  shows "clicnt s' = clicnt s \<and> if_flag s' \<and> key_ok (keystatus s')"
proof -
  have "\<not> (1 :: cint) \<le>s 0" by (simp add: word_sle_eq)
  then obtain t where "wait_key hw codes (clear_input s) = Some (cs, t)" "s' = set_newinput 0 t"
    using assms(1) by (auto simp: keyboard_kread_def split: option.splits)
  then show ?thesis
    using wait_key_keeps [of hw codes "clear_input s" cs t] assms(2) by (simp add: clear_input_def set_newinput_def)
qed

lemma with_screen_keeps [simp]:
  "clicnt (kl_kbd (with_screen k s)) = clicnt (kl_kbd s)" "if_flag (kl_kbd (with_screen k s)) = if_flag (kl_kbd s)"
  "keystatus (kl_kbd (with_screen k s)) = keystatus (kl_kbd s)" "kl_kx (with_screen k s) = kx k"
  by (simp_all add: with_screen_def)

definition loop_ok :: "kloop \<Rightarrow> bool" where
  "loop_ok s \<longleftrightarrow> key_ok (keystatus (kl_kbd s)) \<and> unat (kl_kx s) < 80"

lemma call_kprintf_keeps:
  assumes "call_kprintf hw y ws s = Some s'"
  shows "clicnt (kl_kbd s') = clicnt (kl_kbd s) \<and> if_flag (kl_kbd s') = if_flag (kl_kbd s) \<and> (loop_ok s \<longrightarrow> loop_ok s')"
proof -
  obtain n k where k: "kprintf hw (kbuf_at y) (args_slot y) ((kl_screen s)\<lparr>scr_mem := push_args (args_slot y) ws (kl_mem s)\<rparr>) = Some (n, k)"
    "s' = with_screen k s" using assms by (auto simp: call_kprintf_def)
  then have "column_ok ((kl_screen s)\<lparr>scr_mem := push_args (args_slot y) ws (kl_mem s)\<rparr>) \<Longrightarrow> column_ok k"
    by (auto simp: kprintf_def intro: print_formatted_column)
  then show ?thesis using k(2) by (simp add: loop_ok_def column_ok_def kl_screen_def)
qed

lemma call_printk_keeps:
  assumes "call_printk hw y ws s = Some s'"
  shows "clicnt (kl_kbd s') = clicnt (kl_kbd s) \<and> if_flag (kl_kbd s') = if_flag (kl_kbd s) \<and> (loop_ok s \<longrightarrow> loop_ok s')"
proof -
  obtain n k where k: "printk hw (kbuf_at y) (core_slot y) (newline_at y) (args_slot y)
      ((kl_screen s)\<lparr>scr_mem := push_args (args_slot y) ws (kl_mem s)\<rparr>) = Some (n, k)"
    "s' = with_screen k s" using assms by (auto simp: call_printk_def)
  then have "column_ok ((kl_screen s)\<lparr>scr_mem := push_args (args_slot y) ws (kl_mem s)\<rparr>) \<Longrightarrow> column_ok k"
    by (auto intro: printk_column)
  then show ?thesis using k(2) by (simp add: loop_ok_def column_ok_def kl_screen_def)
qed

lemma sti_keeps: "clicnt (sti s) = clicnt s - 1" "keystatus (sti s) = keystatus s" "if_flag s \<Longrightarrow> if_flag (sti s)"
  by (simp_all add: sti_def Let_def)

lemma kmain_round_keeps:
  assumes "kmain_round hw y cmos codes s = Some (cs, s')" and "loop_ok s"
  shows "clicnt (kl_kbd s') = clicnt (kl_kbd s) - 1 \<and> if_flag (kl_kbd s') \<and> loop_ok s'"
proof -
  obtain c1 t1 c2 t2 where e: "kmain_echo hw y codes s = Some (c1, t1)" "kmain_hlt hw c1 t1 = Some (c2, t2)"
    "kmain_clock hw y cmos (t2\<lparr>kl_kbd := sti (kl_kbd t2)\<rparr>) = Some s'"
    using assms(1) by (auto simp: kmain_round_def split: option.splits)
  obtain r m kb v where k: "keyboard_kread hw codes (code_at y) 1 (kl_mem s) (kl_kbd s) = Some (r, c1, m, kb)"
    "call_kprintf hw y [fmt_char y, v] (s\<lparr>kl_kbd := kb, kl_mem := m\<rparr>) = Some t1"
    using e(1) by (auto simp: kmain_echo_def split: option.splits)
  have "clicnt kb = clicnt (kl_kbd s) \<and> if_flag kb \<and> key_ok (keystatus kb)"
    using keyboard_kread_keeps [OF k(1)] assms(2) by (simp add: loop_ok_def)
  then have t1: "clicnt (kl_kbd t1) = clicnt (kl_kbd s)" "if_flag (kl_kbd t1)" "loop_ok t1"
    using call_kprintf_keeps [OF k(2)] assms(2) by (simp_all add: loop_ok_def)
  obtain c where "t2 = t1\<lparr>kl_kbd := keyboardhandle hw ((kl_kbd t1)\<lparr>port_in := (port_in (kl_kbd t1))(I8042INPUTBYF := c)\<rparr>)\<rparr>"
    using e(2) by (cases c1) auto
  then have t2: "clicnt (kl_kbd t2) = clicnt (kl_kbd s)" "if_flag (kl_kbd t2)" "loop_ok t2"
    using t1 key_step_ok by (simp_all add: loop_ok_def keyboardhandle_def eoi_m_def outb_def)
  obtain ws where "call_printk hw y ws (t2\<lparr>kl_kbd := sti (kl_kbd t2)\<rparr>) = Some s'"
    using e(3) by (auto simp: kmain_clock_def Let_def split: if_splits)
  from call_printk_keeps [OF this] t2 show ?thesis by (simp add: sti_keeps loop_ok_def)
qed


lemma kmain_rounds_keep:
  "kmain_rounds hw y clocks codes s = Some (cs, s') \<Longrightarrow> loop_ok s \<Longrightarrow>
     clicnt (kl_kbd s') = clicnt (kl_kbd s) - of_nat (length clocks) \<and> loop_ok s' \<and> (clocks \<noteq> [] \<longrightarrow> if_flag (kl_kbd s'))"
proof (induction clocks arbitrary: codes s)
  case (Cons c clocks)
  then obtain ds t where t: "kmain_round hw y c codes s = Some (ds, t)" "kmain_rounds hw y clocks ds t = Some (cs, s')"
    by (auto split: option.splits)
  note k = kmain_round_keeps [OF t(1) Cons.prems(2)]
  with Cons.IH [OF t(2)] t(2) show ?case by (cases clocks) simp_all
qed simp

text \<open>C9: After 1 to 2^32 - 1 rounds of kmain's loop, started with clicnt 0, the modifier flags are
  consistent and the column is below 80, but every round has decremented clicnt, so that cli no longer
  disables interrupts.\<close>

theorem kmain_rounds_interrupts:
  assumes "kmain_rounds hw y clocks codes s = Some (cs, s')" and "loop_ok s" and "clicnt (kl_kbd s) = 0"
    and "0 < length clocks" and "length clocks < 4294967296"
  shows "loop_ok s' \<and> clicnt (kl_kbd s') = - of_nat (length clocks) \<and> if_flag (cli (kl_kbd s'))"
proof -
  note k = kmain_rounds_keep [OF assms(1,2)]
  then have c: "clicnt (kl_kbd s') = - of_nat (length clocks)" using assms(3) by simp
  have "(of_nat (length clocks) :: u32) \<noteq> 0" using unat_of_nat32 [OF assms(5)] assms(4) by (auto simp: word_unat_eq_iff)
  then have "clicnt (kl_kbd s') + 1 \<noteq> 1" unfolding c by simp
  then show ?thesis using k c assms(4) by (auto simp: cli_def Let_def)
qed

section \<open>A run\<close>

text \<open>A memory without strings, in which every format is empty.\<close>

definition demo_layout :: kmain_symbols where
  "demo_layout = \<lparr>code_at = 0x1000, args_slot = 0x2000, kbuf_at = 0x3000, core_slot = 0x5000, newline_at = 0x6000, fmt_alloc = 0x4000,
     fmt_panic = 0x4000, fmt_char = 0x4000, fmt_date = 0x4000, day_names = replicate 8 0x4000\<rparr>"

definition demo_loop :: kloop where
  "demo_loop = \<lparr>kl_kbd = demo_kbd, kl_mem = (\<lambda>_. 0), kl_kx = 0, kl_ky = 0\<rparr>"

lemma print_empty:
  assumes "scr_mem s (load32 (scr_mem s) l) = 0"
  shows "print_formatted hw kbuf l s = Some (0, scroll hw (s\<lparr>scr_mem := (scr_mem s)(kbuf := 0)\<rparr>))"
  using assms by (simp add: print_formatted_def vsprintf_def vsprintf_loop_end vprintk_def) (subst vprintk_loop.simps, simp)

lemma vprintk_empty: "scr_mem s p = 0 \<Longrightarrow> vprintk hw p s = Some (0, scroll hw s)"
  by (simp add: vprintk_def) (subst vprintk_loop.simps, simp)

lemma demo_echo:
  "\<exists>t. kmain_echo hw demo_layout [0x1E, 0x9E] demo_loop = Some ([0x9E], t) \<and>
     kl_mem t = (push_args 0x2000 [0x4000, fst (keymap_rows ! 0x1E)] (store32 0x1000 0x1E (\<lambda>_. 0)))(0x3000 := 0)"
proof -
  have c: "scancode (key_step 0x1E ((keystatus (kl_kbd demo_loop))\<lparr>newinput := 0\<rparr>)) = 0x1E"
    by (simp add: demo_loop_def demo_kbd_keys key_step_def key_case_def makescancode_def flag_def demo_keys_def code_defs)
  have "\<not> silent 0x1E" by (simp add: silent_def)
  from echo_byte [OF _ this, of "[]" hw demo_layout "[0x9E]" demo_loop] obtain kb where
    e: "kmain_echo hw demo_layout [0x1E, 0x9E] demo_loop =
      map_option (Pair [0x9E]) (call_kprintf hw demo_layout [0x4000, fst (keymap_rows ! 0x1E)]
        (demo_loop\<lparr>kl_kbd := kb, kl_mem := store32 0x1000 0x1E (\<lambda>_. 0)\<rparr>))"
    using keymap_at_row [of 30] unfolding c by (auto simp: demo_layout_def demo_loop_def)
  define M where "M = push_args 0x2000 [0x4000, fst (keymap_rows ! 0x1E)] (store32 0x1000 0x1E (\<lambda>_. 0))"
  have "load32 M 0x2000 = 0x4000" by (simp add: M_def load32_store32_other word_at_def)
  moreover have "M 0x4000 = 0" by (simp add: M_def store32_def)
  ultimately show ?thesis unfolding e
    by (simp add: call_kprintf_def kprintf_def demo_layout_def kl_screen_def M_def print_empty with_screen_def demo_loop_def)
qed

text \<open>A memory whose formats are empty.\<close>

definition blank :: "mem \<Rightarrow> bool" where
  "blank m \<longleftrightarrow> m 0 = 0 \<and> m 0x4000 = 0 \<and> m 0x6000 = 0 \<and> load32 m 0x5000 = 0"

lemma blank_printk:
  assumes "blank (scr_mem s)" and "load32 (scr_mem s) 0x2000 = 0x4000"
  shows "\<exists>n k. printk hw 0x3000 0x5000 0x6000 0x2000 s = Some (n, k)"
proof -
  have l: "load32 ((scr_mem s)(0x3000 := 0)) 0x2000 = 0x4000"
    using assms(2) by (subst load32_byte_update) (simp_all add: word_at_def)
  show ?thesis using assms l by (simp add: blank_def printk_def Let_def print_empty vprintk_empty)
qed

lemma blank_push:
  assumes "blank m" and "length ws = 7"
  shows "blank (push_args 0x2000 (0x4000 # ws) m)" and "load32 (push_args 0x2000 (0x4000 # ws) m) 0x2000 = 0x4000"
proof -
  obtain b c d e f g h where "ws = [b, c, d, e, f, g, h]"
    using assms(2) by (auto simp: numeral_eq_Suc length_Suc_conv)
  then show "blank (push_args 0x2000 (0x4000 # ws) m)" "load32 (push_args 0x2000 (0x4000 # ws) m) 0x2000 = 0x4000"
    using assms(1) by (simp_all add: blank_def load32_store32_other word_at_def) (simp add: store32_def)
qed

lemma blank_clock:
  assumes "blank (kl_mem s)"
  shows "\<exists>s'. kmain_clock hw demo_layout demo_clock s = Some s'"
proof -
  have w: "unat (WEEKDAY (getdate demo_clock)) = 7"
    by (simp add: getdate_def packed_fields byte_mask demo_clock_def to_bcd_def code_defs)
  obtain n k where "printk hw 0x3000 0x5000 0x6000 0x2000
      ((kl_screen s)\<lparr>scr_mem := push_args 0x2000 (0x4000 # date_args demo_clock @ [0x4000]) (kl_mem s)\<rparr>) = Some (n, k)"
    using blank_printk [of "(kl_screen s)\<lparr>scr_mem := push_args 0x2000 (0x4000 # date_args demo_clock @ [0x4000]) (kl_mem s)\<rparr>" hw]
      blank_push [OF assms, of "date_args demo_clock @ [0x4000]"] by (auto simp: date_args_def Let_def)
  then show ?thesis by (simp add: kmain_clock_def ddd_def Let_def w call_printk_def demo_layout_def)
qed

theorem kmain_rounds_interrupts_witness:
  "\<exists>s'. kmain_rounds latch demo_layout [demo_clock] [0x1E, 0x9E] demo_loop = Some ([], s') \<and> clicnt (kl_kbd s') = - 1 \<and>
     if_flag (cli (kl_kbd s'))"
proof -
  obtain t where t: "kmain_echo latch demo_layout [0x1E, 0x9E] demo_loop = Some ([0x9E], t)"
    "kl_mem t = (push_args 0x2000 [0x4000, fst (keymap_rows ! 0x1E)] (store32 0x1000 0x1E (\<lambda>_. 0)))(0x3000 := 0)"
    using demo_echo [of latch] by blast
  let ?h = "t\<lparr>kl_kbd := keyboardhandle latch ((kl_kbd t)\<lparr>port_in := (port_in (kl_kbd t))(I8042INPUTBYF := 0x9E)\<rparr>)\<rparr>"
  have "blank (kl_mem t)"
    unfolding t(2) blank_def by (simp add: store32_def load32_def)
  then obtain s' where "kmain_clock latch demo_layout demo_clock (?h\<lparr>kl_kbd := sti (kl_kbd ?h)\<rparr>) = Some s'"
    using blank_clock [of "?h\<lparr>kl_kbd := sti (kl_kbd ?h)\<rparr>" latch] by auto
  then have r: "kmain_rounds latch demo_layout [demo_clock] [0x1E, 0x9E] demo_loop = Some ([], s')"
    using t(1) by (simp add: kmain_round_def)
  have "loop_ok demo_loop" "clicnt (kl_kbd demo_loop) = 0"
    by (simp_all add: loop_ok_def demo_loop_def demo_kbd_keys demo_keys_ok) (simp add: demo_kbd_def intr.extend_def demo_intr_def)
  then show ?thesis using kmain_rounds_interrupts [OF r] r by simp
qed

theorem kmain_echo_shows_witness:
  "\<exists>s'. kmain_echo latch demo_layout [0x9E, 0x1E, 0x9E] (demo_loop\<lparr>kl_mem := store_bytes 0x4000 [37, 99, 0] (\<lambda>_. 0)\<rparr>) = Some ([0x9E], s') \<and>
     kl_mem s' 0xB8000 = 97 \<and> kl_kx s' = 1"
proof -
  let ?s = "demo_loop\<lparr>kl_mem := store_bytes 0x4000 [37, 99, 0] (\<lambda>_. 0)\<rparr>"
  have v: "(0x1E, CHR ''a'') \<in> set us_keys" by (simp add: us_keys_def key_row_def upt_rec)
  have k: "kl_kx ?s = 0" "kl_ky ?s = 0" by (simp_all add: demo_loop_def)
  have "echo_layout demo_layout ?s"
    unfolding echo_layout_def k by (simp add: Let_def demo_layout_def word_at_def cell_def)
  from kmain_echo_shows [OF _ v this, where qs = "[0x9E]" and hw = latch and rest = "[0x9E]"] show ?thesis
    unfolding k by (auto simp: silent_def code_defs cell_def)
qed

text \<open>The release of the left shift key is passed on and lies behind the table.\<close>

theorem kmain_echo_index_witness: "kmain_echo latch demo_layout [0x9E, 0xAA] demo_loop = None"
  using kmain_echo_index [of "[0x9E]" "0xAA" latch demo_layout "[]" demo_loop] by (simp add: silent_def code_defs length_keymap)

end
