(* ===== verification/InitApp.thy ===== *)
theory InitApp
  imports UserLib
begin

text \<open>
  The first user program (\<^verbatim>\<open>app/Init.c\<close>): a greeting, then an endless loop that reads a line and prints it. \<^verbatim>\<open>buf\<close> is the
  address of its local buffer, \<^verbatim>\<open>pbuf\<close> that of the buffer inside \<^verbatim>\<open>printf\<close>, \<^verbatim>\<open>l\<close> the stack slot of the first argument of
  the calls; the format strings are arguments. The second greeting names an argument that is not
  passed: \<^verbatim>\<open>printf\<close> takes the word that lies behind the last one.
\<close>

section \<open>The program\<close>

record init_symbols =
  hello_fmt :: addr
  address_fmt :: addr
  line_fmt :: addr
  init_buf :: addr
  printf_buf :: addr
  init_slot :: addr

definition call_printf :: "crt \<Rightarrow> 'w usyscall \<Rightarrow> init_symbols \<Rightarrow> u32 list \<Rightarrow> 'w ulib \<Rightarrow> 'w ulib option" where
  "call_printf c sc y ws s =
     map_option snd (printf c sc (printf_buf y) (init_slot y) (s\<lparr>umem := push_args (init_slot y) ws (umem s)\<rparr>))"

definition init_start :: "crt \<Rightarrow> 'w usyscall \<Rightarrow> init_symbols \<Rightarrow> 'w ulib \<Rightarrow> 'w ulib option" where
  "init_start c sc y s =
     (let s = s\<lparr>umem := (umem s)(init_buf y := 0, init_buf y + 1023 := 0)\<rparr>
      in Option.bind (call_printf c sc y [hello_fmt y] s) (call_printf c sc y [address_fmt y, init_buf y]))"

definition init_round :: "crt \<Rightarrow> 'w usyscall \<Rightarrow> init_symbols \<Rightarrow> 'w ulib \<Rightarrow> 'w ulib option" where
  "init_round c sc y s =
     (let s = s\<lparr>umem := snd (memset (init_buf y) 0 1024 (umem s))\<rparr>
      in case gets c sc (init_buf y) s of
           None \<Rightarrow> None
         | Some (len, s) \<Rightarrow> call_printf c sc y [line_fmt y, init_buf y] s)"

fun init_rounds :: "crt \<Rightarrow> 'w usyscall \<Rightarrow> init_symbols \<Rightarrow> nat \<Rightarrow> 'w ulib \<Rightarrow> 'w ulib option" where
  "init_rounds c sc y 0 s = Some s"
| "init_rounds c sc y (Suc n) s = Option.bind (init_round c sc y s) (init_rounds c sc y n)"

section \<open>Where things lie\<close>

text \<open>The input buffer at \<open>q\<close>, the output buffer at \<open>p\<close>, the local variables and the format do not overlap.\<close>

definition init_layout :: "crt \<Rightarrow> init_symbols \<Rightarrow> addr \<Rightarrow> addr \<Rightarrow> bool" where
  "init_layout c y q p \<longleftrightarrow>
     separate [{ch_at c}, region q 1024, region p 4000, region (init_buf y) 1024, region (printf_buf y) 2000, region (init_slot y) 8,
       region (line_fmt y) 4] \<and> init_buf y \<noteq> NULL \<and> unat (init_buf y) + 1024 < 4294967296"

section \<open>The echo of a line\<close>

text \<open>Since memory \<open>m0\<close> the characters \<open>xs\<close> went into the input buffer and, with their colour, into the output buffer.\<close>

definition echoed :: "addr \<Rightarrow> addr \<Rightarrow> addr \<Rightarrow> u8 list \<Rightarrow> mem \<Rightarrow> mem \<Rightarrow> bool" where
  "echoed ch q p xs m0 m \<longleftrightarrow> cells (length xs) p m = List.map cell_of xs \<and>
     (\<forall>a. a \<notin> {ch} \<union> region q 1024 \<union> region p 4000 \<longrightarrow> m a = m0 a)"

lemma cells_cong: "(\<And>a. a \<in> region p (2 * n) \<Longrightarrow> m a = m' a) \<Longrightarrow> n < 2000 \<Longrightarrow> cells n p m = cells n p m'"
proof -
  assume e: "\<And>a. a \<in> region p (2 * n) \<Longrightarrow> m a = m' a" and n: "n < 2000"
  have "load16 m (p + of_nat (2 * i)) = load16 m' (p + of_nat (2 * i))" if "i < n" for i
    using e [OF region_word(1) [OF that]] e [OF region_word(2) [OF that]] n by (simp add: load16_def del: of_nat_mult)
  then show ?thesis by (simp add: cells_def)
qed

lemma echoed_key:
  assumes e: "echoed ch q p xs m0 m" and n: "length xs < 1024" and s: "separate [{ch}, region q 1024, region p 4000]"
  shows "echoed ch q p (xs @ [b]) m0 ((store16 (p + of_nat (2 * length xs)) (cell_of b) (m(ch := b)))(q + of_nat (length xs) := b))"
proof -
  let ?n = "length xs"
  let ?m = "(store16 (p + of_nat (2 * ?n)) (cell_of b) (m(ch := b)))(q + of_nat ?n := b)"
  have q: "q + of_nat ?n \<in> region q 1024" by (rule region_at) (use n in simp_all)
  have p: "p + of_nat (2 * ?n) \<in> region p 4000" "p + of_nat (2 * ?n) + 1 \<in> region p 4000"
    using region_word [of ?n 2000 p] n by simp_all
  have q_out: "q + of_nat ?n \<notin> region p 4000" using s q by auto
  have old: "cells ?n p ?m = cells ?n p (store16 (p + of_nat (2 * ?n)) (cell_of b) m)"
  proof (rule cells_cong)
    fix a assume "a \<in> region p (2 * ?n)"
    then have "a \<in> region p 4000" using region_mono [of "2 * ?n" 4000 p] n by auto
    then have "a \<noteq> ch" "a \<noteq> q + of_nat ?n" using s q by auto
    then show "?m a = store16 (p + of_nat (2 * ?n)) (cell_of b) m a" by (simp add: store16_def)
  qed (use n in simp)
  have "cells ?n p (store16 (p + of_nat (2 * ?n)) (cell_of b) m) = cells ?n p m" by (rule cells_store) (use n in simp_all)
  moreover have "load16 ?m (p + of_nat (2 * ?n)) = cell_of b"
  proof -
    have "q + of_nat ?n \<noteq> p + of_nat (2 * ?n)" "q + of_nat ?n \<noteq> p + of_nat (2 * ?n) + 1"
      using s p q_out by metis+
    then have "load16 ?m (p + of_nat (2 * ?n)) = load16 (store16 (p + of_nat (2 * ?n)) (cell_of b) (m(ch := b))) (p + of_nat (2 * ?n))"
      by (simp add: load16_def)
    then show ?thesis by simp
  qed
  ultimately have "cells (Suc ?n) p ?m = List.map cell_of (xs @ [b])" unfolding cells_Suc using old e by (simp add: echoed_def)
  moreover have "?m a = m0 a" if a: "a \<notin> {ch} \<union> region q 1024 \<union> region p 4000" for a
  proof -
    have "a \<noteq> ch" "a \<noteq> q + of_nat ?n" "a \<noteq> p + of_nat (2 * ?n)" "a \<noteq> p + of_nat (2 * ?n) + 1"
      using a q p by blast+
    then show ?thesis using e a by (simp add: echoed_def store16_def)
  qed
  ultimately show ?thesis by (simp add: echoed_def)
qed

text \<open>While a line is typed.\<close>

definition typing :: "crt \<Rightarrow> nat \<Rightarrow> nat \<Rightarrow> addr \<Rightarrow> addr \<Rightarrow> mem \<Rightarrow> u32 \<Rightarrow> u32 \<Rightarrow> u8 list \<Rightarrow> 'w ulib \<Rightarrow> bool" where
  "typing c i j q p m0 ix jx xs s \<longleftrightarrow> echoed (ch_at c) q p xs m0 (umem s) \<and>
     io_index (fslot s i) = ix \<and> io_index (fslot s j) = jx \<and> io_base (fslot s j) = p"

lemma separate_apart: "separate [{ch}, region q 1024, region p 4000] \<Longrightarrow> apart q ch p"
  unfolding apart_def
proof (intro allI impI conjI)
  fix k :: nat
  assume s: "separate [{ch}, region q 1024, region p 4000]" and "k < 1024"
  then have q: "q + of_nat k \<in> region q 1024" by (intro region_at) simp_all
  then show "q + of_nat k \<noteq> ch" using s by auto
  fix l :: nat
  assume "l < 4000"
  then have "p + of_nat l \<in> region p 4000" by (intro region_at) simp_all
  then show "q + of_nat k \<noteq> p + of_nat l" using s q by auto
qed

lemma typing_key:
  assumes s: "separate [{ch_at c}, region q 1024, region p 4000]" and t: "typed i j q p xs s" and n: "length xs < 1024"
    and b: "printable b" and e: "typing c i j q p m0 ix jx xs s"
  shows "typing c i j q p m0 ix jx (xs @ [b]) (after_key c i j b w s)"
proof -
  have ij: "i \<noteq> j" using t by (simp add: typed_def)
  have "echoed (ch_at c) q p xs m0 (umem s)" using e by (simp add: typing_def)
  from echoed_key [OF this n s, of b] ij e show ?thesis
    by (simp add: typing_def after_key_def key_state [OF t n b])
qed

section \<open>One round of the loop\<close>

definition line_format :: "u8 list" where
  "line_format = format_bytes [Str, Lit 10]"

lemma length_line_format [simp]: "length line_format = 4"
  by (simp add: line_format_def format_bytes_def)

definition ready :: "init_symbols \<Rightarrow> nat \<Rightarrow> nat \<Rightarrow> addr \<Rightarrow> addr \<Rightarrow> u32 \<Rightarrow> u32 \<Rightarrow> 'w ulib \<Rightarrow> bool" where
  "ready y i j q p ix jx s \<longleftrightarrow>
     u_stdin s = Some i \<and> u_stdout s = Some j \<and> i \<noteq> j \<and>
     fslot s i = \<lparr>io_size = 1024, io_index = ix, io_t_size = 0, io_base = q, io_ptr = q\<rparr> \<and>
     fslot s j = \<lparr>io_size = 4000, io_index = jx, io_t_size = 0, io_base = p, io_ptr = p\<rparr> \<and>
     holds (umem s) (line_fmt y) line_format"

lemma take_over:
  assumes "a \<notin> region q 1024" and "a \<notin> region ptr n" and "n \<le> 1024"
  shows "snd (memset q 0 1024 (take_line n ptr q m)) a = m a"
proof -
  have "a \<noteq> ptr + of_nat k \<and> a \<noteq> q + of_nat k" if "k < n" for k
    using assms region_at [of k n ptr] region_at [of k 1024 q] that by auto
  then have "take_line n ptr q m a = m a" by (intro take_line_frame) blast
  then show ?thesis using assms(1) by (simp add: memset_eq region_def)
qed

lemma take_over_line:
  assumes r: "region ptr 1024 \<inter> region q 1024 = {}" and "n \<le> 1024" and "k < n"
  shows "snd (memset q 0 1024 (take_line n ptr q m)) (ptr + of_nat k) = m (q + of_nat k)"
proof -
  have x: "ptr + of_nat k \<in> region ptr 1024" if "k < 1024" for k using that by (intro region_at) simp_all
  have z: "q + of_nat l \<in> region q 1024" if "l < 1024" for l using that by (intro region_at) simp_all
  have "ptr + of_nat k \<notin> region q 1024" using x [of k] r assms(2,3) by auto
  then have "snd (memset q 0 1024 (take_line n ptr q m)) (ptr + of_nat k) = take_line n ptr q m (ptr + of_nat k)"
    by (simp add: memset_eq region_def)
  also have "\<dots> = m (q + of_nat k)"
  proof (rule take_line_copies)
    show "\<forall>k < n. \<forall>l < n. ptr + of_nat k \<noteq> q + of_nat l"
    proof (intro allI impI)
      fix k l assume "k < n" "l < n"
      then have "k < 1024" "l < 1024" using assms(2) by simp_all
      from x [OF this(1)] z [OF this(2)] r show "ptr + of_nat k \<noteq> q + of_nat l" by auto
    qed
  qed (use assms in simp_all)
  finally show ?thesis .
qed

lemma gets_echoes:
  assumes sc: "console sc" and l: "separate [{ch_at c}, region q 1024, region p 4000, region ptr 1024]" and r: "ready y i j q p ix jx s"
    and xs: "\<forall>b \<in> set xs. printable b" "xs \<noteq> []" "length xs < 1024" and w: "world s = (xs @ 3 # keys, out)"
  shows "\<exists>s'. gets c sc ptr s = Some (of_nat (length xs), s') \<and> world s' = (keys, out) \<and> u_stdin s' = Some i \<and> u_stdout s' = Some j \<and>
    fslot s' i = fslot s i \<and>
    fslot s' j = \<lparr>io_size = 4000, io_index = jx, io_t_size = of_nat (length xs), io_base = p, io_ptr = p + of_nat (2 * length xs)\<rparr> \<and>
    cells (length xs) p (umem s') = List.map cell_of xs \<and> holds (umem s') ptr xs \<and>
    (\<forall>a. a \<notin> {ch_at c} \<union> region q 1024 \<union> region p 4000 \<union> region ptr (length xs) \<longrightarrow> umem s' a = umem s a)"
proof -
  let ?n = "length xs"
  have l3: "separate [{ch_at c}, region q 1024, region p 4000]" using l by simp
  have ij: "i \<noteq> j" using r by (simp add: ready_def)
  have t0: "typed i j q p [] s" using r by (simp add: typed_def ready_def)
  have e0: "typing c i j q p (umem s) ix jx [] s" using r by (simp add: typing_def ready_def echoed_def cells_def)
  have "\<exists>s1. typed i j q p ([] @ xs) s1 \<and> typing c i j q p (umem s) ix jx ([] @ xs) s1 \<and> world s1 = (3 # keys, out) \<and>
      gets_loop c sc ptr (of_nat (length ([] :: u8 list))) s = gets_loop c sc ptr (of_nat (length ([] @ xs))) s1"
  proof (rule gets_loop_keeps [where I = "typing c i j q p (umem s) ix jx", OF sc separate_apart [OF l3] t0 xs(1) _ w e0])
    fix zs b z k
    assume "typed i j q p zs z" "length zs < 1024" "printable b" "typing c i j q p (umem s) ix jx zs z"
    then show "typing c i j q p (umem s) ix jx (zs @ [b]) (after_key c i j b k z)" by (rule typing_key [OF l3])
  qed (use xs(3) in simp)
  then obtain s1 where t: "typed i j q p xs s1" and e: "typing c i j q p (umem s) ix jx xs s1"
    and w1: "world s1 = (3 # keys, out)" and g: "gets c sc ptr s = gets_loop c sc ptr (of_nat ?n) s1"
    by (auto simp: gets_def)
  define m where "m = (umem s1)(ch_at c := 3)"
  define s2 where "s2 = upd_slot i (\<lambda>f. f\<lparr>io_ptr := io_base f, io_t_size := 0\<rparr>)
    (s1\<lparr>umem := snd (memset q 0 1024 (take_line ?n ptr q m)), world := (keys, out)\<rparr>)"
  have "gets c sc ptr s = Some (of_nat ?n, s2)"
    unfolding g s2_def m_def by (rule gets_end [OF sc t xs(2,3) w1])
  moreover have frame: "umem s2 a = m a" if "a \<notin> region q 1024 \<union> region ptr ?n" for a
    using take_over [of a q ptr ?n m] that xs(3) by (simp add: s2_def upd_slot_def)
  have "umem s2 a = umem s a" if "a \<notin> {ch_at c} \<union> region q 1024 \<union> region p 4000 \<union> region ptr ?n" for a
    using frame [of a] that e by (simp add: m_def typing_def echoed_def)
  moreover have "cells ?n p (umem s2) = List.map cell_of xs"
  proof -
    have "cells ?n p (umem s2) = cells ?n p (umem s1)"
    proof (rule cells_cong)
      fix a assume "a \<in> region p (2 * ?n)"
      then have "a \<in> region p 4000" using region_mono [of "2 * ?n" 4000 p] xs(3) by auto
      moreover have "region ptr ?n \<subseteq> region ptr 1024" by (rule region_mono) (use xs(3) in simp_all)
      ultimately have "a \<notin> region q 1024 \<union> region ptr ?n" "a \<noteq> ch_at c" using l by auto
      then show "umem s2 a = umem s1 a" using frame [of a] by (simp add: m_def)
    qed (use xs(3) in simp)
    then show ?thesis using e by (simp add: typing_def echoed_def)
  qed
  moreover have "holds (umem s2) ptr xs"
    unfolding holds_def
  proof (intro allI impI)
    fix k assume k: "k < ?n"
    have "q + of_nat k \<in> region q 1024" by (rule region_at) (use k xs(3) in simp_all)
    then have "q + of_nat k \<noteq> ch_at c" using l by auto
    moreover have "region ptr 1024 \<inter> region q 1024 = {}" using l by auto
    ultimately show "umem s2 (ptr + of_nat k) = xs ! k"
      using take_over_line [of ptr q ?n k m] k xs(3) t by (simp add: s2_def upd_slot_def m_def typed_def holds_def)
  qed
  moreover have "world s2 = (keys, out)" "u_stdin s2 = Some i" "u_stdout s2 = Some j" "fslot s2 i = fslot s i"
    "fslot s2 j = \<lparr>io_size = 4000, io_index = jx, io_t_size = of_nat ?n, io_base = p, io_ptr = p + of_nat (2 * ?n)\<rparr>"
    using t e r ij by (simp_all add: s2_def upd_slot_def typed_def typing_def ready_def)
  ultimately show ?thesis by blast
qed

text \<open>The two words on the stack: the format and its argument.\<close>

lemma pushed:
  shows "holds (push_args l [v, w] m) l (word_bytes v)" and "holds (push_args l [v, w] m) (l + 4) (word_bytes w)"
    and "x \<notin> region l 8 \<Longrightarrow> push_args l [v, w] m x = m x"
proof -
  have m1: "push_args l [v, w] m = store_bytes l (word_bytes v @ word_bytes w) m"
    by (simp add: push_args_bytes)
  have "holds (push_args l [v, w] m) l (word_bytes v @ word_bytes w)" unfolding m1 by (rule store_bytes_holds) simp
  then show "holds (push_args l [v, w] m) l (word_bytes v)" "holds (push_args l [v, w] m) (l + 4) (word_bytes w)" by simp_all
  show "x \<notin> region l 8 \<Longrightarrow> push_args l [v, w] m x = m x" unfolding m1 by (rule store_bytes_out [where n = 8]) simp_all
qed

text \<open>\<^verbatim>\<open>printf\<close> of a line of text behind characters that wait in the buffer.\<close>

lemma printf_line:
  assumes d: "displays put sc"
    and l: "separate [region p 4000, region ptr 1024, region (printf_buf y) 2000, region (init_slot y) 8, region (line_fmt y) 4]"
    and ptr: "ptr \<noteq> NULL" "unat ptr + 1024 < 4294967296"
    and f: "fslot s j = \<lparr>io_size = 4000, io_index = jx, io_t_size = of_nat (length xs), io_base = p, io_ptr = p + of_nat (2 * length xs)\<rparr>"
    and o: "u_stdout s = Some j" and cs: "cells (length xs) p (umem s) = List.map cell_of xs" and n: "length xs < 999"
    and xs: "\<forall>b \<in> set xs. printable b" and t: "holds (umem s) ptr (xs @ [0])" and fmt: "holds (umem s) (line_fmt y) line_format"
  shows "\<exists>s'. call_printf c sc y [line_fmt y, ptr] s = Some s' \<and> world s' = put (List.map cell_of (xs @ xs @ [10])) (world s) \<and>
    u_stdin s' = u_stdin s \<and> u_stdout s' = Some j \<and> (\<forall>k. k \<noteq> j \<longrightarrow> fslot s' k = fslot s k) \<and>
    fslot s' j = \<lparr>io_size = 4000, io_index = jx, io_t_size = 0, io_base = p, io_ptr = p\<rparr> \<and> holds (umem s') (line_fmt y) line_format"
proof -
  let ?n = "length xs" let ?out = "xs @ [10]" let ?b = "printf_buf y" let ?l = "init_slot y"
  define m1 where "m1 = push_args ?l [line_fmt y, ptr] (umem s)"
  define m2 where "m2 = store_bytes ?b (xs @ [10, 0]) m1"
  note push = pushed [where l = ?l and v = "line_fmt y" and w = ptr and m = "umem s", folded m1_def]
  have b_sub: "region ?b (length ?out) \<subseteq> region ?b 2000" by (rule region_mono) (use n in simp_all)
  have t_sub: "region ptr (length (xs @ [0])) \<subseteq> region ptr 1024" by (rule region_mono) (use n in simp_all)
  have l_sub: "region ?l 4 \<subseteq> region ?l 8" "region (?l + 4) 4 \<subseteq> region ?l 8"
    using region_mono [of 4 8 ?l] region_tail [of 4 4 8 ?l] by simp_all
  have m1: "m1 x = umem s x" if "x \<notin> region ?l 8" for x using push(3) that .
  have m2: "m2 x = umem s x" if "x \<notin> region ?b 2000 \<union> region ?l 8" for x
    using store_bytes_out [of x ?b 2000 "xs @ [10, 0]" m1] m1 [of x] that n by (simp add: m2_def)
  have fmt1: "holds m1 (line_fmt y) line_format" by (rule holds_frame [OF fmt]) (use l in \<open>auto simp: disjoint_iff intro: m1\<close>)
  have t1: "holds m1 ptr (xs @ [0])" by (rule holds_frame [OF t]) (use l t_sub n in \<open>auto simp: disjoint_iff subset_iff intro!: m1\<close>)
  have k: "kept ?b (length ?out) m1 ?l (word_bytes (line_fmt y))" "kept ?b (length ?out) m1 (?l + 4) (word_bytes ptr)"
    "kept ?b (length ?out) m1 ptr (xs @ [0])" "kept ?b (length ?out) m1 (line_fmt y) line_format"
    using push(1,2) t1 fmt1 l l_sub b_sub t_sub n by (intro holds_kept; force)+
  have "vsprintf_loop ?b (line_fmt y) (va_start ?l) m1 = Some (?b + of_nat (length ?out), store_bytes ?b ?out m1)"
  proof (rule vsprintf_loop_renders)
    show "render [Str, Lit 10] [Text ptr xs] = Some ?out" by simp
    show "kept ?b (length ?out) m1 (line_fmt y) (format_bytes [Str, Lit 10])" using k(4) by (simp add: line_format_def)
    have "0 \<notin> set xs" using xs printable_nonzero by blast
    then show "args_kept ?b (length ?out) m1 (vl_this (va_start ?l)) [Text ptr xs]"
      using k(2,3) ptr n by (simp add: va_start_def)
  qed (use n in simp_all)
  then have v: "vsprintf ?b (line_fmt y) (va_start ?l) m1 = Some (of_nat (length ?out), store_bytes ?b ?out m1)"
    by (simp add: vsprintf_def)
  have m2_eq: "(store_bytes ?b ?out m1)(?b + of_nat (length ?out) := 0) = m2"
    using store_bytes_append [of ?b ?out "[0]" m1] by (simp add: m2_def)
  define s4 where "s4 = s\<lparr>umem := m2\<rparr>"
  define s0 where "s0 = s4\<lparr>fslot := (fslot s4)(j := \<lparr>io_size = 4000, io_index = jx, io_t_size = 0, io_base = p, io_ptr = p\<rparr>)\<rparr>"
  have "load32 m1 ?l = line_fmt y" by (rule load32_kept [OF k(1)])
  then have call: "call_printf c sc y [line_fmt y, ptr] s = map_option snd (puts c sc ?b s4)"
    using v m2_eq by (simp add: call_printf_def printf_def s4_def m1_def)
  have "cells ?n p m2 = cells ?n p (umem s)"
  proof (rule cells_cong)
    fix x assume "x \<in> region p (2 * ?n)"
    then have "x \<in> region p 4000" using region_mono [of "2 * ?n" 4000 p] n by auto
    then show "m2 x = umem s x" using l by (intro m2) (auto simp: disjoint_iff)
  qed (use n in simp)
  then have b: "buffered j xs s0 s4" using f o cs by (simp add: buffered_def s0_def s4_def)
  have h: "holds (umem s0) ?b (xs @ [10, 0])" using n store_bytes_holds [of "xs @ [10, 0]" ?b m1] by (simp add: s0_def s4_def m2_def)
  have out: "outside ?b (?n + 2) p (?n + ?n + 1)"
    unfolding outside_def
  proof (intro allI impI)
    fix i assume "i < ?n + 2"
    then have "?b + of_nat i \<in> region ?b 2000" using n by (intro region_at) simp_all
    then have "?b + of_nat i \<notin> region p 4000" using l by auto
    moreover have "region p (2 * (?n + ?n + 1)) \<subseteq> region p 4000" by (rule region_mono) (use n in simp_all)
    ultimately show "\<not> ?b + of_nat i - p < of_nat (2 * (?n + ?n + 1))" unfolding region_def by blast
  qed
  obtain s' where s': "puts c sc ?b s4 = Some (of_nat (?n + 1), s')" "world s' = put (List.map cell_of (xs @ xs @ [10])) (world s0)"
    "u_stdin s' = u_stdin s0" "u_stdout s' = Some j" "\<forall>k. k \<noteq> j \<longrightarrow> fslot s' k = fslot s0 k"
    "fslot s' j = \<lparr>io_size = 4000, io_index = jx, io_t_size = 0, io_base = p, io_ptr = p\<rparr>"
    "\<forall>a. \<not> a - p < 4000 \<longrightarrow> umem s' a = umem s0 a"
    using puts_appends [OF d b _ xs _ h out, of c] n by (auto simp: s0_def)
  have "holds (umem s') (line_fmt y) line_format"
  proof (rule holds_frame [OF fmt])
    fix x assume "x \<in> region (line_fmt y) (length line_format)"
    then have x: "x \<in> region (line_fmt y) 4" by simp
    then have "x \<notin> region p 4000" using l by auto
    then have "umem s' x = m2 x" using s'(7) by (simp add: region_def s0_def s4_def)
    also have "\<dots> = umem s x" using l x by (intro m2) (auto simp: disjoint_iff)
    finally show "umem s' x = umem s x" .
  qed simp
  then show ?thesis using call s' by (intro exI [of _ s']) (simp add: s0_def s4_def)
qed

lemma console_displays: "console sc \<Longrightarrow> displays (\<lambda>cs (keys, out). (keys, out @ [cs])) sc"
  by (auto simp: console_def displays_def)

lemma init_round_line:
  assumes sc: "console sc" and l: "init_layout c y q p" and r: "ready y i j q p ix jx s" and xs: "\<forall>b \<in> set xs. printable b" "xs \<noteq> []"
    and n: "length xs < 999" and w: "world s = (xs @ 3 # keys, out)"
  shows "\<exists>s'. init_round c sc y s = Some s' \<and> ready y i j q p ix jx s' \<and> world s' = (keys, out @ [List.map cell_of (xs @ xs @ [10])])"
proof -
  let ?n = "length xs" let ?ptr = "init_buf y"
  define s1 where "s1 = s\<lparr>umem := snd (memset ?ptr 0 1024 (umem s))\<rparr>"
  have m1: "umem s1 x = (if x \<in> region ?ptr 1024 then 0 else umem s x)" for x by (simp add: s1_def memset_eq region_def)
  have f1: "holds (umem s1) (line_fmt y) line_format"
  proof (rule holds_frame)
    fix x assume "x \<in> region (line_fmt y) (length line_format)"
    then show "umem s1 x = umem s x" using l m1 [of x] by (auto simp: init_layout_def disjoint_iff)
  qed (use r in \<open>simp_all add: ready_def\<close>)
  then have r1: "ready y i j q p ix jx s1" using r by (simp add: ready_def s1_def)
  have l4: "separate [{ch_at c}, region q 1024, region p 4000, region ?ptr 1024]" using l by (simp add: init_layout_def)
  have n': "?n < 1024" and w1: "world s1 = (xs @ 3 # keys, out)" using n w by (simp_all add: s1_def)
  obtain s2 where g: "gets c sc ?ptr s1 = Some (of_nat ?n, s2)" and s2: "world s2 = (keys, out)" "u_stdin s2 = Some i" "u_stdout s2 = Some j"
      "fslot s2 i = fslot s1 i"
      "fslot s2 j = \<lparr>io_size = 4000, io_index = jx, io_t_size = of_nat ?n, io_base = p, io_ptr = p + of_nat (2 * ?n)\<rparr>"
      "cells ?n p (umem s2) = List.map cell_of xs" "holds (umem s2) ?ptr xs"
    and m2: "\<And>a. a \<notin> {ch_at c} \<union> region q 1024 \<union> region p 4000 \<union> region ?ptr ?n \<Longrightarrow> umem s2 a = umem s1 a"
    using gets_echoes [OF sc l4 r1 xs n' w1] by blast
  have sub: "region ?ptr ?n \<subseteq> region ?ptr 1024" by (rule region_mono) (use n in simp_all)
  have f2: "holds (umem s2) (line_fmt y) line_format"
  proof (rule holds_frame [OF f1])
    fix x assume "x \<in> region (line_fmt y) (length line_format)"
    then have "x \<in> region (line_fmt y) 4" by simp
    then show "umem s2 x = umem s1 x" using l sub by (intro m2) (auto simp: init_layout_def)
  qed simp
  have "umem s2 (?ptr + of_nat ?n) = 0"
  proof -
    have z: "?ptr + of_nat ?n \<in> region ?ptr 1024" by (rule region_at) (use n in simp_all)
    moreover have "?ptr + of_nat ?n \<notin> region ?ptr ?n" by (simp add: region_def)
    ultimately have "umem s2 (?ptr + of_nat ?n) = umem s1 (?ptr + of_nat ?n)" using l4 by (intro m2) auto
    then show ?thesis using m1 z by simp
  qed
  then have t: "holds (umem s2) ?ptr (xs @ [0])" using s2(7) by simp
  have l5: "separate [region p 4000, region ?ptr 1024, region (printf_buf y) 2000, region (init_slot y) 8, region (line_fmt y) 4]"
    "?ptr \<noteq> NULL" "unat ?ptr + 1024 < 4294967296"
    using l by (simp_all add: init_layout_def)
  obtain s3 where "call_printf c sc y [line_fmt y, ?ptr] s2 = Some s3" "world s3 = (keys, out @ [List.map cell_of (xs @ xs @ [10])])"
    "u_stdin s3 = Some i" "u_stdout s3 = Some j" "\<forall>k. k \<noteq> j \<longrightarrow> fslot s3 k = fslot s2 k"
    "fslot s3 j = \<lparr>io_size = 4000, io_index = jx, io_t_size = 0, io_base = p, io_ptr = p\<rparr>" "holds (umem s3) (line_fmt y) line_format"
    using printf_line [OF console_displays [OF sc] l5 s2(5,3,6) n xs(1) t f2, of c] s2(1,2) by auto
  moreover from this have "ready y i j q p ix jx s3" using r1 s2(4) by (simp add: ready_def)
  ultimately show ?thesis using g by (simp add: init_round_def s1_def [symmetric] Let_def)
qed

text \<open>C39: Over a console the loop of the first user program, given lines of 1 to 998 printable characters
  each ended by code 3, takes all of them and writes one output per line: the echoed characters
  followed by the line, so that every line is shown twice.\<close>

theorem init_echoes_lines:
  assumes "console sc" and "init_layout c y q p" and "ready y i j q p ix jx s"
    and "\<forall>xs \<in> set ls. xs \<noteq> [] \<and> length xs < 999 \<and> (\<forall>b \<in> set xs. printable b)"
    and "world s = (concat (List.map (\<lambda>xs. xs @ [3]) ls) @ keys, out)"
  shows "\<exists>s'. init_rounds c sc y (length ls) s = Some s' \<and>
    world s' = (keys, out @ List.map (\<lambda>xs. List.map cell_of (xs @ xs @ [10])) ls) \<and> ready y i j q p ix jx s'"
  using assms(3-5)
proof (induction ls arbitrary: s out)
  case Nil
  then show ?case by simp
next
  case (Cons xs ls)
  have "world s = (xs @ 3 # concat (List.map (\<lambda>xs. xs @ [3]) ls) @ keys, out)" using Cons.prems(3) by simp
  moreover have "\<forall>b \<in> set xs. printable b" "xs \<noteq> []" "length xs < 999" using Cons.prems(2) by simp_all
  ultimately obtain s1 where s1: "init_round c sc y s = Some s1" "ready y i j q p ix jx s1"
    "world s1 = (concat (List.map (\<lambda>xs. xs @ [3]) ls) @ keys, out @ [List.map cell_of (xs @ xs @ [10])])"
    using init_round_line [OF assms(1,2) Cons.prems(1)] by blast
  from Cons.IH [OF s1(2) _ s1(3)] Cons.prems(2) s1(1) show ?case by simp
qed

text \<open>Two lines, \<^verbatim>\<open>Hi\<close> and \<^verbatim>\<open>ok\<close>.\<close>

definition demo_symbols :: init_symbols where
  "demo_symbols = \<lparr>hello_fmt = 0xC000, address_fmt = 0xC100, line_fmt = 0xC400, init_buf = 0xA000, printf_buf = 0xB000, init_slot = 0xC300\<rparr>"

lemma demo_layout: "init_layout demo_crt demo_symbols 0x7000 0x8000"
  by (simp add: init_layout_def demo_symbols_def demo_crt_def region_apart region_outside)

theorem init_echoes_lines_witness:
  "\<exists>s'. init_rounds demo_crt demo_console demo_symbols 2
      (demo_input\<lparr>umem := store_bytes 0xC400 line_format (\<lambda>_. 0), world := ([72, 105, 3, 111, 107, 3], [])\<rparr>) = Some s' \<and>
    world s' = ([], [List.map cell_of [72, 105, 72, 105, 10], List.map cell_of [111, 107, 111, 107, 10]])"
proof -
  let ?s = "demo_input\<lparr>umem := store_bytes 0xC400 line_format (\<lambda>_. 0), world := ([72, 105, 3, 111, 107, 3], [])\<rparr>"
  have "console demo_console" by (simp add: console_def demo_console_def)
  moreover have "ready demo_symbols 4 5 0x7000 0x8000 0 1 ?s"
    by (simp add: ready_def demo_input_def demo_symbols_def store_bytes_holds)
  moreover have "\<forall>xs \<in> set [[72, 105], [111, 107]]. xs \<noteq> [] \<and> length xs < 999 \<and> (\<forall>b \<in> set xs. printable b)"
    by (simp add: printable_def word_sle_eq)
  ultimately show ?thesis
    using init_echoes_lines [where ls = "[[72, 105], [111, 107]]" and sc = demo_console and c = demo_crt and y = demo_symbols
        and q = "0x7000" and p = "0x8000" and i = 4 and j = 5 and ix = 0 and jx = 1 and s = ?s and keys = "[]" and out = "[]", OF _ demo_layout]
    by (auto simp: numeral_2_eq_2)
qed

end
