(* ===== verification/PrintText.thy ===== *)
theory PrintText
  imports Printk Region
begin

text \<open>
  What \<^verbatim>\<open>printk\<close> and \<^verbatim>\<open>kprintf\<close> of \<^verbatim>\<open>kernel/printk.c\<close> do with any text: as long as strings, arguments and
  buffer lie outside the memory the cursor can reach, printing is the rendering of the format followed by
  one \<^verbatim>\<open>put_char\<close> per character, whatever tabs, line ends and full rows it has. The exception report of
  \<^verbatim>\<open>kernel/int.c\<close> is such a text.
\<close>

section \<open>The memory the cursor can reach\<close>

text \<open>Rows from -128 to 127 of 80 cells, and the cells a tab clears behind the last one.\<close>

definition video :: "addr set" where
  "video = {a. 0xB3000 \<le> unat a \<and> unat a < 0xBD002}"

lemma cell_range:
  fixes v :: int and k :: nat
  assumes "- 128 \<le> v" and "v < 128" and "k < 80"
  shows "0xB3000 \<le> 0xB8000 + 2 * (v * 80 + int k)" and "0xB8000 + 2 * (v * 80 + int k) \<le> 0xBCFFE"
proof -
  have "0 \<le> int k" "int k \<le> 79" "v \<le> 127" using assms by simp_all
  then show "0xB3000 \<le> 0xB8000 + 2 * (v * 80 + int k)" "0xB8000 + 2 * (v * 80 + int k) \<le> 0xBCFFE"
    using assms(1) by simp_all
qed

lemma cell_unat:
  assumes "unat x < 80"
  shows "int (unat (cell x y)) = 0xB8000 + 2 * (sint y * 80 + int (unat x))"
proof -
  have x: "sint x = int (unat x)" using assms by (intro sint_byte) simp
  have y: "- 128 \<le> sint y" "sint y < 128" using sint_ge [of y] sint_lt [of y] by simp_all
  have "cell x y = word_of_int (0xB8000 + 2 * (sint y * 80 + sint x))"
    by (simp add: cell_def)
  then have "uint (cell x y) = (0xB8000 + 2 * (sint y * 80 + sint x)) mod 2 ^ LENGTH(32)" by (simp only: uint_word_of_int)
  also have "\<dots> = 0xB8000 + 2 * (sint y * 80 + sint x)"
    unfolding x using cell_range [OF y assms] by (intro mod_pos_pos_trivial) (simp_all del: of_nat_unat)
  finally show ?thesis by (simp add: x)
qed

lemma cell_video:
  assumes "unat x < 80"
  shows "0xB3000 \<le> unat (cell x y)" and "unat (cell x y) \<le> 0xBCFFE"
proof -
  have y: "- 128 \<le> sint y" "sint y < 128" using sint_ge [of y] sint_lt [of y] by simp_all
  have "0xB3000 \<le> int (unat (cell x y))" "int (unat (cell x y)) \<le> 0xBCFFE"
    unfolding cell_unat [OF assms] using cell_range [OF y assms] .
  then show "0xB3000 \<le> unat (cell x y)" "unat (cell x y) \<le> 0xBCFFE" by (simp_all del: of_nat_unat)
qed

lemma near_video:
  assumes "unat x < 80" and "a - cell x y < 4"
  shows "a \<in> video"
proof -
  have d: "unat (a - cell x y) < 4" using assms(2) by (simp add: word_less_nat_alt)
  have "a = cell x y + (a - cell x y)" by simp
  moreover have "unat (cell x y + (a - cell x y)) = unat (cell x y) + unat (a - cell x y)"
    using cell_video [OF assms(1), of y] d by (intro unat_add_lem [THEN iffD1]) simp
  ultimately have "unat a = unat (cell x y) + unat (a - cell x y)" by simp
  then show ?thesis using cell_video [OF assms(1), of y] d by (simp add: video_def)
qed

lemma put_char_outside:
  assumes "column_ok s" and "a \<notin> video"
  shows "scr_mem (put_char hw c s) a = scr_mem s a"
proof -
  let ?p = "cell (kx s) (ky s)"
  have x: "unat (kx s) < 80" using assms(1) by (simp add: column_ok_def)
  have far: "\<not> a - ?p < 4" using near_video [OF x] assms(2) by blast
  then have "a \<noteq> ?p" "a \<noteq> ?p + 1" by auto
  moreover have "\<not> a - ?p < tab_width (kx s)"
  proof -
    define k where "k = 4 - unat (kx s) mod 4"
    have k: "tab_width (kx s) = of_nat k" "k \<le> 4" unfolding k_def using x by (rule_tac tab_width_column) simp_all
    then have "unat (tab_width (kx s)) \<le> 4" by (simp add: unat_of_nat32)
    then show ?thesis using far by (simp add: word_less_nat_alt)
  qed
  ultimately show ?thesis by (simp add: put_char_def Let_def store16_def memset_eq)
qed

section \<open>Text\<close>

definition type_out :: "hardware \<Rightarrow> u8 list \<Rightarrow> 's kscreen_scheme \<Rightarrow> 's kscreen_scheme" where
  "type_out hw bs s = scroll hw (fold (put_char hw) bs s)"

lemma vprintk_loop_types:
  assumes "column_ok s" and "0 \<notin> set bs" and "holds (scr_mem s) buf (bs @ [0])" and "\<forall>i \<le> length bs. buf + of_nat i \<notin> video"
  shows "vprintk_loop hw buf s = Some (fold (put_char hw) bs s)"
  using assms
proof (induction bs arbitrary: buf s)
  case Nil
  then show ?case by (subst vprintk_loop.simps) simp
next
  case (Cons b bs)
  let ?s = "put_char hw b s"
  have out: "buf + 1 + of_nat i \<notin> video" if "i \<le> length bs" for i
    using Cons.prems(4) [rule_format, of "Suc i"] that by (simp add: add.assoc)
  have "holds (scr_mem ?s) (buf + 1) (bs @ [0]) = holds (scr_mem s) (buf + 1) (bs @ [0])"
    using put_char_outside [OF Cons.prems(1) out, of _ hw b] by (intro holds_cong) simp
  then have "vprintk_loop hw (buf + 1) ?s = Some (fold (put_char hw) bs ?s)"
    using Cons.prems out put_char_column [OF Cons.prems(1)] by (intro Cons.IH) simp_all
  then show ?case using Cons.prems(2,3) by (subst vprintk_loop.simps) auto
qed

lemma vprintk_types:
  assumes "column_ok s" and "0 \<notin> set bs" and "holds (scr_mem s) buf (bs @ [0])" and "\<forall>i \<le> length bs. buf + of_nat i \<notin> video"
  shows "vprintk hw buf s = Some (0, type_out hw bs s)"
  using vprintk_loop_types [OF assms] by (simp add: vprintk_def type_out_def)

lemma fold_put_char:
  assumes "column_ok s"
  shows "column_ok (fold (put_char hw) bs s)" and "a \<notin> video \<Longrightarrow> scr_mem (fold (put_char hw) bs s) a = scr_mem s a"
proof -
  have "column_ok (fold (put_char hw) bs s) \<and> (a \<notin> video \<longrightarrow> scr_mem (fold (put_char hw) bs s) a = scr_mem s a)"
    using assms by (induction bs arbitrary: s) (simp_all add: put_char_column put_char_outside)
  then show "column_ok (fold (put_char hw) bs s)" and "a \<notin> video \<Longrightarrow> scr_mem (fold (put_char hw) bs s) a = scr_mem s a"
    by blast+
qed

lemma type_out_column: "column_ok s \<Longrightarrow> column_ok (type_out hw bs s)"
  using fold_put_char(1) [of s hw bs] by (simp add: type_out_def column_ok_def)

lemma type_out_outside: "column_ok s \<Longrightarrow> a \<notin> video \<Longrightarrow> scr_mem (type_out hw bs s) a = scr_mem s a"
  using fold_put_char(2) [of s a hw bs] by (simp add: type_out_def)

section \<open>Formats\<close>

text \<open>The words and strings of the arguments lie outside \<open>V\<close>.\<close>

fun args_off :: "addr set \<Rightarrow> addr \<Rightarrow> farg list \<Rightarrow> bool" where
  "args_off V a [] \<longleftrightarrow> True"
| "args_off V a (Word w # xs) \<longleftrightarrow> (\<forall>i < 4. a + of_nat i \<notin> V) \<and> args_off V (a + 4) xs"
| "args_off V a (Text p t # xs) \<longleftrightarrow>
     (\<forall>i < 4. a + of_nat i \<notin> V) \<and> (p = NULL \<or> (\<forall>i \<le> length t. p + of_nat i \<notin> V)) \<and> args_off V (a + 4) xs"

lemma kept_cong:
  assumes "kept buf n m p bs" and "\<forall>i < length bs. p + of_nat i \<notin> V" and "\<And>a. a \<notin> V \<Longrightarrow> \<not> a - buf < of_nat n \<Longrightarrow> m' a = m a"
  shows "kept buf n m' p bs"
  using assms by (simp add: kept_def)

lemma args_kept_cong:
  assumes "args_kept buf n m a xs" and "args_off V a xs" and e: "\<And>a. a \<notin> V \<Longrightarrow> \<not> a - buf < of_nat n \<Longrightarrow> m' a = m a"
  shows "args_kept buf n m' a xs"
  using assms(1,2)
proof (induction xs arbitrary: a)
  case (Cons x xs)
  have w: "\<forall>i < length (word_bytes (farg_word x)). a + of_nat i \<notin> V" using Cons.prems(2) by (cases x) simp_all
  have "text_kept buf n m' x"
  proof (cases x)
    case (Text p t)
    have "kept buf n m' p (t @ [0])" if "p \<noteq> NULL"
      by (rule kept_cong [where m = m, OF _ _ e]) (use Cons.prems Text that in \<open>simp_all add: less_Suc_eq_le\<close>)
    then show ?thesis using Cons.prems(1) Text by auto
  qed simp
  then show ?case using Cons kept_cong [where m = m and buf = buf and n = n, OF _ w e] by (cases x) simp_all
qed simp

lemma kept_mono:
  assumes "kept buf n m p bs" and "k \<le> n" and "n < 5000"
  shows "kept buf k m p bs"
  unfolding kept_def
proof (intro allI impI)
  fix i assume "i < length bs"
  then have "m (p + of_nat i) = bs ! i" "p + of_nat i \<notin> region buf n" using assms(1) by (simp_all add: kept_def region_def)
  then show "m (p + of_nat i) = bs ! i \<and> \<not> p + of_nat i - buf < of_nat k"
    using region_mono [OF assms(2,3), of buf] by (auto simp: region_def)
qed

lemma args_kept_mono: "args_kept buf n m a xs \<Longrightarrow> k \<le> n \<Longrightarrow> n < 5000 \<Longrightarrow> args_kept buf k m a xs"
proof (induction xs arbitrary: a)
  case (Cons x xs)
  have "text_kept buf k m x" using Cons.prems by (cases x) (auto intro: kept_mono simp del: kept_append)
  then show ?case using Cons by (auto intro: kept_mono)
qed simp

text \<open>
  The buffer \<open>kbuf\<close> of 1024 bytes and, from \<open>l\<close> on, the format with its arguments: neither the buffer nor the
  reach of the cursor overlaps them, and the text fits in the buffer.
\<close>

definition text_layout :: "addr \<Rightarrow> addr \<Rightarrow> addr \<Rightarrow> token list \<Rightarrow> farg list \<Rightarrow> u8 list \<Rightarrow> mem \<Rightarrow> bool" where
  "text_layout kbuf l fmt ts xs out m \<longleftrightarrow>
     render ts xs = Some out \<and> (\<forall>t \<in> set ts. token_ok t) \<and> 0 \<notin> set out \<and> length out < 1024 \<and>
     (\<forall>i < 1024. kbuf + of_nat i \<notin> video) \<and> fmt \<noteq> NULL \<and>
     args_kept kbuf 1024 m l (Text fmt (concat (List.map token_bytes ts)) # xs) \<and>
     args_off video l (Text fmt (concat (List.map token_bytes ts)) # xs)"

lemma text_layout_cong:
  "text_layout kbuf l fmt ts xs out m \<Longrightarrow> (\<And>a. a \<notin> video \<Longrightarrow> \<not> a - kbuf < 1024 \<Longrightarrow> m' a = m a) \<Longrightarrow> text_layout kbuf l fmt ts xs out m'"
  unfolding text_layout_def by (elim conjE, intro conjI; (assumption | erule (1) args_kept_cong)) simp

text \<open>The buffer is filled and its text typed.\<close>

definition typed_text :: "hardware \<Rightarrow> addr \<Rightarrow> u8 list \<Rightarrow> 's kscreen_scheme \<Rightarrow> 's kscreen_scheme" where
  "typed_text hw kbuf out s = type_out hw out (s\<lparr>scr_mem := store_bytes kbuf (out @ [0]) (scr_mem s)\<rparr>)"

lemma typed_text_column: "column_ok s \<Longrightarrow> column_ok (typed_text hw kbuf out s)"
  unfolding typed_text_def by (rule type_out_column) (simp add: column_ok_def)

lemma typed_text_outside:
  assumes "column_ok s" and "a \<notin> video" and "\<not> a - kbuf < of_nat (length out + 1)" and "length out < 1024"
  shows "scr_mem (typed_text hw kbuf out s) a = scr_mem s a"
proof -
  have "column_ok (s\<lparr>scr_mem := store_bytes kbuf (out @ [0]) (scr_mem s)\<rparr>)" using assms(1) by (simp add: column_ok_def)
  then show ?thesis unfolding typed_text_def using assms(2-4) by (simp add: type_out_outside store_bytes_frame)
qed

lemma print_formatted_types:
  assumes "column_ok s" and t: "text_layout kbuf l fmt ts xs out (scr_mem s)"
  shows "print_formatted hw kbuf l s = Some (of_nat (length out), typed_text hw kbuf out s)"
proof -
  let ?n = "length out" let ?m = "store_bytes kbuf (out @ [0]) (scr_mem s)"
  have n: "?n < 1024" using t by (simp add: text_layout_def)
  have "args_kept kbuf ?n (scr_mem s) l (Text fmt (concat (List.map token_bytes ts)) # xs)"
    by (rule args_kept_mono [where n = 1024]) (use t in \<open>auto simp: text_layout_def\<close>)
  then have k: "kept kbuf ?n (scr_mem s) l (word_bytes fmt)" "kept kbuf ?n (scr_mem s) fmt (format_bytes ts)"
    "args_kept kbuf ?n (scr_mem s) (l + 4) xs"
    using t by (auto simp: text_layout_def format_bytes_def)
  have "load32 (scr_mem s) l = fmt" by (rule load32_kept [OF k(1)])
  then have "vsprintf kbuf (load32 (scr_mem s) l) (va_start l) (scr_mem s) = Some (of_nat ?n, store_bytes kbuf out (scr_mem s))"
    using vsprintf_loop_renders [of ts xs out kbuf "scr_mem s" fmt "va_start l"] t n k
    by (simp add: vsprintf_def va_start_def text_layout_def)
  moreover have "(store_bytes kbuf out (scr_mem s))(kbuf + of_nat ?n := 0) = ?m"
    using store_bytes_append [of kbuf out "[0]" "scr_mem s"] by simp
  moreover have "vprintk hw kbuf (s\<lparr>scr_mem := ?m\<rparr>) = Some (0, typed_text hw kbuf out s)"
    unfolding typed_text_def
  proof (rule vprintk_types)
    show "holds (scr_mem (s\<lparr>scr_mem := ?m\<rparr>)) kbuf (out @ [0])" using n store_bytes_holds [of "out @ [0]" kbuf "scr_mem s"] by simp
    show "\<forall>i \<le> ?n. kbuf + of_nat i \<notin> video" "0 \<notin> set out" using t by (simp_all add: text_layout_def)
  qed (use assms(1) in \<open>simp add: column_ok_def\<close>)
  ultimately show ?thesis by (simp add: print_formatted_def)
qed

text \<open>\<^verbatim>\<open>[CORE] \<close> and the line end.\<close>

definition core_text :: "u8 list" where
  "core_text = [91, 67, 79, 82, 69, 93, 32]"

definition fresh_line :: "'s kscreen_scheme \<Rightarrow> 's kscreen_scheme" where
  "fresh_line s = (if kx s \<noteq> 0 then s\<lparr>kx := 0, ky := ky s + 1\<rparr> else s)"

lemma fresh_line_simps [simp]: "scr_mem (fresh_line s) = scr_mem s" "column_ok s \<Longrightarrow> column_ok (fresh_line s)"
  by (simp_all add: fresh_line_def column_ok_def)

text \<open>What is printed leaves everything but its buffer and the reach of the cursor.\<close>

lemma typed_text_keeps:
  assumes "column_ok s" and "length out < 1024" and "a \<notin> video" and "\<not> a - kbuf < 1024"
  shows "scr_mem (typed_text hw kbuf out s) a = scr_mem s a"
proof (rule typed_text_outside [OF assms(1,3) _ assms(2)])
  show "\<not> a - kbuf < of_nat (length out + 1)"
    using assms(2,4) by (simp only: word_less_nat_alt) (simp add: unat_of_nat32 del: of_nat_Suc)
qed

lemma printk_text:
  assumes c: "column_ok s" and core: "text_layout kbuf l_core fmt_core (List.map Lit core_text) [] core_text (scr_mem s)"
    and t: "text_layout kbuf l fmt ts xs out (scr_mem s)"
    and nl: "holds (scr_mem s) nl [10, 0]" "\<forall>i < 2. nl + of_nat i \<notin> video \<and> \<not> nl + of_nat i - kbuf < 1024"
  shows "printk hw kbuf l_core nl l s =
    Some (of_nat (length out), type_out hw [10] (typed_text hw kbuf out (typed_text hw kbuf core_text (fresh_line s))))"
proof -
  let ?s1 = "typed_text hw kbuf core_text (fresh_line s)" let ?s2 = "typed_text hw kbuf out ?s1"
  have c0: "column_ok (fresh_line s)" using c by simp
  have c1: "column_ok ?s1" by (rule typed_text_column [OF c0])
  have c2: "column_ok ?s2" by (rule typed_text_column [OF c1])
  have n0: "length core_text < 1024" by (simp add: core_text_def)
  have p0: "print_formatted hw kbuf l_core (fresh_line s) = Some (of_nat (length core_text), ?s1)"
    by (rule print_formatted_types [OF c0]) (use core in simp)
  have "text_layout kbuf l fmt ts xs out (scr_mem ?s1)"
    by (rule text_layout_cong [OF t]) (simp add: typed_text_keeps [OF c0 n0])
  then have p1: "print_formatted hw kbuf l ?s1 = Some (of_nat (length out), ?s2)" by (rule print_formatted_types [OF c1])
  have n: "length out < 1024" using t by (simp add: text_layout_def)
  have keep: "scr_mem ?s2 (nl + of_nat i) = scr_mem s (nl + of_nat i)" if "i < 2" for i
  proof -
    have v: "nl + of_nat i \<notin> video" "\<not> nl + of_nat i - kbuf < 1024" using nl(2) that by blast+
    then show ?thesis using typed_text_keeps [OF c1 n v] typed_text_keeps [OF c0 n0 v] by simp
  qed
  have "vprintk hw nl ?s2 = Some (0, type_out hw [10] ?s2)"
  proof (rule vprintk_types [OF c2])
    have "holds (scr_mem ?s2) nl [10, 0] = holds (scr_mem s) nl [10, 0]" using keep by (intro holds_cong) simp
    then show "holds (scr_mem ?s2) nl ([10] @ [0])" using nl(1) by simp
    show "\<forall>i \<le> length [10 :: u8]. nl + of_nat i \<notin> video" using nl(2) by (simp add: less_Suc_eq_le numeral_2_eq_2)
  qed simp
  then show ?thesis using p0 p1 by (simp add: printk_def fresh_line_def Let_def)
qed

text \<open>C29: printk of any text that fits in its buffer opens a new line if needed, types the prefix, then
  the reference rendering of its format and arguments character by character, then a line end, and
  returns the length of the rendering, wherever the cursor is.\<close>

theorem printk_types:
  assumes "column_ok s" and "text_layout kbuf l_core fmt_core (List.map Lit core_text) [] core_text (scr_mem s)"
    and "text_layout kbuf l fmt ts xs out (scr_mem s)"
    and "holds (scr_mem s) nl [10, 0]" and "\<forall>i < 2. nl + of_nat i \<notin> video \<and> \<not> nl + of_nat i - kbuf < 1024"
  shows "printk hw kbuf l_core nl l s =
    Some (of_nat (length out), type_out hw [10] (typed_text hw kbuf out (typed_text hw kbuf core_text (fresh_line s))))"
  by (rule printk_text [OF assms])

section \<open>The exception report\<close>

text \<open>\<^verbatim>\<open>_exphandle8_\<close>; \<open>fmt\<close> is the address of its format, \<open>l\<close> the stack slot of the first argument of \<^verbatim>\<open>printk\<close>.\<close>

definition exphandle8 ::
  "hardware \<Rightarrow> addr \<Rightarrow> addr \<Rightarrow> addr \<Rightarrow> addr \<Rightarrow> addr \<Rightarrow> cint \<Rightarrow> cint \<Rightarrow> cint \<Rightarrow> cint \<Rightarrow> cint \<Rightarrow> 's kscreen_scheme \<Rightarrow> 's kscreen_scheme option" where
  "exphandle8 hw kbuf l_core nl l fmt error_code expvector eip cs eflags s =
     map_option snd (printk hw kbuf l_core nl l
       (s\<lparr>scr_mem := push_args l [fmt, error_code, expvector, eip, cs, eflags] (scr_mem s)\<rparr>))"

definition chars :: "string \<Rightarrow> u8 list" where
  "chars cs = List.map of_char cs"

definition exception_format :: "token list" where
  "exception_format =
     List.map Lit (chars ''EXCEPTION:'' @ [10, 9, 9] @ chars ''error_code:'') @ [Hex] @ List.map Lit (chars '',expvector:'') @ [Hex] @
     List.map Lit (chars '',eip:'') @ [Hex] @ List.map Lit (chars '',cs:'') @ [Hex] @ List.map Lit (chars '',eflags:'') @ [Hex, Lit 10]"

definition exception_text :: "u32 list \<Rightarrow> u8 list" where
  "exception_text ws =
     chars ''EXCEPTION:'' @ [10, 9, 9] @ chars ''error_code:'' @ hexadecimal (ws ! 0) @ chars '',expvector:'' @ hexadecimal (ws ! 1) @
     chars '',eip:'' @ hexadecimal (ws ! 2) @ chars '',cs:'' @ hexadecimal (ws ! 3) @ chars '',eflags:'' @ hexadecimal (ws ! 4) @ [10]"

lemma exception_renders:
  "render exception_format [Word a, Word b, Word c, Word d, Word e] = Some (exception_text [a, b, c, d, e])"
  by (simp add: exception_format_def exception_text_def chars_def)

lemma exception_tokens: "\<forall>t \<in> set exception_format. token_ok t"
  by (simp add: exception_format_def chars_def)

lemma exception_fits: "length (exception_text ws) \<le> 93" "0 \<notin> set (exception_text ws)"
proof -
  show "length (exception_text ws) \<le> 93"
    using hexadecimal_text(1) [of "ws ! 0"] hexadecimal_text(1) [of "ws ! 1"] hexadecimal_text(1) [of "ws ! 2"]
      hexadecimal_text(1) [of "ws ! 3"] hexadecimal_text(1) [of "ws ! 4"]
    by (simp add: exception_text_def chars_def)
  show "0 \<notin> set (exception_text ws)" by (simp add: exception_text_def chars_def hexadecimal_text(2))
qed

lemma args_off_words: "\<forall>i < 4 * length ws. a + of_nat i \<notin> V \<Longrightarrow> args_off V a (List.map Word ws)"
proof (induction ws arbitrary: a)
  case (Cons w ws)
  have "a + 4 + of_nat i \<notin> V" if "i < 4 * length ws" for i
    using Cons.prems [rule_format, of "4 + i"] that by (simp add: add.assoc)
  then have "args_off V (a + 4) (List.map Word ws)" by (intro Cons.IH) blast
  then show ?case using Cons.prems by simp
qed simp

text \<open>The strings, the arguments and the buffer of the report, in the memory after the arguments were pushed.\<close>

definition exception_layout :: "addr \<Rightarrow> addr \<Rightarrow> addr \<Rightarrow> addr \<Rightarrow> addr \<Rightarrow> addr \<Rightarrow> mem \<Rightarrow> bool" where
  "exception_layout kbuf l_core fmt_core nl l fmt m \<longleftrightarrow>
     text_layout kbuf l_core fmt_core (List.map Lit core_text) [] core_text m \<and>
     holds m nl [10, 0] \<and> (\<forall>i < 2. nl + of_nat i \<notin> video \<and> \<not> nl + of_nat i - kbuf < 1024) \<and>
     (\<forall>i < 24. l + of_nat i \<notin> video \<and> \<not> l + of_nat i - kbuf < 1024) \<and>
     fmt \<noteq> NULL \<and> unat fmt + 1024 < 4294967296 \<and> kept kbuf 1024 m fmt (format_bytes exception_format) \<and>
     (\<forall>i < length (format_bytes exception_format). fmt + of_nat i \<notin> video)"

text \<open>The exception report, which nothing calls, prints its five arguments in hexadecimal, whatever they
  are, and its text is at most 93 characters long.\<close>

theorem exception_report:
  assumes c: "column_ok s"
    and e: "exception_layout kbuf l_core fmt_core nl l fmt (push_args l [fmt, error_code, expvector, eip, cs, eflags] (scr_mem s))"
  shows "exphandle8 hw kbuf l_core nl l fmt error_code expvector eip cs eflags s =
      Some (type_out hw [10] (typed_text hw kbuf (exception_text [error_code, expvector, eip, cs, eflags]) (typed_text hw kbuf core_text
        (fresh_line (s\<lparr>scr_mem := push_args l [fmt, error_code, expvector, eip, cs, eflags] (scr_mem s)\<rparr>))))) \<and>
    length (exception_text [error_code, expvector, eip, cs, eflags]) \<le> 93"
proof -
  let ?ws = "[error_code, expvector, eip, cs, eflags]" let ?t = "concat (List.map token_bytes exception_format)"
  let ?m = "push_args l (fmt # ?ws) (scr_mem s)" let ?s = "s\<lparr>scr_mem := ?m\<rparr>"
  have n: "length (exception_text ?ws) < 1024" using exception_fits(1) [of ?ws] by simp
  have f: "format_bytes exception_format = ?t @ [0]" by (simp add: format_bytes_def)
  have z: "0 \<notin> set ?t" "length ?t < 1024" by (simp_all add: exception_format_def chars_def)
  have l: "\<forall>i < 4 * length (fmt # ?ws). \<not> l + of_nat i - kbuf < of_nat 1024" "\<forall>i < 4 * length (fmt # ?ws). l + of_nat i \<notin> video"
    using e by (simp_all add: exception_layout_def)
  have "args_kept kbuf 1024 ?m l (List.map Word (fmt # ?ws))" by (rule args_kept_pushed [OF _ l(1)]) simp
  moreover have "text_kept kbuf 1024 ?m (Text fmt ?t)" using e z unfolding exception_layout_def f by simp
  ultimately have "args_kept kbuf 1024 ?m l (Text fmt ?t # List.map Word ?ws)" by simp
  moreover have "args_off video l (Text fmt ?t # List.map Word ?ws)"
    using args_off_words [OF l(2)] e unfolding exception_layout_def f by (simp add: less_Suc_eq_le)
  ultimately have "text_layout kbuf l fmt exception_format (List.map Word ?ws) (exception_text ?ws) ?m"
    unfolding text_layout_def using e exception_renders exception_tokens exception_fits(2) n
    by (simp add: exception_layout_def text_layout_def)
  then have t: "text_layout kbuf l fmt exception_format (List.map Word ?ws) (exception_text ?ws) (scr_mem ?s)" by simp
  have c': "column_ok ?s" using c by (simp add: column_ok_def)
  have core: "text_layout kbuf l_core fmt_core (List.map Lit core_text) [] core_text (scr_mem ?s)"
    and nl: "holds (scr_mem ?s) nl [10, 0]" "\<forall>i < 2. nl + of_nat i \<notin> video \<and> \<not> nl + of_nat i - kbuf < 1024"
    using e by (simp_all add: exception_layout_def del: push_args.simps)
  note p = printk_text [OF c' core t nl, of hw]
  show ?thesis using exception_fits(1) [of ?ws] by (simp only: exphandle8_def p option.simps snd_conv)
qed

section \<open>Examples\<close>

lemma below_video: "unat a + n \<le> 0xB3000 \<Longrightarrow> i < n \<Longrightarrow> a + of_nat i \<notin> video"
proof -
  assume a: "unat a + n \<le> 0xB3000" and i: "i < n"
  then have "unat (of_nat i :: u32) = i" by (intro unat_of_nat32) simp
  then have "unat (a + of_nat i) = unat a + i" using a i by (simp add: unat_word_ariths)
  then show ?thesis using a i by (simp add: video_def)
qed

lemma below_video_all: "unat a + n \<le> 0xB3000 \<Longrightarrow> \<forall>i < n. a + of_nat i \<notin> video" "unat a + n < 0xB3000 \<Longrightarrow> \<forall>i \<le> n. a + of_nat i \<notin> video"
  using below_video [of a n] below_video [of a "Suc n"] by (simp_all add: less_Suc_eq_le)

text \<open>Buffer, prefix, line end and the format \<open>bs\<close>, and a cursor in the last column of row 24.\<close>

definition demo_strings :: "u8 list \<Rightarrow> mem" where
  "demo_strings bs = push_args 0x1000 [0x4000] (store_bytes 0x6000 [10, 0] (store_bytes 0x5000 bs
     (store_bytes 0x4000 (format_bytes (List.map Lit core_text)) (\<lambda>_. 0))))"

definition demo_cursor :: "mem \<Rightarrow> kscreen" where
  "demo_cursor m = \<lparr>port_in = (\<lambda>_. 0), port_out = [], scr_mem = m, kx = 79, ky = 24\<rparr>"

lemma off_region:
  assumes "region a n \<inter> region b k = {}" and "n < 5000"
  shows "\<forall>i < n. \<not> a + of_nat i - b < of_nat k"
proof (intro allI impI)
  fix i assume "i < n"
  then have "a + of_nat i \<notin> region b k" using region_at [OF _ assms(2), of i a] assms(1) by blast
  then show "\<not> a + of_nat i - b < of_nat k" by (simp add: region_def)
qed

lemma demo_newline: "\<forall>i < 2. (0x6000 :: addr) + of_nat i \<notin> video \<and> \<not> 0x6000 + of_nat i - (0x3000 :: addr) < 1024"
proof -
  have "i < 2 \<longleftrightarrow> i = 0 \<or> i = 1" for i :: nat by linarith
  then show ?thesis by (auto simp: video_def)
qed

lemma demo_core:
  "text_layout 0x3000 0x1000 0x4000 (List.map Lit core_text) [] core_text (push_args 0x2000 [0x5000, w] (demo_strings (format_bytes [Hex])))"
  by (simp add: text_layout_def core_text_def demo_strings_def format_bytes_def word_bytes_def store32_def) (intro conjI below_video_all; simp)

lemma demo_hex:
  "text_layout 0x3000 0x2000 0x5000 [Hex] [Word w] (hexadecimal w) (push_args 0x2000 [0x5000, w] (demo_strings (format_bytes [Hex])))"
proof -
  have "length (hexadecimal w) < 1024" using hexadecimal_text(1) [of w] by simp
  then show ?thesis
    using hexadecimal_text(2) [of w]
    by (simp add: text_layout_def core_text_def demo_strings_def format_bytes_def word_bytes_def store32_def) (intro conjI below_video_all; simp)
qed

theorem printk_types_witness:
  "\<exists>s'. printk latch 0x3000 0x1000 0x6000 0x2000 (demo_cursor (push_args 0x2000 [0x5000, 0xBEEF] (demo_strings (format_bytes [Hex])))) = Some (4, s')"
proof -
  let ?m = "push_args 0x2000 [0x5000, 0xBEEF] (demo_strings (format_bytes [Hex]))"
  have "holds ?m 0x6000 [10, 0]" by (simp add: demo_strings_def store32_def)
  moreover have "\<forall>i < 2. (0x6000 :: addr) + of_nat i \<notin> video \<and> \<not> 0x6000 + of_nat i - (0x3000 :: addr) < 1024"
    by (rule demo_newline)
  ultimately have "printk latch 0x3000 0x1000 0x6000 0x2000 (demo_cursor ?m) =
      Some (of_nat (length (hexadecimal 0xBEEF)), type_out latch [10] (typed_text latch 0x3000 (hexadecimal 0xBEEF)
        (typed_text latch 0x3000 core_text (fresh_line (demo_cursor ?m)))))"
    using demo_core demo_hex by (intro printk_types) (simp_all add: demo_cursor_def column_ok_def)
  moreover have "length (hexadecimal 0xBEEF) = 4" by (simp add: hexadecimal_def number.simps)
  ultimately show ?thesis by simp
qed

lemma demo_format_kept:
  assumes "length bs < 1024" and "length ws < 256"
  shows "kept 0x3000 1024 (push_args 0x2000 ws (demo_strings bs)) 0x5000 bs"
proof (rule holds_kept)
  have w: "length (concat (List.map word_bytes us)) = 4 * length us" for us by (induction us) simp_all
  have r: "region 0x2000 1024 \<inter> region 0x5000 (length bs) = {}" "region 0x1000 4 \<inter> region 0x5000 (length bs) = {}"
    "region 0x5000 (length bs) \<inter> region 0x6000 2 = {}"
    using assms(1) by (intro region_apart; simp)+
  show "holds (push_args 0x2000 ws (demo_strings bs)) 0x5000 bs"
  proof (rule holds_frame)
    show "holds (store_bytes 0x5000 bs (store_bytes 0x4000 (format_bytes (List.map Lit core_text)) (\<lambda>_. 0))) 0x5000 bs"
      using assms(1) by (intro store_bytes_holds) simp
    fix x assume x: "x \<in> region 0x5000 (length bs)"
    then have o: "x \<notin> region 0x2000 1024" "x \<notin> region 0x1000 4" "x \<notin> region 0x6000 2" using r by blast+
    have "push_args 0x2000 ws (demo_strings bs) x = demo_strings bs x"
      unfolding push_args_bytes by (rule store_bytes_out [OF o(1)]) (use w assms(2) in simp_all)
    also have "\<dots> = store_bytes 0x6000 [10, 0] (store_bytes 0x5000 bs (store_bytes 0x4000 (format_bytes (List.map Lit core_text)) (\<lambda>_. 0))) x"
      unfolding demo_strings_def push_args_bytes by (rule store_bytes_out [OF o(2)]) simp_all
    also have "\<dots> = store_bytes 0x5000 bs (store_bytes 0x4000 (format_bytes (List.map Lit core_text)) (\<lambda>_. 0)) x"
      by (rule store_bytes_out [OF o(3)]) simp_all
    finally show "push_args 0x2000 ws (demo_strings bs) x = store_bytes 0x5000 bs (store_bytes 0x4000 (format_bytes (List.map Lit core_text)) (\<lambda>_. 0)) x" .
  qed (use assms(1) in simp)
  show "region 0x5000 (length bs) \<inter> region 0x3000 1024 = {}"
    using region_apart [of "0x3000" 1024 "0x5000" "length bs"] assms(1) by (simp add: Int_commute)
qed (use assms(1) in simp)

theorem exception_report_witness:
  "\<exists>s'. exphandle8 latch 0x3000 0x1000 0x6000 0x2000 0x5000 0 13 0x400123 8 0x202 (demo_cursor (demo_strings (format_bytes exception_format))) = Some s'"
proof -
  let ?m = "push_args 0x2000 [0x5000, 0, 13, 0x400123, 8, 0x202] (demo_strings (format_bytes exception_format))"
  have "exception_layout 0x3000 0x1000 0x4000 0x6000 0x2000 0x5000 ?m"
    unfolding exception_layout_def
  proof (intro conjI)
    show "text_layout 0x3000 0x1000 0x4000 (List.map Lit core_text) [] core_text ?m"
      by (simp add: text_layout_def core_text_def demo_strings_def format_bytes_def exception_format_def chars_def word_bytes_def store32_def)
        (intro conjI below_video_all; simp)
    show "holds ?m 0x6000 [10, 0]" by (simp add: demo_strings_def store32_def)
    show "\<forall>i < 2. (0x6000 :: addr) + of_nat i \<notin> video \<and> \<not> 0x6000 + of_nat i - (0x3000 :: addr) < 1024" by (rule demo_newline)
    show "\<forall>i < 24. (0x2000 :: addr) + of_nat i \<notin> video \<and> \<not> 0x2000 + of_nat i - (0x3000 :: addr) < 1024"
      using off_region [OF region_apart [of "0x2000" 24 "0x3000" 1024]] below_video [of "0x2000" 24] by simp
    show "kept 0x3000 1024 ?m 0x5000 (format_bytes exception_format)" by (rule demo_format_kept) (simp_all add: format_bytes_def exception_format_def chars_def)
    show "\<forall>i < length (format_bytes exception_format). (0x5000 :: addr) + of_nat i \<notin> video"
      by (rule below_video_all) (simp add: format_bytes_def exception_format_def chars_def)
  qed simp_all
  then show ?thesis
    using exception_report [of "demo_cursor (demo_strings (format_bytes exception_format))" "0x3000" "0x1000" "0x4000" "0x6000" "0x2000" "0x5000"
        0 13 "0x400123" 8 "0x202" latch]
    by (simp add: demo_cursor_def column_ok_def del: push_args.simps)
qed

end
