(* ===== verification/Spec2Isabelle.thy ===== *)
theory Spec2Isabelle
  imports UserCopy Space MmPool Registry VfsTree MfsDir AvlDelete Printk UserLib WideString Modules Kmain InitApp PrintText
begin

text \<open>
  This library models the core of the \<^verbatim>\<open>fool\<close> kernel, a small i386 operating system in C, and
  states what its parts do. The C code is under \<^verbatim>\<open>src/\<close>; every theory names the files it models.

  \<^bold>\<open>The program.\<close> Memory is managed in three layers: page frames and page tables (\<^verbatim>\<open>mm/page.c\<close>),
  a bump allocator for the kernel (\<^verbatim>\<open>mm/kmalloc.c\<close>) with caches of equal blocks on top of it
  (\<^verbatim>\<open>kernel/cache.c\<close>), and pools with splitting and merging (\<^verbatim>\<open>mm/mm.c\<close>). The object layer
  (\<^verbatim>\<open>kernel/kmodel.c\<close>) keeps registries of devices, drivers, file systems and I/O ports and the tree of open
  directories and inodes, linked by intrusive lists (\<^verbatim>\<open>include/list.h\<close>) and guarded by spin locks
  (\<^verbatim>\<open>include/kernel/signal.h\<close>). The file system (\<^verbatim>\<open>fs/mfs\<close>) plugs into that tree through tables of
  function pointers. The library (\<^verbatim>\<open>lib/\<close>) has bit maps, strings, number formatting and balanced trees.

  \<^bold>\<open>Conventions.\<close> A C integer is a word of its width, and signed readings are written out. A pointer is a
  32-bit word; \<^verbatim>\<open>Prelude\<close> has the flat byte memory and its 32-bit loads and stores. Where code works on
  bytes (strings, bit maps, page tables, user copies) the model works on that memory; where it
  works on structures (pool headers, list links, directories, tree nodes) the model has a typed store from
  addresses to records, so two pointers alias exactly when they are equal. A function that changes
  state takes the state and returns it with its result. Loops with a counter are total functions; a loop
  that follows pointers or may wrap is a \<^theory_text>\<open>partial_function\<close> into \<^typ>\<open>'a option\<close>, where \<^const>\<open>None\<close> means
  that it does not end. A null function pointer that is called, a division by zero, an index behind a
  local array and a spin on a lock nobody releases are also \<^const>\<open>None\<close>. The theorems about such
  functions state that they return. No definition has fuel.

  \<^bold>\<open>Parameters.\<close> What is not C code of the repository is an argument: the block driver behind a device
  (\<^verbatim>\<open>bops\<close>), tables of directory functions when they are not those of MFS (\<^verbatim>\<open>dops\<close>), the registers of the CMOS
  clock (\<^verbatim>\<open>cmos\<close>) and the comparison function of a balanced tree (\<^verbatim>\<open>cmp\<close>). What is assumed of them
  is a named predicate: \<^verbatim>\<open>good_disk\<close> and \<^verbatim>\<open>mfs_dir_ok\<close> for the disk, \<^verbatim>\<open>orders\<close> for the comparison,
  \<^verbatim>\<open>ata_ok\<close> for an IDE drive (the phases of the ATA commands that read and write a sector) and \<^verbatim>\<open>clock_ok\<close> for the
  time stamp counter, \<^verbatim>\<open>console\<close> for a kernel that delivers keys to a program.

  \<^bold>\<open>The theories.\<close>
  \<^item> \<^verbatim>\<open>Bits\<close>, \<^verbatim>\<open>StringLib\<close>, \<^verbatim>\<open>Stdlib\<close>: \<^verbatim>\<open>lib/bits.c\<close>, \<^verbatim>\<open>lib/string.c\<close>, \<^verbatim>\<open>lib/stdlib.c\<close>. \<^verbatim>\<open>bitread\<close> does not mask its
    result; the lemmas of \<^verbatim>\<open>Bits\<close> say when it still answers right. Copy and comparison functions are characterised
    by the bytes they touch; \<^verbatim>\<open>atoi\<close> inverts \<^verbatim>\<open>itoa\<close>.
  \<^item> \<^verbatim>\<open>Slots\<close>: the contract of an allocator of slots as a locale, with the ownership theorem for all
    interleavings of allocation and release; \<^verbatim>\<open>Paging\<close> and \<^verbatim>\<open>Kcache\<close> interpret it.
  \<^item> \<^verbatim>\<open>Kmalloc\<close>, \<^verbatim>\<open>Kcache\<close>, \<^verbatim>\<open>MmPool\<close>: the allocators. A pool is related to the list of its blocks; allocation
    and release are operations on that list.
  \<^item> \<^verbatim>\<open>Paging\<close>, \<^verbatim>\<open>Space\<close>, \<^verbatim>\<open>UserCopy\<close>: frames and the identity mapping, mapping of ranges, and copies between
    kernel and user addresses. Two walks of the tables are kept apart: \<^verbatim>\<open>user_byte\<close> is that of the kernel's own copy functions,
    which looks at page numbers only, \<^verbatim>\<open>mmu_byte\<close> is the processor's, which needs the present bits. They agree where every entry
    with a page number is present (\<^verbatim>\<open>tables_clean\<close>, which includes the contents of the free frames, since
    \<^verbatim>\<open>allocspace\<close> does not clear a frame that becomes a table).
  \<^item> \<^verbatim>\<open>Lock\<close>: spin locks and mutexes, with a step relation for two processors.
  \<^item> \<^verbatim>\<open>ListHead\<close>: the lists, with the locale of ring operations that the object tree uses.
  \<^item> \<^verbatim>\<open>Avl\<close>, \<^verbatim>\<open>AvlTree\<close>, \<^verbatim>\<open>AvlDelete\<close>: \<^verbatim>\<open>lib/avl.c\<close>. The code's loops over nodes refine insertion and deletion on
    trees; both keep order and balance. The arrays of 32 elements suffice below 9227464 nodes for
    insertion and below 5702886 nodes for deletion, the sizes of the thinnest trees that are too high.
  \<^item> \<^verbatim>\<open>Registry\<close>: the tables of \<^verbatim>\<open>kernel/kmodel.c\<close> as finite maps, through a locale for tables of slots.
  \<^item> \<^verbatim>\<open>Vfs\<close>, \<^verbatim>\<open>VfsOpen\<close>, \<^verbatim>\<open>VfsTree\<close>: lookup, opening and closing of directories and inodes, the file table of a
    task and the walk of \<^verbatim>\<open>sys_do_open\<close>; \<^verbatim>\<open>VfsTree\<close> proves the lookups to be list searches.
  \<^item> \<^verbatim>\<open>Clock\<close>: \<^verbatim>\<open>kernel/time.c\<close>.
  \<^item> \<^verbatim>\<open>MfsDisk\<close>, \<^verbatim>\<open>MfsScan\<close>, \<^verbatim>\<open>Mfs\<close>, \<^verbatim>\<open>MfsDir\<close>: \<^verbatim>\<open>fs/mfs\<close>: the structures on disk, the walk over a directory with its
    callbacks, the functions of the file system, and what they do to the list of a directory's entries. The bytes of an inode
    are tied to the packed declaration of the struct: reading a member at its offset gives the model's field.
  \<^item> This theory combines the object tree with MFS.
  \<^item> \<^verbatim>\<open>IoPort\<close>, \<^verbatim>\<open>Interrupt\<close>, \<^verbatim>\<open>Keyboard\<close>: \<^verbatim>\<open>kernel/8259a.c\<close>, \<^verbatim>\<open>kernel/int.c\<close>, \<^verbatim>\<open>drivers/keyboard.c\<close>: port input and output, the
    descriptors, routing of interrupts and system calls, and the scan code automaton.
  \<^item> \<^verbatim>\<open>Syscall\<close>: the system calls of \<^verbatim>\<open>kernel/int.c\<close>: opening a path of a mounted volume, reading and writing
    through a descriptor.
  \<^item> \<^verbatim>\<open>Descriptors\<close>, \<^verbatim>\<open>Schedu\<close>: segment descriptors and the task state segment of \<^verbatim>\<open>kernel/kmain.c\<close>, the initial tasks and
    the register frames of \<^verbatim>\<open>kernel/schedu.c\<close>.
  \<^item> \<^verbatim>\<open>Ide\<close>, \<^verbatim>\<open>IdeDisk\<close>: \<^verbatim>\<open>drivers/ide.c\<close> over a drive that is a parameter; the waiting loops are partial functions, shown to
    return under a clock that advances. The transfer of sectors is proved over a drive that keeps the ATA protocol, a step relation on
    its phases with the interrupts and the status bits they show.
  \<^item> \<^verbatim>\<open>Printk\<close>, \<^verbatim>\<open>Vga\<close>: \<^verbatim>\<open>kernel/printk.c\<close>, \<^verbatim>\<open>drivers/vga.c\<close> and \<^verbatim>\<open>drivers/console.c\<close>: text in the video memory, cursor and scrolling.
  \<^item> \<^verbatim>\<open>WideString\<close>: the wide-character functions of \<^verbatim>\<open>lib/string.c\<close>.
  \<^item> \<^verbatim>\<open>UserLib\<close>: \<^verbatim>\<open>lib/io.c\<close> and \<^verbatim>\<open>lib/file.c\<close> over a kernel that is an argument, and what a program sees on the modelled kernel.
  \<^item> \<^verbatim>\<open>Format\<close>: what \<^verbatim>\<open>vsprintf\<close> writes, against positional notation and a rendering of formats on lists; \<^verbatim>\<open>Printk\<close>, \<^verbatim>\<open>Kmain\<close>
    and \<^verbatim>\<open>InitApp\<close> use it.
  \<^item> \<^verbatim>\<open>Region\<close>, \<^verbatim>\<open>PrintText\<close>: layouts of buffers and arguments; \<^verbatim>\<open>printk\<close> of any text as one \<^verbatim>\<open>put_char\<close> per character
    of the rendering, and the exception report of \<^verbatim>\<open>kernel/int.c\<close>.
  \<^item> \<^verbatim>\<open>Keymap\<close>: the key table of \<^verbatim>\<open>drivers/keymap_US.c\<close> and the codes of \<^verbatim>\<open>include/drivers/keyboard.h\<close>,
    and the American layout written down by rows of keys, which the table agrees with.
  \<^item> \<^verbatim>\<open>Boot\<close>, \<^verbatim>\<open>Modules\<close>, \<^verbatim>\<open>Kmain\<close>: the start of \<^verbatim>\<open>kmain\<close> up to the enabling of interrupts; \<^verbatim>\<open>module_init\<close> with the structures
    the drivers register; the loop of \<^verbatim>\<open>kmain\<close>, in which \<^verbatim>\<open>hlt\<close> waits for the next byte of the keyboard.
  \<^item> \<^verbatim>\<open>InitApp\<close>: \<^verbatim>\<open>app/Init.c\<close>: what a console shows of the lines typed.

  \<^bold>\<open>Faults of the code.\<close> The model keeps them, and where a property fails because of one the theorem states
  what happens instead: for instance a frame whose bitmap byte has a higher bit set is not released, a spin
  lock is not exclusive, \<^verbatim>\<open>mfs_rm\<close> erases the wrong entry, and no file of a file system can be opened.

  \<^bold>\<open>Not modelled.\<close> The assembly stubs (\<^verbatim>\<open>kroute.s\<close>, the entry code) and the boot loader, which are not C; \<^verbatim>\<open>drivers/ram.c\<close>, which
  includes headers the repository does not have and no compiler accepts; and declarations no code uses: the executable
  and archive formats of \<^verbatim>\<open>include/kernel/elf.h\<close>, scan codes nothing tests, prototypes.
\<close>

section \<open>The kernel's tree over the MFS file system\<close>

lemma touched_keeps_tree:
  "inode_children (touched s pdir p nm) q ns = inode_children s q ns" "quiet (touched s pdir p nm) q = quiet s q"
  "d_op (d_data (dirs (touched s pdir p nm) q)) = d_op (d_data (dirs s q))"
  "inode_name (touched s pdir p nm) = inode_name s"
  by (auto simp: touched_def put_entry_def set_attrib_def upd_item_def upd_dir_def inode_children_def quiet_def inode_name_def
      fun_eq_iff split: list.split)

text \<open>C25: Opening a new file through dir_do_opennewinode over MFS creates the entry on the disk and then
  fails to open it.\<close>

theorem new_file_created_not_opened:
  assumes "mfs_dir_ok bops s pdir" and "nm 0 \<noteq> 0" and "find (is_entry (named_io nm)) (entries s pdir) = None"
    and "find (\<lambda>e. name_len e = 0) (entries s pdir) \<noteq> None"
    and "d_op (d_data (dirs s pdir)) \<noteq> 0" and "dops (d_op (d_data (dirs s pdir))) = mfs_dop bops"
    and "inode_children s pdir ns" and "quiet s pdir" and "find (\<lambda>p. same_name (inode_name s p) nm) ns = None"
  shows "\<exists>p < 64. \<exists>pp s'. dir_do_opennewinode dops pdir NULL nm s = Some (INVALID, pp, s') \<and>
    entries s' pdir = (entries s pdir)[p := new_file nm (clock s)]"
proof -
  obtain p where p: "p < 64" "name_len (entry s pdir p) = 0" "\<forall>q < p. name_len (entry s pdir q) \<noteq> 0"
    using first_free [OF assms(4)] .
  let ?s = "touched s pdir p nm"
  note t = touch_state [OF assms(1,3) p, folded touched_def] and r = touched_reads [OF assms(1-3) p(1)]
  obtain a where a: "mfs_readattrib bops pdir zero_attrib nm ?s = Some (VALID, a, ?s)" "i_type a = ITYPE_ARCHIVE"
    using r(3) by blast
  have pd: "pdir \<noteq> 0" using assms(1) by (simp add: mfs_dir_ok_def)
  have "dir_check_fsitem dops pdir zero_attrib nm ?s = Some (VALID, a, ?s)"
    using pd assms(5,6) a(1) by (simp add: dir_check_fsitem_def touched_keeps_tree mfs_dop_def Let_def)
  then obtain pp where "dir_do_openinode dops pdir NULL nm ?s = Some (INVALID, pp, ?s)"
    using openinode_live [of pdir ?s ns nm dops] assms(7-9) pd a(2)
    by (auto simp: touched_keeps_tree ITYPE_ARCHIVE_def ITYPE_ALIVE_def)
  then have "dir_do_opennewinode dops pdir NULL nm s = Some (INVALID, pp, ?s)"
    using t pd assms(5,6) by (simp add: dir_do_opennewinode_def mfs_dop_def Let_def)
  with r(2) p(1) show ?thesis by blast
qed

theorem new_file_created_not_opened_witness:
  "\<exists>p < 64. \<exists>pp s'. dir_do_opennewinode (\<lambda>_. mfs_dop (\<lambda>_. demo_disk)) 0x1000 NULL (str_name [103]) demo_mfs = Some (INVALID, pp, s') \<and>
    entries s' 0x1000 = (entries demo_mfs 0x1000)[p := new_file (str_name [103]) (clock demo_mfs)]"
proof (rule new_file_created_not_opened [OF demo_mfs_ok _ demo_finds(2,3)])
  show "inode_children demo_mfs 0x1000 []" "quiet demo_mfs 0x1000" "d_op (d_data (dirs demo_mfs 0x1000)) \<noteq> 0"
    by (simp_all add: demo_mfs_def inode_children_def quiet_def zero_dir_def)
qed (simp_all add: str_name_def)

end
